(* ===== verification/Edge_Prelude.thy ===== *)
theory Edge_Prelude
  imports Complex_Main "HOL-Library.AList"
begin

text \<open>
  Shared vocabulary of the development: Python exceptions as values, a result type for code that
  may raise, Python floats, timestamps, string splitting and joining, fixed-width hexadecimal,
  rounding half to even, and the generic lemmas on them that the component theories use.
\<close>

named_theorems edge_simps \<open>unfolding rules shared by the component proofs\<close>
named_theorems edge_intros \<open>preservation rules shared by the component proofs\<close>

section \<open>Exceptions and results\<close>

text \<open>
  One constructor per exception class the source raises, catches or names. The string is the
  message. \<open>OtherError c m\<close> stands for an exception of class \<open>c\<close> raised by a library.
  \<open>CancelledError\<close> is asyncio's cancellation, which is not an \<open>Exception\<close> in Python.
\<close>

datatype exn =
    ValueError string
  | ValidationError string
  | TypeError string
  | OverflowError string
  | KeyError string
  | RuntimeError string
  | AssertionError
  | RequestTimeout string
  | TimeoutError string
  | ConnectionError string
  | OtherError string string
  | CancelledError

text \<open>The class name, as \<open>type(exc).__name__\<close> returns it, and the message, as \<open>str(exc)\<close>.\<close>

fun exn_name :: "exn \<Rightarrow> string" where
  "exn_name (ValueError _) = ''ValueError''"
| "exn_name (ValidationError _) = ''ValidationError''"
| "exn_name (TypeError _) = ''TypeError''"
| "exn_name (OverflowError _) = ''OverflowError''"
| "exn_name (KeyError _) = ''KeyError''"
| "exn_name (RuntimeError _) = ''RuntimeError''"
| "exn_name AssertionError = ''AssertionError''"
| "exn_name (RequestTimeout _) = ''RequestTimeout''"
| "exn_name (TimeoutError _) = ''TimeoutError''"
| "exn_name (ConnectionError _) = ''ConnectionError''"
| "exn_name (OtherError c _) = c"
| "exn_name CancelledError = ''CancelledError''"

fun exn_msg :: "exn \<Rightarrow> string" where
  "exn_msg (ValueError m) = m"
| "exn_msg (ValidationError m) = m"
| "exn_msg (TypeError m) = m"
| "exn_msg (OverflowError m) = m"
| "exn_msg (KeyError m) = m"
| "exn_msg (RuntimeError m) = m"
| "exn_msg AssertionError = []"
| "exn_msg (RequestTimeout m) = m"
| "exn_msg (TimeoutError m) = m"
| "exn_msg (ConnectionError m) = m"
| "exn_msg (OtherError _ m) = m"
| "exn_msg CancelledError = []"

text \<open>\<open>except ValueError\<close> also catches pydantic's \<open>ValidationError\<close>, a subclass.\<close>

fun is_value_error :: "exn \<Rightarrow> bool" where
  "is_value_error (ValueError _) = True"
| "is_value_error (ValidationError _) = True"
| "is_value_error _ = False"

fun is_type_error :: "exn \<Rightarrow> bool" where
  "is_type_error (TypeError _) = True"
| "is_type_error _ = False"

fun is_runtime_error :: "exn \<Rightarrow> bool" where
  "is_runtime_error (RuntimeError _) = True"
| "is_runtime_error _ = False"

text \<open>\<open>except Exception\<close> catches everything but the cancellation.\<close>

definition is_exception :: "exn \<Rightarrow> bool" where
  "is_exception e \<longleftrightarrow> e \<noteq> CancelledError"

type_synonym 'a res = "exn + 'a"

text \<open>Sequencing of computations that may raise; \<open>guardE\<close> raises when its test fails.\<close>

definition bindE :: "'a res \<Rightarrow> ('a \<Rightarrow> 'b res) \<Rightarrow> 'b res" where
  "bindE m f = (case m of Inl e \<Rightarrow> Inl e | Inr a \<Rightarrow> f a)"

definition guardE :: "bool \<Rightarrow> exn \<Rightarrow> unit res" where
  "guardE b e = (if b then Inr () else Inl e)"

fun mapE :: "('a \<Rightarrow> 'b res) \<Rightarrow> 'a list \<Rightarrow> 'b list res" where
  "mapE f [] = Inr []"
| "mapE f (x # xs) = bindE (f x) (\<lambda>y. bindE (mapE f xs) (\<lambda>ys. Inr (y # ys)))"

lemma bindE_simps [simp]:
  "bindE (Inl e) f = Inl e"
  "bindE (Inr a) f = f a"
  by (simp_all add: bindE_def)

lemma bindE_Inr_iff: "bindE m f = Inr b \<longleftrightarrow> (\<exists>a. m = Inr a \<and> f a = Inr b)"
  by (cases m) auto

lemma bindE_Inl_iff: "bindE m f = Inl e \<longleftrightarrow> m = Inl e \<or> (\<exists>a. m = Inr a \<and> f a = Inl e)"
  by (cases m) auto

lemma guardE_simps [simp]:
  "guardE True e = Inr ()"
  "guardE False e = Inl e"
  by (simp_all add: guardE_def)

lemma guardE_Inr_iff [simp]: "guardE b e = Inr u \<longleftrightarrow> b"
  by (simp add: guardE_def)

lemma guardE_Inl_iff [simp]: "guardE b e = Inl e' \<longleftrightarrow> \<not> b \<and> e' = e"
  by (auto simp: guardE_def)

lemma mapE_Inr_length: "mapE f xs = Inr ys \<Longrightarrow> length ys = length xs"
  by (induction xs arbitrary: ys) (auto simp: bindE_Inr_iff)

lemmas res_iffs = bindE_Inr_iff bindE_Inl_iff

section \<open>Python floats\<close>

text \<open>
  A finite float is an exact real (rounding of the arithmetic is not modelled); the infinities and
  NaN are kept, because the code tests for them. Comparisons with NaN are false, as in Python.
\<close>

datatype pyfloat = Fin real | PosInf | NegInf | NaN

fun isfinite :: "pyfloat \<Rightarrow> bool" where
  "isfinite (Fin _) = True"
| "isfinite _ = False"

fun fle :: "pyfloat \<Rightarrow> pyfloat \<Rightarrow> bool" where
  "fle NaN _ = False"
| "fle _ NaN = False"
| "fle NegInf _ = True"
| "fle _ PosInf = True"
| "fle (Fin x) (Fin y) = (x \<le> y)"
| "fle _ _ = False"

text \<open>Python's \<open>==\<close>: NaN is equal to nothing.\<close>

fun feq :: "pyfloat \<Rightarrow> pyfloat \<Rightarrow> bool" where
  "feq NaN _ = False"
| "feq _ NaN = False"
| "feq x y = (x = y)"

fun fmul :: "pyfloat \<Rightarrow> real \<Rightarrow> pyfloat" where
  "fmul (Fin x) r = Fin (x * r)"
| "fmul NaN r = NaN"
| "fmul PosInf r = (if 0 < r then PosInf else if r < 0 then NegInf else NaN)"
| "fmul NegInf r = (if 0 < r then NegInf else if r < 0 then PosInf else NaN)"

fun fadd :: "pyfloat \<Rightarrow> real \<Rightarrow> pyfloat" where
  "fadd (Fin x) r = Fin (x + r)"
| "fadd f r = f"

lemma fle_Fin_simps [simp]:
  "fle (Fin a) x \<and> fle x (Fin b) \<longleftrightarrow> (\<exists>r. x = Fin r \<and> a \<le> r \<and> r \<le> b)"
  by (cases x) auto

section \<open>Rounding half to even\<close>

text \<open>Python's \<open>round\<close> and decimal's \<open>ROUND_HALF_EVEN\<close> (on exact reals).\<close>

definition round_half_even :: "real \<Rightarrow> int" where
  "round_half_even x =
     (let f = \<lfloor>x\<rfloor>; d = x - of_int f in
      if d < 1 / 2 then f
      else if d > 1 / 2 then f + 1
      else if even f then f else f + 1)"

lemma round_half_even_of_int [simp]: "round_half_even (of_int n) = n"
  by (simp add: round_half_even_def)

lemma round_half_even_numeral [simp]:
  "round_half_even (numeral k) = numeral k" "round_half_even 0 = 0" "round_half_even 1 = 1"
  using round_half_even_of_int [of "numeral k"] round_half_even_of_int [of 0]
    round_half_even_of_int [of 1] by simp_all

lemma round_half_even_close: "\<bar>of_int (round_half_even x) - x\<bar> \<le> 1 / 2"
proof -
  have "of_int \<lfloor>x\<rfloor> \<le> x" "x < of_int \<lfloor>x\<rfloor> + 1" by linarith+
  then show ?thesis by (auto simp: round_half_even_def Let_def)
qed

lemma round_half_even_mono:
  assumes "x \<le> y" shows "round_half_even x \<le> round_half_even y"
proof (cases "\<lfloor>x\<rfloor> = \<lfloor>y\<rfloor>")
  case True
  then show ?thesis using assms by (auto simp: round_half_even_def Let_def)
next
  case False
  with floor_mono [OF assms] have "\<lfloor>x\<rfloor> + 1 \<le> \<lfloor>y\<rfloor>" by simp
  then show ?thesis by (auto simp: round_half_even_def Let_def)
qed

lemma round_half_even_between:
  assumes "of_int a \<le> x" "x \<le> of_int b"
  shows "a \<le> round_half_even x \<and> round_half_even x \<le> b"
  using round_half_even_mono [OF assms(1)] round_half_even_mono [OF assms(2)] by simp

section \<open>Timestamps\<close>

text \<open>
  A \<open>datetime\<close> in microseconds since the epoch. An aware value holds the UTC instant and its
  offset; a naive one (\<open>dt_off = None\<close>) holds its wall-clock reading. Two aware values are
  equal when their instants are.
\<close>

record datetime =
  dt_us :: int
  dt_off :: "int option"

definition aware :: "datetime \<Rightarrow> bool" where
  "aware t \<longleftrightarrow> dt_off t \<noteq> None"

definition utc :: "int \<Rightarrow> datetime" where
  "utc us = \<lparr>dt_us = us, dt_off = Some 0\<rparr>"

definition as_utc :: "datetime \<Rightarrow> datetime" where
  "as_utc t = t\<lparr>dt_off := Some 0\<rparr>"

definition dt_eq :: "datetime \<Rightarrow> datetime \<Rightarrow> bool" where
  "dt_eq a b \<longleftrightarrow> aware a = aware b \<and> dt_us a = dt_us b"

text \<open>\<open>total_seconds\<close> of a duration in microseconds, and \<open>timedelta(seconds=s)\<close>.\<close>

definition secs :: "int \<Rightarrow> real" where
  "secs us = of_int us / 1000000"

definition timedelta_us :: "real \<Rightarrow> int" where
  "timedelta_us s = round_half_even (s * 1000000)"

text \<open>\<open>timestamp()\<close> of an aware value.\<close>

definition timestamp :: "datetime \<Rightarrow> real" where
  "timestamp t = secs (dt_us t)"

lemma aware_simps [simp]: "aware (utc us)" "aware (as_utc t)" "dt_us (utc us) = us"
    "dt_us (as_utc t) = dt_us t" "dt_off (utc us) = Some 0" "dt_off (as_utc t) = Some 0"
  by (simp_all add: aware_def utc_def as_utc_def)

lemma secs_simps [simp]: "secs 0 = 0" "secs a \<le> secs b \<longleftrightarrow> a \<le> b" "secs a < secs b \<longleftrightarrow> a < b"
    "0 \<le> secs a \<longleftrightarrow> 0 \<le> a" "secs a < 0 \<longleftrightarrow> a < 0"
  by (auto simp: secs_def field_simps)

lemma secs_add: "secs (a + b) = secs a + secs b"
  by (simp add: secs_def add_divide_distrib)

lemma secs_diff: "secs (a - b) = secs a - secs b"
  by (simp add: secs_def diff_divide_distrib)

section \<open>Splitting and joining strings\<close>

fun split_on :: "char \<Rightarrow> string \<Rightarrow> string list" where
  "split_on c [] = [[]]"
| "split_on c (x # xs) =
     (if x = c then [] # split_on c xs
      else (case split_on c xs of [] \<Rightarrow> [[x]] | y # ys \<Rightarrow> (x # y) # ys))"

fun join_on :: "char \<Rightarrow> string list \<Rightarrow> string" where
  "join_on c [] = []"
| "join_on c [s] = s"
| "join_on c (s # ss) = s @ c # join_on c ss"

lemma split_on_not_Nil [simp]: "split_on c xs \<noteq> []"
  by (induction xs) (auto split: list.splits)

lemma join_split [simp]: "join_on c (split_on c xs) = xs"
proof (induction xs)
  case Nil
  then show ?case by simp
next
  case (Cons x xs)
  obtain y ys where s: "split_on c xs = y # ys"
    by (meson list.exhaust split_on_not_Nil)
  show ?case
    using Cons s by (cases ys) auto
qed

lemma split_on_no_sep: "c \<notin> set s \<Longrightarrow> split_on c s = [s]"
  by (induction s) auto

lemma split_on_append: "c \<notin> set s \<Longrightarrow> split_on c (s @ c # t) = s # split_on c t"
  by (induction s) auto

lemma split_join:
  "ss \<noteq> [] \<Longrightarrow> \<forall>s\<in>set ss. c \<notin> set s \<Longrightarrow> split_on c (join_on c ss) = ss"
  by (induction c ss rule: join_on.induct) (auto simp: split_on_no_sep split_on_append)

lemma split_on_parts: "s \<in> set (split_on c xs) \<Longrightarrow> c \<notin> set s"
  by (induction xs arbitrary: s) (auto split: if_splits list.splits)

section \<open>Hexadecimal numbers of fixed width\<close>

definition hex_digits :: string where
  "hex_digits = ''0123456789abcdef''"

definition hex_digit :: "nat \<Rightarrow> char" where
  "hex_digit d = hex_digits ! d"

definition hex_value :: "char \<Rightarrow> nat option" where
  "hex_value c = map_of (zip hex_digits [0..<16]) c"

text \<open>\<open>format(n, "0wx")\<close> for \<open>0 \<le> n < 16 ^ w\<close>: exactly \<open>w\<close> lower-case digits.\<close>

fun hex_pad :: "nat \<Rightarrow> int \<Rightarrow> string" where
  "hex_pad 0 n = []"
| "hex_pad (Suc w) n = hex_pad w (n div 16) @ [hex_digit (nat (n mod 16))]"

text \<open>\<open>int(s, 16)\<close> on a string of lower-case digits, \<open>None\<close> where it would raise.\<close>

fun hex_acc :: "int \<Rightarrow> string \<Rightarrow> int option" where
  "hex_acc a [] = Some a"
| "hex_acc a (c # cs) =
     (case hex_value c of None \<Rightarrow> None | Some d \<Rightarrow> hex_acc (16 * a + int d) cs)"

definition parse_hex :: "string \<Rightarrow> int option" where
  "parse_hex s = (if s = [] then None else hex_acc 0 s)"

lemma hex_digit_all: "\<forall>d \<in> set [0..<16]. hex_value (hex_digit d) = Some d"
  by code_simp

lemma hex_value_digit [simp]: "d < 16 \<Longrightarrow> hex_value (hex_digit d) = Some d"
  using hex_digit_all by simp

lemma hex_digit_in [simp]: "d < 16 \<Longrightarrow> hex_digit d \<in> set hex_digits"
  unfolding hex_digit_def by (rule nth_mem) (simp add: hex_digits_def)

lemma length_hex_pad [simp]: "length (hex_pad w n) = w"
  by (induction w arbitrary: n) auto

lemma set_hex_pad: "set (hex_pad w n) \<subseteq> set hex_digits"
proof (induction w arbitrary: n)
  case 0
  then show ?case by simp
next
  case (Suc w)
  have "nat (n mod 16) < 16" by (simp add: nat_less_iff)
  with Suc show ?case by simp
qed

lemma hex_acc_append: "hex_acc a (s @ t) = (case hex_acc a s of None \<Rightarrow> None | Some b \<Rightarrow> hex_acc b t)"
  by (induction s arbitrary: a) (auto split: option.splits)

lemma hex_acc_pad: "0 \<le> n \<Longrightarrow> n < 16 ^ w \<Longrightarrow> hex_acc a (hex_pad w n) = Some (a * 16 ^ w + n)"
proof (induction w arbitrary: n a)
  case 0
  then show ?case by simp
next
  case (Suc w)
  from Suc.prems have d: "0 \<le> n div 16" "n div 16 < 16 ^ w" by auto
  have m: "nat (n mod 16) < 16" "int (nat (n mod 16)) = n mod 16" by (simp_all add: nat_less_iff)
  have "n = 16 * (n div 16) + n mod 16" by simp
  then have "16 * (a * 16 ^ w + n div 16) + n mod 16 = a * 16 ^ Suc w + n" by (simp add: algebra_simps)
  then show ?case
    using Suc.IH [OF d, of a] m by (simp add: hex_acc_append algebra_simps)
qed

lemma parse_hex_pad [simp]: "0 < w \<Longrightarrow> 0 \<le> n \<Longrightarrow> n < 16 ^ w \<Longrightarrow> parse_hex (hex_pad w n) = Some n"
  using length_hex_pad [of w n] hex_acc_pad [of n w 0]
  by (auto simp: parse_hex_def simp del: length_hex_pad)

lemma hex_pad_inject:
  "0 \<le> m \<Longrightarrow> m < 16 ^ w \<Longrightarrow> 0 \<le> n \<Longrightarrow> n < 16 ^ w \<Longrightarrow> hex_pad w m = hex_pad w n \<longleftrightarrow> m = n"
  by (metis hex_acc_pad option.inject add_left_cancel)

section \<open>Association lists as insertion-ordered dictionaries\<close>

text \<open>
  A Python \<open>dict\<close> keeps the position of a key that is assigned again and appends a new one, as
  \<open>AList.update\<close> does; \<open>del d[k]\<close> is \<open>AList.delete\<close>.
\<close>

lemma alist_update_lookup: "map_of (AList.update k v al) = (map_of al)(k \<mapsto> v)"
  by (rule update_conv')

lemma alist_delete_lookup: "map_of (AList.delete k al) = (map_of al)(k := None)"
  by (rule delete_conv')

lemma filter_map_of_Some:
  "distinct (map fst al) \<Longrightarrow>
     map_of (filter (\<lambda>kv. P (snd kv)) al) k =
       (case map_of al k of None \<Rightarrow> None | Some v \<Rightarrow> if P v then Some v else None)"
  by (induction al) (auto split: option.splits dest: map_of_SomeD simp: map_of_eq_None_iff)

lemma distinct_map_filter: "distinct (map f xs) \<Longrightarrow> distinct (map f (filter P xs))"
  by (induction xs) auto

end
