(* ===== verification/Uns.thy ===== *)
theory Uns
  imports Edge_Prelude
begin

text \<open>
  The identifiers every message carries: the correlation id (a ULID) of
  \<open>eirvah_contracts/ulid.py\<close> and the seven-level topic hierarchy of
  \<open>eirvah_contracts/uns.py\<close>, with the round trip between topics and paths.
\<close>

section \<open>Correlation ids\<close>

definition ulid_chars :: string where
  "ulid_chars = ''0123456789ABCDEFGHJKMNPQRSTVWXYZ''"

definition is_valid_correlation_id :: "string \<Rightarrow> bool" where
  "is_valid_correlation_id value \<longleftrightarrow> length value = 26 \<and> list_all (\<lambda>c. c \<in> set ulid_chars) value"

lemma unknown_not_ulid [simp]: "\<not> is_valid_correlation_id ''UNKNOWN''"
  by (simp add: is_valid_correlation_id_def)

section \<open>Segments, paths and topics\<close>

definition segment_chars :: string where
  "segment_chars = ''abcdefghijklmnopqrstuvwxyz0123456789_''"

definition is_segment :: "string \<Rightarrow> bool" where
  "is_segment value \<longleftrightarrow> value \<noteq> [] \<and> list_all (\<lambda>c. c \<in> set segment_chars) value"

text \<open>The string constraint of \<open>UNSSegment\<close>: the pattern and the length bounds.\<close>

definition uns_segment_ok :: "string \<Rightarrow> bool" where
  "uns_segment_ok s \<longleftrightarrow> is_segment s \<and> 1 \<le> length s \<and> length s \<le> 128"

record uns_path =
  enterprise :: string
  site :: string
  area :: string
  line :: string
  cell :: string
  equipment :: string
  measurement :: string

definition path_segments :: "uns_path \<Rightarrow> string list" where
  "path_segments p =
     [enterprise p, site p, area p, line p, cell p, equipment p, measurement p]"

definition uns_path_ok :: "uns_path \<Rightarrow> bool" where
  "uns_path_ok p \<longleftrightarrow> list_all uns_segment_ok (path_segments p)"

text \<open>Constructing a \<open>UNSPath\<close>: pydantic checks every segment.\<close>

definition mk_uns_path :: "uns_path \<Rightarrow> uns_path res" where
  "mk_uns_path p = (if uns_path_ok p then Inr p else Inl (ValidationError ''UNSPath''))"

definition build_uns_topic :: "uns_path \<Rightarrow> string" where
  "build_uns_topic p = join_on (CHR ''/'') (path_segments p)"

definition parse_uns_topic :: "string \<Rightarrow> uns_path res" where
  "parse_uns_topic topic =
     (let segments = split_on (CHR ''/'') topic in
      if length segments \<noteq> 7 then Inl (ValueError ''UNS topic must have exactly 7 segments'')
      else if \<not> list_all is_segment segments then Inl (ValueError ''UNS topic contains an invalid segment'')
      else mk_uns_path
        \<lparr>enterprise = segments ! 0, site = segments ! 1, area = segments ! 2, line = segments ! 3,
         cell = segments ! 4, equipment = segments ! 5, measurement = segments ! 6\<rparr>)"

lemma slash_not_in_chars: "CHR ''/'' \<notin> set segment_chars"
  by (simp add: segment_chars_def)

lemma slash_not_segment: "is_segment s \<Longrightarrow> CHR ''/'' \<notin> set s"
  using slash_not_in_chars by (auto simp: is_segment_def list_all_iff)

lemma uns_segment_okD: "uns_segment_ok s \<Longrightarrow> is_segment s"
  by (simp add: uns_segment_ok_def)

lemma length_path_segments [simp]: "length (path_segments p) = 7" "path_segments p \<noteq> []"
  by (simp_all add: path_segments_def)

lemma list7_nth:
  assumes "length xs = 7"
  shows "xs = [xs ! 0, xs ! 1, xs ! 2, xs ! 3, xs ! 4, xs ! 5, xs ! 6]"
proof (rule nth_equalityI)
  fix i assume "i < length xs"
  with assms have "i \<in> {0, 1, 2, 3, 4, 5, 6}" by auto
  then show "xs ! i = [xs ! 0, xs ! 1, xs ! 2, xs ! 3, xs ! 4, xs ! 5, xs ! 6] ! i" by auto
qed (simp add: assms)

lemma split_build:
  assumes "list_all is_segment (path_segments p)"
  shows "split_on (CHR ''/'') (build_uns_topic p) = path_segments p"
  unfolding build_uns_topic_def
  using assms by (intro split_join) (auto simp: list_all_iff slash_not_segment)

lemma parse_build:
  assumes "uns_path_ok p"
  shows "parse_uns_topic (build_uns_topic p) = Inr p"
proof -
  have seg: "list_all is_segment (path_segments p)"
    using assms by (auto simp: uns_path_ok_def list_all_iff uns_segment_okD)
  show ?thesis
    unfolding parse_uns_topic_def split_build [OF seg] Let_def
    using seg assms by (cases p) (simp add: mk_uns_path_def path_segments_def)
qed

lemma parse_uns_topicD:
  assumes "parse_uns_topic t = Inr p"
  shows "uns_path_ok p" "build_uns_topic p = t"
proof -
  from assms have len: "length (split_on (CHR ''/'') t) = 7"
    by (auto simp: parse_uns_topic_def Let_def split: if_splits)
  with assms have p: "p = \<lparr>enterprise = split_on (CHR ''/'') t ! 0, site = split_on (CHR ''/'') t ! 1,
      area = split_on (CHR ''/'') t ! 2, line = split_on (CHR ''/'') t ! 3,
      cell = split_on (CHR ''/'') t ! 4, equipment = split_on (CHR ''/'') t ! 5,
      measurement = split_on (CHR ''/'') t ! 6\<rparr>"
    and "uns_path_ok p"
    by (auto simp: parse_uns_topic_def Let_def mk_uns_path_def split: if_splits)
  then show "uns_path_ok p" by blast
  have "path_segments p = split_on (CHR ''/'') t"
    using list7_nth [OF len] by (simp add: p path_segments_def)
  then show "build_uns_topic p = t"
    by (simp add: build_uns_topic_def)
qed

lemma build_uns_topic_inject:
  "uns_path_ok p \<Longrightarrow> uns_path_ok q \<Longrightarrow> build_uns_topic p = build_uns_topic q \<longleftrightarrow> p = q"
  by (metis parse_build sum.inject(2))

section \<open>Properties\<close>

text \<open>
  Topics and paths are in one-to-one correspondence: parsing the topic of a valid path gives
  the path back, and a topic that parses is the topic of the valid path it parses to.
\<close>

theorem uns_topic_roundtrip:
  "(uns_path_ok p \<longrightarrow> parse_uns_topic (build_uns_topic p) = Inr p) \<and>
   (parse_uns_topic t = Inr q \<longrightarrow> uns_path_ok q \<and> build_uns_topic q = t)"
  using parse_build parse_uns_topicD by blast

theorem uns_topic_roundtrip_witness:
  "parse_uns_topic ''uniza/zilina/bottling/l1/c1/capper/torque'' =
     Inr \<lparr>enterprise = ''uniza'', site = ''zilina'', area = ''bottling'', line = ''l1'', cell = ''c1'',
          equipment = ''capper'', measurement = ''torque''\<rparr>"
proof -
  let ?p = "\<lparr>enterprise = ''uniza'', site = ''zilina'', area = ''bottling'', line = ''l1'', cell = ''c1'',
      equipment = ''capper'', measurement = ''torque''\<rparr>"
  have "uns_path_ok ?p" by code_simp
  moreover have "build_uns_topic ?p = ''uniza/zilina/bottling/l1/c1/capper/torque''" by code_simp
  ultimately show ?thesis
    using uns_topic_roundtrip [of ?p "build_uns_topic ?p" ?p] by simp
qed

end
