(* ===== verification/Signals.thy ===== *)
theory Signals
  imports Uns
begin

text \<open>
  The message types of \<open>eirvah_contracts\<close>: signal values and envelopes
  (\<open>signals.py\<close>), the bus envelope (\<open>envelope.py\<close>), the internal pipeline contracts
  (\<open>pipeline.py\<close>) and a small JSON type for the public documents. A record stands for a model
  instance; the \<open>_ok\<close> predicates are the field constraints the source declares, which pydantic
  checks whenever an instance is built or read back. The constant \<open>schema_version\<close> fields are
  left out.
\<close>

section \<open>Values\<close>

datatype signal_value = VFloat pyfloat | VInt int | VBool bool | VStr string

datatype value_type = TDouble | TInt64 | TBool | TString

datatype quality = Good | Uncertain | Bad

fun value_type_str :: "value_type \<Rightarrow> string" where
  "value_type_str TDouble = ''double''"
| "value_type_str TInt64 = ''int64''"
| "value_type_str TBool = ''bool''"
| "value_type_str TString = ''string''"

fun quality_str :: "quality \<Rightarrow> string" where
  "quality_str Good = ''good''"
| "quality_str Uncertain = ''uncertain''"
| "quality_str Bad = ''bad''"

definition parse_value_type :: "string \<Rightarrow> value_type res" where
  "parse_value_type s =
     (if s = ''double'' then Inr TDouble else if s = ''int64'' then Inr TInt64
      else if s = ''bool'' then Inr TBool else if s = ''string'' then Inr TString
      else Inl (ValidationError ''value_type''))"

definition parse_quality :: "string \<Rightarrow> quality res" where
  "parse_quality s =
     (if s = ''good'' then Inr Good else if s = ''uncertain'' then Inr Uncertain
      else if s = ''bad'' then Inr Bad else Inl (ValidationError ''quality''))"

lemma parse_value_type_str [simp]: "parse_value_type (value_type_str t) = Inr t"
  by (cases t) (simp_all add: parse_value_type_def)

lemma parse_quality_str [simp]: "parse_quality (quality_str q) = Inr q"
  by (cases q) (simp_all add: parse_quality_def)

text \<open>
  \<open>float(v)\<close>: an integer beyond the range of a double raises \<open>OverflowError\<close>, a bool reads as
  0 or 1, and a string is parsed (\<open>pf\<close> is Python's float syntax, \<open>None\<close> where it raises).
\<close>

definition float_limit :: int where
  "float_limit = 2 ^ 1024 - 2 ^ 970"

definition int_to_float :: "int \<Rightarrow> pyfloat res" where
  "int_to_float n =
     (if \<bar>n\<bar> < float_limit then Inr (Fin (of_int n))
      else Inl (OverflowError ''int too large to convert to float''))"

fun to_float :: "(string \<Rightarrow> pyfloat option) \<Rightarrow> signal_value \<Rightarrow> pyfloat res" where
  "to_float pf (VFloat f) = Inr f"
| "to_float pf (VInt n) = int_to_float n"
| "to_float pf (VBool b) = Inr (Fin (if b then 1 else 0))"
| "to_float pf (VStr s) =
     (case pf s of None \<Rightarrow> Inl (ValueError ''could not convert string to float'') | Some f \<Rightarrow> Inr f)"

lemma int_to_float_small [simp]: "\<bar>n\<bar> \<le> 65535 \<Longrightarrow> int_to_float n = Inr (Fin (of_int n))"
proof -
  assume "\<bar>n\<bar> \<le> 65535"
  moreover have "(65535::int) < float_limit" by (simp add: float_limit_def)
  ultimately show ?thesis by (simp add: int_to_float_def)
qed

text \<open>Python equality of two signal values of the same type (\<open>type(a) is type(b) and a == b\<close>).\<close>

fun same_value :: "signal_value \<Rightarrow> signal_value \<Rightarrow> bool" where
  "same_value (VFloat x) (VFloat y) = feq x y"
| "same_value (VInt x) (VInt y) = (x = y)"
| "same_value (VBool x) (VBool y) = (x = y)"
| "same_value (VStr x) (VStr y) = (x = y)"
| "same_value _ _ = False"

section \<open>Source positions and signal envelopes\<close>

record source_position =
  sp_producer :: string
  sp_epoch :: int
  sp_sequence :: int

definition source_position_ok :: "source_position \<Rightarrow> bool" where
  "source_position_ok p \<longleftrightarrow>
     1 \<le> length (sp_producer p) \<and> length (sp_producer p) \<le> 512 \<and> 1 \<le> sp_epoch p \<and> 1 \<le> sp_sequence p"

definition position_option_ok :: "source_position option \<Rightarrow> bool" where
  "position_option_ok po = (case po of None \<Rightarrow> True | Some p \<Rightarrow> source_position_ok p)"

lemma position_option_ok_simps [simp]:
  "position_option_ok None"
  "position_option_ok (Some p) = source_position_ok p"
  by (simp_all add: position_option_ok_def)

record raw_signal =
  rs_source_endpoint :: string
  rs_node_id :: string
  rs_value :: signal_value
  rs_value_type :: value_type
  rs_quality :: quality
  rs_position :: "source_position option"
  rs_source_timestamp :: datetime
  rs_server_timestamp :: datetime
  rs_received_at :: datetime

record normalized_signal =
  ns_node_id :: string
  ns_value :: signal_value
  ns_value_type :: value_type
  ns_unit :: string
  ns_quality :: quality
  ns_position :: "source_position option"
  ns_source_timestamp :: datetime
  ns_received_at :: datetime

section \<open>The internal pipeline contracts\<close>

record contextualize_result =
  cr_uns_topic :: string
  cr_uns_path :: uns_path
  cr_semantic_type :: string
  cr_sensor_uri :: string
  cr_feature_uri :: string
  cr_property_uri :: string

record publish_request =
  pr_uns_topic :: string
  pr_correlation_id :: string
  pr_value :: signal_value
  pr_value_type :: value_type
  pr_unit :: string
  pr_quality :: quality
  pr_semantic_type :: string
  pr_uns_path :: uns_path
  pr_source_endpoint :: string
  pr_source_node_id :: string
  pr_position :: "source_position option"
  pr_source_timestamp :: datetime
  pr_edge_ingress :: datetime
  pr_sensor_uri :: string
  pr_feature_uri :: string
  pr_property_uri :: string

definition raw_signal_ok :: "raw_signal \<Rightarrow> bool" where
  "raw_signal_ok r \<longleftrightarrow> position_option_ok (rs_position r)"

definition normalized_signal_ok :: "normalized_signal \<Rightarrow> bool" where
  "normalized_signal_ok n \<longleftrightarrow> position_option_ok (ns_position n)"

definition contextualize_result_ok :: "contextualize_result \<Rightarrow> bool" where
  "contextualize_result_ok c \<longleftrightarrow> uns_path_ok (cr_uns_path c)"

definition publish_request_ok :: "publish_request \<Rightarrow> bool" where
  "publish_request_ok p \<longleftrightarrow>
     is_valid_correlation_id (pr_correlation_id p) \<and> uns_path_ok (pr_uns_path p) \<and>
     position_option_ok (pr_position p)"

section \<open>The bus envelope\<close>

record env_error =
  ee_kind :: string
  ee_message :: string

datatype status = StOk | StError

record 'p nats_envelope =
  env_correlation_id :: string
  env_status :: status
  env_payload :: "'p option"
  env_context :: "'p option"
  env_error :: "env_error option"

text \<open>Building an envelope runs the validator of its correlation id.\<close>

definition validate_envelope :: "'p nats_envelope \<Rightarrow> 'p nats_envelope res" where
  "validate_envelope e =
     (if is_valid_correlation_id (env_correlation_id e) then Inr e
      else Inl (ValidationError ''invalid correlation_id''))"

definition ok_envelope :: "string \<Rightarrow> 'p option \<Rightarrow> 'p nats_envelope" where
  "ok_envelope cid p =
     \<lparr>env_correlation_id = cid, env_status = StOk, env_payload = p, env_context = None,
      env_error = None\<rparr>"

definition error_envelope :: "string \<Rightarrow> 'p option \<Rightarrow> string \<Rightarrow> string \<Rightarrow> 'p nats_envelope" where
  "error_envelope cid p k m =
     \<lparr>env_correlation_id = cid, env_status = StError, env_payload = p, env_context = None,
      env_error = Some \<lparr>ee_kind = k, ee_message = m\<rparr>\<rparr>"

text \<open>
  The bytes of a bus message: either they do not parse as an envelope, with the exception
  pydantic raises, or they are the JSON of one. Reading them validates the envelope.
\<close>

datatype 'p message = Garbled string | Json "'p nats_envelope"

fun read_envelope :: "'p message \<Rightarrow> 'p nats_envelope res" where
  "read_envelope (Garbled m) = Inl (ValidationError m)"
| "read_envelope (Json e) = validate_envelope e"

lemma envelope_sel [simp]:
  "env_correlation_id (ok_envelope c p) = c" "env_status (ok_envelope c p) = StOk"
  "env_payload (ok_envelope c p) = p" "env_error (ok_envelope c p) = None"
  "env_correlation_id (error_envelope c p k m) = c" "env_status (error_envelope c p k m) = StError"
  "env_payload (error_envelope c p k m) = p"
  "env_error (error_envelope c p k m) = Some \<lparr>ee_kind = k, ee_message = m\<rparr>"
  by (simp_all add: ok_envelope_def error_envelope_def)

lemma validate_envelope_Inr [simp]:
  "validate_envelope e = Inr e' \<longleftrightarrow> e' = e \<and> is_valid_correlation_id (env_correlation_id e)"
  by (auto simp: validate_envelope_def)

lemma validate_envelope_ok [simp]:
  "is_valid_correlation_id (env_correlation_id e) \<Longrightarrow> validate_envelope e = Inr e"
  by (simp add: validate_envelope_def)

lemma read_envelope_Inr:
  "read_envelope m = Inr e \<longleftrightarrow> m = Json e \<and> is_valid_correlation_id (env_correlation_id e)"
  by (cases m) auto

text \<open>\<open>str(exc)[:200]\<close>\<close>

definition short_msg :: "exn \<Rightarrow> string" where
  "short_msg e = take 200 (exn_msg e)"

section \<open>JSON documents\<close>

text \<open>
  Decoded JSON. A string that is the ISO form of a timestamp is \<open>JTime\<close>, so that
  \<open>isoformat\<close> and \<open>fromisoformat\<close> are the constructor and its inverse; any other string is
  \<open>JStr\<close>. Objects keep the order of their members.
\<close>

datatype json =
    JNull | JBool bool | JInt int | JFloat pyfloat | JStr string | JTime datetime
  | JArr "json list" | JObj "(string \<times> json) list"

type_synonym doc = "(string \<times> json) list"

definition dget :: "string \<Rightarrow> doc \<Rightarrow> json option" where
  "dget k d = map_of d k"

definition dkey :: "string \<Rightarrow> doc \<Rightarrow> json res" where
  "dkey k d = (case map_of d k of None \<Rightarrow> Inl (KeyError k) | Some v \<Rightarrow> Inr v)"

fun as_str :: "json \<Rightarrow> string res" where
  "as_str (JStr s) = Inr s"
| "as_str _ = Inl (ValidationError ''string_type'')"

fun as_obj :: "json \<Rightarrow> doc res" where
  "as_obj (JObj d) = Inr d"
| "as_obj _ = Inl (TypeError ''not a mapping'')"

fun as_int :: "json \<Rightarrow> int res" where
  "as_int (JInt n) = Inr n"
| "as_int _ = Inl (ValidationError ''int_type'')"

fun from_isoformat :: "json \<Rightarrow> datetime res" where
  "from_isoformat (JTime t) = Inr t"
| "from_isoformat (JStr s) = Inl (ValueError ''Invalid isoformat string'')"
| "from_isoformat _ = Inl (TypeError ''fromisoformat: argument must be str'')"

fun json_of_value :: "signal_value \<Rightarrow> json" where
  "json_of_value (VFloat f) = JFloat f"
| "json_of_value (VInt n) = JInt n"
| "json_of_value (VBool b) = JBool b"
| "json_of_value (VStr s) = JStr s"

fun value_of_json :: "json \<Rightarrow> signal_value res" where
  "value_of_json (JFloat f) = Inr (VFloat f)"
| "value_of_json (JInt n) = Inr (VInt n)"
| "value_of_json (JBool b) = Inr (VBool b)"
| "value_of_json (JStr s) = Inr (VStr s)"
| "value_of_json _ = Inl (ValidationError ''value'')"

lemma value_of_json_of_value [simp]: "value_of_json (json_of_value v) = Inr v"
  by (cases v) simp_all

definition position_json :: "source_position \<Rightarrow> json" where
  "position_json p =
     JObj [(''producer'', JStr (sp_producer p)), (''epoch'', JInt (sp_epoch p)),
           (''sequence'', JInt (sp_sequence p)), (''boundary'', JStr ''adapter'')]"

text \<open>\<open>SourcePosition.model_validate\<close>: strict types, no other member, the bounds of the fields.\<close>

definition position_of_json :: "json \<Rightarrow> source_position res" where
  "position_of_json j =
     (case j of
        JObj d \<Rightarrow>
          (if \<not> set (map fst d) \<subseteq> {''producer'', ''epoch'', ''sequence'', ''boundary''}
           then Inl (ValidationError ''extra_forbidden'')
           else case (dget ''producer'' d, dget ''epoch'' d, dget ''sequence'' d) of
             (Some (JStr p), Some (JInt e), Some (JInt s)) \<Rightarrow>
               (let pos = \<lparr>sp_producer = p, sp_epoch = e, sp_sequence = s\<rparr> in
                if source_position_ok pos \<and>
                   (dget ''boundary'' d = None \<or> dget ''boundary'' d = Some (JStr ''adapter''))
                then Inr pos else Inl (ValidationError ''SourcePosition''))
           | _ \<Rightarrow> Inl (ValidationError ''SourcePosition''))
      | _ \<Rightarrow> Inl (ValidationError ''SourcePosition''))"

lemma position_of_position_json [simp]:
  "source_position_ok p \<Longrightarrow> position_of_json (position_json p) = Inr p"
  by (cases p) (simp add: position_of_json_def position_json_def dget_def)

lemma position_of_json_ok: "position_of_json j = Inr p \<Longrightarrow> source_position_ok p"
  by (auto simp: position_of_json_def Let_def split: json.splits option.splits if_splits)

end
