(* ===== verification/Canonical_Json.thy ===== *)
theory Canonical_Json
  imports Signals "HOL-Library.Char_ord" "HOL-Library.List_Lexorder" "HOL-Library.Multiset"
begin

text \<open>
  \<open>json.dumps(value, sort_keys=True, separators=(",", ":"), allow_nan=False)\<close>, the canonical
  text that digests, signatures and the recovery databases are built on. A canonical text is
  represented by the document with the members of every object in key order; two documents have
  the same text exactly when these are equal. The hash functions are parameters.
\<close>

primrec sorted_keys :: "json \<Rightarrow> json" where
  "sorted_keys JNull = JNull"
| "sorted_keys (JBool b) = JBool b"
| "sorted_keys (JInt n) = JInt n"
| "sorted_keys (JFloat f) = JFloat f"
| "sorted_keys (JStr s) = JStr s"
| "sorted_keys (JTime t) = JTime t"
| "sorted_keys (JArr xs) = JArr (map sorted_keys xs)"
| "sorted_keys (JObj d) = JObj (sort_key fst (map (map_prod id sorted_keys) d))"

primrec json_finite :: "json \<Rightarrow> bool" where
  "json_finite JNull = True"
| "json_finite (JBool b) = True"
| "json_finite (JInt n) = True"
| "json_finite (JFloat f) = isfinite f"
| "json_finite (JStr s) = True"
| "json_finite (JTime t) = True"
| "json_finite (JArr xs) = list_all id (map json_finite xs)"
| "json_finite (JObj d) = list_all snd (map (map_prod id json_finite) d)"

definition canonical :: "json \<Rightarrow> json res" where
  "canonical value =
     (if json_finite value then Inr (sorted_keys value)
      else Inl (ValueError ''Out of range float values are not JSON compliant''))"

text \<open>
  The digests: \<open>sha256 d\<close> is the hex digest of the UTF-8 bytes of the canonical text \<open>d\<close> and
  \<open>hmac k d\<close> its HMAC-SHA256 under key \<open>k\<close>.
\<close>

record crypto =
  sha256 :: "json \<Rightarrow> string"
  hmac :: "string \<Rightarrow> json \<Rightarrow> string"

text \<open>\<open>require_key\<close> of \<open>authorization.py\<close>; a key is a string of bytes.\<close>

definition require_key :: "string \<Rightarrow> string res" where
  "require_key key =
     (if length key < 32
      then Inl (ValueError ''actuation authentication key must contain at least 32 bytes'')
      else Inr key)"

lemma map_of_sort_key:
  fixes d :: "('a::linorder \<times> 'b) list"
  assumes "distinct (map fst d)"
  shows "map_of (sort_key fst d) = map_of d"
proof -
  have "mset (map fst (sort_key fst d)) = mset (map fst d)" by simp
  then have "distinct (map fst (sort_key fst d))"
    using assms by (metis mset_eq_imp_distinct_iff)
  with assms show ?thesis by (simp add: map_of_inject_set)
qed

lemma map_fst_map_prod [simp]: "map fst (map (map_prod id f) d) = map fst d"
  by (induction d) auto

text \<open>
  Two objects with the same canonical text agree on every member: the lookup of a key in the
  canonical object is the canonical form of the member.
\<close>

fun obj_members :: "json \<Rightarrow> doc" where
  "obj_members (JObj d) = d"
| "obj_members _ = []"

lemma sorted_keys_lookup:
  "distinct (map fst d) \<Longrightarrow>
     map_of (obj_members (sorted_keys (JObj d))) k = map_option sorted_keys (map_of d k)"
proof -
  assume d: "distinct (map fst d)"
  have "map_of (sort_key fst (map (map_prod id sorted_keys) d)) = map_of (map (map_prod id sorted_keys) d)"
    by (rule map_of_sort_key) (simp add: d)
  moreover have "map_of (map (map_prod id sorted_keys) d) k = map_option sorted_keys (map_of d k)"
    by (induction d) auto
  ultimately show ?thesis by simp
qed

lemma sorted_keys_obj_agree:
  assumes "sorted_keys (JObj d) = sorted_keys (JObj e)"
    and "distinct (map fst d)" "distinct (map fst e)"
  shows "map_option sorted_keys (map_of d k) = map_option sorted_keys (map_of e k)"
  using assms sorted_keys_lookup by metis

lemma require_key_Inr [simp]: "require_key k = Inr k' \<longleftrightarrow> k' = k \<and> 32 \<le> length k"
  by (auto simp: require_key_def)

lemma require_key_long [simp]: "32 \<le> length k \<Longrightarrow> require_key k = Inr k"
  by (simp add: require_key_def)

lemma canonical_Inr: "canonical j = Inr c \<longleftrightarrow> json_finite j \<and> c = sorted_keys j"
  by (auto simp: canonical_def)

end
