(* ===== verification/Authorization.thy ===== *)
theory Authorization
  imports Canonical_Json
begin

text \<open>
  The actuation messages of \<open>eirvah_contracts/actuation.py\<close> and the signed evidence of
  \<open>eirvah_contracts/authorization.py\<close>: a command is bound to a purpose, a writer and an issue
  time by an HMAC over its digest. The readings of the wall clock are arguments.
\<close>

section \<open>Commands and results\<close>

text \<open>The model allows extra members (\<open>extra="allow"\<close>); they are part of the command.\<close>

record actuation_request =
  ar_correlation_id :: string
  ar_requester :: string
  ar_target_uns_topic :: string
  ar_requested_value :: signal_value
  ar_value_type :: value_type
  ar_reason :: string
  ar_requested_at :: datetime
  ar_deadline :: "datetime option"
  ar_extra :: doc

definition request_fields :: "string list" where
  "request_fields =
     [''schema_version'', ''correlation_id'', ''requester'', ''target_uns_topic'',
      ''requested_value'', ''value_type'', ''reason'', ''requested_at'', ''deadline'']"

definition actuation_request_ok :: "actuation_request \<Rightarrow> bool" where
  "actuation_request_ok r \<longleftrightarrow>
     is_valid_correlation_id (ar_correlation_id r) \<and>
     (case parse_uns_topic (ar_target_uns_topic r) of Inl _ \<Rightarrow> False | Inr _ \<Rightarrow> True) \<and>
     distinct (map fst (ar_extra r)) \<and> set (map fst (ar_extra r)) \<inter> set request_fields = {}"

datatype purpose = Ingress | Approval

fun purpose_str :: "purpose \<Rightarrow> string" where
  "purpose_str Ingress = ''ingress''"
| "purpose_str Approval = ''approval''"

record signed_evidence =
  se_purpose :: purpose
  se_command_digest :: string
  se_writer :: string
  se_issued_at :: datetime
  se_signature :: string

datatype decision = Approve | Reject

datatype reason_code = OutOfRange | NotAllowlisted | NoPolicy | NotNumeric

fun reason_code_str :: "reason_code \<Rightarrow> string" where
  "reason_code_str OutOfRange = ''out_of_range''"
| "reason_code_str NotAllowlisted = ''not_allowlisted''"
| "reason_code_str NoPolicy = ''no_policy''"
| "reason_code_str NotNumeric = ''not_numeric''"

record validation_result =
  vr_decision :: decision
  vr_reason :: "string option"
  vr_reason_code :: "reason_code option"
  vr_approval :: "signed_evidence option"

datatype outcome = Completed | NotExecuted | Pending | Unknown | Conflict

fun outcome_str :: "outcome \<Rightarrow> string" where
  "outcome_str Completed = ''completed''"
| "outcome_str NotExecuted = ''not_executed''"
| "outcome_str Pending = ''pending''"
| "outcome_str Unknown = ''unknown''"
| "outcome_str Conflict = ''conflict''"

record write_result =
  wr_outcome :: outcome
  wr_written_at :: "datetime option"
  wr_reason :: "string option"
  wr_retryable :: bool
  wr_replayed :: bool

text \<open>The events on the AMQP results exchange; each carries the whole command.\<close>

datatype actuation_event =
    ApproveEvent actuation_request datetime bool
  | RejectEvent actuation_request string bool
  | UnknownEvent actuation_request string
  | PendingEvent actuation_request string

record authenticated_request =
  au_command :: actuation_request
  au_identity :: signed_evidence

record approved_write_request =
  aw_command :: actuation_request
  aw_approval :: signed_evidence

text \<open>The payloads of the actuation messages on the bus, and reading them back.\<close>

datatype act_payload =
    PAuthenticated authenticated_request
  | PValidation validation_result
  | PApproved approved_write_request
  | PWrite write_result
  | PForeign json

fun validate_authenticated :: "act_payload option \<Rightarrow> authenticated_request res" where
  "validate_authenticated (Some (PAuthenticated a)) =
     (if actuation_request_ok (au_command a) then Inr a else Inl (ValidationError ''AuthenticatedRequest''))"
| "validate_authenticated _ = Inl (ValidationError ''AuthenticatedRequest'')"

fun validate_approved :: "act_payload option \<Rightarrow> approved_write_request res" where
  "validate_approved (Some (PApproved a)) =
     (if actuation_request_ok (aw_command a) then Inr a else Inl (ValidationError ''ApprovedWriteRequest''))"
| "validate_approved _ = Inl (ValidationError ''ApprovedWriteRequest'')"

fun validate_validation :: "act_payload option \<Rightarrow> validation_result res" where
  "validate_validation (Some (PValidation v)) = Inr v"
| "validate_validation _ = Inl (ValidationError ''ValidationResult'')"

fun validate_write_result :: "act_payload option \<Rightarrow> write_result res" where
  "validate_write_result (Some (PWrite w)) =
     (if (case wr_written_at w of None \<Rightarrow> True | Some t \<Rightarrow> aware t) then Inr w
      else Inl (ValidationError ''WriteResult''))"
| "validate_write_result _ = Inl (ValidationError ''WriteResult'')"

lemma validate_authenticated_Inr:
  "validate_authenticated p = Inr a \<longleftrightarrow>
     p = Some (PAuthenticated a) \<and> actuation_request_ok (au_command a)"
  by (cases p rule: validate_authenticated.cases) auto

lemma validate_approved_Inr:
  "validate_approved p = Inr a \<longleftrightarrow> p = Some (PApproved a) \<and> actuation_request_ok (aw_command a)"
  by (cases p rule: validate_approved.cases) auto

lemma validate_validation_Inr: "validate_validation p = Inr v \<longleftrightarrow> p = Some (PValidation v)"
  by (cases p rule: validate_validation.cases) auto

lemma validate_write_result_Inr:
  "validate_write_result p = Inr w \<longleftrightarrow>
     p = Some (PWrite w) \<and> (\<forall>t. wr_written_at w = Some t \<longrightarrow> aware t)"
  by (cases p rule: validate_write_result.cases) (auto split: option.splits)

section \<open>The command digest\<close>

definition opt_time :: "datetime option \<Rightarrow> json" where
  "opt_time t = (case t of None \<Rightarrow> JNull | Some d \<Rightarrow> JTime d)"

definition request_doc :: "actuation_request \<Rightarrow> doc" where
  "request_doc r =
     [(''schema_version'', JStr ''1.0''), (''correlation_id'', JStr (ar_correlation_id r)),
      (''requester'', JStr (ar_requester r)), (''target_uns_topic'', JStr (ar_target_uns_topic r)),
      (''requested_value'', json_of_value (ar_requested_value r)),
      (''value_type'', JStr (value_type_str (ar_value_type r))), (''reason'', JStr (ar_reason r)),
      (''requested_at'', JTime (ar_requested_at r)), (''deadline'', opt_time (ar_deadline r))]
     @ ar_extra r"

text \<open>Both times are written in UTC, so that the digest does not depend on their offsets.\<close>

definition utc_command :: "actuation_request \<Rightarrow> actuation_request" where
  "utc_command r =
     r\<lparr>ar_requested_at := as_utc (ar_requested_at r), ar_deadline := map_option as_utc (ar_deadline r)\<rparr>"

definition has_aware_deadline :: "actuation_request \<Rightarrow> bool" where
  "has_aware_deadline r = (case ar_deadline r of None \<Rightarrow> False | Some d \<Rightarrow> aware d)"

definition command_digest :: "crypto \<Rightarrow> actuation_request \<Rightarrow> string res" where
  "command_digest C command =
     (if \<not> has_aware_deadline command
      then Inl (ValueError ''command requires a timezone-aware deadline'')
      else if \<not> aware (ar_requested_at command)
      then Inl (ValueError ''command requires a timezone-aware requested_at'')
      else bindE (canonical (JObj (request_doc (utc_command command)))) (\<lambda>text. Inr (sha256 C text)))"

section \<open>Evidence\<close>

definition evidence_body :: "signed_evidence \<Rightarrow> json" where
  "evidence_body e =
     JObj [(''schema_version'', JStr ''1.0''), (''purpose'', JStr (purpose_str (se_purpose e))),
           (''command_digest'', JStr (se_command_digest e)), (''writer'', JStr (se_writer e)),
           (''issued_at'', JTime (as_utc (se_issued_at e)))]"

definition evidence_signature :: "crypto \<Rightarrow> signed_evidence \<Rightarrow> string \<Rightarrow> string res" where
  "evidence_signature C e key =
     bindE (require_key key) (\<lambda>k. Inr (hmac C k (sorted_keys (evidence_body e))))"

text \<open>\<open>issued\<close> is the clock read for \<open>issued_at\<close>, \<open>checked\<close> the one compared with the deadline.\<close>

definition sign_evidence ::
  "crypto \<Rightarrow> datetime \<Rightarrow> datetime \<Rightarrow> actuation_request \<Rightarrow> string \<Rightarrow> purpose \<Rightarrow> string \<Rightarrow> bool
   \<Rightarrow> signed_evidence res" where
  "sign_evidence C issued checked command key purpose writer allow_expired =
     bindE (command_digest C command) (\<lambda>digest.
       let evidence = \<lparr>se_purpose = purpose, se_command_digest = digest, se_writer = writer,
             se_issued_at = issued, se_signature = replicate 64 (CHR ''0'')\<rparr>
       in case ar_deadline command of
            None \<Rightarrow> Inl (ValueError ''command expired'')
          | Some deadline \<Rightarrow>
              if \<not> allow_expired \<and> dt_us checked > dt_us deadline
              then Inl (ValueError ''command expired'')
              else bindE (evidence_signature C evidence key) (\<lambda>s. Inr (evidence\<lparr>se_signature := s\<rparr>)))"

definition sign_ingress ::
  "crypto \<Rightarrow> datetime \<Rightarrow> datetime \<Rightarrow> actuation_request \<Rightarrow> string \<Rightarrow> bool \<Rightarrow> signed_evidence res" where
  "sign_ingress C issued checked command key allow_expired =
     sign_evidence C issued checked command key Ingress [] allow_expired"

definition sign_approval ::
  "crypto \<Rightarrow> datetime \<Rightarrow> datetime \<Rightarrow> actuation_request \<Rightarrow> string \<Rightarrow> string \<Rightarrow> bool
   \<Rightarrow> signed_evidence res" where
  "sign_approval C issued checked command key writer allow_expired =
     sign_evidence C issued checked command key Approval writer allow_expired"

definition verify_evidence ::
  "crypto \<Rightarrow> datetime \<Rightarrow> actuation_request \<Rightarrow> signed_evidence \<Rightarrow> string \<Rightarrow> purpose \<Rightarrow> string \<Rightarrow> bool
   \<Rightarrow> unit res" where
  "verify_evidence C now command evidence key purpose writer allow_expired =
     (if se_purpose evidence \<noteq> purpose \<or> se_writer evidence \<noteq> writer
      then Inl (ValueError ''approval purpose or writer mismatch'')
      else bindE (command_digest C command) (\<lambda>digest.
        if se_command_digest evidence \<noteq> digest
        then Inl (ValueError ''approved command mismatch'')
        else bindE (evidence_signature C evidence key) (\<lambda>signature.
          if se_signature evidence \<noteq> signature
          then Inl (ValueError ''invalid command authentication'')
          else case ar_deadline command of
            None \<Rightarrow> Inl (ValueError ''command expired or evidence time invalid'')
          | Some deadline \<Rightarrow>
              if (\<not> allow_expired \<and> dt_us now > dt_us deadline) \<or> dt_us (se_issued_at evidence) > dt_us now
              then Inl (ValueError ''command expired or evidence time invalid'')
              else Inr ())))"

text \<open>The digest of the evidence as dumped, signature included (not in key order).\<close>

definition evidence_fingerprint :: "crypto \<Rightarrow> signed_evidence \<Rightarrow> string" where
  "evidence_fingerprint C e =
     sha256 C
       (JObj [(''schema_version'', JStr ''1.0''), (''purpose'', JStr (purpose_str (se_purpose e))),
              (''command_digest'', JStr (se_command_digest e)), (''writer'', JStr (se_writer e)),
              (''issued_at'', JTime (se_issued_at e)), (''signature'', JStr (se_signature e))])"

section \<open>What evidence establishes\<close>

lemma purpose_str_inject [simp]: "purpose_str a = purpose_str b \<longleftrightarrow> a = b"
  by (cases a; cases b) simp_all

lemma command_digest_Inr:
  "command_digest C c = Inr d \<longleftrightarrow>
     has_aware_deadline c \<and> aware (ar_requested_at c) \<and>
     json_finite (JObj (request_doc (utc_command c))) \<and>
     d = sha256 C (sorted_keys (JObj (request_doc (utc_command c))))"
  by (auto simp: command_digest_def bindE_Inr_iff canonical_Inr simp del: sorted_keys.simps json_finite.simps)

lemma has_aware_deadlineD: "has_aware_deadline c \<Longrightarrow> \<exists>d. ar_deadline c = Some d \<and> aware d"
  by (auto simp: has_aware_deadline_def split: option.splits)

lemma sign_evidence_Inr:
  "sign_evidence C t1 t2 c key p w ae = Inr ev \<longleftrightarrow>
     (\<exists>dg dl. command_digest C c = Inr dg \<and> ar_deadline c = Some dl \<and>
        (ae \<or> dt_us t2 \<le> dt_us dl) \<and> 32 \<le> length key \<and>
        se_purpose ev = p \<and> se_command_digest ev = dg \<and> se_writer ev = w \<and> se_issued_at ev = t1 \<and>
        evidence_signature C ev key = Inr (se_signature ev))"
  by (cases ev)
    (auto simp: sign_evidence_def bindE_Inr_iff evidence_signature_def evidence_body_def not_less
      Let_def split: option.splits if_splits)

lemma verify_evidence_Inr:
  "verify_evidence C now c ev key p w ae = Inr u \<longleftrightarrow>
     se_purpose ev = p \<and> se_writer ev = w \<and> command_digest C c = Inr (se_command_digest ev) \<and>
     evidence_signature C ev key = Inr (se_signature ev) \<and>
     (\<exists>dl. ar_deadline c = Some dl \<and> (ae \<or> dt_us now \<le> dt_us dl)) \<and> dt_us (se_issued_at ev) \<le> dt_us now"
  by (auto simp: verify_evidence_def bindE_Inr_iff not_less split: option.splits)

lemma verify_allow_expired:
  "verify_evidence C now c ev key p w False = Inr u \<Longrightarrow> verify_evidence C now c ev key p w True = Inr ()"
  by (auto simp: verify_evidence_Inr)

lemma signed_evidence_sound:
  assumes "sign_evidence C issued checked c key p w ae = Inr ev"
  shows "verify_evidence C now c ev key p' w' ae' = Inr () \<longleftrightarrow>
    p' = p \<and> w' = w \<and> dt_us issued \<le> dt_us now \<and>
    (ae' \<or> dt_us now \<le> dt_us (the (ar_deadline c)))"
  using assms by (auto simp: sign_evidence_Inr verify_evidence_Inr)

text \<open>Two commands that agree in every member, times compared as instants.\<close>

definition same_command :: "actuation_request \<Rightarrow> actuation_request \<Rightarrow> bool" where
  "same_command a b \<longleftrightarrow>
     ar_correlation_id a = ar_correlation_id b \<and> ar_requester a = ar_requester b \<and>
     ar_target_uns_topic a = ar_target_uns_topic b \<and>
     ar_requested_value a = ar_requested_value b \<and> ar_value_type a = ar_value_type b \<and>
     ar_reason a = ar_reason b \<and> dt_us (ar_requested_at a) = dt_us (ar_requested_at b) \<and>
     map_option dt_us (ar_deadline a) = map_option dt_us (ar_deadline b) \<and>
     (\<forall>k. map_option sorted_keys (map_of (ar_extra a) k) = map_option sorted_keys (map_of (ar_extra b) k))"

lemma request_doc_distinct: "actuation_request_ok r \<Longrightarrow> distinct (map fst (request_doc (utc_command r)))"
  by (auto simp: actuation_request_ok_def request_doc_def utc_command_def request_fields_def)

lemma value_type_str_inject [simp]: "value_type_str a = value_type_str b \<longleftrightarrow> a = b"
  by (cases a; cases b) simp_all

lemma json_of_value_inject: "sorted_keys (json_of_value a) = sorted_keys (json_of_value b) \<longleftrightarrow> a = b"
  by (cases a; cases b) simp_all

lemma opt_time_inject: "sorted_keys (opt_time a) = sorted_keys (opt_time b) \<longleftrightarrow> a = b"
  by (cases a; cases b) (simp_all add: opt_time_def)

lemma request_doc_member:
  "map_of (request_doc r) ''correlation_id'' = Some (JStr (ar_correlation_id r))"
  "map_of (request_doc r) ''requester'' = Some (JStr (ar_requester r))"
  "map_of (request_doc r) ''target_uns_topic'' = Some (JStr (ar_target_uns_topic r))"
  "map_of (request_doc r) ''requested_value'' = Some (json_of_value (ar_requested_value r))"
  "map_of (request_doc r) ''value_type'' = Some (JStr (value_type_str (ar_value_type r)))"
  "map_of (request_doc r) ''reason'' = Some (JStr (ar_reason r))"
  "map_of (request_doc r) ''requested_at'' = Some (JTime (ar_requested_at r))"
  "map_of (request_doc r) ''deadline'' = Some (opt_time (ar_deadline r))"
  by (simp_all add: request_doc_def)

lemma request_doc_extra:
  "k \<notin> set request_fields \<Longrightarrow> map_of (request_doc r) k = map_of (ar_extra r) k"
  by (simp add: request_doc_def request_fields_def)

lemma utc_command_sel [simp]:
  "ar_correlation_id (utc_command r) = ar_correlation_id r" "ar_requester (utc_command r) = ar_requester r"
  "ar_target_uns_topic (utc_command r) = ar_target_uns_topic r"
  "ar_requested_value (utc_command r) = ar_requested_value r"
  "ar_value_type (utc_command r) = ar_value_type r" "ar_reason (utc_command r) = ar_reason r"
  "ar_requested_at (utc_command r) = as_utc (ar_requested_at r)"
  "ar_deadline (utc_command r) = map_option as_utc (ar_deadline r)" "ar_extra (utc_command r) = ar_extra r"
  by (simp_all add: utc_command_def)

lemma as_utc_inject [simp]: "as_utc a = as_utc b \<longleftrightarrow> dt_us a = dt_us b"
  by (cases a; cases b) (simp add: as_utc_def)

lemma map_option_as_utc: "map_option as_utc a = map_option as_utc b \<longleftrightarrow> map_option dt_us a = map_option dt_us b"
  by (cases a; cases b) simp_all

lemma ok_extra_None:
  "actuation_request_ok r \<Longrightarrow> k \<in> set request_fields \<Longrightarrow> map_of (ar_extra r) k = None"
  by (auto simp: actuation_request_ok_def map_of_eq_None_iff)

lemma request_doc_inject:
  assumes eq: "sorted_keys (JObj (request_doc (utc_command a))) = sorted_keys (JObj (request_doc (utc_command b)))"
    and ok: "actuation_request_ok a" "actuation_request_ok b"
  shows "same_command a b"
proof -
  have agree: "map_option sorted_keys (map_of (request_doc (utc_command a)) k) =
      map_option sorted_keys (map_of (request_doc (utc_command b)) k)" for k
    using eq ok by (intro sorted_keys_obj_agree request_doc_distinct)
  have extra: "map_option sorted_keys (map_of (ar_extra a) k) = map_option sorted_keys (map_of (ar_extra b) k)" for k
    using agree [of k] ok_extra_None [OF ok(1), of k] ok_extra_None [OF ok(2), of k]
    by (cases "k \<in> set request_fields") (simp_all add: request_doc_extra)
  note m = agree [of "''correlation_id''"] agree [of "''requester''"] agree [of "''target_uns_topic''"]
    agree [of "''requested_value''"] agree [of "''value_type''"] agree [of "''reason''"]
    agree [of "''requested_at''"] agree [of "''deadline''"]
  show ?thesis
    using m extra
    by (simp add: same_command_def request_doc_member json_of_value_inject opt_time_inject
        map_option_as_utc)
qed

lemma digest_binds_command:
  assumes "command_digest C a = Inr d" "command_digest C b = Inr d"
    and "actuation_request_ok a" "actuation_request_ok b"
  shows "same_command a b \<or> (\<exists>x y. x \<noteq> y \<and> sha256 C x = sha256 C y)"
proof (cases "sorted_keys (JObj (request_doc (utc_command a))) = sorted_keys (JObj (request_doc (utc_command b)))")
  case True
  then show ?thesis using request_doc_inject assms by blast
next
  case False
  then show ?thesis using assms by (auto simp: command_digest_Inr simp del: sorted_keys.simps)
qed

section \<open>Properties\<close>

text \<open>
  Evidence is accepted exactly for the command, purpose and writer it was signed for: the
  verifier accepts what the signer produced, from the issue time until the deadline (for ever
  with \<open>allow_expired\<close>), and at no other time.
\<close>

theorem signed_evidence_verifies:
  assumes "sign_evidence C issued checked c key p w ae = Inr ev"
  shows "verify_evidence C now c ev key p' w' ae' = Inr () \<longleftrightarrow>
    p' = p \<and> w' = w \<and> dt_us issued \<le> dt_us now \<and>
    (ae' \<or> dt_us now \<le> dt_us (the (ar_deadline c)))"
  using assms by (rule signed_evidence_sound)

text \<open>
  Evidence cannot be moved to another command: when the same evidence verifies for two
  well-formed commands, they agree in every field, the extra members included, or two different
  documents have the same SHA-256.
\<close>

theorem evidence_binds_command:
  assumes "verify_evidence C now1 a ev key1 p1 w1 e1 = Inr ()"
    and "verify_evidence C now2 b ev key2 p2 w2 e2 = Inr ()"
    and "actuation_request_ok a" "actuation_request_ok b"
  shows "p1 = p2 \<and> w1 = w2 \<and> (same_command a b \<or> (\<exists>x y. x \<noteq> y \<and> sha256 C x = sha256 C y))"
  using assms digest_binds_command by (auto simp: verify_evidence_Inr)

definition example_command :: actuation_request where
  "example_command =
     \<lparr>ar_correlation_id = replicate 26 (CHR ''0''), ar_requester = ''agent'',
      ar_target_uns_topic = ''a/b/c/d/e/f/g'', ar_requested_value = VInt 5, ar_value_type = TInt64,
      ar_reason = ''r'', ar_requested_at = utc 10, ar_deadline = Some (utc 50), ar_extra = []\<rparr>"

definition example_crypto :: crypto where
  "example_crypto = \<lparr>sha256 = (\<lambda>_. replicate 64 (CHR ''a'')), hmac = (\<lambda>k _. replicate 64 (CHR ''b''))\<rparr>"

definition example_evidence :: "purpose \<Rightarrow> string \<Rightarrow> signed_evidence" where
  "example_evidence p w =
     \<lparr>se_purpose = p, se_command_digest = replicate 64 (CHR ''a''), se_writer = w, se_issued_at = utc 20,
      se_signature = replicate 64 (CHR ''b'')\<rparr>"

lemma example_command_ok: "actuation_request_ok example_command"
  by code_simp

lemma example_digest: "command_digest example_crypto example_command = Inr (replicate 64 (CHR ''a''))"
  by (simp add: command_digest_Inr example_command_def example_crypto_def has_aware_deadline_def
      request_doc_def utc_command_def opt_time_def)

lemma example_sign:
  "sign_evidence example_crypto (utc 20) (utc 21) example_command (replicate 32 (CHR ''k'')) p w False =
     Inr (example_evidence p w)"
  unfolding sign_evidence_Inr example_digest
  by (simp add: example_command_def example_crypto_def example_evidence_def evidence_signature_def bindE_Inr_iff)

theorem signed_evidence_verifies_witness:
  "verify_evidence example_crypto (utc 30) example_command (example_evidence Approval ''w'')
     (replicate 32 (CHR ''k'')) Approval ''w'' False = Inr ()"
  unfolding signed_evidence_verifies [OF example_sign]
  by (simp add: example_command_def)

theorem evidence_binds_command_witness:
  "same_command example_command example_command \<or>
     (\<exists>x y. x \<noteq> y \<and> sha256 example_crypto x = sha256 example_crypto y)"
proof -
  have v: "verify_evidence example_crypto (utc 30) example_command (example_evidence Approval ''w'')
      (replicate 32 (CHR ''k'')) Approval ''w'' False = Inr ()"
    unfolding verify_evidence_Inr example_digest
    by (simp add: example_command_def example_crypto_def example_evidence_def evidence_signature_def)
  from evidence_binds_command [OF v v example_command_ok example_command_ok] show ?thesis by blast
qed

end
