(* ===== verification/Effects.thy ===== *)
theory Effects
  imports Edge_Prelude
begin

text \<open>
  Code that reads and changes a state and may raise: an operation maps the state to the new state
  and a result. An exception keeps the state reached when it was raised. \<open>keeps I m\<close> says that
  an operation preserves an invariant, and \<open>replies Q m\<close> that every normal result satisfies
  \<open>Q\<close>; the rules let invariants be proved along the structure of the code.
\<close>

type_synonym ('w, 'a) act = "'w \<Rightarrow> 'w \<times> 'a res"

definition retS :: "'a \<Rightarrow> ('w, 'a) act" where
  "retS a w = (w, Inr a)"

definition raiseS :: "exn \<Rightarrow> ('w, 'a) act" where
  "raiseS e w = (w, Inl e)"

definition liftS :: "'a res \<Rightarrow> ('w, 'a) act" where
  "liftS r w = (w, r)"

definition bindS :: "('w, 'a) act \<Rightarrow> ('a \<Rightarrow> ('w, 'b) act) \<Rightarrow> ('w, 'b) act" where
  "bindS m f w = (case m w of (w', Inl e) \<Rightarrow> (w', Inl e) | (w', Inr a) \<Rightarrow> f a w')"

abbreviation thenS :: "('w, 'a) act \<Rightarrow> ('w, 'b) act \<Rightarrow> ('w, 'b) act" where
  "thenS m n \<equiv> bindS m (\<lambda>_. n)"

definition getS :: "('w \<Rightarrow> 'a) \<Rightarrow> ('w, 'a) act" where
  "getS f w = (w, Inr (f w))"

definition putS :: "('w \<Rightarrow> 'w) \<Rightarrow> ('w, unit) act" where
  "putS f w = (f w, Inr ())"

text \<open>\<open>try: m; except ... as exc: h exc; else: k\<close>: an exception of \<open>k\<close> is not handled by \<open>h\<close>.\<close>

definition tryS :: "('w, 'a) act \<Rightarrow> (exn \<Rightarrow> ('w, 'b) act) \<Rightarrow> ('a \<Rightarrow> ('w, 'b) act) \<Rightarrow> ('w, 'b) act" where
  "tryS m h k w = (case m w of (w', Inl e) \<Rightarrow> h e w' | (w', Inr a) \<Rightarrow> k a w')"

text \<open>\<open>try: m; finally: f\<close> for a clean-up \<open>f\<close> that does not raise.\<close>

definition finallyS :: "('w, 'a) act \<Rightarrow> ('w \<Rightarrow> 'w) \<Rightarrow> ('w, 'a) act" where
  "finallyS m f w = (case m w of (w', r) \<Rightarrow> (f w', r))"

definition whenS :: "bool \<Rightarrow> ('w, unit) act \<Rightarrow> ('w, unit) act" where
  "whenS b m = (if b then m else retS ())"

definition guardS :: "bool \<Rightarrow> exn \<Rightarrow> ('w, unit) act" where
  "guardS b e = (if b then retS () else raiseS e)"

lemma act_simps [simp]:
  "retS a w = (w, Inr a)" "raiseS e w = (w, Inl e)" "liftS r w = (w, r)" "getS f w = (w, Inr (f w))"
  "putS g w = (g w, Inr ())"
  by (simp_all add: retS_def raiseS_def liftS_def getS_def putS_def)

lemma guardS_apply [simp]: "guardS b e w = (w, guardE b e)"
  by (simp add: guardS_def guardE_def)

lemma guardS_simps [simp]: "guardS True e = retS ()" "guardS False e = raiseS e"
  by (simp_all add: guardS_def)

lemma bindS_assoc: "bindS (bindS m f) g = bindS m (\<lambda>a. bindS (f a) g)"
  by (rule ext) (simp add: bindS_def split: prod.splits sum.splits)

lemma bindS_eval:
  "m w = (w', Inr a) \<Longrightarrow> bindS m f w = f a w'"
  "m w = (w', Inl e) \<Longrightarrow> bindS m f w = (w', Inl e)"
  by (simp_all add: bindS_def)

lemma bindS_simps [simp]:
  "bindS (retS a) f = f a" "bindS (raiseS e) f = raiseS e" "bindS (liftS (Inr a)) f = f a"
  "bindS (liftS (Inl e)) f = raiseS e"
  by (auto simp: bindS_def fun_eq_iff)

lemma bindS_putS [simp]: "bindS (putS h) f w = f () (h w)"
  by (simp add: bindS_def)

lemma bindS_getS [simp]: "bindS (getS g) f w = f (g w) w"
  by (simp add: bindS_def)

lemma bindS_Inr_iff:
  "bindS m f w = (w'', Inr b) \<longleftrightarrow> (\<exists>w' a. m w = (w', Inr a) \<and> f a w' = (w'', Inr b))"
  by (auto simp: bindS_def split: prod.splits sum.splits)

section \<open>Invariants of operations\<close>

definition keeps :: "('w \<Rightarrow> bool) \<Rightarrow> ('w, 'a) act \<Rightarrow> bool" where
  "keeps I m \<longleftrightarrow> (\<forall>w. I w \<longrightarrow> I (fst (m w)))"

definition replies :: "('a \<Rightarrow> bool) \<Rightarrow> ('w, 'a) act \<Rightarrow> bool" where
  "replies Q m \<longleftrightarrow> (\<forall>w a. snd (m w) = Inr a \<longrightarrow> Q a)"

lemma keepsD: "keeps I m \<Longrightarrow> I w \<Longrightarrow> m w = (w', r) \<Longrightarrow> I w'"
  unfolding keeps_def by (metis fst_conv)

lemma keeps_basic [edge_intros]:
  "keeps I (retS a)" "keeps I (raiseS e)" "keeps I (liftS r)" "keeps I (getS g)"
  by (simp_all add: keeps_def)

lemma keeps_putS: "(\<And>w. I w \<Longrightarrow> I (f w)) \<Longrightarrow> keeps I (putS f)"
  by (simp add: keeps_def)

lemma keeps_bindS [edge_intros]:
  "keeps I m \<Longrightarrow> (\<And>a. keeps I (f a)) \<Longrightarrow> keeps I (bindS m f)"
  unfolding keeps_def bindS_def by (auto split: prod.splits sum.splits)

lemma keeps_tryS [edge_intros]:
  "keeps I m \<Longrightarrow> (\<And>e. keeps I (h e)) \<Longrightarrow> (\<And>a. keeps I (k a)) \<Longrightarrow> keeps I (tryS m h k)"
  unfolding keeps_def tryS_def by (auto split: prod.splits sum.splits)

lemma keeps_finallyS: "keeps I m \<Longrightarrow> (\<And>w. I w \<Longrightarrow> I (f w)) \<Longrightarrow> keeps I (finallyS m f)"
  unfolding keeps_def finallyS_def by (auto split: prod.splits)

lemma keeps_cond [edge_intros]:
  "(b \<Longrightarrow> keeps I m) \<Longrightarrow> (\<not> b \<Longrightarrow> keeps I n) \<Longrightarrow> keeps I (if b then m else n)"
  "(b \<Longrightarrow> keeps I p) \<Longrightarrow> keeps I (whenS b p)"
  "keeps I (guardS b e)"
  by (auto simp: whenS_def keeps_def)

lemma keeps_option [edge_intros]:
  "(x = None \<Longrightarrow> keeps I m) \<Longrightarrow> (\<And>a. x = Some a \<Longrightarrow> keeps I (f a)) \<Longrightarrow>
     keeps I (case x of None \<Rightarrow> m | Some a \<Rightarrow> f a)"
  by (cases x) auto

lemma keeps_sum [edge_intros]:
  "(\<And>e. x = Inl e \<Longrightarrow> keeps I (h e)) \<Longrightarrow> (\<And>a. x = Inr a \<Longrightarrow> keeps I (f a)) \<Longrightarrow>
     keeps I (case x of Inl e \<Rightarrow> h e | Inr a \<Rightarrow> f a)"
  by (cases x) auto

lemma keeps_prod [edge_intros]:
  "(\<And>a b. x = (a, b) \<Longrightarrow> keeps I (f a b)) \<Longrightarrow> keeps I (case x of (a, b) \<Rightarrow> f a b)"
  by (cases x) auto

section \<open>Results of operations\<close>

lemma repliesD: "replies Q m \<Longrightarrow> m w = (w', Inr a) \<Longrightarrow> Q a"
  unfolding replies_def by (metis snd_conv)

lemma replies_retS: "Q a \<Longrightarrow> replies Q (retS a)"
  by (simp add: replies_def)

lemma replies_raiseS: "replies Q (raiseS e)"
  by (simp add: replies_def)

lemma replies_bindS: "(\<And>a. replies Q (f a)) \<Longrightarrow> replies Q (bindS m f)"
  unfolding replies_def bindS_def by (auto split: prod.splits sum.splits)

lemma replies_tryS: "(\<And>e. replies Q (h e)) \<Longrightarrow> (\<And>a. replies Q (k a)) \<Longrightarrow> replies Q (tryS m h k)"
  unfolding replies_def tryS_def by (auto split: prod.splits sum.splits)

end
