(* ===== verification/Native_Write.thy ===== *)
theory Native_Write
  imports Effects Signals
begin

text \<open>
  The protocol-native writes of \<open>actuation_signal_publisher/native.py\<close>: encoding of a value for
  a target register, the command mailbox written payload first and sequence last, and the wait
  for the matching acknowledgement. The world \<open>'w\<close>, the client libraries (pymodbus, snap7,
  asyncua), the monotonic clock and the random numbers are parameters.
\<close>

section \<open>Targets and encoding\<close>

datatype protocol = Modbus | S7

record native_target =
  nt_protocol :: protocol
  nt_host :: string
  nt_port :: int
  nt_command_address :: int
  nt_ack_address :: int
  nt_operation :: int
  nt_value_type :: value_type
  nt_scale :: int
  nt_minimum :: pyfloat
  nt_maximum :: pyfloat
  nt_unit_id :: int
  nt_db :: int
  nt_rack :: int
  nt_slot :: int
  nt_timeout :: real

definition native_target_ok :: "native_target \<Rightarrow> bool" where
  "native_target_ok t \<longleftrightarrow>
     1 \<le> nt_port t \<and> nt_port t \<le> 65535 \<and> 0 \<le> nt_command_address t \<and> 0 \<le> nt_ack_address t \<and>
     1 \<le> nt_operation t \<and> nt_operation t \<le> 3 \<and> nt_value_type t \<in> {TBool, TDouble, TInt64} \<and>
     1 \<le> nt_scale t \<and> 0 < nt_timeout t"

text \<open>The entries of the YAML list, as topic and remaining members.\<close>

fun load_native_targets ::
  "(string \<times> native_target) list \<Rightarrow> (string \<rightharpoonup> native_target) \<Rightarrow> (string \<rightharpoonup> native_target) res" where
  "load_native_targets [] result = Inr result"
| "load_native_targets ((topic, target) # entries) result =
     (if result topic \<noteq> None then Inl (ValueError (''duplicate native target: '' @ topic))
      else if \<not> native_target_ok target then Inl (ValidationError ''NativeTarget'')
      else load_native_targets entries (result(topic \<mapsto> target)))"

text \<open>\<open>math.isclose(a, b, abs_tol=1e-6)\<close> with the default relative tolerance.\<close>

definition isclose :: "real \<Rightarrow> real \<Rightarrow> bool" where
  "isclose a b \<longleftrightarrow> \<bar>a - b\<bar> \<le> max (max \<bar>a\<bar> \<bar>b\<bar> / 1000000000) (1 / 1000000)"

fun type_valid :: "value_type \<Rightarrow> signal_value \<Rightarrow> bool" where
  "type_valid TBool (VBool _) = True"
| "type_valid TInt64 (VInt _) = True"
| "type_valid TDouble (VInt _) = True"
| "type_valid TDouble (VFloat _) = True"
| "type_valid _ _ = False"

text \<open>No string passes the type test, so \<open>float\<close> is never given one.\<close>

definition encode_value :: "native_target \<Rightarrow> signal_value \<Rightarrow> int res" where
  "encode_value target v =
     (if \<not> type_valid (nt_value_type target) v
      then Inl (ValueError (''expected '' @ value_type_str (nt_value_type target)))
      else bindE (to_float (\<lambda>_. None) v) (\<lambda>numeric.
        case numeric of
          Fin x \<Rightarrow>
            if \<not> (fle (nt_minimum target) numeric \<and> fle numeric (nt_maximum target))
            then Inl (ValueError ''value outside native target range'')
            else
              let scaled = x * of_int (nt_scale target); raw = round_half_even scaled
              in if \<not> isclose scaled (of_int raw) \<or> \<not> (0 \<le> raw \<and> raw \<le> 65535)
                 then Inl (ValueError ''value cannot be represented by target encoding'')
                 else Inr raw
        | _ \<Rightarrow> Inl (ValueError ''value outside native target range'')))"

section \<open>The mailbox protocol\<close>

text \<open>\<open>draw\<close> is \<open>secrets.randbelow(65535)\<close>.\<close>

definition next_sequence :: "int \<Rightarrow> int \<Rightarrow> int" where
  "next_sequence draw previous =
     (let sequence = draw + 1 in if sequence \<noteq> previous then sequence else sequence mod 65535 + 1)"

definition index_error :: exn where
  "index_error = OtherError ''IndexError'' ''list index out of range''"

definition check_ack :: "int \<Rightarrow> int list \<Rightarrow> bool res" where
  "check_ack sequence vs =
     (case vs of
        [] \<Rightarrow> Inl index_error
      | a # rest \<Rightarrow>
          if a \<noteq> sequence then Inr False
          else case rest of
                 [] \<Rightarrow> Inl index_error
               | st # _ \<Rightarrow> if st \<noteq> 1 then Inl (ValueError ''device rejected command'') else Inr True)"

text \<open>The client libraries; a Modbus reply is \<open>None\<close> where \<open>isError()\<close> holds.\<close>

record 'w modbus_client =
  mb_connect :: "('w, bool) act"
  mb_read :: "int \<Rightarrow> int \<Rightarrow> ('w, int list option) act"
  mb_write :: "int \<Rightarrow> int list \<Rightarrow> ('w, unit option) act"
  mb_close :: "'w \<Rightarrow> 'w"

record 'w s7_client =
  s7_connect :: "('w, unit) act"
  s7_read :: "int \<Rightarrow> int \<Rightarrow> int \<Rightarrow> ('w, int list) act"
  s7_write :: "int \<Rightarrow> int \<Rightarrow> int list \<Rightarrow> ('w, unit) act"
  s7_close :: "'w \<Rightarrow> 'w"

record 'w native_env =
  ne_monotonic :: "('w, real) act"
  ne_sleep :: "('w, unit) act"
  ne_random :: "('w, int) act"
  ne_modbus :: "native_target \<Rightarrow> 'w modbus_client"
  ne_s7 :: "native_target \<Rightarrow> 'w s7_client"

text \<open>
  \<open>while time.monotonic() < deadline: ...\<close>. The fuel is the number of rounds after which the
  waiting task is cancelled; \<open>ack_poll_fuel\<close> shows how many rounds are never exhausted.
\<close>

fun ack_poll ::
  "nat \<Rightarrow> 'w native_env \<Rightarrow> ('w, int list) act \<Rightarrow> string \<Rightarrow> int \<Rightarrow> real \<Rightarrow> ('w, unit) act" where
  "ack_poll 0 E read why sequence deadline = raiseS CancelledError"
| "ack_poll (Suc n) E read why sequence deadline =
     bindS (ne_monotonic E) (\<lambda>t.
       if \<not> t < deadline then raiseS (TimeoutError why)
       else bindS read (\<lambda>vs. bindS (liftS (check_ack sequence vs)) (\<lambda>done.
         if done then retS ()
         else thenS (ne_sleep E) (ack_poll n E read why sequence deadline))))"

definition modbus_read_ack :: "'w modbus_client \<Rightarrow> native_target \<Rightarrow> ('w, int list) act" where
  "modbus_read_ack client target =
     bindS (mb_read client (nt_ack_address target) 2) (\<lambda>reply.
       case reply of
         None \<Rightarrow> raiseS (ConnectionError ''Modbus acknowledgement read failed'')
       | Some registers \<Rightarrow> retS registers)"

fun hd_act :: "int list \<Rightarrow> ('w, int) act" where
  "hd_act [] = raiseS index_error"
| "hd_act (x # _) = retS x"

definition modbus_frame ::
  "'w modbus_client \<Rightarrow> ('w, unit) act \<Rightarrow> int \<Rightarrow> int list \<Rightarrow> ('w, unit) act" where
  "modbus_frame client before_write address vs =
     thenS before_write
       (bindS (mb_write client address vs) (\<lambda>reply.
          case reply of None \<Rightarrow> raiseS (ConnectionError ''Modbus write failed'') | Some _ \<Rightarrow> retS ()))"

definition write_modbus ::
  "nat \<Rightarrow> 'w native_env \<Rightarrow> ('w, unit) act \<Rightarrow> native_target \<Rightarrow> int \<Rightarrow> ('w, unit) act" where
  "write_modbus fuel E before_write target raw =
     (let client = ne_modbus E target in
      finallyS
        (bindS (mb_connect client) (\<lambda>connected.
         if \<not> connected then raiseS (ConnectionError ''Modbus connection failed'')
         else
           bindS (modbus_read_ack client target) (\<lambda>ack.
           bindS (hd_act ack) (\<lambda>previous.
           bindS (ne_random E) (\<lambda>draw.
             let sequence = next_sequence draw previous in
             thenS (modbus_frame client before_write (nt_command_address target + 1) [nt_operation target, raw])
               (thenS (modbus_frame client before_write (nt_command_address target) [sequence])
                 (bindS (ne_monotonic E) (\<lambda>start.
                    ack_poll fuel E (modbus_read_ack client target)
                      ''device outcome unknown: Modbus acknowledgement timeout'' sequence
                      (start + nt_timeout target)))))))))
        (mb_close client))"

text \<open>\<open>struct.unpack(">HH", ...)\<close> and \<open>struct.pack(">H", ...)\<close>.\<close>

definition unpack_hh :: "int list \<Rightarrow> int list res" where
  "unpack_hh bs =
     (case bs of
        [a, b, c, d] \<Rightarrow> Inr [a * 256 + b, c * 256 + d]
      | _ \<Rightarrow> Inl (OtherError ''error'' ''unpack requires a buffer of 4 bytes''))"

definition pack_h :: "int \<Rightarrow> int list res" where
  "pack_h n =
     (if 0 \<le> n \<and> n \<le> 65535 then Inr [n div 256, n mod 256]
      else Inl (OtherError ''error'' ''ushort format requires 0 <= number <= 65535''))"

definition s7_read_ack :: "'w s7_client \<Rightarrow> native_target \<Rightarrow> ('w, int list) act" where
  "s7_read_ack client target =
     bindS (s7_read client (nt_db target) (nt_ack_address target) 4) (\<lambda>bs. liftS (unpack_hh bs))"

definition write_s7 ::
  "nat \<Rightarrow> 'w native_env \<Rightarrow> ('w, unit) act \<Rightarrow> native_target \<Rightarrow> int \<Rightarrow> ('w, unit) act" where
  "write_s7 fuel E before_write target raw =
     (let client = ne_s7 E target in
      finallyS
        (thenS (s7_connect client)
          (bindS (s7_read_ack client target) (\<lambda>ack.
           bindS (hd_act ack) (\<lambda>previous.
           bindS (ne_random E) (\<lambda>draw.
             let sequence = next_sequence draw previous in
             thenS before_write
               (bindS (liftS (bindE (pack_h (nt_operation target)) (\<lambda>a. bindE (pack_h raw) (\<lambda>b. Inr (a @ b))))) (\<lambda>payload.
                thenS (s7_write client (nt_db target) (nt_command_address target + 2) payload)
                  (thenS before_write
                    (bindS (liftS (pack_h sequence)) (\<lambda>seq_bytes.
                     thenS (s7_write client (nt_db target) (nt_command_address target) seq_bytes)
                       (bindS (ne_monotonic E) (\<lambda>start.
                          ack_poll fuel E (s7_read_ack client target)
                            ''device outcome unknown: S7 acknowledgement timeout'' sequence
                            (start + nt_timeout target)))))))))))))
        (s7_close client))"

definition write_native_value ::
  "nat \<Rightarrow> 'w native_env \<Rightarrow> ('w, unit) act \<Rightarrow> native_target \<Rightarrow> signal_value \<Rightarrow> ('w, unit) act" where
  "write_native_value fuel E before_write target v =
     bindS (liftS (encode_value target v)) (\<lambda>raw.
       if nt_protocol target = Modbus then write_modbus fuel E before_write target raw
       else write_s7 fuel E before_write target raw)"

section \<open>Encoding\<close>

lemma next_sequence_range:
  assumes "0 \<le> draw" "draw < 65535"
  shows "1 \<le> next_sequence draw prev" "next_sequence draw prev \<le> 65535" "next_sequence draw prev \<noteq> prev"
proof -
  have "(draw + 1) mod 65535 = draw + 1" if "draw \<noteq> 65534"
    using assms that by (intro mod_pos_pos_trivial) auto
  then show "1 \<le> next_sequence draw prev" "next_sequence draw prev \<le> 65535" "next_sequence draw prev \<noteq> prev"
    using assms by (cases "draw = 65534"; simp add: next_sequence_def Let_def)+
qed

lemma encode_value_Inr:
  "encode_value target v = Inr raw \<longleftrightarrow>
     type_valid (nt_value_type target) v \<and>
     (\<exists>x. to_float (\<lambda>_. None) v = Inr (Fin x) \<and> fle (nt_minimum target) (Fin x) \<and> fle (Fin x) (nt_maximum target) \<and>
       raw = round_half_even (x * of_int (nt_scale target)) \<and>
       isclose (x * of_int (nt_scale target)) (of_int raw) \<and> 0 \<le> raw \<and> raw \<le> 65535)"
proof (cases "to_float (\<lambda>_. None) v")
  case (Inr f)
  then show ?thesis by (cases f) (auto simp: encode_value_def Let_def)
qed (simp add: encode_value_def)

lemma isclose_small: "isclose a (of_int n) \<Longrightarrow> 0 \<le> n \<Longrightarrow> n \<le> 65535 \<Longrightarrow> \<bar>a - of_int n\<bar> \<le> 1 / 10000"
proof -
  assume c: "isclose a (of_int n)" and n: "0 \<le> n" "n \<le> 65535"
  have r: "0 \<le> (of_int n :: real)" "(of_int n :: real) \<le> 65535" using n by simp_all
  show ?thesis
  proof (rule ccontr)
    assume big: "\<not> \<bar>a - of_int n\<bar> \<le> 1 / 10000"
    with c have "\<bar>a - of_int n\<bar> \<le> max \<bar>a\<bar> \<bar>of_int n\<bar> / 1000000000"
      by (auto simp: isclose_def max_def split: if_splits)
    moreover have "\<bar>a\<bar> \<le> \<bar>a - of_int n\<bar> + 65535" using r by linarith
    ultimately show False using big r by (auto simp: max_def split: if_splits)
  qed
qed

section \<open>Waiting for the acknowledgement\<close>

text \<open>
  \<open>now\<close> is the monotonic time of a world. Reading the clock or the acknowledgement does not set
  it back, a reading returns it, and a sleep that returns takes at least 25 ms. Then \<open>n\<close> rounds
  are enough for a wait of less than \<open>n / 40\<close> seconds: more fuel changes nothing.
\<close>

lemma ack_poll_fuel:
  assumes clock: "\<And>w w' t. ne_monotonic E w = (w', Inr t) \<Longrightarrow> t = now w' \<and> now w \<le> now w'"
    and rd: "\<And>w w' vs. read w = (w', Inr vs) \<Longrightarrow> now w \<le> now w'"
    and sleep: "\<And>w w'. ne_sleep E w = (w', Inr ()) \<Longrightarrow> now w + 1 / 40 \<le> now w'"
    and enough: "deadline - now w < of_nat n / 40"
  shows "ack_poll (Suc n + k) E read why s deadline w = ack_poll (Suc n) E read why s deadline w"
  using enough
proof (induction n arbitrary: w)
  case 0
  show ?case
  proof (cases "ne_monotonic E w")
    case (Pair w1 r)
    with 0 clock [of w w1] show ?thesis by (cases r) (auto simp: bindS_def raiseS_def)
  qed
next
  case (Suc n)
  obtain w1 r where m: "ne_monotonic E w = (w1, r)" by fastforce
  show ?case
  proof (cases "\<exists>t w2 vs. r = Inr t \<and> t < deadline \<and> read w1 = (w2, Inr vs) \<and> check_ack s vs = Inr False")
    case False
    then show ?thesis
      by (auto simp: bindS_def m raiseS_def retS_def liftS_def split: prod.splits sum.splits)
  next
    case True
    then obtain t w2 vs where t: "r = Inr t" "t < deadline" "read w1 = (w2, Inr vs)" "check_ack s vs = Inr False"
      by blast
    obtain w3 r3 where sl: "ne_sleep E w2 = (w3, r3)" by fastforce
    show ?thesis
    proof (cases r3)
      case (Inl e)
      with t m sl show ?thesis by (simp add: bindS_def liftS_def)
    next
      case (Inr u)
      have "now w + 1 / 40 \<le> now w3"
        using clock [of w w1 t] rd [OF t(3)] sleep [of w2 w3] m t sl Inr by simp
      then have "deadline - now w3 < of_nat n / 40" using Suc.prems by (simp add: field_simps)
      from Suc.IH [OF this] t m sl Inr show ?thesis by (simp add: bindS_def liftS_def)
    qed
  qed
qed

section \<open>Invariants and frames\<close>

text \<open>The clients of an environment keep an invariant.\<close>

definition native_env_keeps :: "('w \<Rightarrow> bool) \<Rightarrow> 'w native_env \<Rightarrow> bool" where
  "native_env_keeps I E \<longleftrightarrow>
     keeps I (ne_monotonic E) \<and> keeps I (ne_sleep E) \<and> keeps I (ne_random E) \<and>
     (\<forall>t. keeps I (mb_connect (ne_modbus E t)) \<and> (\<forall>a n. keeps I (mb_read (ne_modbus E t) a n)) \<and>
        (\<forall>a vs. keeps I (mb_write (ne_modbus E t) a vs)) \<and> (\<forall>w. I w \<longrightarrow> I (mb_close (ne_modbus E t) w)) \<and>
        keeps I (s7_connect (ne_s7 E t)) \<and> (\<forall>d a n. keeps I (s7_read (ne_s7 E t) d a n)) \<and>
        (\<forall>d a bs. keeps I (s7_write (ne_s7 E t) d a bs)) \<and> (\<forall>w. I w \<longrightarrow> I (s7_close (ne_s7 E t) w)))"

lemma hd_act_keeps [edge_intros]: "keeps I (hd_act vs)"
  by (cases vs) (auto intro: edge_intros)

lemma ack_poll_keeps:
  assumes "keeps I (ne_monotonic E)" "keeps I (ne_sleep E)" "keeps I read"
  shows "keeps I (ack_poll n E read why s deadline)"
proof (induction n)
  case 0
  show ?case unfolding ack_poll.simps by (rule edge_intros)
next
  case (Suc n)
  then show ?case unfolding ack_poll.simps by (intro edge_intros assms)
qed

lemma modbus_read_ack_keeps:
  "native_env_keeps I E \<Longrightarrow> keeps I (modbus_read_ack (ne_modbus E t) t')"
  unfolding modbus_read_ack_def native_env_keeps_def by (auto intro!: edge_intros)

lemma s7_read_ack_keeps: "native_env_keeps I E \<Longrightarrow> keeps I (s7_read_ack (ne_s7 E t) t')"
  unfolding s7_read_ack_def native_env_keeps_def by (auto intro!: edge_intros)

lemma modbus_frame_keeps:
  "native_env_keeps I E \<Longrightarrow> keeps I before_write \<Longrightarrow> keeps I (modbus_frame (ne_modbus E t) before_write a vs)"
  unfolding modbus_frame_def native_env_keeps_def by (auto intro!: edge_intros)

lemma write_modbus_keeps:
  assumes E: "native_env_keeps I E" and b: "keeps I before_write"
  shows "keeps I (write_modbus fuel E before_write t raw)"
  using E modbus_read_ack_keeps [OF E] modbus_frame_keeps [OF E b] ack_poll_keeps [of I E]
  unfolding write_modbus_def Let_def native_env_keeps_def
  by (auto intro!: edge_intros keeps_finallyS)

lemma write_s7_keeps:
  assumes E: "native_env_keeps I E" and b: "keeps I before_write"
  shows "keeps I (write_s7 fuel E before_write t raw)"
  using E b s7_read_ack_keeps [OF E] ack_poll_keeps [of I E]
  unfolding write_s7_def Let_def native_env_keeps_def
  by (auto intro!: edge_intros keeps_finallyS)

lemma write_native_value_keeps:
  "native_env_keeps I E \<Longrightarrow> keeps I before_write \<Longrightarrow> keeps I (write_native_value fuel E before_write t v)"
  unfolding write_native_value_def
  by (auto intro!: edge_intros write_modbus_keeps write_s7_keeps)

section \<open>Properties\<close>

text \<open>
  An encoded value fits a 16-bit register and stands for a number within the target's limits, to
  one part in ten thousand of a register step; every other value is refused before any connection.
\<close>

theorem encoded_value_faithful:
  assumes "encode_value target v = Inr raw"
  shows "0 \<le> raw \<and> raw \<le> 65535 \<and>
    (\<exists>x. to_float (\<lambda>_. None) v = Inr (Fin x) \<and> fle (nt_minimum target) (Fin x) \<and> fle (Fin x) (nt_maximum target) \<and>
       \<bar>x * of_int (nt_scale target) - of_int raw\<bar> \<le> 1 / 10000)"
  using assms isclose_small by (auto simp: encode_value_Inr)

definition speed_target :: native_target where
  "speed_target =
     \<lparr>nt_protocol = Modbus, nt_host = ''h'', nt_port = 502, nt_command_address = 10, nt_ack_address = 20,
      nt_operation = 2, nt_value_type = TDouble, nt_scale = 10, nt_minimum = Fin 0, nt_maximum = Fin 100,
      nt_unit_id = 1, nt_db = 3, nt_rack = 0, nt_slot = 1, nt_timeout = 1\<rparr>"

theorem encoded_value_faithful_witness:
  "\<exists>raw. encode_value speed_target (VFloat (Fin (25 / 2))) = Inr raw \<and> raw \<le> 65535 \<and>
     \<bar>25 / 2 * 10 - real_of_int raw\<bar> \<le> 1 / 10000"
proof -
  have "encode_value speed_target (VFloat (Fin (25 / 2))) = Inr 125"
    unfolding encode_value_Inr by (intro conjI exI [of _ "25 / 2"]) (simp_all add: speed_target_def isclose_def)
  with encoded_value_faithful [OF this] show ?thesis by (auto simp: speed_target_def)
qed

text \<open>
  The sequence number of a command fits the register, is not the idle value 0 and differs from
  the one the device acknowledged last, so the device takes it as a new command.
\<close>

theorem command_sequence_new:
  assumes "0 \<le> draw" and "draw < 65535"
  shows "1 \<le> next_sequence draw previous \<and> next_sequence draw previous \<le> 65535 \<and>
    next_sequence draw previous \<noteq> previous"
  using next_sequence_range [OF assms] by blast

theorem command_sequence_new_witness: "next_sequence 65534 65535 = 1 \<and> next_sequence 65534 65535 \<noteq> 65535"
  using command_sequence_new [of 65534 65535] by (simp add: next_sequence_def)

text \<open>
  C8. Waiting for an acknowledgement ends: when the monotonic clock does not run backwards and a
  sleep takes its 25 ms, the loop leaves within as many rounds as the remaining time has 25 ms
  steps, so further rounds change nothing.
\<close>

theorem acknowledgement_wait_ends:
  assumes "\<And>w w' t. ne_monotonic E w = (w', Inr t) \<Longrightarrow> t = now w' \<and> now w \<le> now w'"
    and "\<And>w w' vs. read w = (w', Inr vs) \<Longrightarrow> now w \<le> now w'"
    and "\<And>w w'. ne_sleep E w = (w', Inr ()) \<Longrightarrow> now w + 1 / 40 \<le> now w'"
    and "deadline - now w < of_nat n / 40"
  shows "ack_poll (Suc n + k) E read why s deadline w = ack_poll (Suc n) E read why s deadline w"
  using assms by (rule ack_poll_fuel)

definition clock_env :: "real native_env" where
  "clock_env =
     \<lparr>ne_monotonic = (\<lambda>w. (w, Inr w)), ne_sleep = (\<lambda>w. (w + 1 / 40, Inr ())), ne_random = (\<lambda>w. (w, Inr 0)),
      ne_modbus = undefined, ne_s7 = undefined\<rparr>"

theorem acknowledgement_wait_ends_witness:
  "ack_poll 9 clock_env (\<lambda>w. (w, Inr [0, 0])) ''late'' 1 (1 / 20) 0 =
   ack_poll 4 clock_env (\<lambda>w. (w, Inr [0, 0])) ''late'' 1 (1 / 20) 0"
  using acknowledgement_wait_ends [of clock_env "\<lambda>w. w" "\<lambda>w. (w, Inr [0, 0])" "1 / 20" 0 3 5 "''late''" 1]
  by (simp add: clock_env_def)

end
