(* ===== verification/Device_Controls.thy ===== *)
theory Device_Controls
  imports Edge_Prelude
begin

text \<open>
  The deterministic device controls of \<open>eirvah_controls/__init__.py\<close> and the mailbox through
  which a device consumes commands. Status codes: 1 applied, 2 invalid, 3 precondition failed,
  4 duplicate rejection. The locale \<open>device_control\<close> is the contract between a control and the
  mailbox; motor, valve and reject station are its instances.
\<close>

section \<open>The controls\<close>

record motor_control =
  mc_max_speed :: int
  mc_setpoint :: int
  mc_running :: bool
  mc_faulted :: bool

definition motor_speed :: "motor_control \<Rightarrow> int" where
  "motor_speed m = (if mc_running m \<and> \<not> mc_faulted m then mc_setpoint m else 0)"

definition motor_apply :: "motor_control \<Rightarrow> int \<Rightarrow> int \<Rightarrow> motor_control \<times> int" where
  "motor_apply m operation v =
     (if operation = 2 then
        (if \<not> (0 \<le> v \<and> v \<le> mc_max_speed m) then (m, 2) else (m\<lparr>mc_setpoint := v\<rparr>, 1))
      else if operation = 1 then
        (if v \<notin> {0, 1} then (m, 2)
         else if v \<noteq> 0 \<and> mc_faulted m then (m, 3)
         else (m\<lparr>mc_running := (v \<noteq> 0)\<rparr>, 1))
      else if operation = 3 then
        (if v \<noteq> 1 then (m, 2)
         else if \<not> mc_faulted m then (m, 3)
         else (m\<lparr>mc_faulted := False, mc_running := False\<rparr>, 1))
      else if operation = 4 \<and> v = 1 then (m\<lparr>mc_faulted := True, mc_running := False\<rparr>, 1)
      else (m, 2))"

record valve_control =
  vc_opened :: bool

definition valve_apply :: "valve_control \<Rightarrow> int \<Rightarrow> int \<Rightarrow> valve_control \<times> int" where
  "valve_apply c operation v =
     (if operation \<noteq> 1 \<or> v \<notin> {0, 1} then (c, 2) else (c\<lparr>vc_opened := (v \<noteq> 0)\<rparr>, 1))"

text \<open>\<open>_present\<close> is the deque of the bottles in the window, oldest first.\<close>

record reject_control =
  rc_window :: nat
  rc_count :: int
  rc_last_bottle :: int
  rc_present :: "int list"
  rc_rejected :: "int set"

definition reject_init :: reject_control where
  "reject_init = \<lparr>rc_window = 32, rc_count = 0, rc_last_bottle = 0, rc_present = [], rc_rejected = {}\<rparr>"

fun reject_trim :: "nat \<Rightarrow> int list \<Rightarrow> int set \<Rightarrow> int list \<times> int set" where
  "reject_trim window [] rejected = ([], rejected)"
| "reject_trim window (b # bs) rejected =
     (if length (b # bs) > window then reject_trim window bs (rejected - {b}) else (b # bs, rejected))"

definition reject_observe :: "reject_control \<Rightarrow> int \<Rightarrow> reject_control" where
  "reject_observe r bottle_id =
     (let present = (if bottle_id \<in> set (rc_present r) then rc_present r
                     else rc_present r @ [bottle_id]);
          (present', rejected') = reject_trim (rc_window r) present (rc_rejected r)
      in r\<lparr>rc_present := present', rc_rejected := rejected'\<rparr>)"

definition reject_apply :: "reject_control \<Rightarrow> int \<Rightarrow> int \<Rightarrow> reject_control \<times> int" where
  "reject_apply r operation v =
     (if operation \<noteq> 1 \<or> \<not> (1 \<le> v \<and> v \<le> 65535) then (r, 2)
      else if v \<notin> set (rc_present r) then (r, 3)
      else if v \<in> rc_rejected r then (r, 4)
      else (r\<lparr>rc_rejected := insert v (rc_rejected r), rc_count := min 65535 (rc_count r + 1),
              rc_last_bottle := v\<rparr>, 1))"

section \<open>The mailbox\<close>

text \<open>
  One poll of a device's command registers: the command is its sequence number, operation and
  value, the acknowledgement the last consumed sequence number and its status. A command is
  consumed when its sequence is nonzero and differs from the acknowledged one.
\<close>

type_synonym command_regs = "int \<times> int \<times> int"
type_synonym ack_regs = "int \<times> int"

definition mailbox_poll ::
  "('s \<Rightarrow> int \<Rightarrow> int \<Rightarrow> 's \<times> int) \<Rightarrow> command_regs \<Rightarrow> 's \<times> ack_regs \<Rightarrow> 's \<times> ack_regs" where
  "mailbox_poll act cmd sa =
     (case (cmd, sa) of ((seq, operation, v), (s, previous, status)) \<Rightarrow>
        if seq \<noteq> 0 \<and> seq \<noteq> previous
        then (case act s operation v of (s', status') \<Rightarrow> (s', seq, status'))
        else (s, previous, status))"

fun mailbox_run ::
  "('s \<Rightarrow> int \<Rightarrow> int \<Rightarrow> 's \<times> int) \<Rightarrow> command_regs list \<Rightarrow> 's \<times> ack_regs \<Rightarrow> 's \<times> ack_regs" where
  "mailbox_run act [] sa = sa"
| "mailbox_run act (c # cs) sa = mailbox_run act cs (mailbox_poll act c sa)"

locale device_control =
  fixes act :: "'s \<Rightarrow> int \<Rightarrow> int \<Rightarrow> 's \<times> int"
    and invar :: "'s \<Rightarrow> bool"
  assumes status_range: "snd (act s operation v) \<in> {1, 2, 3, 4}"
    and refused_unchanged: "snd (act s operation v) \<noteq> 1 \<Longrightarrow> fst (act s operation v) = s"
    and apply_invar: "invar s \<Longrightarrow> invar (fst (act s operation v))"
begin

lemma poll_invar: "invar (fst sa) \<Longrightarrow> invar (fst (mailbox_poll act c sa))"
  using apply_invar by (auto simp: mailbox_poll_def split: prod.splits) (metis fst_conv)

lemma run_invar: "invar (fst sa) \<Longrightarrow> invar (fst (mailbox_run act cs sa))"
  by (induction cs arbitrary: sa) (simp_all add: poll_invar)

lemma poll_idempotent: "mailbox_poll act c (mailbox_poll act c sa) = mailbox_poll act c sa"
  by (auto simp: mailbox_poll_def split: prod.splits if_splits)

lemma run_repeat: "mailbox_run act (replicate n c) (mailbox_poll act c sa) = mailbox_poll act c sa"
  by (induction n) (auto simp: poll_idempotent)

lemma poll_acknowledges:
  "fst c \<noteq> 0 \<Longrightarrow> fst c \<noteq> fst (snd sa) \<Longrightarrow>
     fst (snd (mailbox_poll act c sa)) = fst c \<and> snd (snd (mailbox_poll act c sa)) \<in> {1, 2, 3, 4}"
  using status_range by (auto simp: mailbox_poll_def split: prod.splits) (metis snd_conv insert_iff empty_iff)+

lemma poll_changes_only_applied:
  "fst (mailbox_poll act c sa) \<noteq> fst sa \<Longrightarrow> snd (snd (mailbox_poll act c sa)) = 1"
  using refused_unchanged by (auto simp: mailbox_poll_def split: prod.splits if_splits) (metis fst_conv snd_conv)

end

section \<open>The controls keep the contract\<close>

definition motor_invar :: "motor_control \<Rightarrow> bool" where
  "motor_invar m \<longleftrightarrow>
     0 \<le> mc_setpoint m \<and> mc_setpoint m \<le> mc_max_speed m \<and> (mc_faulted m \<longrightarrow> \<not> mc_running m)"

definition reject_invar :: "reject_control \<Rightarrow> bool" where
  "reject_invar r \<longleftrightarrow>
     distinct (rc_present r) \<and> length (rc_present r) \<le> rc_window r \<and>
     rc_rejected r \<subseteq> set (rc_present r) \<and> 0 \<le> rc_count r \<and> rc_count r \<le> 65535"

interpretation motor: device_control motor_apply motor_invar
  by unfold_locales (auto simp: motor_apply_def motor_invar_def)

interpretation valve: device_control valve_apply "\<lambda>_. True"
  by unfold_locales (auto simp: valve_apply_def)

interpretation reject: device_control reject_apply reject_invar
  by unfold_locales (auto simp: reject_apply_def reject_invar_def)

lemma motor_speed_range: "motor_invar m \<Longrightarrow> 0 \<le> motor_speed m \<and> motor_speed m \<le> mc_max_speed m"
  by (auto simp: motor_speed_def motor_invar_def)

lemma motor_faulted_stopped: "motor_invar m \<Longrightarrow> mc_faulted m \<Longrightarrow> motor_speed m = 0"
  by (simp add: motor_speed_def)

lemma motor_apply_max [simp]: "mc_max_speed (fst (motor_apply m operation v)) = mc_max_speed m"
  by (simp add: motor_apply_def)

lemma reject_trim_props:
  "reject_trim w ps rj = (ps', rj') \<Longrightarrow> distinct ps \<Longrightarrow> rj \<subseteq> set ps \<Longrightarrow>
     distinct ps' \<and> length ps' \<le> w \<and> rj' = rj \<inter> set ps' \<and> (\<exists>k. ps' = drop k ps) \<and>
     (length ps \<le> w \<longrightarrow> ps' = ps)"
proof (induction w ps rj rule: reject_trim.induct)
  case (1 w rj)
  then show ?case by auto
next
  case (2 w b bs rj)
  show ?case
  proof (cases "length (b # bs) > w")
    case True
    with 2 have ih: "distinct ps' \<and> length ps' \<le> w \<and> rj' = (rj - {b}) \<inter> set ps' \<and> (\<exists>k. ps' = drop k bs)"
      by auto
    then obtain k where k: "ps' = drop (Suc k) (b # bs)" by auto
    have "set ps' \<subseteq> set bs" using k by (simp add: set_drop_subset)
    then have "(rj - {b}) \<inter> set ps' = rj \<inter> set ps'" using "2.prems" by auto
    with ih k True show ?thesis by (simp only: not_le [symmetric]) blast
  next
    case False
    with 2 show ?thesis by (auto intro: exI [of _ 0])
  qed
qed

lemma reject_observe_invar: "reject_invar r \<Longrightarrow> reject_invar (reject_observe r b)"
proof -
  assume inv: "reject_invar r"
  let ?p = "if b \<in> set (rc_present r) then rc_present r else rc_present r @ [b]"
  obtain ps rj where t: "reject_trim (rc_window r) ?p (rc_rejected r) = (ps, rj)" by fastforce
  have "distinct ?p" "rc_rejected r \<subseteq> set ?p" using inv by (auto simp: reject_invar_def)
  from reject_trim_props [OF t this] show ?thesis
    using inv t by (auto simp: reject_observe_def reject_invar_def Let_def)
qed

lemma reject_init_invar: "reject_invar reject_init"
  by (simp add: reject_invar_def reject_init_def)

section \<open>Properties\<close>

text \<open>
  Whatever commands a motor's mailbox receives, its setpoint stays within the range, its speed
  too, a faulted motor stands still, and the maximum speed never changes.
\<close>

theorem motor_mailbox_safe:
  assumes "motor_invar m" and "mailbox_run motor_apply cs (m, ack) = (m', ack')"
  shows "0 \<le> motor_speed m' \<and> motor_speed m' \<le> mc_max_speed m' \<and> mc_max_speed m' = mc_max_speed m \<and>
    (mc_faulted m' \<longrightarrow> motor_speed m' = 0)"
proof -
  have "mc_max_speed (fst (mailbox_run motor_apply cs sa)) = mc_max_speed (fst sa)" for sa
    by (induction cs arbitrary: sa)
      (auto simp: mailbox_poll_def split: prod.splits, metis fst_conv motor_apply_max)
  from this [of "(m, ack)"] have "mc_max_speed m' = mc_max_speed m" using assms by simp
  moreover have "motor_invar m'" using motor.run_invar [of "(m, ack)" cs] assms by simp
  ultimately show ?thesis using motor_speed_range [of m'] motor_faulted_stopped [of m'] by simp
qed

theorem motor_mailbox_safe_witness:
  "motor_speed (fst (mailbox_run motor_apply [(1, 2, 80), (2, 4, 1), (3, 1, 1)]
     (\<lparr>mc_max_speed = 100, mc_setpoint = 50, mc_running = True, mc_faulted = False\<rparr>, (0, 0)))) \<le> 100"
  using motor_mailbox_safe [of "\<lparr>mc_max_speed = 100, mc_setpoint = 50, mc_running = True, mc_faulted = False\<rparr>"
      "[(1, 2, 80), (2, 4, 1), (3, 1, 1)]" "(0, 0)"]
  by (simp add: motor_invar_def mailbox_poll_def motor_apply_def)

text \<open>
  A command is consumed once: polling the same command registers any number of times after
  the first has no further effect on any of the three controls.
\<close>

theorem mailbox_consumes_once:
  "mailbox_run motor_apply (replicate (Suc n) c) sm = mailbox_poll motor_apply c sm \<and>
   mailbox_run valve_apply (replicate (Suc n) c) sv = mailbox_poll valve_apply c sv \<and>
   mailbox_run reject_apply (replicate (Suc n) c) sr = mailbox_poll reject_apply c sr"
  by (simp add: motor.run_repeat valve.run_repeat reject.run_repeat)

text \<open>The bottles a sequence of observations and reject commands ejects.\<close>

datatype reject_input = Observe int | Eject int

fun reject_trace :: "reject_control \<Rightarrow> reject_input list \<Rightarrow> reject_control \<times> int list" where
  "reject_trace r [] = (r, [])"
| "reject_trace r (Observe b # xs) = reject_trace (reject_observe r b) xs"
| "reject_trace r (Eject b # xs) =
     (let (r', status) = reject_apply r 1 b; (r'', ejected) = reject_trace r' xs
      in (r'', if status = 1 then b # ejected else ejected))"

fun observed :: "reject_input list \<Rightarrow> int set" where
  "observed [] = {}"
| "observed (Observe b # xs) = insert b (observed xs)"
| "observed (Eject b # xs) = observed xs"

lemma finite_observed [simp]: "finite (observed xs)"
  by (induction xs rule: observed.induct) auto

lemma reject_trim_fits: "length ps \<le> w \<Longrightarrow> reject_trim w ps rj = (ps, rj)"
  by (cases ps) auto

text \<open>What an observation does: a known bottle nothing, a new one is added and may push out the oldest.\<close>

lemma reject_observe_cases:
  assumes "reject_invar r"
  shows "reject_observe r b =
    (if b \<in> set (rc_present r) then r
     else if length (rc_present r) < rc_window r then r\<lparr>rc_present := rc_present r @ [b]\<rparr>
     else r\<lparr>rc_present := tl (rc_present r @ [b]), rc_rejected := rc_rejected r - {hd (rc_present r @ [b])}\<rparr>)"
proof -
  have l: "length (rc_present r) \<le> rc_window r" using assms by (simp add: reject_invar_def)
  have "reject_trim (rc_window r) (rc_present r @ [b]) rj = (tl (rc_present r @ [b]), rj - {hd (rc_present r @ [b])})"
    if "\<not> length (rc_present r) < rc_window r" for rj
    using that l by (cases "rc_present r") (simp_all add: reject_trim_fits)
  then show ?thesis using l by (simp add: reject_observe_def reject_trim_fits Let_def)
qed

text \<open>
  \<open>qs\<close> are the bottles that came into the window after \<open>b\<close>. While these and the bottles still to
  come do not fill the window, \<open>b\<close> stays in it and its mark is kept.
\<close>

lemma window_filled:
  assumes "card (set qs \<union> (insert c (observed xs) - {b})) < length qs + 1" "distinct (qs @ [c])" "b \<notin> set qs" "b \<noteq> c"
  shows False
proof -
  have "card (set (qs @ [c])) \<le> card (set qs \<union> (insert c (observed xs) - {b}))"
    using assms(4) by (intro card_mono) auto
  then show False using assms distinct_card [of "qs @ [c]"] by simp
qed

lemma ejections_of:
  assumes "reject_invar r" "rc_present r = ps @ b # qs" "card (set qs \<union> (observed xs - {b})) < rc_window r"
  shows "count_list (snd (reject_trace r xs)) b =
    (if b \<notin> rc_rejected r \<and> Eject b \<in> set xs \<and> 1 \<le> b \<and> b \<le> 65535 then 1 else 0)"
  using assms
proof (induction r xs arbitrary: ps qs rule: reject_trace.induct)
  case (1 r)
  then show ?case by simp
next
  case (2 r c xs)
  let ?r = "reject_observe r c"
  have "\<exists>ps' qs'. rc_present ?r = ps' @ b # qs' \<and> set qs' \<subseteq> set qs \<union> (insert c (observed xs) - {b}) \<and>
      (b \<in> rc_rejected ?r \<longleftrightarrow> b \<in> rc_rejected r) \<and> rc_window ?r = rc_window r"
  proof (cases "c \<in> set (rc_present r)")
    case True
    then show ?thesis using 2 by (auto simp: reject_observe_cases)
  next
    case new: False
    show ?thesis
    proof (cases "length (rc_present r) < rc_window r")
      case True
      then have "rc_present ?r = ps @ b # (qs @ [c])" using new 2 by (simp add: reject_observe_cases)
      then show ?thesis using new True 2 by (intro exI [of _ ps] exI [of _ "qs @ [c]"]) (auto simp: reject_observe_cases)
    next
      case False
      have d: "distinct (rc_present r)" and w: "length (rc_present r) = rc_window r"
        using 2 False by (auto simp: reject_invar_def)
      show ?thesis
      proof (cases ps)
        case Nil
        then show ?thesis using window_filled [of qs c xs b] 2 d w new by auto
      next
        case (Cons p ps')
        then have "rc_present ?r = ps' @ b # (qs @ [c])" "p \<noteq> b" "rc_rejected ?r = rc_rejected r - {p}"
          using new False 2 d by (auto simp: reject_observe_cases)
        then show ?thesis using new False 2 by (intro exI [of _ ps'] exI [of _ "qs @ [c]"]) (auto simp: reject_observe_cases)
      qed
    qed
  qed
  then obtain ps' qs' where q: "rc_present ?r = ps' @ b # qs'" "set qs' \<subseteq> set qs \<union> (insert c (observed xs) - {b})"
      "b \<in> rc_rejected ?r \<longleftrightarrow> b \<in> rc_rejected r" "rc_window ?r = rc_window r" by blast
  have "card (set qs' \<union> (observed xs - {b})) \<le> card (set qs \<union> (observed (Observe c # xs) - {b}))"
    using q(2) by (intro card_mono) auto
  then have "card (set qs' \<union> (observed xs - {b})) < rc_window ?r" using 2 q(4) by simp
  from "2.IH" [OF reject_observe_invar [OF "2.prems"(1)] q(1) this] q(3) show ?case by simp
next
  case (3 r c xs)
  obtain r' st where a: "reject_apply r 1 c = (r', st)" by fastforce
  have inv: "reject_invar r'" using reject.apply_invar [of r 1 c] 3 a by simp
  have same: "rc_present r' = rc_present r" "rc_window r' = rc_window r"
      "rc_rejected r' = (if st = 1 then insert c (rc_rejected r) else rc_rejected r)"
      "st = 1 \<longleftrightarrow> 1 \<le> c \<and> c \<le> 65535 \<and> c \<in> set (rc_present r) \<and> c \<notin> rc_rejected r"
    using a by (auto simp: reject_apply_def split: if_splits)
  have "count_list (snd (reject_trace r' xs)) b =
      (if b \<notin> rc_rejected r' \<and> Eject b \<in> set xs \<and> 1 \<le> b \<and> b \<le> 65535 then 1 else 0)"
    using "3.IH" [OF a [symmetric] refl inv] 3 same by simp
  then show ?case using a same 3 by (auto split: prod.splits)
qed

text \<open>
  C11. A bottle in the window is ejected by the first valid reject command for it, unless it has been
  ejected already, and never again before as many other bottles as the window holds have come in after
  it: whatever else is observed, pushed out of the window or commanded in between.
\<close>

theorem bottle_ejected_once:
  assumes "reject_invar r" and "rc_present r = ps @ b # qs"
    and "card (set qs \<union> (observed xs - {b})) < rc_window r"
  shows "count_list (snd (reject_trace r xs)) b =
    (if b \<notin> rc_rejected r \<and> Eject b \<in> set xs \<and> 1 \<le> b \<and> b \<le> 65535 then 1 else 0)"
  using assms by (rule ejections_of)

definition example_station :: reject_control where
  "example_station = \<lparr>rc_window = 2, rc_count = 1, rc_last_bottle = 7, rc_present = [6, 7], rc_rejected = {7}\<rparr>"

text \<open>Bottle 8 pushes bottle 6 out of a window of two; the ejected bottle 7 is not ejected again.\<close>

theorem bottle_ejected_once_witness:
  "snd (reject_trace example_station [Observe 8, Eject 7, Eject 8, Eject 8]) = [8] \<and>
   count_list (snd (reject_trace example_station [Observe 8, Eject 7, Eject 8, Eject 8])) 7 = 0"
  using bottle_ejected_once [of example_station "[6]" 7 "[]" "[Observe 8, Eject 7, Eject 8, Eject 8]"]
  by (simp add: example_station_def reject_invar_def reject_observe_def reject_apply_def)

end
