(* ===== verification/Native_Mailbox.thy ===== *)
theory Native_Mailbox
  imports Native_Write Device_Controls
begin

text \<open>
  The writer's mailbox protocols (Modbus and S7) against a device that polls its command registers
  (\<open>Device_Controls\<close>). The device is simulated behind the clients: before each request it may poll or
  not, and the connection may refuse a request, lose it, or lose the answer to a request the device
  has carried out, as a schedule decides.
\<close>

section \<open>The device behind the clients\<close>

text \<open>What becomes of a request; an exception may also be the cancellation of the waiting task.\<close>

datatype link = Delivered | Refused | Lost exn | Unanswered exn

record 's device_world =
  dw_cmd :: command_regs
  dw_ctl :: 's
  dw_ack :: ack_regs
  dw_sched :: "(bool \<times> link) list"

definition dev_poll :: "('s \<Rightarrow> int \<Rightarrow> int \<Rightarrow> 's \<times> int) \<Rightarrow> 's device_world \<Rightarrow> 's device_world" where
  "dev_poll act w =
     (case mailbox_poll act (dw_cmd w) (dw_ctl w, dw_ack w) of (s, ack) \<Rightarrow> w\<lparr>dw_ctl := s, dw_ack := ack\<rparr>)"

definition dev_turn :: "('s \<Rightarrow> int \<Rightarrow> int \<Rightarrow> 's \<times> int) \<Rightarrow> 's device_world \<Rightarrow> 's device_world \<times> link" where
  "dev_turn act w =
     (case dw_sched w of
        [] \<Rightarrow> (dev_poll act w, Delivered)
      | (b, l) # rest \<Rightarrow> ((if b then dev_poll act w else w)\<lparr>dw_sched := rest\<rparr>, l))"

text \<open>A request: its effect on the registers, its answer, and the answer of a refusal.\<close>

definition dev_request ::
  "('s \<Rightarrow> int \<Rightarrow> int \<Rightarrow> 's \<times> int) \<Rightarrow> ('s device_world \<Rightarrow> 's device_world) \<Rightarrow> ('s device_world \<Rightarrow> 'a) \<Rightarrow> 'a res
   \<Rightarrow> ('s device_world, 'a) Effects.act" where
  "dev_request act effect answer refusal w =
     (case dev_turn act w of
        (w1, Delivered) \<Rightarrow> (effect w1, Inr (answer w1))
      | (w1, Refused) \<Rightarrow> (w1, refusal)
      | (w1, Lost e) \<Rightarrow> (w1, Inl e)
      | (w1, Unanswered e) \<Rightarrow> (effect w1, Inl e))"

definition set_sequence :: "int \<Rightarrow> 's device_world \<Rightarrow> 's device_world" where
  "set_sequence q w = w\<lparr>dw_cmd := (q, snd (dw_cmd w))\<rparr>"

definition set_payload :: "int \<Rightarrow> int \<Rightarrow> 's device_world \<Rightarrow> 's device_world" where
  "set_payload operation v w = w\<lparr>dw_cmd := (fst (dw_cmd w), operation, v)\<rparr>"

definition s7_error :: exn where
  "s7_error = OtherError ''S7Error'' ''request refused''"

text \<open>
  Modbus: the registers of the target, the acknowledgement at its address and the command at its own.
  A request for other registers is refused.
\<close>

definition dev_modbus ::
  "('s \<Rightarrow> int \<Rightarrow> int \<Rightarrow> 's \<times> int) \<Rightarrow> native_target \<Rightarrow> 's device_world modbus_client" where
  "dev_modbus act target =
     \<lparr>mb_connect = dev_request act id (\<lambda>_. True) (Inr False),
      mb_read = (\<lambda>a n. dev_request act id
        (\<lambda>w. if a = nt_ack_address target \<and> n = 2 then Some [fst (dw_ack w), snd (dw_ack w)] else None) (Inr None)),
      mb_write = (\<lambda>a vs.
        case vs of
          [q] \<Rightarrow> if a = nt_command_address target
                 then dev_request act (set_sequence q) (\<lambda>_. Some ()) (Inr None) else retS None
        | [x, y] \<Rightarrow> if a = nt_command_address target + 1
                    then dev_request act (set_payload x y) (\<lambda>_. Some ()) (Inr None) else retS None
        | _ \<Rightarrow> retS None),
      mb_close = (\<lambda>w. w)\<rparr>"

text \<open>S7: the same registers as big-endian words of a data block.\<close>

definition dev_s7 :: "('s \<Rightarrow> int \<Rightarrow> int \<Rightarrow> 's \<times> int) \<Rightarrow> native_target \<Rightarrow> 's device_world s7_client" where
  "dev_s7 act target =
     \<lparr>s7_connect = dev_request act id (\<lambda>_. ()) (Inl s7_error),
      s7_read = (\<lambda>d a n.
        if d = nt_db target \<and> a = nt_ack_address target \<and> n = 4
        then dev_request act id (\<lambda>w. [fst (dw_ack w) div 256, fst (dw_ack w) mod 256,
               snd (dw_ack w) div 256, snd (dw_ack w) mod 256]) (Inl s7_error)
        else raiseS s7_error),
      s7_write = (\<lambda>d a bs.
        case bs of
          [x, y] \<Rightarrow> if d = nt_db target \<and> a = nt_command_address target
                    then dev_request act (set_sequence (x * 256 + y)) (\<lambda>_. ()) (Inl s7_error) else raiseS s7_error
        | [x, y, u, v] \<Rightarrow> if d = nt_db target \<and> a = nt_command_address target + 2
                    then dev_request act (set_payload (x * 256 + y) (u * 256 + v)) (\<lambda>_. ()) (Inl s7_error)
                    else raiseS s7_error
        | _ \<Rightarrow> raiseS s7_error),
      s7_close = (\<lambda>w. w)\<rparr>"

abbreviation dw_core :: "'s device_world \<Rightarrow> command_regs \<times> 's \<times> ack_regs" where
  "dw_core w \<equiv> (dw_cmd w, dw_ctl w, dw_ack w)"

text \<open>An operation that does not reach the device.\<close>

definition off_device :: "('s device_world, 'a) Effects.act \<Rightarrow> bool" where
  "off_device m \<longleftrightarrow> (\<forall>w. dw_core (fst (m w)) = dw_core w)"

section \<open>Idle and waiting devices\<close>

text \<open>
  Idle: nothing to consume. Waiting: the command is written and either not consumed yet or consumed
  exactly once.
\<close>

definition dev_idle :: "'s \<Rightarrow> int \<Rightarrow> 's device_world \<Rightarrow> bool" where
  "dev_idle s a w \<longleftrightarrow> dw_ctl w = s \<and> fst (dw_ack w) = a \<and> (fst (dw_cmd w) = 0 \<or> fst (dw_cmd w) = a)"

definition dev_done ::
  "('s \<Rightarrow> int \<Rightarrow> int \<Rightarrow> 's \<times> int) \<Rightarrow> 's \<Rightarrow> int \<Rightarrow> int \<Rightarrow> int \<Rightarrow> 's device_world \<Rightarrow> bool" where
  "dev_done act s seq operation v w \<longleftrightarrow>
     dw_cmd w = (seq, operation, v) \<and> dw_ctl w = fst (act s operation v) \<and> dw_ack w = (seq, snd (act s operation v))"

definition dev_waiting ::
  "('s \<Rightarrow> int \<Rightarrow> int \<Rightarrow> 's \<times> int) \<Rightarrow> 's \<Rightarrow> int \<Rightarrow> int \<Rightarrow> int \<Rightarrow> int \<Rightarrow> 's device_world \<Rightarrow> bool" where
  "dev_waiting act s a seq operation v w \<longleftrightarrow>
     dw_cmd w = (seq, operation, v) \<and> dw_ctl w = s \<and> fst (dw_ack w) = a \<or> dev_done act s seq operation v w"

lemma poll_idle: "dev_idle s a w \<Longrightarrow> dev_idle s a (dev_poll act w) \<and> dw_cmd (dev_poll act w) = dw_cmd w"
  by (cases "dw_cmd w") (auto simp: dev_idle_def dev_poll_def mailbox_poll_def split: prod.splits)

lemma poll_done: "dev_done act s q x v w \<Longrightarrow> dev_done act s q x v (dev_poll act w)"
  by (auto simp: dev_done_def dev_poll_def mailbox_poll_def split: prod.splits)

lemma poll_waiting: "dev_waiting act s a q x v w \<Longrightarrow> dev_waiting act s a q x v (dev_poll act w)"
  by (auto simp: dev_waiting_def dev_done_def dev_poll_def mailbox_poll_def split: prod.splits if_splits)

lemma poll_frame [simp]:
  "dev_idle s a (w\<lparr>dw_sched := b\<rparr>) = dev_idle s a w"
  "dev_waiting act s a q x v (w\<lparr>dw_sched := b\<rparr>) = dev_waiting act s a q x v w"
  by (simp_all add: dev_idle_def dev_waiting_def dev_done_def)

lemma turn_idle: "dev_turn act w = (w', l) \<Longrightarrow> dev_idle s a w \<Longrightarrow> dev_idle s a w' \<and> dw_cmd w' = dw_cmd w"
  using poll_idle [of s a w act] by (auto simp: dev_turn_def split: list.splits if_splits)

lemma turn_waiting: "dev_turn act w = (w', l) \<Longrightarrow> dev_waiting act s a q x v w \<Longrightarrow> dev_waiting act s a q x v w'"
  using poll_waiting [of act s a q x v w] by (auto simp: dev_turn_def split: list.splits if_splits)

lemma off_deviceD: "off_device m \<Longrightarrow> m w = (w', r) \<Longrightarrow> dw_cmd w' = dw_cmd w \<and> dw_ctl w' = dw_ctl w \<and> dw_ack w' = dw_ack w"
  unfolding off_device_def by (metis fst_conv prod.inject)

lemma off_device_keeps:
  "off_device m \<Longrightarrow> keeps (dev_idle s a) m" "off_device m \<Longrightarrow> keeps (dev_waiting act s a q x v) m"
  by (auto simp: off_device_def keeps_def dev_idle_def dev_waiting_def dev_done_def)

text \<open>The outcome of a write, and what later polls of the device make of it.\<close>

definition settled ::
  "('s \<Rightarrow> int \<Rightarrow> int \<Rightarrow> 's \<times> int) \<Rightarrow> 's \<Rightarrow> int \<Rightarrow> int \<Rightarrow> int \<Rightarrow> 's device_world \<times> unit res \<Rightarrow> bool" where
  "settled act s a x v wr \<longleftrightarrow>
     (dev_idle s a (fst wr) \<or> (\<exists>q. dev_waiting act s a q x v (fst wr))) \<and>
     (snd wr = Inr () \<longrightarrow> (\<exists>q. dev_done act s q x v (fst wr)) \<and> snd (act s x v) = 1)"

lemma polls_idle: "dev_idle s a w \<Longrightarrow> dev_idle s a ((dev_poll act ^^ k) w)"
  by (induction k) (simp_all add: poll_idle)

lemma polls_waiting: "dev_waiting act s a q x v w \<Longrightarrow> dev_waiting act s a q x v ((dev_poll act ^^ k) w)"
  by (induction k) (simp_all add: poll_waiting)

lemma polls_done: "dev_done act s q x v w \<Longrightarrow> dev_done act s q x v ((dev_poll act ^^ k) w)"
  by (induction k) (simp_all add: poll_done)

lemma settled_later:
  assumes "settled act s a x v (w, r)"
  shows "dw_ctl ((dev_poll act ^^ k) w) \<in> {s, fst (act s x v)} \<and>
    (r = Inr () \<longrightarrow> dw_ctl ((dev_poll act ^^ k) w) = fst (act s x v) \<and> snd (act s x v) = 1)"
proof -
  have "dev_idle s a ((dev_poll act ^^ k) w) \<or> (\<exists>q. dev_waiting act s a q x v ((dev_poll act ^^ k) w))"
    using assms polls_idle polls_waiting by (fastforce simp: settled_def)
  moreover have "r = Inr () \<Longrightarrow> \<exists>q. dev_done act s q x v ((dev_poll act ^^ k) w)"
    using assms polls_done by (fastforce simp: settled_def)
  ultimately show ?thesis using assms by (auto simp: settled_def dev_idle_def dev_waiting_def dev_done_def)
qed

section \<open>Sessions\<close>

text \<open>
  Both protocols are one session: read the acknowledgement, write the payload, write a new sequence
  number, wait. \<open>reads\<close> and \<open>writes\<close> say what its three requests do to the device.
\<close>

definition session ::
  "nat \<Rightarrow> 's device_world native_env \<Rightarrow> ('s device_world, int list) Effects.act \<Rightarrow> ('s device_world, unit) Effects.act
   \<Rightarrow> (int \<Rightarrow> ('s device_world, unit) Effects.act) \<Rightarrow> string \<Rightarrow> real \<Rightarrow> ('s device_world, unit) Effects.act" where
  "session fuel E rd payload sequence why timeout =
     bindS rd (\<lambda>ack. bindS (hd_act ack) (\<lambda>previous. bindS (ne_random E) (\<lambda>draw.
       thenS payload
         (thenS (sequence (next_sequence draw previous))
           (bindS (ne_monotonic E) (\<lambda>start. ack_poll fuel E rd why (next_sequence draw previous) (start + timeout)))))))"

definition reads :: "('s \<Rightarrow> int \<Rightarrow> int \<Rightarrow> 's \<times> int) \<Rightarrow> 's \<Rightarrow> int \<Rightarrow> ('s device_world, int list) Effects.act \<Rightarrow> bool" where
  "reads act s a rd \<longleftrightarrow>
     keeps (dev_idle s a) rd \<and> (\<forall>q x v. keeps (dev_waiting act s a q x v) rd) \<and>
     (\<forall>w w' vs. rd w = (w', Inr vs) \<longrightarrow> vs = [fst (dw_ack w'), snd (dw_ack w')])"

definition writes ::
  "('s \<Rightarrow> int \<Rightarrow> int \<Rightarrow> 's \<times> int) \<Rightarrow> 's \<Rightarrow> int \<Rightarrow> int \<Rightarrow> int \<Rightarrow> ('s device_world, unit) Effects.act
   \<Rightarrow> (int \<Rightarrow> ('s device_world, unit) Effects.act) \<Rightarrow> bool" where
  "writes act s a x v payload sequence \<longleftrightarrow>
     (\<forall>w. dev_idle s a w \<longrightarrow> dev_idle s a (fst (payload w)) \<and>
        (snd (payload w) = Inr () \<longrightarrow> snd (dw_cmd (fst (payload w))) = (x, v))) \<and>
     (\<forall>w q. dev_idle s a w \<and> snd (dw_cmd w) = (x, v) \<longrightarrow>
        (dev_idle s a (fst (sequence q w)) \<or> dev_waiting act s a q x v (fst (sequence q w))) \<and>
        (snd (sequence q w) = Inr () \<longrightarrow> dev_waiting act s a q x v (fst (sequence q w))))"

lemma readsD: "reads act s a rd \<Longrightarrow> rd w = (w', Inr vs) \<Longrightarrow> vs = [fst (dw_ack w'), snd (dw_ack w')]"
  unfolding reads_def by blast

text \<open>While waiting, a positive answer means the command was applied.\<close>

lemma ack_poll_settles:
  assumes off: "off_device (ne_monotonic E)" "off_device (ne_sleep E)"
    and rd: "reads act s a rd" and new: "seq \<noteq> a" and w: "dev_waiting act s a seq x v w"
  shows "settled act s a x v (ack_poll n E rd why seq deadline w)"
  using w
proof (induction n arbitrary: w)
  case 0
  then show ?case by (auto simp: settled_def)
next
  case (Suc n)
  obtain w1 r1 where m: "ne_monotonic E w = (w1, r1)" by fastforce
  have w1: "dev_waiting act s a seq x v w1" by (rule keepsD [OF off_device_keeps(2) [OF off(1)] Suc.prems m])
  obtain w2 r2 where r: "rd w1 = (w2, r2)" by fastforce
  have "keeps (dev_waiting act s a seq x v) rd" using rd by (simp add: reads_def)
  from keepsD [OF this w1 r] have w2: "dev_waiting act s a seq x v w2" .
  obtain w3 r3 where sl: "ne_sleep E w2 = (w3, r3)" by fastforce
  have w3: "dev_waiting act s a seq x v w3" by (rule keepsD [OF off_device_keeps(2) [OF off(2)] w2 sl])
  have stop: "settled act s a x v (w', Inl e)" if "dev_waiting act s a seq x v w'" for w' e
    using that by (auto simp: settled_def)
  show ?case
  proof (cases "\<exists>t. r1 = Inr t \<and> t < deadline")
    case False
    then show ?thesis using stop [OF w1] by (auto simp: bindS_def m split: sum.splits)
  next
    case True
    then obtain t where t: "r1 = Inr t" "t < deadline" by blast
    show ?thesis
    proof (cases r2)
      case (Inl e)
      then show ?thesis using t stop [OF w2] by (simp add: bindS_def m r)
    next
      case (Inr vs)
      then have vs: "vs = [fst (dw_ack w2), snd (dw_ack w2)]" using rd r by (auto simp: reads_def)
      have step: "ack_poll (Suc n) E rd why seq deadline w =
          (case check_ack seq vs of
             Inl e \<Rightarrow> (w2, Inl e)
           | Inr True \<Rightarrow> (w2, Inr ())
           | Inr False \<Rightarrow> (case r3 of Inl e \<Rightarrow> (w3, Inl e) | Inr _ \<Rightarrow> ack_poll n E rd why seq deadline w3))"
        using t by (simp add: bindS_def m r Inr sl split: sum.splits bool.splits)
      show ?thesis
      proof (cases "fst (dw_ack w2) = seq")
        case True
        with w2 new have "dev_done act s seq x v w2" by (auto simp: dev_waiting_def)
        then show ?thesis
          unfolding step vs using w2 True by (auto simp: check_ack_def settled_def dev_done_def)
      next
        case False
        then show ?thesis
          unfolding step vs using stop [OF w3] Suc.IH [OF w3] by (cases r3) (simp_all add: check_ack_def)
      qed
    qed
  qed
qed

text \<open>
  Whatever the session ends with, the device has applied the command not at all or once; it stops
  where the first of its steps fails.
\<close>

lemma settled_idle: "dev_idle s a w \<Longrightarrow> settled act s a x v (w, Inl e)"
  by (simp add: settled_def)

lemma session_settles:
  assumes off: "off_device (ne_monotonic E)" "off_device (ne_sleep E)" "off_device (ne_random E)"
    and draw: "\<And>w w' d. ne_random E w = (w', Inr d) \<Longrightarrow> 0 \<le> d \<and> d < 65535"
    and rd: "reads act s a rd" and wr: "writes act s a x v payload sequence" and idle: "dev_idle s a w"
  shows "settled act s a x v (session fuel E rd payload sequence why timeout w)"
proof -
  obtain w1 r1 where 1: "rd w = (w1, r1)" by fastforce
  have "keeps (dev_idle s a) rd" using rd by (simp add: reads_def)
  from keepsD [OF this idle 1] have w1: "dev_idle s a w1" .
  obtain w2 r2 where 2: "ne_random E w1 = (w2, r2)" by fastforce
  have w2: "dev_idle s a w2" by (rule keepsD [OF off_device_keeps(1) [OF off(3)] w1 2])
  obtain w3 r3 where 3: "payload w2 = (w3, r3)" by fastforce
  have w3: "dev_idle s a w3" "r3 = Inr () \<Longrightarrow> snd (dw_cmd w3) = (x, v)"
    using wr w2 3 unfolding writes_def by (metis fst_conv snd_conv)+
  show ?thesis
  proof (cases "\<exists>vs d. r1 = Inr vs \<and> r2 = Inr d \<and> r3 = Inr ()")
    case False
    have "hd_act vs w1 = (w1, Inr a)" if "r1 = Inr vs" for vs
      using readsD [OF rd] 1 that w1 by (fastforce simp: dev_idle_def)
    then show ?thesis
      using False 1 2 3 settled_idle [OF w1] settled_idle [OF w2] settled_idle [OF w3(1)]
      by (cases r1; cases r2; cases r3) (auto simp: session_def bindS_def)
  next
    case True
    then obtain vs d where r: "r1 = Inr vs" "r2 = Inr d" "r3 = Inr ()" by blast
    define q where "q = next_sequence d a"
    have vs: "hd_act vs w1 = (w1, Inr a)" using readsD [OF rd] 1 r w1 by (fastforce simp: dev_idle_def)
    have q: "q \<noteq> a" using next_sequence_range [of d a] draw 2 r unfolding q_def by blast
    obtain w4 r4 where 4: "sequence q w3 = (w4, r4)" by fastforce
    have "dev_idle s a w3 \<and> snd (dw_cmd w3) = (x, v)" using w3 r by simp
    then have w4: "dev_idle s a w4 \<or> dev_waiting act s a q x v w4" "r4 = Inr () \<Longrightarrow> dev_waiting act s a q x v w4"
      using wr 4 unfolding writes_def by (metis fst_conv snd_conv)+
    have step: "session fuel E rd payload sequence why timeout w =
        (case r4 of Inl e \<Rightarrow> (w4, Inl e)
         | Inr _ \<Rightarrow> bindS (ne_monotonic E) (\<lambda>start. ack_poll fuel E rd why q (start + timeout)) w4)"
      by (simp add: session_def bindS_def 1 2 3 r vs 4 q_def [symmetric] split: sum.splits)
    show ?thesis
    proof (cases r4)
      case (Inl e)
      then show ?thesis unfolding step using w4(1) by (auto simp: settled_def)
    next
      case (Inr u)
      obtain w5 r5 where 5: "ne_monotonic E w4 = (w5, r5)" by fastforce
      have w5: "dev_waiting act s a q x v w5"
        using Inr keepsD [OF off_device_keeps(2) [OF off(1)] w4(2) 5] by simp
      show ?thesis
      proof (cases r5)
        case (Inl e)
        then show ?thesis unfolding step using w5 Inr by (auto simp: bindS_def 5 settled_def)
      next
        case (Inr t)
        have "settled act s a x v (ack_poll fuel E rd why q (t + timeout) w5)"
          by (rule ack_poll_settles [OF off(1,2) rd q w5])
        then show ?thesis unfolding step using Inr \<open>r4 = Inr u\<close> by (simp add: bindS_def 5)
      qed
    qed
  qed
qed

section \<open>The two protocols\<close>

lemma before_request:
  assumes "off_device bw" "bw w = (w1, r1)" "dev_turn act w1 = (w2, l)" "dev_idle s a w"
  shows "dev_idle s a w1 \<and> dev_idle s a w2 \<and> dw_cmd w2 = dw_cmd w"
proof -
  have "dev_idle s a w1" "dw_cmd w1 = dw_cmd w"
    using off_deviceD [OF assms(1,2)] assms(4) by (auto simp: dev_idle_def)
  then show ?thesis using turn_idle [OF assms(3)] by auto
qed

lemma request_id_keeps:
  "keeps (dev_idle s a) (dev_request act id g refusal)" "keeps (dev_waiting act s a q x v) (dev_request act id g refusal)"
  using turn_idle turn_waiting by (fastforce simp: keeps_def dev_request_def split: prod.splits link.splits)+

lemma payload_idle [simp]:
  "dev_idle s a (set_payload x v w) = dev_idle s a w" "dw_cmd (set_payload x v w) = (fst (dw_cmd w), x, v)"
  by (simp_all add: dev_idle_def set_payload_def)

lemma sequence_waiting:
  "dev_idle s a w \<Longrightarrow> snd (dw_cmd w) = (x, v) \<Longrightarrow> dev_waiting act s a q x v (set_sequence q w)"
  by (simp add: dev_idle_def dev_waiting_def set_sequence_def)

lemma modbus_reads: "reads act s a (modbus_read_ack (dev_modbus act target) target)"
proof -
  have "keeps (dev_idle s a) (modbus_read_ack (dev_modbus act target) target)"
    "keeps (dev_waiting act s a q x v) (modbus_read_ack (dev_modbus act target) target)" for q x v
    unfolding modbus_read_ack_def dev_modbus_def modbus_client.select_convs
    by (intro edge_intros request_id_keeps)+
  then show ?thesis
    by (auto simp: reads_def modbus_read_ack_def dev_modbus_def bindS_def dev_request_def
        split: prod.splits link.splits sum.splits option.splits)
qed

lemma modbus_writes:
  assumes "off_device bw"
  shows "writes act s a operation v (modbus_frame (dev_modbus act target) bw (nt_command_address target + 1) [operation, v])
    (\<lambda>q. modbus_frame (dev_modbus act target) bw (nt_command_address target) [q])"
  unfolding writes_def
proof (intro conjI allI impI, goal_cases)
  case (1 w)
  obtain w1 r1 w2 l where b: "bw w = (w1, r1)" "dev_turn act w1 = (w2, l)" by fastforce
  then show ?case
    using before_request [OF assms b 1] by (cases r1; cases l) (auto simp: modbus_frame_def dev_modbus_def bindS_def dev_request_def)
next
  case (2 w)
  obtain w1 r1 w2 l where b: "bw w = (w1, r1)" "dev_turn act w1 = (w2, l)" by fastforce
  then show ?case
    using before_request [OF assms b 2(1)] 2(2)
    by (cases r1; cases l) (auto simp: modbus_frame_def dev_modbus_def bindS_def dev_request_def)
next
  case (3 w q)
  obtain w1 r1 w2 l where b: "bw w = (w1, r1)" "dev_turn act w1 = (w2, l)" by fastforce
  then show ?case
    using before_request [OF assms b, of s a] 3 sequence_waiting [of s a w2 operation v act q]
    by (cases r1; cases l) (auto simp: modbus_frame_def dev_modbus_def bindS_def dev_request_def)
next
  case (4 w q)
  obtain w1 r1 w2 l where b: "bw w = (w1, r1)" "dev_turn act w1 = (w2, l)" by fastforce
  then show ?case
    using before_request [OF assms b, of s a] 4 sequence_waiting [of s a w2 operation v act q]
    by (cases r1; cases l) (auto simp: modbus_frame_def dev_modbus_def bindS_def dev_request_def)
qed

lemma s7_reads: "reads act s a (s7_read_ack (dev_s7 act target) target)"
proof -
  have "keeps (dev_idle s a) (s7_read_ack (dev_s7 act target) target)"
    "keeps (dev_waiting act s a q x v) (s7_read_ack (dev_s7 act target) target)" for q x v
    unfolding s7_read_ack_def dev_s7_def s7_client.select_convs
    by (intro edge_intros request_id_keeps)+
  then show ?thesis
    by (auto simp: reads_def s7_read_ack_def dev_s7_def bindS_def dev_request_def unpack_hh_def
        split: prod.splits link.splits sum.splits)
qed

definition s7_payload ::
  "'w s7_client \<Rightarrow> ('w, unit) Effects.act \<Rightarrow> native_target \<Rightarrow> int \<Rightarrow> ('w, unit) Effects.act" where
  "s7_payload client bw target raw =
     thenS bw (bindS (liftS (bindE (pack_h (nt_operation target)) (\<lambda>a. bindE (pack_h raw) (\<lambda>b. Inr (a @ b)))))
       (\<lambda>payload. s7_write client (nt_db target) (nt_command_address target + 2) payload))"

definition s7_sequence :: "'w s7_client \<Rightarrow> ('w, unit) Effects.act \<Rightarrow> native_target \<Rightarrow> int \<Rightarrow> ('w, unit) Effects.act" where
  "s7_sequence client bw target q =
     thenS bw (bindS (liftS (pack_h q)) (\<lambda>bs. s7_write client (nt_db target) (nt_command_address target) bs))"

lemma s7_writes:
  assumes "off_device bw"
  shows "writes act s a (nt_operation target) v (s7_payload (dev_s7 act target) bw target v)
    (s7_sequence (dev_s7 act target) bw target)"
  unfolding writes_def
proof (intro conjI allI impI, goal_cases)
  case (1 w)
  obtain w1 r1 w2 l where b: "bw w = (w1, r1)" "dev_turn act w1 = (w2, l)" by fastforce
  then show ?case
    using before_request [OF assms b 1]
    by (cases r1; cases l) (auto simp: s7_payload_def dev_s7_def bindS_def dev_request_def pack_h_def)
next
  case (2 w)
  obtain w1 r1 w2 l where b: "bw w = (w1, r1)" "dev_turn act w1 = (w2, l)" by fastforce
  then show ?case
    using before_request [OF assms b 2(1)] 2(2)
    by (cases r1; cases l) (auto simp: s7_payload_def dev_s7_def bindS_def dev_request_def pack_h_def split: if_splits)
next
  case (3 w q)
  obtain w1 r1 w2 l where b: "bw w = (w1, r1)" "dev_turn act w1 = (w2, l)" by fastforce
  then show ?case
    using before_request [OF assms b, of s a] 3 sequence_waiting [of s a w2 "nt_operation target" v act q]
    by (cases r1; cases l) (auto simp: s7_sequence_def dev_s7_def bindS_def dev_request_def pack_h_def)
next
  case (4 w q)
  obtain w1 r1 w2 l where b: "bw w = (w1, r1)" "dev_turn act w1 = (w2, l)" by fastforce
  then show ?case
    using before_request [OF assms b, of s a] 4 sequence_waiting [of s a w2 "nt_operation target" v act q]
    by (cases r1; cases l) (auto simp: s7_sequence_def dev_s7_def bindS_def dev_request_def pack_h_def split: if_splits)
qed

lemma connected_settles:
  assumes "keeps (dev_idle s a) connect" "dev_idle s a w"
    "\<And>b w. dev_idle s a w \<Longrightarrow> settled act s a x v (rest b w)"
  shows "settled act s a x v (finallyS (bindS connect rest) (\<lambda>w. w) w)"
  using assms settled_idle keepsD [OF assms(1,2)]
  by (cases "connect w") (auto simp: finallyS_def bindS_def split: sum.splits prod.splits)

lemma write_native_settles:
  assumes dev: "ne_modbus E target = dev_modbus act target" "ne_s7 E target = dev_s7 act target"
    and off: "off_device (ne_monotonic E)" "off_device (ne_sleep E)" "off_device (ne_random E)" "off_device bw"
    and draw: "\<And>w w' d. ne_random E w = (w', Inr d) \<Longrightarrow> 0 \<le> d \<and> d < 65535"
    and idle: "dev_idle s a w"
  shows "settled act s a (nt_operation target) raw (write_modbus fuel E bw target raw w)"
    "settled act s a (nt_operation target) raw (write_s7 fuel E bw target raw w)"
proof -
  have S: "settled act s a x v (session fuel E rd p q why t w)"
    if "reads act s a rd" "writes act s a x v p q" "dev_idle s a w" for rd p q x v why t w
    by (rule session_settles [OF off(1-3) _ that]) (rule draw)
  have connect: "keeps (dev_idle s a) (mb_connect (dev_modbus act target))" "keeps (dev_idle s a) (s7_connect (dev_s7 act target))"
    unfolding dev_modbus_def dev_s7_def modbus_client.select_convs s7_client.select_convs by (rule request_id_keeps)+
  have close: "mb_close (dev_modbus act target) = (\<lambda>w. w)" "s7_close (dev_s7 act target) = (\<lambda>w. w)"
    by (simp_all add: dev_modbus_def dev_s7_def)
  have M: "write_modbus fuel E bw target raw = finallyS
      (bindS (mb_connect (dev_modbus act target)) (\<lambda>connected.
         if \<not> connected then raiseS (ConnectionError ''Modbus connection failed'')
         else session fuel E (modbus_read_ack (dev_modbus act target) target)
           (modbus_frame (dev_modbus act target) bw (nt_command_address target + 1) [nt_operation target, raw])
           (\<lambda>q. modbus_frame (dev_modbus act target) bw (nt_command_address target) [q])
           ''device outcome unknown: Modbus acknowledgement timeout'' (nt_timeout target))) (\<lambda>w. w)"
    unfolding write_modbus_def session_def dev Let_def close by (rule refl)
  have N: "write_s7 fuel E bw target raw = finallyS
      (bindS (s7_connect (dev_s7 act target)) (\<lambda>_.
         session fuel E (s7_read_ack (dev_s7 act target) target)
           (s7_payload (dev_s7 act target) bw target raw) (s7_sequence (dev_s7 act target) bw target)
           ''device outcome unknown: S7 acknowledgement timeout'' (nt_timeout target))) (\<lambda>w. w)"
    by (simp add: write_s7_def session_def s7_payload_def s7_sequence_def dev Let_def bindS_assoc close)
  show "settled act s a (nt_operation target) raw (write_modbus fuel E bw target raw w)"
    unfolding M
    by (rule connected_settles [OF connect(1) idle])
      (simp add: settled_idle S [OF modbus_reads modbus_writes [OF off(4)]])
  show "settled act s a (nt_operation target) raw (write_s7 fuel E bw target raw w)"
    unfolding N
    by (rule connected_settles [OF connect(2) idle]) (rule S [OF s7_reads s7_writes [OF off(4)]])
qed

section \<open>Properties\<close>

text \<open>
  C3. A native write, by Modbus or by S7, to a device with no command outstanding: when it returns, the
  device has applied the encoded value exactly once; when it ends in an error, once or not at all, never
  partially and never twice, at that moment and after any number of later polls of the device. This holds
  whatever the device polls between the writer's requests and whichever requests or answers are refused
  or lost.
\<close>

theorem native_write_exact:
  assumes "ne_modbus E target = dev_modbus act target" "ne_s7 E target = dev_s7 act target"
    and "off_device (ne_monotonic E)" "off_device (ne_sleep E)" "off_device (ne_random E)" "off_device bw"
    and "\<And>w w' d. ne_random E w = (w', Inr d) \<Longrightarrow> 0 \<le> d \<and> d < 65535"
    and "dev_idle s a w" and "write_native_value fuel E bw target v w = (w', r)"
  shows "case encode_value target v of
      Inl e \<Rightarrow> w' = w \<and> r = Inl e
    | Inr raw \<Rightarrow> \<forall>k. let after = dw_ctl ((dev_poll act ^^ k) w'); applied = act s (nt_operation target) raw in
        (after = s \<or> after = fst applied) \<and> (r = Inr () \<longrightarrow> after = fst applied \<and> snd applied = 1)"
proof (cases "encode_value target v")
  case (Inl e)
  then show ?thesis using assms(9) by (simp add: write_native_value_def)
next
  case (Inr raw)
  then have "settled act s a (nt_operation target) raw (w', r)"
    using write_native_settles [OF assms(1-8), where raw = raw and fuel = fuel] assms(9) by (auto simp: write_native_value_def split: if_splits)
  from settled_later [OF this] Inr show ?thesis by (simp add: Let_def)
qed

definition example_target :: native_target where
  "example_target =
     \<lparr>nt_protocol = S7, nt_host = ''h'', nt_port = 502, nt_command_address = 10, nt_ack_address = 20,
      nt_operation = 2, nt_value_type = TInt64, nt_scale = 1, nt_minimum = Fin 0, nt_maximum = Fin 100,
      nt_unit_id = 1, nt_db = 3, nt_rack = 0, nt_slot = 1, nt_timeout = 1\<rparr>"

definition example_env :: "motor_control device_world native_env" where
  "example_env =
     \<lparr>ne_monotonic = (\<lambda>w. (w, Inr 0)), ne_sleep = (\<lambda>w. (w, Inr ())), ne_random = (\<lambda>w. (w, Inr 7)),
      ne_modbus = dev_modbus motor_apply, ne_s7 = dev_s7 motor_apply\<rparr>"


definition example_device :: "(bool \<times> link) list \<Rightarrow> motor_control device_world" where
  "example_device sched =
     \<lparr>dw_cmd = (0, 0, 0), dw_ctl = \<lparr>mc_max_speed = 100, mc_setpoint = 50, mc_running = True, mc_faulted = False\<rparr>,
      dw_ack = (0, 0), dw_sched = sched\<rparr>"

theorem native_write_exact_witness:
  "mc_setpoint (dw_ctl (fst (write_native_value 5 example_env (retS ()) example_target (VInt 80)
     (example_device [(True, Delivered), (False, Delivered), (True, Delivered), (False, Delivered), (True, Delivered)])))) = 80"
proof -
  let ?w = "example_device [(True, Delivered), (False, Delivered), (True, Delivered), (False, Delivered), (True, Delivered)]"
  obtain w' r where run: "write_native_value 5 example_env (retS ()) example_target (VInt 80) ?w = (w', r)" by fastforce
  have "snd (write_native_value 5 example_env (retS ()) example_target (VInt 80) ?w) = Inr ()"
    "encode_value example_target (VInt 80) = Inr 80"
    by code_simp+
  with run have r: "r = Inr ()" and e: "encode_value example_target (VInt 80) = Inr 80" by simp_all
  have "\<forall>k. dw_ctl ((dev_poll motor_apply ^^ k) w') = fst (motor_apply (dw_ctl ?w) (nt_operation example_target) 80)"
    using native_write_exact [of example_env example_target motor_apply "retS ()" "dw_ctl ?w" 0 ?w 5 "VInt 80" w' r] run r e
    by (simp add: example_env_def off_device_def dev_idle_def example_device_def Let_def)
  then have "dw_ctl ((dev_poll motor_apply ^^ 0) w') = fst (motor_apply (dw_ctl ?w) (nt_operation example_target) 80)" by blast
  then have "mc_setpoint (dw_ctl w') = 80" by (simp add: motor_apply_def example_device_def example_target_def)
  then show ?thesis by (simp only: run fst_conv)
qed

end
