(* ===== verification/Inspection.thy ===== *)
theory Inspection
  imports Canonical_Json
begin

unbundle bit_operations_syntax

text \<open>
  \<open>eirvah_contracts/inspection.py\<close>: the bottle-inspection record, its ten-register wire form on
  the Modbus device, and the signed receipt by which the consumer acknowledges it.
\<close>

section \<open>The event\<close>

record bottle_inspection =
  bi_inspection_id :: string
  bi_bottle_id :: int
  bi_passed :: bool
  bi_inspected_at :: datetime

text \<open>The pattern of \<open>inspection_id\<close>: 16 hex digits, a colon, 4 hex digits.\<close>

definition inspection_id_ok :: "string \<Rightarrow> bool" where
  "inspection_id_ok s \<longleftrightarrow>
     length s = 21 \<and> s ! 16 = CHR '':'' \<and>
     list_all (\<lambda>c. c \<in> set hex_digits) (take 16 s) \<and> list_all (\<lambda>c. c \<in> set hex_digits) (drop 17 s)"

definition bottle_inspection_ok :: "bottle_inspection \<Rightarrow> bool" where
  "bottle_inspection_ok e \<longleftrightarrow>
     inspection_id_ok (bi_inspection_id e) \<and> 1 \<le> bi_bottle_id e \<and> bi_bottle_id e \<le> 65535 \<and>
     aware (bi_inspected_at e)"

definition mk_bottle_inspection :: "bottle_inspection \<Rightarrow> bottle_inspection res" where
  "mk_bottle_inspection e =
     (if bottle_inspection_ok e then Inr e else Inl (ValidationError ''BottleInspection''))"

definition inspection_id_of :: "int \<Rightarrow> int \<Rightarrow> string" where
  "inspection_id_of session seq = hex_pad 16 session @ CHR '':'' # hex_pad 4 seq"

section \<open>The registers\<close>

text \<open>
  \<open>datetime.fromtimestamp(millis / 1000, UTC)\<close>: beyond the end of year 9999 it raises. The
  division is exact here; as doubles it is exact to the microsecond up to 2 ^ 33 seconds.
\<close>

definition max_millis :: int where
  "max_millis = 253402300799999"

definition fromtimestamp_ms :: "int \<Rightarrow> datetime res" where
  "fromtimestamp_ms millis =
     (if millis \<le> max_millis then Inr (utc (millis * 1000))
      else Inl (ValueError ''year is out of range''))"

definition decode_inspection :: "int list \<Rightarrow> bottle_inspection option res" where
  "decode_inspection registers =
     (if length registers \<noteq> 10 \<or> \<not> list_all (\<lambda>v. 0 \<le> v \<and> v \<le> 65535) registers
      then Inl (ValueError ''invalid inspection snapshot'')
      else
        let session = (\<Sum>i \<leftarrow> [0..<4]. push_bit (48 - i * 16) (registers ! i));
            seq = registers ! 4; bottle = registers ! 5; status = registers ! 6
        in if status = 0 then Inr None
           else if status \<notin> {1, 2} \<or> session = 0 \<or> seq = 0
           then Inl (ValueError ''invalid inspection identity/status'')
           else
             let millis = (push_bit 32 (registers ! 7) OR push_bit 16 (registers ! 8)) OR registers ! 9
             in bindE (fromtimestamp_ms millis) (\<lambda>inspected_at.
                bindE (mk_bottle_inspection
                  \<lparr>bi_inspection_id = inspection_id_of session seq, bi_bottle_id = bottle,
                   bi_passed = (status = 1), bi_inspected_at = inspected_at\<rparr>) (\<lambda>e. Inr (Some e))))"

text \<open>\<open>epoch, seq = event.inspection_id.split(":")\<close> and the two \<open>int(_, 16)\<close>.\<close>

definition split_inspection_id :: "string \<Rightarrow> (string \<times> string) res" where
  "split_inspection_id s =
     (case split_on (CHR '':'') s of
        [a, b] \<Rightarrow> Inr (a, b)
      | _ \<Rightarrow> Inl (ValueError ''not enough or too many values to unpack''))"

definition int16 :: "string \<Rightarrow> int res" where
  "int16 s = (case parse_hex s of None \<Rightarrow> Inl (ValueError ''invalid literal for int()'') | Some n \<Rightarrow> Inr n)"

text \<open>Milliseconds since the epoch from the days, seconds and microseconds of the difference.\<close>

definition delta_millis :: "int \<Rightarrow> int" where
  "delta_millis us =
     (us div 86400000000) * 86400000 + (us mod 86400000000 div 1000000) * 1000 +
     (us mod 86400000000 mod 1000000) div 1000"

definition reg16 :: "int \<Rightarrow> nat \<Rightarrow> int" where
  "reg16 x shift = drop_bit shift x AND 65535"

definition encode_inspection :: "bottle_inspection option \<Rightarrow> int list res" where
  "encode_inspection event =
     (case event of
        None \<Rightarrow> Inr (replicate 10 0)
      | Some e \<Rightarrow>
          bindE (split_inspection_id (bi_inspection_id e)) (\<lambda>(ep, seq).
          bindE (int16 ep) (\<lambda>session.
          bindE (int16 seq) (\<lambda>sequence.
            let millis = delta_millis (dt_us (bi_inspected_at e)) in
            Inr (map (reg16 session) [48, 32, 16, 0] @
                 [sequence, bi_bottle_id e, if bi_passed e then 1 else 2] @
                 map (reg16 millis) [32, 16, 0])))))"

lemma reg16_eq: "reg16 x n = x div 2 ^ n mod 65536"
proof -
  have "drop_bit n x AND 65535 = take_bit 16 (drop_bit n x)"
    by (simp add: take_bit_eq_mask mask_eq_exp_minus_1)
  then show ?thesis by (simp add: reg16_def take_bit_eq_mod drop_bit_eq_div)
qed

lemma reg16_range: "0 \<le> reg16 x n \<and> reg16 x n \<le> 65535"
  by (simp add: reg16_eq)

lemma delta_millis_eq: "delta_millis us = us div 1000"
proof -
  define d where "d = us div 86400000000"
  define r where "r = us mod 86400000000"
  define q where "q = r div 1000000"
  define m where "m = r mod 1000000"
  have "us = 86400000000 * d + r" "r = 1000000 * q + m"
    by (simp_all add: d_def r_def q_def m_def)
  then have "us = m + 1000 * (86400000 * d + 1000 * q)" by simp
  then have "us div 1000 = (m + 1000 * (86400000 * d + 1000 * q)) div 1000" by (rule arg_cong)
  also have "\<dots> = 86400000 * d + 1000 * q + m div 1000"
    by (rule div_mult_self2) simp
  finally have "us div 1000 = d * 86400000 + q * 1000 + m div 1000" by (simp only: mult.commute)
  then show ?thesis unfolding delta_millis_def d_def r_def q_def m_def by (rule sym)
qed

lemma or_push_bit:
  fixes a b :: int
  assumes "0 \<le> b" "b < 2 ^ n"
  shows "push_bit n a OR b = a * 2 ^ n + b"
proof -
  have b: "take_bit n b = b" using assms by (simp add: take_bit_int_eq_self)
  show ?thesis
    using concat_bit_eq [of n b a] unfolding concat_bit_def b
    by (simp add: push_bit_eq_mult or.commute ac_simps)
qed

lemma millis_bits:
  assumes "0 \<le> b" "b < 65536" "0 \<le> c" "c < 65536"
  shows "(push_bit 32 a OR push_bit 16 b) OR c = a * 2 ^ 32 + b * 2 ^ 16 + (c::int)"
proof -
  have 1: "push_bit 16 b OR c = b * 2 ^ 16 + c" using assms by (intro or_push_bit) auto
  have "push_bit 32 a OR (b * 2 ^ 16 + c) = a * 2 ^ 32 + (b * 2 ^ 16 + c)"
    using assms by (intro or_push_bit) auto
  then show ?thesis by (simp only: or.assoc 1)
qed

lemma session_sum:
  "(\<Sum>i \<leftarrow> [0..<4]. push_bit (48 - i * 16) (rs ! i)) =
     rs ! 0 * 2 ^ 48 + rs ! 1 * 2 ^ 32 + rs ! 2 * 2 ^ 16 + (rs ! 3 :: int)"
proof -
  have "[0..<4] = [0, 1, 2, 3::nat]" by code_simp
  then show ?thesis by (simp add: push_bit_eq_mult)
qed

lemma div_base: "x div 65536 ^ Suc n = x div 65536 ^ n div (65536::int)"
  by (simp add: zdiv_zmult2_eq [symmetric] mult.commute)

lemma reg16_join4:
  assumes "0 \<le> s" "s < 2 ^ 64"
  shows "reg16 s 48 * 2 ^ 48 + reg16 s 32 * 2 ^ 32 + reg16 s 16 * 2 ^ 16 + reg16 s 0 = s"
proof -
  define a where "a = s div 65536"
  define b where "b = a div 65536"
  define c where "c = b div 65536"
  have s: "s = 65536 * a + s mod 65536" "a = 65536 * b + a mod 65536" "b = 65536 * c + b mod 65536"
    by (simp_all add: a_def b_def c_def)
  have c: "0 \<le> c" "c < 65536"
    using assms by (simp_all add: a_def b_def c_def pos_imp_zdiv_nonneg_iff zdiv_zmult2_eq [symmetric])
  have "s div 2 ^ 32 = b" "s div 2 ^ 48 = c"
    by (simp_all add: a_def b_def c_def zdiv_zmult2_eq [symmetric])
  then have "reg16 s 48 = c" "reg16 s 32 = b mod 65536" "reg16 s 16 = a mod 65536"
      "reg16 s 0 = s mod 65536"
    using c by (simp_all add: reg16_eq a_def)
  with s show ?thesis by simp
qed

lemma reg16_join3:
  assumes "0 \<le> m" "m < 2 ^ 48"
  shows "reg16 m 32 * 2 ^ 32 + reg16 m 16 * 2 ^ 16 + reg16 m 0 = m"
proof -
  have "m div 2 ^ 48 = 0" using assms by simp
  then have "reg16 m 48 = 0" by (simp add: reg16_eq)
  moreover have "m < 2 ^ 64" using assms by simp
  ultimately show ?thesis using reg16_join4 [of m] assms by simp
qed

lemma base_div_mod:
  "0 \<le> r \<Longrightarrow> r < 65536 \<Longrightarrow> (q * 65536 + r) mod 65536 = (r::int)"
  "0 \<le> r \<Longrightarrow> r < 65536 \<Longrightarrow> (q * 65536 + r) div 65536 = (q::int)"
  by simp_all

lemma reg16_split:
  assumes "0 \<le> a" "a < 65536" "0 \<le> b" "b < 65536" "0 \<le> c" "c < 65536" "0 \<le> d" "d < 65536"
  shows "reg16 (a * 2 ^ 48 + b * 2 ^ 32 + c * 2 ^ 16 + d) 48 = a"
    "reg16 (a * 2 ^ 48 + b * 2 ^ 32 + c * 2 ^ 16 + d) 32 = b"
    "reg16 (a * 2 ^ 48 + b * 2 ^ 32 + c * 2 ^ 16 + d) 16 = c"
    "reg16 (a * 2 ^ 48 + b * 2 ^ 32 + c * 2 ^ 16 + d) 0 = d"
proof -
  define x where "x = a * 2 ^ 48 + b * 2 ^ 32 + c * 2 ^ 16 + d"
  have x: "x = (a * 2 ^ 32 + b * 2 ^ 16 + c) * 65536 + d" by (simp add: x_def)
  have y: "a * 2 ^ 32 + b * 2 ^ 16 + c = (a * 2 ^ 16 + b) * 65536 + c" by simp
  have x0: "x mod 65536 = d" "x div 65536 = a * 2 ^ 32 + b * 2 ^ 16 + c"
    unfolding x using assms base_div_mod by blast+
  have y0: "(a * 2 ^ 32 + b * 2 ^ 16 + c) mod 65536 = c"
      "(a * 2 ^ 32 + b * 2 ^ 16 + c) div 65536 = a * 2 ^ 16 + b"
    unfolding y using assms base_div_mod by blast+
  have x1: "x div 2 ^ 16 div 65536 = a * 2 ^ 16 + b"
    using x0 y0 by simp
  have x2: "x div 2 ^ 16 div 65536 div 65536 = a"
    using assms unfolding x1 by simp
  have d32: "x div 2 ^ 32 = x div 2 ^ 16 div 65536" and d48: "x div 2 ^ 48 = x div 2 ^ 16 div 65536 div 65536"
    by (simp_all add: zdiv_zmult2_eq [symmetric])
  show "reg16 x 0 = d" using x0 by (simp add: reg16_eq)
  show "reg16 x 16 = c" using x0 y0 by (simp add: reg16_eq)
  show "reg16 x 32 = b" unfolding reg16_eq d32 x1 using assms by simp
  show "reg16 x 48 = a" unfolding reg16_eq d48 x2 using assms by simp
qed

section \<open>The round trip over the registers\<close>

lemma inspection_id_parts:
  "0 \<le> s \<Longrightarrow> s < 2 ^ 64 \<Longrightarrow> 0 \<le> q \<Longrightarrow> q < 65536 \<Longrightarrow>
     split_inspection_id (inspection_id_of s q) = Inr (hex_pad 16 s, hex_pad 4 q) \<and>
     int16 (hex_pad 16 s) = Inr s \<and> int16 (hex_pad 4 q) = Inr q"
proof -
  assume a: "0 \<le> s" "s < 2 ^ 64" "0 \<le> q" "q < 65536"
  have sep: "CHR '':'' \<notin> set (hex_pad w n)" for w n
    using set_hex_pad [of w n] by (auto simp: hex_digits_def)
  have "parse_hex (hex_pad 16 s) = Some s" "parse_hex (hex_pad 4 q) = Some q"
    using a by simp_all
  then show ?thesis
    by (simp add: split_inspection_id_def inspection_id_of_def split_on_append split_on_no_sep sep
        int16_def)
qed

lemma inspection_id_of_ok [simp]: "inspection_id_ok (inspection_id_of s q)"
  using set_hex_pad [of 16 s] set_hex_pad [of 4 q]
  by (auto simp: inspection_id_ok_def inspection_id_of_def nth_append list_all_iff)

lemma inspection_id_of_inject:
  assumes "0 \<le> s" "s < 2 ^ 64" "0 \<le> q" "q < 65536" "0 \<le> s'" "s' < 2 ^ 64" "0 \<le> q'" "q' < 65536"
  shows "inspection_id_of s q = inspection_id_of s' q' \<longleftrightarrow> s = s' \<and> q = q'"
  using inspection_id_parts [OF assms(1-4)] inspection_id_parts [OF assms(5-8)] by auto

text \<open>The values a decoded event is built from, and when decoding yields an event.\<close>

definition regs_session :: "int list \<Rightarrow> int" where
  "regs_session rs = rs ! 0 * 2 ^ 48 + rs ! 1 * 2 ^ 32 + rs ! 2 * 2 ^ 16 + rs ! 3"

definition regs_millis :: "int list \<Rightarrow> int" where
  "regs_millis rs = rs ! 7 * 2 ^ 32 + rs ! 8 * 2 ^ 16 + rs ! 9"

lemma regs_nth:
  "length rs = 10 \<Longrightarrow> list_all (\<lambda>v. 0 \<le> v \<and> v \<le> (65535::int)) rs \<Longrightarrow> i < 10 \<Longrightarrow> 0 \<le> rs ! i \<and> rs ! i < 65536"
  by (fastforce simp: list_all_length)

lemma list10_nth:
  assumes "length xs = 10"
  shows "xs = [xs ! 0, xs ! 1, xs ! 2, xs ! 3, xs ! 4, xs ! 5, xs ! 6, xs ! 7, xs ! 8, xs ! 9]"
proof (rule nth_equalityI)
  fix i assume "i < length xs"
  with assms have "i \<in> {0, 1, 2, 3, 4, 5, 6, 7, 8, 9}" by auto
  then show "xs ! i = [xs ! 0, xs ! 1, xs ! 2, xs ! 3, xs ! 4, xs ! 5, xs ! 6, xs ! 7, xs ! 8, xs ! 9] ! i"
    by auto
qed (simp add: assms)

lemma decode_Some_iff:
  "decode_inspection rs = Inr (Some e) \<longleftrightarrow>
     length rs = 10 \<and> list_all (\<lambda>v. 0 \<le> v \<and> v \<le> 65535) rs \<and>
     rs ! 6 \<in> {1, 2} \<and> regs_session rs \<noteq> 0 \<and> rs ! 4 \<noteq> 0 \<and> 1 \<le> rs ! 5 \<and>
     regs_millis rs \<le> max_millis \<and>
     e = \<lparr>bi_inspection_id = inspection_id_of (regs_session rs) (rs ! 4), bi_bottle_id = rs ! 5,
          bi_passed = (rs ! 6 = 1), bi_inspected_at = utc (regs_millis rs * 1000)\<rparr>"
  (is "?l \<longleftrightarrow> ?r")
proof (cases "length rs = 10 \<and> list_all (\<lambda>v. 0 \<le> v \<and> v \<le> 65535) rs")
  case False
  then show ?thesis by (auto simp: decode_inspection_def)
next
  case True
  then have r: "\<And>i. i < 10 \<Longrightarrow> 0 \<le> rs ! i \<and> rs ! i < 65536" using regs_nth by blast
  have m: "(push_bit 32 (rs ! 7) OR push_bit 16 (rs ! 8)) OR rs ! 9 = regs_millis rs"
    unfolding regs_millis_def using r [of 8] r [of 9] by (intro millis_bits) auto
  show ?thesis
    using True r [of 5]
    unfolding decode_inspection_def session_sum m regs_session_def [symmetric] Let_def
    by (auto simp: bindE_Inr_iff fromtimestamp_ms_def mk_bottle_inspection_def bottle_inspection_ok_def)
qed

lemma decode_ok: "decode_inspection rs = Inr (Some e) \<Longrightarrow> bottle_inspection_ok e"
  by (auto simp: decode_Some_iff bottle_inspection_ok_def list_all_length)

lemma encode_decode_aux:
  assumes "decode_inspection rs = Inr (Some e)"
  shows "encode_inspection (Some e) = Inr rs"
proof -
  from assms have d: "length rs = 10" "list_all (\<lambda>v. 0 \<le> v \<and> v \<le> 65535) rs" "rs ! 6 \<in> {1, 2}"
    and e: "e = \<lparr>bi_inspection_id = inspection_id_of (regs_session rs) (rs ! 4), bi_bottle_id = rs ! 5,
          bi_passed = (rs ! 6 = 1), bi_inspected_at = utc (regs_millis rs * 1000)\<rparr>"
    by (simp_all add: decode_Some_iff)
  have r: "\<And>i. i < 10 \<Longrightarrow> 0 \<le> rs ! i \<and> rs ! i < 65536" using d regs_nth by blast
  have s: "0 \<le> regs_session rs" "regs_session rs < 2 ^ 64"
    using r [of 0] r [of 1] r [of 2] r [of 3] by (simp_all add: regs_session_def)
  have sess: "map (reg16 (regs_session rs)) [48, 32, 16, 0] = [rs ! 0, rs ! 1, rs ! 2, rs ! 3]"
    using reg16_split [of "rs ! 0" "rs ! 1" "rs ! 2" "rs ! 3"] r [of 0] r [of 1] r [of 2] r [of 3]
    by (simp add: regs_session_def)
  have mil: "map (reg16 (regs_millis rs)) [32, 16, 0] = [rs ! 7, rs ! 8, rs ! 9]"
    using reg16_split [of 0 "rs ! 7" "rs ! 8" "rs ! 9"] r [of 7] r [of 8] r [of 9]
    by (simp add: regs_millis_def)
  have dm: "delta_millis (regs_millis rs * 1000) = regs_millis rs" by (simp add: delta_millis_eq)
  have "rs = [rs ! 0, rs ! 1, rs ! 2, rs ! 3, rs ! 4, rs ! 5, rs ! 6, rs ! 7, rs ! 8, rs ! 9]"
    using d(1) by (rule list10_nth)
  then show ?thesis
    using inspection_id_parts [OF s, of "rs ! 4"] r [of 4] d(3)
    unfolding encode_inspection_def e
    by (auto simp: dm sess [simplified] mil [simplified] Let_def)
qed

text \<open>Every string of hexadecimal digits is the fixed-width form of a number.\<close>

lemma hex_digit_cases: "c \<in> set hex_digits \<Longrightarrow> \<exists>d < 16. c = hex_digit d"
proof -
  assume "c \<in> set hex_digits"
  moreover have "length hex_digits = 16" by (simp add: hex_digits_def)
  ultimately show ?thesis unfolding hex_digit_def in_set_conv_nth by metis
qed

lemma hex_pad_exists: "set s \<subseteq> set hex_digits \<Longrightarrow> \<exists>n. 0 \<le> n \<and> n < 16 ^ length s \<and> s = hex_pad (length s) n"
proof (induction s rule: rev_induct)
  case (snoc c s)
  then obtain n where n: "0 \<le> n" "n < 16 ^ length s" "s = hex_pad (length s) n" by auto
  obtain d where d: "d < 16" "c = hex_digit d" using snoc.prems hex_digit_cases by auto
  have "(16 * n + int d) div 16 = n" "nat ((16 * n + int d) mod 16) = d" using d by simp_all
  then have "hex_pad (length (s @ [c])) (16 * n + int d) = s @ [c]" using n(3) d(2) by simp
  moreover have "16 * n + int d < 16 ^ length (s @ [c])" using n d by simp
  ultimately show ?case using n(1) by (intro exI [of _ "16 * n + int d"]) simp
qed (auto intro: exI [of _ 0])

lemma hex_pad_zero: "hex_pad w 0 = replicate w (CHR ''0'')"
  by (induction w) (simp_all add: hex_digit_def hex_digits_def replicate_append_same)

lemma inspection_id_cases:
  assumes "inspection_id_ok i"
  obtains s q where "i = inspection_id_of s q" "0 \<le> s" "s < 2 ^ 64" "0 \<le> q" "q < 65536"
    "take 16 i = hex_pad 16 s" "drop 17 i = hex_pad 4 q"
proof -
  have l: "length (take 16 i) = 16" "length (drop 17 i) = 4" and c: "i ! 16 = CHR '':''"
    and "set (take 16 i) \<subseteq> set hex_digits" "set (drop 17 i) \<subseteq> set hex_digits"
    using assms by (auto simp: inspection_id_ok_def list_all_iff)
  then obtain s q where s: "0 \<le> s" "s < 16 ^ 16" "take 16 i = hex_pad 16 s"
      and q: "0 \<le> q" "q < 16 ^ 4" "drop 17 i = hex_pad 4 q"
    using hex_pad_exists [of "take 16 i"] hex_pad_exists [of "drop 17 i"] unfolding l by blast
  have "length i = 21" using assms by (simp add: inspection_id_ok_def)
  then have "i = take 16 i @ i ! 16 # drop (Suc 16) i" by (intro id_take_nth_drop) simp
  then have "i = inspection_id_of s q" using s q c by (simp add: inspection_id_of_def)
  then show thesis using s q by (intro that [of s q]) simp_all
qed

lemma decode_encode_aux:
  assumes ok: "bottle_inspection_ok e"
    and t: "0 \<le> dt_us (bi_inspected_at e)" "dt_us (bi_inspected_at e) div 1000 \<le> max_millis"
  shows "\<exists>rs. encode_inspection (Some e) = Inr rs \<and>
    decode_inspection rs =
      (if take 16 (bi_inspection_id e) = replicate 16 (CHR ''0'') \<or> drop 17 (bi_inspection_id e) = replicate 4 (CHR ''0'')
       then Inl (ValueError ''invalid inspection identity/status'')
       else Inr (Some (e\<lparr>bi_inspected_at := utc (dt_us (bi_inspected_at e) div 1000 * 1000)\<rparr>)))"
proof -
  define m where "m = dt_us (bi_inspected_at e) div 1000"
  have mb: "0 \<le> m" "m \<le> max_millis" "m < 2 ^ 48" using t by (simp_all add: m_def max_millis_def)
  obtain s q where i: "bi_inspection_id e = inspection_id_of s q" and s: "0 \<le> s" "s < 2 ^ 64"
    and q: "0 \<le> q" "q < 65536"
    and p: "take 16 (bi_inspection_id e) = hex_pad 16 s" "drop 17 (bi_inspection_id e) = hex_pad 4 q"
    using ok inspection_id_cases unfolding bottle_inspection_ok_def by metis
  have z: "take 16 (bi_inspection_id e) = replicate 16 (CHR ''0'') \<longleftrightarrow> s = 0"
      "drop 17 (bi_inspection_id e) = replicate 4 (CHR ''0'') \<longleftrightarrow> q = 0"
    using hex_pad_inject [of s 16 0] hex_pad_inject [of q 4 0] s q unfolding p by (simp_all add: hex_pad_zero)
  let ?rs = "map (reg16 s) [48, 32, 16, 0] @ [q, bi_bottle_id e, if bi_passed e then 1 else 2] @
      map (reg16 m) [32, 16, 0]"
  have "encode_inspection (Some e) = Inr ?rs"
    using inspection_id_parts [of s q] s q by (simp add: encode_inspection_def i delta_millis_eq Let_def m_def)
  moreover have rs: "regs_session ?rs = s" "regs_millis ?rs = m"
    using reg16_join4 [of s] reg16_join3 [of m] s mb by (simp_all add: regs_session_def regs_millis_def)
  moreover have range: "length ?rs = 10" "list_all (\<lambda>v. 0 \<le> v \<and> v \<le> 65535) ?rs"
    using ok q reg16_range by (simp_all add: bottle_inspection_ok_def)
  have "decode_inspection ?rs = Inl (ValueError ''invalid inspection identity/status'')" if "s = 0 \<or> q = 0"
    using that range rs(1) unfolding decode_inspection_def session_sum Let_def by (auto simp: regs_session_def)
  moreover have "decode_inspection ?rs = Inr (Some (e\<lparr>bi_inspected_at := utc (m * 1000)\<rparr>))" if "s \<noteq> 0" "q \<noteq> 0"
    using that ok q range rs mb i by (cases e) (auto simp: decode_Some_iff bottle_inspection_ok_def)
  ultimately show ?thesis unfolding z m_def by auto
qed

section \<open>Receipts\<close>

definition inspection_doc :: "bottle_inspection \<Rightarrow> doc" where
  "inspection_doc e =
     [(''schema_version'', JStr ''1.0''), (''inspection_id'', JStr (bi_inspection_id e)),
      (''bottle_id'', JInt (bi_bottle_id e)), (''passed'', JBool (bi_passed e)),
      (''inspected_at'', JTime (bi_inspected_at e))]"

definition inspection_json :: "bottle_inspection \<Rightarrow> json" where
  "inspection_json e = JObj (inspection_doc e)"

definition inspection_digest :: "crypto \<Rightarrow> bottle_inspection \<Rightarrow> string" where
  "inspection_digest C e =
     sha256 C (sorted_keys (inspection_json (e\<lparr>bi_inspected_at := as_utc (bi_inspected_at e)\<rparr>)))"

record inspection_receipt =
  ir_inspection_id :: string
  ir_event_digest :: string
  ir_consumer :: string
  ir_signature :: string

definition receipt_body :: "string \<Rightarrow> string \<Rightarrow> string \<Rightarrow> json" where
  "receipt_body ident digest consumer =
     JObj [(''schema_version'', JStr ''1.0''), (''inspection_id'', JStr ident),
           (''event_digest'', JStr digest), (''consumer'', JStr consumer)]"

definition sign_receipt :: "crypto \<Rightarrow> bottle_inspection \<Rightarrow> string \<Rightarrow> string \<Rightarrow> inspection_receipt res" where
  "sign_receipt C event key consumer =
     bindE (require_key key) (\<lambda>k.
       let ident = bi_inspection_id event; digest = inspection_digest C event in
       Inr \<lparr>ir_inspection_id = ident, ir_event_digest = digest, ir_consumer = consumer,
            ir_signature = hmac C k (sorted_keys (receipt_body ident digest consumer))\<rparr>)"

definition verify_receipt ::
  "crypto \<Rightarrow> inspection_receipt \<Rightarrow> bottle_inspection \<Rightarrow> string \<Rightarrow> string \<Rightarrow> unit res" where
  "verify_receipt C receipt event key consumer =
     bindE (sign_receipt C event key consumer) (\<lambda>expected.
       if receipt\<lparr>ir_signature := ir_signature expected\<rparr> \<noteq> expected \<or>
          ir_signature receipt \<noteq> ir_signature expected
       then Inl (ValueError ''invalid inspection receipt'') else Inr ())"

lemma verify_receipt_iff:
  "verify_receipt C r e key c = Inr () \<longleftrightarrow> sign_receipt C e key c = Inr r"
proof (cases "sign_receipt C e key c")
  case (Inr x)
  then show ?thesis by (cases r; cases x) (auto simp: verify_receipt_def)
qed (simp add: verify_receipt_def)

lemma inspection_doc_distinct: "distinct (map fst (inspection_doc e))"
  by (simp add: inspection_doc_def)

lemma inspection_json_inject:
  "sorted_keys (inspection_json a) = sorted_keys (inspection_json b) \<longleftrightarrow> a = b"
proof
  assume eq: "sorted_keys (inspection_json a) = sorted_keys (inspection_json b)"
  have agree: "map_option sorted_keys (map_of (inspection_doc a) k) =
      map_option sorted_keys (map_of (inspection_doc b) k)" for k
    using eq unfolding inspection_json_def
    by (intro sorted_keys_obj_agree inspection_doc_distinct)
  show "a = b"
    using agree [of "''inspection_id''"] agree [of "''bottle_id''"] agree [of "''passed''"]
      agree [of "''inspected_at''"]
    by (cases a; cases b) (simp add: inspection_doc_def)
qed simp

section \<open>Properties\<close>

text \<open>
  Registers that decode to an inspection encode back to the same ten registers, and the
  event satisfies every field constraint of its model.
\<close>

theorem inspection_registers_roundtrip:
  assumes "decode_inspection rs = Inr (Some e)"
  shows "encode_inspection (Some e) = Inr rs \<and> bottle_inspection_ok e"
  using encode_decode_aux [OF assms] decode_ok [OF assms] by blast

theorem inspection_registers_roundtrip_witness:
  "encode_inspection (Some \<lparr>bi_inspection_id = inspection_id_of 7 9, bi_bottle_id = 42, bi_passed = False,
       bi_inspected_at = utc 65536000\<rparr>) = Inr [0, 0, 0, 7, 9, 42, 2, 0, 1, 0]"
proof -
  have "decode_inspection [0, 0, 0, 7, 9, 42, 2, 0, 1, 0] =
      Inr (Some \<lparr>bi_inspection_id = inspection_id_of 7 9, bi_bottle_id = 42, bi_passed = False,
       bi_inspected_at = utc 65536000\<rparr>)"
    by (simp add: decode_Some_iff regs_session_def regs_millis_def max_millis_def)
  from inspection_registers_roundtrip [OF this] show ?thesis by blast
qed



text \<open>
  A receipt verifies for the event it was signed for; when it verifies for any other event,
  consumer or key, the consumer is the same and the events agree in every field (times as
  instants), unless two different documents have the same SHA-256.
\<close>

theorem receipt_binds_event:
  assumes "sign_receipt C e key c = Inr r"
  shows "verify_receipt C r e key c = Inr () \<and>
    (verify_receipt C r e' key' c' = Inr () \<longrightarrow> c' = c \<and>
      (e'\<lparr>bi_inspected_at := as_utc (bi_inspected_at e')\<rparr> = e\<lparr>bi_inspected_at := as_utc (bi_inspected_at e)\<rparr> \<or>
       (\<exists>x y. x \<noteq> y \<and> sha256 C x = sha256 C y)))"
proof (intro conjI impI)
  show "verify_receipt C r e key c = Inr ()" using assms by (simp add: verify_receipt_iff)
  assume "verify_receipt C r e' key' c' = Inr ()"
  then have v: "sign_receipt C e' key' c' = Inr r" by (simp add: verify_receipt_iff)
  from v assms show "c' = c" by (auto simp: sign_receipt_def bindE_Inr_iff Let_def)
  from v assms have "inspection_digest C e' = inspection_digest C e"
    by (auto simp: sign_receipt_def bindE_Inr_iff Let_def)
  then show "e'\<lparr>bi_inspected_at := as_utc (bi_inspected_at e')\<rparr> = e\<lparr>bi_inspected_at := as_utc (bi_inspected_at e)\<rparr> \<or>
      (\<exists>x y. x \<noteq> y \<and> sha256 C x = sha256 C y)"
    unfolding inspection_digest_def using inspection_json_inject by blast
qed

theorem receipt_binds_event_witness:
  "verify_receipt \<lparr>sha256 = (\<lambda>_. ''d''), hmac = (\<lambda>k _. k)\<rparr>
     \<lparr>ir_inspection_id = ''i'', ir_event_digest = ''d'', ir_consumer = ''c'', ir_signature = replicate 32 (CHR ''k'')\<rparr>
     \<lparr>bi_inspection_id = ''i'', bi_bottle_id = 1, bi_passed = True, bi_inspected_at = utc 0\<rparr>
     (replicate 32 (CHR ''k'')) ''c'' = Inr ()"
  by (rule receipt_binds_event [THEN conjunct1])
    (simp add: sign_receipt_def inspection_digest_def Let_def)

end
