(* ===== verification/Inspection_Stream.thy ===== *)
theory Inspection_Stream
  imports Inspection
begin

text \<open>
  \<open>eirvah_controls/inspection.py\<close>: the stream that samples every n-th observed bottle and
  exposes the latest inspection as ten registers. An operation that raises may already have
  changed the object, so operations return the new state together with the result.
\<close>

record inspection_stream =
  is_session :: int
  is_every_n :: int
  is_fail_every_n :: int
  is_inspected :: int
  is_failed :: int
  is_bottles :: int
  is_sequence :: int
  is_snapshot :: "int list"

definition stream_new :: "int \<Rightarrow> int \<Rightarrow> int \<Rightarrow> inspection_stream res" where
  "stream_new session every_n fail_every_n =
     (if \<not> (0 < session \<and> session < 2 ^ 64)
      then Inl (ValueError ''inspection session must be a nonzero unsigned 64-bit identity'')
      else if every_n < 1 \<or> fail_every_n < 1
      then Inl (ValueError ''inspection intervals must be positive'')
      else Inr \<lparr>is_session = session, is_every_n = every_n, is_fail_every_n = fail_every_n,
                is_inspected = 0, is_failed = 0, is_bottles = 0, is_sequence = 0,
                is_snapshot = replicate 10 0\<rparr>)"

text \<open>\<open>int(now.timestamp() * 1000)\<close>: truncation towards zero, on exact arithmetic.\<close>

definition trunc_millis :: "int \<Rightarrow> int" where
  "trunc_millis us = (if 0 \<le> us then us div 1000 else - ((- us) div 1000))"

definition next_identity :: "int \<Rightarrow> int \<Rightarrow> int \<times> int" where
  "next_identity session seq =
     (if seq + 1 > 65535 then (session mod (2 ^ 64 - 1) + 1, 1) else (session, seq + 1))"

definition stream_observe ::
  "inspection_stream \<Rightarrow> int \<Rightarrow> datetime \<Rightarrow> inspection_stream \<times> unit res" where
  "stream_observe s bottle_id now =
     (if \<not> (1 \<le> bottle_id \<and> bottle_id \<le> 65535) \<or> \<not> aware now
      then (s, Inl (ValueError ''inspection requires a valid bottle ID and aware timestamp''))
      else
        let s1 = s\<lparr>is_bottles := is_bottles s + 1\<rparr> in
        if is_bottles s1 mod is_every_n s1 \<noteq> 0 then (s1, Inr ())
        else
          let (session, seq) = next_identity (is_session s1) (is_sequence s1);
              inspected = is_inspected s1 + 1;
              failed = (inspected mod is_fail_every_n s1 = 0);
              s2 = s1\<lparr>is_inspected := inspected, is_sequence := seq, is_session := session,
                      is_failed := is_failed s1 + (if failed then 1 else 0)\<rparr>;
              ts = trunc_millis (dt_us now)
          in if \<not> (0 \<le> ts \<and> ts < 2 ^ 48)
             then (s2, Inl (ValueError ''inspection timestamp does not fit the wire representation''))
             else (s2\<lparr>is_snapshot :=
                     map (reg16 session) [48, 32, 16, 0] @
                     [seq, bottle_id, if failed then 2 else 1] @
                     map (reg16 ts) [32, 16, 0]\<rparr>, Inr ()))"

definition stream_registers :: "inspection_stream \<Rightarrow> int list" where
  "stream_registers s = is_snapshot s"

section \<open>The identity of an inspection\<close>

definition stream_ok :: "inspection_stream \<Rightarrow> bool" where
  "stream_ok s \<longleftrightarrow>
     1 \<le> is_session s \<and> is_session s < 2 ^ 64 \<and> 1 \<le> is_every_n s \<and> 1 \<le> is_fail_every_n s \<and>
     0 \<le> is_sequence s \<and> is_sequence s \<le> 65535 \<and> 0 \<le> is_failed s \<and> is_failed s \<le> is_inspected s \<and>
     is_inspected s \<le> is_bottles s"

lemma stream_new_ok: "stream_new a b c = Inr s \<Longrightarrow> stream_ok s"
  by (auto simp: stream_new_def stream_ok_def split: if_splits)

lemma next_identity_range:
  assumes "1 \<le> session" "session < 2 ^ 64" "0 \<le> seq" "seq \<le> 65535"
  shows "1 \<le> fst (next_identity session seq)" "fst (next_identity session seq) < 2 ^ 64"
    "1 \<le> snd (next_identity session seq)" "snd (next_identity session seq) \<le> 65535"
proof -
  have "0 \<le> session mod (2 ^ 64 - 1)" "session mod (2 ^ 64 - 1) < 2 ^ 64 - 1" by simp_all
  then show "1 \<le> fst (next_identity session seq)" "fst (next_identity session seq) < 2 ^ 64"
    "1 \<le> snd (next_identity session seq)" "snd (next_identity session seq) \<le> 65535"
    using assms by (simp_all add: next_identity_def)
qed

lemma stream_observe_ok: "stream_ok s \<Longrightarrow> stream_ok (fst (stream_observe s b now))"
  using next_identity_range [of "is_session s" "is_sequence s"]
  by (auto simp: stream_observe_def stream_ok_def Let_def split: prod.splits)

text \<open>
  The position of an identity in the enumeration (session, sequence); inspections move it
  forward by one, so ids do not repeat before the session number has run through.
\<close>

definition identity_rank :: "int \<Rightarrow> int \<Rightarrow> int" where
  "identity_rank session seq = session * 65535 + seq"

lemma next_identity_rank:
  "session < 2 ^ 64 - 1 \<Longrightarrow> 0 \<le> session \<Longrightarrow> 0 \<le> seq \<Longrightarrow> seq \<le> 65535 \<Longrightarrow>
     identity_rank (fst (next_identity session seq)) (snd (next_identity session seq)) =
     identity_rank session seq + 1"
  by (auto simp: next_identity_def identity_rank_def)

lemma stream_observe_cases:
  assumes "stream_observe s b now = (s', r)"
  shows "(is_inspected s' = is_inspected s \<and> is_session s' = is_session s \<and> is_sequence s' = is_sequence s \<and>
      is_snapshot s' = is_snapshot s) \<or>
    (is_inspected s' = is_inspected s + 1 \<and>
      (is_session s', is_sequence s') = next_identity (is_session s) (is_sequence s))"
  using assms by (auto simp: stream_observe_def Let_def split: if_splits prod.splits)

lemma trunc_millis_range: "0 \<le> trunc_millis us \<Longrightarrow> - 1000 < us"
  by (auto simp: trunc_millis_def split: if_splits)

text \<open>What the device shows after an inspected bottle decodes to the event of that bottle.\<close>

lemma stream_observe_decodes:
  assumes ok: "stream_ok s" and obs: "stream_observe s b now = (s', Inr ())"
    and insp: "is_inspected s' \<noteq> is_inspected s" and t: "trunc_millis (dt_us now) \<le> max_millis"
  shows "decode_inspection (stream_registers s') =
     Inr (Some \<lparr>bi_inspection_id = inspection_id_of (is_session s') (is_sequence s'),
                bi_bottle_id = b,
                bi_passed = (is_inspected s' mod is_fail_every_n s \<noteq> 0),
                bi_inspected_at = utc (trunc_millis (dt_us now) * 1000)\<rparr>)"
proof -
  obtain session seq where n: "next_identity (is_session s) (is_sequence s) = (session, seq)" by fastforce
  let ?ts = "trunc_millis (dt_us now)"
  let ?rs = "map (reg16 session) [48, 32, 16, 0] @
      [seq, b, if is_inspected s' mod is_fail_every_n s = 0 then 2 else 1] @ map (reg16 ?ts) [32, 16, 0]"
  from obs insp n have s': "is_snapshot s' = ?rs" "is_session s' = session" "is_sequence s' = seq"
    and b: "1 \<le> b" "b \<le> 65535" and ts: "0 \<le> ?ts" "?ts < 2 ^ 48"
    by (auto simp: stream_observe_def Let_def split: if_splits prod.splits)
  have r: "1 \<le> session" "session < 2 ^ 64" "1 \<le> seq" "seq \<le> 65535"
    using next_identity_range [of "is_session s" "is_sequence s"] ok n by (auto simp: stream_ok_def)
  have "regs_session ?rs = session" "regs_millis ?rs = ?ts"
    using reg16_join4 [of session] reg16_join3 [of ?ts] r ts by (simp_all add: regs_session_def regs_millis_def)
  then show ?thesis
    unfolding stream_registers_def s' decode_Some_iff
    using b r t reg16_range by auto
qed

text \<open>The ids of the inspections of a run of observations, in order.\<close>

fun stream_run :: "inspection_stream \<Rightarrow> (int \<times> datetime) list \<Rightarrow> inspection_stream \<times> string list" where
  "stream_run s [] = (s, [])"
| "stream_run s ((b, now) # obs) =
     (let s' = fst (stream_observe s b now);
          new = (if is_inspected s' \<noteq> is_inspected s
                 then [inspection_id_of (is_session s') (is_sequence s')] else []);
          (s'', ids) = stream_run s' obs
      in (s'', new @ ids))"

lemma stream_run_ids:
  assumes "stream_ok s" "is_session s + int (length obs) < 2 ^ 64"
  shows "distinct (snd (stream_run s obs)) \<and>
    (\<forall>i \<in> set (snd (stream_run s obs)). \<exists>a q. i = inspection_id_of a q \<and> 1 \<le> a \<and> a < 2 ^ 64 \<and> 1 \<le> q \<and> q \<le> 65535 \<and>
        identity_rank a q > identity_rank (is_session s) (is_sequence s))"
  using assms
proof (induction obs arbitrary: s)
  case Nil
  then show ?case by simp
next
  case (Cons o1 obs)
  obtain b now where o1: "o1 = (b, now)" by (cases o1)
  define s' where "s' = fst (stream_observe s b now)"
  obtain r where obs1: "stream_observe s b now = (s', r)" unfolding s'_def by (cases "stream_observe s b now") auto
  have ok': "stream_ok s'" using stream_observe_ok [OF Cons.prems(1)] s'_def by simp
  define ids where "ids = snd (stream_run s' obs)"
  have rng: "1 \<le> is_session s" "is_session s < 2 ^ 64 - 1" "0 \<le> is_sequence s" "is_sequence s \<le> 65535"
    using Cons.prems by (auto simp: stream_ok_def)
  have sess: "is_session s' \<le> is_session s + 1"
    using stream_observe_cases [OF obs1] rng by (auto simp: next_identity_def split: if_splits)
  have IH: "distinct ids \<and> (\<forall>i \<in> set ids. \<exists>a q. i = inspection_id_of a q \<and> 1 \<le> a \<and> a < 2 ^ 64 \<and> 1 \<le> q \<and> q \<le> 65535 \<and>
        identity_rank a q > identity_rank (is_session s') (is_sequence s'))"
    unfolding ids_def using ok' sess Cons.prems by (intro Cons.IH) auto
  show ?case
  proof (cases "is_inspected s' = is_inspected s")
    case True
    then have "snd (stream_run s (o1 # obs)) = ids"
      by (simp add: o1 ids_def s'_def [symmetric] Let_def split: prod.splits)
    moreover have "is_session s' = is_session s" "is_sequence s' = is_sequence s"
      using stream_observe_cases [OF obs1] True by auto
    ultimately show ?thesis using IH by simp
  next
    case False
    then have n: "(is_session s', is_sequence s') = next_identity (is_session s) (is_sequence s)"
      using stream_observe_cases [OF obs1] by auto
    have rank: "identity_rank (is_session s') (is_sequence s') = identity_rank (is_session s) (is_sequence s) + 1"
      using next_identity_rank [of "is_session s" "is_sequence s"] rng n by (metis fst_conv snd_conv less_imp_le order_trans zero_le_one)
    have q: "1 \<le> is_sequence s'" "is_sequence s' \<le> 65535" "1 \<le> is_session s'" "is_session s' < 2 ^ 64"
      using next_identity_range [of "is_session s" "is_sequence s"] rng
      by (simp_all add: n [symmetric])
    let ?i = "inspection_id_of (is_session s') (is_sequence s')"
    have run: "snd (stream_run s (o1 # obs)) = ?i # ids"
      using False by (simp add: o1 ids_def s'_def [symmetric] Let_def split: prod.splits)
    have "?i \<notin> set ids"
    proof
      assume "?i \<in> set ids"
      then obtain a p where ap: "?i = inspection_id_of a p" "1 \<le> a" "a < 2 ^ 64" "1 \<le> p" "p \<le> 65535"
          "identity_rank a p > identity_rank (is_session s') (is_sequence s')" using IH by blast
      then have "a = is_session s'" "p = is_sequence s'"
        using inspection_id_of_inject [of "is_session s'" "is_sequence s'" a p] q by auto
      then show False using ap by simp
    qed
    then show ?thesis unfolding run using IH rank q by force
  qed
qed

section \<open>Properties\<close>

text \<open>
  After an inspected bottle the device's registers decode to the inspection of that bottle,
  under the identity and the verdict the stream assigned to it.
\<close>

theorem stream_shows_inspection:
  assumes "stream_ok s" and "stream_observe s b now = (s', Inr ())"
    and "is_inspected s' \<noteq> is_inspected s" and "trunc_millis (dt_us now) \<le> max_millis"
  shows "decode_inspection (stream_registers s') =
     Inr (Some \<lparr>bi_inspection_id = inspection_id_of (is_session s') (is_sequence s'),
                bi_bottle_id = b,
                bi_passed = (is_inspected s' mod is_fail_every_n s \<noteq> 0),
                bi_inspected_at = utc (trunc_millis (dt_us now) * 1000)\<rparr>)"
  using assms by (rule stream_observe_decodes)

definition example_stream :: inspection_stream where
  "example_stream =
     \<lparr>is_session = 9, is_every_n = 1, is_fail_every_n = 2, is_inspected = 0, is_failed = 0, is_bottles = 0,
      is_sequence = 65535, is_snapshot = replicate 10 0\<rparr>"

theorem stream_shows_inspection_witness:
  "decode_inspection (stream_registers (fst (stream_observe example_stream 5 (utc 2000)))) =
     Inr (Some \<lparr>bi_inspection_id = inspection_id_of 10 1, bi_bottle_id = 5, bi_passed = True,
                bi_inspected_at = utc 2000\<rparr>)"
proof -
  obtain s' r where s: "stream_observe example_stream 5 (utc 2000) = (s', r)" by fastforce
  have r: "r = Inr ()" "is_session s' = 10" "is_sequence s' = 1" "is_inspected s' = 1"
    using s by (auto simp: example_stream_def stream_observe_def next_identity_def trunc_millis_def Let_def)
  show ?thesis
    using stream_shows_inspection [of example_stream 5 "utc 2000" s'] s r
    by (simp add: example_stream_def stream_ok_def trunc_millis_def max_millis_def)
qed

text \<open>Inspection identities are never reused while the session number has not run through.\<close>

theorem inspection_ids_distinct:
  assumes "stream_ok s" "is_session s + int (length obs) < 2 ^ 64"
  shows "distinct (snd (stream_run s obs))"
  using stream_run_ids [OF assms] by blast

theorem inspection_ids_distinct_witness:
  "distinct (snd (stream_run example_stream [(1, utc 1000), (2, utc 2000)]))"
  by (rule inspection_ids_distinct) (simp_all add: example_stream_def stream_ok_def)

end
