(* ===== verification/Positions.thy ===== *)
theory Positions
  imports Signals
begin

text \<open>
  Durable stream positions: \<open>ProducerPositions\<close> (the producer side of
  \<open>eirvah_controls/recovery.py\<close>) and the \<open>positions\<close> table of \<open>ConsumerStore.advance\<close>
  (the consumer side). The locale \<open>position_guard\<close> is the contract a consumer relies on;
  the end-to-end statement joins a producer and a guard.
\<close>

section \<open>The producer\<close>

text \<open>
  The database is shared by every process that opened the file; an object remembers the epoch it
  began. \<open>pd_seq\<close> is the table \<open>producer_sequence\<close> keyed by (id, node).
\<close>

record positions_db =
  pd_epoch :: "string \<rightharpoonup> int"
  pd_seq :: "string \<times> string \<rightharpoonup> int"

record producer_positions =
  pp_producer :: string
  pp_epoch :: int

definition positions_new :: "string \<Rightarrow> producer_positions res" where
  "positions_new ident =
     (if ident = [] then Inl (ValueError ''producer identity required'')
      else Inr \<lparr>pp_producer = ident, pp_epoch = 0\<rparr>)"

definition begin_epoch :: "producer_positions \<Rightarrow> positions_db \<Rightarrow> producer_positions \<times> positions_db" where
  "begin_epoch p db =
     (let e = (case pd_epoch db (pp_producer p) of Some n \<Rightarrow> n + 1 | None \<Rightarrow> 1)
      in (p\<lparr>pp_epoch := e\<rparr>,
          db\<lparr>pd_epoch := (pd_epoch db)(pp_producer p \<mapsto> e),
             pd_seq := (\<lambda>k. if fst k = pp_producer p then None else pd_seq db k)\<rparr>))"

definition next_position ::
  "producer_positions \<Rightarrow> positions_db \<Rightarrow> string \<Rightarrow> int option \<Rightarrow> positions_db \<times> source_position res" where
  "next_position p db node expected =
     (case pd_epoch db (pp_producer p) of
        None \<Rightarrow> (db, Inl (RuntimeError ''producer generation fenced''))
      | Some e \<Rightarrow>
          if e \<noteq> pp_epoch p \<or> (\<exists>x \<in> set_option expected. x \<noteq> pp_epoch p)
          then (db, Inl (RuntimeError ''producer generation fenced''))
          else
            let s = (case pd_seq db (pp_producer p, node) of Some n \<Rightarrow> n + 1 | None \<Rightarrow> 1)
            in (db\<lparr>pd_seq := (pd_seq db)((pp_producer p, node) \<mapsto> s)\<rparr>,
                Inr \<lparr>sp_producer = pp_producer p @ CHR ''/'' # node, sp_epoch = pp_epoch p,
                     sp_sequence = s\<rparr>))"

text \<open>The order of positions of one stream: by epoch, then by sequence.\<close>

definition pos_less :: "int \<times> int \<Rightarrow> int \<times> int \<Rightarrow> bool" where
  "pos_less a b \<longleftrightarrow> fst a < fst b \<or> (fst a = fst b \<and> snd a < snd b)"

abbreviation pos_key :: "source_position \<Rightarrow> int \<times> int" where
  "pos_key p \<equiv> (sp_epoch p, sp_sequence p)"

text \<open>What the database already gave out for a stream: nothing beyond this key.\<close>

definition high_mark :: "positions_db \<Rightarrow> string \<Rightarrow> string \<Rightarrow> int \<times> int" where
  "high_mark db ident node =
     (case pd_epoch db ident of None \<Rightarrow> 0 | Some e \<Rightarrow> e,
      case pd_seq db (ident, node) of None \<Rightarrow> 0 | Some s \<Rightarrow> s)"

definition positions_db_ok :: "positions_db \<Rightarrow> bool" where
  "positions_db_ok db \<longleftrightarrow>
     (\<forall>i e. pd_epoch db i = Some e \<longrightarrow> 1 \<le> e) \<and> (\<forall>k s. pd_seq db k = Some s \<longrightarrow> 1 \<le> s)"

lemma pos_less_trans: "pos_less a b \<Longrightarrow> pos_less b c \<Longrightarrow> pos_less a c"
  by (auto simp: pos_less_def)

lemma pos_less_irrefl [simp]: "\<not> pos_less a a"
  by (simp add: pos_less_def)

lemma begin_epoch_ok:
  "positions_db_ok db \<Longrightarrow> begin_epoch p db = (p', db') \<Longrightarrow> positions_db_ok db' \<and> 1 \<le> pp_epoch p'"
  by (fastforce simp: positions_db_ok_def begin_epoch_def Let_def split: option.splits if_splits)

lemma next_position_ok: "positions_db_ok db \<Longrightarrow> next_position p db node ex = (db', r) \<Longrightarrow> positions_db_ok db'"
  by (fastforce simp: positions_db_ok_def next_position_def Let_def split: option.splits if_splits)

lemma next_position_Inr:
  "next_position p db node ex = (db', Inr pos) \<longleftrightarrow>
     pd_epoch db (pp_producer p) = Some (pp_epoch p) \<and> (ex = None \<or> ex = Some (pp_epoch p)) \<and>
     pos = \<lparr>sp_producer = pp_producer p @ CHR ''/'' # node, sp_epoch = pp_epoch p,
            sp_sequence = snd (high_mark db (pp_producer p) node) + 1\<rparr> \<and>
     db' = db\<lparr>pd_seq := (pd_seq db)((pp_producer p, node) \<mapsto> sp_sequence pos)\<rparr>"
  by (cases ex) (auto simp: next_position_def high_mark_def Let_def split: option.splits)

lemma next_position_Inl: "next_position p db node ex = (db', Inl e) \<Longrightarrow> db' = db"
  by (auto simp: next_position_def Let_def split: option.splits if_splits)

text \<open>A stream only moves forward: every grant is above the mark and becomes the mark.\<close>

lemma next_position_mark:
  assumes "next_position p db node ex = (db', Inr pos)"
  shows "pos_less (high_mark db (pp_producer p) node) (pos_key pos)"
    "high_mark db' (pp_producer p) node = pos_key pos"
    "high_mark db (pp_producer p) node = (pp_epoch p, sp_sequence pos - 1)"
  using assms by (auto simp: next_position_Inr pos_less_def high_mark_def split: option.splits)

lemma begin_epoch_mark:
  assumes "begin_epoch p db = (p', db')"
  shows "pos_less (high_mark db (pp_producer p) node) (high_mark db' (pp_producer p) node)"
  using assms by (auto simp: begin_epoch_def Let_def high_mark_def pos_less_def split: option.splits)

lemma begin_epoch_fences:
  assumes "begin_epoch p db = (p', db')" and "pp_epoch old < pp_epoch p'" and "pp_producer old = pp_producer p"
  shows "next_position old db' node ex = (db', Inl (RuntimeError ''producer generation fenced''))"
  using assms by (auto simp: begin_epoch_def Let_def next_position_def split: option.splits)

section \<open>The consumer\<close>

text \<open>The row of a topic: producer, epoch, sequence and the binding (the text of the message).\<close>

record 'b position_row =
  po_producer :: string
  po_epoch :: int
  po_sequence :: int
  po_binding :: 'b

definition advance ::
  "(string \<rightharpoonup> 'b position_row) \<Rightarrow> string \<Rightarrow> source_position \<Rightarrow> 'b
   \<Rightarrow> (string \<rightharpoonup> 'b position_row) \<times> string" where
  "advance rows topic position binding =
     (let accept = (rows(topic \<mapsto> \<lparr>po_producer = sp_producer position, po_epoch = sp_epoch position,
            po_sequence = sp_sequence position, po_binding = binding\<rparr>), ''accepted'')
      in case rows topic of
           None \<Rightarrow> accept
         | Some old \<Rightarrow>
             if po_producer old \<noteq> sp_producer position then (rows, ''producer_conflict'')
             else if sp_epoch position < po_epoch old then (rows, ''old_epoch'')
             else if sp_epoch position = po_epoch old \<and> sp_sequence position < po_sequence old
             then (rows, ''out_of_order'')
             else if sp_epoch position = po_epoch old \<and> sp_sequence position = po_sequence old
             then (rows, if po_binding old = binding then ''duplicate'' else ''position_conflict'')
             else accept)"

definition row_mark :: "(string \<rightharpoonup> 'b position_row) \<Rightarrow> string \<Rightarrow> (string \<times> int \<times> int) option" where
  "row_mark rows topic = map_option (\<lambda>r. (po_producer r, po_epoch r, po_sequence r)) (rows topic)"

text \<open>The accepted positions of a sequence of deliveries on one topic.\<close>

fun accepted_run ::
  "('st \<Rightarrow> string \<Rightarrow> source_position \<Rightarrow> 'b \<Rightarrow> 'st \<times> string) \<Rightarrow> 'st \<Rightarrow> string
   \<Rightarrow> (source_position \<times> 'b) list \<Rightarrow> source_position list" where
  "accepted_run adv st topic [] = []"
| "accepted_run adv st topic ((p, b) # ds) =
     (if snd (adv st topic p b) = ''accepted'' then [p] else []) @
     accepted_run adv (fst (adv st topic p b)) topic ds"

locale position_guard =
  fixes adv :: "'st \<Rightarrow> string \<Rightarrow> source_position \<Rightarrow> 'b \<Rightarrow> 'st \<times> string"
    and mark :: "'st \<Rightarrow> string \<Rightarrow> (string \<times> int \<times> int) option"
  assumes accept_iff: "snd (adv st topic p b) = ''accepted'' \<longleftrightarrow>
      (case mark st topic of None \<Rightarrow> True
       | Some (i, k) \<Rightarrow> i = sp_producer p \<and> pos_less k (pos_key p))"
    and accept_mark: "snd (adv st topic p b) = ''accepted'' \<Longrightarrow>
      mark (fst (adv st topic p b)) = (mark st)(topic \<mapsto> (sp_producer p, pos_key p))"
    and refuse_same: "snd (adv st topic p b) \<noteq> ''accepted'' \<Longrightarrow> fst (adv st topic p b) = st"
begin

definition above :: "'st \<Rightarrow> string \<Rightarrow> source_position \<Rightarrow> bool" where
  "above st topic p \<longleftrightarrow> (case mark st topic of None \<Rightarrow> True | Some (i, k) \<Rightarrow> i = sp_producer p \<and> pos_less k (pos_key p))"

lemma above_step: "above (fst (adv st topic p b)) topic q \<Longrightarrow> above st topic q"
  using accept_mark [of st topic p b] refuse_same [of st topic p b] accept_iff [of st topic p b]
  by (cases "snd (adv st topic p b) = ''accepted''")
    (auto simp: above_def split: option.splits prod.splits intro: pos_less_trans)

lemma above_after_accept:
  "snd (adv st topic p b) = ''accepted'' \<Longrightarrow> above (fst (adv st topic p b)) topic q \<longleftrightarrow>
     sp_producer p = sp_producer q \<and> pos_less (pos_key p) (pos_key q)"
  using accept_mark [of st topic p b] by (simp add: above_def)

lemma accepted_run_above: "q \<in> set (accepted_run adv st topic ds) \<Longrightarrow> above st topic q"
proof (induction ds arbitrary: st)
  case (Cons d ds)
  obtain p b where d: "d = (p, b)" by (cases d)
  from Cons.prems consider "q = p" "snd (adv st topic p b) = ''accepted''"
    | "q \<in> set (accepted_run adv (fst (adv st topic p b)) topic ds)"
    by (auto simp: d split: if_splits)
  then show ?case
  proof cases
    case 1
    then show ?thesis using accept_iff [of st topic p b] by (simp add: above_def)
  next
    case 2
    then show ?thesis using Cons.IH above_step by blast
  qed
qed simp

text \<open>Whatever is delivered, the accepted positions come from one producer and strictly increase.\<close>

lemma accepted_run_increasing:
  "sorted_wrt (\<lambda>p q. sp_producer p = sp_producer q \<and> pos_less (pos_key p) (pos_key q)) (accepted_run adv st topic ds)"
proof (induction ds arbitrary: st)
  case (Cons d ds)
  obtain p b where d: "d = (p, b)" by (cases d)
  have "sp_producer p = sp_producer q \<and> pos_less (pos_key p) (pos_key q)"
    if "snd (adv st topic p b) = ''accepted''" "q \<in> set (accepted_run adv (fst (adv st topic p b)) topic ds)" for q
    using accepted_run_above [OF that(2)] above_after_accept [OF that(1)] by blast
  then show ?case using Cons.IH [of "fst (adv st topic p b)"] by (simp add: d)
qed simp

text \<open>Nothing is lost: deliveries that strictly increase are all accepted.\<close>

lemma accepted_run_all:
  "sorted_wrt (\<lambda>p q. sp_producer p = sp_producer q \<and> pos_less (pos_key p) (pos_key q)) (map fst ds) \<Longrightarrow>
     (\<forall>p \<in> set (map fst ds). above st topic p) \<Longrightarrow> accepted_run adv st topic ds = map fst ds"
proof (induction ds arbitrary: st)
  case (Cons d ds)
  obtain p b where d: "d = (p, b)" by (cases d)
  from Cons.prems have a: "snd (adv st topic p b) = ''accepted''"
    using accept_iff [of st topic p b] by (simp add: above_def d)
  have "\<forall>q \<in> set (map fst ds). above (fst (adv st topic p b)) topic q"
    using Cons.prems above_after_accept [OF a] by (auto simp: d)
  with Cons a show ?case by (auto simp: d)
qed simp

end

interpretation store_guard: position_guard advance row_mark
  by unfold_locales
    (auto simp: advance_def row_mark_def Let_def pos_less_def fun_eq_iff split: option.splits if_splits)

section \<open>Producer to consumer\<close>

text \<open>Successive grants of one producer for a node, in one epoch.\<close>

fun grants ::
  "producer_positions \<Rightarrow> positions_db \<Rightarrow> string \<Rightarrow> nat \<Rightarrow> source_position list" where
  "grants p db node 0 = []"
| "grants p db node (Suc n) =
     (case next_position p db node None of
        (db', Inl _) \<Rightarrow> []
      | (db', Inr pos) \<Rightarrow> pos # grants p db' node n)"

lemma grants_above:
  "q \<in> set (grants p db node n) \<Longrightarrow>
     sp_producer q = pp_producer p @ CHR ''/'' # node \<and>
     pos_less (high_mark db (pp_producer p) node) (pos_key q)"
proof (induction n arbitrary: db)
  case (Suc n)
  obtain db' r where r: "next_position p db node None = (db', r)" by fastforce
  with Suc.prems obtain pos where np: "next_position p db node None = (db', Inr pos)"
      and q: "q = pos \<or> q \<in> set (grants p db' node n)"
    by (cases r) auto
  from np have pos: "sp_producer pos = pp_producer p @ CHR ''/'' # node" by (auto simp: next_position_Inr)
  note m = next_position_mark [OF np]
  from q show ?case
  proof
    assume "q \<in> set (grants p db' node n)"
    from Suc.IH [OF this] m show ?thesis by (auto intro: pos_less_trans)
  qed (use pos m in simp)
qed simp

lemma grants_increasing:
  "sorted_wrt (\<lambda>a b. sp_producer a = sp_producer b \<and> pos_less (pos_key a) (pos_key b)) (grants p db node n)"
proof (induction n arbitrary: db)
  case (Suc n)
  show ?case
  proof (cases "snd (next_position p db node None)")
    case (Inl e)
    then show ?thesis by (auto split: prod.splits)
  next
    case (Inr pos)
    then obtain db' where np: "next_position p db node None = (db', Inr pos)"
      by (metis prod.collapse)
    from np have "sp_producer pos = pp_producer p @ CHR ''/'' # node" by (auto simp: next_position_Inr)
    with np Suc show ?thesis
      using grants_above [of _ p db' node n] next_position_mark [OF np] by auto
  qed
qed simp

lemma grants_length:
  "pd_epoch db (pp_producer p) = Some (pp_epoch p) \<Longrightarrow> length (grants p db node n) = n"
proof (induction n arbitrary: db)
  case (Suc n)
  obtain db' pos where np: "next_position p db node None = (db', Inr pos)"
    using Suc.prems by (auto simp: next_position_def Let_def)
  then have "pd_epoch db' (pp_producer p) = Some (pp_epoch p)" by (auto simp: next_position_Inr)
  from Suc.IH [OF this] np show ?case by simp
qed simp

section \<open>Properties\<close>

lemma sorted_wrt_pos_distinct:
  "sorted_wrt (\<lambda>a b. sp_producer a = sp_producer b \<and> pos_less (pos_key a) (pos_key b)) ps \<Longrightarrow> distinct ps"
  by (induction ps) auto

lemma fresh_row_above: "rows topic = None \<Longrightarrow> store_guard.above rows topic p"
  by (simp add: store_guard.above_def row_mark_def)

text \<open>
  C9. Deliveries of a producer's grants, in any order and with any duplicates, are accepted at
  most once each and in increasing order; delivered in order to a topic without history, every
  one is accepted.
\<close>

theorem deliveries_accepted_in_order:
  shows "sorted_wrt (\<lambda>a b. sp_producer a = sp_producer b \<and> pos_less (pos_key a) (pos_key b))
      (accepted_run advance rows topic ds) \<and>
    distinct (accepted_run advance rows topic ds) \<and>
    (rows topic = None \<and> map fst ds = grants p db node n \<longrightarrow> accepted_run advance rows topic ds = map fst ds)"
proof (intro conjI impI)
  show s: "sorted_wrt (\<lambda>a b. sp_producer a = sp_producer b \<and> pos_less (pos_key a) (pos_key b))
      (accepted_run advance rows topic ds)"
    by (rule store_guard.accepted_run_increasing)
  then show "distinct (accepted_run advance rows topic ds)" by (rule sorted_wrt_pos_distinct)
  assume a: "rows topic = None \<and> map fst ds = grants p db node n"
  show "accepted_run advance rows topic ds = map fst ds"
  proof (rule store_guard.accepted_run_all)
    show "sorted_wrt (\<lambda>p q. sp_producer p = sp_producer q \<and> pos_less (pos_key p) (pos_key q)) (map fst ds)"
      using a grants_increasing [of p db node n] by simp
    show "\<forall>p \<in> set (map fst ds). store_guard.above rows topic p"
      using a fresh_row_above by blast
  qed
qed

theorem deliveries_accepted_in_order_witness:
  "\<exists>ds :: (source_position \<times> string) list. length ds = 2 \<and> accepted_run advance Map.empty ''t'' ds = map fst ds"
proof -
  let ?p = "\<lparr>pp_producer = ''p'', pp_epoch = 1\<rparr>"
  let ?db = "\<lparr>pd_epoch = [''p'' \<mapsto> 1], pd_seq = Map.empty\<rparr> :: positions_db"
  let ?ds = "map (\<lambda>g. (g, ''b'')) (grants ?p ?db ''n'' 2)"
  have "length ?ds = 2" by (simp add: grants_length)
  moreover have "accepted_run advance Map.empty ''t'' ?ds = map fst ?ds"
    using deliveries_accepted_in_order [of Map.empty "''t''" ?ds ?p ?db "''n''" 2] by (simp add: comp_def)
  ultimately show ?thesis by blast
qed

text \<open>
  Beginning an epoch fences every older object of the producer: it is refused a position from
  then on and the database is left as it was, while the new epoch's first position lies above
  everything given out before.
\<close>

theorem begin_epoch_fences_producers:
  assumes "begin_epoch p db = (p', db')" and "pp_producer old = pp_producer p" and "pp_epoch old \<noteq> pp_epoch p'"
  shows "next_position old db' node ex = (db', Inl (RuntimeError ''producer generation fenced'')) \<and>
    (\<exists>db'' pos. next_position p' db' node None = (db'', Inr pos) \<and> sp_sequence pos = 1 \<and>
       pos_less (high_mark db (pp_producer p) node) (pos_key pos))"
  using assms
  by (auto simp: begin_epoch_def Let_def next_position_def high_mark_def pos_less_def split: option.splits)

theorem begin_epoch_fences_producers_witness:
  "fst (next_position \<lparr>pp_producer = ''p'', pp_epoch = 3\<rparr>
     (snd (begin_epoch \<lparr>pp_producer = ''p'', pp_epoch = 0\<rparr> \<lparr>pd_epoch = [''p'' \<mapsto> 3], pd_seq = Map.empty\<rparr>)) ''n'' None) =
   snd (begin_epoch \<lparr>pp_producer = ''p'', pp_epoch = 0\<rparr> \<lparr>pd_epoch = [''p'' \<mapsto> 3], pd_seq = Map.empty\<rparr>)"
proof -
  let ?db = "\<lparr>pd_epoch = [''p'' \<mapsto> 3], pd_seq = Map.empty\<rparr> :: positions_db"
  let ?p = "\<lparr>pp_producer = ''p'', pp_epoch = 0\<rparr>"
  obtain p' db' where b: "begin_epoch ?p ?db = (p', db')" by fastforce
  then have "pp_epoch p' = 4" by (auto simp: begin_epoch_def)
  then show ?thesis
    using begin_epoch_fences_producers [OF b, of "\<lparr>pp_producer = ''p'', pp_epoch = 3\<rparr>" "''n''" None] b by simp
qed

end
