(* ===== verification/Command_Ledger.thy ===== *)
theory Command_Ledger
  imports Authorization
begin

text \<open>
  The durable execution ledger of the writer
  (\<open>actuation_signal_publisher/ledger.py\<close>). The table \<open>commands\<close> is a map from command id to
  row; one operation is one transaction, so an operation that raises leaves the table unchanged.
  Clock readings (seconds), tokens and digests are arguments. The last sections give the contract
  under which a worker uses a ledger (locale \<open>execution_ledger\<close>) and show the model keeps it.
\<close>

section \<open>Rows\<close>

datatype cmd_state = Preparing | Started | CompletedSt | RetryableSt | UnknownSt

record ledger_row =
  lr_digest :: string
  lr_state :: cmd_state
  lr_token :: "string option"
  lr_result :: "write_result option"
  lr_started_at :: "real option"
  lr_keep_until :: real

type_synonym ledger = "string \<rightharpoonup> ledger_row"

record command_ledger =
  lg_retention :: real
  lg_rows :: ledger

record ledger_claim =
  cl_token :: "string option"
  cl_result :: "write_result option"

definition active :: "ledger_row \<Rightarrow> bool" where
  "active r \<longleftrightarrow> lr_state r \<in> {Preparing, Started}"

definition simple_result :: "outcome \<Rightarrow> string \<Rightarrow> bool \<Rightarrow> bool \<Rightarrow> write_result" where
  "simple_result out why retry replay =
     \<lparr>wr_outcome = out, wr_written_at = None, wr_reason = Some why, wr_retryable = retry, wr_replayed = replay\<rparr>"

text \<open>Opening the file: the retention and the version of the file are checked.\<close>

definition ledger_open :: "real \<Rightarrow> int \<Rightarrow> ledger \<Rightarrow> command_ledger res" where
  "ledger_open retention version rows =
     (if retention \<le> 0 then Inl (ValueError ''retention must be positive'')
      else if version \<notin> {0, 1} then Inl (ValueError ''unsupported command ledger version'')
      else Inr \<lparr>lg_retention = retention, lg_rows = rows\<rparr>)"

definition ledger_prune :: "real \<Rightarrow> ledger \<Rightarrow> ledger" where
  "ledger_prune now rows =
     (\<lambda>c. case rows c of
            None \<Rightarrow> None
          | Some r \<Rightarrow> if \<not> active r \<and> lr_keep_until r < now then None else Some r)"

definition row_result :: "ledger_row \<Rightarrow> string \<Rightarrow> write_result res" where
  "row_result r digest =
     (if lr_digest r \<noteq> digest then Inr (simple_result Conflict ''command_id_reused'' False True)
      else if lr_state r \<in> {Preparing, Started}
      then Inr (simple_result Pending ''execution_in_progress'' False True)
      else case lr_result r of
             None \<Rightarrow> Inl (ValidationError ''WriteResult'')
           | Some w \<Rightarrow> Inr (w\<lparr>wr_replayed := True\<rparr>))"

definition ledger_lookup ::
  "real \<Rightarrow> string \<Rightarrow> string \<Rightarrow> command_ledger \<Rightarrow> command_ledger \<times> write_result option res" where
  "ledger_lookup now cid digest led =
     (let led' = led\<lparr>lg_rows := ledger_prune now (lg_rows led)\<rparr> in
      case lg_rows led' cid of
        None \<Rightarrow> (led', Inr None)
      | Some r \<Rightarrow>
          (case row_result r digest of Inl e \<Rightarrow> (led, Inl e) | Inr w \<Rightarrow> (led', Inr (Some w))))"

text \<open>\<open>now\<close> is the reading of the prune, \<open>now'\<close> the one in \<open>keep_until\<close>.\<close>

definition ledger_claim_cmd ::
  "real \<Rightarrow> real \<Rightarrow> string \<Rightarrow> string \<Rightarrow> string \<Rightarrow> real \<Rightarrow> command_ledger
   \<Rightarrow> command_ledger \<times> ledger_claim res" where
  "ledger_claim_cmd now now' token cid digest deadline led =
     (let rows = ledger_prune now (lg_rows led); keep = max now' deadline + lg_retention led in
      case rows cid of
        None \<Rightarrow>
          (led\<lparr>lg_rows := rows(cid \<mapsto> \<lparr>lr_digest = digest, lr_state = Preparing, lr_token = Some token,
                 lr_result = None, lr_started_at = None, lr_keep_until = keep\<rparr>)\<rparr>,
           Inr \<lparr>cl_token = Some token, cl_result = None\<rparr>)
      | Some r \<Rightarrow>
          if lr_digest r \<noteq> digest \<or> lr_state r \<noteq> RetryableSt
          then (case row_result r digest of
                  Inl e \<Rightarrow> (led, Inl e)
                | Inr w \<Rightarrow> (led\<lparr>lg_rows := rows\<rparr>, Inr \<lparr>cl_token = None, cl_result = Some w\<rparr>))
          else (led\<lparr>lg_rows := rows(cid \<mapsto> r\<lparr>lr_state := Preparing, lr_token := Some token,
                  lr_result := None, lr_started_at := None, lr_keep_until := max (lr_keep_until r) keep\<rparr>)\<rparr>,
                Inr \<lparr>cl_token = Some token, cl_result = None\<rparr>))"

definition ledger_mark_started ::
  "real \<Rightarrow> string \<Rightarrow> string \<Rightarrow> command_ledger \<Rightarrow> command_ledger \<times> unit res" where
  "ledger_mark_started now cid token led =
     (case lg_rows led cid of
        Some r \<Rightarrow>
          if lr_token r = Some token \<and> active r
          then (led\<lparr>lg_rows := (lg_rows led)(cid \<mapsto> r\<lparr>lr_state := Started,
                   lr_started_at := Some (case lr_started_at r of None \<Rightarrow> now | Some t \<Rightarrow> t)\<rparr>)\<rparr>, Inr ())
          else (led, Inl (ValueError ''command claim is no longer active''))
      | None \<Rightarrow> (led, Inl (ValueError ''command claim is no longer active'')))"

definition ledger_complete ::
  "real \<Rightarrow> string \<Rightarrow> string \<Rightarrow> datetime \<Rightarrow> command_ledger \<Rightarrow> command_ledger \<times> write_result res" where
  "ledger_complete now cid token written_at led =
     (let result = \<lparr>wr_outcome = Completed, wr_written_at = Some written_at, wr_reason = None,
                    wr_retryable = False, wr_replayed = False\<rparr> in
      case lg_rows led cid of
        Some r \<Rightarrow>
          if lr_token r = Some token \<and> lr_state r = Started
          then (led\<lparr>lg_rows := (lg_rows led)(cid \<mapsto> r\<lparr>lr_state := CompletedSt, lr_token := None,
                   lr_result := Some result,
                   lr_keep_until := max (lr_keep_until r) (now + lg_retention led)\<rparr>)\<rparr>, Inr result)
          else (led, Inl (ValueError ''command completion has no active initiation record''))
      | None \<Rightarrow> (led, Inl (ValueError ''command completion has no active initiation record'')))"

text \<open>Giving up an active row: started means the outcome is unknown, otherwise nothing was done.\<close>

definition abandon :: "real \<Rightarrow> string \<Rightarrow> string \<Rightarrow> ledger_row \<Rightarrow> ledger_row \<times> write_result" where
  "abandon keep started_why prepared_why r =
     (let started = (lr_state r = Started);
          result = simple_result (if started then Unknown else NotExecuted)
                     (if started then started_why else prepared_why) (\<not> started) False
      in (r\<lparr>lr_state := (if started then UnknownSt else RetryableSt), lr_token := None,
            lr_result := Some result, lr_keep_until := max (lr_keep_until r) keep\<rparr>, result))"

definition ledger_fail ::
  "real \<Rightarrow> string \<Rightarrow> string \<Rightarrow> string \<Rightarrow> command_ledger \<Rightarrow> command_ledger \<times> write_result res" where
  "ledger_fail now cid token reason led =
     (case lg_rows led cid of
        Some r \<Rightarrow>
          if lr_token r = Some token \<and> active r
          then (case abandon (now + lg_retention led) reason reason r of
                  (r', w) \<Rightarrow> (led\<lparr>lg_rows := (lg_rows led)(cid \<mapsto> r')\<rparr>, Inr w))
          else (led, Inl (ValueError ''command claim is no longer active''))
      | None \<Rightarrow> (led, Inl (ValueError ''command claim is no longer active'')))"

text \<open>Start-up: \<open>kept c\<close> is the clock read for row \<open>c\<close>, \<open>now\<close> the one of the final prune.\<close>

definition ledger_recover :: "(string \<Rightarrow> real) \<Rightarrow> real \<Rightarrow> command_ledger \<Rightarrow> command_ledger" where
  "ledger_recover kept now led =
     led\<lparr>lg_rows := ledger_prune now
       (\<lambda>c. case lg_rows led c of
              None \<Rightarrow> None
            | Some r \<Rightarrow>
                if active r
                then Some (fst (abandon (kept c + lg_retention led)
                       ''recovered_after_start'' ''recovered_before_write'' r))
                else Some r)\<rparr>"

section \<open>Well-formed ledgers\<close>

text \<open>
  An active row has a token and no result; a finished one has the result of its state and no token;
  the time of the start is there exactly when the execution was started.
\<close>

definition row_ok :: "ledger_row \<Rightarrow> bool" where
  "row_ok r \<longleftrightarrow>
     (lr_started_at r \<noteq> None \<longleftrightarrow> lr_state r \<in> {Started, CompletedSt, UnknownSt}) \<and>
     (if active r then lr_token r \<noteq> None \<and> lr_result r = None
      else lr_token r = None \<and>
        (\<exists>w. lr_result r = Some w \<and>
          (lr_state r = CompletedSt \<longleftrightarrow> wr_outcome w = Completed) \<and>
          (lr_state r = UnknownSt \<longleftrightarrow> wr_outcome w = Unknown) \<and>
          (lr_state r = RetryableSt \<longleftrightarrow> wr_outcome w = NotExecuted) \<and>
          (wr_retryable w \<longleftrightarrow> lr_state r = RetryableSt) \<and>
          (wr_written_at w \<noteq> None \<longleftrightarrow> lr_state r = CompletedSt) \<and>
          (wr_reason w \<noteq> None \<longleftrightarrow> lr_state r \<noteq> CompletedSt) \<and> \<not> wr_replayed w))"

definition rows_ok :: "ledger \<Rightarrow> bool" where
  "rows_ok rows \<longleftrightarrow> (\<forall>c r. rows c = Some r \<longrightarrow> row_ok r)"

definition ledger_ok :: "command_ledger \<Rightarrow> bool" where
  "ledger_ok led \<longleftrightarrow> 0 < lg_retention led \<and> rows_ok (lg_rows led)"

lemma ledger_pruneD: "ledger_prune now rows c = Some r \<Longrightarrow> rows c = Some r \<and> (active r \<or> now \<le> lr_keep_until r)"
  by (auto simp: ledger_prune_def split: option.splits if_splits)

lemma ledger_prune_keep:
  "rows c = Some r \<Longrightarrow> active r \<or> now \<le> lr_keep_until r \<Longrightarrow> ledger_prune now rows c = Some r"
  by (auto simp: ledger_prune_def)

lemma ledger_prune_ok: "rows_ok rows \<Longrightarrow> rows_ok (ledger_prune now rows)"
  using ledger_pruneD by (fastforce simp: rows_ok_def)

lemma rows_ok_update: "rows_ok rows \<Longrightarrow> row_ok r \<Longrightarrow> rows_ok (rows(c \<mapsto> r))"
  by (simp add: rows_ok_def)

lemma rows_okD:
  "rows_ok rows \<Longrightarrow> rows c = Some r \<Longrightarrow> lr_state r = Preparing \<or> lr_state r = Started \<Longrightarrow> lr_result r = None"
  "rows_ok rows \<Longrightarrow> rows c = Some r \<Longrightarrow> lr_state r = Started \<Longrightarrow> \<exists>t. lr_started_at r = Some t"
  by (fastforce simp: rows_ok_def row_ok_def active_def)+

lemma row_result_total: "row_ok r \<Longrightarrow> \<exists>w. row_result r d = Inr w"
  by (auto simp: row_ok_def row_result_def active_def split: if_splits)

lemma abandon_ok: "active r \<Longrightarrow> row_ok r \<Longrightarrow> row_ok (fst (abandon keep a b r))"
  by (cases "lr_state r") (auto simp: abandon_def row_ok_def active_def simple_result_def Let_def)

lemma ledger_lookup_ok: "ledger_ok led \<Longrightarrow> ledger_ok (fst (ledger_lookup now cid d led))"
  using ledger_prune_ok [of "lg_rows led" now]
  by (auto simp: ledger_lookup_def ledger_ok_def Let_def split: option.splits sum.splits)

lemma ledger_claim_ok: "ledger_ok led \<Longrightarrow> ledger_ok (fst (ledger_claim_cmd now now' tok cid d dl led))"
  using ledger_prune_ok [of "lg_rows led" now]
  by (auto simp: ledger_claim_cmd_def ledger_ok_def Let_def row_ok_def active_def split: option.splits sum.splits
      intro!: rows_ok_update)

lemma ledger_mark_started_ok: "ledger_ok led \<Longrightarrow> ledger_ok (fst (ledger_mark_started now cid tok led))"
  by (auto simp: ledger_mark_started_def ledger_ok_def row_ok_def active_def split: option.splits
      intro!: rows_ok_update intro: rows_okD)

lemma ledger_complete_ok: "ledger_ok led \<Longrightarrow> ledger_ok (fst (ledger_complete now cid tok wt led))"
  by (auto simp: ledger_complete_def ledger_ok_def Let_def row_ok_def active_def split: option.splits
      intro!: rows_ok_update intro: rows_okD)

lemma ledger_fail_ok: "ledger_ok led \<Longrightarrow> ledger_ok (fst (ledger_fail now cid tok why led))"
  using abandon_ok
  by (auto simp: ledger_fail_def ledger_ok_def split: option.splits prod.splits intro!: rows_ok_update)
    (metis fst_conv rows_ok_def)

lemma ledger_recover_ok: "ledger_ok led \<Longrightarrow> ledger_ok (ledger_recover kept now led)"
  unfolding ledger_recover_def ledger_ok_def
  by (auto intro!: ledger_prune_ok) (auto simp: rows_ok_def abandon_ok split: option.splits)

lemma ledger_recover_inactive: "lg_rows (ledger_recover kept now led) c = Some r \<Longrightarrow> \<not> active r"
  unfolding ledger_recover_def
  by (simp, drule ledger_pruneD)
    (auto simp: abandon_def active_def Let_def split: option.splits if_splits)

section \<open>Properties\<close>

text \<open>
  C7. Every operation of the ledger keeps it well formed: an active row has a token and no result,
  a settled row has the result that belongs to its state and no token, and a row has the time of
  its start exactly when its execution was started. So a new claim of a retryable row clears what
  its last attempt left.
\<close>

theorem ledger_operations_keep_rows:
  assumes "ledger_ok led"
  shows "ledger_ok (fst (ledger_lookup now cid d led)) \<and>
    ledger_ok (fst (ledger_claim_cmd now now' tok cid d dl led)) \<and>
    ledger_ok (fst (ledger_mark_started now cid tok led)) \<and>
    ledger_ok (fst (ledger_complete now cid tok wt led)) \<and>
    ledger_ok (fst (ledger_fail now cid tok why led)) \<and>
    ledger_ok (ledger_recover kept now led)"
  using assms
  by (simp add: ledger_lookup_ok ledger_claim_ok ledger_mark_started_ok ledger_complete_ok ledger_fail_ok
      ledger_recover_ok)

definition example_ledger :: command_ledger where
  "example_ledger = \<lparr>lg_retention = 10, lg_rows = Map.empty\<rparr>"

definition example_claimed :: command_ledger where
  "example_claimed = fst (ledger_claim_cmd 1 2 ''t'' ''c'' ''d'' 5 example_ledger)"

lemma example_ledger_ok: "ledger_ok example_ledger" "ledger_ok example_claimed"
  using ledger_claim_ok [of example_ledger] by (auto simp: example_claimed_def example_ledger_def ledger_ok_def rows_ok_def)

theorem ledger_operations_keep_rows_witness:
  "ledger_ok (fst (ledger_mark_started 3 ''c'' ''t'' example_claimed))"
  using ledger_operations_keep_rows [OF example_ledger_ok(2)] by blast

text \<open>
  A granted claim is exclusive: until it is settled, every further claim or look-up of the
  command id is answered without a token, "pending" for the same command and "conflict" for
  a different one.
\<close>

theorem granted_claim_exclusive:
  assumes "ledger_claim_cmd now now' t cid d dl led = (led', Inr cl)" and "cl_token cl = Some tok"
  shows "tok = t \<and>
    (\<exists>w. snd (ledger_claim_cmd now2 now3 t2 cid d2 dl2 led') = Inr \<lparr>cl_token = None, cl_result = Some w\<rparr> \<and>
       wr_outcome w = (if d2 = d then Pending else Conflict)) \<and>
    (\<exists>w. snd (ledger_lookup now2 cid d2 led') = Inr (Some w) \<and> wr_outcome w = (if d2 = d then Pending else Conflict))"
proof -
  have "\<exists>r. lg_rows led' cid = Some r \<and> lr_digest r = d \<and> lr_state r = Preparing \<and> tok = t"
  proof (cases "ledger_prune now (lg_rows led) cid")
    case None
    with assms show ?thesis by (auto simp: ledger_claim_cmd_def Let_def)
  next
    case (Some x)
    with assms show ?thesis by (auto simp: ledger_claim_cmd_def Let_def split: if_splits sum.splits)
  qed
  then obtain r where r: "lg_rows led' cid = Some r" "lr_digest r = d" "lr_state r = Preparing" "tok = t" by blast
  then have p: "ledger_prune x (lg_rows led') cid = Some r" for x by (simp add: ledger_prune_def active_def)
  have res: "row_result r d2 = Inr (if d2 = d then simple_result Pending ''execution_in_progress'' False True
      else simple_result Conflict ''command_id_reused'' False True)"
    using r by (simp add: row_result_def)
  have 1: "snd (ledger_claim_cmd now2 now3 t2 cid d2 dl2 led') = Inr \<lparr>cl_token = None,
      cl_result = Some (if d2 = d then simple_result Pending ''execution_in_progress'' False True
      else simple_result Conflict ''command_id_reused'' False True)\<rparr>"
    unfolding ledger_claim_cmd_def Let_def p option.case res using r(2,3) by simp
  have 2: "snd (ledger_lookup now2 cid d2 led') = Inr (Some (if d2 = d then simple_result Pending ''execution_in_progress'' False True
      else simple_result Conflict ''command_id_reused'' False True))"
    using p [of now2] res by (simp add: ledger_lookup_def)
  show ?thesis unfolding 1 2 using r(4) by (simp add: simple_result_def)
qed

theorem granted_claim_exclusive_witness:
  "\<exists>w. snd (ledger_claim_cmd 3 4 ''u'' ''c'' ''d'' 5 example_claimed) = Inr \<lparr>cl_token = None, cl_result = Some w\<rparr> \<and>
     wr_outcome w = Pending"
proof -
  have "ledger_claim_cmd 1 2 ''t'' ''c'' ''d'' 5 example_ledger = (example_claimed, Inr \<lparr>cl_token = Some ''t'', cl_result = None\<rparr>)"
    by (simp add: example_claimed_def ledger_claim_cmd_def example_ledger_def ledger_prune_def)
  from granted_claim_exclusive [OF this, of "''t''" 3 4 "''u''" "''d''" 5] show ?thesis by simp
qed

text \<open>
  A completed execution is reported as completed, with its write time and the replay mark, to
  every look-up within the retention period, and it can be neither started, failed nor completed again.
\<close>

theorem completion_is_final:
  assumes "ledger_complete now cid tok wt led = (led', Inr w)" and "t \<le> now + lg_retention led"
  shows "wr_outcome w = Completed \<and> wr_written_at w = Some wt \<and>
    (\<exists>r. lg_rows led' cid = Some r \<and> snd (ledger_lookup t cid (lr_digest r) led') = Inr (Some (w\<lparr>wr_replayed := True\<rparr>))) \<and>
    fst (ledger_mark_started t cid tok2 led') = led' \<and> fst (ledger_fail t cid tok2 why led') = led' \<and>
    fst (ledger_complete t cid tok2 wt2 led') = led'"
proof -
  from assms obtain r where r: "lg_rows led' cid = Some r" "lr_state r = CompletedSt" "lr_token r = None"
      "lr_result r = Some w" "now + lg_retention led \<le> lr_keep_until r"
    and w: "wr_outcome w = Completed" "wr_written_at w = Some wt"
    by (auto simp: ledger_complete_def Let_def split: option.splits if_splits)
  then have "ledger_prune t (lg_rows led') cid = Some r" using assms(2) by (intro ledger_prune_keep) auto
  with r w show ?thesis
    by (simp add: ledger_lookup_def row_result_def ledger_mark_started_def ledger_fail_def ledger_complete_def Let_def)
qed

theorem completion_is_final_witness:
  "\<exists>led' w. ledger_complete 4 ''c'' ''t'' (utc 7) (fst (ledger_mark_started 3 ''c'' ''t'' example_claimed)) = (led', Inr w) \<and>
     wr_outcome w = Completed \<and> fst (ledger_mark_started 9 ''c'' ''t'' led') = led'"
proof -
  let ?led = "fst (ledger_mark_started 3 ''c'' ''t'' example_claimed)"
  obtain led' r where c: "ledger_complete 4 ''c'' ''t'' (utc 7) ?led = (led', r)" by fastforce
  then obtain w where w: "r = Inr w"
    by (auto simp: ledger_complete_def ledger_mark_started_def example_claimed_def ledger_claim_cmd_def
        example_ledger_def ledger_prune_def active_def Let_def)
  have "lg_retention ?led = 10"
    by (simp add: ledger_mark_started_def example_claimed_def ledger_claim_cmd_def example_ledger_def ledger_prune_def active_def)
  then show ?thesis using completion_is_final [of 4 "''c''" "''t''" "utc 7" ?led led' w 9 "''t''"] c w by auto
qed

text \<open>
  Recovery settles every interrupted execution: no active row remains, a started one becomes
  "unknown" and is never retried, one that had not started becomes retryable.
\<close>

theorem recovery_settles_executions:
  assumes "lg_rows led cid = Some r" and "active r" and "now \<le> kept cid + lg_retention led"
  shows "(\<forall>c r'. lg_rows (ledger_recover kept now led) c = Some r' \<longrightarrow> \<not> active r') \<and>
    (\<exists>w. snd (ledger_lookup now cid (lr_digest r) (ledger_recover kept now led)) = Inr (Some w) \<and>
       (if lr_state r = Started then wr_outcome w = Unknown \<and> \<not> wr_retryable w
        else wr_outcome w = NotExecuted \<and> wr_retryable w))"
proof (intro conjI allI impI)
  show "\<not> active r'" if "lg_rows (ledger_recover kept now led) c = Some r'" for c r'
    using ledger_recover_inactive [OF that] .
next
  let ?r = "fst (abandon (kept cid + lg_retention led) ''recovered_after_start'' ''recovered_before_write'' r)"
  have keep: "now \<le> lr_keep_until ?r" using assms(3) by (simp add: abandon_def Let_def)
  then have "lg_rows (ledger_recover kept now led) cid = Some ?r"
    using assms by (simp add: ledger_recover_def ledger_prune_def)
  then have "ledger_prune now (lg_rows (ledger_recover kept now led)) cid = Some ?r"
    using keep by (intro ledger_prune_keep) auto
  then show "\<exists>w. snd (ledger_lookup now cid (lr_digest r) (ledger_recover kept now led)) = Inr (Some w) \<and>
       (if lr_state r = Started then wr_outcome w = Unknown \<and> \<not> wr_retryable w
        else wr_outcome w = NotExecuted \<and> wr_retryable w)"
    by (simp add: ledger_lookup_def row_result_def abandon_def simple_result_def Let_def)
qed

theorem recovery_settles_executions_witness:
  "\<exists>d w. snd (ledger_lookup 5 ''c'' d (ledger_recover (\<lambda>_. 4) 5 example_claimed)) = Inr (Some w) \<and> wr_retryable w"
proof -
  have "lg_rows example_claimed ''c'' \<noteq> None" "lg_retention example_claimed = 10"
    by (simp_all add: example_claimed_def ledger_claim_cmd_def example_ledger_def ledger_prune_def)
  then obtain r where r: "lg_rows example_claimed ''c'' = Some r" "active r" and p: "lr_state r = Preparing"
    by (auto simp: example_claimed_def ledger_claim_cmd_def example_ledger_def ledger_prune_def active_def)
  show ?thesis
    using recovery_settles_executions [OF r, of 5 "\<lambda>_. 4"] \<open>lg_retention example_claimed = 10\<close> p by auto
qed

end
