(* ===== verification/Execution_Contract.thy ===== *)
theory Execution_Contract
  imports Command_Ledger
begin

text \<open>
  What a writer may rely on: the locale \<open>execution_ledger\<close> states the laws of a ledger's
  operations over an abstract view of its rows, and proves from them that one command is started
  under one claim only. The ledger of \<open>Command_Ledger\<close> is its instance.
\<close>

section \<open>The abstract view\<close>

datatype phase = Claimed string | Running string | Finished | Retry

type_synonym row_view = "(string \<times> phase \<times> real) option"

text \<open>What an operation other than a granted claim or a start may do to a row at time \<open>now\<close>.\<close>

definition evolves :: "real \<Rightarrow> row_view \<Rightarrow> row_view \<Rightarrow> bool" where
  "evolves now v v' \<longleftrightarrow>
     v' = v \<or>
     (v' = None \<and> (\<exists>d p k. v = Some (d, p, k) \<and> k < now)) \<or>
     (\<exists>d t k k'. k \<le> k' \<and>
        (v = Some (d, Claimed t, k) \<and> v' = Some (d, Retry, k') \<or>
         v = Some (d, Running t, k) \<and> v' = Some (d, Finished, k')))"

text \<open>
  The history of a writer: every claim granted and every start committed so far, as command,
  digest and token. \<open>history_ok\<close> relates it to the rows.
\<close>

type_synonym 'c history = "('c \<times> string \<times> string) list"

definition history_ok ::
  "('c \<Rightarrow> string) \<Rightarrow> ('c \<Rightarrow> real) \<Rightarrow> real \<Rightarrow> (string \<Rightarrow> row_view) \<Rightarrow> 'c history \<Rightarrow> 'c history \<Rightarrow> bool" where
  "history_ok cid dl now v claims starts \<longleftrightarrow>
     (\<forall>c d p t k. v c = Some (d, p, k) \<and> p \<in> {Claimed t, Running t} \<longrightarrow>
        (\<exists>m. (m, d, t) \<in> set claims \<and> cid m = c \<and> dl m \<le> k)) \<and>
     distinct (map (\<lambda>(m, d, t). t) claims) \<and> set starts \<subseteq> set claims \<and>
     (\<forall>m d t. (m, d, t) \<in> set starts \<longrightarrow>
        dl m < now \<or> (\<exists>k p. v (cid m) = Some (d, p, k) \<and> p \<in> {Running t, Finished} \<and> dl m \<le> k)) \<and>
     (\<forall>m d t t'. (m, d, t) \<in> set starts \<and> (m, d, t') \<in> set starts \<longrightarrow> t = t')"

lemma history_rowD:
  "history_ok cid dl now v claims starts \<Longrightarrow> v c = Some (d, p, k) \<Longrightarrow> p \<in> {Claimed t, Running t} \<Longrightarrow>
     \<exists>m. (m, d, t) \<in> set claims \<and> cid m = c \<and> dl m \<le> k"
  unfolding history_ok_def by blast

lemma history_tokenD:
  "history_ok cid dl now v claims starts \<Longrightarrow> (m, d, t) \<in> set claims \<Longrightarrow> (m', d', t) \<in> set claims \<Longrightarrow>
     m = m' \<and> d = d'"
  unfolding history_ok_def by (auto simp: distinct_map inj_on_def)

lemma history_startD:
  "history_ok cid dl now v claims starts \<Longrightarrow> (m, d, t) \<in> set starts \<Longrightarrow>
     (m, d, t) \<in> set claims \<and>
     (dl m < now \<or> (\<exists>k p. v (cid m) = Some (d, p, k) \<and> p \<in> {Running t, Finished} \<and> dl m \<le> k))"
  unfolding history_ok_def by (meson subsetD)

lemma history_once:
  "history_ok cid dl now v claims starts \<Longrightarrow> (m, d, t) \<in> set starts \<Longrightarrow> (m, d, t') \<in> set starts \<Longrightarrow> t = t'"
  unfolding history_ok_def by blast

lemma history_time:
  "history_ok cid dl now v claims starts \<Longrightarrow> now \<le> now' \<Longrightarrow> history_ok cid dl now' v claims starts"
  unfolding history_ok_def by (meson less_le_trans)

lemma history_empty: "(\<And>c. \<nexists>d p k. v c = Some (d, p, k) \<and> p \<notin> {Finished, Retry}) \<Longrightarrow> history_ok cid dl now v [] []"
  unfolding history_ok_def by fastforce

lemma history_evolves:
  assumes "history_ok cid dl now v claims starts" and "\<And>c. evolves now (v c) (v' c)"
  shows "history_ok cid dl now v' claims starts"
  unfolding history_ok_def
proof (intro conjI allI impI)
  show "distinct (map (\<lambda>(m, d, t). t) claims)" "set starts \<subseteq> set claims"
    using assms(1) by (simp_all add: history_ok_def)
next
  fix c d p t k assume r: "v' c = Some (d, p, k) \<and> p \<in> {Claimed t, Running t}"
  then have "v c = Some (d, p, k)" using assms(2) [of c] by (auto simp: evolves_def)
  then show "\<exists>m. (m, d, t) \<in> set claims \<and> cid m = c \<and> dl m \<le> k"
    using history_rowD [OF assms(1)] r by blast
next
  fix m d t assume "(m, d, t) \<in> set starts"
  from history_startD [OF assms(1) this]
  show "dl m < now \<or> (\<exists>k p. v' (cid m) = Some (d, p, k) \<and> p \<in> {Running t, Finished} \<and> dl m \<le> k)"
    using assms(2) [of "cid m"] by (fastforce simp: evolves_def)
next
  fix m d t t' assume "(m, d, t) \<in> set starts \<and> (m, d, t') \<in> set starts"
  then show "t = t'" using history_once [OF assms(1)] by blast
qed

section \<open>The contract\<close>

locale execution_ledger =
  fixes view :: "'l \<Rightarrow> string \<Rightarrow> row_view"
    and invar :: "'l \<Rightarrow> bool"
    and lookup :: "real \<Rightarrow> string \<Rightarrow> string \<Rightarrow> 'l \<Rightarrow> 'l \<times> write_result option res"
    and claim :: "real \<Rightarrow> real \<Rightarrow> string \<Rightarrow> string \<Rightarrow> string \<Rightarrow> real \<Rightarrow> 'l \<Rightarrow> 'l \<times> ledger_claim res"
    and mark :: "real \<Rightarrow> string \<Rightarrow> string \<Rightarrow> 'l \<Rightarrow> 'l \<times> unit res"
    and finish :: "real \<Rightarrow> string \<Rightarrow> string \<Rightarrow> datetime \<Rightarrow> 'l \<Rightarrow> 'l \<times> write_result res"
    and giveup :: "real \<Rightarrow> string \<Rightarrow> string \<Rightarrow> string \<Rightarrow> 'l \<Rightarrow> 'l \<times> write_result res"
    and restart :: "(string \<Rightarrow> real) \<Rightarrow> real \<Rightarrow> 'l \<Rightarrow> 'l"
  assumes lookup_law: "invar l \<Longrightarrow> lookup now c d l = (l', r) \<Longrightarrow> invar l' \<and> evolves now (view l c') (view l' c')"
    and finish_law: "invar l \<Longrightarrow> finish now c t at' l = (l', r2) \<Longrightarrow> invar l' \<and> evolves now (view l c') (view l' c')"
    and giveup_law: "invar l \<Longrightarrow> giveup now c t why l = (l', r2) \<Longrightarrow> invar l' \<and> evolves now (view l c') (view l' c')"
    and restart_law: "invar l \<Longrightarrow> invar (restart kept now l) \<and> evolves now (view l c') (view (restart kept now l) c')"
    and refuse_law: "invar l \<Longrightarrow> claim now now' t c d dead l = (l', r3) \<Longrightarrow>
        \<nexists>x. r3 = Inr x \<and> cl_token x \<noteq> None \<Longrightarrow> invar l' \<and> evolves now (view l c') (view l' c')"
    and grant_law: "invar l \<Longrightarrow> claim now now' t c d dead l = (l', Inr x) \<Longrightarrow> cl_token x = Some t' \<Longrightarrow>
        t' = t \<and> invar l' \<and> (c' \<noteq> c \<longrightarrow> evolves now (view l c') (view l' c')) \<and>
        (\<exists>k. view l' c = Some (d, Claimed t, k) \<and> dead \<le> k) \<and>
        (case view l c of None \<Rightarrow> True | Some (d0, p, k) \<Rightarrow> p = Retry \<and> d0 = d \<or> k < now)"
    and mark_law: "invar l \<Longrightarrow> mark now c t l = (l', Inr ()) \<Longrightarrow> invar l' \<and>
        (\<exists>d p k. view l c = Some (d, p, k) \<and> p \<in> {Claimed t, Running t} \<and>
           view l' = (view l)(c := Some (d, Running t, k)))"
    and mark_refuse: "mark now c t l = (l', Inl e) \<Longrightarrow> l' = l"
begin

lemma grant_history:
  assumes h: "history_ok cid dl now (view l) claims starts" and inv: "invar l"
    and g: "claim now now' t (cid m) d (dl m) l = (l', Inr x)" "cl_token x = Some t'"
    and fresh: "t \<notin> (\<lambda>(m, d, t). t) ` set claims"
  shows "t' = t \<and> invar l' \<and> history_ok cid dl now (view l') ((m, d, t) # claims) starts"
proof -
  note law = grant_law [OF inv g]
  then obtain k where k: "view l' (cid m) = Some (d, Claimed t, k)" "dl m \<le> k" by blast
  have old: "case view l (cid m) of None \<Rightarrow> True | Some (d0, p, k) \<Rightarrow> p = Retry \<and> d0 = d \<or> k < now"
    using law by blast
  have "history_ok cid dl now (view l') ((m, d, t) # claims) starts"
    unfolding history_ok_def
  proof (intro conjI allI impI)
    show "distinct (map (\<lambda>(m, d, t). t) ((m, d, t) # claims))"
      using h fresh by (auto simp: history_ok_def)
    show "set starts \<subseteq> set ((m, d, t) # claims)" using h by (auto simp: history_ok_def)
  next
    fix c d' p t' k' assume r: "view l' c = Some (d', p, k') \<and> p \<in> {Claimed t', Running t'}"
    show "\<exists>m'. (m', d', t') \<in> set ((m, d, t) # claims) \<and> cid m' = c \<and> dl m' \<le> k'"
    proof (cases "c = cid m")
      case True
      with r k show ?thesis by auto
    next
      case False
      then have "evolves now (view l c) (view l' c)" using law by blast
      with r have "view l c = Some (d', p, k')" by (auto simp: evolves_def)
      then show ?thesis using history_rowD [OF h] r by fastforce
    qed
  next
    fix m' d' t1 assume "(m', d', t1) \<in> set starts"
    note s = history_startD [OF h this]
    show "dl m' < now \<or> (\<exists>k p. view l' (cid m') = Some (d', p, k) \<and> p \<in> {Running t1, Finished} \<and> dl m' \<le> k)"
    proof (cases "cid m' = cid m")
      case True
      with s old show ?thesis by (auto split: option.splits)
    next
      case False
      then have "evolves now (view l (cid m')) (view l' (cid m'))" using law by blast
      with s show ?thesis by (fastforce simp: evolves_def)
    qed
  next
    fix m' d' t1 t2 assume "(m', d', t1) \<in> set starts \<and> (m', d', t2) \<in> set starts"
    then show "t1 = t2" using history_once [OF h] by blast
  qed
  with law show ?thesis by blast
qed

text \<open>A start that found its deadline not passed is the only start of its command.\<close>

lemma start_history:
  assumes h: "history_ok cid dl now (view l) claims starts" and inv: "invar l"
    and held: "(m, d, t) \<in> set claims" and time: "now \<le> dl m" "now \<le> now'"
    and mk: "mark now' (cid m) t l = (l', Inr ())"
  shows "invar l' \<and> history_ok cid dl now' (view l') claims ((m, d, t) # starts)"
proof -
  from mark_law [OF inv mk] obtain d0 p k where inv': "invar l'"
    and row: "view l (cid m) = Some (d0, p, k)" "p \<in> {Claimed t, Running t}"
    and l': "view l' = (view l)(cid m := Some (d0, Running t, k))" by blast
  from history_rowD [OF h row] obtain m0 where m0: "(m0, d0, t) \<in> set claims" "dl m0 \<le> k" by blast
  with history_tokenD [OF h held m0(1)] have d0: "d0 = d" "dl m \<le> k" by auto
  have same: "t1 = t" if "(m, d, t1) \<in> set starts" for t1
    using history_startD [OF h that] row time d0 by auto
  have "history_ok cid dl now' (view l') claims ((m, d, t) # starts)"
    unfolding history_ok_def
  proof (intro conjI allI impI)
    show "distinct (map (\<lambda>(m, d, t). t) claims)" using h by (simp add: history_ok_def)
    show "set ((m, d, t) # starts) \<subseteq> set claims" using h held by (auto simp: history_ok_def)
  next
    fix c d' p' t' k' assume r: "view l' c = Some (d', p', k') \<and> p' \<in> {Claimed t', Running t'}"
    show "\<exists>m'. (m', d', t') \<in> set claims \<and> cid m' = c \<and> dl m' \<le> k'"
    proof (cases "c = cid m")
      case True
      with r held d0 show ?thesis by (auto simp: l')
    next
      case False
      with r have "view l c = Some (d', p', k')" by (simp add: l')
      then show ?thesis using history_rowD [OF h] r by blast
    qed
  next
    fix m' d' t1 assume "(m', d', t1) \<in> set ((m, d, t) # starts)"
    then consider "(m', d', t1) = (m, d, t)" | "(m', d', t1) \<in> set starts" by auto
    then show "dl m' < now' \<or> (\<exists>k p. view l' (cid m') = Some (d', p, k) \<and> p \<in> {Running t1, Finished} \<and> dl m' \<le> k)"
    proof cases
      case 1
      then show ?thesis by (simp add: l' d0)
    next
      case 2
      note s = history_startD [OF h this]
      then show ?thesis using time row by (cases "cid m' = cid m") (auto simp: l')
    qed
  next
    fix m' d' t1 t2 assume "(m', d', t1) \<in> set ((m, d, t) # starts) \<and> (m', d', t2) \<in> set ((m, d, t) # starts)"
    then show "t1 = t2" using history_once [OF h] same by auto
  qed
  with inv' show ?thesis by blast
qed

end

section \<open>The ledger keeps the contract\<close>

fun row_view_of :: "ledger_row \<Rightarrow> string \<times> phase \<times> real" where
  "row_view_of r =
     (lr_digest r,
      (case lr_state r of
         Preparing \<Rightarrow> Claimed (case lr_token r of None \<Rightarrow> [] | Some t \<Rightarrow> t)
       | Started \<Rightarrow> Running (case lr_token r of None \<Rightarrow> [] | Some t \<Rightarrow> t)
       | CompletedSt \<Rightarrow> Finished
       | UnknownSt \<Rightarrow> Finished
       | RetryableSt \<Rightarrow> Retry),
      lr_keep_until r)"

definition ledger_view :: "command_ledger \<Rightarrow> string \<Rightarrow> row_view" where
  "ledger_view led c = map_option row_view_of (lg_rows led c)"

lemma evolves_refl [simp]: "evolves now v v"
  by (simp add: evolves_def)

lemma prune_evolves:
  "evolves now (ledger_view led c) (ledger_view (led\<lparr>lg_rows := ledger_prune now (lg_rows led)\<rparr>) c)"
  by (auto simp: evolves_def ledger_view_def ledger_prune_def split: option.splits)

lemma abandon_view:
  assumes "active r" shows "evolves now (Some (row_view_of r)) (Some (row_view_of (fst (abandon keep a b r))))"
  using assms by (cases "lr_state r") (auto simp: evolves_def abandon_def active_def Let_def)

lemma abandon_keep: "lr_keep_until r \<le> lr_keep_until (fst (abandon keep a b r))"
  by (simp add: abandon_def Let_def)

lemma ledger_lookup_evolves:
  "ledger_lookup now cid d led = (led', r) \<Longrightarrow> evolves now (ledger_view led c) (ledger_view led' c)"
  using prune_evolves [of now led c] by (auto simp: ledger_lookup_def Let_def split: option.splits sum.splits)

lemma ledger_complete_evolves:
  "ledger_complete now cid tok wt led = (led', r) \<Longrightarrow> evolves now (ledger_view led c) (ledger_view led' c)"
proof -
  assume a: "ledger_complete now cid tok wt led = (led', r)"
  show ?thesis
  proof (cases "led' = led")
    case False
    with a obtain x w k where x: "lg_rows led cid = Some x" "lr_state x = Started" "lr_token x = Some tok"
      and led': "led' = led\<lparr>lg_rows := (lg_rows led)(cid \<mapsto>
          x\<lparr>lr_state := CompletedSt, lr_token := None, lr_result := w, lr_keep_until := max (lr_keep_until x) k\<rparr>)\<rparr>"
      by (auto simp: ledger_complete_def Let_def split: option.splits if_splits)
    then show ?thesis by (simp add: ledger_view_def evolves_def)
  qed simp
qed

lemma ledger_fail_evolves:
  assumes "ledger_fail now cid tok why led = (led', r)"
  shows "evolves now (ledger_view led c) (ledger_view led' c)"
proof (cases "led' = led")
  case False
  with assms obtain x where x: "lg_rows led cid = Some x" "active x"
    and led': "led' = led\<lparr>lg_rows := (lg_rows led)(cid \<mapsto> fst (abandon (now + lg_retention led) why why x))\<rparr>"
    by (auto simp: ledger_fail_def split: option.splits if_splits prod.splits)
  then show ?thesis
    using abandon_view [OF x(2), of now "now + lg_retention led" why why]
    by (simp add: ledger_view_def del: row_view_of.simps)
qed simp

lemma ledger_recover_evolves: "evolves now (ledger_view led c) (ledger_view (ledger_recover kept now led) c)"
proof (cases "lg_rows led c")
  case None
  then show ?thesis by (simp add: ledger_recover_def ledger_prune_def ledger_view_def)
next
  case (Some r)
  define r' where "r' = (if active r then fst (abandon (kept c + lg_retention led) ''recovered_after_start'' ''recovered_before_write'' r) else r)"
  have v: "ledger_view (ledger_recover kept now led) c =
      (if \<not> active r' \<and> lr_keep_until r' < now then None else Some (row_view_of r'))"
    by (simp add: ledger_recover_def ledger_prune_def ledger_view_def Some r'_def del: row_view_of.simps)
  have e: "evolves now (Some (row_view_of r)) (Some (row_view_of r'))"
    using abandon_view by (simp add: r'_def del: row_view_of.simps)
  have "lr_keep_until r \<le> lr_keep_until r'" using abandon_keep by (simp add: r'_def)
  with v e show ?thesis by (auto simp: ledger_view_def Some evolves_def)
qed

lemma ledger_claim_refused:
  assumes "ledger_claim_cmd now now' t cid d dead led = (led', r)" "\<nexists>x. r = Inr x \<and> cl_token x \<noteq> None"
  shows "evolves now (ledger_view led c) (ledger_view led' c)"
  using assms prune_evolves [of now led c]
  by (auto simp: ledger_claim_cmd_def Let_def split: option.splits sum.splits if_splits)

lemma ledger_claim_granted:
  assumes "0 < lg_retention led" "ledger_claim_cmd now now' t cid d dead led = (led', Inr x)" "cl_token x = Some t'"
  shows "t' = t \<and> (c \<noteq> cid \<longrightarrow> evolves now (ledger_view led c) (ledger_view led' c)) \<and>
    (\<exists>k. ledger_view led' cid = Some (d, Claimed t, k) \<and> dead \<le> k) \<and>
    (case ledger_view led cid of None \<Rightarrow> True | Some (d0, p, k) \<Rightarrow> p = Retry \<and> d0 = d \<or> k < now)"
proof (cases "ledger_prune now (lg_rows led) cid")
  case None
  define k where "k = max now' dead + lg_retention led"
  from None have "case ledger_view led cid of None \<Rightarrow> True | Some (d0, p, k) \<Rightarrow> p = Retry \<and> d0 = d \<or> k < now"
    by (auto simp: ledger_prune_def ledger_view_def split: option.splits if_splits)
  moreover from None assms have "dead \<le> k" "t' = t"
    "led' = led\<lparr>lg_rows := (ledger_prune now (lg_rows led))(cid \<mapsto> \<lparr>lr_digest = d, lr_state = Preparing,
        lr_token = Some t, lr_result = None, lr_started_at = None, lr_keep_until = k\<rparr>)\<rparr>"
    by (auto simp: ledger_claim_cmd_def Let_def k_def)
  ultimately show ?thesis using prune_evolves [of now led c] by (auto simp: ledger_view_def)
next
  case (Some r)
  with assms have r: "lr_digest r = d" "lr_state r = RetryableSt"
    by (auto simp: ledger_claim_cmd_def Let_def split: if_splits sum.splits)
  have old: "ledger_view led cid = Some (d, Retry, lr_keep_until r)"
    using ledger_pruneD [OF Some] r by (simp add: ledger_view_def)
  define k where "k = max (lr_keep_until r) (max now' dead + lg_retention led)"
  from Some assms r have "dead \<le> k" "t' = t"
    "led' = led\<lparr>lg_rows := (ledger_prune now (lg_rows led))(cid \<mapsto> r\<lparr>lr_state := Preparing,
        lr_token := Some t, lr_result := None, lr_started_at := None, lr_keep_until := k\<rparr>)\<rparr>"
    by (auto simp: ledger_claim_cmd_def Let_def k_def max_def)
  then show ?thesis unfolding old using prune_evolves [of now led c] r by (simp add: ledger_view_def)
qed

lemma ledger_mark_started_view:
  assumes "ledger_ok led" "ledger_mark_started now c t led = (led', Inr ())"
  shows "\<exists>d p k. ledger_view led c = Some (d, p, k) \<and> p \<in> {Claimed t, Running t} \<and>
    ledger_view led' = (ledger_view led)(c := Some (d, Running t, k))"
proof -
  from assms obtain r s where r: "lg_rows led c = Some r" "lr_token r = Some t" "active r"
    and led': "led' = led\<lparr>lg_rows := (lg_rows led)(c \<mapsto> r\<lparr>lr_state := Started, lr_started_at := s\<rparr>)\<rparr>"
    by (auto simp: ledger_mark_started_def split: option.splits if_splits)
  show ?thesis
    using r by (cases "lr_state r") (auto simp: led' ledger_view_def active_def fun_eq_iff)
qed

interpretation command_ledger: execution_ledger ledger_view ledger_ok ledger_lookup ledger_claim_cmd
    ledger_mark_started ledger_complete ledger_fail ledger_recover
proof
  fix l l' now c d c' r
  assume "ledger_ok l" "ledger_lookup now c d l = (l', r)"
  then show "ledger_ok l' \<and> evolves now (ledger_view l c') (ledger_view l' c')"
    using ledger_lookup_ok [of l now c d] ledger_lookup_evolves by simp
next
  fix l l' now c t wt c' r
  assume "ledger_ok l" "ledger_complete now c t wt l = (l', r)"
  then show "ledger_ok l' \<and> evolves now (ledger_view l c') (ledger_view l' c')"
    using ledger_complete_ok [of l now c t wt] ledger_complete_evolves by simp
next
  fix l l' now c t why c' r
  assume "ledger_ok l" "ledger_fail now c t why l = (l', r)"
  then show "ledger_ok l' \<and> evolves now (ledger_view l c') (ledger_view l' c')"
    using ledger_fail_ok [of l now c t why] ledger_fail_evolves by simp
next
  fix l kept now c'
  assume "ledger_ok l"
  then show "ledger_ok (ledger_recover kept now l) \<and> evolves now (ledger_view l c') (ledger_view (ledger_recover kept now l) c')"
    using ledger_recover_ok ledger_recover_evolves by blast
next
  fix l l' now now' t c d dead r c'
  assume "ledger_ok l" "ledger_claim_cmd now now' t c d dead l = (l', r)" "\<nexists>x. r = Inr x \<and> cl_token x \<noteq> None"
  then show "ledger_ok l' \<and> evolves now (ledger_view l c') (ledger_view l' c')"
    using ledger_claim_ok [of l now now' t c d dead] ledger_claim_refused by simp
next
  fix l l' now now' t c d dead x t' c'
  assume "ledger_ok l" "ledger_claim_cmd now now' t c d dead l = (l', Inr x)" "cl_token x = Some t'"
  then show "t' = t \<and> ledger_ok l' \<and> (c' \<noteq> c \<longrightarrow> evolves now (ledger_view l c') (ledger_view l' c')) \<and>
      (\<exists>k. ledger_view l' c = Some (d, Claimed t, k) \<and> dead \<le> k) \<and>
      (case ledger_view l c of None \<Rightarrow> True | Some (d0, p, k) \<Rightarrow> p = Retry \<and> d0 = d \<or> k < now)"
    using ledger_claim_ok [of l now now' t c d dead] ledger_claim_granted [of l now now' t c d dead l' x t' c']
    by (simp add: ledger_ok_def)
next
  fix l l' now c t
  assume "ledger_ok l" "ledger_mark_started now c t l = (l', Inr ())"
  then show "ledger_ok l' \<and> (\<exists>d p k. ledger_view l c = Some (d, p, k) \<and> p \<in> {Claimed t, Running t} \<and>
      ledger_view l' = (ledger_view l)(c := Some (d, Running t, k)))"
    using ledger_mark_started_ok [of l now c t] ledger_mark_started_view by simp
next
  fix l l' now c t e
  assume "ledger_mark_started now c t l = (l', Inl e)"
  then show "l' = l" by (auto simp: ledger_mark_started_def split: option.splits if_splits)
qed

end
