(* ===== verification/Observability.thy ===== *)
theory Observability
  imports Authorization Effects
begin

text \<open>
  \<open>eirvah_observability\<close>: the bounded buffer of execution evidence (\<open>execution.py\<close>), the
  names of the metrics (\<open>metrics.py\<close>) and the probes of a service (\<open>health.py\<close>). The clock
  snapshot, the process instance and failures of the file system are arguments; the log line that
  repeats a record is not modelled.
\<close>

section \<open>Evidence records\<close>

record exec_event =
  ev_component :: string
  ev_action :: string
  ev_command :: actuation_request
  ev_evidence :: doc

text \<open>What a process adds to every record: host, record id and the clock snapshot.\<close>

record evidence_stamp =
  es_record_id :: string
  es_instance :: string
  es_host :: string
  es_clock :: doc

definition command_record :: "evidence_stamp \<Rightarrow> exec_event \<Rightarrow> doc" where
  "command_record st ev =
     (let c = ev_command ev in
      ev_evidence ev @
      [(''event'', JStr ''command_execution''), (''execution_schema'', JStr ''1.0''),
       (''record_id'', JStr (es_record_id st)), (''component'', JStr (ev_component ev)),
       (''action'', JStr (ev_action ev)), (''process_instance'', JStr (es_instance st)),
       (''host'', JStr (es_host st))] @ es_clock st @
      [(''clock_uncertainty_s'', JNull), (''correlation_id'', JStr (ar_correlation_id c)),
       (''target'', JStr (ar_target_uns_topic c)), (''requester'', JStr (ar_requester c)),
       (''requested_value'', json_of_value (ar_requested_value c)),
       (''value_type'', JStr (value_type_str (ar_value_type c))),
       (''requested_at'', JTime (ar_requested_at c)), (''deadline'', opt_time (ar_deadline c))])"

text \<open>
  \<open>json.dumps(record, allow_nan=False)\<close> refuses a record that holds a float which is not finite. The
  only floats of a record are those of the evidence and the requested value.
\<close>

definition recordable :: "exec_event \<Rightarrow> bool" where
  "recordable ev \<longleftrightarrow> json_finite (JObj (ev_evidence ev)) \<and> json_finite (json_of_value (ar_requested_value (ev_command ev)))"

definition not_compliant :: exn where
  "not_compliant = ValueError ''Out of range float values are not JSON compliant''"

text \<open>
  The buffer. A record is kept with its number. \<open>eb_dir\<close> says whether a journal directory is
  used, \<open>eb_lines\<close> are the lines of the journal file and \<open>eb_checkpoint\<close> the number and the
  overflow flag last written to \<open>current.json\<close>. \<open>eb_history\<close> lists every record stored.
\<close>

record evidence_buffer =
  eb_capacity :: nat
  eb_seq :: nat
  eb_records :: "(nat \<times> doc) list"
  eb_dir :: bool
  eb_lines :: "(nat \<times> doc) list"
  eb_checkpoint :: "nat \<times> bool"
  eb_history :: "(nat \<times> doc) list"

definition buffer_new :: "int \<Rightarrow> bool \<Rightarrow> evidence_buffer res" where
  "buffer_new capacity dir =
     (if capacity < 1 then Inl (ValueError ''capacity must be positive'')
      else Inr \<lparr>eb_capacity = nat capacity, eb_seq = 0, eb_records = [], eb_dir = dir, eb_lines = [],
                eb_checkpoint = (0, False), eb_history = []\<rparr>)"

definition checkpoint :: "exn option \<Rightarrow> (evidence_buffer, unit) act" where
  "checkpoint fault b =
     (if \<not> eb_dir b then (b, Inr ())
      else case fault of
             Some e \<Rightarrow> (b, Inl e)
           | None \<Rightarrow> (b\<lparr>eb_checkpoint := (eb_seq b, eb_capacity b < eb_seq b)\<rparr>, Inr ()))"

text \<open>A deque of bounded length drops its oldest elements.\<close>

definition deque_append :: "nat \<Rightarrow> 'a list \<Rightarrow> 'a \<Rightarrow> 'a list" where
  "deque_append n xs x = drop (length (xs @ [x]) - n) (xs @ [x])"

definition write_line :: "exn option \<Rightarrow> nat \<times> doc \<Rightarrow> (evidence_buffer, unit) act" where
  "write_line fault stored b =
     (if \<not> (eb_dir b \<and> eb_seq b \<le> eb_capacity b) then (b, Inr ())
      else case fault of Some e \<Rightarrow> (b, Inl e) | None \<Rightarrow> (b\<lparr>eb_lines := eb_lines b @ [stored]\<rparr>, Inr ()))"

definition buffer_append :: "exn option \<Rightarrow> exn option \<Rightarrow> doc \<Rightarrow> (evidence_buffer, nat \<times> doc) act" where
  "buffer_append line_fault checkpoint_fault rec =
     thenS (putS (\<lambda>b. b\<lparr>eb_seq := eb_seq b + 1\<rparr>))
     (bindS (getS eb_seq) (\<lambda>seq.
      if \<not> json_finite (JObj rec) then raiseS not_compliant
      else let stored = (seq, AList.update ''record_seq'' (JInt (int seq)) rec) in
        thenS (write_line line_fault stored)
        (thenS (checkpoint checkpoint_fault)
        (thenS (putS (\<lambda>b. b\<lparr>eb_records := deque_append (eb_capacity b) (eb_records b) stored,
                           eb_history := eb_history b @ [stored]\<rparr>))
           (retS stored)))))"

record evidence_snapshot =
  sn_record_seq :: nat
  sn_first_available :: nat
  sn_complete :: bool
  sn_records :: "(nat \<times> doc) list"

definition buffer_snapshot :: "int \<Rightarrow> evidence_buffer \<Rightarrow> evidence_snapshot res" where
  "buffer_snapshot after b =
     (if after < 0 then Inl (ValueError ''negative cursor'')
      else let first = (case eb_records b of [] \<Rightarrow> eb_seq b + 1 | r # _ \<Rightarrow> fst r) in
        Inr \<lparr>sn_record_seq = eb_seq b, sn_first_available = first,
             sn_complete = (int first - 1 \<le> after \<and> after \<le> int (eb_seq b) \<and>
                            \<not> (eb_dir b \<and> eb_capacity b < eb_seq b)),
             sn_records = filter (\<lambda>r. after < int (fst r)) (eb_records b)\<rparr>)"

definition record_event ::
  "exn option \<Rightarrow> exn option \<Rightarrow> evidence_stamp \<Rightarrow> exec_event \<Rightarrow> (evidence_buffer, nat \<times> doc) act" where
  "record_event line_fault checkpoint_fault st ev =
     buffer_append line_fault checkpoint_fault (command_record st ev)"

section \<open>Metric names and probes\<close>

definition metric_prefix :: string where
  "metric_prefix = ''eirvah''"

definition full_name :: "string \<Rightarrow> string res" where
  "full_name name =
     (if take 7 name = metric_prefix @ ''_''
      then Inl (ValueError ''metric name already starts with the prefix; let the factory add it'')
      else Inr (metric_prefix @ ''_'' @ name))"

definition healthz :: "nat \<times> string" where
  "healthz = (200, ''ok'')"

definition readyz :: "bool \<Rightarrow> nat \<times> string" where
  "readyz is_ready = (if is_ready then (200, ''ready'') else (503, ''not ready''))"

section \<open>The buffer holds the latest records\<close>

text \<open>Numbers increase, and the deque is the end of the history.\<close>

definition buffer_ok :: "evidence_buffer \<Rightarrow> bool" where
  "buffer_ok b \<longleftrightarrow>
     0 < eb_capacity b \<and>
     sorted_wrt (\<lambda>x y. fst x < fst y) (eb_history b) \<and>
     (\<forall>r \<in> set (eb_history b). fst r \<le> eb_seq b) \<and>
     eb_records b = drop (length (eb_history b) - eb_capacity b) (eb_history b)"

lemma buffer_new_ok: "buffer_new c d = Inr b \<Longrightarrow> buffer_ok b"
  by (auto simp: buffer_new_def buffer_ok_def split: if_splits)

lemma deque_append_drop:
  "0 < n \<Longrightarrow> deque_append n (drop (length xs - n) xs) x = drop (length (xs @ [x]) - n) (xs @ [x])"
proof (cases "length xs < n")
  case False
  assume n: "0 < n"
  have "Suc (length xs) - n = Suc (length xs - n)" using False by simp
  moreover have "length (drop (length xs - n) xs) = n" using False by simp
  ultimately show ?thesis using n False by (simp add: deque_append_def Suc_diff_le drop_Suc flip: drop_drop tl_drop)
qed (simp add: deque_append_def)

lemma checkpoint_same:
  "checkpoint f b = (b', r) \<Longrightarrow> eb_seq b' = eb_seq b \<and> eb_records b' = eb_records b \<and>
     eb_history b' = eb_history b \<and> eb_capacity b' = eb_capacity b \<and> eb_dir b' = eb_dir b"
  by (auto simp: checkpoint_def split: if_splits option.splits)

lemma write_line_same:
  "write_line f x b = (b', r) \<Longrightarrow> eb_seq b' = eb_seq b \<and> eb_records b' = eb_records b \<and>
     eb_history b' = eb_history b \<and> eb_capacity b' = eb_capacity b \<and> eb_dir b' = eb_dir b"
  by (auto simp: write_line_def split: if_splits option.splits)

lemma append_cases:
  assumes "buffer_append lf cf rec b = (b', r)"
  shows "eb_seq b' = eb_seq b + 1 \<and> eb_capacity b' = eb_capacity b \<and>
    ((\<exists>e. r = Inl e) \<and> eb_records b' = eb_records b \<and> eb_history b' = eb_history b \<or>
     (\<exists>x. r = Inr x \<and> fst x = eb_seq b' \<and> eb_history b' = eb_history b @ [x] \<and>
        eb_records b' = deque_append (eb_capacity b) (eb_records b) x))"
proof -
  let ?x = "(Suc (eb_seq b), AList.update ''record_seq'' (JInt (int (Suc (eb_seq b)))) rec)"
  obtain b1 r1 where 1: "write_line lf ?x (b\<lparr>eb_seq := eb_seq b + 1\<rparr>) = (b1, r1)" by fastforce
  obtain b2 r2 where 2: "checkpoint cf b1 = (b2, r2)" by fastforce
  show ?thesis
    using assms write_line_same [OF 1] checkpoint_same [OF 2] 1 2
    by (cases r1; cases r2) (auto simp: buffer_append_def bindS_def Let_def split: if_splits)
qed

lemma buffer_append_ok: "buffer_ok b \<Longrightarrow> buffer_append lf cf rec b = (b', r) \<Longrightarrow> buffer_ok b'"
  using append_cases [of lf cf rec b b' r] deque_append_drop [of "eb_capacity b" "eb_history b"]
  by (fastforce simp: buffer_ok_def sorted_wrt_append less_Suc_eq_le)

inductive buffer_run :: "evidence_buffer \<Rightarrow> bool" where
  br_new: "buffer_new c d = Inr b \<Longrightarrow> buffer_run b"
| br_append: "buffer_run b \<Longrightarrow> buffer_run (fst (buffer_append lf cf rec b))"

lemma buffer_run_ok: "buffer_run b \<Longrightarrow> buffer_ok b"
proof (induction rule: buffer_run.induct)
  case (br_append b lf cf rec)
  then show ?case using buffer_append_ok by (metis prod.collapse)
qed (rule buffer_new_ok)

lemma sorted_take_below:
  assumes "sorted_wrt (\<lambda>x y. fst x < (fst y :: nat)) xs" "r \<in> set (take n xs)" "drop n xs = y # ys"
  shows "fst r < fst y"
proof -
  have "sorted_wrt (\<lambda>x y. fst x < fst y) (take n xs @ drop n xs)" using assms(1) by simp
  then show ?thesis using assms(2,3) unfolding sorted_wrt_append by simp
qed

section \<open>Properties\<close>

text \<open>
  A snapshot that calls itself complete is complete: it holds, in order, every record that was
  ever stored after the cursor, whatever appends failed in between; it never holds more records
  than the capacity.
\<close>

theorem complete_snapshot_complete:
  assumes "buffer_run b" "buffer_snapshot after b = Inr s"
  shows "length (sn_records s) \<le> eb_capacity b \<and>
    (sn_complete s \<longrightarrow> sn_records s = filter (\<lambda>r. after < int (fst r)) (eb_history b))"
proof -
  note ok = buffer_run_ok [OF assms(1), unfolded buffer_ok_def]
  let ?n = "length (eb_history b) - eb_capacity b"
  have rec: "sn_records s = filter (\<lambda>r. after < int (fst r)) (eb_records b)"
    using assms(2) by (auto simp: buffer_snapshot_def Let_def split: if_splits)
  have "length (eb_records b) \<le> eb_capacity b" using ok by simp
  then have "length (sn_records s) \<le> eb_capacity b"
    unfolding rec by (rule le_trans [OF length_filter_le])
  moreover have "sn_records s = filter (\<lambda>r. after < int (fst r)) (eb_history b)" if "sn_complete s"
  proof -
    have "filter (\<lambda>r. after < int (fst r)) (take ?n (eb_history b)) = []"
    proof (cases "eb_records b")
      case Nil
      then have "int (eb_seq b) \<le> after" using that assms(2)
        by (auto simp: buffer_snapshot_def Let_def split: if_splits)
      moreover have "int (fst r) \<le> int (eb_seq b)" if "r \<in> set (take ?n (eb_history b))" for r
        using ok that by (auto dest: in_set_takeD)
      ultimately show ?thesis by (fastforce simp: filter_empty_conv)
    next
      case (Cons y ys)
      then have "int (fst y) - 1 \<le> after" using that assms(2)
        by (auto simp: buffer_snapshot_def Let_def split: if_splits)
      moreover have "int (fst r) < int (fst y)" if "r \<in> set (take ?n (eb_history b))" for r
        using sorted_take_below [of "eb_history b" r ?n y ys] ok that Cons by simp
      ultimately show ?thesis by (fastforce simp: filter_empty_conv)
    qed
    moreover have "eb_records b = drop ?n (eb_history b)" using ok by simp
    ultimately show ?thesis unfolding rec
      by (metis append_Nil append_take_drop_id filter_append)
  qed
  ultimately show ?thesis by blast
qed

definition example_buffer :: "exn option \<Rightarrow> evidence_buffer" where
  "example_buffer fault =
     fst (buffer_append fault None [(''k'', JFloat (Fin 3))] (fst (buffer_append None None [(''k'', JFloat NaN)]
       \<lparr>eb_capacity = 2, eb_seq = 0, eb_records = [], eb_dir = True, eb_lines = [],
        eb_checkpoint = (0, False), eb_history = []\<rparr>)))"

theorem complete_snapshot_complete_witness:
  "\<exists>s. buffer_snapshot 1 (example_buffer None) = Inr s \<and> sn_complete s \<and> map fst (sn_records s) = [2] \<and>
     sn_records s = filter (\<lambda>r. 1 < int (fst r)) (eb_history (example_buffer None))"
proof -
  have run: "buffer_run (example_buffer None)"
    unfolding example_buffer_def by (intro br_append br_new [of 2 True]) (simp add: buffer_new_def)
  have e: "map fst (eb_records (example_buffer None)) = [2]" "eb_seq (example_buffer None) = 2"
      "eb_capacity (example_buffer None) = 2"
    by (simp_all add: example_buffer_def buffer_append_def write_line_def checkpoint_def deque_append_def Let_def bindS_def)
  obtain s where s: "buffer_snapshot 1 (example_buffer None) = Inr s" by (simp add: buffer_snapshot_def Let_def)
  have "sn_complete t \<and> map fst (sn_records t) = [2]" if "buffer_snapshot 1 b = Inr t"
      "map fst (eb_records b) = [2]" "eb_seq b = 2" "eb_capacity b = 2" for b t
    using that by (cases "eb_records b") (clarsimp simp: buffer_snapshot_def Let_def)+
  from this [OF s e] have "sn_complete s" "map fst (sn_records s) = [2]" by simp_all
  moreover have "sn_records s = filter (\<lambda>r. 1 < int (fst r)) (eb_history (example_buffer None))"
    using complete_snapshot_complete [OF run s] \<open>sn_complete s\<close> by (rule conjunct2 [THEN mp])
  ultimately show ?thesis using s by metis
qed

end
