(* ===== verification/Signal_Publisher.thy ===== *)
theory Signal_Publisher
  imports Native_Write Execution_Contract Observability
begin

text \<open>
  The writer worker (\<open>actuation_signal_publisher/service.py\<close>): targets, the OPC UA write, and
  the handler of a write request with its ledger, its evidence records and every error path. The
  clock, sqlite faults, journal faults and claim tokens come from a \<open>platform\<close>; the device
  clients are parameters that may do anything to the state at an await, other handlers included.
\<close>

section \<open>Targets\<close>

record write_target =
  wt_browse_names :: "string list"
  wt_endpoint :: string
  wt_namespace_uri :: string

text \<open>An entry of the mapping file and the node list, after YAML parsing.\<close>

record mapping_entry =
  me_node_id :: string
  me_area :: string
  me_line :: string
  me_cell :: string
  me_equipment :: string
  me_measurement :: string

record node_list =
  nl_endpoint :: string
  nl_namespace_uri :: string
  nl_nodes :: "(string list \<times> string) list"

definition alias_to_browse :: "node_list \<Rightarrow> string \<rightharpoonup> string list" where
  "alias_to_browse nl = map_of (rev (map (\<lambda>(names, alias). (alias, names)) (nl_nodes nl)))"

definition mapping_topic :: "string \<Rightarrow> string \<Rightarrow> mapping_entry \<Rightarrow> string" where
  "mapping_topic ent sit e =
     join_on (CHR ''/'') [ent, sit, me_area e, me_line e, me_cell e, me_equipment e, me_measurement e]"

fun load_write_targets ::
  "string \<Rightarrow> string \<Rightarrow> node_list \<Rightarrow> mapping_entry list \<Rightarrow> (string \<rightharpoonup> write_target) \<Rightarrow> (string \<rightharpoonup> write_target) res" where
  "load_write_targets ent sit nl [] targets = Inr targets"
| "load_write_targets ent sit nl (e # es) targets =
     (let topic = mapping_topic ent sit e in
      if targets topic \<noteq> None
      then Inl (ValueError ''mapping not bijective: topic maps to multiple node_ids'')
      else case alias_to_browse nl (me_node_id e) of
             None \<Rightarrow> load_write_targets ent sit nl es targets
           | Some names \<Rightarrow>
               load_write_targets ent sit nl es
                 (targets(topic \<mapsto> \<lparr>wt_browse_names = names, wt_endpoint = nl_endpoint nl,
                                  wt_namespace_uri = nl_namespace_uri nl\<rparr>)))"

section \<open>The state\<close>

text \<open>
  \<open>ps_clock\<close> is the last reading of the wall clock in microseconds; \<open>ps_received\<close>, \<open>ps_claims\<close>
  and \<open>ps_starts\<close> are history: the approved requests taken off the bus, and the claims granted and
  the starts committed, as command, digest and token. The \<open>lv_\<close> fields are the handler's local variables that its except branch reads.
\<close>

record 'e pub_state =
  ps_open :: bool
  ps_ledger :: command_ledger
  ps_clock :: int
  ps_received :: "approved_write_request list"
  ps_claims :: "actuation_request history"
  ps_starts :: "actuation_request history"
  ps_events :: "exec_event list"
  ps_handled :: "string list"
  ps_env :: 'e
  lv_cid :: string
  lv_token :: "string option"
  lv_req :: "actuation_request option"
  lv_initiated :: bool

text \<open>
  The environment: microseconds until the next clock reading, negative when the clock was set back,
  the exception (if any) of the next sqlite transaction and of the next journal write, and the next
  token.
\<close>

record 'e platform =
  pf_tick :: "'e \<Rightarrow> int \<times> 'e"
  pf_db :: "'e \<Rightarrow> exn option \<times> 'e"
  pf_journal :: "'e \<Rightarrow> exn option \<times> 'e"
  pf_token :: "'e \<Rightarrow> string \<times> 'e"

record 'w opcua_client =
  oc_open :: "('w, unit) act"
  oc_namespace :: "string \<Rightarrow> ('w, int) act"
  oc_child :: "(int \<times> string) list \<Rightarrow> ('w, unit) act"
  oc_write :: "(int \<times> string) list \<Rightarrow> signal_value \<Rightarrow> ('w, unit) act"
  oc_close :: "('w, unit) act"

record 'e publisher =
  pu_platform :: "'e platform"
  pu_crypto :: crypto
  pu_key :: string
  pu_writer :: string
  pu_native :: "string \<rightharpoonup> native_target"
  pu_targets :: "string \<rightharpoonup> write_target"
  pu_env :: "'e pub_state native_env"
  pu_opcua :: "write_target \<Rightarrow> 'e pub_state opcua_client"
  pu_fuel :: nat

definition read_clock :: "'e publisher \<Rightarrow> ('e pub_state, int) act" where
  "read_clock P w =
     (case pf_tick (pu_platform P) (ps_env w) of
        (d, e) \<Rightarrow> (w\<lparr>ps_env := e, ps_clock := ps_clock w + d\<rparr>, Inr (ps_clock w + d)))"

text \<open>One transaction: it either fails and changes nothing or runs the operation.\<close>

definition transact ::
  "'e publisher \<Rightarrow> (command_ledger \<Rightarrow> command_ledger \<times> 'a res) \<Rightarrow> ('e pub_state, 'a) act" where
  "transact P op w =
     (case pf_db (pu_platform P) (ps_env w) of
        (Some ex, e) \<Rightarrow> (w\<lparr>ps_env := e\<rparr>, Inl ex)
      | (None, e) \<Rightarrow> (case op (ps_ledger w) of (led, r) \<Rightarrow> (w\<lparr>ps_env := e, ps_ledger := led\<rparr>, r)))"

definition record_command ::
  "'e publisher \<Rightarrow> string \<Rightarrow> actuation_request \<Rightarrow> doc \<Rightarrow> ('e pub_state, unit) act" where
  "record_command P action req evidence w =
     (let ev = \<lparr>ev_component = ''actuation-signal-publisher'', ev_action = action, ev_command = req,
                ev_evidence = evidence\<rparr> in
      if \<not> recordable ev then (w, Inl not_compliant)
      else case pf_journal (pu_platform P) (ps_env w) of
             (Some ex, e) \<Rightarrow> (w\<lparr>ps_env := e\<rparr>, Inl ex)
           | (None, e) \<Rightarrow> (w\<lparr>ps_env := e, ps_events := ps_events w @ [ev]\<rparr>, Inr ()))"

definition verify_at ::
  "'e publisher \<Rightarrow> approved_write_request \<Rightarrow> bool \<Rightarrow> ('e pub_state, unit) act" where
  "verify_at P a allow_expired =
     bindS (read_clock P) (\<lambda>t.
       liftS (verify_evidence (pu_crypto P) (utc t) (aw_command a) (aw_approval a) (pu_key P) Approval
                (pu_writer P) allow_expired))"

section \<open>Ledger steps\<close>

definition lookup_step :: "'e publisher \<Rightarrow> string \<Rightarrow> string \<Rightarrow> ('e pub_state, write_result option) act" where
  "lookup_step P cid digest =
     bindS (read_clock P) (\<lambda>t. transact P (ledger_lookup (secs t) cid digest))"

definition note_claim ::
  "actuation_request \<Rightarrow> string \<Rightarrow> ledger_claim \<Rightarrow> 'e pub_state \<Rightarrow> 'e pub_state" where
  "note_claim req digest claim w =
     (case cl_token claim of None \<Rightarrow> w | Some t \<Rightarrow> w\<lparr>ps_claims := (req, digest, t) # ps_claims w\<rparr>)"

definition claim_step ::
  "'e publisher \<Rightarrow> actuation_request \<Rightarrow> string \<Rightarrow> real \<Rightarrow> ('e pub_state, ledger_claim) act" where
  "claim_step P req digest deadline =
     bindS (read_clock P) (\<lambda>t.
     bindS (read_clock P) (\<lambda>t'.
     bindS (\<lambda>w. case pf_token (pu_platform P) (ps_env w) of (tok, e) \<Rightarrow> (w\<lparr>ps_env := e\<rparr>, Inr tok)) (\<lambda>tok.
     bindS (transact P (ledger_claim_cmd (secs t) (secs t') tok (ar_correlation_id req) digest deadline)) (\<lambda>claim.
     thenS (putS (note_claim req digest claim)) (retS claim)))))"

definition mark_step ::
  "'e publisher \<Rightarrow> actuation_request \<Rightarrow> string \<Rightarrow> string \<Rightarrow> ('e pub_state, unit) act" where
  "mark_step P req digest token =
     bindS (read_clock P) (\<lambda>t.
     thenS (transact P (ledger_mark_started (secs t) (ar_correlation_id req) token))
       (putS (\<lambda>w. w\<lparr>ps_starts := (req, digest, token) # ps_starts w\<rparr>)))"

definition fail_step ::
  "'e publisher \<Rightarrow> string \<Rightarrow> string \<Rightarrow> string \<Rightarrow> ('e pub_state, write_result) act" where
  "fail_step P cid token reason =
     bindS (read_clock P) (\<lambda>t. transact P (ledger_fail (secs t) cid token reason))"

definition complete_step ::
  "'e publisher \<Rightarrow> string \<Rightarrow> string \<Rightarrow> int \<Rightarrow> ('e pub_state, write_result) act" where
  "complete_step P cid token written_at =
     bindS (read_clock P) (\<lambda>t. transact P (ledger_complete (secs t) cid token (utc written_at)))"

section \<open>Writing\<close>

definition attempt_doc :: "'e publisher \<Rightarrow> approved_write_request \<Rightarrow> string \<Rightarrow> string \<Rightarrow> doc" where
  "attempt_doc P a digest token =
     [(''attempt_id'', JStr token), (''command_digest'', JStr digest),
      (''approval_fingerprint'', JStr (evidence_fingerprint (pu_crypto P) (aw_approval a))),
      (''approval_verified'', JBool True)]"

definition before_write ::
  "'e publisher \<Rightarrow> approved_write_request \<Rightarrow> string \<Rightarrow> string \<Rightarrow> ('e pub_state, unit) act" where
  "before_write P a digest token =
     thenS (verify_at P a False)
       (thenS (mark_step P (aw_command a) digest token)
         (thenS
           (bindS (getS lv_initiated) (\<lambda>initiated.
              whenS (\<not> initiated)
                (thenS (record_command P ''write_initiated'' (aw_command a)
                          (attempt_doc P a digest token @
                           [(''evidence_scope'', JStr ''before_first_native_frame'')]))
                   (putS (\<lambda>w. w\<lparr>lv_initiated := True\<rparr>)))))
           (verify_at P a False)))"

text \<open>\<open>async with\<close>: the client is closed on every path once it is open.\<close>

definition withS :: "('w, unit) act \<Rightarrow> ('w, unit) act \<Rightarrow> ('w, 'a) act \<Rightarrow> ('w, 'a) act" where
  "withS enter leave body =
     thenS enter (tryS body (\<lambda>e. thenS leave (raiseS e)) (\<lambda>a. thenS leave (retS a)))"

definition write_opcua_value ::
  "'w opcua_client \<Rightarrow> ('w, unit) act \<Rightarrow> write_target \<Rightarrow> signal_value \<Rightarrow> ('w, unit) act" where
  "write_opcua_value client bw target v =
     withS (oc_open client) (oc_close client)
       (bindS (oc_namespace client (wt_namespace_uri target)) (\<lambda>ns.
          let path = map (Pair ns) (wt_browse_names target) in
          thenS (oc_child client path) (thenS bw (oc_write client path v))))"

definition execute_write ::
  "'e publisher \<Rightarrow> approved_write_request \<Rightarrow> string \<Rightarrow> string \<Rightarrow> ('e pub_state, unit) act" where
  "execute_write P a digest token =
     (let req = aw_command a; bw = before_write P a digest token in
      case pu_native P (ar_target_uns_topic req) of
        Some target \<Rightarrow> write_native_value (pu_fuel P) (pu_env P) bw target (ar_requested_value req)
      | None \<Rightarrow>
          (case pu_targets P (ar_target_uns_topic req) of
             None \<Rightarrow> raiseS (ValueError ''no configured write target'')
           | Some target \<Rightarrow>
               write_opcua_value (pu_opcua P target) bw target (ar_requested_value req)))"

section \<open>The handler\<close>

definition outcome_doc :: "string option \<Rightarrow> write_result \<Rightarrow> doc" where
  "outcome_doc token result =
     [(''attempt_id'', case token of None \<Rightarrow> JNull | Some t \<Rightarrow> JStr t),
      (''outcome'', JStr (outcome_str (wr_outcome result))),
      (''reason'', case wr_reason result of None \<Rightarrow> JNull | Some s \<Rightarrow> JStr s),
      (''replayed'', JBool (wr_replayed result))]"

definition result_doc :: "string option \<Rightarrow> write_result \<Rightarrow> doc" where
  "result_doc token result = outcome_doc token result @ [(''written_at'', opt_time (wr_written_at result))]"

definition protocol_str :: "native_target option \<Rightarrow> string" where
  "protocol_str t =
     (case t of None \<Rightarrow> ''opcua'' | Some n \<Rightarrow> (if nt_protocol n = Modbus then ''modbus'' else ''s7''))"

definition run_claim ::
  "'e publisher \<Rightarrow> approved_write_request \<Rightarrow> string \<Rightarrow> string \<Rightarrow> ('e pub_state, write_result) act" where
  "run_claim P a digest token =
     (let req = aw_command a; cid = ar_correlation_id req in
      thenS (record_command P ''executor_admitted'' req
              (attempt_doc P a digest token @
               [(''approval_issued_at'', JTime (se_issued_at (aw_approval a)))]))
        (thenS (putS (\<lambda>w. w\<lparr>lv_initiated := False\<rparr>))
          (tryS (execute_write P a digest token)
            (\<lambda>e. if e = CancelledError
                 then bindS (fail_step P cid token ''execution_cancelled'') (\<lambda>cancelled.
                        thenS (record_command P ''writer_result'' req
                                 (outcome_doc (Some token) (cancelled\<lparr>wr_replayed := False\<rparr>)))
                          (raiseS CancelledError))
                 else fail_step P cid token (exn_name e))
            (\<lambda>_. thenS (record_command P ''device_acknowledged'' req
                       [(''attempt_id'', JStr token),
                        (''protocol'', JStr (protocol_str (pu_native P (ar_target_uns_topic req)))),
                        (''evidence_scope'', JStr ''native_acknowledgement''),
                        (''process_response'', JStr ''not_established'')])
                   (bindS (read_clock P) (\<lambda>now. complete_step P cid token now))))))"

definition admit ::
  "'e publisher \<Rightarrow> approved_write_request \<Rightarrow> string \<Rightarrow> ('e pub_state, write_result) act" where
  "admit P a digest =
     thenS (verify_at P a False)
       (case ar_deadline (aw_command a) of
          None \<Rightarrow> raiseS AssertionError
        | Some deadline \<Rightarrow>
            tryS (claim_step P (aw_command a) digest (timestamp deadline))
              (\<lambda>e. raiseS (if is_exception e then RuntimeError ''command claim could not be established'' else e))
              (\<lambda>claim.
                 thenS (putS (\<lambda>w. w\<lparr>lv_token := cl_token claim\<rparr>))
                   (case cl_token claim of
                      Some token \<Rightarrow> run_claim P a digest token
                    | None \<Rightarrow>
                        (case cl_result claim of
                           None \<Rightarrow> raiseS AssertionError
                         | Some result \<Rightarrow> retS result))))"

definition handle_body ::
  "'e publisher \<Rightarrow> act_payload message \<Rightarrow> ('e pub_state, write_result \<times> act_payload nats_envelope) act" where
  "handle_body P msg =
     bindS (liftS (read_envelope msg)) (\<lambda>envelope.
     thenS (putS (\<lambda>w. w\<lparr>lv_cid := env_correlation_id envelope\<rparr>))
     (bindS (liftS (validate_approved (env_payload envelope))) (\<lambda>a.
      let req = aw_command a; cid = env_correlation_id envelope in
      thenS (putS (\<lambda>w. w\<lparr>lv_req := Some req, ps_received := a # ps_received w\<rparr>))
      (thenS (guardS (ar_correlation_id req = cid) (ValueError ''command envelope identity mismatch''))
      (thenS (verify_at P a True)
      (bindS (getS ps_open) (\<lambda>opened.
       thenS (guardS opened (RuntimeError ''durable command ledger is unavailable''))
       (bindS (liftS (command_digest (pu_crypto P) req)) (\<lambda>digest.
        tryS (lookup_step P cid digest)
          (\<lambda>e. raiseS (if is_exception e then RuntimeError ''command history is unavailable'' else e))
          (\<lambda>known.
             bindS (case known of
                      None \<Rightarrow> admit P a digest
                    | Some r \<Rightarrow> if wr_retryable r then admit P a digest else retS r)
               (\<lambda>result.
                  thenS (putS (\<lambda>w. w\<lparr>ps_handled := ps_handled w @ [outcome_str (wr_outcome result)]\<rparr>))
                    (retS (result, ok_envelope cid (Some (PWrite result)))))))))))))))"

definition handle_error ::
  "'e publisher \<Rightarrow> exn \<Rightarrow> ('e pub_state, write_result \<times> act_payload nats_envelope) act" where
  "handle_error P e =
     (if \<not> is_exception e then raiseS e
      else
        thenS (putS (\<lambda>w. w\<lparr>ps_handled := ps_handled w @ [''error'']\<rparr>))
        (bindS (getS lv_token) (\<lambda>token.
         bindS (getS lv_cid) (\<lambda>cid.
         let uncertain = token \<noteq> None \<or> is_runtime_error e;
             result = simple_result (if uncertain then Unknown else NotExecuted)
                        (if uncertain then (if token \<noteq> None then ''ledger_failure'' else ''ledger_unavailable'')
                         else exn_name e) False False
         in thenS
              (case token of
                 None \<Rightarrow> retS ()
               | Some t \<Rightarrow>
                   tryS (fail_step P cid t ''ledger_failure'')
                     (\<lambda>e'. if is_exception e' then retS () else raiseS e') (\<lambda>_. retS ()))
              (bindS (liftS (validate_envelope
                  (error_envelope cid (Some (PWrite result)) (exn_name e) (short_msg e)))) (\<lambda>reply.
                 retS (result, reply)))))))"

definition handle :: "'e publisher \<Rightarrow> act_payload message \<Rightarrow> ('e pub_state, act_payload nats_envelope) act" where
  "handle P msg =
     thenS (putS (\<lambda>w. w\<lparr>lv_cid := ''UNKNOWN'', lv_token := None, lv_req := None, lv_initiated := False\<rparr>))
       (bindS (tryS (handle_body P msg) (handle_error P) retS) (\<lambda>(result, reply).
        bindS (getS lv_req) (\<lambda>req.
        bindS (getS lv_token) (\<lambda>token.
          thenS (case req of
                   None \<Rightarrow> retS ()
                 | Some r \<Rightarrow> record_command P ''writer_result'' r (result_doc token result))
            (retS reply)))))"

text \<open>Start-up: the configuration is loaded and the ledger recovered before any message.\<close>

definition start_publisher ::
  "'e publisher \<Rightarrow> string \<Rightarrow> string \<Rightarrow> node_list \<Rightarrow> mapping_entry list \<Rightarrow> (string \<times> native_target) list
   \<Rightarrow> (string \<Rightarrow> real) \<Rightarrow> ('e pub_state, 'e publisher) act" where
  "start_publisher P ent sit nl mappings natives kept =
     bindS (liftS (require_key (pu_key P))) (\<lambda>_.
     bindS (liftS (load_write_targets ent sit nl mappings Map.empty)) (\<lambda>targets.
     bindS (liftS (load_native_targets natives Map.empty)) (\<lambda>native.
     bindS (read_clock P) (\<lambda>t.
     thenS (transact P (\<lambda>led. (ledger_recover kept (secs t) led, Inr ())))
       (thenS (putS (\<lambda>w. w\<lparr>ps_open := True\<rparr>))
         (retS (P\<lparr>pu_targets := targets, pu_native := native\<rparr>)))))))"


section \<open>One execution per command\<close>

text \<open>Tokens are fresh: \<open>used\<close> are the tokens an environment has given out.\<close>

definition fresh_tokens :: "('e \<Rightarrow> string set) \<Rightarrow> 'e platform \<Rightarrow> bool" where
  "fresh_tokens used F \<longleftrightarrow>
     (\<forall>e. fst (pf_token F e) \<notin> used e \<and> insert (fst (pf_token F e)) (used e) \<subseteq> used (snd (pf_token F e)) \<and>
          used e \<subseteq> used (snd (pf_tick F e)) \<and> used e \<subseteq> used (snd (pf_db F e)) \<and>
          used e \<subseteq> used (snd (pf_journal F e)))"

text \<open>The wall clock is never set back.\<close>

definition steady :: "'e platform \<Rightarrow> bool" where
  "steady F \<longleftrightarrow> (\<forall>e. 0 \<le> fst (pf_tick F e))"

lemma steadyD: "steady F \<Longrightarrow> pf_tick F e = (d, e') \<Longrightarrow> 0 \<le> d"
  by (metis fst_conv steady_def)

definition cmd_deadline :: "actuation_request \<Rightarrow> real" where
  "cmd_deadline r = (case ar_deadline r of None \<Rightarrow> 0 | Some d \<Rightarrow> timestamp d)"

text \<open>
  A claim may be granted: the digest is the command's, and the approval that came with the command
  was verified at a reading of the clock.
\<close>

definition approved_by :: "'e publisher \<Rightarrow> actuation_request \<Rightarrow> approved_write_request \<Rightarrow> int \<Rightarrow> bool" where
  "approved_by P m a t \<longleftrightarrow>
     aw_command a = m \<and>
     verify_evidence (pu_crypto P) (utc t) m (aw_approval a) (pu_key P) Approval (pu_writer P) False = Inr ()"

definition grantable :: "'e publisher \<Rightarrow> 'e pub_state \<Rightarrow> actuation_request \<Rightarrow> string \<Rightarrow> bool" where
  "grantable P w m d \<longleftrightarrow>
     command_digest (pu_crypto P) m = Inr d \<and>
     (\<exists>a \<in> set (ps_received w). \<exists>t \<le> ps_clock w. approved_by P m a t)"

lemma grantable_fields [simp]:
  "grantable P (w\<lparr>lv_cid := a\<rparr>) = grantable P w" "grantable P (w\<lparr>lv_token := b\<rparr>) = grantable P w"
  "grantable P (w\<lparr>lv_req := c\<rparr>) = grantable P w" "grantable P (w\<lparr>lv_initiated := d\<rparr>) = grantable P w"
  "grantable P (w\<lparr>ps_handled := f\<rparr>) = grantable P w" "grantable P (w\<lparr>ps_events := g\<rparr>) = grantable P w"
  "grantable P (w\<lparr>ps_open := h\<rparr>) = grantable P w" "grantable P (w\<lparr>ps_env := e\<rparr>) = grantable P w"
  "grantable P (w\<lparr>ps_ledger := l\<rparr>) = grantable P w" "grantable P (w\<lparr>ps_claims := k\<rparr>) = grantable P w"
  "grantable P (w\<lparr>ps_starts := t\<rparr>) = grantable P w"
  "grantable P (w\<lparr>ps_env := e, ps_clock := n\<rparr>) = grantable P (w\<lparr>ps_clock := n\<rparr>)"
  by (simp_all add: grantable_def fun_eq_iff)

lemma grantable_later:
  "grantable P w m d \<Longrightarrow> set (ps_received w) \<subseteq> set (ps_received w') \<Longrightarrow> ps_clock w \<le> ps_clock w' \<Longrightarrow> grantable P w' m d"
  unfolding grantable_def by (meson order_trans subsetD)

definition pub_inv :: "('e \<Rightarrow> string set) \<Rightarrow> 'e publisher \<Rightarrow> 'e pub_state \<Rightarrow> bool" where
  "pub_inv used P w \<longleftrightarrow>
     ledger_ok (ps_ledger w) \<and>
     history_ok ar_correlation_id cmd_deadline (secs (ps_clock w)) (ledger_view (ps_ledger w)) (ps_claims w) (ps_starts w) \<and>
     (\<lambda>(m, d, t). t) ` set (ps_claims w) \<subseteq> used (ps_env w) \<and>
     (\<forall>(m, d, t) \<in> set (ps_claims w). grantable P w m d)"

text \<open>The invariant together with the claims a handler holds.\<close>

definition pub_inv_with ::
  "('e \<Rightarrow> string set) \<Rightarrow> 'e publisher \<Rightarrow> (actuation_request \<times> string \<times> string) set \<Rightarrow> 'e pub_state \<Rightarrow> bool" where
  "pub_inv_with used P H w \<longleftrightarrow> pub_inv used P w \<and> H \<subseteq> set (ps_claims w)"

definition publisher_env_ok :: "('e \<Rightarrow> string set) \<Rightarrow> 'e publisher \<Rightarrow> bool" where
  "publisher_env_ok used P \<longleftrightarrow>
     fresh_tokens used (pu_platform P) \<and> steady (pu_platform P) \<and>
     (\<forall>H. native_env_keeps (pub_inv_with used P H) (pu_env P) \<and>
        (\<forall>t. let c = pu_opcua P t; I = pub_inv_with used P H in
           keeps I (oc_open c) \<and> (\<forall>n. keeps I (oc_namespace c n)) \<and> (\<forall>p. keeps I (oc_child c p)) \<and>
           (\<forall>p v. keeps I (oc_write c p v)) \<and> keeps I (oc_close c)))"

lemma pub_inv_locals [simp]:
  "pub_inv_with used P H (w\<lparr>lv_cid := a\<rparr>) = pub_inv_with used P H w"
  "pub_inv_with used P H (w\<lparr>lv_token := b\<rparr>) = pub_inv_with used P H w"
  "pub_inv_with used P H (w\<lparr>lv_req := c\<rparr>) = pub_inv_with used P H w"
  "pub_inv_with used P H (w\<lparr>lv_initiated := d\<rparr>) = pub_inv_with used P H w"
  "pub_inv_with used P H (w\<lparr>ps_handled := f\<rparr>) = pub_inv_with used P H w"
  "pub_inv_with used P H (w\<lparr>ps_events := g\<rparr>) = pub_inv_with used P H w"
  "pub_inv_with used P H (w\<lparr>ps_open := h\<rparr>) = pub_inv_with used P H w"
  by (simp_all add: pub_inv_with_def pub_inv_def)

lemma pub_inv_clock:
  "pub_inv_with used P H w \<Longrightarrow> used (ps_env w) \<subseteq> used e \<Longrightarrow> ps_clock w \<le> t \<Longrightarrow>
     pub_inv_with used P H (w\<lparr>ps_env := e, ps_clock := t\<rparr>)"
  by (auto simp: pub_inv_with_def pub_inv_def intro: history_time grantable_later)

lemma pub_inv_received:
  "pub_inv_with used P H w \<Longrightarrow> pub_inv_with used P H (w\<lparr>lv_req := q, ps_received := a # ps_received w\<rparr>)"
  by (auto simp: pub_inv_with_def pub_inv_def intro: grantable_later)

lemma read_clock_keeps [edge_intros]:
  assumes "publisher_env_ok used P" shows "keeps (pub_inv_with used P H) (read_clock P)"
proof -
  have s: "steady (pu_platform P)" and u: "\<And>e. used e \<subseteq> used (snd (pf_tick (pu_platform P) e))"
    using assms by (auto simp: publisher_env_ok_def fresh_tokens_def)
  have "pub_inv_with used P H (w\<lparr>ps_env := e, ps_clock := ps_clock w + d\<rparr>)"
    if "pub_inv_with used P H w" "pf_tick (pu_platform P) (ps_env w) = (d, e)" for w d e
    using that u [of "ps_env w"] steadyD [OF s that(2)] by (intro pub_inv_clock) auto
  then show ?thesis by (auto simp: keeps_def read_clock_def split: prod.splits)
qed

lemma verify_at_keeps [edge_intros]:
  "publisher_env_ok used P \<Longrightarrow> keeps (pub_inv_with used P H) (verify_at P a ae)"
  unfolding verify_at_def by (intro edge_intros)

lemma pub_inv_env: "pub_inv_with used P H w \<Longrightarrow> used (ps_env w) \<subseteq> used e \<Longrightarrow> pub_inv_with used P H (w\<lparr>ps_env := e\<rparr>)"
  by (auto simp: pub_inv_with_def pub_inv_def)

lemma record_command_keeps [edge_intros]:
  assumes "publisher_env_ok used P" shows "keeps (pub_inv_with used P H) (record_command P act req ev)"
proof -
  have "used e \<subseteq> used (snd (pf_journal (pu_platform P) e))" for e
    using assms by (auto simp: publisher_env_ok_def fresh_tokens_def)
  then show ?thesis
    by (auto simp: keeps_def record_command_def Let_def split: prod.splits option.splits intro!: pub_inv_env)
      (metis snd_conv subsetD)+
qed

text \<open>A transaction whose operation obeys the contract keeps the invariant, the clock being read before it.\<close>

lemma timed_transact_keeps:
  assumes ok: "publisher_env_ok used P"
    and op: "\<And>t led led' r c. ledger_ok led \<Longrightarrow> op t led = (led', r) \<Longrightarrow>
      ledger_ok led' \<and> evolves (secs t) (ledger_view led c) (ledger_view led' c)"
  shows "keeps (pub_inv_with used P H) (bindS (read_clock P) (\<lambda>t. transact P (op t)))"
  unfolding keeps_def
proof (intro allI impI)
  fix w assume I: "pub_inv_with used P H w"
  obtain d e where t: "pf_tick (pu_platform P) (ps_env w) = (d, e)" by fastforce
  let ?t = "ps_clock w + d"
  let ?w = "w\<lparr>ps_env := e, ps_clock := ?t\<rparr>"
  have "read_clock P w = (?w, Inr ?t)" by (simp add: read_clock_def t)
  then have w: "pub_inv_with used P H ?w" using I keepsD [OF read_clock_keeps [OF ok]] by blast
  obtain f e' where db: "pf_db (pu_platform P) e = (f, e')" by fastforce
  have u: "used e \<subseteq> used e'"
    using ok db by (auto simp: publisher_env_ok_def fresh_tokens_def) (metis snd_conv subsetD)
  obtain led r where o1: "op ?t (ps_ledger w) = (led, r)" by fastforce
  have "bindS (read_clock P) (\<lambda>t. transact P (op t)) w = transact P (op ?t) ?w"
    by (simp add: bindS_def read_clock_def t)
  also have "\<dots> = (case f of Some ex \<Rightarrow> (?w\<lparr>ps_env := e'\<rparr>, Inl ex)
      | None \<Rightarrow> (?w\<lparr>ps_env := e', ps_ledger := led\<rparr>, r))"
    by (simp add: transact_def db o1 split: option.splits)
  finally have run: "bindS (read_clock P) (\<lambda>t. transact P (op t)) w = \<dots>" .
  have l: "ledger_ok (ps_ledger w)" using I by (simp add: pub_inv_with_def pub_inv_def)
  note law = op [OF l o1]
  have "history_ok ar_correlation_id cmd_deadline (secs ?t) (ledger_view led) (ps_claims w) (ps_starts w)"
  proof (rule history_evolves)
    show "history_ok ar_correlation_id cmd_deadline (secs ?t) (ledger_view (ps_ledger w)) (ps_claims w) (ps_starts w)"
      using w by (simp add: pub_inv_with_def pub_inv_def)
  qed (use law in blast)
  then show "pub_inv_with used P H (fst (bindS (read_clock P) (\<lambda>t. transact P (op t)) w))"
    unfolding run using w u law
    by (auto simp: pub_inv_with_def pub_inv_def split: option.splits)
qed

lemma lookup_step_keeps [edge_intros]:
  "publisher_env_ok used P \<Longrightarrow> keeps (pub_inv_with used P H) (lookup_step P cid d)"
  unfolding lookup_step_def by (erule timed_transact_keeps, erule command_ledger.lookup_law, assumption)

lemma fail_step_keeps [edge_intros]:
  "publisher_env_ok used P \<Longrightarrow> keeps (pub_inv_with used P H) (fail_step P cid tok why)"
  unfolding fail_step_def by (erule timed_transact_keeps, erule command_ledger.giveup_law, assumption)

lemma complete_step_keeps [edge_intros]:
  "publisher_env_ok used P \<Longrightarrow> keeps (pub_inv_with used P H) (complete_step P cid tok t)"
  unfolding complete_step_def by (erule timed_transact_keeps, erule command_ledger.finish_law, assumption)

lemma recover_step_keeps [edge_intros]:
  "publisher_env_ok used P \<Longrightarrow>
     keeps (pub_inv_with used P H) (bindS (read_clock P) (\<lambda>t. transact P (\<lambda>led. (ledger_recover kept (secs t) led, Inr ()))))"
  by (rule timed_transact_keeps) (auto dest: command_ledger.restart_law)


lemma clock_run:
  assumes "publisher_env_ok used P" "pub_inv_with used P H w"
  obtains w' t where "read_clock P w = (w', Inr t)" "pub_inv_with used P H w'" "ps_clock w' = t"
    "ps_clock w \<le> t" "ps_ledger w' = ps_ledger w" "ps_claims w' = ps_claims w" "ps_starts w' = ps_starts w"
    "ps_received w' = ps_received w"
proof -
  obtain d e where t: "pf_tick (pu_platform P) (ps_env w) = (d, e)" by fastforce
  have "pub_inv_with used P H (fst (read_clock P w))"
    using read_clock_keeps [OF assms(1)] assms(2) by (simp add: keeps_def)
  moreover have "0 \<le> d" using assms(1) t steadyD by (auto simp: publisher_env_ok_def)
  ultimately show thesis
    using t by (intro that [of "w\<lparr>ps_env := e, ps_clock := ps_clock w + d\<rparr>" "ps_clock w + d"])
      (simp_all add: read_clock_def)
qed

lemma token_run:
  assumes "publisher_env_ok used P" "pub_inv_with used P H w" "pf_token (pu_platform P) (ps_env w) = (tok, e)"
  shows "pub_inv_with used P H (w\<lparr>ps_env := e\<rparr>) \<and> tok \<in> used e \<and>
    tok \<notin> (\<lambda>(m, d, t). t) ` set (ps_claims w)"
proof -
  have "tok \<notin> used (ps_env w)" "insert tok (used (ps_env w)) \<subseteq> used e"
    using assms(1,3) by (auto simp: publisher_env_ok_def fresh_tokens_def) (metis fst_conv snd_conv subsetD insertI2)+
  then show ?thesis
    using assms(2) pub_inv_env [OF assms(2), of e] by (auto simp: pub_inv_with_def pub_inv_def)
qed

text \<open>A granted claim enters the history.\<close>

lemma claim_step_keeps:
  assumes ok: "publisher_env_ok used P" and dig: "grantable P w req digest"
    and I: "pub_inv_with used P H w"
    and run: "claim_step P req digest (cmd_deadline req) w = (w', r)"
  shows "pub_inv_with used P H w' \<and>
    (\<forall>c t. r = Inr c \<and> cl_token c = Some t \<longrightarrow> pub_inv_with used P (insert (req, digest, t) H) w')"
proof -
  obtain w1 t1 where 1: "read_clock P w = (w1, Inr t1)" "pub_inv_with used P H w1" "ps_clock w1 = t1"
      "ps_clock w \<le> t1" "ps_received w1 = ps_received w"
    using clock_run [OF ok I] by metis
  obtain w2 t2 where 2: "read_clock P w1 = (w2, Inr t2)" "pub_inv_with used P H w2" "ps_clock w2 = t2"
      "t1 \<le> t2" "ps_ledger w2 = ps_ledger w1"
      "ps_claims w2 = ps_claims w1" "ps_starts w2 = ps_starts w1" "ps_received w2 = ps_received w1"
    using clock_run [OF ok 1(2)] 1(3) by metis
  have g2: "grantable P w2 req digest" using grantable_later [OF dig, of w2] 1 2 by simp
  obtain tok e where 3: "pf_token (pu_platform P) (ps_env w2) = (tok, e)" by fastforce
  let ?w3 = "w2\<lparr>ps_env := e\<rparr>"
  note T = token_run [OF ok 2(2) 3]
  obtain f e' where db: "pf_db (pu_platform P) e = (f, e')" by fastforce
  have u: "used e \<subseteq> used e'"
    using ok db by (auto simp: publisher_env_ok_def fresh_tokens_def) (metis snd_conv subsetD)
  obtain led cr where cl: "ledger_claim_cmd (secs t1) (secs t2) tok (ar_correlation_id req) digest
      (cmd_deadline req) (ps_ledger w1) = (led, cr)" by fastforce
  have run': "claim_step P req digest (cmd_deadline req) w =
      (case f of Some ex \<Rightarrow> (?w3\<lparr>ps_env := e'\<rparr>, Inl ex)
       | None \<Rightarrow> (case cr of
             Inl ex \<Rightarrow> (?w3\<lparr>ps_env := e', ps_ledger := led\<rparr>, Inl ex)
           | Inr c \<Rightarrow> (note_claim req digest c (?w3\<lparr>ps_env := e', ps_ledger := led\<rparr>), Inr c)))"
    by (cases f; cases cr) (simp_all add: claim_step_def bindS_def 1 2 3 transact_def db cl putS_def)
  have inv1: "ledger_ok (ps_ledger w1)"
    and h1: "history_ok ar_correlation_id cmd_deadline (secs t1) (ledger_view (ps_ledger w1)) (ps_claims w1) (ps_starts w1)"
    using 1(2,3) by (auto simp: pub_inv_with_def pub_inv_def)
  have I3: "pub_inv_with used P H (?w3\<lparr>ps_env := e'\<rparr>)" using pub_inv_env [of used P H ?w3] T u by simp
  show ?thesis
  proof (cases f)
    case (Some ex)
    with run run' have "w' = ?w3\<lparr>ps_env := e'\<rparr>" "r = Inl ex" by simp_all
    with I3 show ?thesis by simp
  next
    case None
    show ?thesis
    proof (cases "\<exists>x t. cr = Inr x \<and> cl_token x = Some t")
      case False
      then have law: "ledger_ok led \<and> (\<forall>c. evolves (secs t1) (ledger_view (ps_ledger w1) c) (ledger_view led c))"
        using command_ledger.refuse_law [OF inv1 cl] by (cases cr) auto
      then have "history_ok ar_correlation_id cmd_deadline (secs t1) (ledger_view led) (ps_claims w1) (ps_starts w1)"
        using history_evolves [OF h1] by blast
      then have h2: "history_ok ar_correlation_id cmd_deadline (secs t2) (ledger_view led) (ps_claims w1) (ps_starts w1)"
        by (rule history_time) (simp add: 2)
      have w': "w' = ?w3\<lparr>ps_env := e', ps_ledger := led\<rparr>"
        using run run' None False by (cases cr) (simp_all add: note_claim_def split: option.splits)
      have "\<nexists>c t. r = Inr c \<and> cl_token c = Some t"
        using run run' None False by (cases cr) simp_all
      moreover have "pub_inv_with used P H w'"
        using I3 h2 law 2(3,6,7) unfolding w' pub_inv_with_def pub_inv_def by simp
      ultimately show ?thesis by blast
    next
      case True
      then obtain x t where x: "cr = Inr x" "cl_token x = Some t" by blast
      have fresh: "tok \<notin> (\<lambda>(m, d, t). t) ` set (ps_claims w1)" using T 2 by simp
      note g = command_ledger.grant_history [OF h1 inv1 cl [unfolded x(1)] x(2) fresh]
      have h2: "history_ok ar_correlation_id cmd_deadline (secs t2) (ledger_view led)
          ((req, digest, tok) # ps_claims w1) (ps_starts w1)"
        by (rule history_time [OF conjunct2 [OF conjunct2 [OF g]]]) (simp add: 2)
      have w': "w' = ?w3\<lparr>ps_env := e', ps_ledger := led, ps_claims := (req, digest, tok) # ps_claims w1\<rparr>" "r = Inr x"
        using run run' None x g 2(6) by (simp_all add: note_claim_def)
      have "tok \<in> used e'" using T u by blast
      then have "pub_inv_with used P (insert (req, digest, tok) H) w'"
        using I3 h2 g 2(3,6,7) g2 unfolding w' pub_inv_with_def pub_inv_def by auto
      then show ?thesis using x w' g by (auto simp: pub_inv_with_def)
    qed
  qed
qed

text \<open>A start after a successful check of the deadline keeps the history.\<close>

lemma verified_mark_keeps:
  assumes ok: "publisher_env_ok used P" and held: "(aw_command a, digest, token) \<in> H" and I: "pub_inv_with used P H w"
  shows "pub_inv_with used P H (fst (thenS (verify_at P a False) (mark_step P (aw_command a) digest token) w))"
proof -
  obtain w1 t1 where 1: "read_clock P w = (w1, Inr t1)" "pub_inv_with used P H w1" "ps_clock w1 = t1"
    using clock_run [OF ok I] by metis
  let ?v = "verify_evidence (pu_crypto P) (utc t1) (aw_command a) (aw_approval a) (pu_key P) Approval (pu_writer P) False"
  have v: "verify_at P a False w = (w1, ?v)" by (simp add: verify_at_def bindS_def 1)
  show ?thesis
  proof (cases ?v)
    case (Inl e)
    then show ?thesis using 1 by (simp add: bindS_def v)
  next
    case (Inr u)
    then have time: "secs t1 \<le> cmd_deadline (aw_command a)"
      by (auto simp: verify_evidence_Inr cmd_deadline_def timestamp_def)
    obtain w2 t2 where 2: "read_clock P w1 = (w2, Inr t2)" "pub_inv_with used P H w2" "ps_clock w2 = t2"
        "t1 \<le> t2" "ps_ledger w2 = ps_ledger w1"
        "ps_claims w2 = ps_claims w1" "ps_starts w2 = ps_starts w1"
      using clock_run [OF ok 1(2)] 1(3) by metis
    obtain f e' where db: "pf_db (pu_platform P) (ps_env w2) = (f, e')" by fastforce
    have u: "used (ps_env w2) \<subseteq> used e'"
      using ok db by (auto simp: publisher_env_ok_def fresh_tokens_def) (metis snd_conv subsetD)
    obtain led mr where mk: "ledger_mark_started (secs t2) (ar_correlation_id (aw_command a)) token (ps_ledger w1) = (led, mr)"
      by fastforce
    have I2: "pub_inv_with used P H (w2\<lparr>ps_env := e'\<rparr>)" using pub_inv_env [OF 2(2) u] .
    have run: "fst (thenS (verify_at P a False) (mark_step P (aw_command a) digest token) w) =
        (case f of Some ex \<Rightarrow> w2\<lparr>ps_env := e'\<rparr>
         | None \<Rightarrow> (case mr of Inl e \<Rightarrow> w2\<lparr>ps_env := e', ps_ledger := led\<rparr>
             | Inr _ \<Rightarrow> w2\<lparr>ps_env := e', ps_ledger := led, ps_starts := (aw_command a, digest, token) # ps_starts w1\<rparr>))"
      by (simp add: bindS_def v Inr mark_step_def 2 transact_def db mk putS_def split: option.splits sum.splits)
    show ?thesis
    proof (cases mr)
      case (Inl e)
      then have "led = ps_ledger w1" using command_ledger.mark_refuse mk by blast
      then have "w2\<lparr>ps_env := e', ps_ledger := led\<rparr> = w2\<lparr>ps_env := e'\<rparr>" using 2 by simp
      then show ?thesis unfolding run using I2 Inl by (simp split: option.splits)
    next
      case (Inr u')
      have "ledger_ok led \<and> history_ok ar_correlation_id cmd_deadline (secs t2) (ledger_view led) (ps_claims w1)
          ((aw_command a, digest, token) # ps_starts w1)"
      proof (rule command_ledger.start_history)
        show "history_ok ar_correlation_id cmd_deadline (secs t1) (ledger_view (ps_ledger w1)) (ps_claims w1) (ps_starts w1)"
          "ledger_ok (ps_ledger w1)" "(aw_command a, digest, token) \<in> set (ps_claims w1)"
          using 1 held by (auto simp: pub_inv_with_def pub_inv_def)
        show "secs t1 \<le> secs t2" using 2 by simp
        show "ledger_mark_started (secs t2) (ar_correlation_id (aw_command a)) token (ps_ledger w1) = (led, Inr ())"
          using mk Inr by simp
      qed (rule time)
      then show ?thesis unfolding run using I2 Inr 2 by (auto simp: pub_inv_with_def pub_inv_def split: option.splits)
    qed
  qed
qed

lemma before_write_keeps:
  assumes ok: "publisher_env_ok used P" and held: "(aw_command a, digest, token) \<in> H"
  shows "keeps (pub_inv_with used P H) (before_write P a digest token)"
proof -
  have 1: "keeps (pub_inv_with used P H) (thenS (verify_at P a False) (mark_step P (aw_command a) digest token))"
    unfolding keeps_def using verified_mark_keeps [OF ok held] by blast
  have 2: "keeps (pub_inv_with used P H) (putS (\<lambda>w. w\<lparr>lv_initiated := True\<rparr>))"
    by (rule keeps_putS) simp
  show ?thesis
    unfolding before_write_def bindS_assoc [symmetric, of "verify_at P a False"]
    by (intro edge_intros 1 2 ok)
qed

lemma write_opcua_value_keeps:
  assumes "keeps I (oc_open c)" "\<And>n. keeps I (oc_namespace c n)" "\<And>p. keeps I (oc_child c p)"
    "\<And>p v. keeps I (oc_write c p v)" "keeps I (oc_close c)" "keeps I bw"
  shows "keeps I (write_opcua_value c bw t v)"
  unfolding write_opcua_value_def withS_def Let_def by (intro edge_intros assms)

lemma execute_write_keeps:
  assumes ok: "publisher_env_ok used P" and held: "(aw_command a, digest, token) \<in> H"
  shows "keeps (pub_inv_with used P H) (execute_write P a digest token)"
proof -
  have E: "native_env_keeps (pub_inv_with used P H) (pu_env P)"
    using ok by (simp add: publisher_env_ok_def)
  have O1: "keeps (pub_inv_with used P H) (oc_open (pu_opcua P t))"
    "keeps (pub_inv_with used P H) (oc_namespace (pu_opcua P t) n)"
    "keeps (pub_inv_with used P H) (oc_child (pu_opcua P t) p)"
    "keeps (pub_inv_with used P H) (oc_write (pu_opcua P t) p v)"
    "keeps (pub_inv_with used P H) (oc_close (pu_opcua P t))" for t n p v
    using ok by (simp_all add: publisher_env_ok_def Let_def)
  note bw = before_write_keeps [OF ok held]
  show ?thesis
    unfolding execute_write_def Let_def
    by (intro keeps_option write_native_value_keeps write_opcua_value_keeps E O1 bw keeps_basic)
qed

lemma run_claim_keeps:
  assumes ok: "publisher_env_ok used P" and held: "(aw_command a, digest, token) \<in> H"
  shows "keeps (pub_inv_with used P H) (run_claim P a digest token)"
proof -
  have "keeps (pub_inv_with used P H) (putS (\<lambda>w. w\<lparr>lv_initiated := False\<rparr>))"
    by (rule keeps_putS) simp
  then show ?thesis
    unfolding run_claim_def Let_def
    by (intro edge_intros ok execute_write_keeps held)
qed

text \<open>
  \<open>leads I J m\<close>: from a state of \<open>I\<close> the operation ends in a state of \<open>J\<close>. The handler keeps the
  invariant because it holds the approved request it took off the bus while it verifies and claims.
\<close>

definition leads :: "('w \<Rightarrow> bool) \<Rightarrow> ('w \<Rightarrow> bool) \<Rightarrow> ('w, 'a) act \<Rightarrow> bool" where
  "leads I J m \<longleftrightarrow> (\<forall>w. I w \<longrightarrow> J (fst (m w)))"

lemma leads_step: "keeps I m \<Longrightarrow> (\<And>w. I w \<Longrightarrow> J w) \<Longrightarrow> (\<And>a. leads I J (f a)) \<Longrightarrow> leads I J (bindS m f)"
  unfolding keeps_def leads_def bindS_def by (auto split: prod.splits sum.splits)

lemma leads_try:
  "keeps I m \<Longrightarrow> (\<And>e. leads I J (h e)) \<Longrightarrow> (\<And>a. leads I J (k a)) \<Longrightarrow> leads I J (tryS m h k)"
  unfolding keeps_def leads_def tryS_def by (auto split: prod.splits sum.splits)

lemma leads_lift:
  "(\<And>w. I w \<Longrightarrow> J w) \<Longrightarrow> (\<And>a. r = Inr a \<Longrightarrow> leads I J (f a)) \<Longrightarrow> leads I J (bindS (liftS r) f)"
  by (cases r) (simp_all add: leads_def)

lemma leads_then: "leads I J m \<Longrightarrow> (\<And>a. keeps J (f a)) \<Longrightarrow> leads I J (bindS m f)"
  unfolding keeps_def leads_def bindS_def by (auto split: prod.splits sum.splits)

lemma leads_option: "leads I J m \<Longrightarrow> (\<And>a. leads I J (f a)) \<Longrightarrow> leads I J (case x of None \<Rightarrow> m | Some a \<Rightarrow> f a)"
  by (cases x) auto

lemma leads_keeps: "(\<And>w. I w \<Longrightarrow> J w) \<Longrightarrow> keeps J m \<Longrightarrow> leads I J m"
  by (simp add: leads_def keeps_def)

definition holding ::
  "('e \<Rightarrow> string set) \<Rightarrow> 'e publisher \<Rightarrow> (actuation_request \<times> string \<times> string) set \<Rightarrow> approved_write_request
   \<Rightarrow> 'e pub_state \<Rightarrow> bool" where
  "holding used P H a w \<longleftrightarrow> pub_inv_with used P H w \<and> a \<in> set (ps_received w)"

lemma holding_keeps:
  assumes "keeps (pub_inv_with used P H) m" "\<And>w. ps_received (fst (m w)) = ps_received w"
  shows "keeps (holding used P H a) m"
  using assms by (simp add: keeps_def holding_def)

lemma received_steps [simp]:
  "ps_received (fst (read_clock P w)) = ps_received w" "ps_received (fst (transact P op w)) = ps_received w"
  by (auto simp: read_clock_def transact_def split: prod.splits option.splits)

lemma received_bindS:
  "(\<And>w. ps_received (fst (m w)) = ps_received w) \<Longrightarrow> (\<And>a w. ps_received (fst (f a w)) = ps_received w) \<Longrightarrow>
     ps_received (fst (bindS m f w)) = ps_received w"
  unfolding bindS_def by (auto split: prod.splits sum.splits) (metis fst_conv)+

lemma holding_verify:
  assumes "publisher_env_ok used P" shows "keeps (holding used P H a) (verify_at P x ae)"
  by (rule holding_keeps [OF verify_at_keeps [OF assms]], unfold verify_at_def, rule received_bindS) simp_all

lemma holding_lookup:
  assumes "publisher_env_ok used P" shows "keeps (holding used P H a) (lookup_step P c d)"
  by (rule holding_keeps [OF lookup_step_keeps [OF assms]], unfold lookup_step_def, rule received_bindS) simp_all

lemma leads_receive:
  "leads (holding used P H a) J n \<Longrightarrow>
     leads (pub_inv_with used P H) J (thenS (putS (\<lambda>w. w\<lparr>lv_req := q, ps_received := a # ps_received w\<rparr>)) n)"
  using pub_inv_received by (fastforce simp: leads_def holding_def)

text \<open>What follows a successful verification may rely on it.\<close>

lemma verified_leads:
  assumes ok: "publisher_env_ok used P" and dig: "command_digest (pu_crypto P) (aw_command a) = Inr digest"
    and n: "\<And>w. pub_inv_with used P H w \<Longrightarrow> grantable P w (aw_command a) digest \<Longrightarrow> pub_inv_with used P H (fst (n w))"
  shows "leads (holding used P H a) (pub_inv_with used P H) (thenS (verify_at P a False) n)"
  unfolding leads_def
proof (intro allI impI)
  fix w assume "holding used P H a w"
  then have I: "pub_inv_with used P H w" and a: "a \<in> set (ps_received w)" by (simp_all add: holding_def)
  obtain w1 t1 where 1: "read_clock P w = (w1, Inr t1)" "pub_inv_with used P H w1" "ps_clock w1 = t1"
      "ps_received w1 = ps_received w"
    using clock_run [OF ok I] by metis
  let ?v = "verify_evidence (pu_crypto P) (utc t1) (aw_command a) (aw_approval a) (pu_key P) Approval (pu_writer P) False"
  have v: "verify_at P a False w = (w1, ?v)" by (simp add: verify_at_def bindS_def 1)
  show "pub_inv_with used P H (fst (thenS (verify_at P a False) n w))"
  proof (cases ?v)
    case (Inr u)
    then have "grantable P w1 (aw_command a) digest" using dig 1 a by (auto simp: grantable_def approved_by_def)
    then show ?thesis using n 1 Inr by (simp add: bindS_def v)
  qed (use 1 in \<open>simp add: bindS_def v\<close>)
qed

lemma admit_leads:
  assumes ok: "publisher_env_ok used P" and dig: "command_digest (pu_crypto P) (aw_command a) = Inr digest"
  shows "leads (holding used P H a) (pub_inv_with used P H) (admit P a digest)"
proof -
  have C: "pub_inv_with used P H (fst (tryS (claim_step P (aw_command a) digest (timestamp dl)) h
        (\<lambda>claim. thenS (putS (\<lambda>w. w\<lparr>lv_token := cl_token claim\<rparr>))
          (case cl_token claim of
             Some token \<Rightarrow> run_claim P a digest token
           | None \<Rightarrow> (case cl_result claim of None \<Rightarrow> raiseS AssertionError | Some result \<Rightarrow> retS result))) w))"
    if dl: "ar_deadline (aw_command a) = Some dl" and g: "grantable P w (aw_command a) digest"
      and h: "\<And>e. keeps (pub_inv_with used P H) (h e)" and I: "pub_inv_with used P H w" for dl h w
  proof -
    have d: "timestamp dl = cmd_deadline (aw_command a)" by (simp add: cmd_deadline_def dl)
    obtain w' r where r: "claim_step P (aw_command a) digest (cmd_deadline (aw_command a)) w = (w', r)" by fastforce
    note cs = claim_step_keeps [OF ok g I r]
    have "pub_inv_with used P H (fst (run_claim P a digest t (w'\<lparr>lv_token := Some t\<rparr>)))"
      if "r = Inr c" "cl_token c = Some t" for c t
    proof -
      have "pub_inv_with used P (insert (aw_command a, digest, t) H) (w'\<lparr>lv_token := Some t\<rparr>)"
        using cs that by simp
      then have "pub_inv_with used P (insert (aw_command a, digest, t) H) (fst (run_claim P a digest t (w'\<lparr>lv_token := Some t\<rparr>)))"
        using run_claim_keeps [OF ok, of a digest t "insert (aw_command a, digest, t) H"] by (simp add: keeps_def)
      then show ?thesis by (simp add: pub_inv_with_def)
    qed
    then show ?thesis
      using cs h unfolding d tryS_def r by (auto simp: keeps_def split: sum.splits option.splits)
  qed
  show ?thesis
    unfolding admit_def
    by (rule verified_leads [OF ok dig], cases "ar_deadline (aw_command a)") (simp_all add: C keeps_basic)
qed

lemma handle_body_keeps:
  assumes ok: "publisher_env_ok used P"
  shows "keeps (pub_inv_with used P H) (handle_body P msg)"
proof -
  let ?I = "pub_inv_with used P H"
  have put: "keeps ?I (putS (\<lambda>w. w\<lparr>lv_cid := c\<rparr>))" "keeps ?I (putS (\<lambda>w. w\<lparr>ps_handled := f w\<rparr>))" for c f
    by (rule keeps_putS, simp)+
  have weak: "holding used P H a w \<Longrightarrow> ?I w" for a w by (simp add: holding_def)
  have guard: "keeps (holding used P H a) (guardS b e)" "keeps (holding used P H a) (getS ps_open)" for a b e
    by (intro edge_intros)+
  have "leads ?I ?I (handle_body P msg)"
    unfolding handle_body_def Let_def
    apply (rule leads_lift, assumption)
    apply (rule leads_step [OF put(1)], assumption)
    apply (rule leads_lift, assumption)
    apply (rule leads_receive)
    apply (rule leads_step [OF guard(1) weak], assumption)
    apply (rule leads_step [OF holding_verify [OF ok] weak], assumption)
    apply (rule leads_step [OF guard(2) weak], assumption)
    apply (rule leads_step [OF guard(1) weak], assumption)
    apply (rule leads_lift, erule weak)
    apply (rule leads_try [OF holding_lookup [OF ok]])
     apply (rule leads_keeps, erule weak, rule keeps_basic)
    apply (rule leads_then)
     apply (rule leads_option)
      apply (erule admit_leads [OF ok])
     apply (simp add: admit_leads [OF ok] leads_keeps [OF weak] keeps_basic)
    apply (intro edge_intros put)
    done
  then show ?thesis by (simp add: leads_def keeps_def)
qed

lemma handle_keeps:
  assumes ok: "publisher_env_ok used P"
  shows "keeps (pub_inv_with used P H) (handle P msg)"
proof -
  let ?I = "pub_inv_with used P H"
  have put: "keeps ?I (putS (\<lambda>w. w\<lparr>ps_handled := f w\<rparr>))"
      "keeps ?I (putS (\<lambda>w. w\<lparr>lv_cid := c, lv_token := t, lv_req := q, lv_initiated := i\<rparr>))" for c q f t i
    by (rule keeps_putS, simp)+
  have err: "keeps ?I (handle_error P e)" for e
    unfolding handle_error_def Let_def
    by (rule put | rule edge_intros | rule ok)+
  show ?thesis
    unfolding handle_def
    by (rule put | rule handle_body_keeps [OF ok] | rule err | rule edge_intros | rule ok)+
qed

section \<open>Runs of the worker\<close>

lemma start_publisher_keeps:
  assumes ok: "publisher_env_ok used P"
  shows "keeps (pub_inv_with used P H) (start_publisher P ent sit nl mappings natives kept)"
proof -
  have "keeps (pub_inv_with used P H) (putS (\<lambda>w. w\<lparr>ps_open := True\<rparr>))" by (rule keeps_putS) simp
  note step = this recover_step_keeps [OF ok]
  have assoc: "bindS (read_clock P) (\<lambda>t. thenS (transact P (op t)) n) = thenS (bindS (read_clock P) (\<lambda>t. transact P (op t))) n"
    for op :: "int \<Rightarrow> command_ledger \<Rightarrow> command_ledger \<times> unit res" and n :: "('a pub_state, 'a publisher) act"
    by (simp add: bindS_assoc)
  show ?thesis
    unfolding start_publisher_def assoc by (intro keeps_bindS keeps_basic step)
qed

text \<open>
  A writer with an empty history and no execution in progress, and the states it reaches by
  handling messages and by restarts, which recover the ledger.
\<close>

definition fresh_publisher :: "'e pub_state \<Rightarrow> bool" where
  "fresh_publisher w \<longleftrightarrow>
     ledger_ok (ps_ledger w) \<and> ps_received w = [] \<and> ps_claims w = [] \<and> ps_starts w = [] \<and>
     (\<forall>c r. lg_rows (ps_ledger w) c = Some r \<longrightarrow> \<not> active r)"

inductive publisher_reach :: "'e publisher \<Rightarrow> 'e pub_state \<Rightarrow> 'e pub_state \<Rightarrow> bool" for P w0 where
  reach_start: "publisher_reach P w0 w0"
| reach_message: "publisher_reach P w0 w \<Longrightarrow> publisher_reach P w0 (fst (handle P msg w))"
| reach_restart: "publisher_reach P w0 w \<Longrightarrow>
    publisher_reach P w0 (fst (start_publisher P ent sit nl mappings natives kept w))"

lemma inactive_view: "\<not> active r \<Longrightarrow> fst (snd (row_view_of r)) \<in> {Finished, Retry}"
  by (cases "lr_state r") (simp_all add: active_def)

lemma fresh_publisher_inv: "fresh_publisher w \<Longrightarrow> pub_inv_with used P {} w"
  unfolding fresh_publisher_def pub_inv_with_def pub_inv_def
  using inactive_view by (fastforce intro!: history_empty simp: ledger_view_def simp del: row_view_of.simps)

lemma publisher_reach_inv:
  assumes "publisher_env_ok used P" "fresh_publisher w0" "publisher_reach P w0 w"
  shows "pub_inv used P w"
proof -
  from assms(3) have "pub_inv_with used P {} w"
  proof induction
    case reach_start
    show ?case using assms(2) by (rule fresh_publisher_inv)
  next
    case (reach_message w msg)
    then show ?case using handle_keeps [OF assms(1)] by (simp add: keeps_def)
  next
    case (reach_restart w ent sit nl mappings natives kept)
    then show ?case using start_publisher_keeps [OF assms(1)] by (simp add: keeps_def)
  qed
  then show ?thesis by (simp add: pub_inv_with_def)
qed

section \<open>An expired command\<close>

definition idle_since :: "int \<Rightarrow> actuation_request history \<Rightarrow> actuation_request history \<Rightarrow> 'e pub_state \<Rightarrow> bool" where
  "idle_since c claims starts w \<longleftrightarrow> c \<le> ps_clock w \<and> ps_claims w = claims \<and> ps_starts w = starts"

lemma idle_steps:
  "steady (pu_platform P) \<Longrightarrow> keeps (idle_since c cs ss) (read_clock P)" "keeps (idle_since c cs ss) (transact P op)"
  "keeps (idle_since c cs ss) (record_command P act req ev)"
  using steadyD [of "pu_platform P"]
  by (fastforce simp: keeps_def idle_since_def read_clock_def transact_def record_command_def Let_def
      split: prod.splits option.splits)+

lemma idle_admit:
  fixes P :: "'e publisher"
  assumes "ar_deadline (aw_command a) = Some dl" "dt_us dl < c" "steady (pu_platform P)"
  shows "keeps (idle_since c cs ss) (admit P a digest)"
  unfolding keeps_def
proof (intro allI impI)
  fix w :: "'e pub_state" assume I: "idle_since c cs ss w"
  obtain d e where "pf_tick (pu_platform P) (ps_env w) = (d, e)" by fastforce
  then obtain w1 t where r: "read_clock P w = (w1, Inr t)" "ps_clock w \<le> t"
    using steadyD [OF assms(3)] by (simp add: read_clock_def)
  have "idle_since c cs ss w1" using I r idle_steps(1) [OF assms(3), of c cs ss] by (metis fst_conv keeps_def)
  moreover have "dt_us dl < t" using I r assms(2) by (simp add: idle_since_def)
  then obtain e where "verify_at P a False w = (w1, Inl e)"
    using assms(1)
    by (cases "verify_evidence (pu_crypto P) (utc t) (aw_command a) (aw_approval a) (pu_key P) Approval (pu_writer P) False")
      (auto simp: verify_at_def bindS_def r verify_evidence_Inr)
  ultimately show "idle_since c cs ss (fst (admit P a digest w))" by (simp add: admit_def bindS_def)
qed

lemma idle_handle:
  assumes a: "ar_deadline (aw_command a) = Some dl" "dt_us dl < c" "steady (pu_platform P)"
    and m: "\<And>env. msg = Json env \<Longrightarrow> env_payload env = Some (PApproved a)"
  shows "keeps (idle_since c cs ss) (handle P msg)"
proof -
  have put: "keeps (idle_since c cs ss) (putS (\<lambda>w. w\<lparr>lv_cid := i\<rparr>))"
      "keeps (idle_since c cs ss) (putS (\<lambda>w. w\<lparr>lv_req := q, ps_received := l w\<rparr>))"
      "keeps (idle_since c cs ss) (putS (\<lambda>w. w\<lparr>ps_handled := f w\<rparr>))"
      "keeps (idle_since c cs ss) (putS (\<lambda>w. w\<lparr>lv_cid := i, lv_token := t, lv_req := q, lv_initiated := b\<rparr>))"
    for i q f t b l
    by (rule keeps_putS, simp add: idle_since_def)+
  have V: "keeps (idle_since c cs ss) (verify_at P x ae)" for x ae
    unfolding verify_at_def by (intro edge_intros idle_steps a)
  have L: "keeps (idle_since c cs ss) (lookup_step P i d)" "keeps (idle_since c cs ss) (fail_step P i t why)" for i d t why
    unfolding lookup_step_def fail_step_def by (intro edge_intros idle_steps a)+
  have A: "keeps (idle_since c cs ss) (bindS (liftS (validate_approved p)) f)"
    if "p = env_payload env" "read_envelope msg = Inr env" "keeps (idle_since c cs ss) (f a)" for p env f
    using that m by (cases "validate_approved p") (auto simp: keeps_basic read_envelope_Inr split: if_splits)
  have "keeps (idle_since c cs ss) (handle_body P msg)"
  proof (cases "read_envelope msg")
    case (Inl e)
    then show ?thesis by (simp add: handle_body_def keeps_basic)
  next
    case (Inr env)
    show ?thesis
      unfolding handle_body_def Inr bindS_simps Let_def
      by (intro keeps_bindS put A [OF refl Inr] V L idle_admit [OF a] edge_intros)
  qed
  moreover have "keeps (idle_since c cs ss) (handle_error P e)" for e
    unfolding handle_error_def Let_def by (intro edge_intros put L)
  ultimately show ?thesis
    unfolding handle_def by (intro edge_intros put idle_steps)
qed

section \<open>Replies\<close>

text \<open>
  The clients leave the handler's own correlation id and command alone. In an \<open>orderly\<close> platform
  the faults of the database are ordinary exceptions and the journal does not fail.
\<close>

definition locals_safe :: "'e publisher \<Rightarrow> bool" where
  "locals_safe P \<longleftrightarrow>
     (\<forall>c. native_env_keeps (\<lambda>w. (lv_cid w, lv_req w) = c) (pu_env P) \<and>
        (\<forall>t. let oc = pu_opcua P t; I = (\<lambda>w. (lv_cid w, lv_req w) = c) in
           keeps I (oc_open oc) \<and> (\<forall>n. keeps I (oc_namespace oc n)) \<and> (\<forall>p. keeps I (oc_child oc p)) \<and>
           (\<forall>p v. keeps I (oc_write oc p v)) \<and> keeps I (oc_close oc)))"

definition orderly :: "'e platform \<Rightarrow> bool" where
  "orderly F \<longleftrightarrow>
     (\<forall>e ex. (fst (pf_db F e) = Some ex \<longrightarrow> is_exception ex) \<and> fst (pf_journal F e) = None)"

lemma cid_steps:
  "keeps (\<lambda>w. (lv_cid w, lv_req w) = c) (read_clock P)" "keeps (\<lambda>w. (lv_cid w, lv_req w) = c) (transact P op)"
  "keeps (\<lambda>w. (lv_cid w, lv_req w) = c) (record_command P act req ev)"
  by (auto simp: keeps_def read_clock_def transact_def record_command_def Let_def split: prod.splits option.splits)

lemma cid_claim_step: "keeps (\<lambda>w. (lv_cid w, lv_req w) = c) (claim_step P req d dl)"
proof -
  have "keeps (\<lambda>w. (lv_cid w, lv_req w) = c) (\<lambda>w. case pf_token (pu_platform P) (ps_env w) of (tok, e) \<Rightarrow> (w\<lparr>ps_env := e\<rparr>, Inr tok))"
    by (auto simp: keeps_def split: prod.splits)
  moreover have "keeps (\<lambda>w. (lv_cid w, lv_req w) = c) (putS (note_claim req d cl))" for cl
    by (rule keeps_putS) (simp add: note_claim_def split: option.splits)
  ultimately show ?thesis unfolding claim_step_def by (intro keeps_bindS keeps_basic cid_steps)
qed

lemma cid_admit:
  assumes "locals_safe P" shows "keeps (\<lambda>w. (lv_cid w, lv_req w) = c) (admit P a d)"
proof -
  let ?I = "\<lambda>w. (lv_cid w, lv_req w) = c"
  have put: "keeps ?I (putS (\<lambda>w. w\<lparr>lv_token := t\<rparr>))" "keeps ?I (putS (\<lambda>w. w\<lparr>lv_initiated := b\<rparr>))"
      "keeps ?I (putS (\<lambda>w. w\<lparr>ps_starts := s w\<rparr>))" for t b s
    by (rule keeps_putS, simp)+
  have V: "keeps ?I (verify_at P x ae)" for x ae
    unfolding verify_at_def by (intro edge_intros cid_steps)
  have L: "keeps ?I (fail_step P i t why)" "keeps ?I (complete_step P i t n)" "keeps ?I (mark_step P q d t)" for i t why n q d
    unfolding fail_step_def complete_step_def mark_step_def by (intro edge_intros cid_steps put)+
  have bw: "keeps ?I (before_write P a d t)" for t
    unfolding before_write_def by (intro edge_intros V L put cid_steps)
  have E: "native_env_keeps ?I (pu_env P)" using assms unfolding locals_safe_def by blast
  have O1: "keeps ?I (oc_open (pu_opcua P t))" "keeps ?I (oc_namespace (pu_opcua P t) n)" "keeps ?I (oc_child (pu_opcua P t) p)"
    "keeps ?I (oc_write (pu_opcua P t) p v)" "keeps ?I (oc_close (pu_opcua P t))" for t n p v
    using assms unfolding locals_safe_def Let_def by blast+
  have X: "keeps ?I (execute_write P a d t)" for t
    unfolding execute_write_def Let_def
    by (intro keeps_option write_native_value_keeps write_opcua_value_keeps E O1 bw keeps_basic)
  show ?thesis
    unfolding admit_def run_claim_def Let_def
    by (intro edge_intros V L X put cid_steps cid_claim_step)
qed

lemma locals_handle_body:
  assumes "locals_safe P" "read_envelope msg = Inr env" "handle_body P msg w = (w', r)" "lv_req w = None"
  shows "lv_cid w' = env_correlation_id env \<and>
    (\<forall>q. lv_req w' = Some q \<longrightarrow> (\<exists>a. env_payload env = Some (PApproved a) \<and> q = aw_command a))"
proof (cases "validate_approved (env_payload env)")
  case (Inl e)
  then show ?thesis using assms by (auto simp: handle_body_def)
next
  case (Inr a)
  let ?I = "\<lambda>w. (lv_cid w, lv_req w) = (env_correlation_id env, Some (aw_command a))"
  have put: "keeps ?I (putS (\<lambda>w. w\<lparr>ps_handled := f w\<rparr>))" for f
    by (rule keeps_putS, simp)
  have V: "keeps ?I (verify_at P x ae)" for x ae
    unfolding verify_at_def by (intro edge_intros cid_steps)
  have L: "keeps ?I (lookup_step P i d)" for i d
    unfolding lookup_step_def by (intro edge_intros cid_steps)
  let ?cid = "putS (\<lambda>w. w\<lparr>lv_cid := env_correlation_id env\<rparr>) :: ('a pub_state, unit) act"
  let ?req = "putS (\<lambda>w. w\<lparr>lv_req := Some (aw_command a), ps_received := a # ps_received w\<rparr>) :: ('a pub_state, unit) act"
  have "\<exists>rest. handle_body P msg = thenS ?cid (thenS ?req rest) \<and> keeps ?I rest"
    unfolding handle_body_def assms(2) Inr bindS_simps Let_def
    by (intro exI conjI, rule refl) (intro edge_intros put V L cid_admit assms)
  then obtain rest where body: "handle_body P msg = thenS ?cid (thenS ?req rest)" and rest: "keeps ?I rest" by blast
  let ?w = "w\<lparr>lv_cid := env_correlation_id env, lv_req := Some (aw_command a), ps_received := a # ps_received w\<rparr>"
  have "?I (fst (rest ?w))" using rest by (simp add: keeps_def)
  moreover have "rest ?w = (w', r)" using assms(3) by (simp add: body)
  moreover have "env_payload env = Some (PApproved a)" using Inr by (simp add: validate_approved_Inr)
  ultimately show ?thesis by simp
qed

lemma body_replies:
  assumes "read_envelope msg = Inr env"
  shows "replies (\<lambda>(res, rep). rep = ok_envelope (env_correlation_id env) (Some (PWrite res))) (handle_body P msg)"
  unfolding handle_body_def assms bindS_simps Let_def
  by (intro replies_bindS replies_tryS replies_raiseS replies_retS) simp

text \<open>Why the journal may refuse a record: the requested value or the evidence is not finite, or a fault.\<close>

lemma record_command_fails:
  assumes "record_command P act req doc w = (w', Inl e)" "json_finite (JObj doc)"
  shows "e = not_compliant \<and> \<not> json_finite (json_of_value (ar_requested_value req)) \<or>
    (\<exists>x. fst (pf_journal (pu_platform P) x) = Some e)"
  using assms
  by (auto simp: record_command_def recordable_def Let_def split: if_splits prod.splits option.splits) (metis fst_conv)

lemma result_doc_finite: "json_finite (JObj (result_doc tok res))"
  by (cases tok; cases "wr_reason res"; cases "wr_written_at res") (simp_all add: result_doc_def outcome_doc_def opt_time_def)

lemma handle_error_replies:
  assumes "is_exception e" "is_valid_correlation_id (lv_cid w)" "handle_error P e w = (w', r)"
  shows "lv_req w' = lv_req w \<and>
    (r = Inl CancelledError \<or>
     (\<exists>res rep. r = Inr (res, rep) \<and> env_correlation_id rep = lv_cid w \<and>
        env_payload rep = Some (PWrite res) \<and> env_status rep = StError \<and> wr_outcome res \<in> {Unknown, NotExecuted}))"
proof -
  let ?w = "w\<lparr>ps_handled := ps_handled w @ [''error'']\<rparr>"
  show ?thesis
  proof (cases "lv_token w")
    case None
    then show ?thesis
      using assms by (cases "is_runtime_error e") (auto simp: handle_error_def simple_result_def Let_def)
  next
    case (Some t)
    obtain w1 r1 where f: "fail_step P (lv_cid w) t ''ledger_failure'' ?w = (w1, r1)" by fastforce
    have "keeps (\<lambda>v. (lv_cid v, lv_req v) = (lv_cid w, lv_req w)) (fail_step P (lv_cid w) t ''ledger_failure'')"
      unfolding fail_step_def by (intro edge_intros cid_steps)
    from keepsD [OF this _ f] have "lv_req w1 = lv_req w" by simp
    with f Some assms show ?thesis
      by (cases r1) (auto simp: handle_error_def simple_result_def bindS_def tryS_def Let_def is_exception_def split: if_splits)
  qed
qed

definition answers :: "act_payload nats_envelope \<Rightarrow> act_payload nats_envelope \<Rightarrow> bool" where
  "answers env rep \<longleftrightarrow> env_correlation_id rep = env_correlation_id env \<and>
     (\<exists>res. env_payload rep = Some (PWrite res) \<and> (env_status rep = StError \<longrightarrow> wr_outcome res \<in> {Unknown, NotExecuted}))"

lemma try_replies:
  assumes "locals_safe P" "read_envelope msg = Inr env" "lv_req w = None"
    "tryS (handle_body P msg) (handle_error P) retS w = (w', r)"
  shows "(\<forall>q. lv_req w' = Some q \<longrightarrow> (\<exists>a. env_payload env = Some (PApproved a) \<and> q = aw_command a)) \<and>
    (r = Inl CancelledError \<or> (\<exists>res rep. r = Inr (res, rep) \<and> answers env rep))"
proof -
  have valid: "is_valid_correlation_id (env_correlation_id env)" using assms(2) by (simp add: read_envelope_Inr)
  obtain w1 r1 where b: "handle_body P msg w = (w1, r1)" by fastforce
  note L = locals_handle_body [OF assms(1,2) b assms(3)]
  show ?thesis
  proof (cases r1)
    case (Inr x)
    then obtain res rep where x: "r1 = Inr (res, rep)" by (cases x) auto
    moreover have "rep = ok_envelope (env_correlation_id env) (Some (PWrite res))"
      using repliesD [OF body_replies [OF assms(2)]] b x by fastforce
    ultimately show ?thesis using L assms(4) by (auto simp: tryS_def b answers_def)
  next
    case (Inl e)
    then have h: "handle_error P e w1 = (w', r)" using assms(4) by (simp add: tryS_def b)
    show ?thesis
    proof (cases "is_exception e")
      case True
      from handle_error_replies [OF this _ h] L valid show ?thesis by (auto simp: answers_def)
    next
      case False
      with h L show ?thesis by (auto simp: handle_error_def is_exception_def)
    qed
  qed
qed

lemma handle_replies_aux:
  assumes "locals_safe P" "read_envelope msg = Inr env" "handle P msg w = (w', r)"
  shows "r = Inl CancelledError \<or> (\<exists>rep. r = Inr rep \<and> answers env rep) \<or>
    (\<exists>a e. env_payload env = Some (PApproved a) \<and> r = Inl e \<and>
       (e = not_compliant \<and> \<not> json_finite (json_of_value (ar_requested_value (aw_command a))) \<or>
        (\<exists>x. fst (pf_journal (pu_platform P) x) = Some e)))"
proof -
  let ?w = "w\<lparr>lv_cid := ''UNKNOWN'', lv_token := None, lv_req := None, lv_initiated := False\<rparr>"
  obtain w1 r1 where b: "tryS (handle_body P msg) (handle_error P) retS ?w = (w1, r1)" by fastforce
  have T: "(\<forall>q. lv_req w1 = Some q \<longrightarrow> (\<exists>a. env_payload env = Some (PApproved a) \<and> q = aw_command a)) \<and>
      (r1 = Inl CancelledError \<or> (\<exists>res rep. r1 = Inr (res, rep) \<and> answers env rep))"
    by (rule try_replies [OF assms(1,2) _ b]) simp
  show ?thesis
  proof (cases "r1 = Inl CancelledError")
    case True
    then show ?thesis using assms(3) b by (simp add: handle_def bindS_def)
  next
    case False
    then obtain res rep where r1: "r1 = Inr (res, rep)" "answers env rep" using T by blast
    show ?thesis
    proof (cases "lv_req w1")
      case None
      then show ?thesis using assms(3) b r1 by (auto simp: handle_def bindS_def)
    next
      case (Some q)
      obtain w2 r2 where rc: "record_command P ''writer_result'' q (result_doc (lv_token w1) res) w1 = (w2, r2)" by fastforce
      then have r: "r = (case r2 of Inl e \<Rightarrow> Inl e | Inr _ \<Rightarrow> Inr rep)"
        using assms(3) b r1 Some by (simp add: handle_def bindS_def split: sum.splits)
      show ?thesis
      proof (cases r2)
        case (Inl e)
        obtain a where a: "env_payload env = Some (PApproved a)" "q = aw_command a" using T Some by blast
        from record_command_fails [OF rc [unfolded Inl] result_doc_finite] a r Inl show ?thesis by auto
      qed (use r r1 in auto)
    qed
  qed
qed

text \<open>A command whose row is settled or in progress is answered from the ledger.\<close>

lemma handle_known_aux:
  assumes q: "orderly (pu_platform P)" "\<And>e. fst (pf_db (pu_platform P) e) = None" "\<And>e. fst (pf_tick (pu_platform P) e) \<le> n"
      "steady (pu_platform P)" "json_finite (json_of_value (ar_requested_value (aw_command a)))"
    and m: "msg = Json env" "is_valid_correlation_id (env_correlation_id env)" "env_payload env = Some (PApproved a)"
      "actuation_request_ok (aw_command a)" "ar_correlation_id (aw_command a) = env_correlation_id env"
    and v: "\<And>t. ps_clock w \<le> t \<Longrightarrow> verify_evidence (pu_crypto P) (utc t) (aw_command a) (aw_approval a) (pu_key P)
        Approval (pu_writer P) True = Inr ()"
    and d: "command_digest (pu_crypto P) (aw_command a) = Inr digest"
    and row: "ps_open w" "lg_rows (ps_ledger w) (env_correlation_id env) = Some x"
      "active x \<or> secs (ps_clock w + 2 * n) \<le> lr_keep_until x"
      "row_result x digest = Inr res" "\<not> wr_retryable res"
  shows "\<exists>w'. handle P msg w = (w', Inr (ok_envelope (env_correlation_id env) (Some (PWrite res)))) \<and>
    ps_starts w' = ps_starts w \<and> ps_claims w' = ps_claims w \<and> lg_rows (ps_ledger w') (env_correlation_id env) = Some x"
proof -
  let ?c = "env_correlation_id env"
  let ?w0 = "w\<lparr>lv_token := None, lv_initiated := False, lv_cid := ?c, lv_req := Some (aw_command a),
      ps_received := a # ps_received w\<rparr>"
  obtain d1 e1 where t1: "pf_tick (pu_platform P) (ps_env w) = (d1, e1)" by fastforce
  let ?w1 = "?w0\<lparr>ps_env := e1, ps_clock := ps_clock w + d1\<rparr>"
  have "0 \<le> d1" by (rule steadyD [OF q(4) t1])
  then have V: "verify_at P a True ?w0 = (?w1, Inr ())"
    using v by (simp add: verify_at_def bindS_def read_clock_def t1)
  obtain d2 e2 where t2: "pf_tick (pu_platform P) e1 = (d2, e2)" by fastforce
  obtain e3 where db: "pf_db (pu_platform P) e2 = (None, e3)" using q(2) by (metis prod.collapse)
  let ?t = "secs (ps_clock w + d1 + d2)"
  have "d1 \<le> n" "d2 \<le> n" using q(3) t1 t2 by (metis fst_conv)+
  then have "?t \<le> secs (ps_clock w + 2 * n)" by simp
  then have keep: "active x \<or> ?t \<le> lr_keep_until x" using row(3) by linarith
  let ?led = "(ps_ledger w)\<lparr>lg_rows := ledger_prune ?t (lg_rows (ps_ledger w))\<rparr>"
  have LL: "ledger_lookup ?t ?c digest (ps_ledger w) = (?led, Inr (Some res))"
    using ledger_prune_keep [of "lg_rows (ps_ledger w)" ?c x ?t, OF row(2) keep] row(4) by (simp add: ledger_lookup_def)
  let ?w2 = "?w1\<lparr>ps_env := e3, ps_clock := ps_clock w + d1 + d2, ps_ledger := ?led\<rparr>"
  have L: "lookup_step P ?c digest ?w1 = (?w2, Inr (Some res))"
    by (simp add: lookup_step_def bindS_def read_clock_def t2 transact_def db LL)
  let ?w3 = "?w2\<lparr>ps_handled := ps_handled w @ [outcome_str (wr_outcome res)]\<rparr>"
  have body: "handle_body P msg (w\<lparr>lv_cid := ''UNKNOWN'', lv_token := None, lv_req := None, lv_initiated := False\<rparr>) =
      (?w3, Inr (res, ok_envelope ?c (Some (PWrite res))))"
    using m(2-5) row
    by (simp add: handle_body_def m(1) bindS_eval(1) [of "verify_at P a True" ?w0, OF V] d tryS_def L Let_def)
  obtain e4 where j: "pf_journal (pu_platform P) e3 = (None, e4)"
    using q(1) by (metis orderly_def prod.collapse)
  have fin: "recordable \<lparr>ev_component = c, ev_action = x, ev_command = aw_command a, ev_evidence = result_doc t res\<rparr>" for c x t
    using q(5) result_doc_finite by (simp add: recordable_def)
  have "lg_rows ?led ?c = Some x" using ledger_prune_keep [of "lg_rows (ps_ledger w)" ?c x ?t, OF row(2) keep] by simp
  then show ?thesis
    by (simp add: handle_def tryS_def body bindS_def record_command_def j fin)
qed

section \<open>Properties\<close>

definition example_platform :: "nat platform" where
  "example_platform =
     \<lparr>pf_tick = (\<lambda>e. (1, e)), pf_db = (\<lambda>e. (None, e)), pf_journal = (\<lambda>e. (None, e)),
      pf_token = (\<lambda>e. (replicate e (CHR ''t''), Suc e))\<rparr>"

definition idle_modbus :: "nat pub_state modbus_client" where
  "idle_modbus =
     \<lparr>mb_connect = retS True, mb_read = (\<lambda>a n. retS (Some [0, 0])), mb_write = (\<lambda>a vs. retS (Some ())),
      mb_close = (\<lambda>w. w)\<rparr>"

definition idle_s7 :: "nat pub_state s7_client" where
  "idle_s7 =
     \<lparr>s7_connect = retS (), s7_read = (\<lambda>d a n. retS [0, 0, 0, 0]), s7_write = (\<lambda>d a bs. retS ()),
      s7_close = (\<lambda>w. w)\<rparr>"

definition idle_opcua :: "nat pub_state opcua_client" where
  "idle_opcua =
     \<lparr>oc_open = retS (), oc_namespace = (\<lambda>n. retS 2), oc_child = (\<lambda>p. retS ()), oc_write = (\<lambda>p v. retS ()),
      oc_close = retS ()\<rparr>"

definition idle_native :: "nat pub_state native_env" where
  "idle_native =
     \<lparr>ne_monotonic = retS 0, ne_sleep = retS (), ne_random = retS 0, ne_modbus = (\<lambda>_. idle_modbus),
      ne_s7 = (\<lambda>_. idle_s7)\<rparr>"

definition example_publisher :: "nat publisher" where
  "example_publisher =
     \<lparr>pu_platform = example_platform, pu_crypto = example_crypto, pu_key = replicate 32 (CHR ''k''),
      pu_writer = ''w'', pu_native = Map.empty,
      pu_targets = [''a/b/c/d/e/f/g'' \<mapsto> \<lparr>wt_browse_names = [''n''], wt_endpoint = ''opc'', wt_namespace_uri = ''u''\<rparr>],
      pu_env = idle_native, pu_opcua = (\<lambda>_. idle_opcua), pu_fuel = 0\<rparr>"

definition example_pub_state :: "nat pub_state" where
  "example_pub_state =
     \<lparr>ps_open = True, ps_ledger = \<lparr>lg_retention = 86400, lg_rows = Map.empty\<rparr>, ps_clock = 29, ps_received = [], ps_claims = [],
      ps_starts = [], ps_events = [], ps_handled = [], ps_env = 0, lv_cid = [], lv_token = None,
      lv_req = None, lv_initiated = False\<rparr>"

definition example_message :: "act_payload message" where
  "example_message = Json (ok_envelope (ar_correlation_id example_command)
     (Some (PApproved \<lparr>aw_command = example_command, aw_approval = example_evidence Approval ''w''\<rparr>)))"

definition example_after :: "nat pub_state" where
  "example_after = fst (handle example_publisher example_message example_pub_state)"

lemma idle_keeps:
  "native_env_keeps I idle_native"
  "keeps I (oc_open idle_opcua)" "keeps I (oc_namespace idle_opcua n)" "keeps I (oc_child idle_opcua p)"
  "keeps I (oc_write idle_opcua p v)" "keeps I (oc_close idle_opcua)"
  by (simp_all add: native_env_keeps_def idle_native_def idle_modbus_def idle_s7_def idle_opcua_def keeps_basic)

definition example_used :: "nat \<Rightarrow> string set" where
  "example_used e = (\<lambda>k. replicate k (CHR ''t'')) ` {..<e}"

lemma example_platform_fresh: "fresh_tokens example_used example_platform"
proof -
  have "replicate e (CHR ''t'') \<notin> example_used e" for e
    by (auto simp: example_used_def dest: arg_cong [where f = length])
  then show ?thesis by (auto simp: fresh_tokens_def example_platform_def) (auto simp: example_used_def)
qed

lemma example_platform_steady: "steady example_platform"
  by (simp add: steady_def example_platform_def)

lemma example_publisher_sel [simp]:
  "pu_platform example_publisher = example_platform" "pu_crypto example_publisher = example_crypto"
  "pu_key example_publisher = replicate 32 (CHR ''k'')" "pu_writer example_publisher = ''w''"
  "pu_env example_publisher = idle_native" "pu_opcua example_publisher = (\<lambda>_. idle_opcua)"
  by (simp_all only: example_publisher_def publisher.select_convs)

lemma idle_publisher_ok:
  "pu_platform P = example_platform \<Longrightarrow> pu_env P = idle_native \<Longrightarrow> pu_opcua P = (\<lambda>_. idle_opcua) \<Longrightarrow>
     publisher_env_ok example_used P \<and> locals_safe P"
  unfolding publisher_env_ok_def locals_safe_def Let_def by (simp add: example_platform_fresh example_platform_steady idle_keeps)

lemma example_publisher_ok:
  "publisher_env_ok example_used example_publisher" "locals_safe example_publisher"
  "publisher_env_ok example_used (example_publisher\<lparr>pu_targets := Map.empty\<rparr>)"
  using idle_publisher_ok [of example_publisher] idle_publisher_ok [of "example_publisher\<lparr>pu_targets := Map.empty\<rparr>"]
  by simp_all

lemma example_state_ok:
  "orderly (pu_platform example_publisher)" "fresh_publisher example_pub_state"
  by (simp_all add: orderly_def example_platform_def fresh_publisher_def
      example_pub_state_def ledger_ok_def rows_ok_def)

text \<open>
  C1. At most one execution: in every state a writer reaches by handling messages and restarting,
  whatever faults and device behaviour and however its clock advances, a command has been started
  under one token only. A repeated delivery, a retry or a restart never starts it again. (The clock
  must not be set back: the row of a command is kept until its retention has passed.)
\<close>

theorem command_started_once:
  assumes "publisher_env_ok used P" and "fresh_publisher w0" and "publisher_reach P w0 w"
    and "(req, d, t) \<in> set (ps_starts w)" and "(req, d', t') \<in> set (ps_starts w)"
  shows "d = d' \<and> t = t'"
proof -
  have inv: "pub_inv used P w" using publisher_reach_inv [OF assms(1-3)] .
  then have h: "history_ok ar_correlation_id cmd_deadline (secs (ps_clock w)) (ledger_view (ps_ledger w))
      (ps_claims w) (ps_starts w)" by (simp add: pub_inv_def)
  have "(req, d, t) \<in> set (ps_claims w)" "(req, d', t') \<in> set (ps_claims w)"
    using history_startD [OF h] assms(4,5) by blast+
  then have "grantable P w req d" "grantable P w req d'" using inv by (auto simp: pub_inv_def)
  then have "d = d'" by (simp add: grantable_def)
  with assms(4,5) history_once [OF h] show ?thesis by blast
qed

theorem command_started_once_witness:
  "\<exists>d d' t t'. (example_command, d, t) \<in> set (ps_starts example_after) \<and>
     (example_command, d', t') \<in> set (ps_starts example_after) \<and> d = d' \<and> t = t'"
proof -
  have s: "map (\<lambda>(m, d, t). t) (ps_starts example_after) = [[]]" "map fst (ps_starts example_after) = [example_command]"
    by code_simp+
  then obtain d where st: "ps_starts example_after = [(example_command, d, [])]" by (auto simp: map_eq_Cons_conv)
  have "publisher_reach example_publisher example_pub_state example_after"
    unfolding example_after_def by (intro reach_message reach_start)
  from command_started_once [OF example_publisher_ok(1) example_state_ok(2) this, of example_command d "[]" d "[]"] st
  show ?thesis by auto
qed

text \<open>
  C2. Every execution was approved: a started command has the digest it was claimed under, and among
  the approved requests the writer took off the bus there is one with this very command whose own
  approval passed the full check (signature, writer, role, validity, binding to the command) at a
  reading of the clock that was not after the command's deadline.
\<close>

theorem started_commands_approved:
  assumes "publisher_env_ok used P" and "fresh_publisher w0" and "publisher_reach P w0 w"
    and "(req, d, t) \<in> set (ps_starts w)"
  shows "command_digest (pu_crypto P) req = Inr d \<and>
    (\<exists>a \<in> set (ps_received w). \<exists>now \<le> ps_clock w. aw_command a = req \<and>
       verify_evidence (pu_crypto P) (utc now) req (aw_approval a) (pu_key P) Approval (pu_writer P) False = Inr () \<and>
       now \<le> dt_us (the (ar_deadline req)))"
proof -
  have inv: "pub_inv used P w" using publisher_reach_inv [OF assms(1-3)] .
  then have "(req, d, t) \<in> set (ps_claims w)" using history_startD assms(4) by (fastforce simp: pub_inv_def)
  then have "grantable P w req d" using inv by (auto simp: pub_inv_def)
  then show ?thesis by (fastforce simp: grantable_def approved_by_def verify_evidence_Inr)
qed

theorem started_commands_approved_witness:
  "\<exists>now \<le> ps_clock example_after. verify_evidence example_crypto (utc now) example_command (example_evidence Approval ''w'')
     (replicate 32 (CHR ''k'')) Approval ''w'' False = Inr ()"
proof -
  have "map fst (ps_starts example_after) = [example_command]" by code_simp
  then obtain d t where st: "(example_command, d, t) \<in> set (ps_starts example_after)" by (auto simp: map_eq_Cons_conv)
  have reach: "publisher_reach example_publisher example_pub_state example_after"
    unfolding example_after_def by (intro reach_message reach_start)
  have "map aw_approval (ps_received example_after) = [example_evidence Approval ''w'']" by code_simp
  then have "\<forall>a \<in> set (ps_received example_after). aw_approval a = example_evidence Approval ''w''" by (auto simp: map_eq_Cons_conv)
  with started_commands_approved [OF example_publisher_ok(1) example_state_ok(2) reach st]
  show ?thesis by auto
qed

text \<open>
  A command reported as retryable has not been started, as long as its deadline has not
  passed: giving it a new attempt cannot execute it twice.
\<close>

theorem retryable_never_started:
  assumes "publisher_env_ok used P" and "fresh_publisher w0" and "publisher_reach P w0 w"
    and "lg_rows (ps_ledger w) (ar_correlation_id req) = Some x" and "lr_state x = RetryableSt"
    and "secs (ps_clock w) \<le> cmd_deadline req"
  shows "\<nexists>d t. (req, d, t) \<in> set (ps_starts w)"
proof
  assume "\<exists>d t. (req, d, t) \<in> set (ps_starts w)"
  then obtain d t where st: "(req, d, t) \<in> set (ps_starts w)" by blast
  have "pub_inv used P w" using publisher_reach_inv [OF assms(1-3)] .
  then have h: "history_ok ar_correlation_id cmd_deadline (secs (ps_clock w)) (ledger_view (ps_ledger w))
      (ps_claims w) (ps_starts w)" by (simp add: pub_inv_def)
  show False using history_startD [OF h st] assms(4-6) by (auto simp: ledger_view_def)
qed

definition example_broken :: "nat pub_state" where
  "example_broken = fst (handle (example_publisher\<lparr>pu_targets := Map.empty\<rparr>) example_message example_pub_state)"

theorem retryable_never_started_witness:
  "\<nexists>d t. (example_command, d, t) \<in> set (ps_starts example_broken)"
proof -
  let ?P = "example_publisher\<lparr>pu_targets := Map.empty\<rparr>"
  have ok: "publisher_env_ok example_used ?P"
    by (rule example_publisher_ok(3))
  have r: "publisher_reach ?P example_pub_state example_broken"
    unfolding example_broken_def by (intro reach_message reach_start)
  have "map_option lr_state (lg_rows (ps_ledger example_broken) (ar_correlation_id example_command)) = Some RetryableSt"
    by code_simp
  then obtain x where x: "lg_rows (ps_ledger example_broken) (ar_correlation_id example_command) = Some x" "lr_state x = RetryableSt"
    by blast
  have "ps_clock example_broken \<le> 50" by code_simp
  then have "secs (ps_clock example_broken) \<le> cmd_deadline example_command"
    by (simp add: cmd_deadline_def example_command_def timestamp_def)
  from retryable_never_started [OF ok example_state_ok(2) r x this] show ?thesis .
qed

text \<open>
  An expired command is never executed: handling it grants no claim and commits no start,
  whatever the ledger holds and whatever the devices do.
\<close>

theorem expired_command_not_started:
  assumes "msg = Json env" and "env_payload env = Some (PApproved a)"
    and "ar_deadline (aw_command a) = Some dl" and "dt_us dl < ps_clock w" and "steady (pu_platform P)"
  shows "ps_starts (fst (handle P msg w)) = ps_starts w \<and> ps_claims (fst (handle P msg w)) = ps_claims w"
proof -
  have "idle_since (ps_clock w) (ps_claims w) (ps_starts w) w" by (simp add: idle_since_def)
  moreover have "keeps (idle_since (ps_clock w) (ps_claims w) (ps_starts w)) (handle P msg)"
    by (rule idle_handle [OF assms(3-5)]) (simp add: assms(1,2))
  ultimately show ?thesis by (simp add: keeps_def idle_since_def)
qed

theorem expired_command_not_started_witness:
  "ps_starts (fst (handle example_publisher example_message (example_pub_state\<lparr>ps_clock := 51\<rparr>))) = []"
  using expired_command_not_started [OF example_message_def envelope_sel(3), where dl = "utc 50"
      and w = "example_pub_state\<lparr>ps_clock := 51\<rparr>" and P = example_publisher]
  by (simp add: example_command_def example_pub_state_def steady_def example_platform_def)



text \<open>
  C5. A message that is not an envelope with a valid correlation id gets no reply at all: the error
  reply is built with the correlation id "UNKNOWN", which the envelope itself refuses.
\<close>

theorem unparsable_request_unanswered:
  assumes "read_envelope msg = Inl e" and "is_exception e"
  shows "\<exists>m. snd (handle P msg w) = Inl (ValidationError m)"
  using assms
  by (simp add: handle_def handle_body_def tryS_def bindS_def handle_error_def validate_envelope_def Let_def)

theorem unparsable_request_unanswered_witness:
  "\<exists>m. snd (handle example_publisher (Garbled ''x'') example_pub_state) = Inl (ValidationError m)"
  by (rule unparsable_request_unanswered [where e = "ValidationError ''x''"]) (simp_all add: is_exception_def)



end
