(* ===== verification/Source_Journal.thy ===== *)
theory Source_Journal
  imports Canonical_Json Effects
begin

text \<open>
  \<open>SourceJournal\<close> of \<open>eirvah_controls/recovery.py\<close>: the durable outbox of a device's inspection
  events, together with the device state and the log of its native effects. A commit is one
  transaction: when it raises, nothing changes. The journal implements a first-in first-out outbox,
  stated as the locale \<open>fifo_outbox\<close>. The readings of \<open>time.time()\<close> are arguments.
\<close>

section \<open>The journal\<close>

record source_event =
  ev_serial :: nat
  ev_id :: string
  ev_payload :: json
  ev_created :: real
  ev_received :: bool

text \<open>Rows in serial order; \<open>sj_meta\<close> counts events created, events received and boots.\<close>

record journal_meta =
  jm_db_id :: string
  jm_created :: int
  jm_received :: int
  jm_boots :: int

record source_journal =
  sj_capacity :: int
  sj_meta :: journal_meta
  sj_events :: "source_event list"
  sj_next_serial :: nat
  sj_state :: "json option"
  sj_effects :: "(real \<times> json) list"

text \<open>Opening a database that may exist already; \<open>uid\<close> is the fresh id.\<close>

definition journal_open :: "int \<Rightarrow> string \<Rightarrow> source_journal option \<Rightarrow> source_journal res" where
  "journal_open capacity uid stored =
     (if capacity < 1 then Inl (ValueError ''positive capacity required'')
      else (case stored of
              Some j \<Rightarrow> Inr (j\<lparr>sj_capacity := capacity\<rparr>)
            | None \<Rightarrow> Inr \<lparr>sj_capacity = capacity,
                sj_meta = \<lparr>jm_db_id = uid, jm_created = 0, jm_received = 0, jm_boots = 0\<rparr>,
                sj_events = [], sj_next_serial = 1, sj_state = None, sj_effects = []\<rparr>))"

definition boot :: "source_journal \<Rightarrow> source_journal \<times> int" where
  "boot j = (let j' = j\<lparr>sj_meta := (sj_meta j)\<lparr>jm_boots := jm_boots (sj_meta j) + 1\<rparr>\<rparr>
             in (j', jm_boots (sj_meta j')))"

definition pending_events :: "source_journal \<Rightarrow> source_event list" where
  "pending_events j = filter (\<lambda>e. \<not> ev_received e) (sj_events j)"

definition journal_pending :: "source_journal \<Rightarrow> int" where
  "journal_pending j = int (length (pending_events j))"

definition find_event :: "string \<Rightarrow> source_journal \<Rightarrow> source_event option" where
  "find_event i j = find (\<lambda>e. ev_id e = i) (sj_events j)"

text \<open>The event of a commit, inside its transaction.\<close>

definition insert_event :: "doc \<Rightarrow> real \<Rightarrow> (source_journal, unit) act" where
  "insert_event event now =
     bindS (liftS (bindE (dkey ''inspection_id'' event) as_str)) (\<lambda>identity.
     bindS (liftS (canonical (JObj event))) (\<lambda>body.
     bindS (getS (find_event identity)) (\<lambda>previous.
       case previous of
         Some e \<Rightarrow> guardS (ev_payload e = body) (ValueError ''immutable source event identity conflict'')
       | None \<Rightarrow>
           thenS (\<lambda>j. guardS (journal_pending j < sj_capacity j) (RuntimeError ''source outbox capacity reached'') j)
             (putS (\<lambda>j. j\<lparr>sj_events := sj_events j @ [\<lparr>ev_serial = sj_next_serial j, ev_id = identity,
                   ev_payload = body, ev_created = now, ev_received = False\<rparr>],
                 sj_next_serial := sj_next_serial j + 1,
                 sj_meta := (sj_meta j)\<lparr>jm_created := jm_created (sj_meta j) + 1\<rparr>\<rparr>)))))"

text \<open>\<open>with self.db\<close>: an exception rolls the transaction back.\<close>

definition transaction :: "('w, 'a) act \<Rightarrow> ('w, 'a) act" where
  "transaction m w = (case m w of (w', Inr a) \<Rightarrow> (w', Inr a) | (_, Inl e) \<Rightarrow> (w, Inl e))"

definition journal_commit :: "doc \<Rightarrow> doc option \<Rightarrow> doc option \<Rightarrow> real \<Rightarrow> (source_journal, unit) act" where
  "journal_commit state event effect now = transaction (
     thenS (case event of None \<Rightarrow> retS () | Some e \<Rightarrow> insert_event e now)
     (bindS (liftS (canonical (JObj state))) (\<lambda>s.
      thenS (putS (\<lambda>j. j\<lparr>sj_state := Some s\<rparr>))
      (thenS (case effect of
           None \<Rightarrow> retS ()
         | Some f \<Rightarrow> bindS (liftS (canonical (JObj f))) (\<lambda>b. putS (\<lambda>j. j\<lparr>sj_effects := sj_effects j @ [(now, b)]\<rparr>)))
        (putS (\<lambda>j. j\<lparr>sj_events := filter (\<lambda>e. \<not> (ev_received e \<and> ev_created e < now - 86400)) (sj_events j)\<rparr>))))))"

definition journal_state :: "source_journal \<Rightarrow> json option" where
  "journal_state j = sj_state j"

definition journal_head :: "source_journal \<Rightarrow> json option" where
  "journal_head j = (case pending_events j of [] \<Rightarrow> None | e # _ \<Rightarrow> Some (ev_payload e))"

definition journal_ack :: "string \<Rightarrow> source_journal \<Rightarrow> source_journal \<times> bool" where
  "journal_ack identity j =
     (case find_event identity j of
        None \<Rightarrow> (j, False)
      | Some e \<Rightarrow>
          (if ev_received e then j
           else j\<lparr>sj_events := map (\<lambda>e. if ev_id e = identity then e\<lparr>ev_received := True\<rparr> else e) (sj_events j),
                  sj_meta := (sj_meta j)\<lparr>jm_received := jm_received (sj_meta j) + 1\<rparr>\<rparr>, True))"

definition journal_stats :: "source_journal \<Rightarrow> string \<times> int \<times> int \<times> int \<times> int" where
  "journal_stats j =
     (let m = sj_meta j in (jm_db_id m, jm_created m, jm_received m, jm_boots m, journal_pending j))"

section \<open>A first-in first-out outbox\<close>

lemma filter_other_key [simp]: "k \<notin> f ` set xs \<Longrightarrow> filter (\<lambda>x. f x \<noteq> k) xs = xs"
  by (induction xs) auto

text \<open>
  What a producer relies on: an accepted event is queued last unless its id is known already, a
  refused one changes nothing, and an acknowledgement takes exactly its event out of the queue.
\<close>

locale fifo_outbox =
  fixes queue :: "'s \<Rightarrow> (string \<times> 'e) list"
    and ok :: "'s \<Rightarrow> bool"
    and entry :: "'d \<Rightarrow> string \<times> 'e"
    and put :: "'d \<Rightarrow> 's \<Rightarrow> 's \<times> unit res"
    and peek :: "'s \<Rightarrow> 'e option"
    and ack :: "string \<Rightarrow> 's \<Rightarrow> 's \<times> bool"
  assumes put_ok: "ok s \<Longrightarrow> put x s = (s', r) \<Longrightarrow> ok s'"
    and put_raises: "put x s = (s', Inl e) \<Longrightarrow> s' = s"
    and put_queues: "ok s \<Longrightarrow> put x s = (s', Inr ()) \<Longrightarrow> queue s' = queue s \<or> queue s' = queue s @ [entry x]"
    and peek_queue: "peek s = (case queue s of [] \<Rightarrow> None | x # _ \<Rightarrow> Some (snd x))"
    and ack_ok: "ok s \<Longrightarrow> ack i s = (s', b) \<Longrightarrow> ok s'"
    and ack_queue: "ok s \<Longrightarrow> ack i s = (s', b) \<Longrightarrow> queue s' = filter (\<lambda>x. fst x \<noteq> i) (queue s)"
    and queue_ids: "ok s \<Longrightarrow> distinct (map fst (queue s))"
begin

text \<open>A delivery takes the head and acknowledges it.\<close>

fun deliver :: "nat \<Rightarrow> 's \<Rightarrow> 's \<times> 'e list" where
  "deliver 0 s = (s, [])"
| "deliver (Suc n) s =
     (case queue s of
        [] \<Rightarrow> (s, [])
      | x # _ \<Rightarrow> (case deliver n (fst (ack (fst x) s)) of
                   (s', out) \<Rightarrow> (s', (case peek s of None \<Rightarrow> out | Some e \<Rightarrow> e # out))))"

fun put_all :: "'d list \<Rightarrow> 's \<Rightarrow> 's" where
  "put_all [] s = s"
| "put_all (x # xs) s = put_all xs (fst (put x s))"

lemma put_all_prefix: "ok s \<Longrightarrow> ok (put_all xs s) \<and> (\<exists>new. queue (put_all xs s) = queue s @ new \<and> set new \<subseteq> entry ` set xs)"
proof (induction xs arbitrary: s)
  case (Cons x xs)
  obtain s' r where p: "put x s = (s', r)" by fastforce
  have q: "queue s' = queue s \<or> queue s' = queue s @ [entry x]"
    using put_queues [OF Cons.prems, of x s'] put_raises [of x s s'] p by (cases r) auto
  have "ok s'" using put_ok [OF Cons.prems p] .
  from Cons.IH [OF this] q p show ?case by auto
qed simp

lemma ack_head:
  assumes "ok s" "queue s = x # xs" shows "queue (fst (ack (fst x) s)) = xs"
proof -
  obtain s' b where a: "ack (fst x) s = (s', b)" by fastforce
  have "fst x \<notin> fst ` set xs" using queue_ids [OF assms(1)] assms(2) by simp
  then have "filter (\<lambda>y. fst y \<noteq> fst x) xs = xs" by (rule filter_other_key)
  then show ?thesis using ack_queue [OF assms(1) a] assms(2) a by simp
qed

lemma deliver_fifo:
  "ok s \<Longrightarrow> ok (fst (deliver n s)) \<and> snd (deliver n s) = map snd (take n (queue s)) \<and>
     queue (fst (deliver n s)) = drop n (queue s)"
proof (induction n arbitrary: s)
  case (Suc n)
  show ?case
  proof (cases "queue s")
    case (Cons x xs)
    have "ok (fst (ack (fst x) s))" using ack_ok [OF Suc.prems] by (metis prod.collapse)
    moreover have "peek s = Some (snd x)" using peek_queue [of s] Cons by simp
    ultimately show ?thesis using Suc.IH [of "fst (ack (fst x) s)"] ack_head [OF Suc.prems Cons] Cons
      by (auto split: prod.splits)
  qed (use Suc.prems in simp)
qed simp

text \<open>What was queued is delivered first, then a selection of what was put, in its order.\<close>

lemma outbox_order:
  "ok s \<Longrightarrow> \<exists>new. set new \<subseteq> entry ` set xs \<and>
     snd (deliver n (put_all xs s)) = map snd (take n (queue s @ new))"
  using put_all_prefix [of s xs] deliver_fifo [of "put_all xs s" n] by (metis (no_types, lifting))

end

section \<open>The journal implements the outbox\<close>

definition journal_queue :: "source_journal \<Rightarrow> (string \<times> json) list" where
  "journal_queue j = map (\<lambda>e. (ev_id e, ev_payload e)) (pending_events j)"

definition journal_ok :: "source_journal \<Rightarrow> bool" where
  "journal_ok j \<longleftrightarrow>
     distinct (map ev_id (sj_events j)) \<and> sorted_wrt (<) (map ev_serial (sj_events j)) \<and>
     (\<forall>e \<in> set (sj_events j). ev_serial e < sj_next_serial j) \<and>
     jm_created (sj_meta j) = jm_received (sj_meta j) + journal_pending j \<and>
     0 \<le> jm_received (sj_meta j)"

lemma find_event_Some: "find_event i j = Some e \<Longrightarrow> e \<in> set (sj_events j) \<and> ev_id e = i"
  by (auto simp: find_event_def find_Some_iff)

lemma find_event_None: "find_event i j = None \<longleftrightarrow> (\<forall>e \<in> set (sj_events j). ev_id e \<noteq> i)"
  by (auto simp: find_event_def find_None_iff)

lemma insert_event_cases:
  assumes "insert_event event now j = (j', Inr ())"
  shows "\<exists>i body. dget ''inspection_id'' event = Some (JStr i) \<and> canonical (JObj event) = Inr body \<and>
    (j' = j \<and> (\<exists>e. find_event i j = Some e \<and> ev_payload e = body) \<or>
     find_event i j = None \<and> journal_pending j < sj_capacity j \<and>
     j' = j\<lparr>sj_events := sj_events j @ [\<lparr>ev_serial = sj_next_serial j, ev_id = i, ev_payload = body,
              ev_created = now, ev_received = False\<rparr>],
            sj_next_serial := sj_next_serial j + 1,
            sj_meta := (sj_meta j)\<lparr>jm_created := jm_created (sj_meta j) + 1\<rparr>\<rparr>)"
proof -
  obtain i body where i: "dkey ''inspection_id'' event = Inr (JStr i)" "canonical (JObj event) = Inr body"
    using assms by (auto simp: insert_event_def bindS_Inr_iff bindE_Inr_iff elim!: as_str.elims)
  then have "dget ''inspection_id'' event = Some (JStr i)"
    by (auto simp: dkey_def dget_def split: option.splits)
  moreover have "bindE (dkey ''inspection_id'' event) as_str = Inr i" using i by simp
  ultimately show ?thesis using assms i(2)
    by (cases "find_event i j") (auto simp: insert_event_def bindS_Inr_iff)
qed

lemma insert_event_ok:
  assumes "journal_ok j" "insert_event event now j = (j', Inr ())" shows "journal_ok j'"
  using insert_event_cases [OF assms(2)] assms(1)
  by (auto simp: journal_ok_def find_event_None journal_pending_def pending_events_def sorted_wrt_append less_Suc_eq)

lemma commit_cases:
  assumes "journal_commit state event effect now j = (j', r)"
  shows "(\<exists>e. r = Inl e \<and> j' = j) \<or>
    (\<exists>j1. r = Inr () \<and> (case event of None \<Rightarrow> j1 = j | Some e \<Rightarrow> insert_event e now j = (j1, Inr ())) \<and>
       sj_events j' = filter (\<lambda>e. \<not> (ev_received e \<and> ev_created e < now - 86400)) (sj_events j1) \<and>
       sj_meta j' = sj_meta j1 \<and> sj_next_serial j' = sj_next_serial j1 \<and> sj_capacity j' = sj_capacity j1)"
proof (cases r)
  case (Inl e)
  then show ?thesis using assms by (auto simp: journal_commit_def transaction_def split: prod.splits sum.splits)
next
  case (Inr u)
  let ?rest = "\<lambda>j1. bindS (liftS (canonical (JObj state))) (\<lambda>s.
      thenS (putS (\<lambda>j. j\<lparr>sj_state := Some s\<rparr>))
      (thenS (case effect of
           None \<Rightarrow> retS ()
         | Some f \<Rightarrow> bindS (liftS (canonical (JObj f))) (\<lambda>b. putS (\<lambda>j. j\<lparr>sj_effects := sj_effects j @ [(now, b)]\<rparr>)))
        (putS (\<lambda>j. j\<lparr>sj_events := filter (\<lambda>e. \<not> (ev_received e \<and> ev_created e < now - 86400)) (sj_events j)\<rparr>)))) j1"
  obtain j1 where 1: "(case event of None \<Rightarrow> retS () | Some e \<Rightarrow> insert_event e now) j = (j1, Inr ())"
      and 2: "?rest j1 = (j', Inr ())"
    using assms Inr
    by (auto simp: journal_commit_def transaction_def bindS_Inr_iff split: prod.splits sum.splits)
  have "sj_events j' = filter (\<lambda>e. \<not> (ev_received e \<and> ev_created e < now - 86400)) (sj_events j1) \<and>
       sj_meta j' = sj_meta j1 \<and> sj_next_serial j' = sj_next_serial j1 \<and> sj_capacity j' = sj_capacity j1"
    using 2 by (cases effect) (auto simp: bindS_Inr_iff)
  then show ?thesis using 1 Inr by (cases event) auto
qed

lemma expired_received:
  "filter (\<lambda>e. (ev_received e \<longrightarrow> \<not> ev_created e < t - 86400) \<and> \<not> ev_received e) es =
     filter (\<lambda>e. \<not> ev_received e) es"
  by (rule filter_cong) auto

lemma journal_commit_ok:
  assumes "journal_ok j" "journal_commit state event effect now j = (j', r)" shows "journal_ok j'"
proof -
  consider "j' = j" | j1 where "journal_ok j1"
      "sj_events j' = filter (\<lambda>e. \<not> (ev_received e \<and> ev_created e < now - 86400)) (sj_events j1)"
      "sj_meta j' = sj_meta j1" "sj_next_serial j' = sj_next_serial j1"
  proof (cases r)
    case (Inl e)
    then show ?thesis using that(1) commit_cases [OF assms(2)] by auto
  next
    case (Inr u)
    then obtain j1 where j1: "case event of None \<Rightarrow> j1 = j | Some e \<Rightarrow> insert_event e now j = (j1, Inr ())"
        "sj_events j' = filter (\<lambda>e. \<not> (ev_received e \<and> ev_created e < now - 86400)) (sj_events j1)"
        "sj_meta j' = sj_meta j1" "sj_next_serial j' = sj_next_serial j1"
      using commit_cases [OF assms(2)] by auto
    then have "journal_ok j1" using assms(1) insert_event_ok by (cases event) auto
    then show ?thesis using that(2) j1(2-4) by blast
  qed
  then show ?thesis
  proof cases
    case 2
    have "pending_events j' = pending_events j1" using 2(2) by (simp add: pending_events_def expired_received)
    with 2 show ?thesis
      unfolding journal_ok_def journal_pending_def
      by (auto simp: distinct_map_filter sorted_wrt_map intro: sorted_wrt_filter)
  qed (use assms(1) in simp)
qed

lemma commit_queue:
  assumes "journal_commit state event effect now j = (j', Inr ())"
  shows "journal_queue j' = journal_queue j \<or>
    (\<exists>e i body. event = Some e \<and> dget ''inspection_id'' e = Some (JStr i) \<and> canonical (JObj e) = Inr body \<and>
       journal_pending j < sj_capacity j \<and> journal_queue j' = journal_queue j @ [(i, body)])"
proof -
  obtain j1 where c: "case event of None \<Rightarrow> j1 = j | Some e \<Rightarrow> insert_event e now j = (j1, Inr ())"
      "sj_events j' = filter (\<lambda>e. \<not> (ev_received e \<and> ev_created e < now - 86400)) (sj_events j1) \<and>
       sj_meta j' = sj_meta j1 \<and> sj_next_serial j' = sj_next_serial j1 \<and> sj_capacity j' = sj_capacity j1"
    using commit_cases [OF assms] by auto
  have "journal_queue j' = journal_queue j1"
    using c(2) by (simp add: journal_queue_def pending_events_def expired_received)
  then show ?thesis using c(1)
    by (cases event) (auto dest!: insert_event_cases simp: journal_queue_def pending_events_def)
qed

lemma ack_pending:
  assumes "journal_ok j" "journal_ack i j = (j', b)"
  shows "pending_events j' = filter (\<lambda>e. ev_id e \<noteq> i) (pending_events j)"
proof (cases "find_event i j")
  case None
  then have "j' = j" using assms(2) by (simp add: journal_ack_def)
  moreover have "\<forall>e \<in> set (sj_events j). ev_id e \<noteq> i" using None by (simp add: find_event_None)
  ultimately show ?thesis by (auto simp: pending_events_def filter_filter intro!: filter_cong)
next
  case (Some e)
  note e = find_event_Some [OF Some]
  show ?thesis
  proof (cases "ev_received e")
    case True
    have "\<forall>x \<in> set (sj_events j). ev_id x = i \<longrightarrow> x = e"
      using assms(1) e by (auto simp: journal_ok_def distinct_map inj_on_def)
    then show ?thesis using assms(2) Some True
      by (auto simp: journal_ack_def pending_events_def filter_filter intro!: filter_cong)
  next
    case False
    have "filter (\<lambda>e. \<not> ev_received e) (map (\<lambda>e. if ev_id e = i then e\<lparr>ev_received := True\<rparr> else e) es) =
        filter (\<lambda>e. ev_id e \<noteq> i) (filter (\<lambda>e. \<not> ev_received e) es)" for es
      by (induction es) auto
    then show ?thesis using assms(2) Some False by (auto simp: journal_ack_def pending_events_def)
  qed
qed

lemma journal_ack_ok:
  assumes "journal_ok j" "journal_ack i j = (j', b)" shows "journal_ok j'"
proof (cases "j' = j")
  case False
  then obtain e where e: "find_event i j = Some e" "\<not> ev_received e"
      "sj_events j' = map (\<lambda>e. if ev_id e = i then e\<lparr>ev_received := True\<rparr> else e) (sj_events j)"
      "sj_next_serial j' = sj_next_serial j"
      "sj_meta j' = (sj_meta j)\<lparr>jm_received := jm_received (sj_meta j) + 1\<rparr>"
    using assms(2) by (auto simp: journal_ack_def split: option.splits if_splits)
  note f = find_event_Some [OF e(1)]
  have dist: "distinct (map ev_id (pending_events j))"
    using assms(1) by (simp add: journal_ok_def pending_events_def distinct_map_filter)
  have "length (filter (\<lambda>x. ev_id x \<noteq> ev_id e) es) + 1 = length es"
    if "distinct (map ev_id es)" "e \<in> set es" for es
    using that by (induction es) auto
  from this [OF dist] have "journal_pending j' + 1 = journal_pending j"
    using ack_pending [OF assms] f e(2) by (simp add: journal_pending_def pending_events_def)
  moreover have "map ev_id (sj_events j') = map ev_id (sj_events j)"
    "map ev_serial (sj_events j') = map ev_serial (sj_events j)"
    using e(3) by (simp_all add: comp_def if_distrib cong: if_cong)
  moreover have "\<forall>x \<in> set (sj_events j'). ev_serial x < sj_next_serial j'"
    using assms(1) e(3,4) by (auto simp: journal_ok_def)
  ultimately show ?thesis using assms(1) e(5) unfolding journal_ok_def by simp
qed (use assms in simp)

text \<open>One step of the producer: a commit of the new state with an event and an effect.\<close>

type_synonym commit_input = "doc \<times> doc option \<times> doc option \<times> real"

fun commit_entry :: "commit_input \<Rightarrow> string \<times> json" where
  "commit_entry (st, None, eff, now) = ([], JNull)"
| "commit_entry (st, Some e, eff, now) =
     (case dget ''inspection_id'' e of Some (JStr i) \<Rightarrow> (i, sorted_keys (JObj e)) | _ \<Rightarrow> ([], JNull))"

fun commit_step :: "commit_input \<Rightarrow> (source_journal, unit) act" where
  "commit_step (st, event, eff, now) = journal_commit st event eff now"

interpretation journal: fifo_outbox journal_queue journal_ok commit_entry commit_step journal_head journal_ack
proof
  fix j :: source_journal and x j' r
  assume "journal_ok j" "commit_step x j = (j', r)"
  then show "journal_ok j'" by (cases x) (auto intro: journal_commit_ok)
next
  fix j :: source_journal and x j' e
  assume "commit_step x j = (j', Inl e)"
  then show "j' = j" using commit_cases by (cases x) fastforce
next
  fix j :: source_journal and x j'
  assume "commit_step x j = (j', Inr ())"
  then show "journal_queue j' = journal_queue j \<or> journal_queue j' = journal_queue j @ [commit_entry x]"
    using commit_queue by (cases x) (fastforce simp: canonical_Inr simp del: sorted_keys.simps)
next
  fix j :: source_journal
  show "journal_head j = (case journal_queue j of [] \<Rightarrow> None | x # _ \<Rightarrow> Some (snd x))"
    by (simp add: journal_head_def journal_queue_def split: list.split)
next
  fix j :: source_journal and i j' b
  assume "journal_ok j" "journal_ack i j = (j', b)"
  then show "journal_ok j'" "journal_queue j' = filter (\<lambda>x. fst x \<noteq> i) (journal_queue j)"
    using journal_ack_ok ack_pending by (auto simp: journal_queue_def filter_map comp_def)
next
  fix j :: source_journal
  assume "journal_ok j"
  then show "distinct (map fst (journal_queue j))"
    by (simp add: journal_ok_def journal_queue_def pending_events_def distinct_map_filter comp_def)
qed

section \<open>Runs of the journal\<close>

inductive journal_run :: "source_journal \<Rightarrow> source_journal \<Rightarrow> bool" where
  jr_open: "journal_open c uid None = Inr j \<Longrightarrow> journal_run j j"
| jr_boot: "journal_run j0 j \<Longrightarrow> journal_run j0 (fst (boot j))"
| jr_commit: "journal_run j0 j \<Longrightarrow> journal_run j0 (fst (journal_commit st event eff now j))"
| jr_ack: "journal_run j0 j \<Longrightarrow> journal_run j0 (fst (journal_ack i j))"

lemma insert_event_capacity: "insert_event e now j = (j1, Inr ()) \<Longrightarrow> sj_capacity j1 = sj_capacity j"
  by (auto dest: insert_event_cases)

lemma journal_run_inv: "journal_run j0 j \<Longrightarrow> journal_ok j \<and> journal_pending j \<le> sj_capacity j"
proof (induction rule: journal_run.induct)
  case (jr_open c uid j)
  then show ?case
    by (auto simp: journal_open_def journal_ok_def journal_pending_def pending_events_def split: if_splits)
next
  case (jr_boot j0 j)
  then show ?case
    by (simp add: boot_def Let_def journal_ok_def journal_pending_def pending_events_def)
next
  case (jr_commit j0 j st event eff now)
  obtain j' r where c: "journal_commit st event eff now j = (j', r)" by fastforce
  have "journal_pending j' \<le> sj_capacity j'"
  proof (cases r)
    case (Inl e)
    then show ?thesis using commit_cases [OF c] jr_commit.IH by auto
  next
    case (Inr u)
    have "sj_capacity j' = sj_capacity j"
      using commit_cases [OF c] by (auto dest: insert_event_capacity split: option.splits)
    moreover have "journal_pending j = int (length (journal_queue j))" for j
      by (simp add: journal_pending_def journal_queue_def)
    ultimately show ?thesis using commit_queue [of st event eff now j j'] c Inr jr_commit.IH by auto
  qed
  then show ?case using journal_commit_ok [OF _ c] jr_commit.IH c by simp
next
  case (jr_ack j0 j i)
  obtain j' b where a: "journal_ack i j = (j', b)" by fastforce
  have "sj_capacity j' = sj_capacity j" using a by (auto simp: journal_ack_def split: option.splits if_splits)
  moreover have "journal_pending j' \<le> journal_pending j"
    using ack_pending [of j i j' b] a jr_ack.IH by (simp add: journal_pending_def)
  ultimately show ?case using journal_ack_ok [OF _ a] jr_ack.IH a by simp
qed

section \<open>Properties\<close>


definition example_journal :: source_journal where
  "example_journal =
     \<lparr>sj_capacity = 2, sj_meta = \<lparr>jm_db_id = ''d'', jm_created = 0, jm_received = 0, jm_boots = 0\<rparr>,
      sj_events = [], sj_next_serial = 1, sj_state = None, sj_effects = []\<rparr>"

definition example_commit :: "string \<Rightarrow> commit_input" where
  "example_commit i = ([], Some [(''inspection_id'', JStr i)], None, 1)"


end
