(* ===== verification/Service_World.thy ===== *)
theory Service_World
  imports Observability
begin

text \<open>
  What the message services share: a wall clock, the evidence journal, the counters, and the
  messages sent to the brokers. Clock ticks and the failures of the journal and of the brokers come
  from a \<open>backend\<close>. The counters are kept as the list of their increments.
\<close>

record ('e, 'm) service_world =
  sv_env :: 'e
  sv_clock :: int
  sv_events :: "exec_event list"
  sv_counts :: "(string \<times> string list) list"
  sv_sent :: "(string \<times> 'm) list"

text \<open>
  Microseconds to the next reading, negative when the clock was set back, and the failure, if any, of
  the next journal write and send.
\<close>

record 'e backend =
  bk_tick :: "'e \<Rightarrow> int \<times> 'e"
  bk_journal :: "'e \<Rightarrow> exn option \<times> 'e"
  bk_send :: "'e \<Rightarrow> exn option \<times> 'e"

definition now_step :: "'e backend \<Rightarrow> (('e, 'm, 'z) service_world_scheme, int) act" where
  "now_step B w =
     (case bk_tick B (sv_env w) of
        (d, e) \<Rightarrow> (w\<lparr>sv_env := e, sv_clock := sv_clock w + d\<rparr>, Inr (sv_clock w + d)))"

text \<open>A clock that is never set back.\<close>

definition forward_clock :: "'e backend \<Rightarrow> bool" where
  "forward_clock B \<longleftrightarrow> (\<forall>e. 0 \<le> fst (bk_tick B e))"

definition journal_step ::
  "'e backend \<Rightarrow> string \<Rightarrow> string \<Rightarrow> actuation_request \<Rightarrow> doc \<Rightarrow> (('e, 'm, 'z) service_world_scheme, unit) act" where
  "journal_step B component action req evidence w =
     (let ev = \<lparr>ev_component = component, ev_action = action, ev_command = req, ev_evidence = evidence\<rparr> in
      if \<not> recordable ev then (w, Inl not_compliant)
      else case bk_journal B (sv_env w) of
             (Some ex, e) \<Rightarrow> (w\<lparr>sv_env := e\<rparr>, Inl ex)
           | (None, e) \<Rightarrow> (w\<lparr>sv_env := e, sv_events := sv_events w @ [ev]\<rparr>, Inr ()))"

definition count_step :: "string \<Rightarrow> string list \<Rightarrow> (('e, 'm, 'z) service_world_scheme, unit) act" where
  "count_step name labels = putS (\<lambda>w. w\<lparr>sv_counts := sv_counts w @ [(name, labels)]\<rparr>)"

definition send_step :: "'e backend \<Rightarrow> string \<Rightarrow> 'm \<Rightarrow> (('e, 'm, 'z) service_world_scheme, unit) act" where
  "send_step B subject body w =
     (case bk_send B (sv_env w) of
        (Some ex, e) \<Rightarrow> (w\<lparr>sv_env := e\<rparr>, Inl ex)
      | (None, e) \<Rightarrow> (w\<lparr>sv_env := e, sv_sent := sv_sent w @ [(subject, body)]\<rparr>, Inr ()))"

text \<open>\<open>try: m; except Exception as e: h e; else: k\<close>: a cancellation passes through.\<close>

definition exceptS :: "('w, 'a) act \<Rightarrow> (exn \<Rightarrow> ('w, 'b) act) \<Rightarrow> ('a \<Rightarrow> ('w, 'b) act) \<Rightarrow> ('w, 'b) act" where
  "exceptS m h k = tryS m (\<lambda>e. if is_exception e then h e else raiseS e) k"

lemma keeps_exceptS [edge_intros]:
  "keeps I m \<Longrightarrow> (\<And>e. keeps I (h e)) \<Longrightarrow> (\<And>a. keeps I (k a)) \<Longrightarrow> keeps I (exceptS m h k)"
  unfolding exceptS_def by (intro edge_intros)

text \<open>Steps that send nothing.\<close>

lemma keeps_sent [edge_intros]:
  "keeps (\<lambda>w. Q (sv_sent w)) (now_step B)"
  "keeps (\<lambda>w. Q (sv_sent w)) (journal_step B c a r d)"
  "keeps (\<lambda>w. Q (sv_sent w)) (count_step n ls)"
  by (auto simp: keeps_def now_step_def journal_step_def count_step_def Let_def split: prod.splits option.splits)

lemma now_step_reads: "now_step B w = (w', Inr t) \<Longrightarrow> t = sv_clock w'"
  by (auto simp: now_step_def split: prod.splits)

lemma now_step_mono: "forward_clock B \<Longrightarrow> now_step B w = (w', Inr t) \<Longrightarrow> sv_clock w \<le> sv_clock w'"
  by (auto simp: now_step_def forward_clock_def split: prod.splits) (metis fst_conv)

lemma now_step_Inr:
  "now_step B w = (w', r) \<Longrightarrow> sv_sent w' = sv_sent w \<and> sv_events w' = sv_events w \<and> sv_counts w' = sv_counts w"
  by (auto simp: now_step_def split: prod.splits)

lemma journal_step_Inr:
  assumes "journal_step B c a req d w = (w', Inr u)"
  shows "sv_clock w' = sv_clock w \<and> sv_sent w' = sv_sent w \<and> sv_counts w' = sv_counts w \<and>
     sv_events w' = sv_events w @ [\<lparr>ev_component = c, ev_action = a, ev_command = req, ev_evidence = d\<rparr>]"
proof -
  have "recordable \<lparr>ev_component = c, ev_action = a, ev_command = req, ev_evidence = d\<rparr>"
    using assms by (auto simp: journal_step_def Let_def split: if_splits)
  then show ?thesis using assms by (auto simp: journal_step_def split: prod.splits option.splits)
qed

lemma journal_step_parts:
  "sv_clock (fst (journal_step B c a req d w)) = sv_clock w" "sv_sent (fst (journal_step B c a req d w)) = sv_sent w"
  "sv_counts (fst (journal_step B c a req d w)) = sv_counts w"
  by (simp_all add: journal_step_def Let_def split: prod.splits option.splits)

lemma journal_step_any:
  "journal_step B c a req d w = (w', r) \<Longrightarrow>
     sv_clock w' = sv_clock w \<and> sv_sent w' = sv_sent w \<and> sv_counts w' = sv_counts w"
  using journal_step_parts [of B c a req d w] by simp

lemma send_step_Inr:
  "send_step B subject body w = (w', Inr u) \<Longrightarrow>
     sv_clock w' = sv_clock w \<and> sv_sent w' = sv_sent w @ [(subject, body)] \<and> sv_counts w' = sv_counts w \<and>
     sv_events w' = sv_events w"
  by (auto simp: send_step_def split: prod.splits option.splits)

lemma count_step_apply [simp]: "count_step n ls w = (w\<lparr>sv_counts := sv_counts w @ [(n, ls)]\<rparr>, Inr ())"
  by (simp add: count_step_def)

section \<open>Requests on the bus\<close>

text \<open>\<open>request_reply\<close>: a \<open>TimeoutError\<close> of the client becomes a \<open>RequestTimeout\<close>.\<close>

definition request_reply :: "('w, 'm) act \<Rightarrow> ('w, 'm) act" where
  "request_reply request =
     tryS request
       (\<lambda>e. case e of TimeoutError m \<Rightarrow> raiseS (RequestTimeout ''NATS request timed out'') | _ \<Rightarrow> raiseS e)
       retS"

lemma request_reply_Inr: "request_reply m w = (w', Inr a) \<Longrightarrow> m w = (w', Inr a)"
  by (auto simp: request_reply_def tryS_def split: prod.splits sum.splits exn.splits)

text \<open>A quiet backend, for concrete runs.\<close>

definition quiet :: "'e backend" where
  "quiet = \<lparr>bk_tick = (\<lambda>e. (1, e)), bk_journal = (\<lambda>e. (None, e)), bk_send = (\<lambda>e. (None, e))\<rparr>"

end
