(* ===== verification/Event_Validator.thy ===== *)
theory Event_Validator
  imports Service_World
begin

text \<open>
  The policy worker (\<open>actuation_event_validator/service.py\<close>): the policy table, the decision on
  a request, and the bus handler that checks the ingress evidence and signs approvals. The policy
  file is taken after YAML parsing; the text of a reason is kept without the values it quotes.
\<close>

section \<open>Policies\<close>

record node_policy =
  np_uns_topic :: string
  np_low :: pyfloat
  np_high :: pyfloat
  np_allowlist :: "string list"
  np_value_type :: value_type

definition load_policy :: "node_policy list \<Rightarrow> string \<rightharpoonup> node_policy" where
  "load_policy ps = map_of (rev (map (\<lambda>p. (np_uns_topic p, p)) ps))"

definition rejection :: "string \<Rightarrow> reason_code \<Rightarrow> validation_result" where
  "rejection reason code =
     \<lparr>vr_decision = Reject, vr_reason = Some reason, vr_reason_code = Some code, vr_approval = None\<rparr>"

definition approval :: validation_result where
  "approval = \<lparr>vr_decision = Approve, vr_reason = None, vr_reason_code = None, vr_approval = None\<rparr>"

text \<open>The exact types of Python: a bool is not an int here.\<close>

definition value_type_ok :: "value_type \<Rightarrow> signal_value \<Rightarrow> bool" where
  "value_type_ok t v =
     (case (t, v) of
        (TBool, VBool _) \<Rightarrow> True | (TInt64, VInt _) \<Rightarrow> True
      | (TDouble, VInt _) \<Rightarrow> True | (TDouble, VFloat _) \<Rightarrow> True | _ \<Rightarrow> False)"

text \<open>\<open>float(value)\<close> of a large int raises \<open>OverflowError\<close>, which the code does not catch here.\<close>

definition validate_request ::
  "actuation_request \<Rightarrow> (string \<rightharpoonup> node_policy) \<Rightarrow> validation_result res" where
  "validate_request req policies =
     (case policies (ar_target_uns_topic req) of
        None \<Rightarrow> Inr (rejection ''no policy for topic'' NoPolicy)
      | Some policy \<Rightarrow>
          if ar_requester req \<notin> set (np_allowlist policy)
          then Inr (rejection ''requester not in allowlist'' NotAllowlisted)
          else if \<not> (ar_value_type req = np_value_type policy \<and>
                     value_type_ok (np_value_type policy) (ar_requested_value req))
          then Inr (rejection ''requested_value has wrong type'' NotNumeric)
          else (case to_float (\<lambda>_. None) (ar_requested_value req) of
                  Inl e \<Rightarrow>
                    if is_type_error e \<or> is_value_error e
                    then Inr (rejection ''requested_value is not numeric'' NotNumeric) else Inl e
                | Inr v \<Rightarrow>
                    if \<not> isfinite v \<or> \<not> (fle (np_low policy) v \<and> fle v (np_high policy))
                    then Inr (rejection ''value outside policy range'' OutOfRange)
                    else Inr approval))"

text \<open>The policy read as a predicate: what an approved request satisfies.\<close>

definition permitted :: "(string \<rightharpoonup> node_policy) \<Rightarrow> actuation_request \<Rightarrow> bool" where
  "permitted policies req \<longleftrightarrow>
     (\<exists>policy x. policies (ar_target_uns_topic req) = Some policy \<and> ar_requester req \<in> set (np_allowlist policy) \<and>
        ar_value_type req = np_value_type policy \<and> value_type_ok (np_value_type policy) (ar_requested_value req) \<and>
        to_float (\<lambda>_. None) (ar_requested_value req) = Inr (Fin x) \<and>
        fle (np_low policy) (Fin x) \<and> fle (Fin x) (np_high policy))"

lemma isfinite_iff: "isfinite v \<longleftrightarrow> (\<exists>x. v = Fin x)"
  by (cases v) auto

lemma validate_request_approves:
  "validate_request req policies = Inr v \<Longrightarrow> vr_decision v = Approve \<longleftrightarrow> permitted policies req"
  by (auto simp: validate_request_def permitted_def rejection_def approval_def isfinite_iff
      split: option.splits if_splits sum.splits)

lemma validate_request_shape:
  "validate_request req policies = Inr v \<Longrightarrow>
     v = approval \<or> (\<exists>reason code. v = rejection reason code)"
  by (auto simp: validate_request_def split: option.splits if_splits sum.splits)

lemma validate_request_raises:
  "validate_request req policies = Inl e \<Longrightarrow>
     \<exists>n. ar_requested_value req = VInt n \<and> float_limit \<le> \<bar>n\<bar> \<and> e = OverflowError ''int too large to convert to float''"
  by (cases "ar_requested_value req")
    (auto simp: validate_request_def value_type_ok_def int_to_float_def not_less
      split: option.splits if_splits sum.splits value_type.splits)

section \<open>The handler\<close>

record 'e validator =
  vw_backend :: "'e backend"
  vw_crypto :: crypto
  vw_ingress_key :: string
  vw_approval_key :: string
  vw_approved_writer :: string
  vw_policies :: "string \<rightharpoonup> node_policy"

type_synonym 'e validator_world = "('e, act_payload nats_envelope) service_world"

text \<open>\<open>run\<close> up to readiness: both keys are long enough, then the policies are read.\<close>

definition start_validator :: "'e validator \<Rightarrow> node_policy list \<Rightarrow> 'e validator res" where
  "start_validator V file =
     bindE (require_key (vw_ingress_key V)) (\<lambda>_.
     bindE (require_key (vw_approval_key V)) (\<lambda>_.
       Inr (V\<lparr>vw_policies := load_policy file\<rparr>)))"

definition decide :: "'e validator \<Rightarrow> authenticated_request \<Rightarrow> ('e validator_world, validation_result) act" where
  "decide V a =
     (let req = au_command a in
      bindS (now_step (vw_backend V)) (\<lambda>t.
      thenS (liftS (verify_evidence (vw_crypto V) (utc t) req (au_identity a) (vw_ingress_key V) Ingress [] True))
      (bindS (liftS (validate_request req (vw_policies V))) (\<lambda>result.
        if vr_decision result = Approve
        then bindS (now_step (vw_backend V)) (\<lambda>t'.
             bindS (liftS (sign_approval (vw_crypto V) (utc t') (utc t') req (vw_approval_key V)
                             (vw_approved_writer V) True)) (\<lambda>ev.
               retS (result\<lparr>vr_approval := Some ev\<rparr>)))
        else retS result))))"

definition decision_str :: "decision \<Rightarrow> string" where
  "decision_str d = (case d of Approve \<Rightarrow> ''approve'' | Reject \<Rightarrow> ''reject'')"

definition opt_str :: "string option \<Rightarrow> json" where
  "opt_str s = (case s of None \<Rightarrow> JNull | Some x \<Rightarrow> JStr x)"

definition decision_doc :: "'e validator \<Rightarrow> authenticated_request \<Rightarrow> validation_result \<Rightarrow> bool \<Rightarrow> doc" where
  "decision_doc V a result expired =
     [(''decision'', JStr (decision_str (vr_decision result))),
      (''command_digest'', JStr (se_command_digest (au_identity a))),
      (''approval_fingerprint'', opt_str (map_option (evidence_fingerprint (vw_crypto V)) (vr_approval result))),
      (''ingress_verified'', JBool True), (''reason'', opt_str (vr_reason result)),
      (''approved_writer'', JStr (vw_approved_writer V)),
      (''approval_issued_at'', opt_time (map_option se_issued_at (vr_approval result))),
      (''expired_lookup_only'', JBool expired)]"

definition validator_body ::
  "'e validator \<Rightarrow> act_payload nats_envelope \<Rightarrow> ('e validator_world, act_payload nats_envelope) act" where
  "validator_body V envelope =
     (let cid = env_correlation_id envelope in
      bindS (liftS (validate_authenticated (env_payload envelope))) (\<lambda>a.
      thenS (guardS (ar_correlation_id (au_command a) = cid) (ValueError ''command envelope identity mismatch''))
      (bindS (decide V a) (\<lambda>result.
      bindS (case ar_deadline (au_command a) of
               None \<Rightarrow> retS False
             | Some d \<Rightarrow> bindS (now_step (vw_backend V)) (\<lambda>t. retS (dt_us d < t))) (\<lambda>expired.
      thenS (journal_step (vw_backend V) ''actuation-event-validator'' ''validation_decided'' (au_command a)
               (decision_doc V a result expired))
      (thenS (count_step ''worker_handler_total'' [''actuation-event-validator'', decision_str (vr_decision result)])
        (liftS (validate_envelope (ok_envelope cid (Some (PValidation result)))))))))))"

text \<open>The error branch: a message that cannot be read leaves \<open>correlation_id = "UNKNOWN"\<close>.\<close>

definition validator_error ::
  "string \<Rightarrow> exn \<Rightarrow> ('e validator_world, act_payload nats_envelope) act" where
  "validator_error cid e =
     thenS (count_step ''worker_handler_total'' [''actuation-event-validator'', ''error''])
       (liftS (validate_envelope (error_envelope cid None (exn_name e) (short_msg e))))"

definition validator_handle ::
  "'e validator \<Rightarrow> act_payload message \<Rightarrow> ('e validator_world, act_payload nats_envelope) act" where
  "validator_handle V msg =
     (case read_envelope msg of
        Inl e \<Rightarrow> if is_exception e then validator_error ''UNKNOWN'' e else raiseS e
      | Inr envelope \<Rightarrow>
          exceptS (validator_body V envelope) (validator_error (env_correlation_id envelope)) retS)"

section \<open>What the handler answers\<close>

lemma validator_error_eval:
  "validator_error cid e w = (w\<lparr>sv_counts := sv_counts w @ [(''worker_handler_total'', [''actuation-event-validator'', ''error''])]\<rparr>,
     validate_envelope (error_envelope cid None (exn_name e) (short_msg e)))"
  by (simp add: validator_error_def bindS_def)

lemma decide_Inr:
  assumes "decide V a w = (w', Inr result)"
  shows "\<exists>t v. verify_evidence (vw_crypto V) (utc t) (au_command a) (au_identity a) (vw_ingress_key V) Ingress [] True = Inr () \<and>
    validate_request (au_command a) (vw_policies V) = Inr v \<and> vr_decision result = vr_decision v \<and>
    (if vr_decision v = Approve
     then \<exists>ev t'. sign_approval (vw_crypto V) (utc t') (utc t') (au_command a) (vw_approval_key V) (vw_approved_writer V) True = Inr ev \<and>
            t' = sv_clock w' \<and> result = v\<lparr>vr_approval := Some ev\<rparr>
     else result = v)"
proof -
  obtain w1 t v where 1: "verify_evidence (vw_crypto V) (utc t) (au_command a) (au_identity a) (vw_ingress_key V) Ingress [] True = Inr ()"
      "validate_request (au_command a) (vw_policies V) = Inr v"
    and rest: "(if vr_decision v = Approve
        then bindS (now_step (vw_backend V)) (\<lambda>t'.
             bindS (liftS (sign_approval (vw_crypto V) (utc t') (utc t') (au_command a) (vw_approval_key V)
                             (vw_approved_writer V) True)) (\<lambda>ev. retS (v\<lparr>vr_approval := Some ev\<rparr>)))
        else retS v) w1 = (w', Inr result)"
    using assms by (auto simp: decide_def Let_def bindS_Inr_iff)
  show ?thesis
  proof (cases "vr_decision v = Approve")
    case True
    then show ?thesis using 1 rest by (fastforce simp: bindS_Inr_iff dest: now_step_reads)
  qed (use 1 rest in auto)
qed

lemma validator_body_Inr:
  assumes "validator_body V envelope w = (w', Inr reply)"
  shows "\<exists>a result w1 w2. env_payload envelope = Some (PAuthenticated a) \<and> actuation_request_ok (au_command a) \<and>
    ar_correlation_id (au_command a) = env_correlation_id envelope \<and> decide V a w1 = (w2, Inr result) \<and>
    (forward_clock (vw_backend V) \<longrightarrow> sv_clock w2 \<le> sv_clock w') \<and>
    reply = ok_envelope (env_correlation_id envelope) (Some (PValidation result))"
proof -
  obtain a result w2 where d: "env_payload envelope = Some (PAuthenticated a)" "actuation_request_ok (au_command a)"
      "ar_correlation_id (au_command a) = env_correlation_id envelope" "decide V a w = (w2, Inr result)"
    and rest: "bindS (case ar_deadline (au_command a) of
               None \<Rightarrow> retS False
             | Some d \<Rightarrow> bindS (now_step (vw_backend V)) (\<lambda>t. retS (dt_us d < t))) (\<lambda>expired.
      thenS (journal_step (vw_backend V) ''actuation-event-validator'' ''validation_decided'' (au_command a)
               (decision_doc V a result expired))
      (thenS (count_step ''worker_handler_total'' [''actuation-event-validator'', decision_str (vr_decision result)])
        (liftS (validate_envelope (ok_envelope (env_correlation_id envelope) (Some (PValidation result))))))) w2 = (w', Inr reply)"
    using assms by (auto simp: validator_body_def Let_def bindS_Inr_iff validate_authenticated_Inr)
  have "(forward_clock (vw_backend V) \<longrightarrow> sv_clock w2 \<le> sv_clock w') \<and>
      reply = ok_envelope (env_correlation_id envelope) (Some (PValidation result))"
    using rest
    by (cases "ar_deadline (au_command a)")
      (auto simp: bindS_Inr_iff dest: now_step_mono dest!: journal_step_Inr)
  with d show ?thesis by blast
qed

section \<open>Properties\<close>

text \<open>
  The policy decides: a request is approved exactly when the policy of its topic lists the
  requester, has its type and contains its value; the only exception is the overflow of a huge int.
\<close>

theorem policy_decides:
  "case validate_request req policies of
     Inl e \<Rightarrow> e = OverflowError ''int too large to convert to float'' \<and>
       (\<exists>n. ar_requested_value req = VInt n \<and> float_limit \<le> \<bar>n\<bar>)
   | Inr v \<Rightarrow> vr_approval v = None \<and> (vr_decision v = Approve) = permitted policies req"
proof (cases "validate_request req policies")
  case (Inl e)
  then show ?thesis using validate_request_raises by fastforce
next
  case (Inr v)
  then show ?thesis using validate_request_approves [OF Inr] validate_request_shape [OF Inr]
    by (auto simp: approval_def rejection_def)
qed

text \<open>
  C38. An approval answered by the worker is worth its word: the request came with valid ingress
  evidence, the policy permits it, and the signed approval is accepted by the approved writer, and
  by no other, from the time it was signed until the command's deadline. Unless the clock is set back, that time is
  not after the reply.
\<close>

theorem validator_approval_sound:
  assumes "validator_handle V (Json envelope) w = (w', Inr reply)"
    and "env_payload reply = Some (PValidation result)" and "vr_approval result = Some ev"
  shows "\<exists>a t. env_payload envelope = Some (PAuthenticated a) \<and>
    ar_correlation_id (au_command a) = env_correlation_id reply \<and>
    verify_evidence (vw_crypto V) (utc t) (au_command a) (au_identity a) (vw_ingress_key V) Ingress [] True = Inr () \<and>
    permitted (vw_policies V) (au_command a) \<and>
    (forward_clock (vw_backend V) \<longrightarrow> dt_us (se_issued_at ev) \<le> sv_clock w') \<and>
    (\<forall>now writer. dt_us (se_issued_at ev) \<le> now \<longrightarrow>
       (verify_evidence (vw_crypto V) (utc now) (au_command a) ev (vw_approval_key V) Approval writer False = Inr ()) =
       (writer = vw_approved_writer V \<and> now \<le> dt_us (the (ar_deadline (au_command a)))))"
proof -
  have e: "is_valid_correlation_id (env_correlation_id envelope)"
    using assms(1) by (auto simp: validator_handle_def validate_envelope_def validator_error_def
        raiseS_def liftS_def bindS_def split: if_splits)
  have "validator_body V envelope w = (w', Inr reply)"
  proof (cases "validator_body V envelope w")
    case (Pair w1 r)
    then show ?thesis using assms(1,2) e
      by (cases r) (auto simp: validator_handle_def exceptS_def tryS_def validator_error_eval split: if_splits)
  qed
  from validator_body_Inr [OF this] obtain a res w1 w2 where a: "env_payload envelope = Some (PAuthenticated a)"
      "ar_correlation_id (au_command a) = env_correlation_id envelope" "decide V a w1 = (w2, Inr res)"
      "forward_clock (vw_backend V) \<longrightarrow> sv_clock w2 \<le> sv_clock w'" "reply = ok_envelope (env_correlation_id envelope) (Some (PValidation res))"
    by blast
  then have "res = result" using assms(2) by simp
  from decide_Inr [OF a(3)] obtain t v where v:
      "verify_evidence (vw_crypto V) (utc t) (au_command a) (au_identity a) (vw_ingress_key V) Ingress [] True = Inr ()"
      "validate_request (au_command a) (vw_policies V) = Inr v"
      "if vr_decision v = Approve
       then \<exists>ev t'. sign_approval (vw_crypto V) (utc t') (utc t') (au_command a) (vw_approval_key V) (vw_approved_writer V) True = Inr ev \<and>
            t' = sv_clock w2 \<and> res = v\<lparr>vr_approval := Some ev\<rparr>
       else res = v"
    by blast
  have "vr_decision v = Approve"
    using v(3) validate_request_shape [OF v(2)] assms(3) \<open>res = result\<close>
    by (auto simp: approval_def rejection_def split: if_splits)
  then obtain t' where s: "sign_approval (vw_crypto V) (utc t') (utc t') (au_command a) (vw_approval_key V) (vw_approved_writer V) True = Inr ev"
      "t' = sv_clock w2"
    using v(3) assms(3) \<open>res = result\<close> by auto
  have issued: "dt_us (se_issued_at ev) = t'"
    using s(1) by (auto simp: sign_approval_def sign_evidence_Inr)
  have p: "permitted (vw_policies V) (au_command a)"
    using validate_request_approves [OF v(2)] \<open>vr_decision v = Approve\<close> by simp
  have "(verify_evidence (vw_crypto V) (utc now) (au_command a) ev (vw_approval_key V) Approval writer False = Inr ()) =
       (writer = vw_approved_writer V \<and> now \<le> dt_us (the (ar_deadline (au_command a))))"
    if "dt_us (se_issued_at ev) \<le> now" for now writer
    using signed_evidence_sound [OF s(1) [unfolded sign_approval_def], of "utc now" Approval writer False] issued that
    by simp
  moreover have "forward_clock (vw_backend V) \<longrightarrow> dt_us (se_issued_at ev) \<le> sv_clock w'"
    using issued s(2) a(4) by simp
  ultimately show ?thesis using a v(1) p by auto
qed

definition example_policy :: node_policy where
  "example_policy = \<lparr>np_uns_topic = ''a/b/c/d/e/f/g'', np_low = Fin 0, np_high = Fin 10,
     np_allowlist = [''agent''], np_value_type = TInt64\<rparr>"

definition example_validator :: "unit validator" where
  "example_validator =
     \<lparr>vw_backend = quiet, vw_crypto = example_crypto, vw_ingress_key = replicate 32 (CHR ''i''),
      vw_approval_key = replicate 32 (CHR ''k''), vw_approved_writer = ''w'', vw_policies = load_policy [example_policy]\<rparr>"

definition example_request :: "act_payload nats_envelope" where
  "example_request = ok_envelope (replicate 26 (CHR ''0''))
     (Some (PAuthenticated \<lparr>au_command = example_command, au_identity = example_evidence Ingress []\<rparr>))"

definition example_world :: "unit validator_world" where
  "example_world = \<lparr>sv_env = (), sv_clock = 30, sv_events = [], sv_counts = [], sv_sent = []\<rparr>"

lemma example_permitted: "validate_request example_command (load_policy [example_policy]) = Inr approval"
  by (simp add: validate_request_def load_policy_def example_command_def example_policy_def value_type_ok_def
      del: fle_Fin_simps)

lemma example_ingress_verified:
  "verify_evidence example_crypto (utc 31) example_command (example_evidence Ingress []) (replicate 32 (CHR ''i'')) Ingress [] True = Inr ()"
  by (simp add: verify_evidence_Inr example_digest evidence_signature_def)
    (simp add: example_command_def example_crypto_def example_evidence_def)

lemma example_cid: "is_valid_correlation_id (ar_correlation_id example_command)"
  using example_command_ok by (simp add: actuation_request_ok_def)

lemma example_validation:
  "\<exists>w' reply result ev. validator_handle example_validator (Json example_request) example_world = (w', Inr reply) \<and>
     sv_clock w' \<le> 40 \<and> env_payload reply = Some (PValidation result) \<and> vr_approval result = Some ev"
proof -
  have cid: "is_valid_correlation_id (replicate 26 (CHR ''0''))" "ar_correlation_id example_command = replicate 26 (CHR ''0'')"
    using example_cid by (simp_all add: example_command_def)
  let ?a = "\<lparr>au_command = example_command, au_identity = example_evidence Ingress []\<rparr>"
  let ?ev = "(example_evidence Approval ''w'')\<lparr>se_issued_at := utc 32\<rparr>"
  have ev: "sign_approval example_crypto (utc 32) (utc 32) example_command (replicate 32 (CHR ''k'')) ''w'' True = Inr ?ev"
    unfolding sign_approval_def sign_evidence_Inr example_digest
    by (simp add: example_command_def example_crypto_def example_evidence_def evidence_signature_def bindE_Inr_iff)
  have clock: "now_step quiet w = (w\<lparr>sv_clock := sv_clock w + 1\<rparr>, Inr (sv_clock w + 1))" for w :: "unit validator_world"
    by (simp add: now_step_def quiet_def)
  have journal: "\<exists>w'. journal_step quiet c x r d w = (w', Inr ()) \<and> sv_clock w' = sv_clock w"
    if "recordable \<lparr>ev_component = c, ev_action = x, ev_command = r, ev_evidence = d\<rparr>" for c x r d and w :: "unit validator_world"
    using that by (simp add: journal_step_def quiet_def)
  have fine: "recordable \<lparr>ev_component = ''actuation-event-validator'', ev_action = ''validation_decided'',
      ev_command = example_command, ev_evidence = decision_doc example_validator ?a (approval\<lparr>vr_approval := Some ?ev\<rparr>) False\<rparr>"
    by (simp add: recordable_def decision_doc_def opt_str_def opt_time_def approval_def example_command_def)
  have 1: "decide example_validator ?a example_world =
      (example_world\<lparr>sv_clock := 32\<rparr>, Inr (approval\<lparr>vr_approval := Some ?ev\<rparr>))"
    by (simp add: decide_def Let_def bindS_def clock example_validator_def example_world_def
        example_ingress_verified example_permitted ev) (simp add: approval_def)
  have env: "env_payload example_request = Some (PAuthenticated ?a)" "env_correlation_id example_request = replicate 26 (CHR ''0'')"
    by (simp_all add: example_request_def)
  have dl: "ar_deadline example_command = Some (utc 50)" by (simp add: example_command_def)
  obtain w' where 2: "validator_body example_validator example_request example_world =
      (w', Inr (ok_envelope (replicate 26 (CHR ''0'')) (Some (PValidation (approval\<lparr>vr_approval := Some ?ev\<rparr>)))))" "sv_clock w' = 33"
  proof -
    let ?res = "approval\<lparr>vr_approval := Some ?ev\<rparr>"
    obtain w1 where w1: "journal_step quiet ''actuation-event-validator'' ''validation_decided'' example_command
        (decision_doc example_validator ?a ?res False) (example_world\<lparr>sv_clock := 33\<rparr>) = (w1, Inr ())" "sv_clock w1 = 33"
      using journal [OF fine, of "example_world\<lparr>sv_clock := 33\<rparr>"] by auto
    show thesis
      using 1 w1 cid by (intro that [of "w1\<lparr>sv_counts := sv_counts w1 @ [(''worker_handler_total'', [''actuation-event-validator'', ''approve''])]\<rparr>"])
        (simp_all add: validator_body_def env bindS_def Let_def example_command_ok dl clock example_validator_def
          decision_str_def approval_def)
  qed
  then have "validator_handle example_validator (Json example_request) example_world =
      (w', Inr (ok_envelope (replicate 26 (CHR ''0'')) (Some (PValidation (approval\<lparr>vr_approval := Some ?ev\<rparr>)))))"
    using cid(1) env(2) by (simp add: validator_handle_def exceptS_def tryS_def)
  with 2(2) show ?thesis by fastforce
qed

theorem validator_approval_sound_witness:
  "\<exists>w' reply result ev. validator_handle example_validator (Json example_request) example_world = (w', Inr reply) \<and>
     env_payload reply = Some (PValidation result) \<and> vr_approval result = Some ev \<and>
     verify_evidence example_crypto (utc 40) example_command ev (replicate 32 (CHR ''k'')) Approval ''w'' False = Inr ()"
proof -
  obtain w' reply result ev where h: "validator_handle example_validator (Json example_request) example_world = (w', Inr reply)"
      "sv_clock w' \<le> 40" "env_payload reply = Some (PValidation result)" "vr_approval result = Some ev"
    using example_validation by blast
  have "env_payload example_request = Some (PAuthenticated \<lparr>au_command = example_command, au_identity = example_evidence Ingress []\<rparr>)"
    by (simp add: example_request_def)
  moreover have "ar_deadline example_command = Some (utc 50)" by (simp add: example_command_def)
  moreover have "vw_crypto example_validator = example_crypto" "vw_approved_writer example_validator = ''w''"
      "vw_approval_key example_validator = replicate 32 (CHR ''k'')"
    by (simp_all add: example_validator_def)
  moreover have "forward_clock (vw_backend example_validator)"
    by (simp add: forward_clock_def example_validator_def quiet_def)
  ultimately have "verify_evidence example_crypto (utc 40) example_command ev (replicate 32 (CHR ''k'')) Approval ''w'' False = Inr ()"
    using validator_approval_sound [OF h(1,3,4)] h(2) by simp
  with h show ?thesis by blast
qed

end
