(* ===== verification/Amqp_Ingress.thy ===== *)
theory Amqp_Ingress
  imports Service_World
begin

text \<open>
  The bridge from the command queue to the bus (\<open>amqp_actuation_event_subscriber/service.py\<close>):
  a command is taken over with the broker's user id as its requester, signed, published and then
  acknowledged. Reading the JSON body is pydantic's; its result is part of the message.
\<close>

record amqp_message =
  am_tag :: nat
  am_user_id :: "string option"
  am_body :: "actuation_request res"

definition body_ok :: "amqp_message \<Rightarrow> bool" where
  "body_ok m = (case am_body m of Inl e \<Rightarrow> is_value_error e | Inr r \<Rightarrow> actuation_request_ok r)"

datatype ingress_effect =
    Published string "act_payload nats_envelope"
  | Acked nat
  | Rejected nat
  | Requeued nat

type_synonym 'e ingress_world = "('e, ingress_effect) service_world"

record 'e ingress =
  in_backend :: "'e backend"
  in_crypto :: crypto
  in_key :: string

definition publishers :: "string list" where
  "publishers = [''decision-agent-stub'', ''experiment-driver'']"

definition start_ingress :: "'e ingress \<Rightarrow> unit res" where
  "start_ingress I = bindE (require_key (in_key I)) (\<lambda>_. Inr ())"

definition build_nats_envelope ::
  "'e ingress \<Rightarrow> amqp_message \<Rightarrow> ('e ingress_world, act_payload nats_envelope) act" where
  "build_nats_envelope I m =
     (case am_user_id m of
        None \<Rightarrow> raiseS (ValueError ''authenticated command publisher required'')
      | Some user \<Rightarrow>
          if user \<notin> set publishers then raiseS (ValueError ''authenticated command publisher required'')
          else bindS (liftS (am_body m)) (\<lambda>body.
            let req = body\<lparr>ar_requester := user\<rparr> in
            bindS (now_step (in_backend I)) (\<lambda>t.
            bindS (liftS (sign_ingress (in_crypto I) (utc t) (utc t) req (in_key I) True)) (\<lambda>identity.
              liftS (validate_envelope (ok_envelope (ar_correlation_id req)
                (Some (PAuthenticated \<lparr>au_command = req, au_identity = identity\<rparr>))))))))"

definition forward ::
  "'e ingress \<Rightarrow> amqp_message \<Rightarrow> act_payload nats_envelope \<Rightarrow> ('e ingress_world, unit) act" where
  "forward I m envelope =
     bindS (liftS (validate_authenticated (env_payload envelope))) (\<lambda>admitted.
     thenS (journal_step (in_backend I) ''amqp-actuation-event-subscriber'' ''request_received'' (au_command admitted)
              [(''identity_source'', JStr ''broker_user_id'')])
     (thenS (send_step (in_backend I) ''act.ingress.requested'' (Published ''act.ingress.requested'' envelope))
     (thenS (send_step (in_backend I) ''ack'' (Acked (am_tag m)))
       (count_step ''amqp_subscriber_messages_total'' [''ok'']))))"

text \<open>One turn of the loop.\<close>

definition ingress_one :: "'e ingress \<Rightarrow> amqp_message \<Rightarrow> ('e ingress_world, unit) act" where
  "ingress_one I m =
     exceptS
       (tryS (build_nats_envelope I m)
         (\<lambda>e. if is_value_error e \<or> is_type_error e
              then thenS (send_step (in_backend I) ''reject'' (Rejected (am_tag m)))
                     (count_step ''amqp_subscriber_messages_total'' [''unauthorized_or_invalid''])
              else raiseS e)
         (forward I m))
       (\<lambda>e. thenS (send_step (in_backend I) ''nack'' (Requeued (am_tag m)))
              (count_step ''amqp_subscriber_messages_total'' [''error'']))
       retS"

text \<open>The loop ends when settling a message raises.\<close>

fun ingress_loop :: "'e ingress \<Rightarrow> amqp_message list \<Rightarrow> ('e ingress_world, unit) act" where
  "ingress_loop I [] = retS ()"
| "ingress_loop I (m # ms) = thenS (ingress_one I m) (ingress_loop I ms)"

section \<open>What a turn does\<close>

text \<open>An envelope that may be published for a message, signed at some time up to \<open>t\<close>.\<close>

definition admissible :: "'e ingress \<Rightarrow> amqp_message \<Rightarrow> int \<Rightarrow> act_payload nats_envelope \<Rightarrow> bool" where
  "admissible I m t envelope \<longleftrightarrow>
     (\<exists>a user body. am_user_id m = Some user \<and> user \<in> set publishers \<and> am_body m = Inr body \<and>
        env_payload envelope = Some (PAuthenticated a) \<and> au_command a = body\<lparr>ar_requester := user\<rparr> \<and>
        env_correlation_id envelope = ar_correlation_id body \<and>
        (\<forall>now. t \<le> now \<longrightarrow> verify_evidence (in_crypto I) (utc now) (au_command a) (au_identity a) (in_key I) Ingress [] True = Inr ()))"

lemma build_envelope_sent: "sv_sent (fst (build_nats_envelope I m w)) = sv_sent w"
proof -
  have "keeps (\<lambda>w'. sv_sent w' = sv_sent w) (build_nats_envelope I m)"
    unfolding build_nats_envelope_def Let_def by (intro edge_intros)
  then show ?thesis by (simp add: keeps_def)
qed

lemma build_envelope_admissible:
  assumes "build_nats_envelope I m w = (w', Inr envelope)"
  shows "admissible I m (sv_clock w') envelope"
proof -
  obtain user body t identity where e: "am_user_id m = Some user" "user \<in> set publishers" "am_body m = Inr body"
      "now_step (in_backend I) w = (w', Inr t)"
      "sign_ingress (in_crypto I) (utc t) (utc t) (body\<lparr>ar_requester := user\<rparr>) (in_key I) True = Inr identity"
      "envelope = ok_envelope (ar_correlation_id body) (Some (PAuthenticated
         \<lparr>au_command = body\<lparr>ar_requester := user\<rparr>, au_identity = identity\<rparr>))"
    using assms by (auto simp: build_nats_envelope_def Let_def bindS_Inr_iff split: option.splits if_splits)
  have "verify_evidence (in_crypto I) (utc now) (body\<lparr>ar_requester := user\<rparr>) identity (in_key I) Ingress [] True = Inr ()"
    if "sv_clock w' \<le> now" for now
    using signed_evidence_sound [OF e(5) [unfolded sign_ingress_def], of "utc now" Ingress "[]" True]
      now_step_reads [OF e(4)] that by simp
  with e show ?thesis by (auto simp: admissible_def)
qed

lemma send_step_cases:
  "send_step B subject body w = (w', r) \<Longrightarrow>
     sv_sent w' = sv_sent w @ [(subject, body)] \<and> r = Inr () \<or> sv_sent w' = sv_sent w \<and> (\<exists>e. r = Inl e)"
  by (auto simp: send_step_def split: prod.splits option.splits)

lemma forward_effects:
  assumes "forward I m envelope w = (w', r)"
  shows "\<exists>out. map snd (sv_sent w') = map snd (sv_sent w) @ out \<and>
    (r = Inr () \<and> out = [Published ''act.ingress.requested'' envelope, Acked (am_tag m)] \<or>
     (\<exists>e. r = Inl e) \<and> (out = [] \<or> out = [Published ''act.ingress.requested'' envelope]))"
proof (cases "validate_authenticated (env_payload envelope)")
  case (Inr a)
  obtain w1 r1 where 1: "journal_step (in_backend I) ''amqp-actuation-event-subscriber'' ''request_received''
      (au_command a) [(''identity_source'', JStr ''broker_user_id'')] w = (w1, r1)" by fastforce
  have s1: "sv_sent w1 = sv_sent w" using journal_step_any [OF 1] by simp
  obtain w2 r2 where 2: "send_step (in_backend I) ''act.ingress.requested''
      (Published ''act.ingress.requested'' envelope) w1 = (w2, r2)" by fastforce
  obtain w3 r3 where 3: "send_step (in_backend I) ''ack'' (Acked (am_tag m)) w2 = (w3, r3)" by fastforce
  show ?thesis using assms Inr 1 2 3 s1 send_step_cases [OF 2] send_step_cases [OF 3]
    by (cases r1; cases r2; cases r3) (auto simp: forward_def bindS_def)
qed (use assms in \<open>auto simp: forward_def bindS_def\<close>)

lemma now_before_send: "send_step B subject body w = (w', r) \<Longrightarrow> sv_clock w' = sv_clock w"
  by (auto simp: send_step_def split: prod.splits option.splits)

section \<open>Properties\<close>

text \<open>
  C39. Every command of the queue is settled exactly once, and last: it is acknowledged only after it
  was published, and what is published carries the broker's user id as requester and an ingress
  evidence that verifies from then on.
\<close>

theorem ingress_settles_once:
  assumes "ingress_one I m w = (w', Inr ())"
  shows "\<exists>out t. map snd (sv_sent w') = map snd (sv_sent w) @ out \<and>
    (out \<in> {[Rejected (am_tag m)], [Requeued (am_tag m)]} \<or>
     (\<exists>envelope. admissible I m t envelope \<and>
        out \<in> {[Published ''act.ingress.requested'' envelope, Acked (am_tag m)],
               [Published ''act.ingress.requested'' envelope, Requeued (am_tag m)]}))"
proof -
  obtain w1 r1 where b: "build_nats_envelope I m w = (w1, r1)" by fastforce
  have s1: "sv_sent w1 = sv_sent w" using build_envelope_sent [of I m w] b by simp
  show ?thesis
  proof (cases r1)
    case (Inl e)
    obtain w2 r2 where 2: "send_step (in_backend I) ''reject'' (Rejected (am_tag m)) w1 = (w2, r2)" by fastforce
    obtain w3 r3 where 3: "send_step (in_backend I) ''nack'' (Requeued (am_tag m)) w1 = (w3, r3)" by fastforce
    obtain w4 r4 where 4: "send_step (in_backend I) ''nack'' (Requeued (am_tag m)) w2 = (w4, r4)" by fastforce
    have "map snd (sv_sent w') \<in> {map snd (sv_sent w) @ [Rejected (am_tag m)], map snd (sv_sent w) @ [Requeued (am_tag m)]}"
      using assms b Inl s1 2 3 4 send_step_cases [OF 2] send_step_cases [OF 3] send_step_cases [OF 4]
      by (cases r2; cases r3; cases r4) (auto simp: ingress_one_def exceptS_def tryS_def bindS_def split: if_splits)
    then show ?thesis by auto
  next
    case (Inr envelope)
    obtain w2 r2 where 2: "forward I m envelope w1 = (w2, r2)" by fastforce
    obtain w3 r3 where 3: "send_step (in_backend I) ''nack'' (Requeued (am_tag m)) w2 = (w3, r3)" by fastforce
    have "map snd (sv_sent w') \<in> {map snd (sv_sent w) @ [Requeued (am_tag m)],
        map snd (sv_sent w) @ [Published ''act.ingress.requested'' envelope, Acked (am_tag m)],
        map snd (sv_sent w) @ [Published ''act.ingress.requested'' envelope, Requeued (am_tag m)]}"
      using assms b Inr s1 2 3 forward_effects [OF 2] send_step_cases [OF 3]
      by (cases r2; cases r3) (auto simp: ingress_one_def exceptS_def tryS_def bindS_def split: if_splits)
    then show ?thesis using build_envelope_admissible [OF b [unfolded Inr]] by auto
  qed
qed

definition example_ingress :: "unit ingress" where
  "example_ingress = \<lparr>in_backend = quiet, in_crypto = example_crypto, in_key = replicate 32 (CHR ''i'')\<rparr>"

definition example_delivery :: "string \<Rightarrow> amqp_message" where
  "example_delivery user = \<lparr>am_tag = 7, am_user_id = Some user, am_body = Inr example_command\<rparr>"

definition empty_world :: "unit ingress_world" where
  "empty_world = \<lparr>sv_env = (), sv_clock = 30, sv_events = [], sv_counts = [], sv_sent = []\<rparr>"

theorem ingress_settles_once_witness:
  "\<exists>w'. ingress_one example_ingress (example_delivery ''stranger'') empty_world = (w', Inr ()) \<and>
     (\<exists>out. map snd (sv_sent w') = out \<and> out \<noteq> [] \<and> last out \<in> {Rejected 7, Requeued 7, Acked 7})"
proof -
  obtain w' where w: "ingress_one example_ingress (example_delivery ''stranger'') empty_world = (w', Inr ())"
    by (auto simp: ingress_one_def build_nats_envelope_def example_delivery_def publishers_def exceptS_def tryS_def
        bindS_def send_step_def example_ingress_def quiet_def)
  show ?thesis using ingress_settles_once [OF w] w by (auto simp: example_delivery_def empty_world_def)
qed

end
