(* ===== verification/Actuation_Pipeline.thy ===== *)
theory Actuation_Pipeline
  imports Service_World
begin

text \<open>
  The actuation orchestrator (\<open>actuation_control_orchestrator\<close>): a command received on the bus
  is validated, written, and answered by one event on the results exchange. Requests to the workers
  are a parameter: the bus delivers them and answers, times out or fails.
\<close>

section \<open>The configuration\<close>

record pipeline_stage =
  pg_name :: string
  pg_subject :: string
  pg_timeout :: real

record pipeline_config =
  pc_stages :: "pipeline_stage list"
  pc_dlq_subject :: string

definition stage :: "string \<Rightarrow> pipeline_config \<Rightarrow> pipeline_stage option" where
  "stage name cfg = find (\<lambda>s. pg_name s = name) (pc_stages cfg)"

section \<open>The pipeline\<close>

text \<open>Messages sent: a copy of a rejection to the dead-letter subject, and the results.\<close>

datatype outcome_message = DeadLetter actuation_event | Outcome actuation_event

type_synonym 'e pipeline_world = "('e, outcome_message) service_world"

record 'e orchestrator =
  or_backend :: "'e backend"
  or_config :: pipeline_config
  or_allow_writes :: bool
  or_request :: "string \<Rightarrow> act_payload nats_envelope \<Rightarrow> real \<Rightarrow> ('e pipeline_world, act_payload message) act"

text \<open>
  \<open>Result(**req.model_dump(), decision=..., ...)\<close>: a member of the command with the name of an
  added keyword is a \<open>TypeError\<close>.
\<close>

definition build_event :: "actuation_request \<Rightarrow> string list \<Rightarrow> actuation_event \<Rightarrow> actuation_event res" where
  "build_event req added ev =
     (if set (map fst (ar_extra req)) \<inter> set added = {} then Inr ev
      else Inl (TypeError ''got multiple values for keyword argument''))"

definition publish_result :: "'e orchestrator \<Rightarrow> actuation_event \<Rightarrow> ('e pipeline_world, unit) act" where
  "publish_result R ev = send_step (or_backend R) ''actuation.result'' (Outcome ev)"

definition outcome_published ::
  "'e orchestrator \<Rightarrow> actuation_request \<Rightarrow> doc \<Rightarrow> ('e pipeline_world, unit) act" where
  "outcome_published R req evidence =
     journal_step (or_backend R) ''actuation-control-orchestrator'' ''outcome_published'' req evidence"

definition emit_unsettled ::
  "'e orchestrator \<Rightarrow> actuation_request \<Rightarrow> string \<Rightarrow> string \<Rightarrow> ('e pipeline_world, unit) act" where
  "emit_unsettled R req state reason =
     bindS
       (if state = ''pending''
        then bindS (liftS (build_event req [''decision'', ''outcome_reason''] (PendingEvent req reason))) (\<lambda>ev.
               thenS (count_step ''actuation_pending_total'' [''actuation'']) (retS ev))
        else bindS (liftS (build_event req [''decision'', ''outcome_reason''] (UnknownEvent req reason))) (\<lambda>ev.
               thenS (count_step ''actuation_unknown_total'' [''actuation'']) (retS ev)))
       (\<lambda>ev. thenS (publish_result R ev)
               (outcome_published R req [(''outcome'', JStr state), (''reason'', JStr reason)]))"

definition emit_reject ::
  "'e orchestrator \<Rightarrow> actuation_request \<Rightarrow> string \<Rightarrow> bool \<Rightarrow> ('e pipeline_world, unit) act" where
  "emit_reject R req reason retryable =
     bindS (liftS (build_event req [''decision'', ''rejection_reason'', ''retryable''] (RejectEvent req reason retryable)))
       (\<lambda>ev. thenS (send_step (or_backend R) (pc_dlq_subject (or_config R)) (DeadLetter ev))
               (thenS (publish_result R ev)
                 (outcome_published R req [(''outcome'', JStr ''reject''), (''reason'', JStr reason),
                    (''retryable'', JBool retryable)])))"

definition emit_approve ::
  "'e orchestrator \<Rightarrow> actuation_request \<Rightarrow> datetime \<Rightarrow> bool \<Rightarrow> ('e pipeline_world, unit) act" where
  "emit_approve R req written_at replayed =
     bindS (liftS (build_event req [''decision'', ''written_at'', ''replayed''] (ApproveEvent req written_at replayed)))
       (\<lambda>ev. thenS (publish_result R ev)
               (outcome_published R req [(''outcome'', JStr ''approve''), (''replayed'', JBool replayed),
                  (''written_at'', JTime written_at)]))"

definition reject_with ::
  "'e orchestrator \<Rightarrow> actuation_request \<Rightarrow> string \<Rightarrow> bool \<Rightarrow> string \<Rightarrow> ('e pipeline_world, unit) act" where
  "reject_with R req reason retryable category =
     thenS (emit_reject R req reason retryable) (count_step ''actuation_rejected_total'' [''actuation'', category])"

definition call_stage ::
  "'e orchestrator \<Rightarrow> pipeline_stage \<Rightarrow> string \<Rightarrow> act_payload \<Rightarrow> ('e pipeline_world, act_payload message) act" where
  "call_stage R st cid payload =
     bindS (liftS (validate_envelope (ok_envelope cid (Some payload)))) (\<lambda>env.
       request_reply (or_request R (pg_subject st) env (pg_timeout st)))"

text \<open>\<open>reason or default\<close>: an empty text counts as missing.\<close>

definition or_default :: "string option \<Rightarrow> string \<Rightarrow> string" where
  "or_default r d = (case r of None \<Rightarrow> d | Some s \<Rightarrow> if s = [] then d else s)"

definition read_validation :: "string \<Rightarrow> act_payload message \<Rightarrow> validation_result res" where
  "read_validation cid msg =
     bindE (read_envelope msg) (\<lambda>env.
     bindE (guardE (env_status env = StOk \<and> env_correlation_id env = cid) (ValueError ''invalid validation reply''))
       (\<lambda>_. validate_validation (env_payload env)))"

definition read_write_result :: "string \<Rightarrow> act_payload message \<Rightarrow> write_result res" where
  "read_write_result cid msg =
     bindE (read_envelope msg) (\<lambda>env.
     bindE (guardE (env_correlation_id env = cid) (ValueError ''writer reply identity mismatch'')) (\<lambda>_.
     bindE (validate_write_result (env_payload env)) (\<lambda>result.
     bindE (guardE (\<not> (wr_outcome result = Completed \<and> (env_status env \<noteq> StOk \<or> wr_written_at result = None)))
              (ValueError ''writer completion evidence missing'')) (\<lambda>_. Inr result))))"

text \<open>The answer to a result of the writer.\<close>

definition settle_outcome ::
  "'e orchestrator \<Rightarrow> actuation_request \<Rightarrow> int \<Rightarrow> write_result \<Rightarrow> ('e pipeline_world, unit) act" where
  "settle_outcome R req ingress_at result =
     thenS (whenS (wr_replayed result)
              (count_step ''actuation_replayed_total'' [''actuation'', outcome_str (wr_outcome result)]))
       (case wr_outcome result of
          Unknown \<Rightarrow> emit_unsettled R req ''unknown'' (or_default (wr_reason result) ''unknown'')
        | Pending \<Rightarrow> emit_unsettled R req ''pending'' (or_default (wr_reason result) ''pending'')
        | NotExecuted \<Rightarrow>
            reject_with R req (or_default (wr_reason result) ''writer_refused'') (wr_retryable result) ''pre_write_failure''
        | Conflict \<Rightarrow> reject_with R req ''command_id_reused'' (wr_retryable result) ''command_conflict''
        | Completed \<Rightarrow>
            (case wr_written_at result of
               None \<Rightarrow> raiseS AssertionError
             | Some t \<Rightarrow>
                 thenS (emit_approve R req t (wr_replayed result))
                   (whenS (\<not> wr_replayed result)
                     (thenS (count_step ''actuation_approved_total'' [''actuation''])
                       (bindS (now_step (or_backend R)) (\<lambda>_.
                          count_step ''actuation_e2e_latency_seconds'' [''actuation'']))))))"

definition write_stage ::
  "'e orchestrator \<Rightarrow> actuation_request \<Rightarrow> string \<Rightarrow> int \<Rightarrow> signed_evidence \<Rightarrow> ('e pipeline_world, unit) act" where
  "write_stage R req cid ingress_at ev =
     (case stage ''write_signal'' (or_config R) of
        None \<Rightarrow> retS ()
      | Some st \<Rightarrow>
          exceptS (call_stage R st cid (PApproved \<lparr>aw_command = req, aw_approval = ev\<rparr>))
            (\<lambda>e. case e of
                   RequestTimeout m \<Rightarrow>
                     thenS (count_step ''actuation_stage_timeout_total'' [''actuation'', ''write_signal''])
                       (emit_unsettled R req ''unknown'' ''write_timeout'')
                 | _ \<Rightarrow> emit_unsettled R req ''unknown'' ''write_transport_error'')
            (\<lambda>msg. case read_write_result cid msg of
                Inl e \<Rightarrow> if is_exception e then emit_unsettled R req ''unknown'' ''bad_write_reply'' else raiseS e
              | Inr result \<Rightarrow> settle_outcome R req ingress_at result))"

definition after_validation ::
  "'e orchestrator \<Rightarrow> actuation_request \<Rightarrow> string \<Rightarrow> int \<Rightarrow> validation_result \<Rightarrow> ('e pipeline_world, unit) act" where
  "after_validation R req cid ingress_at validation =
     (if vr_decision validation = Reject
      then reject_with R req (or_default (vr_reason validation) ''rejected'') False
             (case vr_reason_code validation of None \<Rightarrow> ''policy_reject'' | Some c \<Rightarrow> reason_code_str c)
      else case vr_approval validation of
             None \<Rightarrow> reject_with R req ''missing_approval'' False ''missing_approval''
           | Some ev \<Rightarrow>
               if \<not> or_allow_writes R then reject_with R req ''writes_disabled'' False ''writes_disabled''
               else write_stage R req cid ingress_at ev)"

definition run_actuation_pipeline ::
  "'e orchestrator \<Rightarrow> act_payload nats_envelope \<Rightarrow> ('e pipeline_world, unit) act" where
  "run_actuation_pipeline R envelope =
     bindS (now_step (or_backend R)) (\<lambda>ingress_at.
     case bindE (validate_authenticated (env_payload envelope)) (\<lambda>a.
            bindE (guardE (ar_correlation_id (au_command a) = env_correlation_id envelope)
                     (ValueError ''command envelope identity mismatch'')) (\<lambda>_. Inr a)) of
       Inl e \<Rightarrow> if is_exception e then retS () else raiseS e
     | Inr a \<Rightarrow>
         let req = au_command a; cid = env_correlation_id envelope in
         thenS (journal_step (or_backend R) ''actuation-control-orchestrator'' ''pipeline_received'' req [])
           (case stage ''validate'' (or_config R) of
              None \<Rightarrow> retS ()
            | Some st \<Rightarrow>
                exceptS (call_stage R st cid (PAuthenticated a))
                  (\<lambda>e. case e of
                         RequestTimeout m \<Rightarrow>
                           thenS (count_step ''actuation_stage_timeout_total'' [''actuation'', ''validate''])
                             (reject_with R req ''validate_timeout'' False ''validate_timeout'')
                       | _ \<Rightarrow> reject_with R req (exn_name e) False (exn_name e))
                  (\<lambda>msg. case read_validation cid msg of
                      Inl e \<Rightarrow> if is_exception e
                               then reject_with R req ''bad_validate_reply'' False ''bad_validate_reply'' else raiseS e
                    | Inr validation \<Rightarrow> after_validation R req cid ingress_at validation)))"

definition orchestrator_handle :: "'e orchestrator \<Rightarrow> act_payload message \<Rightarrow> ('e pipeline_world, unit) act" where
  "orchestrator_handle R msg =
     (case read_envelope msg of
        Inl e \<Rightarrow> if is_exception e then retS () else raiseS e
      | Inr envelope \<Rightarrow> run_actuation_pipeline R envelope)"

text \<open>The counter series that exist before the first command.\<close>

definition known_rejection_reasons :: "string list" where
  "known_rejection_reasons =
     [''out_of_range'', ''not_allowlisted'', ''no_policy'', ''not_numeric'', ''policy_reject'', ''expired'',
      ''missing_approval'', ''command_conflict'', ''pre_write_failure'', ''validate_timeout'',
      ''bad_validate_reply'', ''writes_disabled'', ''write_timeout'']"

section \<open>What a run sends\<close>

definition silent :: "(('e, 'm) service_world, 'a) act \<Rightarrow> bool" where
  "silent m \<longleftrightarrow> (\<forall>w. sv_sent (fst (m w)) = sv_sent w)"

fun outcome_of :: "string \<times> outcome_message \<Rightarrow> actuation_event list" where
  "outcome_of (_, Outcome ev) = [ev]"
| "outcome_of (_, DeadLetter ev) = []"

definition outcomes :: "(string \<times> outcome_message) list \<Rightarrow> actuation_event list" where
  "outcomes out = concat (map outcome_of out)"

fun event_command :: "actuation_event \<Rightarrow> actuation_request" where
  "event_command (ApproveEvent r _ _) = r"
| "event_command (RejectEvent r _ _) = r"
| "event_command (UnknownEvent r _) = r"
| "event_command (PendingEvent r _) = r"

text \<open>At most one event on the results exchange, exactly one on a normal return, each satisfying \<open>Q\<close>.\<close>

definition answers :: "(actuation_event \<Rightarrow> bool) \<Rightarrow> ('e pipeline_world, unit) act \<Rightarrow> bool" where
  "answers Q m \<longleftrightarrow>
     (\<forall>w w' r. m w = (w', r) \<longrightarrow>
        (\<exists>out. sv_sent w' = sv_sent w @ out \<and> length (outcomes out) \<le> 1 \<and>
           (r = Inr () \<longrightarrow> length (outcomes out) = 1) \<and> (\<forall>ev \<in> set (outcomes out). Q ev)))"

lemma outcomes_simps [simp]:
  "outcomes [] = []" "outcomes (xs @ ys) = outcomes xs @ outcomes ys"
  "outcomes ((s, Outcome ev) # out) = ev # outcomes out" "outcomes ((s, DeadLetter ev) # out) = outcomes out"
  by (simp_all add: outcomes_def)

lemma silent_basic [edge_intros]:
  "silent (retS a)" "silent (raiseS e)" "silent (liftS r)" "silent (getS g)" "silent (guardS b e)"
  "silent (now_step B)" "silent (journal_step B c x req d)" "silent (count_step n ls)"
  by (auto simp: silent_def now_step_def journal_step_def Let_def split: prod.splits option.splits)

lemma silent_bindS [edge_intros]: "silent m \<Longrightarrow> (\<And>a. silent (f a)) \<Longrightarrow> silent (bindS m f)"
  unfolding silent_def bindS_def by (auto split: prod.split sum.split) (metis fst_conv)+

lemma silent_tryS [edge_intros]:
  "silent m \<Longrightarrow> (\<And>e. silent (h e)) \<Longrightarrow> (\<And>a. silent (k a)) \<Longrightarrow> silent (tryS m h k)"
  unfolding silent_def tryS_def by (auto split: prod.split sum.split) (metis fst_conv)+

lemma silent_cond [edge_intros]:
  "(b \<Longrightarrow> silent m) \<Longrightarrow> (\<not> b \<Longrightarrow> silent n) \<Longrightarrow> silent (if b then m else n)"
  "(b \<Longrightarrow> silent p) \<Longrightarrow> silent (whenS b p)"
  by (auto simp: whenS_def silent_def)

lemma silentD: "silent m \<Longrightarrow> m w = (w', r) \<Longrightarrow> sv_sent w' = sv_sent w"
  unfolding silent_def by (metis fst_conv)

lemma answersD:
  "answers Q m \<Longrightarrow> m w = (w', r) \<Longrightarrow>
     \<exists>out. sv_sent w' = sv_sent w @ out \<and> length (outcomes out) \<le> 1 \<and>
       (r = Inr () \<longrightarrow> length (outcomes out) = 1) \<and> (\<forall>ev \<in> set (outcomes out). Q ev)"
  by (simp add: answers_def)

lemma answers_raise [edge_intros]: "answers Q (raiseS e)"
  by (auto simp: answers_def intro!: exI [of _ "[]"])

lemma answers_bind:
  assumes "silent m" and "\<And>a w w'. m w = (w', Inr a) \<Longrightarrow> answers Q (f a)"
  shows "answers Q (bindS m f)"
  unfolding answers_def
proof (intro allI impI)
  fix w w' r assume e: "bindS m f w = (w', r)"
  obtain w1 r1 where 1: "m w = (w1, r1)" by fastforce
  note s = silentD [OF assms(1) 1]
  show "\<exists>out. sv_sent w' = sv_sent w @ out \<and> length (outcomes out) \<le> 1 \<and>
      (r = Inr () \<longrightarrow> length (outcomes out) = 1) \<and> (\<forall>ev \<in> set (outcomes out). Q ev)"
  proof (cases r1)
    case (Inl x)
    then show ?thesis using e 1 s by (auto simp: bindS_def intro!: exI [of _ "[]"])
  next
    case (Inr a)
    then have "f a w1 = (w', r)" using e 1 by (simp add: bindS_def)
    from answersD [OF assms(2) [OF 1 [unfolded Inr]] this] s show ?thesis by simp
  qed
qed

lemma answers_then:
  assumes "answers Q m" "silent n" shows "answers Q (thenS m n)"
  unfolding answers_def
proof (intro allI impI)
  fix w w' r assume e: "thenS m n w = (w', r)"
  obtain w1 r1 where 1: "m w = (w1, r1)" by fastforce
  obtain w2 r2 where 2: "n w1 = (w2, r2)" by fastforce
  from answersD [OF assms(1) 1] silentD [OF assms(2) 2] e 1 2
  show "\<exists>out. sv_sent w' = sv_sent w @ out \<and> length (outcomes out) \<le> 1 \<and>
      (r = Inr () \<longrightarrow> length (outcomes out) = 1) \<and> (\<forall>ev \<in> set (outcomes out). Q ev)"
    by (cases r1) (auto simp: bindS_def)
qed

lemma answers_except:
  assumes "silent m" and "\<And>e. answers Q (h e)" and "\<And>a w w'. m w = (w', Inr a) \<Longrightarrow> answers Q (k a)"
  shows "answers Q (exceptS m h k)"
  unfolding answers_def
proof (intro allI impI)
  fix w w' r assume e: "exceptS m h k w = (w', r)"
  obtain w1 r1 where 1: "m w = (w1, r1)" by fastforce
  note s = silentD [OF assms(1) 1]
  have "answers Q (case r1 of Inl e \<Rightarrow> if is_exception e then h e else raiseS e | Inr a \<Rightarrow> k a)"
    using assms(2) assms(3) [of w w1] 1 by (auto split: sum.split intro: answers_raise)
  moreover have "(case r1 of Inl e \<Rightarrow> if is_exception e then h e else raiseS e | Inr a \<Rightarrow> k a) w1 = (w', r)"
    using e 1 by (auto simp: exceptS_def tryS_def split: sum.splits)
  ultimately show "\<exists>out. sv_sent w' = sv_sent w @ out \<and> length (outcomes out) \<le> 1 \<and>
      (r = Inr () \<longrightarrow> length (outcomes out) = 1) \<and> (\<forall>ev \<in> set (outcomes out). Q ev)"
    using answersD s by fastforce
qed

lemma answers_publish:
  assumes "Q ev" shows "answers Q (thenS (publish_result R ev) (outcome_published R req d))"
proof (rule answers_then)
  show "answers Q (publish_result R ev)"
    unfolding answers_def publish_result_def
  proof (intro allI impI)
    fix w w' r assume e: "send_step (or_backend R) ''actuation.result'' (Outcome ev) w = (w', r)"
    show "\<exists>out. sv_sent w' = sv_sent w @ out \<and> length (outcomes out) \<le> 1 \<and>
      (r = Inr () \<longrightarrow> length (outcomes out) = 1) \<and> (\<forall>ev \<in> set (outcomes out). Q ev)"
    proof (cases r)
      case (Inl x)
      then have "sv_sent w' = sv_sent w" using e by (auto simp: send_step_def split: prod.splits option.splits)
      then show ?thesis using Inl by (auto intro!: exI [of _ "[]"])
    next
      case (Inr u)
      from send_step_Inr [OF e [unfolded Inr]] assms show ?thesis by simp
    qed
  qed
  show "silent (outcome_published R req d)" unfolding outcome_published_def by (rule silent_basic)
qed

text \<open>A dead letter before the answer.\<close>

lemma answers_dead_letter:
  assumes "answers Q n" shows "answers Q (thenS (send_step B s (DeadLetter ev)) n)"
  unfolding answers_def
proof (intro allI impI)
  fix w w' r assume e: "thenS (send_step B s (DeadLetter ev)) n w = (w', r)"
  obtain w1 r1 where 1: "send_step B s (DeadLetter ev) w = (w1, r1)" by fastforce
  show "\<exists>out. sv_sent w' = sv_sent w @ out \<and> length (outcomes out) \<le> 1 \<and>
      (r = Inr () \<longrightarrow> length (outcomes out) = 1) \<and> (\<forall>ev \<in> set (outcomes out). Q ev)"
  proof (cases r1)
    case (Inl x)
    then have "sv_sent w' = sv_sent w" "r = Inl x"
      using e 1 by (auto simp: bindS_def send_step_def split: prod.splits option.splits)
    then show ?thesis by (auto intro!: exI [of _ "[]"])
  next
    case (Inr u)
    then have "n w1 = (w', r)" using e 1 by (simp add: bindS_def)
    from answersD [OF assms this] send_step_Inr [OF 1 [unfolded Inr]] show ?thesis by auto
  qed
qed

section \<open>The answer to a command\<close>

text \<open>Requests publish no results themselves.\<close>

definition quiet_requests :: "'e orchestrator \<Rightarrow> bool" where
  "quiet_requests R \<longleftrightarrow> (\<forall>s env t. silent (or_request R s env t))"

text \<open>The writer acknowledged the write of this command under an approval, at time \<open>t\<close>.\<close>

definition write_acknowledged :: "'e orchestrator \<Rightarrow> string \<Rightarrow> actuation_request \<Rightarrow> datetime \<Rightarrow> bool \<Rightarrow> bool" where
  "write_acknowledged R cid req t replayed \<longleftrightarrow>
     (\<exists>st ev w w' env result. stage ''write_signal'' (or_config R) = Some st \<and> or_allow_writes R \<and>
        or_request R (pg_subject st) (ok_envelope cid (Some (PApproved \<lparr>aw_command = req, aw_approval = ev\<rparr>)))
          (pg_timeout st) w = (w', Inr (Json env)) \<and>
        env_status env = StOk \<and> env_correlation_id env = cid \<and> env_payload env = Some (PWrite result) \<and>
        wr_outcome result = Completed \<and> wr_written_at result = Some t \<and> wr_replayed result = replayed)"

definition truthful :: "'e orchestrator \<Rightarrow> string \<Rightarrow> actuation_request \<Rightarrow> actuation_event \<Rightarrow> bool" where
  "truthful R cid req ev \<longleftrightarrow>
     event_command ev = req \<and>
     (\<forall>t replayed. ev = ApproveEvent req t replayed \<longrightarrow> write_acknowledged R cid req t replayed)"

lemma answers_unsettled: "answers (truthful R cid req) (emit_unsettled R req state reason)"
  unfolding emit_unsettled_def
  by (rule answers_bind)
    (auto intro!: edge_intros answers_publish simp: truthful_def build_event_def bindS_Inr_iff split: if_splits)

lemma answers_reject: "answers (truthful R cid req) (emit_reject R req reason retryable)"
  unfolding emit_reject_def
  by (rule answers_bind)
    (auto intro!: edge_intros answers_dead_letter answers_publish simp: truthful_def build_event_def split: if_splits)

lemma answers_reject_with: "answers (truthful R cid req) (reject_with R req reason retryable category)"
  unfolding reject_with_def by (intro answers_then answers_reject edge_intros)

lemma answers_approve:
  "write_acknowledged R cid req t rp \<Longrightarrow> answers (truthful R cid req) (emit_approve R req t rp)"
  unfolding emit_approve_def
  by (rule answers_bind)
    (auto intro!: edge_intros answers_publish simp: truthful_def build_event_def split: if_splits)

lemma answers_settle:
  assumes "\<And>t. wr_outcome result = Completed \<Longrightarrow> wr_written_at result = Some t \<Longrightarrow>
    write_acknowledged R cid req t (wr_replayed result)"
  shows "answers (truthful R cid req) (settle_outcome R req ingress_at result)"
  unfolding settle_outcome_def
proof (rule answers_bind)
  show "answers (truthful R cid req) (case wr_outcome result of
          Unknown \<Rightarrow> emit_unsettled R req ''unknown'' (or_default (wr_reason result) ''unknown'')
        | Pending \<Rightarrow> emit_unsettled R req ''pending'' (or_default (wr_reason result) ''pending'')
        | NotExecuted \<Rightarrow>
            reject_with R req (or_default (wr_reason result) ''writer_refused'') (wr_retryable result) ''pre_write_failure''
        | Conflict \<Rightarrow> reject_with R req ''command_id_reused'' (wr_retryable result) ''command_conflict''
        | Completed \<Rightarrow>
            (case wr_written_at result of
               None \<Rightarrow> raiseS AssertionError
             | Some t \<Rightarrow>
                 thenS (emit_approve R req t (wr_replayed result))
                   (whenS (\<not> wr_replayed result)
                     (thenS (count_step ''actuation_approved_total'' [''actuation''])
                       (bindS (now_step (or_backend R)) (\<lambda>_.
                          count_step ''actuation_e2e_latency_seconds'' [''actuation'']))))))"
    using assms
    by (cases "wr_outcome result"; cases "wr_written_at result")
      (auto intro!: answers_unsettled answers_reject_with answers_then answers_approve edge_intros)
qed (intro edge_intros)

lemma silent_request: "silent m \<Longrightarrow> silent (request_reply m)"
  unfolding request_reply_def by (rule silent_tryS) (auto intro: edge_intros split: exn.split)

lemma silent_call: "quiet_requests R \<Longrightarrow> silent (call_stage R st cid p)"
  unfolding call_stage_def quiet_requests_def by (intro edge_intros silent_request) auto

lemma call_stage_Inr:
  "call_stage R st cid p w = (w', Inr msg) \<Longrightarrow>
     or_request R (pg_subject st) (ok_envelope cid (Some p)) (pg_timeout st) w = (w', Inr msg)"
  by (auto simp: call_stage_def bindS_Inr_iff dest: request_reply_Inr)

lemma read_write_result_Inr:
  assumes "read_write_result cid msg = Inr result"
  shows "\<exists>env. msg = Json env \<and> env_correlation_id env = cid \<and> env_payload env = Some (PWrite result) \<and>
    (wr_outcome result = Completed \<longrightarrow> env_status env = StOk \<and> wr_written_at result \<noteq> None)"
  using assms by (auto simp: read_write_result_def bindE_Inr_iff read_envelope_Inr validate_write_result_Inr)

lemma answers_write:
  assumes "quiet_requests R" "stage ''write_signal'' (or_config R) = Some st" "or_allow_writes R"
  shows "answers (truthful R cid req) (write_stage R req cid ingress_at ev)"
  unfolding write_stage_def assms(2) option.case
proof (rule answers_except)
  fix msg w w'
  assume c: "call_stage R st cid (PApproved \<lparr>aw_command = req, aw_approval = ev\<rparr>) w = (w', Inr msg)"
  show "answers (truthful R cid req) (case read_write_result cid msg of
      Inl e \<Rightarrow> if is_exception e then emit_unsettled R req ''unknown'' ''bad_write_reply'' else raiseS e
    | Inr result \<Rightarrow> settle_outcome R req ingress_at result)"
  proof (cases "read_write_result cid msg")
    case (Inr result)
    from read_write_result_Inr [OF this] call_stage_Inr [OF c] assms(2,3)
    have "write_acknowledged R cid req t (wr_replayed result)"
      if "wr_outcome result = Completed" "wr_written_at result = Some t" for t
      using that unfolding write_acknowledged_def by blast
    then show ?thesis using Inr by (simp add: answers_settle)
  qed (auto intro: answers_unsettled edge_intros)
qed (auto intro!: silent_call assms(1) answers_bind edge_intros answers_unsettled split: exn.split)

lemma answers_after_validation:
  assumes "quiet_requests R" "stage ''write_signal'' (or_config R) = Some st"
  shows "answers (truthful R cid req) (after_validation R req cid ingress_at v)"
  using assms by (auto simp: after_validation_def intro: answers_reject_with answers_write split: option.split)

lemma answers_pipeline:
  assumes "quiet_requests R" "stage ''validate'' (or_config R) = Some vs" "stage ''write_signal'' (or_config R) = Some ws"
    and "env_payload envelope = Some (PAuthenticated a)" "actuation_request_ok (au_command a)"
    and "ar_correlation_id (au_command a) = env_correlation_id envelope"
  shows "answers (truthful R (env_correlation_id envelope) (au_command a)) (run_actuation_pipeline R envelope)"
proof -
  let ?Q = "truthful R (env_correlation_id envelope) (au_command a)"
  have exc: "answers ?Q (case e of
        RequestTimeout m \<Rightarrow>
          thenS (count_step ''actuation_stage_timeout_total'' [''actuation'', ''validate''])
            (reject_with R (au_command a) ''validate_timeout'' False ''validate_timeout'')
      | _ \<Rightarrow> reject_with R (au_command a) (exn_name e) False (exn_name e))" for e
    by (cases e) (simp_all add: answers_reject_with answers_bind silent_basic)
  have msg: "answers ?Q (case read_validation (env_correlation_id envelope) msg of
        Inl e \<Rightarrow> if is_exception e
                 then reject_with R (au_command a) ''bad_validate_reply'' False ''bad_validate_reply'' else raiseS e
      | Inr validation \<Rightarrow> after_validation R (au_command a) (env_correlation_id envelope) t validation)" for msg t
    using answers_after_validation [OF assms(1,3)] by (auto intro: answers_reject_with edge_intros split: sum.split)
  have read: "bindE (validate_authenticated (env_payload envelope)) (\<lambda>a.
            bindE (guardE (ar_correlation_id (au_command a) = env_correlation_id envelope)
                     (ValueError ''command envelope identity mismatch'')) (\<lambda>_. Inr a)) = Inr a"
    using assms(4-6) by simp
  show ?thesis
    unfolding run_actuation_pipeline_def read assms(2) option.case sum.case Let_def
    by (intro answers_bind answers_except silent_call assms(1) exc msg edge_intros)
qed

section \<open>Properties\<close>

text \<open>
  C12. The answer to a command is truthful: a run publishes at most one event on the results
  exchange, exactly one when it ends normally; the event carries the command, and it reports an
  approval only if the writer acknowledged this very command, approved and with writes enabled, at
  the time reported. Requests on the bus are assumed to publish no results of their own.
\<close>

theorem pipeline_answers_truthfully:
  assumes "quiet_requests R" and "stage ''validate'' (or_config R) = Some vs"
    and "stage ''write_signal'' (or_config R) = Some ws"
    and "env_payload envelope = Some (PAuthenticated a)" and "actuation_request_ok (au_command a)"
    and "ar_correlation_id (au_command a) = env_correlation_id envelope"
    and "run_actuation_pipeline R envelope w = (w', r)"
  shows "\<exists>out. sv_sent w' = sv_sent w @ out \<and> length (outcomes out) \<le> 1 \<and>
    (r = Inr () \<longrightarrow> length (outcomes out) = 1) \<and>
    (\<forall>ev \<in> set (outcomes out). event_command ev = au_command a \<and>
       (\<forall>t replayed. ev = ApproveEvent (au_command a) t replayed \<longrightarrow>
          write_acknowledged R (env_correlation_id envelope) (au_command a) t replayed))"
  using answersD [OF answers_pipeline [OF assms(1-6)] assms(7)] by (simp add: truthful_def)

definition example_answers :: "string \<Rightarrow> act_payload nats_envelope \<Rightarrow> real \<Rightarrow> (unit pipeline_world, act_payload message) act" where
  "example_answers subject env t w =
     (w, Inr (Json (ok_envelope (env_correlation_id env) (Some
        (if subject = ''v''
         then PValidation \<lparr>vr_decision = Approve, vr_reason = None, vr_reason_code = None,
                vr_approval = Some (example_evidence Approval ''w'')\<rparr>
         else PWrite \<lparr>wr_outcome = Completed, wr_written_at = Some (utc 40), wr_reason = None,
                wr_retryable = False, wr_replayed = False\<rparr>)))))"

definition example_orchestrator :: "unit orchestrator" where
  "example_orchestrator =
     \<lparr>or_backend = quiet,
      or_config = \<lparr>pc_stages = [\<lparr>pg_name = ''validate'', pg_subject = ''v'', pg_timeout = 2\<rparr>,
                                \<lparr>pg_name = ''write_signal'', pg_subject = ''w'', pg_timeout = 5\<rparr>],
                   pc_dlq_subject = ''dlq''\<rparr>,
      or_allow_writes = True, or_request = example_answers\<rparr>"

definition example_ingress_envelope :: "act_payload nats_envelope" where
  "example_ingress_envelope = ok_envelope (replicate 26 (CHR ''0''))
     (Some (PAuthenticated \<lparr>au_command = example_command, au_identity = example_evidence Ingress []\<rparr>))"

definition example_pipeline_world :: "unit pipeline_world" where
  "example_pipeline_world = \<lparr>sv_env = (), sv_clock = 30, sv_events = [], sv_counts = [], sv_sent = []\<rparr>"

lemma example_run_ends:
  "case snd (run_actuation_pipeline example_orchestrator example_ingress_envelope example_pipeline_world) of
     Inr u \<Rightarrow> True | Inl e \<Rightarrow> False"
  by code_simp

theorem pipeline_answers_truthfully_witness:
  "\<exists>ev. outcomes (sv_sent (fst (run_actuation_pipeline example_orchestrator example_ingress_envelope
       example_pipeline_world))) = [ev] \<and> event_command ev = example_command"
proof -
  let ?run = "run_actuation_pipeline example_orchestrator example_ingress_envelope example_pipeline_world"
  have q: "quiet_requests example_orchestrator"
    by (simp add: quiet_requests_def silent_def example_orchestrator_def example_answers_def)
  have st: "stage ''validate'' (or_config example_orchestrator) = Some \<lparr>pg_name = ''validate'', pg_subject = ''v'', pg_timeout = 2\<rparr>"
      "stage ''write_signal'' (or_config example_orchestrator) = Some \<lparr>pg_name = ''write_signal'', pg_subject = ''w'', pg_timeout = 5\<rparr>"
    by (simp_all add: stage_def example_orchestrator_def)
  have r: "?run = (fst ?run, Inr ())"
    using example_run_ends by (cases ?run) (auto split: sum.splits)
  have p: "env_payload example_ingress_envelope = Some (PAuthenticated \<lparr>au_command = example_command, au_identity = example_evidence Ingress []\<rparr>)"
    by (simp add: example_ingress_envelope_def)
  have c: "ar_correlation_id example_command = env_correlation_id example_ingress_envelope"
    by (simp add: example_ingress_envelope_def example_command_def)
  obtain out where "sv_sent (fst ?run) = sv_sent example_pipeline_world @ out" "length (outcomes out) = 1"
      "\<forall>ev \<in> set (outcomes out). event_command ev = example_command"
    using pipeline_answers_truthfully [OF q st p _ _ r] example_command_ok c by auto
  then show ?thesis
    by (cases "outcomes out") (auto simp: example_pipeline_world_def)
qed

text \<open>
  A command that carries a member \<open>decision\<close> is never answered, not even after its write: every
  result raises a \<open>TypeError\<close>.
\<close>

lemma silent_bind_result:
  "silent m \<Longrightarrow> (\<And>a w w'. m w = (w', Inr a) \<Longrightarrow> silent (f a)) \<Longrightarrow> silent (bindS m f)"
  unfolding silent_def bindS_def by (auto split: prod.split sum.split) (metis fst_conv)+

lemma silent_emit:
  assumes "''decision'' \<in> set (map fst (ar_extra req))"
  shows "silent (emit_unsettled R req state reason)" "silent (emit_reject R req reason retryable)"
    "silent (emit_approve R req t replayed)"
  using assms by (auto simp: emit_unsettled_def emit_reject_def emit_approve_def build_event_def intro: edge_intros)

lemma decision_member_unanswered:
  assumes "quiet_requests R" and "env_payload envelope = Some (PAuthenticated a)"
    and "''decision'' \<in> set (map fst (ar_extra (au_command a)))"
  shows "sv_sent (fst (run_actuation_pipeline R envelope w)) = sv_sent w"
proof -
  let ?req = "au_command a"
  note e = silent_emit [OF assms(3)]
  have rej: "silent (reject_with R ?req x b c)" for x b c
    unfolding reject_with_def by (intro edge_intros e)
  have settle: "silent (settle_outcome R ?req t res)" for t res
    unfolding settle_outcome_def
    by (cases "wr_outcome res"; cases "wr_written_at res") (auto intro!: edge_intros e rej)
  have wr: "silent (write_stage R ?req cid t ev)" for cid t ev
    unfolding write_stage_def exceptS_def
    by (auto intro!: edge_intros silent_call assms(1) e settle split: option.split exn.split sum.split)
  have av: "silent (after_validation R ?req cid t v)" for cid t v
    unfolding after_validation_def by (auto intro: rej wr split: option.split)
  have "silent (run_actuation_pipeline R envelope)"
    unfolding run_actuation_pipeline_def exceptS_def assms(2)
    by (auto intro!: edge_intros silent_call assms(1) rej av simp: Let_def bindE_def guardE_def
        split: option.split exn.split sum.split)
  then show ?thesis by (simp add: silent_def)
qed

end
