(* ===== verification/Measurement.thy ===== *)
theory Measurement
  imports Signals
begin

text \<open>
  Engineering resolution (\<open>eirvah_contracts/measurement.py\<close>): the declared range, grid and
  encoding error of a signal, and the rounding of a value to that grid. Decimals are exact here;
  the source's decimal context of 28 digits is not modelled.
\<close>

record engineering_precision =
  ep_resolution :: real
  ep_minimum :: real
  ep_maximum :: real
  ep_encoding_error :: real

definition on_grid :: "real \<Rightarrow> real \<Rightarrow> bool" where
  "on_grid step x \<longleftrightarrow> x / step = of_int \<lfloor>x / step\<rfloor>"

definition check_range :: "engineering_precision \<Rightarrow> engineering_precision res" where
  "check_range p =
     (if \<not> (0 < ep_resolution p) \<or> \<not> (0 \<le> ep_encoding_error p) then Inl (ValidationError ''EngineeringPrecision'')
      else if ep_maximum p \<le> ep_minimum p then Inl (ValidationError ''minimum must be below maximum'')
      else if ep_resolution p / 2 \<le> ep_encoding_error p
      then Inl (ValidationError ''encoding error must be below half a resolution step'')
      else if \<not> on_grid (ep_resolution p) (ep_minimum p) \<or> \<not> on_grid (ep_resolution p) (ep_maximum p)
      then Inl (ValidationError ''range boundaries must lie on the resolution grid'')
      else Inr p)"

text \<open>A bool or a string is refused, and so are an infinity, NaN and an int too large for a float.\<close>

fun finite_number :: "signal_value \<Rightarrow> real res" where
  "finite_number (VInt n) =
     (case int_to_float n of Inr (Fin x) \<Rightarrow> Inr x | _ \<Rightarrow> Inl (ValueError ''engineering value must be a finite number''))"
| "finite_number (VFloat (Fin x)) = Inr x"
| "finite_number _ = Inl (ValueError ''engineering value must be a finite number'')"

definition to_grid :: "real \<Rightarrow> real \<Rightarrow> real" where
  "to_grid step x = of_int (round_half_even (x / step)) * step"

definition normalize_measurement :: "signal_value \<Rightarrow> engineering_precision \<Rightarrow> real res" where
  "normalize_measurement v p =
     bindE (finite_number v) (\<lambda>number.
       if number < ep_minimum p - ep_encoding_error p \<or> ep_maximum p + ep_encoding_error p < number
       then Inl (ValueError ''engineering value outside declared range'')
       else Inr (to_grid (ep_resolution p) (min (ep_maximum p) (max (ep_minimum p) number))))"

lemma check_range_Inr:
  "check_range p = Inr q \<longleftrightarrow>
     q = p \<and> 0 < ep_resolution p \<and> 0 \<le> ep_encoding_error p \<and> ep_minimum p < ep_maximum p \<and>
     ep_encoding_error p < ep_resolution p / 2 \<and>
     on_grid (ep_resolution p) (ep_minimum p) \<and> on_grid (ep_resolution p) (ep_maximum p)"
  by (auto simp: check_range_def not_le)

lemma to_grid_on_grid [simp]: "0 < step \<Longrightarrow> on_grid step (to_grid step x)"
  by (simp add: on_grid_def to_grid_def)

lemma to_grid_fixed: "0 < step \<Longrightarrow> on_grid step x \<Longrightarrow> to_grid step x = x"
  by (metis on_grid_def round_half_even_of_int to_grid_def nonzero_divide_eq_eq less_irrefl)

lemma to_grid_close: "0 < step \<Longrightarrow> \<bar>to_grid step x - x\<bar> \<le> step / 2"
proof -
  assume "0 < step"
  then have "to_grid step x - x = (of_int (round_half_even (x / step)) - x / step) * step"
    by (simp add: to_grid_def left_diff_distrib)
  then have "\<bar>to_grid step x - x\<bar> = \<bar>of_int (round_half_even (x / step)) - x / step\<bar> * step"
    using \<open>0 < step\<close> by (simp add: abs_mult)
  also have "\<dots> \<le> 1 / 2 * step"
    using round_half_even_close [of "x / step"] \<open>0 < step\<close> by (intro mult_right_mono) auto
  finally show ?thesis by simp
qed

lemma to_grid_mono: "0 < step \<Longrightarrow> x \<le> y \<Longrightarrow> to_grid step x \<le> to_grid step y"
  by (simp add: to_grid_def round_half_even_mono divide_right_mono)

text \<open>
  C40. A normalized measurement lies on the grid and in the declared range, no further from the value
  measured than half a step and the encoding error; normalizing is monotone and, done again, changes
  nothing.
\<close>

theorem normalized_measurement_bounds:
  assumes "check_range p = Inr p" and "normalize_measurement v p = Inr r"
  shows "on_grid (ep_resolution p) r \<and> ep_minimum p \<le> r \<and> r \<le> ep_maximum p \<and>
    (\<exists>x. finite_number v = Inr x \<and> \<bar>r - x\<bar> \<le> ep_resolution p / 2 + ep_encoding_error p) \<and>
    normalize_measurement (VFloat (Fin r)) p = Inr r \<and>
    (\<forall>u s. normalize_measurement u p = Inr s \<and> projr (finite_number v) \<le> projr (finite_number u) \<longrightarrow> r \<le> s)"
proof -
  note p = assms(1) [unfolded check_range_Inr]
  let ?clip = "\<lambda>x. min (ep_maximum p) (max (ep_minimum p) x)"
  obtain x where x: "finite_number v = Inr x" "ep_minimum p - ep_encoding_error p \<le> x"
      "x \<le> ep_maximum p + ep_encoding_error p" "r = to_grid (ep_resolution p) (?clip x)"
    using assms(2) by (auto simp: normalize_measurement_def bindE_Inr_iff not_less split: if_splits)
  have grid: "on_grid (ep_resolution p) r" using x(4) p by simp
  have "to_grid (ep_resolution p) (ep_minimum p) \<le> r" "r \<le> to_grid (ep_resolution p) (ep_maximum p)"
    unfolding x(4) using p by (auto intro!: to_grid_mono)
  then have range: "ep_minimum p \<le> r" "r \<le> ep_maximum p" using p by (auto simp: to_grid_fixed)
  have "\<bar>?clip x - x\<bar> \<le> ep_encoding_error p" using x(2,3) p by (auto simp: min_def max_def)
  moreover have "\<bar>r - ?clip x\<bar> \<le> ep_resolution p / 2" unfolding x(4) by (rule to_grid_close) (use p in simp)
  ultimately have close: "\<bar>r - x\<bar> \<le> ep_resolution p / 2 + ep_encoding_error p" by linarith
  have again: "normalize_measurement (VFloat (Fin r)) p = Inr r"
    using range p grid by (simp add: normalize_measurement_def to_grid_fixed max_def min_def)
  have mono: "r \<le> s" if "normalize_measurement u p = Inr s" "projr (finite_number v) \<le> projr (finite_number u)" for u s
  proof -
    have "\<exists>y. finite_number u = Inr y \<and> s = to_grid (ep_resolution p) (?clip y)"
      using that(1) by (cases "finite_number u") (auto simp: normalize_measurement_def split: if_splits)
    then obtain y where "finite_number u = Inr y" "s = to_grid (ep_resolution p) (?clip y)" by blast
    then show ?thesis using that(2) x(1,4) p by (auto intro!: to_grid_mono min.mono max.mono)
  qed
  show ?thesis using grid range x(1) close again mono by blast
qed

definition example_precision :: engineering_precision where
  "example_precision = \<lparr>ep_resolution = 1 / 2, ep_minimum = 0, ep_maximum = 10, ep_encoding_error = 1 / 10\<rparr>"

theorem normalized_measurement_bounds_witness:
  "\<exists>r. normalize_measurement (VFloat (Fin (61 / 10))) example_precision = Inr r \<and> r \<le> 10 \<and>
     \<bar>r - 61 / 10\<bar> \<le> 7 / 20 \<and> normalize_measurement (VFloat (Fin r)) example_precision = Inr r"
proof -
  have "check_range example_precision = Inr example_precision"
    by (simp add: check_range_Inr example_precision_def on_grid_def)
  moreover obtain r where r: "normalize_measurement (VFloat (Fin (61 / 10))) example_precision = Inr r"
    by (simp add: normalize_measurement_def example_precision_def)
  ultimately have "r \<le> ep_maximum example_precision" "normalize_measurement (VFloat (Fin r)) example_precision = Inr r"
      "\<bar>r - 61 / 10\<bar> \<le> ep_resolution example_precision / 2 + ep_encoding_error example_precision"
    using normalized_measurement_bounds [of example_precision "VFloat (Fin (61 / 10))" r] by auto
  then show ?thesis using r by (intro exI [of _ r]) (simp add: example_precision_def)
qed

end
