(* ===== verification/Sosa.thy ===== *)
theory Sosa
  imports Inspection
begin

text \<open>
  The public observation document (\<open>eirvah_contracts/sosa.py\<close>) and its checking against the
  catalogue of declared bindings (\<open>eirvah_contracts/observation.py\<close>). Reading the JSON text of an
  inspection event is pydantic's and a parameter. The catalogue's names are strings.
\<close>

section \<open>Observations\<close>

record sosa_observation =
  so_value_type :: value_type
  so_sensor :: string
  so_feature :: string
  so_property :: string
  so_result :: signal_value
  so_result_time :: datetime
  so_unit :: string
  so_quality :: quality
  so_position :: "source_position option"
  so_correlation_id :: string

definition context_doc :: json where
  "context_doc =
     JObj [(''sosa'', JStr ''http://www.w3.org/ns/sosa/''), (''ssn'', JStr ''http://www.w3.org/ns/ssn/''),
           (''eirvah'', JStr ''https://eirvah.uniza/ontology/'')]"

definition id_ref :: "string \<Rightarrow> json" where
  "id_ref s = JObj [(''@id'', JStr s)]"

definition to_jsonld :: "sosa_observation \<Rightarrow> doc" where
  "to_jsonld ob =
     [(''@context'', context_doc), (''@type'', JStr ''sosa:Observation''),
      (''eirvah:schemaVersion'', JStr ''1.0''), (''eirvah:valueType'', JStr (value_type_str (so_value_type ob))),
      (''sosa:madeBySensor'', id_ref (so_sensor ob)), (''sosa:hasFeatureOfInterest'', id_ref (so_feature ob)),
      (''sosa:observedProperty'', id_ref (so_property ob)), (''sosa:hasSimpleResult'', json_of_value (so_result ob)),
      (''sosa:resultTime'', JTime (so_result_time ob)), (''eirvah:unit'', JStr (so_unit ob)),
      (''eirvah:quality'', JStr (quality_str (so_quality ob))),
      (''eirvah:correlationId'', JStr (so_correlation_id ob))]
     @ (case so_position ob of None \<Rightarrow> [] | Some p \<Rightarrow> [(''eirvah:position'', position_json p)])"

text \<open>\<open>doc[key]["@id"]\<close>\<close>

definition id_at :: "string \<Rightarrow> doc \<Rightarrow> json res" where
  "id_at key d = bindE (dkey key d) (\<lambda>j. bindE (as_obj j) (dkey ''@id''))"

definition position_at :: "doc \<Rightarrow> source_position option res" where
  "position_at d =
     (case dget ''eirvah:position'' d of
        None \<Rightarrow> Inr None
      | Some j \<Rightarrow> if j = JNull then Inr None else bindE (position_of_json j) (\<lambda>p. Inr (Some p)))"

definition from_jsonld :: "doc \<Rightarrow> sosa_observation res" where
  "from_jsonld d =
     bindE (dkey ''eirvah:schemaVersion'' d) (\<lambda>version.
     bindE (dkey ''eirvah:valueType'' d) (\<lambda>vt.
     bindE (position_at d) (\<lambda>position.
     bindE (id_at ''sosa:madeBySensor'' d) (\<lambda>sensor.
     bindE (id_at ''sosa:hasFeatureOfInterest'' d) (\<lambda>feature.
     bindE (id_at ''sosa:observedProperty'' d) (\<lambda>prop.
     bindE (dkey ''sosa:hasSimpleResult'' d) (\<lambda>value.
     bindE (dkey ''sosa:resultTime'' d) (\<lambda>time.
     bindE (from_isoformat time) (\<lambda>result_time.
     bindE (dkey ''eirvah:unit'' d) (\<lambda>unit.
     bindE (dkey ''eirvah:quality'' d) (\<lambda>qual.
     bindE (dkey ''eirvah:correlationId'' d) (\<lambda>cid.
     bindE (guardE (version = JStr ''1.0'') (ValidationError ''schema_version'')) (\<lambda>_.
     bindE (bindE (as_str vt) parse_value_type) (\<lambda>vt.
     bindE (as_str sensor) (\<lambda>sensor.
     bindE (as_str feature) (\<lambda>feature.
     bindE (as_str prop) (\<lambda>prop.
     bindE (value_of_json value) (\<lambda>value.
     bindE (as_str unit) (\<lambda>unit.
     bindE (bindE (as_str qual) parse_quality) (\<lambda>qual.
     bindE (as_str cid) (\<lambda>cid.
       Inr \<lparr>so_value_type = vt, so_sensor = sensor, so_feature = feature, so_property = prop,
            so_result = value, so_result_time = result_time, so_unit = unit, so_quality = qual,
            so_position = position, so_correlation_id = cid\<rparr>)))))))))))))))))))))"

section \<open>The catalogue\<close>

record binding =
  bn_node :: string
  bn_sensor :: string
  bn_feature :: string
  bn_property :: string
  bn_unit :: string
  bn_value_type :: string
  bn_event :: bool

text \<open>A name of the \<open>eirvah:\<close> prefix is expanded by the document's context.\<close>

definition expand :: "string \<Rightarrow> string \<Rightarrow> string" where
  "expand base value = (if take 7 value = ''eirvah:'' then base @ drop 7 value else value)"

definition str_at :: "string \<Rightarrow> doc \<Rightarrow> string res" where
  "str_at key d = bindE (dkey key d) as_str"

text \<open>A reference is an object with \<open>@id\<close> or the id itself.\<close>

definition node_ref :: "string \<Rightarrow> doc \<Rightarrow> string res" where
  "node_ref key node =
     bindE (dkey key node) (\<lambda>j. case j of JObj d \<Rightarrow> str_at ''@id'' d | _ \<Rightarrow> as_str j)"

definition find_node :: "doc list \<Rightarrow> string \<Rightarrow> doc res" where
  "find_node graph i =
     (case find (\<lambda>n. dget ''@id'' n = Some (JStr i)) (rev graph) of None \<Rightarrow> Inl (KeyError i) | Some n \<Rightarrow> Inr n)"

definition feature_levels :: "string list" where
  "feature_levels = [''enterprise'', ''site'', ''area'', ''line'', ''cell'']"

definition bind_node :: "string \<Rightarrow> doc list \<Rightarrow> doc \<Rightarrow> (string \<times> binding) res" where
  "bind_node base graph node =
     bindE (bindE (node_ref ''sosa:isHostedBy'' node) (find_node graph)) (\<lambda>feature.
     bindE (bindE (node_ref ''sosa:observes'' node) (find_node graph)) (\<lambda>prop.
     bindE (mapE (\<lambda>k. str_at (''eirvah:'' @ k) feature) feature_levels) (\<lambda>levels.
     bindE (str_at ''eirvah:equipment'' node) (\<lambda>eq.
     bindE (str_at ''eirvah:measurement'' node) (\<lambda>me.
     let topic = join_on (CHR ''/'') (levels @ [eq, me]) in
     bindE (parse_uns_topic topic) (\<lambda>_.
     bindE (str_at ''eirvah:nodeId'' node) (\<lambda>n.
     bindE (str_at ''@id'' node) (\<lambda>sensor.
     bindE (str_at ''@id'' feature) (\<lambda>fid.
     bindE (str_at ''@id'' prop) (\<lambda>pid.
     bindE (str_at ''eirvah:unit'' prop) (\<lambda>unit.
     bindE (str_at ''eirvah:valueType'' prop) (\<lambda>vt.
       Inr (topic, \<lparr>bn_node = n, bn_sensor = expand base sensor, bn_feature = expand base fid,
                   bn_property = expand base pid, bn_unit = unit, bn_value_type = vt,
                   bn_event = (me = ''bottle_inspection'')\<rparr>)))))))))))))"

fun bind_all :: "string \<Rightarrow> doc list \<Rightarrow> doc list \<Rightarrow> (string \<times> binding) list \<Rightarrow> (string \<times> binding) list res" where
  "bind_all base graph [] bindings = Inr bindings"
| "bind_all base graph (node # nodes) bindings =
     (if dget ''eirvah:nodeId'' node = None then bind_all base graph nodes bindings
      else bindE (bind_node base graph node) (\<lambda>(topic, b).
        if topic \<in> fst ` set bindings then Inl (ValueError ''ambiguous ontology topic'')
        else bind_all base graph nodes (bindings @ [(topic, b)])))"

definition load_bindings :: "string \<Rightarrow> doc list \<Rightarrow> (string \<times> binding) list res" where
  "load_bindings base graph =
     bindE (bind_all base graph graph []) (\<lambda>bindings.
       if bindings = [] then Inl (ValueError ''empty observation catalogue'') else Inr bindings)"

section \<open>Checking an observation\<close>

text \<open>\<open>type(value) not in types[t]\<close>, where an unknown type is a \<open>KeyError\<close>.\<close>

definition declared_type :: "string \<Rightarrow> signal_value \<Rightarrow> bool res" where
  "declared_type t v =
     (if t = ''double'' then Inr (case v of VInt _ \<Rightarrow> True | VFloat _ \<Rightarrow> True | _ \<Rightarrow> False)
      else if t = ''int64'' then Inr (case v of VInt _ \<Rightarrow> True | _ \<Rightarrow> False)
      else if t = ''bool'' then Inr (case v of VBool _ \<Rightarrow> True | _ \<Rightarrow> False)
      else if t = ''string'' then Inr (case v of VStr _ \<Rightarrow> True | _ \<Rightarrow> False)
      else Inl (KeyError t))"

text \<open>\<open>math.isfinite\<close> of an int too large for a float raises.\<close>

definition finite_value :: "signal_value \<Rightarrow> bool res" where
  "finite_value v =
     (case v of VFloat f \<Rightarrow> Inr (isfinite f) | VInt n \<Rightarrow> bindE (int_to_float n) (\<lambda>f. Inr (isfinite f)) | _ \<Rightarrow> Inr True)"

definition matches_binding :: "binding \<Rightarrow> sosa_observation \<Rightarrow> bool" where
  "matches_binding b ob \<longleftrightarrow>
     so_sensor ob = bn_sensor b \<and> so_feature ob = bn_feature b \<and> so_property ob = bn_property b \<and>
     so_unit ob = bn_unit b \<and> value_type_str (so_value_type ob) = bn_value_type b"

definition check_event :: "(string \<Rightarrow> bottle_inspection res) \<Rightarrow> sosa_observation \<Rightarrow> unit res" where
  "check_event parse ob =
     (case so_result ob of
        VStr s \<Rightarrow> bindE (parse s) (\<lambda>event.
          guardE (dt_eq (bi_inspected_at event) (so_result_time ob)) (ValueError ''inspection time binding mismatch''))
      | _ \<Rightarrow> Inl (ValidationError ''json_type''))"

definition validate_observation ::
  "(string \<Rightarrow> bottle_inspection res) \<Rightarrow> string \<Rightarrow> doc \<Rightarrow> (string \<times> binding) list \<Rightarrow> sosa_observation res" where
  "validate_observation parse topic packet bindings =
     (case map_of bindings topic of
        None \<Rightarrow> Inl (KeyError topic)
      | Some b \<Rightarrow>
          bindE (guardE (dget ''@type'' packet = Some (JStr ''sosa:Observation'')) (ValueError ''wrong observation kind'')) (\<lambda>_.
          bindE (from_jsonld packet) (\<lambda>ob.
          bindE (guardE (aware (so_result_time ob) \<and> is_valid_correlation_id (so_correlation_id ob))
                   (ValueError ''invalid observation time or identity'')) (\<lambda>_.
          bindE (guardE (matches_binding b ob) (ValueError ''observation namespace or contract meaning mismatch'')) (\<lambda>_.
          bindE (declared_type (bn_value_type b) (so_result ob)) (\<lambda>typed.
          bindE (guardE typed (ValueError ''observation value type mismatch'')) (\<lambda>_.
          bindE (finite_value (so_result ob)) (\<lambda>finite.
          bindE (guardE finite (ValueError ''observation value type mismatch'')) (\<lambda>_.
          bindE (if bn_event b then check_event parse ob else Inr ()) (\<lambda>_.
            Inr ob))))))))))"

section \<open>Reading what was written\<close>

lemma position_json_not_null: "position_json p \<noteq> JNull"
  by (simp add: position_json_def)

lemma from_to_jsonld:
  assumes "position_option_ok (so_position ob)"
  shows "from_jsonld (to_jsonld ob) = Inr ob"
proof -
  have "position_at (to_jsonld ob) = Inr (so_position ob)"
    using assms by (cases "so_position ob")
      (simp_all add: position_at_def to_jsonld_def dget_def position_json_not_null)
  moreover have "id_at ''sosa:madeBySensor'' (to_jsonld ob) = Inr (JStr (so_sensor ob))"
    "id_at ''sosa:hasFeatureOfInterest'' (to_jsonld ob) = Inr (JStr (so_feature ob))"
    "id_at ''sosa:observedProperty'' (to_jsonld ob) = Inr (JStr (so_property ob))"
    by (simp_all add: id_at_def to_jsonld_def dkey_def id_ref_def)
  moreover have "dkey ''eirvah:schemaVersion'' (to_jsonld ob) = Inr (JStr ''1.0'')"
    "dkey ''eirvah:valueType'' (to_jsonld ob) = Inr (JStr (value_type_str (so_value_type ob)))"
    "dkey ''sosa:hasSimpleResult'' (to_jsonld ob) = Inr (json_of_value (so_result ob))"
    "dkey ''sosa:resultTime'' (to_jsonld ob) = Inr (JTime (so_result_time ob))"
    "dkey ''eirvah:unit'' (to_jsonld ob) = Inr (JStr (so_unit ob))"
    "dkey ''eirvah:quality'' (to_jsonld ob) = Inr (JStr (quality_str (so_quality ob)))"
    "dkey ''eirvah:correlationId'' (to_jsonld ob) = Inr (JStr (so_correlation_id ob))"
    by (simp_all add: to_jsonld_def dkey_def)
  ultimately show ?thesis by (simp add: from_jsonld_def)
qed

lemma bind_node_topic: "bind_node base graph node = Inr (topic, b) \<Longrightarrow> \<exists>path. parse_uns_topic topic = Inr path"
  by (auto simp: bind_node_def Let_def bindE_Inr_iff)

lemma bind_all_ok:
  assumes "bind_all base graph nodes bs = Inr bindings"
    and "distinct (map fst bs)" and "\<forall>(t, b) \<in> set bs. \<exists>path. parse_uns_topic t = Inr path"
  shows "distinct (map fst bindings) \<and> (\<forall>(t, b) \<in> set bindings. \<exists>path. parse_uns_topic t = Inr path)"
  using assms
proof (induction base graph nodes bs rule: bind_all.induct)
  case (2 base graph node nodes bs)
  show ?case
  proof (cases "dget ''eirvah:nodeId'' node = None")
    case False
    then obtain x where x: "bind_node base graph node = Inr x" "fst x \<notin> fst ` set bs"
        "bind_all base graph nodes (bs @ [x]) = Inr bindings"
      using "2.prems"(1) by (cases "bind_node base graph node") (auto split: if_splits)
    obtain t b where tb: "x = (t, b)" by fastforce
    then obtain path where "parse_uns_topic t = Inr path" using bind_node_topic x(1) by blast
    then show ?thesis using "2.IH"(2) [OF False, of t b] x(2,3) "2.prems"(2,3) unfolding tb by simp
  qed (use "2.IH"(1) "2.prems" in simp)
qed auto

section \<open>Properties\<close>

text \<open>
  The public document is read back as the observation that was written, and a consumer that
  knows the catalogue accepts it exactly when sensor, feature, property, unit and type are those
  declared for its topic, the time is aware, the value finite and of the declared type, and an event
  bears the time of its inspection. Every topic of the catalogue is a well-formed UNS topic.
\<close>

theorem observation_document_roundtrip:
  assumes "load_bindings base graph = Inr bindings" and "(topic, b) \<in> set bindings"
    and "position_option_ok (so_position ob)"
  shows "from_jsonld (to_jsonld ob) = Inr ob \<and> (\<exists>path. parse_uns_topic topic = Inr path) \<and>
    (validate_observation parse topic (to_jsonld ob) bindings = Inr r) =
    (r = ob \<and> aware (so_result_time ob) \<and> is_valid_correlation_id (so_correlation_id ob) \<and>
     matches_binding b ob \<and> declared_type (bn_value_type b) (so_result ob) = Inr True \<and>
     finite_value (so_result ob) = Inr True \<and> (if bn_event b then check_event parse ob = Inr () else True))"
proof -
  have "bind_all base graph graph [] = Inr bindings"
    using assms(1) by (auto simp: load_bindings_def bindE_Inr_iff split: if_splits)
  from bind_all_ok [OF this] have "distinct (map fst bindings)" "\<exists>path. parse_uns_topic topic = Inr path"
    using assms(2) by auto
  moreover have "dget ''@type'' (to_jsonld ob) = Some (JStr ''sosa:Observation'')"
    by (simp add: to_jsonld_def dget_def)
  moreover have "from_jsonld (to_jsonld ob) = Inr ob" by (rule from_to_jsonld [OF assms(3)])
  ultimately show ?thesis
    using assms(2) by (auto simp: validate_observation_def bindE_Inr_iff)
qed

definition example_graph :: "doc list" where
  "example_graph =
     [[(''@id'', JStr ''eirvah:S''), (''eirvah:nodeId'', JStr ''n''), (''sosa:isHostedBy'', JStr ''eirvah:F''),
       (''sosa:observes'', JObj [(''@id'', JStr ''eirvah:P'')]), (''eirvah:equipment'', JStr ''f''),
       (''eirvah:measurement'', JStr ''g'')],
      [(''@id'', JStr ''eirvah:F''), (''eirvah:enterprise'', JStr ''a''), (''eirvah:site'', JStr ''b''),
       (''eirvah:area'', JStr ''c''), (''eirvah:line'', JStr ''d''), (''eirvah:cell'', JStr ''e'')],
      [(''@id'', JStr ''eirvah:P''), (''eirvah:unit'', JStr ''mm''), (''eirvah:valueType'', JStr ''double'')]]"

definition example_binding :: binding where
  "example_binding = \<lparr>bn_node = ''n'', bn_sensor = ''x/S'', bn_feature = ''x/F'', bn_property = ''x/P'',
     bn_unit = ''mm'', bn_value_type = ''double'', bn_event = False\<rparr>"

definition example_observation :: sosa_observation where
  "example_observation = \<lparr>so_value_type = TDouble, so_sensor = ''x/S'', so_feature = ''x/F'', so_property = ''x/P'',
     so_result = VInt 3, so_result_time = utc 5, so_unit = ''mm'', so_quality = Good, so_position = None,
     so_correlation_id = replicate 26 (CHR ''0'')\<rparr>"

lemma example_bindings: "load_bindings ''x/'' example_graph = Inr [(''a/b/c/d/e/f/g'', example_binding)]"
  by code_simp

theorem observation_document_roundtrip_witness:
  "validate_observation (\<lambda>s. Inl (ValueError s)) ''a/b/c/d/e/f/g'' (to_jsonld example_observation)
     [(''a/b/c/d/e/f/g'', example_binding)] = Inr example_observation"
proof -
  have "is_valid_correlation_id (replicate 26 (CHR ''0''))" by code_simp
  then show ?thesis
    using observation_document_roundtrip [OF example_bindings, of "''a/b/c/d/e/f/g''" example_binding example_observation]
    by (simp add: example_binding_def example_observation_def matches_binding_def declared_type_def finite_value_def)
qed

end
