(* ===== verification/Telemetry_Workers.thy ===== *)
theory Telemetry_Workers
  imports Measurement Sosa Service_World
begin

text \<open>
  The three workers of the telemetry path: conversion of a raw signal
  (\<open>data_converter/service.py\<close>), its semantic context (\<open>uns_auto_contextualizer/service.py\<close>)
  and its publication (\<open>mqtt_uns_publisher/service.py\<close>). The syntax of floats, the SPARQL query
  and the MQTT client are parameters; scales and offsets are finite.
\<close>

section \<open>Messages of the telemetry path\<close>

datatype tel_payload =
    TRaw raw_signal
  | TNormalized normalized_signal
  | TContext contextualize_result
  | TPublish publish_request
  | TForeign json

text \<open>
  Writing a message to JSON turns a float that is not finite into \<open>null\<close>, which no model accepts
  as a value when the message is read.
\<close>

fun lost_value :: "signal_value \<Rightarrow> bool" where
  "lost_value (VFloat f) = (\<not> isfinite f)"
| "lost_value _ = False"

fun on_wire :: "tel_payload \<Rightarrow> tel_payload" where
  "on_wire (TRaw r) = (if lost_value (rs_value r) then TForeign JNull else TRaw r)"
| "on_wire (TNormalized n) = (if lost_value (ns_value n) then TForeign JNull else TNormalized n)"
| "on_wire (TPublish p) = (if lost_value (pr_value p) then TForeign JNull else TPublish p)"
| "on_wire p = p"

definition wire_envelope :: "tel_payload nats_envelope \<Rightarrow> tel_payload nats_envelope" where
  "wire_envelope e = e\<lparr>env_payload := map_option on_wire (env_payload e)\<rparr>"

fun validate_raw :: "tel_payload option \<Rightarrow> raw_signal res" where
  "validate_raw (Some (TRaw r)) = (if raw_signal_ok r then Inr r else Inl (ValidationError ''RawSignalEnvelope''))"
| "validate_raw _ = Inl (ValidationError ''RawSignalEnvelope'')"

fun validate_normalized :: "tel_payload option \<Rightarrow> normalized_signal res" where
  "validate_normalized (Some (TNormalized n)) =
     (if normalized_signal_ok n then Inr n else Inl (ValidationError ''NormalizedSignalEnvelope''))"
| "validate_normalized _ = Inl (ValidationError ''NormalizedSignalEnvelope'')"

fun validate_context :: "tel_payload option \<Rightarrow> contextualize_result res" where
  "validate_context (Some (TContext c)) =
     (if contextualize_result_ok c then Inr c else Inl (ValidationError ''ContextualizeResult''))"
| "validate_context _ = Inl (ValidationError ''ContextualizeResult'')"

fun validate_publish :: "tel_payload option \<Rightarrow> publish_request res" where
  "validate_publish (Some (TPublish p)) =
     (if publish_request_ok p then Inr p else Inl (ValidationError ''PublishRequest''))"
| "validate_publish _ = Inl (ValidationError ''PublishRequest'')"

section \<open>The converter\<close>

record conversion_rule =
  cv_node_id :: string
  cv_value_type :: value_type
  cv_unit :: string
  cv_drop_bad_quality :: bool
  cv_scale :: "real option"
  cv_offset :: "real option"
  cv_precision :: "engineering_precision option"

definition load_rules :: "conversion_rule list \<Rightarrow> string \<rightharpoonup> conversion_rule" where
  "load_rules rules = map_of (rev (map (\<lambda>r. (cv_node_id r, r)) rules))"

definition scale_value ::
  "(string \<Rightarrow> pyfloat option) \<Rightarrow> (pyfloat \<Rightarrow> real \<Rightarrow> pyfloat) \<Rightarrow> real option \<Rightarrow> signal_value \<Rightarrow> signal_value res" where
  "scale_value pf f k v =
     (case k of None \<Rightarrow> Inr v | Some k \<Rightarrow> bindE (to_float pf v) (\<lambda>x. Inr (VFloat (f x k))))"

definition convert_value ::
  "(string \<Rightarrow> pyfloat option) \<Rightarrow> conversion_rule \<Rightarrow> signal_value \<Rightarrow> signal_value res" where
  "convert_value pf rule v =
     bindE (scale_value pf fmul (cv_scale rule) v) (\<lambda>v.
     bindE (scale_value pf fadd (cv_offset rule) v) (\<lambda>v.
       case cv_precision rule of
         None \<Rightarrow> Inr v
       | Some p \<Rightarrow> bindE (normalize_measurement v p) (\<lambda>r. Inr (VFloat (Fin r)))))"

definition apply_conversion ::
  "(string \<Rightarrow> pyfloat option) \<Rightarrow> raw_signal \<Rightarrow> conversion_rule \<Rightarrow> normalized_signal option res" where
  "apply_conversion pf raw rule =
     (if cv_drop_bad_quality rule \<and> rs_quality raw = Bad then Inr None
      else bindE (convert_value pf rule (rs_value raw)) (\<lambda>v.
        Inr (Some \<lparr>ns_node_id = rs_node_id raw, ns_value = v, ns_value_type = cv_value_type rule,
                  ns_unit = cv_unit rule, ns_quality = rs_quality raw, ns_position = rs_position raw,
                  ns_source_timestamp = rs_source_timestamp raw, ns_received_at = rs_received_at raw\<rparr>)))"

definition handle_convert_request ::
  "(string \<Rightarrow> pyfloat option) \<Rightarrow> (string \<rightharpoonup> conversion_rule) \<Rightarrow> tel_payload nats_envelope \<Rightarrow> tel_payload nats_envelope" where
  "handle_convert_request pf rules envelope =
     (let cid = env_correlation_id envelope in
      case bindE (validate_raw (env_payload envelope)) (\<lambda>raw.
             case rules (rs_node_id raw) of
               None \<Rightarrow> Inr (error_envelope cid None ''UnknownNode'' ''no conversion rule for node_id'')
             | Some rule \<Rightarrow> bindE (apply_conversion pf raw rule) (\<lambda>normalized.
                 Inr (case normalized of
                        None \<Rightarrow> error_envelope cid None ''DroppedQuality'' ''dropped bad-quality reading''
                      | Some n \<Rightarrow> ok_envelope cid (Some (TNormalized n))))) of
        Inl e \<Rightarrow> error_envelope cid None (exn_name e) (short_msg e)
      | Inr reply \<Rightarrow> reply)"

section \<open>The contextualizer\<close>

text \<open>A row of the query result, each term as its string.\<close>

record ontology_row =
  rw_sensor :: string
  rw_feature :: string
  rw_property :: string
  rw_path :: uns_path
  rw_unit :: string
  rw_semantic_type :: string
  rw_value_type :: string

definition contextualize ::
  "(string \<Rightarrow> ontology_row list) \<Rightarrow> normalized_signal \<Rightarrow> contextualize_result option res" where
  "contextualize query n =
     (case query (ns_node_id n) of
        [] \<Rightarrow> Inr None
      | row # _ \<Rightarrow>
          if ns_unit n \<noteq> rw_unit row \<or> value_type_str (ns_value_type n) \<noteq> rw_value_type row
          then Inl (ValueError ''normalized value does not match ontology unit/type'')
          else bindE (mk_uns_path (rw_path row)) (\<lambda>path.
            Inr (Some \<lparr>cr_uns_topic = build_uns_topic path, cr_uns_path = path,
                      cr_semantic_type = rw_semantic_type row, cr_sensor_uri = rw_sensor row,
                      cr_feature_uri = rw_feature row, cr_property_uri = rw_property row\<rparr>)))"

definition handle_contextualize_request ::
  "(string \<Rightarrow> ontology_row list) \<Rightarrow> tel_payload nats_envelope \<Rightarrow> tel_payload nats_envelope" where
  "handle_contextualize_request query envelope =
     (let cid = env_correlation_id envelope in
      case bindE (validate_normalized (env_payload envelope)) (\<lambda>n.
           bindE (contextualize query n) (\<lambda>result.
             Inr (case result of
                    None \<Rightarrow> error_envelope cid None ''UnknownNode'' ''no ontology entry for node_id''
                  | Some c \<Rightarrow> ok_envelope cid (Some (TContext c))))) of
        Inl e \<Rightarrow> error_envelope cid None (exn_name e) (short_msg e)
      | Inr reply \<Rightarrow> reply)"

section \<open>The publisher\<close>

definition build_sosa_observation :: "publish_request \<Rightarrow> sosa_observation" where
  "build_sosa_observation p =
     \<lparr>so_value_type = pr_value_type p, so_sensor = pr_sensor_uri p, so_feature = pr_feature_uri p,
      so_property = pr_property_uri p, so_result = pr_value p, so_result_time = pr_source_timestamp p,
      so_unit = pr_unit p, so_quality = pr_quality p, so_position = pr_position p,
      so_correlation_id = pr_correlation_id p\<rparr>"

text \<open>
  The state of the publisher: whether a client is set, the readiness flags, the reconnect event, and
  what was published. The outcome of the next publication comes from the environment.
\<close>

record 'e mqtt_world =
  mq_env :: 'e
  mq_client :: bool
  mq_nats_ready :: bool
  mq_mqtt_ready :: bool
  mq_reconnect :: bool
  mq_published :: "(string \<times> doc) list"
  mq_counts :: "string list"

definition mqtt_new :: "'e \<Rightarrow> 'e mqtt_world" where
  "mqtt_new e = \<lparr>mq_env = e, mq_client = False, mq_nats_ready = False, mq_mqtt_ready = False,
     mq_reconnect = False, mq_published = [], mq_counts = []\<rparr>"

definition mqtt_is_ready :: "'e mqtt_world \<Rightarrow> bool" where
  "mqtt_is_ready w \<longleftrightarrow> mq_nats_ready w \<and> mq_mqtt_ready w"

definition mqtt_subscribed :: "'e mqtt_world \<Rightarrow> 'e mqtt_world" where
  "mqtt_subscribed w = w\<lparr>mq_nats_ready := True\<rparr>"

definition mqtt_connected :: "'e mqtt_world \<Rightarrow> 'e mqtt_world" where
  "mqtt_connected w = w\<lparr>mq_client := True, mq_mqtt_ready := True, mq_reconnect := False\<rparr>"

definition mqtt_disconnected :: "'e mqtt_world \<Rightarrow> 'e mqtt_world" where
  "mqtt_disconnected w = w\<lparr>mq_mqtt_ready := False, mq_client := False\<rparr>"

definition is_mqtt_error :: "exn \<Rightarrow> bool" where
  "is_mqtt_error e \<longleftrightarrow> exn_name e = ''MqttError''"

definition mqtt_publish ::
  "('e \<Rightarrow> exn option \<times> 'e) \<Rightarrow> string \<Rightarrow> doc \<Rightarrow> ('e mqtt_world, unit) act" where
  "mqtt_publish fault topic d w =
     (case fault (mq_env w) of
        (Some e, v) \<Rightarrow> (w\<lparr>mq_env := v\<rparr>, Inl e)
      | (None, v) \<Rightarrow> (w\<lparr>mq_env := v, mq_published := mq_published w @ [(topic, d)]\<rparr>, Inr ()))"

definition mqtt_body ::
  "('e \<Rightarrow> exn option \<times> 'e) \<Rightarrow> tel_payload nats_envelope \<Rightarrow> ('e mqtt_world, tel_payload nats_envelope) act" where
  "mqtt_body fault envelope =
     bindS (liftS (validate_publish (env_payload envelope))) (\<lambda>req.
     bindS (getS mq_client) (\<lambda>client.
     thenS (guardS client (RuntimeError ''MQTT not connected''))
     (tryS (mqtt_publish fault (pr_uns_topic req) (to_jsonld (build_sosa_observation req)))
        (\<lambda>e. thenS (whenS (is_mqtt_error e) (putS (\<lambda>w. w\<lparr>mq_reconnect := True\<rparr>))) (raiseS e))
        (\<lambda>_. thenS (putS (\<lambda>w. w\<lparr>mq_counts := mq_counts w @ [''ok'']\<rparr>))
               (retS (ok_envelope (env_correlation_id envelope) None))))))"

definition mqtt_error ::
  "string \<Rightarrow> exn \<Rightarrow> ('e mqtt_world, tel_payload nats_envelope) act" where
  "mqtt_error cid e =
     thenS (putS (\<lambda>w. w\<lparr>mq_counts := mq_counts w @ [''error'']\<rparr>))
       (liftS (validate_envelope (error_envelope cid None (exn_name e) (short_msg e))))"

definition mqtt_handle ::
  "('e \<Rightarrow> exn option \<times> 'e) \<Rightarrow> tel_payload message \<Rightarrow> ('e mqtt_world, tel_payload nats_envelope) act" where
  "mqtt_handle fault msg =
     (case read_envelope msg of
        Inl e \<Rightarrow> if is_exception e then mqtt_error ''UNKNOWN'' e else raiseS e
      | Inr envelope \<Rightarrow> exceptS (mqtt_body fault envelope) (mqtt_error (env_correlation_id envelope)) retS)"

text \<open>The handlers of the two stateless workers: a message that is not an envelope gets no reply.\<close>

definition worker_handle ::
  "(tel_payload nats_envelope \<Rightarrow> tel_payload nats_envelope) \<Rightarrow> tel_payload message \<Rightarrow> tel_payload nats_envelope option" where
  "worker_handle f msg =
     (case read_envelope msg of Inl e \<Rightarrow> None | Inr envelope \<Rightarrow> Some (wire_envelope (f envelope)))"

section \<open>What the workers answer\<close>

lemma validate_raw_Inr: "validate_raw p = Inr r \<longleftrightarrow> p = Some (TRaw r) \<and> raw_signal_ok r"
  by (cases p rule: validate_raw.cases) auto

lemma validate_normalized_Inr: "validate_normalized p = Inr n \<longleftrightarrow> p = Some (TNormalized n) \<and> normalized_signal_ok n"
  by (cases p rule: validate_normalized.cases) auto

lemma validate_context_Inr: "validate_context p = Inr c \<longleftrightarrow> p = Some (TContext c) \<and> contextualize_result_ok c"
  by (cases p rule: validate_context.cases) auto

lemma validate_publish_Inr: "validate_publish p = Inr r \<longleftrightarrow> p = Some (TPublish r) \<and> publish_request_ok r"
  by (cases p rule: validate_publish.cases) auto

lemma convert_reply_cid [simp]: "env_correlation_id (handle_convert_request pf rules e) = env_correlation_id e"
  by (simp add: handle_convert_request_def Let_def bindE_def split: sum.split option.split)

lemma contextualize_reply_cid [simp]: "env_correlation_id (handle_contextualize_request q e) = env_correlation_id e"
  by (simp add: handle_contextualize_request_def Let_def bindE_def split: sum.split option.split)

lemma wire_envelope_simps [simp]:
  "env_correlation_id (wire_envelope e) = env_correlation_id e" "env_status (wire_envelope e) = env_status e"
  "env_error (wire_envelope e) = env_error e" "env_payload (wire_envelope e) = map_option on_wire (env_payload e)"
  by (simp_all add: wire_envelope_def)

end
