(* ===== verification/Telemetry_Pipeline.thy ===== *)
theory Telemetry_Pipeline
  imports Telemetry_Workers
begin

text \<open>
  The telemetry orchestrator (\<open>uns_contextualizer_orchestrator\<close>): a raw signal is passed through
  the configured stages; a failing stage sends it to the dead-letter subject. Requests on the bus
  are a parameter; the composition with the three workers of the telemetry path is the equivalence
  with a reference function.
\<close>

section \<open>Configuration and context\<close>

record telemetry_stage =
  tg_name :: string
  tg_subject :: string
  tg_timeout :: real

record telemetry_config =
  tc_stages :: "telemetry_stage list"
  tc_dlq_subject :: string

record pipeline_context =
  cx_correlation_id :: string
  cx_raw :: raw_signal
  cx_ingress_at :: int
  cx_normalized :: "normalized_signal option"
  cx_contextualized :: "contextualize_result option"

definition build_publish_request :: "pipeline_context \<Rightarrow> publish_request res" where
  "build_publish_request ctx =
     (case (cx_normalized ctx, cx_contextualized ctx) of
        (Some n, Some c) \<Rightarrow>
          (let raw = cx_raw ctx;
               p = \<lparr>pr_uns_topic = cr_uns_topic c, pr_correlation_id = cx_correlation_id ctx,
                    pr_value = ns_value n, pr_value_type = ns_value_type n, pr_unit = ns_unit n,
                    pr_quality = ns_quality n, pr_semantic_type = cr_semantic_type c, pr_uns_path = cr_uns_path c,
                    pr_source_endpoint = rs_source_endpoint raw, pr_source_node_id = rs_node_id raw,
                    pr_position = rs_position raw, pr_source_timestamp = rs_source_timestamp raw,
                    pr_edge_ingress = rs_received_at raw, pr_sensor_uri = cr_sensor_uri c,
                    pr_feature_uri = cr_feature_uri c, pr_property_uri = cr_property_uri c\<rparr>
           in if publish_request_ok p then Inr p else Inl (ValidationError ''PublishRequest''))
      | _ \<Rightarrow> Inl AssertionError)"

section \<open>The pipeline\<close>

type_synonym 'e telemetry_world = "('e, tel_payload nats_envelope) service_world"

record 'e telemetry =
  tl_backend :: "'e backend"
  tl_config :: telemetry_config
  tl_request :: "string \<Rightarrow> tel_payload nats_envelope \<Rightarrow> real \<Rightarrow> ('e telemetry_world, tel_payload message) act"

definition publish_dlq ::
  "'e telemetry \<Rightarrow> pipeline_context \<Rightarrow> string \<Rightarrow> string \<Rightarrow> ('e telemetry_world, unit) act" where
  "publish_dlq T ctx failing_stage reason =
     bindS (liftS (validate_envelope (error_envelope (cx_correlation_id ctx) (Some (TRaw (cx_raw ctx)))
              ''PipelineFailure'' (''stage='' @ failing_stage @ '' reason='' @ reason)))) (\<lambda>env.
       send_step (tl_backend T) (tc_dlq_subject (tl_config T)) (wire_envelope env))"

text \<open>The payload of a stage; \<open>None\<close> for a stage of an unknown name, which is skipped.\<close>

definition stage_payload :: "pipeline_context \<Rightarrow> string \<Rightarrow> tel_payload option res" where
  "stage_payload ctx name =
     (if name = ''convert'' then Inr (Some (TRaw (cx_raw ctx)))
      else if name = ''contextualize''
      then (case cx_normalized ctx of None \<Rightarrow> Inl AssertionError | Some n \<Rightarrow> Inr (Some (TNormalized n)))
      else if name = ''publish'' then bindE (build_publish_request ctx) (\<lambda>p. Inr (Some (TPublish p)))
      else Inr None)"

definition take_reply :: "string \<Rightarrow> tel_payload nats_envelope \<Rightarrow> pipeline_context \<Rightarrow> pipeline_context res" where
  "take_reply name reply ctx =
     (if name = ''convert''
      then bindE (validate_normalized (env_payload reply)) (\<lambda>n. Inr (ctx\<lparr>cx_normalized := Some n\<rparr>))
      else if name = ''contextualize''
      then bindE (validate_context (env_payload reply)) (\<lambda>c. Inr (ctx\<lparr>cx_contextualized := Some c\<rparr>))
      else Inr ctx)"

definition stage_failed ::
  "'e telemetry \<Rightarrow> pipeline_context \<Rightarrow> string \<Rightarrow> string \<Rightarrow> ('e telemetry_world, unit) act" where
  "stage_failed T ctx name reason =
     thenS (count_step ''pipeline_stage_error_total'' [''telemetry'', name, reason]) (publish_dlq T ctx name reason)"

text \<open>After a reply without an error the context is updated and the next stage runs.\<close>

definition after_reply ::
  "'e telemetry \<Rightarrow> telemetry_stage \<Rightarrow> pipeline_context \<Rightarrow> (pipeline_context \<Rightarrow> ('e telemetry_world, unit) act)
   \<Rightarrow> tel_payload message \<Rightarrow> ('e telemetry_world, unit) act" where
  "after_reply T st ctx next_stages msg =
     (case read_envelope msg of
        Inl e \<Rightarrow> if is_exception e then stage_failed T ctx (tg_name st) ''BadReply'' else raiseS e
      | Inr reply \<Rightarrow>
          if env_status reply = StError
          then stage_failed T ctx (tg_name st) (case env_error reply of None \<Rightarrow> ''unknown'' | Some e \<Rightarrow> ee_kind e)
          else bindS (liftS (take_reply (tg_name st) reply ctx)) next_stages)"

fun run_stages :: "'e telemetry \<Rightarrow> telemetry_stage list \<Rightarrow> pipeline_context \<Rightarrow> ('e telemetry_world, unit) act" where
  "run_stages T [] ctx =
     bindS (now_step (tl_backend T)) (\<lambda>_.
     thenS (count_step ''pipeline_success_total'' [''telemetry''])
       (count_step ''pipeline_e2e_latency_seconds'' [''telemetry'']))"
| "run_stages T (st # sts) ctx =
     bindS (liftS (stage_payload ctx (tg_name st))) (\<lambda>payload.
       case payload of
         None \<Rightarrow> run_stages T sts ctx
       | Some p \<Rightarrow>
           bindS (liftS (validate_envelope (ok_envelope (cx_correlation_id ctx) (Some p)))) (\<lambda>env.
           exceptS (request_reply (tl_request T (tg_subject st) (wire_envelope env) (tg_timeout st)))
             (\<lambda>e. case e of
                    RequestTimeout m \<Rightarrow>
                      thenS (count_step ''pipeline_stage_timeout_total'' [''telemetry'', tg_name st])
                        (publish_dlq T ctx (tg_name st) ''timeout'')
                  | _ \<Rightarrow> stage_failed T ctx (tg_name st) (exn_name e))
             (after_reply T st ctx (run_stages T sts))))"

definition run_pipeline :: "'e telemetry \<Rightarrow> tel_payload nats_envelope \<Rightarrow> ('e telemetry_world, unit) act" where
  "run_pipeline T envelope =
     bindS (now_step (tl_backend T)) (\<lambda>ingress_at.
       case validate_raw (env_payload envelope) of
         Inl e \<Rightarrow> if is_exception e then retS () else raiseS e
       | Inr raw \<Rightarrow>
           run_stages T (tc_stages (tl_config T))
             \<lparr>cx_correlation_id = env_correlation_id envelope, cx_raw = raw, cx_ingress_at = ingress_at,
              cx_normalized = None, cx_contextualized = None\<rparr>)"

definition telemetry_handle :: "'e telemetry \<Rightarrow> tel_payload message \<Rightarrow> ('e telemetry_world, unit) act" where
  "telemetry_handle T msg =
     (case read_envelope msg of
        Inl e \<Rightarrow> if is_exception e then retS () else raiseS e
      | Inr envelope \<Rightarrow> run_pipeline T envelope)"

section \<open>The workers behind the bus\<close>

text \<open>
  The environment pairs that of the backend with the publisher's state. A request reaches the worker
  subscribed to its subject; a worker that raises, or no worker at all, is a timeout.
\<close>

type_synonym ('b, 'v) local_env = "'b \<times> 'v mqtt_world"

definition local_request ::
  "(string \<Rightarrow> pyfloat option) \<Rightarrow> (string \<rightharpoonup> conversion_rule) \<Rightarrow> (string \<Rightarrow> ontology_row list) \<Rightarrow>
   ('v \<Rightarrow> exn option \<times> 'v) \<Rightarrow> string \<Rightarrow> tel_payload nats_envelope \<Rightarrow> real \<Rightarrow>
   (('b, 'v) local_env telemetry_world, tel_payload message) act" where
  "local_request pf rules query fault subject env t w =
     (if subject = ''uns.work.convert''
      then (case worker_handle (handle_convert_request pf rules) (Json env) of
              None \<Rightarrow> (w, Inl (TimeoutError ''nats: timeout'')) | Some r \<Rightarrow> (w, Inr (Json r)))
      else if subject = ''uns.work.contextualize''
      then (case worker_handle (handle_contextualize_request query) (Json env) of
              None \<Rightarrow> (w, Inl (TimeoutError ''nats: timeout'')) | Some r \<Rightarrow> (w, Inr (Json r)))
      else if subject = ''uns.work.publish''
      then (case mqtt_handle fault (Json env) (snd (sv_env w)) of
              (m, Inl e) \<Rightarrow> (w\<lparr>sv_env := (fst (sv_env w), m)\<rparr>, Inl (TimeoutError ''nats: timeout''))
            | (m, Inr r) \<Rightarrow> (w\<lparr>sv_env := (fst (sv_env w), m)\<rparr>, Inr (Json (wire_envelope r))))
      else (w, Inl (TimeoutError ''nats: timeout'')))"

definition telemetry_stages :: "telemetry_stage list" where
  "telemetry_stages =
     [\<lparr>tg_name = ''convert'', tg_subject = ''uns.work.convert'', tg_timeout = 2\<rparr>,
      \<lparr>tg_name = ''contextualize'', tg_subject = ''uns.work.contextualize'', tg_timeout = 2\<rparr>,
      \<lparr>tg_name = ''publish'', tg_subject = ''uns.work.publish'', tg_timeout = 2\<rparr>]"

section \<open>The reference\<close>

text \<open>What should be published for a raw signal: a topic and an observation, or nothing.\<close>

definition reference_publication ::
  "(string \<Rightarrow> pyfloat option) \<Rightarrow> (string \<rightharpoonup> conversion_rule) \<Rightarrow> (string \<Rightarrow> ontology_row list) \<Rightarrow> string \<Rightarrow>
   raw_signal \<Rightarrow> (string \<times> sosa_observation) option" where
  "reference_publication pf rules query cid raw =
     (if lost_value (rs_value raw) then None
      else case rules (rs_node_id raw) of
        None \<Rightarrow> None
      | Some rule \<Rightarrow>
          if cv_drop_bad_quality rule \<and> rs_quality raw = Bad then None
          else case convert_value pf rule (rs_value raw) of
            Inl e \<Rightarrow> None
          | Inr v \<Rightarrow>
              if lost_value v then None
              else case query (rs_node_id raw) of
                [] \<Rightarrow> None
              | row # _ \<Rightarrow>
                  if cv_unit rule = rw_unit row \<and> value_type_str (cv_value_type rule) = rw_value_type row \<and>
                     uns_path_ok (rw_path row)
                  then Some (build_uns_topic (rw_path row),
                    \<lparr>so_value_type = cv_value_type rule, so_sensor = rw_sensor row, so_feature = rw_feature row,
                     so_property = rw_property row, so_result = v, so_result_time = rs_source_timestamp raw,
                     so_unit = cv_unit rule, so_quality = rs_quality raw, so_position = rs_position raw,
                     so_correlation_id = cid\<rparr>)
                  else None)"

text \<open>Clock and brokers leave the publisher alone.\<close>

definition backend_apart :: "('b, 'v) local_env backend \<Rightarrow> bool" where
  "backend_apart B \<longleftrightarrow>
     (\<forall>e. snd (snd (bk_tick B e)) = snd e \<and> snd (snd (bk_send B e)) = snd e)"

text \<open>The end of a run: what was published since \<open>w\<close>, and whether a dead letter was sent.\<close>

definition ended ::
  "('b, 'v) local_env telemetry_world \<Rightarrow> (string \<times> doc) list \<Rightarrow> nat \<Rightarrow>
   ('b, 'v) local_env telemetry_world \<times> unit res \<Rightarrow> bool" where
  "ended w pubs letters out \<longleftrightarrow>
     mq_published (snd (sv_env (fst out))) = mq_published (snd (sv_env w)) @ pubs \<and>
     (snd out = Inr () \<longrightarrow> length (sv_sent (fst out)) = length (sv_sent w) + letters)"

definition wired ::
  "('b, 'v) local_env telemetry \<Rightarrow> (string \<Rightarrow> pyfloat option) \<Rightarrow> (string \<rightharpoonup> conversion_rule) \<Rightarrow>
   (string \<Rightarrow> ontology_row list) \<Rightarrow> ('v \<Rightarrow> exn option \<times> 'v) \<Rightarrow> bool" where
  "wired T pf rules query fault \<longleftrightarrow>
     tl_request T = local_request pf rules query fault \<and> backend_apart (tl_backend T) \<and>
     tc_stages (tl_config T) = telemetry_stages"

lemma ended_from:
  "ended w1 pubs n out \<Longrightarrow> mq_published (snd (sv_env w1)) = mq_published (snd (sv_env w)) @ p \<Longrightarrow>
     length (sv_sent w1) = length (sv_sent w) \<Longrightarrow> ended w (p @ pubs) n out"
  by (simp add: ended_def)

lemma ended_count: "ended w pubs n (f (w\<lparr>sv_counts := cs\<rparr>)) = ended (w\<lparr>sv_counts := cs\<rparr>) pubs n (f (w\<lparr>sv_counts := cs\<rparr>))"
  by (simp add: ended_def)

lemma apart_send: "backend_apart B \<Longrightarrow> bk_send B e = (x, e') \<Longrightarrow> snd e' = snd e"
  unfolding backend_apart_def by (metis snd_conv)

lemma apart_tick: "backend_apart B \<Longrightarrow> bk_tick B e = (x, e') \<Longrightarrow> snd e' = snd e"
  unfolding backend_apart_def by (metis snd_conv)

lemma publish_dlq_ended:
  assumes "backend_apart (tl_backend T)" "is_valid_correlation_id (cx_correlation_id ctx)"
  shows "ended w [] 1 (publish_dlq T ctx st reason w)"
  using assms
  by (auto simp: ended_def publish_dlq_def bindS_def send_step_def dest: apart_send [OF assms(1)]
      split: prod.split option.split)

lemma stage_failed_ended:
  assumes "backend_apart (tl_backend T)" "is_valid_correlation_id (cx_correlation_id ctx)"
  shows "ended w [] 1 (stage_failed T ctx st reason w)"
  using publish_dlq_ended [OF assms, of "w\<lparr>sv_counts := sv_counts w @ [(''pipeline_stage_error_total'', [''telemetry'', st, reason])]\<rparr>"]
  by (simp add: stage_failed_def bindS_def ended_def)

lemma stage_reply:
  assumes "stage_payload ctx (tg_name st) = Inr (Some p)" "is_valid_correlation_id (cx_correlation_id ctx)"
    and "tl_request T (tg_subject st) (wire_envelope (ok_envelope (cx_correlation_id ctx) (Some p))) (tg_timeout st) w =
      (w1, Inr (Json reply))"
  shows "run_stages T (st # sts) ctx w = after_reply T st ctx (run_stages T sts) (Json reply) w1"
  using assms by (simp add: bindS_def exceptS_def tryS_def request_reply_def)

lemma stage_timeout:
  assumes "stage_payload ctx (tg_name st) = Inr (Some p)" "is_valid_correlation_id (cx_correlation_id ctx)"
    and "tl_request T (tg_subject st) (wire_envelope (ok_envelope (cx_correlation_id ctx) (Some p))) (tg_timeout st) w =
      (w1, Inl (TimeoutError m))"
  shows "run_stages T (st # sts) ctx w =
    thenS (count_step ''pipeline_stage_timeout_total'' [''telemetry'', tg_name st]) (publish_dlq T ctx (tg_name st) ''timeout'') w1"
  using assms by (simp add: bindS_def exceptS_def tryS_def request_reply_def is_exception_def)

lemma after_error:
  assumes "backend_apart (tl_backend T)" "is_valid_correlation_id (cx_correlation_id ctx)"
    and "is_valid_correlation_id (env_correlation_id reply)" "env_status reply = StError"
  shows "ended w [] 1 (after_reply T st ctx k (Json reply) w)"
  using stage_failed_ended [OF assms(1,2)] assms(3,4) by (simp add: after_reply_def)

lemma after_ok:
  assumes "is_valid_correlation_id (env_correlation_id reply)" "env_status reply = StOk"
    and "take_reply (tg_name st) reply ctx = Inr ctx'"
  shows "after_reply T st ctx k (Json reply) w = k ctx' w"
  using assms by (simp add: after_reply_def)

text \<open>A reply that reports success but does not validate raises in the pipeline: nothing is sent.\<close>

lemma after_invalid:
  assumes "is_valid_correlation_id (env_correlation_id reply)" "env_status reply = StOk"
    and "take_reply (tg_name st) reply ctx = Inl e"
  shows "after_reply T st ctx k (Json reply) w = (w, Inl e)"
  using assms by (simp add: after_reply_def)

lemma success_ended:
  assumes "backend_apart (tl_backend T)" shows "ended w [] 0 (run_stages T [] ctx w)"
  by (auto simp: ended_def bindS_def now_step_def dest: apart_tick [OF assms] split: prod.split)

section \<open>The publishing stage\<close>

definition published_now :: "('v \<Rightarrow> exn option \<times> 'v) \<Rightarrow> 'v mqtt_world \<Rightarrow> bool" where
  "published_now fault m \<longleftrightarrow> mq_client m \<and> fst (fault (mq_env m)) = None"

lemma mqtt_handle_cases:
  assumes "publish_request_ok p" "is_valid_correlation_id cid"
  obtains (ok) m' where "mqtt_handle fault (Json (ok_envelope cid (Some (TPublish p)))) m = (m', Inr (ok_envelope cid None))"
      "published_now fault m" "mq_published m' = mq_published m @ [(pr_uns_topic p, to_jsonld (build_sosa_observation p))]"
  | (error) m' k x where "mqtt_handle fault (Json (ok_envelope cid (Some (TPublish p)))) m = (m', Inr (error_envelope cid None k x))"
      "\<not> published_now fault m" "mq_published m' = mq_published m"
  | (raised) m' where "mqtt_handle fault (Json (ok_envelope cid (Some (TPublish p)))) m = (m', Inl CancelledError)"
      "\<not> published_now fault m" "mq_published m' = mq_published m"
proof (cases "mq_client m")
  case False
  then show ?thesis using assms error
    by (simp add: mqtt_handle_def exceptS_def tryS_def mqtt_body_def bindS_def mqtt_error_def is_exception_def published_now_def)
next
  case True
  obtain f v where f: "fault (mq_env m) = (f, v)" by fastforce
  show ?thesis
  proof (cases f)
    case None
    then show ?thesis using assms ok f True
      by (simp add: mqtt_handle_def exceptS_def tryS_def mqtt_body_def bindS_def mqtt_publish_def published_now_def)
  next
    case (Some e)
    then show ?thesis using assms error raised f True
      by (cases "is_exception e"; cases "is_mqtt_error e")
        (simp_all add: mqtt_handle_def exceptS_def tryS_def mqtt_body_def bindS_def mqtt_publish_def published_now_def
          mqtt_error_def whenS_def is_exception_def)
  qed
qed

lemma publish_stage:
  assumes w: "wired T pf rules query fault" and cid: "is_valid_correlation_id (cx_correlation_id ctx)"
    and p: "build_publish_request ctx = Inr p" "publish_request_ok p" "\<not> lost_value (pr_value p)"
  shows "ended w (if published_now fault (snd (sv_env w)) then [(pr_uns_topic p, to_jsonld (build_sosa_observation p))] else [])
    (if published_now fault (snd (sv_env w)) then 0 else 1)
    (run_stages T [\<lparr>tg_name = ''publish'', tg_subject = ''uns.work.publish'', tg_timeout = 2\<rparr>] ctx w)"
proof -
  let ?st = "\<lparr>tg_name = ''publish'', tg_subject = ''uns.work.publish'', tg_timeout = 2\<rparr>"
  have pl: "stage_payload ctx (tg_name ?st) = Inr (Some (TPublish p))" using p(1) by (simp add: stage_payload_def)
  have apart: "backend_apart (tl_backend T)" using w by (simp add: wired_def)
  have wire: "wire_envelope (ok_envelope (cx_correlation_id ctx) (Some (TPublish p))) = ok_envelope (cx_correlation_id ctx) (Some (TPublish p))"
    using p(3) by (simp add: wire_envelope_def ok_envelope_def)
  let ?call = "tl_request T (tg_subject ?st) (wire_envelope (ok_envelope (cx_correlation_id ctx) (Some (TPublish p)))) (tg_timeout ?st) w"
  have call: "?call = (case mqtt_handle fault (Json (ok_envelope (cx_correlation_id ctx) (Some (TPublish p)))) (snd (sv_env w)) of
      (m, Inl e) \<Rightarrow> (w\<lparr>sv_env := (fst (sv_env w), m)\<rparr>, Inl (TimeoutError ''nats: timeout''))
    | (m, Inr r) \<Rightarrow> (w\<lparr>sv_env := (fst (sv_env w), m)\<rparr>, Inr (Json (wire_envelope r))))"
    unfolding wire using w by (simp add: wired_def local_request_def)
  show ?thesis
  proof (cases rule: mqtt_handle_cases [OF p(2) cid, of fault "snd (sv_env w)"])
    case (1 m')
    let ?w1 = "w\<lparr>sv_env := (fst (sv_env w), m')\<rparr>"
    have "run_stages T [?st] ctx w = run_stages T [] ctx ?w1"
      using stage_reply [OF pl cid, of T w ?w1 "wire_envelope (ok_envelope (cx_correlation_id ctx) None)" "[]"] 1 call cid
      by (simp add: after_ok take_reply_def del: run_stages.simps)
    then show ?thesis using ended_from [OF success_ended [OF apart, of ?w1 ctx], of w] 1 by simp
  next
    case (2 m' k x)
    let ?w1 = "w\<lparr>sv_env := (fst (sv_env w), m')\<rparr>"
    have "run_stages T [?st] ctx w = after_reply T ?st ctx (run_stages T []) (Json (wire_envelope (error_envelope (cx_correlation_id ctx) None k x))) ?w1"
      by (rule stage_reply [OF pl cid]) (use 2 call in simp)
    moreover have "ended ?w1 [] 1 (after_reply T ?st ctx (run_stages T []) (Json (wire_envelope (error_envelope (cx_correlation_id ctx) None k x))) ?w1)"
      by (rule after_error [OF apart cid]) (simp_all add: cid)
    ultimately show ?thesis using ended_from [of ?w1 "[]" 1 _ w "[]"] 2 by simp
  next
    case (3 m')
    let ?w1 = "w\<lparr>sv_env := (fst (sv_env w), m')\<rparr>"
    have "run_stages T [?st] ctx w = thenS (count_step ''pipeline_stage_timeout_total'' [''telemetry'', tg_name ?st])
        (publish_dlq T ctx (tg_name ?st) ''timeout'') ?w1"
      by (rule stage_timeout [OF pl cid]) (use 3 call in simp)
    then show ?thesis
      using 3 publish_dlq_ended [OF apart cid, of "?w1\<lparr>sv_counts := sv_counts ?w1 @ [(''pipeline_stage_timeout_total'', [''telemetry'', ''publish''])]\<rparr>"]
      by (simp add: bindS_def ended_def del: run_stages.simps)
  qed
qed

section \<open>The stages before it\<close>

abbreviation publish_tail :: "telemetry_stage list" where
  "publish_tail \<equiv> [\<lparr>tg_name = ''publish'', tg_subject = ''uns.work.publish'', tg_timeout = 2\<rparr>]"

abbreviation context_stage :: telemetry_stage where
  "context_stage \<equiv> \<lparr>tg_name = ''contextualize'', tg_subject = ''uns.work.contextualize'', tg_timeout = 2\<rparr>"

abbreviation convert_stage :: telemetry_stage where
  "convert_stage \<equiv> \<lparr>tg_name = ''convert'', tg_subject = ''uns.work.convert'', tg_timeout = 2\<rparr>"

definition observation_of :: "string \<Rightarrow> raw_signal \<Rightarrow> normalized_signal \<Rightarrow> contextualize_result \<Rightarrow> sosa_observation" where
  "observation_of cid raw n c =
     \<lparr>so_value_type = ns_value_type n, so_sensor = cr_sensor_uri c, so_feature = cr_feature_uri c,
      so_property = cr_property_uri c, so_result = ns_value n, so_result_time = rs_source_timestamp raw,
      so_unit = ns_unit n, so_quality = ns_quality n, so_position = rs_position raw, so_correlation_id = cid\<rparr>"

text \<open>The outcome of a run that should publish \<open>pub\<close>, or nothing.\<close>

definition outcome_ok ::
  "('v \<Rightarrow> exn option \<times> 'v) \<Rightarrow> (string \<times> sosa_observation) option \<Rightarrow> ('b, 'v) local_env telemetry_world \<Rightarrow>
   ('b, 'v) local_env telemetry_world \<times> unit res \<Rightarrow> bool" where
  "outcome_ok fault pub w out \<longleftrightarrow>
     (case pub of
        None \<Rightarrow> ended w [] 1 out
      | Some (topic, ob) \<Rightarrow>
          if published_now fault (snd (sv_env w)) then ended w [(topic, to_jsonld ob)] 0 out else ended w [] 1 out)"

lemma contextualize_stage:
  assumes w: "wired T pf rules query fault" and cid: "is_valid_correlation_id (cx_correlation_id ctx)"
    and n: "cx_normalized ctx = Some n" "normalized_signal_ok n" "\<not> lost_value (ns_value n)"
    and raw: "raw_signal_ok (cx_raw ctx)"
  shows "outcome_ok fault
     (case contextualize query n of
        Inr (Some c) \<Rightarrow> Some (cr_uns_topic c, observation_of (cx_correlation_id ctx) (cx_raw ctx) n c) | _ \<Rightarrow> None)
     w (run_stages T (context_stage # publish_tail) ctx w)"
proof -
  let ?cid = "cx_correlation_id ctx"
  let ?req = "ok_envelope ?cid (Some (TNormalized n))"
  have pl: "stage_payload ctx (tg_name context_stage) = Inr (Some (TNormalized n))" using n(1) by (simp add: stage_payload_def)
  have apart: "backend_apart (tl_backend T)" using w by (simp add: wired_def)
  have wire: "wire_envelope ?req = ?req" using n(3) by (simp add: wire_envelope_def ok_envelope_def)
  define reply where "reply = wire_envelope (handle_contextualize_request query ?req)"
  have call: "tl_request T (tg_subject context_stage) (wire_envelope ?req) (tg_timeout context_stage) w = (w, Inr (Json reply))"
    unfolding wire using w cid by (simp add: wired_def local_request_def worker_handle_def reply_def)
  have run: "run_stages T (context_stage # publish_tail) ctx w = after_reply T context_stage ctx (run_stages T publish_tail) (Json reply) w"
    by (rule stage_reply [OF pl cid call])
  have rcid: "is_valid_correlation_id (env_correlation_id reply)" using cid by (simp add: reply_def)
  have h: "handle_contextualize_request query ?req = (case contextualize query n of
      Inl e \<Rightarrow> error_envelope ?cid None (exn_name e) (short_msg e)
    | Inr None \<Rightarrow> error_envelope ?cid None ''UnknownNode'' ''no ontology entry for node_id''
    | Inr (Some c) \<Rightarrow> ok_envelope ?cid (Some (TContext c)))"
    using n(2) by (simp add: handle_contextualize_request_def Let_def bindE_def split: sum.split option.split)
  show ?thesis
  proof (cases "\<exists>c. contextualize query n = Inr (Some c)")
    case False
    then have "env_status reply = StError" by (auto simp: reply_def h split: sum.splits option.splits)
    from after_error [OF apart cid rcid this] False show ?thesis
      unfolding run by (auto simp: outcome_ok_def split: sum.splits option.splits)
  next
    case True
    then obtain c where c: "contextualize query n = Inr (Some c)" ..
    then have path: "uns_path_ok (cr_uns_path c)"
      by (auto simp: contextualize_def mk_uns_path_def split: list.splits if_splits)
    let ?ctx = "ctx\<lparr>cx_contextualized := Some c\<rparr>"
    have "run_stages T (context_stage # publish_tail) ctx w = run_stages T publish_tail ?ctx w"
      unfolding run by (rule after_ok) (use rcid c path in \<open>simp_all add: reply_def h take_reply_def contextualize_result_ok_def\<close>)
    moreover obtain p where p: "build_publish_request ?ctx = Inr p" "publish_request_ok p" "pr_value p = ns_value n"
        "pr_uns_topic p = cr_uns_topic c" "build_sosa_observation p = observation_of ?cid (cx_raw ctx) n c"
      using n path cid raw
      by (simp add: build_publish_request_def Let_def publish_request_ok_def raw_signal_ok_def build_sosa_observation_def observation_of_def)
    moreover have "ended w (if published_now fault (snd (sv_env w)) then [(pr_uns_topic p, to_jsonld (build_sosa_observation p))] else [])
        (if published_now fault (snd (sv_env w)) then 0 else 1) (run_stages T publish_tail ?ctx w)"
      by (rule publish_stage [OF w _ p(1,2)]) (use cid n(3) p(3) in simp_all)
    ultimately show ?thesis using c by (auto simp: outcome_ok_def simp del: run_stages.simps split: if_splits)
  qed
qed

lemma convert_pipeline:
  assumes w: "wired T pf rules query fault" and cid: "is_valid_correlation_id (cx_correlation_id ctx)"
    and raw: "raw_signal_ok (cx_raw ctx)"
  shows "outcome_ok fault (reference_publication pf rules query (cx_correlation_id ctx) (cx_raw ctx)) w
    (run_stages T (convert_stage # context_stage # publish_tail) ctx w)"
proof -
  let ?cid = "cx_correlation_id ctx" and ?raw = "cx_raw ctx"
  let ?req = "ok_envelope ?cid (Some (TRaw ?raw))"
  have pl: "stage_payload ctx (tg_name convert_stage) = Inr (Some (TRaw ?raw))" by (simp add: stage_payload_def)
  have apart: "backend_apart (tl_backend T)" using w by (simp add: wired_def)
  define reply where "reply = wire_envelope (handle_convert_request pf rules (wire_envelope ?req))"
  have call: "tl_request T (tg_subject convert_stage) (wire_envelope ?req) (tg_timeout convert_stage) w = (w, Inr (Json reply))"
    using w cid by (simp add: wired_def local_request_def worker_handle_def reply_def)
  have run: "run_stages T (convert_stage # context_stage # publish_tail) ctx w =
      after_reply T convert_stage ctx (run_stages T (context_stage # publish_tail)) (Json reply) w"
    by (rule stage_reply [OF pl cid call])
  have rcid: "is_valid_correlation_id (env_correlation_id reply)" using cid by (simp add: reply_def)
  have fail: "outcome_ok fault None w (run_stages T (convert_stage # context_stage # publish_tail) ctx w)"
    if "env_status reply = StError"
    using after_error [OF apart cid rcid that] unfolding run outcome_ok_def by simp
  show ?thesis
  proof (cases "lost_value (rs_value ?raw)")
    case True
    then have "env_status reply = StError"
      by (simp add: reply_def handle_convert_request_def Let_def)
    from fail [OF this] True show ?thesis by (simp add: reference_publication_def del: run_stages.simps)
  next
    case False
    then have wire: "wire_envelope ?req = ?req" by (simp add: wire_envelope_def ok_envelope_def)
    show ?thesis
    proof (cases "\<exists>rule n. rules (rs_node_id ?raw) = Some rule \<and> apply_conversion pf ?raw rule = Inr (Some n)")
      case no: False
      then have "env_status reply = StError"
        using raw by (auto simp: reply_def wire handle_convert_request_def Let_def bindE_def split: sum.splits option.splits)
      moreover have "reference_publication pf rules query ?cid ?raw = None"
        using no by (auto simp: reference_publication_def apply_conversion_def bindE_def split: option.splits sum.splits)
      ultimately show ?thesis using fail by (simp del: run_stages.simps)
    next
      case True
      then obtain rule n where rule: "rules (rs_node_id ?raw) = Some rule" "apply_conversion pf ?raw rule = Inr (Some n)" by blast
      then obtain v where v: "convert_value pf rule (rs_value ?raw) = Inr v" "\<not> (cv_drop_bad_quality rule \<and> rs_quality ?raw = Bad)"
          "n = \<lparr>ns_node_id = rs_node_id ?raw, ns_value = v, ns_value_type = cv_value_type rule,
                  ns_unit = cv_unit rule, ns_quality = rs_quality ?raw, ns_position = rs_position ?raw,
                  ns_source_timestamp = rs_source_timestamp ?raw, ns_received_at = rs_received_at ?raw\<rparr>"
        by (auto simp: apply_conversion_def bindE_Inr_iff split: if_splits)
      have rep: "reply = wire_envelope (ok_envelope ?cid (Some (TNormalized n)))"
        using rule raw by (simp add: reply_def wire handle_convert_request_def Let_def)
      show ?thesis
      proof (cases "lost_value v")
        case True
        have "run_stages T (convert_stage # context_stage # publish_tail) ctx w = (w, Inl (ValidationError ''NormalizedSignalEnvelope''))"
          unfolding run by (rule after_invalid) (use rcid True v(3) in \<open>simp_all add: rep take_reply_def\<close>)
        moreover have "reference_publication pf rules query ?cid ?raw = None"
          using False rule(1) v True by (simp add: reference_publication_def)
        ultimately show ?thesis by (simp add: outcome_ok_def ended_def del: run_stages.simps)
      next
        case kept: False
        let ?ctx = "ctx\<lparr>cx_normalized := Some n\<rparr>"
        have nok: "normalized_signal_ok n" using v(3) raw by (simp add: normalized_signal_ok_def raw_signal_ok_def)
        have "run_stages T (convert_stage # context_stage # publish_tail) ctx w = run_stages T (context_stage # publish_tail) ?ctx w"
          unfolding run by (rule after_ok) (use rcid kept nok v(3) in \<open>simp_all add: rep take_reply_def\<close>)
        moreover have same: "cx_correlation_id ?ctx = ?cid" "cx_raw ?ctx = ?raw" by simp_all
        have "outcome_ok fault
           (case contextualize query n of
              Inr (Some c) \<Rightarrow> Some (cr_uns_topic c, observation_of ?cid ?raw n c) | _ \<Rightarrow> None)
           w (run_stages T (context_stage # publish_tail) ?ctx w)"
          by (rule contextualize_stage [OF w, of ?ctx, unfolded same]) (use cid nok kept v(3) raw in simp_all)
        moreover have "reference_publication pf rules query ?cid ?raw = (case contextualize query n of
              Inr (Some c) \<Rightarrow> Some (cr_uns_topic c, observation_of ?cid ?raw n c) | _ \<Rightarrow> None)"
          using False rule(1) v kept
          by (auto simp: reference_publication_def contextualize_def observation_of_def mk_uns_path_def split: list.split)
        ultimately show ?thesis by (simp del: run_stages.simps)
      qed
    qed
  qed
qed

section \<open>Properties\<close>

text \<open>
  C36. The telemetry path computes its reference: with the three workers behind the bus, a raw signal
  leads to exactly the publication the reference function names, when the publisher is connected and
  the broker takes it, and to no other; a run that ends normally without a publication sends one
  dead letter, and with a publication none.
\<close>

theorem telemetry_path_equivalence:
  assumes "wired T pf rules query fault" and "is_valid_correlation_id (env_correlation_id envelope)"
    and "env_payload envelope = Some (TRaw raw)" and "raw_signal_ok raw"
    and "run_pipeline T envelope w = (w', r)"
  shows "mq_published (snd (sv_env w')) = mq_published (snd (sv_env w)) @
      (case reference_publication pf rules query (env_correlation_id envelope) raw of
         None \<Rightarrow> []
       | Some (topic, ob) \<Rightarrow> if published_now fault (snd (sv_env w)) then [(topic, to_jsonld ob)] else []) \<and>
    (r = Inr () \<longrightarrow>
       length (sv_sent w') = length (sv_sent w) +
         (if reference_publication pf rules query (env_correlation_id envelope) raw \<noteq> None \<and>
             published_now fault (snd (sv_env w)) then 0 else 1))"
proof -
  have apart: "backend_apart (tl_backend T)" "tc_stages (tl_config T) = convert_stage # context_stage # publish_tail"
    using assms(1) by (simp_all add: wired_def telemetry_stages_def)
  obtain w1 t where t: "now_step (tl_backend T) w = (w1, Inr t)"
    by (cases "bk_tick (tl_backend T) (sv_env w)") (simp add: now_step_def)
  have w1: "snd (sv_env w1) = snd (sv_env w)" "sv_sent w1 = sv_sent w"
    using t by (auto simp: now_step_def dest: apart_tick [OF apart(1)] split: prod.splits)
  let ?ctx = "\<lparr>cx_correlation_id = env_correlation_id envelope, cx_raw = raw, cx_ingress_at = t,
      cx_normalized = None, cx_contextualized = None\<rparr>"
  have "run_stages T (convert_stage # context_stage # publish_tail) ?ctx w1 = (w', r)"
    using assms(3-5) t apart(2) by (simp add: run_pipeline_def bindS_def del: run_stages.simps)
  with convert_pipeline [OF assms(1), of ?ctx w1] assms(2,4)
  have "outcome_ok fault (reference_publication pf rules query (env_correlation_id envelope) raw) w1 (w', r)"
    by (simp del: run_stages.simps)
  then show ?thesis
    using w1 by (auto simp: outcome_ok_def ended_def split: option.splits if_splits)
qed

definition example_raw :: raw_signal where
  "example_raw =
     \<lparr>rs_source_endpoint = ''e'', rs_node_id = ''n'', rs_value = VInt 3, rs_value_type = TInt64, rs_quality = Good,
      rs_position = None, rs_source_timestamp = utc 5, rs_server_timestamp = utc 6, rs_received_at = utc 7\<rparr>"

definition example_rule :: conversion_rule where
  "example_rule = \<lparr>cv_node_id = ''n'', cv_value_type = TDouble, cv_unit = ''mm'', cv_drop_bad_quality = True,
     cv_scale = Some 2, cv_offset = None, cv_precision = None\<rparr>"

definition example_row :: ontology_row where
  "example_row = \<lparr>rw_sensor = ''S'', rw_feature = ''F'', rw_property = ''P'',
     rw_path = \<lparr>enterprise = ''a'', site = ''b'', area = ''c'', line = ''d'', cell = ''e'', equipment = ''f'', measurement = ''g''\<rparr>,
     rw_unit = ''mm'', rw_semantic_type = ''s'', rw_value_type = ''double''\<rparr>"

definition example_telemetry :: "(unit, unit) local_env telemetry" where
  "example_telemetry =
     \<lparr>tl_backend = quiet, tl_config = \<lparr>tc_stages = telemetry_stages, tc_dlq_subject = ''uns.dlq.telemetry''\<rparr>,
      tl_request = local_request (\<lambda>s. None) (load_rules [example_rule]) (\<lambda>n. [example_row]) (\<lambda>e. (None, e))\<rparr>"

definition example_start :: "(unit, unit) local_env telemetry_world" where
  "example_start = \<lparr>sv_env = ((), mqtt_connected (mqtt_new ())), sv_clock = 0, sv_events = [], sv_counts = [], sv_sent = []\<rparr>"

definition expected_observation :: sosa_observation where
  "expected_observation =
     \<lparr>so_value_type = TDouble, so_sensor = ''S'', so_feature = ''F'', so_property = ''P'',
      so_result = VFloat (Fin 6), so_result_time = utc 5, so_unit = ''mm'', so_quality = Good, so_position = None,
      so_correlation_id = replicate 26 (CHR ''0'')\<rparr>"

theorem telemetry_path_equivalence_witness:
  "mq_published (snd (sv_env (fst (run_pipeline example_telemetry
     (ok_envelope (replicate 26 (CHR ''0'')) (Some (TRaw example_raw))) example_start)))) =
   [(''a/b/c/d/e/f/g'', to_jsonld expected_observation)]"
proof -
  let ?e = "ok_envelope (replicate 26 (CHR ''0'')) (Some (TRaw example_raw))"
  have w: "wired example_telemetry (\<lambda>s. None) (load_rules [example_rule]) (\<lambda>n. [example_row]) (\<lambda>e. (None, e))"
    by (simp add: wired_def example_telemetry_def backend_apart_def quiet_def)
  have cid: "is_valid_correlation_id (env_correlation_id ?e)" by (simp) code_simp
  have path: "uns_path_ok (rw_path example_row)" by code_simp
  have topic: "build_uns_topic (rw_path example_row) = ''a/b/c/d/e/f/g''" by code_simp
  have "reference_publication (\<lambda>s. None) (load_rules [example_rule]) (\<lambda>n. [example_row]) (replicate 26 (CHR ''0'')) example_raw =
      Some (''a/b/c/d/e/f/g'', expected_observation)"
    using path topic by (simp add: reference_publication_def load_rules_def convert_value_def scale_value_def)
      (simp add: example_raw_def example_rule_def example_row_def expected_observation_def)
  moreover have "published_now (\<lambda>e. (None, e)) (snd (sv_env example_start))"
    by (simp add: published_now_def example_start_def mqtt_connected_def)
  moreover have "mq_published (snd (sv_env example_start)) = []" by (simp add: example_start_def mqtt_connected_def mqtt_new_def)
  moreover have "raw_signal_ok example_raw" by (simp add: raw_signal_ok_def example_raw_def)
  ultimately show ?thesis
    using telemetry_path_equivalence [OF w cid _ _ prod.collapse [symmetric], of example_raw example_start] by simp
qed

end
