(* ===== verification/Consumer_Store.thy ===== *)
theory Consumer_Store
  imports Positions Inspection Authorization
begin

text \<open>
  \<open>ConsumerStore\<close> of \<open>eirvah_controls/recovery.py\<close>: the durable inbox of inspections, the outbox
  of the commands they cause, and the audit log. Each operation is one transaction; an exception
  leaves the store unchanged. Events, commands and results are JSON objects. The digest and the
  command factory are arguments.
\<close>

section \<open>The store\<close>

datatype disposition = DFuture | DExpired | DPassed | DPending | DBottleDuplicate | DCompleted | DRefused | DUnknown

record inspection_row =
  ro_serial :: nat
  ro_id :: string
  ro_digest :: string
  ro_payload :: doc
  ro_received :: real
  ro_disposition :: disposition
  ro_command_id :: "string option"
  ro_command :: "doc option"
  ro_result :: "doc option"
  ro_last_sent :: real
  ro_baseline :: "int option"

record audit_row =
  au_serial :: nat
  au_instance :: string
  au_topic :: string
  au_correlation :: string
  au_payload :: doc
  au_decision :: doc
  au_snapshot :: doc
  au_at :: real

text \<open>Rows are kept in the order of their serial numbers.\<close>

record consumer_store =
  cs_instance :: string
  cs_positions :: "string \<rightharpoonup> json position_row"
  cs_inspections :: "inspection_row list"
  cs_next_serial :: nat
  cs_audit :: "audit_row list"
  cs_next_audit :: nat

definition find_row :: "(inspection_row \<Rightarrow> bool) \<Rightarrow> consumer_store \<Rightarrow> inspection_row option" where
  "find_row q s = find q (cs_inspections s)"

definition store_advance :: "string \<Rightarrow> source_position \<Rightarrow> json \<Rightarrow> consumer_store \<Rightarrow> consumer_store \<times> string" where
  "store_advance topic position binding s =
     (case advance (cs_positions s) topic position binding of (rows, verdict) \<Rightarrow>
        (s\<lparr>cs_positions := rows\<rparr>, verdict))"

text \<open>\<open>str(payload.get("eirvah:correlationId", ""))\<close> for the string the contract puts there.\<close>

definition payload_correlation :: "doc \<Rightarrow> string" where
  "payload_correlation d =
     (case dget ''eirvah:correlationId'' d of Some (JStr x) \<Rightarrow> x | _ \<Rightarrow> [])"

definition audit_state ::
  "string \<Rightarrow> doc \<Rightarrow> doc \<Rightarrow> doc \<Rightarrow> real \<Rightarrow> consumer_store \<Rightarrow> consumer_store \<times> unit res" where
  "audit_state topic payload decision snapshot now s =
     (if \<not> json_finite (JObj payload) \<or> \<not> json_finite (JObj decision) \<or> \<not> json_finite (JObj snapshot)
      then (s, Inl (ValueError ''Out of range float values are not JSON compliant''))
      else
        let n = cs_next_audit s;
            row = \<lparr>au_serial = n, au_instance = cs_instance s, au_topic = topic,
                   au_correlation = payload_correlation payload, au_payload = payload,
                   au_decision = decision, au_snapshot = snapshot, au_at = now\<rparr>
        in (s\<lparr>cs_audit := filter (\<lambda>r. n \<le> au_serial r + 100000) (cs_audit s @ [row]),
              cs_next_audit := n + 1\<rparr>, Inr ()))"

text \<open>The part of an inspection id before the first colon.\<close>

definition id_session :: "string \<Rightarrow> string" where
  "id_session i = hd (split_on (CHR '':'') i)"

definition disposition_of :: "real \<Rightarrow> real \<Rightarrow> bool \<Rightarrow> disposition" where
  "disposition_of age max_age passed =
     (if age < 0 then DFuture else if max_age \<le> age then DExpired
      else if passed then DPassed else DPending)"

text \<open>A recent row of the same session that names the same bottle.\<close>

definition same_bottle :: "string \<Rightarrow> int \<Rightarrow> inspection_row \<Rightarrow> bool" where
  "same_bottle session bottle r \<longleftrightarrow>
     id_session (ro_id r) = session \<and> dget ''bottle_id'' (ro_payload r) = Some (JInt bottle)"

definition event_doc :: "bottle_inspection \<Rightarrow> doc" where
  "event_doc e = inspection_doc e"

definition command_of :: "doc \<Rightarrow> string res" where
  "command_of command = bindE (dkey ''correlation_id'' command) as_str"

text \<open>
  \<open>receive\<close>: \<open>factory\<close> is the command the callback builds, or the exception it raises. An
  \<open>IntegrityError\<close> is the unique constraint on \<open>command_id\<close>.
\<close>

definition insert_row ::
  "inspection_row \<Rightarrow> real \<Rightarrow> consumer_store \<Rightarrow> consumer_store" where
  "insert_row row now s =
     s\<lparr>cs_inspections := filter (\<lambda>r. ro_disposition r = DPending \<or> now - 86400 \<le> ro_received r)
         (cs_inspections s @ [row]),
       cs_next_serial := cs_next_serial s + 1\<rparr>"

definition new_row ::
  "crypto \<Rightarrow> bottle_inspection \<Rightarrow> real \<Rightarrow> disposition \<Rightarrow> int option \<Rightarrow> nat \<Rightarrow> inspection_row" where
  "new_row C event now d baseline serial =
     \<lparr>ro_serial = serial, ro_id = bi_inspection_id event,
      ro_digest = sha256 C (sorted_keys (JObj (event_doc event))), ro_payload = event_doc event,
      ro_received = now, ro_disposition = d, ro_command_id = None, ro_command = None,
      ro_result = None, ro_last_sent = 0, ro_baseline = baseline\<rparr>"

definition receive ::
  "crypto \<Rightarrow> bottle_inspection \<Rightarrow> real \<Rightarrow> real \<Rightarrow> doc res \<Rightarrow> int option \<Rightarrow> consumer_store
   \<Rightarrow> consumer_store \<times> inspection_row res" where
  "receive C event now max_age factory baseline s =
     (let digest = sha256 C (sorted_keys (JObj (event_doc event))); ident = bi_inspection_id event in
      case find_row (\<lambda>r. ro_id r = ident) s of
        Some old \<Rightarrow>
          if ro_digest old \<noteq> digest then (s, Inl (ValueError ''inspection identity conflict''))
          else (s, Inr old)
      | None \<Rightarrow>
          let d0 = disposition_of (now - timestamp (bi_inspected_at event)) max_age (bi_passed event);
              dup = (\<exists>r \<in> set (cs_inspections s).
                       now - max_age - 10 \<le> ro_received r \<and> same_bottle (id_session ident) (bi_bottle_id event) r);
              d1 = (if d0 = DPending \<and> dup then DBottleDuplicate else d0);
              row = new_row C event now d1 baseline (cs_next_serial s)
          in if d1 \<noteq> DPending then (insert_row row now s, Inr row)
             else if 128 \<le> length (filter (\<lambda>r. ro_disposition r = DPending) (cs_inspections s))
             then (s, Inl (RuntimeError ''consumer command outbox capacity reached''))
             else (case bindE factory (\<lambda>command. bindE (command_of command) (\<lambda>c. Inr (command, c))) of
                     Inl e \<Rightarrow> (s, Inl e)
                   | Inr (command, cid) \<Rightarrow>
                       if \<not> json_finite (JObj command)
                       then (s, Inl (ValueError ''Out of range float values are not JSON compliant''))
                       else if (\<exists>r \<in> set (cs_inspections s). ro_command_id r = Some cid)
                       then (s, Inl (OtherError ''IntegrityError'' ''UNIQUE constraint failed: inspections.command_id''))
                       else (let row' = row\<lparr>ro_command_id := Some cid, ro_command := Some command\<rparr>
                             in (insert_row row' now s, Inr row'))))"

definition store_find :: "string \<Rightarrow> consumer_store \<Rightarrow> inspection_row option" where
  "store_find identity s = find_row (\<lambda>r. ro_id r = identity) s"

definition recovery_elapsed :: doc where
  "recovery_elapsed = [(''decision'', JStr ''unknown''), (''reason'', JStr ''recovery_window_elapsed'')]"

definition expire_row :: "real \<Rightarrow> inspection_row \<Rightarrow> inspection_row" where
  "expire_row now r =
     (if ro_disposition r = DPending \<and> ro_received r < now - 86400
      then r\<lparr>ro_disposition := DUnknown, ro_result := Some recovery_elapsed\<rparr> else r)"

definition store_ready :: "real \<Rightarrow> consumer_store \<Rightarrow> consumer_store \<times> inspection_row list" where
  "store_ready now s =
     (let rows = map (expire_row now) (cs_inspections s) in
      (s\<lparr>cs_inspections := rows\<rparr>,
       take 128 (filter (\<lambda>r. ro_disposition r = DPending \<and> ro_last_sent r < now - 1) rows)))"

definition store_sent :: "string \<Rightarrow> real \<Rightarrow> consumer_store \<Rightarrow> consumer_store" where
  "store_sent identity now s =
     s\<lparr>cs_inspections := map (\<lambda>r. if ro_id r = identity then r\<lparr>ro_last_sent := now\<rparr> else r) (cs_inspections s)\<rparr>"

section \<open>Settling a command\<close>

text \<open>Python equality of decoded JSON values: numbers compare by value, a bool is 0 or 1.\<close>

fun json_num :: "json \<Rightarrow> pyfloat option" where
  "json_num (JBool b) = Some (Fin (if b then 1 else 0))"
| "json_num (JInt n) = Some (Fin (of_int n))"
| "json_num (JFloat f) = Some f"
| "json_num _ = None"

definition json_eq :: "json \<Rightarrow> json \<Rightarrow> bool" where
  "json_eq a b \<longleftrightarrow>
     (case (json_num a, json_num b) of
        (Some x, Some y) \<Rightarrow> feq x y
      | (None, None) \<Rightarrow> sorted_keys a = sorted_keys b
      | _ \<Rightarrow> False)"

definition opt_json_eq :: "json option \<Rightarrow> json option \<Rightarrow> bool" where
  "opt_json_eq a b \<longleftrightarrow>
     (case (a, b) of (None, None) \<Rightarrow> True | (Some x, Some y) \<Rightarrow> json_eq x y
      | (None, Some y) \<Rightarrow> y = JNull | (Some x, None) \<Rightarrow> x = JNull)"

text \<open>\<open>bool(value)\<close> of a decoded value.\<close>

fun truthy :: "json \<Rightarrow> bool" where
  "truthy JNull = False"
| "truthy (JBool b) = b"
| "truthy (JInt n) = (n \<noteq> 0)"
| "truthy (JFloat f) = (f \<noteq> Fin 0)"
| "truthy (JStr s) = (s \<noteq> [])"
| "truthy (JTime t) = True"
| "truthy (JArr xs) = (xs \<noteq> [])"
| "truthy (JObj d) = (d \<noteq> [])"

definition bound_fields :: "string list" where
  "bound_fields = [''requester'', ''target_uns_topic'', ''requested_value'', ''value_type'']"

definition settled_as :: "string \<Rightarrow> disposition" where
  "settled_as decision =
     (if decision = ''approve'' then DCompleted else if decision = ''reject'' then DRefused else DUnknown)"

text \<open>The checks of \<open>settle\<close> on the row found: the new disposition, or \<open>None\<close> to leave the row.\<close>

definition settle_verdict :: "inspection_row \<Rightarrow> doc \<Rightarrow> disposition option res" where
  "settle_verdict row result =
     (let command = (case ro_command row of None \<Rightarrow> [] | Some c \<Rightarrow> c) in
      if \<not> list_all (\<lambda>k. opt_json_eq (dget k result) (dget k command)) bound_fields
      then Inl (ValueError ''result binding mismatch'')
      else (case dget ''decision'' result of
        Some (JStr decision) \<Rightarrow>
          if decision \<notin> {''approve'', ''reject'', ''pending'', ''unknown''}
          then Inl (ValueError ''unknown result type'')
          else if decision = ''pending'' then Inr None
          else if decision = ''approve'' \<and>
                  \<not> (case dget ''written_at'' result of None \<Rightarrow> False | Some v \<Rightarrow> truthy v)
          then Inl (ValueError ''completion acknowledgement missing'')
          else if ro_disposition row = DCompleted \<and> settled_as decision \<noteq> DCompleted
          then Inl (ValueError ''completed outcome cannot be overwritten'')
          else if \<not> json_finite (JObj result)
          then Inl (ValueError ''Out of range float values are not JSON compliant'')
          else Inr (Some (settled_as decision))
      | _ \<Rightarrow> Inl (ValueError ''unknown result type'')))"

definition settle_row :: "string \<Rightarrow> disposition \<Rightarrow> doc \<Rightarrow> inspection_row \<Rightarrow> inspection_row" where
  "settle_row identity d result r =
     (if ro_command_id r = Some identity then r\<lparr>ro_disposition := d, ro_result := Some result\<rparr> else r)"

text \<open>A result without a command id of the table settles nothing.\<close>

definition settle :: "doc \<Rightarrow> consumer_store \<Rightarrow> consumer_store \<times> unit res" where
  "settle result s =
     (case dget ''correlation_id'' result of
        Some (JStr identity) \<Rightarrow>
          (case find_row (\<lambda>r. ro_command_id r = Some identity) s of
             None \<Rightarrow> (s, Inr ())
           | Some row \<Rightarrow>
               (case settle_verdict row result of
                  Inl e \<Rightarrow> (s, Inl e)
                | Inr None \<Rightarrow> (s, Inr ())
                | Inr (Some d) \<Rightarrow>
                    (s\<lparr>cs_inspections := map (settle_row identity d result) (cs_inspections s)\<rparr>, Inr ())))
      | _ \<Rightarrow> (s, Inr ()))"

section \<open>Well-formed stores\<close>

text \<open>
  Ids and command ids are unique, serial numbers increase, exactly the rows that were ever pending
  carry a command, and at most 128 commands are pending.
\<close>

definition command_rows :: "consumer_store \<Rightarrow> string list" where
  "command_rows s = map (\<lambda>r. the (ro_command_id r)) (filter (\<lambda>r. ro_command_id r \<noteq> None) (cs_inspections s))"

definition pending_rows :: "consumer_store \<Rightarrow> inspection_row list" where
  "pending_rows s = filter (\<lambda>r. ro_disposition r = DPending) (cs_inspections s)"

definition crow_ok :: "inspection_row \<Rightarrow> bool" where
  "crow_ok r \<longleftrightarrow>
     (ro_command_id r = None \<longleftrightarrow> ro_command r = None) \<and>
     (ro_disposition r \<in> {DPending, DCompleted, DRefused, DUnknown} \<longleftrightarrow> ro_command_id r \<noteq> None) \<and>
     (\<forall>c i. ro_command r = Some c \<and> ro_command_id r = Some i \<longrightarrow> dget ''correlation_id'' c = Some (JStr i)) \<and>
     dget ''inspection_id'' (ro_payload r) = Some (JStr (ro_id r))"

definition store_ok :: "consumer_store \<Rightarrow> bool" where
  "store_ok s \<longleftrightarrow>
     distinct (map ro_id (cs_inspections s)) \<and> distinct (command_rows s) \<and>
     sorted_wrt (<) (map ro_serial (cs_inspections s)) \<and>
     (\<forall>r \<in> set (cs_inspections s). crow_ok r \<and> ro_serial r < cs_next_serial s) \<and>
     length (pending_rows s) \<le> 128"

lemma find_rowD: "find_row q s = Some r \<Longrightarrow> r \<in> set (cs_inspections s) \<and> q r"
  by (auto simp: find_row_def find_Some_iff)

lemma find_row_None: "find_row q s = None \<longleftrightarrow> (\<forall>r \<in> set (cs_inspections s). \<not> q r)"
  by (auto simp: find_row_def find_None_iff)

lemma find_row_unique:
  assumes "distinct (map ro_id (cs_inspections s))" "r \<in> set (cs_inspections s)"
  shows "find_row (\<lambda>x. ro_id x = ro_id r) s = Some r"
proof -
  obtain x where x: "find_row (\<lambda>x. ro_id x = ro_id r) s = Some x"
    using assms(2) by (cases "find_row (\<lambda>x. ro_id x = ro_id r) s") (auto simp: find_row_None)
  then have "x \<in> set (cs_inspections s)" "ro_id x = ro_id r" using find_rowD by blast+
  then have "x = r" using assms by (auto simp: distinct_map inj_on_def)
  with x show ?thesis by simp
qed

lemma map_rows_ok:
  assumes "\<And>r. ro_id (f r) = ro_id r \<and> ro_command_id (f r) = ro_command_id r \<and> ro_serial (f r) = ro_serial r"
    and "\<And>r. r \<in> set (cs_inspections s) \<Longrightarrow> crow_ok (f r)"
    and "\<And>r. ro_disposition (f r) = DPending \<Longrightarrow> ro_disposition r = DPending" and "store_ok s"
  shows "store_ok (s\<lparr>cs_inspections := map f (cs_inspections s)\<rparr>)"
proof -
  have "filter (\<lambda>r. ro_command_id r \<noteq> None) (map f rs) = map f (filter (\<lambda>r. ro_command_id r \<noteq> None) rs)" for rs
    using assms(1) by (simp add: filter_map comp_def)
  then have "command_rows (s\<lparr>cs_inspections := map f (cs_inspections s)\<rparr>) = command_rows s"
    using assms(1) by (simp add: command_rows_def comp_def)
  moreover have "length (filter (\<lambda>r. ro_disposition r = DPending) (map f rs)) \<le>
      length (filter (\<lambda>r. ro_disposition r = DPending) rs)" for rs
    using assms(3) by (induction rs) auto
  then have "length (pending_rows (s\<lparr>cs_inspections := map f (cs_inspections s)\<rparr>)) \<le> length (pending_rows s)"
    by (simp add: pending_rows_def)
  ultimately show ?thesis
    using assms(1,2,4) by (auto simp: store_ok_def comp_def)
qed

lemma store_ready_ok: "store_ok s \<Longrightarrow> store_ok (fst (store_ready now s))"
  unfolding store_ready_def Let_def fst_conv
  by (rule map_rows_ok) (auto simp: expire_row_def store_ok_def crow_ok_def split: if_splits)

lemma store_sent_ok: "store_ok s \<Longrightarrow> store_ok (store_sent i now s)"
  unfolding store_sent_def by (rule map_rows_ok) (auto simp: store_ok_def crow_ok_def split: if_splits)

lemma settle_verdict_Some:
  assumes "settle_verdict row result = Inr (Some d)"
  shows "\<exists>decision. dget ''decision'' result = Some (JStr decision) \<and> d = settled_as decision \<and>
    decision \<in> {''approve'', ''reject'', ''unknown''} \<and>
    (decision = ''approve'' \<longrightarrow> (\<exists>v. dget ''written_at'' result = Some v \<and> truthy v)) \<and>
    (ro_disposition row = DCompleted \<longrightarrow> d = DCompleted) \<and>
    list_all (\<lambda>k. opt_json_eq (dget k result) (dget k (case ro_command row of None \<Rightarrow> [] | Some c \<Rightarrow> c))) bound_fields"
  using assms unfolding settle_verdict_def Let_def
  by (auto split: if_splits option.splits json.splits)

lemma settle_cases:
  obtains (same) "fst (settle result s) = s"
  | (changed) identity row d where "dget ''correlation_id'' result = Some (JStr identity)"
      "find_row (\<lambda>r. ro_command_id r = Some identity) s = Some row" "settle_verdict row result = Inr (Some d)"
      "settle result s = (s\<lparr>cs_inspections := map (settle_row identity d result) (cs_inspections s)\<rparr>, Inr ())"
proof -
  have "fst (settle result s) = s \<or> (\<exists>identity row d. dget ''correlation_id'' result = Some (JStr identity) \<and>
      find_row (\<lambda>r. ro_command_id r = Some identity) s = Some row \<and> settle_verdict row result = Inr (Some d) \<and>
      settle result s = (s\<lparr>cs_inspections := map (settle_row identity d result) (cs_inspections s)\<rparr>, Inr ()))"
    by (simp add: settle_def split: option.split json.split sum.split)
  then show thesis using same changed by blast
qed

lemma settle_ok:
  assumes "store_ok s" shows "store_ok (fst (settle result s))"
proof (cases rule: settle_cases [of result s])
  case same
  then show ?thesis using assms by simp
next
  case (changed identity row d)
  have "d \<in> {DCompleted, DRefused, DUnknown}"
    using settle_verdict_Some [OF changed(3)] by (auto simp: settled_as_def)
  then have "store_ok (s\<lparr>cs_inspections := map (settle_row identity d result) (cs_inspections s)\<rparr>)"
    using assms by (intro map_rows_ok) (auto simp: store_ok_def crow_ok_def settle_row_def split: if_splits)
  then show ?thesis using changed by simp
qed

lemma insert_row_ok:
  assumes s: "store_ok s" and row: "crow_ok row" "ro_serial row = cs_next_serial s"
    and new: "\<forall>r \<in> set (cs_inspections s). ro_id r \<noteq> ro_id row"
      "ro_command_id row = None \<or> (\<forall>r \<in> set (cs_inspections s). ro_command_id r \<noteq> ro_command_id row)"
    and cap: "ro_disposition row = DPending \<Longrightarrow> length (pending_rows s) < 128"
  shows "store_ok (insert_row row now s)"
proof -
  let ?keep = "\<lambda>r. ro_disposition r = DPending \<or> now - 86400 \<le> ro_received r"
  let ?rows = "cs_inspections s @ [row]"
  have "distinct (map ro_id ?rows)" using s new(1) by (auto simp: store_ok_def)
  then have 1: "distinct (map ro_id (filter ?keep ?rows))" by (rule distinct_map_filter)
  let ?cmds = "filter (\<lambda>r. ro_command_id r \<noteq> None)"
  have "distinct (map (\<lambda>r. the (ro_command_id r)) (?cmds ?rows))"
    using s new(2) by (auto simp: store_ok_def command_rows_def)
  then have "distinct (map (\<lambda>r. the (ro_command_id r)) (filter ?keep (?cmds ?rows)))"
    by (rule distinct_map_filter)
  moreover have "filter ?keep (?cmds ?rows) = ?cmds (filter ?keep ?rows)"
    unfolding filter_filter by (rule filter_cong) auto
  ultimately have 2: "distinct (map (\<lambda>r. the (ro_command_id r)) (?cmds (filter ?keep ?rows)))"
    by (rule subst [rotated])
  have "sorted_wrt (<) (map ro_serial ?rows)"
    using s row by (auto simp: store_ok_def sorted_wrt_append)
  then have 3: "sorted_wrt (<) (map ro_serial (filter ?keep ?rows))"
    unfolding sorted_wrt_map by (rule sorted_wrt_filter)
  have "filter (\<lambda>r. ro_disposition r = DPending) (filter ?keep ?rows) = filter (\<lambda>r. ro_disposition r = DPending) ?rows"
    by (auto simp: filter_filter intro: filter_cong)
  then have 4: "length (pending_rows (insert_row row now s)) \<le> 128"
    using s cap by (auto simp: pending_rows_def insert_row_def store_ok_def)
  have 5: "\<forall>r \<in> set (filter ?keep ?rows). crow_ok r \<and> ro_serial r < cs_next_serial s + 1"
    using s row by (auto simp: store_ok_def)
  show ?thesis
    using 1 2 3 4 5 unfolding store_ok_def command_rows_def insert_row_def by simp
qed

text \<open>What a reception can do: return the old row, raise, or insert a row.\<close>

lemma receive_cases:
  assumes "receive C event now max_age factory baseline s = (s', out)"
  obtains (old) r where "s' = s" "out = Inr r" "find_row (\<lambda>r. ro_id r = bi_inspection_id event) s = Some r"
      "ro_digest r = sha256 C (sorted_keys (JObj (event_doc event)))"
  | (raised) e where "s' = s" "out = Inl e"
  | (new) r where "out = Inr r" "s' = insert_row r now s" "ro_id r = bi_inspection_id event"
      "\<forall>x \<in> set (cs_inspections s). ro_id x \<noteq> ro_id r" "ro_received r = now" "ro_serial r = cs_next_serial s"
      "ro_digest r = sha256 C (sorted_keys (JObj (event_doc event)))" "ro_payload r = event_doc event"
      "ro_command_id r = None \<and> ro_command r = None \<and> ro_disposition r \<in> {DFuture, DExpired, DPassed, DBottleDuplicate} \<or>
       ro_disposition r = DPending \<and> length (pending_rows s) < 128 \<and>
       (\<exists>command cid. factory = Inr command \<and> command_of command = Inr cid \<and> ro_command r = Some command \<and>
          ro_command_id r = Some cid \<and> (\<forall>x \<in> set (cs_inspections s). ro_command_id x \<noteq> Some cid)) \<and>
       (\<forall>x \<in> set (cs_inspections s). now - max_age - 10 \<le> ro_received x \<longrightarrow>
          \<not> same_bottle (id_session (bi_inspection_id event)) (bi_bottle_id event) x)"
proof (cases "find_row (\<lambda>r. ro_id r = bi_inspection_id event) s")
  case (Some r)
  then have "s' = s \<and> ((\<exists>e. out = Inl e) \<or>
      out = Inr r \<and> ro_digest r = sha256 C (sorted_keys (JObj (event_doc event))))"
    using assms by (auto simp: receive_def Let_def simp del: sorted_keys.simps split: if_splits)
  then show ?thesis using Some old raised by blast
next
  case None
  then have fresh: "\<forall>x \<in> set (cs_inspections s). ro_id x \<noteq> bi_inspection_id event" by (simp add: find_row_None)
  define d0 where "d0 = disposition_of (now - timestamp (bi_inspected_at event)) max_age (bi_passed event)"
  define dup where "dup \<longleftrightarrow> (\<exists>r \<in> set (cs_inspections s). now - max_age - 10 \<le> ro_received r \<and>
      same_bottle (id_session (bi_inspection_id event)) (bi_bottle_id event) r)"
  define d1 where "d1 = (if d0 = DPending \<and> dup then DBottleDuplicate else d0)"
  have d0: "d0 \<in> {DFuture, DExpired, DPassed, DPending}" by (simp add: d0_def disposition_of_def)
  note eq = assms [unfolded receive_def None Let_def option.case, folded d0_def dup_def, folded d1_def]
  let ?row = "new_row C event now d1 baseline (cs_next_serial s)"
  show ?thesis
  proof (cases "d1 = DPending")
    case False
    then have "d1 \<in> {DFuture, DExpired, DPassed, DBottleDuplicate}" using d0 by (auto simp: d1_def)
    moreover have "out = Inr ?row" "s' = insert_row ?row now s" using eq False by auto
    ultimately show ?thesis using fresh by (intro new [of ?row]) (auto simp: new_row_def)
  next
    case True
    then have dup: "\<not> dup" by (auto simp: d1_def split: if_splits)
    show ?thesis
    proof (cases "\<exists>e. out = Inl e")
      case True
      then obtain e where e: "out = Inl e" ..
      then have "s' = s" using eq \<open>d1 = DPending\<close>
        by (auto simp del: sorted_keys.simps split: if_splits sum.splits)
      then show ?thesis using e by (rule raised)
    next
      case False
      let ?m = "bindE factory (\<lambda>command. bindE (command_of command) (\<lambda>c. Inr (command, c)))"
      have len: "\<not> 128 \<le> length (filter (\<lambda>r. ro_disposition r = DPending) (cs_inspections s))"
        using eq \<open>d1 = DPending\<close> False by auto
      have "\<exists>p. ?m = Inr p" using eq \<open>d1 = DPending\<close> False len by (cases ?m) auto
      then obtain command cid where m: "?m = Inr (command, cid)" by auto
      then have "factory = Inr command" "command_of command = Inr cid" by (auto simp: bindE_Inr_iff)
      moreover have "\<forall>x \<in> set (cs_inspections s). ro_command_id x \<noteq> Some cid"
          "out = Inr (?row\<lparr>ro_command_id := Some cid, ro_command := Some command\<rparr>)"
          "s' = insert_row (?row\<lparr>ro_command_id := Some cid, ro_command := Some command\<rparr>) now s"
        using eq \<open>d1 = DPending\<close> False len unfolding m by (auto split: if_splits)
      ultimately have c: "length (pending_rows s) < 128" "factory = Inr command"
          "command_of command = Inr cid" "\<forall>x \<in> set (cs_inspections s). ro_command_id x \<noteq> Some cid"
          "out = Inr (?row\<lparr>ro_command_id := Some cid, ro_command := Some command\<rparr>)"
          "s' = insert_row (?row\<lparr>ro_command_id := Some cid, ro_command := Some command\<rparr>) now s"
        using len by (simp_all add: pending_rows_def)
      have "\<forall>x \<in> set (cs_inspections s). now - max_age - 10 \<le> ro_received x \<longrightarrow>
          \<not> same_bottle (id_session (bi_inspection_id event)) (bi_bottle_id event) x"
        using dup by (auto simp: dup_def)
      then show ?thesis using c \<open>d1 = DPending\<close> fresh
        by (intro new [of "?row\<lparr>ro_command_id := Some cid, ro_command := Some command\<rparr>"])
          (simp_all add: new_row_def)
    qed
  qed
qed

lemma command_of_Inr: "command_of c = Inr i \<Longrightarrow> dget ''correlation_id'' c = Some (JStr i)"
  by (auto simp: command_of_def dkey_def dget_def bindE_Inr_iff split: option.splits elim!: as_str.elims)

lemma receive_ok:
  assumes "store_ok s" "receive C event now max_age factory baseline s = (s', out)" shows "store_ok s'"
proof (cases rule: receive_cases [OF assms(2)])
  case (3 r)
  have "dget ''inspection_id'' (event_doc event) = Some (JStr (bi_inspection_id event))"
    by (simp add: dget_def event_doc_def inspection_doc_def)
  then have "crow_ok r" using 3 by (auto simp: crow_ok_def dest: command_of_Inr)
  moreover have "ro_command_id r = None \<or> (\<forall>x \<in> set (cs_inspections s). ro_command_id x \<noteq> ro_command_id r)"
    using 3(9) by auto
  ultimately show ?thesis using 3 by (auto intro!: insert_row_ok assms(1))
qed (use assms(1) in simp_all)

text \<open>The store is a position guard: it accepts each position of a stream once, in order.\<close>

definition store_mark :: "consumer_store \<Rightarrow> string \<Rightarrow> (string \<times> int \<times> int) option" where
  "store_mark s = row_mark (cs_positions s)"

lemma store_advance_guard:
  "snd (store_advance topic p b s) = snd (advance (cs_positions s) topic p b)"
  "store_mark (fst (store_advance topic p b s)) = row_mark (fst (advance (cs_positions s) topic p b))"
  "snd (advance (cs_positions s) topic p b) \<noteq> ''accepted'' \<Longrightarrow> fst (store_advance topic p b s) = s"
  using store_guard.refuse_same [of "cs_positions s" topic p b]
  by (auto simp: store_advance_def store_mark_def split: prod.splits)

interpretation inbox_guard: position_guard "\<lambda>s topic p b. store_advance topic p b s" store_mark
proof
  fix s topic p and b :: json
  show "snd (store_advance topic p b s) = ''accepted'' \<longleftrightarrow>
      (case store_mark s topic of None \<Rightarrow> True | Some (i, k) \<Rightarrow> i = sp_producer p \<and> pos_less k (pos_key p))"
    unfolding store_advance_guard store_mark_def by (rule store_guard.accept_iff)
  assume a: "snd (store_advance topic p b s) = ''accepted''"
  then show "store_mark (fst (store_advance topic p b s)) = (store_mark s)(topic \<mapsto> (sp_producer p, pos_key p))"
    unfolding store_advance_guard(1,2) unfolding store_mark_def by (rule store_guard.accept_mark)
next
  fix s topic p and b :: json
  assume "snd (store_advance topic p b s) \<noteq> ''accepted''"
  then show "fst (store_advance topic p b s) = s" by (simp add: store_advance_guard)
qed

section \<open>Runs of the store\<close>

text \<open>
  The operations of one store in the order of their transactions. Time is the largest clock reading
  so far; the recovery window of a reception is \<open>M\<close>. The third argument is the history: the rows as
  they were inserted with a command, newest first, whether or not they are still in the table.
\<close>

definition commanded :: "consumer_store \<Rightarrow> consumer_store \<Rightarrow> inspection_row res \<Rightarrow> inspection_row list" where
  "commanded s s' out =
     (case out of Inl e \<Rightarrow> []
      | Inr r \<Rightarrow> if cs_next_serial s' \<noteq> cs_next_serial s \<and> ro_command_id r \<noteq> None then [r] else [])"

inductive store_run ::
  "crypto \<Rightarrow> real \<Rightarrow> consumer_store \<Rightarrow> inspection_row list \<Rightarrow> real \<Rightarrow> consumer_store \<Rightarrow> bool" for C M where
  run_open: "cs_inspections s = [] \<Longrightarrow> store_run C M s [] t s"
| run_receive: "store_run C M s0 h t s \<Longrightarrow> t \<le> now \<Longrightarrow> receive C event now M factory baseline s = (s', out)
    \<Longrightarrow> store_run C M s0 (commanded s s' out @ h) now s'"
| run_ready: "store_run C M s0 h t s \<Longrightarrow> store_run C M s0 h t (fst (store_ready now s))"
| run_sent: "store_run C M s0 h t s \<Longrightarrow> store_run C M s0 h t (store_sent identity now s)"
| run_settle: "store_run C M s0 h t s \<Longrightarrow> store_run C M s0 h t (fst (settle result s))"
| run_advance: "store_run C M s0 h t s \<Longrightarrow> store_run C M s0 h t (fst (store_advance topic position binding s))"
| run_audit: "store_run C M s0 h t s \<Longrightarrow> store_run C M s0 h t (fst (audit_state topic payload dec snap now s))"

definition row_bottle :: "inspection_row \<Rightarrow> string \<times> json option" where
  "row_bottle r = (id_session (ro_id r), dget ''bottle_id'' (ro_payload r))"

text \<open>What never changes of a row.\<close>

definition row_key :: "inspection_row \<Rightarrow> nat \<times> string \<times> doc \<times> real \<times> string option" where
  "row_key r = (ro_serial r, ro_id r, ro_payload r, ro_received r, ro_command_id r)"

text \<open>
  Commands of one bottle lie more than the window and ten seconds apart. To check this a reception
  relies on the table: a command of the last day still has its row.
\<close>

definition history_kept :: "real \<Rightarrow> real \<Rightarrow> inspection_row list \<Rightarrow> consumer_store \<Rightarrow> bool" where
  "history_kept M t h s \<longleftrightarrow>
     (\<forall>a \<in> set h. \<forall>b \<in> set h. a \<noteq> b \<and> row_bottle a = row_bottle b \<longrightarrow> M + 10 < \<bar>ro_received a - ro_received b\<bar>) \<and>
     distinct (map ro_serial h) \<and>
     (\<forall>a \<in> set h. ro_received a \<le> t \<and> ro_serial a < cs_next_serial s \<and> ro_command_id a \<noteq> None) \<and>
     (\<forall>a \<in> set h. t - 86400 \<le> ro_received a \<longrightarrow> row_key a \<in> row_key ` set (cs_inspections s)) \<and>
     (\<forall>r \<in> set (cs_inspections s). ro_command_id r \<noteq> None \<longrightarrow> row_key r \<in> row_key ` set h)"

definition store_inv :: "real \<Rightarrow> real \<Rightarrow> inspection_row list \<Rightarrow> consumer_store \<Rightarrow> bool" where
  "store_inv M t h s \<longleftrightarrow> store_ok s \<and> history_kept M t h s"

lemma row_keyD: "row_key r = row_key a \<Longrightarrow> row_bottle r = row_bottle a \<and> ro_received r = ro_received a \<and>
    ro_command_id r = ro_command_id a \<and> ro_id r = ro_id a \<and> ro_payload r = ro_payload a"
  by (simp add: row_key_def row_bottle_def)

lemma same_keys_inv:
  assumes "store_inv M t h s" "store_ok s'" "row_key ` set (cs_inspections s') = row_key ` set (cs_inspections s)"
    "cs_next_serial s' = cs_next_serial s"
  shows "store_inv M t h s'"
proof -
  have "\<forall>k \<in> row_key ` set (cs_inspections s'). snd (snd (snd (snd k))) \<noteq> None \<longrightarrow> k \<in> row_key ` set h"
    unfolding assms(3) using assms(1) by (auto simp: store_inv_def history_kept_def row_key_def)
  then have "\<forall>r \<in> set (cs_inspections s'). ro_command_id r \<noteq> None \<longrightarrow> row_key r \<in> row_key ` set h"
    by (simp add: row_key_def)
  then show ?thesis using assms unfolding store_inv_def history_kept_def by simp
qed

lemma map_rows_inv:
  assumes "\<And>r. row_key (f r) = row_key r"
    and "store_ok (s\<lparr>cs_inspections := map f (cs_inspections s)\<rparr>)" and "store_inv M t h s"
  shows "store_inv M t h (s\<lparr>cs_inspections := map f (cs_inspections s)\<rparr>)"
  by (rule same_keys_inv [OF assms(3,2)]) (simp_all add: image_image assms(1))

lemma insert_row_kept:
  assumes kept: "history_kept M t h s" and t: "t \<le> now" and M: "M \<le> 86390" and r: "ro_received r = now" "ro_serial r = cs_next_serial s"
    and new: "ro_command_id r \<noteq> None \<Longrightarrow> (\<And>x. x \<in> set (cs_inspections s) \<Longrightarrow> row_bottle x = row_bottle r \<Longrightarrow> M + 10 < now - ro_received x)"
  shows "history_kept M now (if ro_command_id r \<noteq> None then r # h else h) (insert_row r now s)"
proof -
  let ?s = "insert_row r now s"
  have rows: "row_key a \<in> row_key ` set (cs_inspections ?s)" if a: "a \<in> set h" "now - 86400 \<le> ro_received a" for a
  proof -
    obtain x where x: "x \<in> set (cs_inspections s)" "row_key x = row_key a"
      using kept a t by (fastforce simp: history_kept_def)
    then have "x \<in> set (cs_inspections ?s)" using a(2) row_keyD [OF x(2)] by (simp add: insert_row_def)
    then show ?thesis unfolding x(2) [symmetric] by (rule imageI)
  qed
  have self: "r \<in> set (cs_inspections ?s)" using r by (simp add: insert_row_def)
  have sub: "set (cs_inspections ?s) \<subseteq> insert r (set (cs_inspections s))" by (auto simp: insert_row_def)
  have apart: "M + 10 < now - ro_received a" if a: "a \<in> set h" "ro_command_id r \<noteq> None" "row_bottle a = row_bottle r" for a
  proof (cases "t - 86400 \<le> ro_received a")
    case True
    then obtain x where "x \<in> set (cs_inspections s)" "row_key x = row_key a"
      using kept a(1) by (fastforce simp: history_kept_def)
    then show ?thesis using new [OF a(2), of x] a(3) row_keyD [of x a] by simp
  next
    case False
    then show ?thesis using t M by linarith
  qed
  have old: "\<And>a. a \<in> set h \<Longrightarrow> ro_received a \<le> now \<and> ro_serial a < cs_next_serial s \<and> ro_command_id a \<noteq> None"
    using kept t by (fastforce simp: history_kept_def)
  have old_rows: "row_key x \<in> row_key ` set h" if "x \<in> set (cs_inspections s)" "ro_command_id x \<noteq> None" for x
    using kept that by (simp add: history_kept_def)
  have pairs: "M + 10 < \<bar>ro_received a - ro_received b\<bar>"
    if "a \<in> set h" "b \<in> set h" "a \<noteq> b" "row_bottle a = row_bottle b" for a b
    using kept that by (simp add: history_kept_def)
  have nxt: "cs_next_serial ?s = cs_next_serial s + 1" by (simp add: insert_row_def)
  have d: "distinct (map ro_serial h)" using kept by (simp add: history_kept_def)
  show ?thesis
  proof (cases "ro_command_id r = None")
    case True
    then show ?thesis
      unfolding history_kept_def nxt using d old rows pairs old_rows sub by (fastforce simp: less_Suc_eq)
  next
    case False
    have new_pairs: "M + 10 < \<bar>ro_received a - ro_received b\<bar>"
      if "a \<in> insert r (set h)" "b \<in> insert r (set h)" "a \<noteq> b" "row_bottle a = row_bottle b" for a b
      using that pairs [of a b] apart [of a] apart [of b] False r(1) by auto
    have "distinct (map ro_serial (r # h))" using d old r(2) by fastforce
    moreover have "\<forall>a \<in> set (r # h). ro_received a \<le> now \<and> ro_serial a < cs_next_serial ?s \<and> ro_command_id a \<noteq> None"
      using old r False by (auto simp: nxt less_Suc_eq)
    moreover have "\<forall>a \<in> set (r # h). now - 86400 \<le> ro_received a \<longrightarrow> row_key a \<in> row_key ` set (cs_inspections ?s)"
      using rows self by auto
    moreover have "\<forall>x \<in> set (cs_inspections ?s). ro_command_id x \<noteq> None \<longrightarrow> row_key x \<in> row_key ` set (r # h)"
      using sub old_rows by auto
    ultimately show ?thesis using False new_pairs unfolding history_kept_def by simp
  qed
qed

lemma receive_inv:
  assumes inv: "store_inv M t h s" and t: "t \<le> now" and M: "M \<le> 86390"
    and run: "receive C event now M factory baseline s = (s', out)"
  shows "store_inv M now (commanded s s' out @ h) s'"
proof -
  have ok: "store_ok s'" using inv run receive_ok by (auto simp: store_inv_def)
  have later: "history_kept M now h s"
    using inv t by (fastforce simp: store_inv_def history_kept_def)
  show ?thesis
  proof (cases rule: receive_cases [OF run])
    case (3 r)
    have bottle: "row_bottle r = (id_session (bi_inspection_id event), Some (JInt (bi_bottle_id event)))"
      using 3 by (simp add: row_bottle_def dget_def event_doc_def inspection_doc_def)
    have new: "M + 10 < now - ro_received x"
      if "ro_command_id r \<noteq> None" "x \<in> set (cs_inspections s)" "row_bottle x = row_bottle r" for x
    proof -
      have "same_bottle (id_session (bi_inspection_id event)) (bi_bottle_id event) x"
        using that(3) unfolding bottle by (simp add: row_bottle_def same_bottle_def)
      then show ?thesis using 3(9) that by force
    qed
    have "commanded s s' out @ h = (if ro_command_id r \<noteq> None then r # h else h)"
      using 3 by (simp add: commanded_def insert_row_def)
    moreover have "history_kept M now (if ro_command_id r \<noteq> None then r # h else h) (insert_row r now s)"
      by (rule insert_row_kept [OF later order_refl M 3(5,6)]) (rule new)
    ultimately show ?thesis using ok 3(2) by (simp only: store_inv_def)
  next
    case (1 r)
    then show ?thesis using ok later by (simp add: store_inv_def commanded_def)
  next
    case (2 e)
    then show ?thesis using ok later by (simp add: store_inv_def commanded_def)
  qed
qed

lemma same_rows_inv:
  "store_inv M t h s \<Longrightarrow> cs_inspections s' = cs_inspections s \<Longrightarrow> cs_next_serial s' = cs_next_serial s \<Longrightarrow>
     store_inv M t h s'"
  by (simp add: store_inv_def store_ok_def history_kept_def command_rows_def pending_rows_def)

lemma store_run_inv: "store_run C M s0 h t s \<Longrightarrow> M \<le> 86390 \<Longrightarrow> store_inv M t h s"
proof (induction rule: store_run.induct)
  case (run_open s t)
  then show ?case
    by (simp add: store_inv_def store_ok_def history_kept_def command_rows_def pending_rows_def)
next
  case (run_receive s0 h t s now event factory baseline s' out)
  then show ?case using receive_inv by blast
next
  case (run_ready s0 h t s now)
  then have "store_ok (fst (store_ready now s))" by (auto intro: store_ready_ok simp: store_inv_def)
  with run_ready show ?case unfolding store_ready_def Let_def fst_conv
    by (intro map_rows_inv) (simp_all add: expire_row_def row_key_def)
next
  case (run_sent s0 h t s identity now)
  then have "store_ok (store_sent identity now s)" by (auto intro: store_sent_ok simp: store_inv_def)
  with run_sent show ?case unfolding store_sent_def by (intro map_rows_inv) (simp_all add: row_key_def)
next
  case (run_settle s0 h t s result)
  then have ok: "store_ok (fst (settle result s))" by (auto intro: settle_ok simp: store_inv_def)
  show ?case
  proof (cases rule: settle_cases [of result s])
    case same
    then show ?thesis using run_settle by simp
  next
    case (changed identity row d)
    have "store_inv M t h (s\<lparr>cs_inspections := map (settle_row identity d result) (cs_inspections s)\<rparr>)"
      by (rule map_rows_inv) (use run_settle ok changed(4) in \<open>simp_all add: settle_row_def row_key_def\<close>)
    then show ?thesis using changed(4) by simp
  qed
next
  case (run_advance s0 h t s topic position binding)
  show ?case using run_advance.IH [OF run_advance.prems]
    by (rule same_rows_inv) (simp_all add: store_advance_def split: prod.split)
next
  case (run_audit s0 h t s topic payload dec snap now)
  show ?case using run_audit.IH [OF run_audit.prems]
    by (rule same_rows_inv) (simp_all add: audit_state_def Let_def)
qed

section \<open>Properties\<close>

text \<open>
  C13. At most one command per bottle: in every run of the store with a clock that does not go back and
  a recovery window of at most 86390 seconds, two inspections of the same session and bottle that both
  caused a command were received more than the window and ten seconds apart, whether or not their rows
  are still in the table. Every command of the table has its own id and comes from such an inspection,
  and at most 128 commands are pending.
\<close>

theorem bottle_commanded_once:
  assumes "store_run C M s0 h t s" and "M \<le> 86390"
  shows "(\<forall>a \<in> set h. \<forall>b \<in> set h. a \<noteq> b \<and> id_session (ro_id a) = id_session (ro_id b) \<and>
       dget ''bottle_id'' (ro_payload a) = dget ''bottle_id'' (ro_payload b) \<longrightarrow>
       M + 10 < \<bar>ro_received a - ro_received b\<bar>) \<and>
    distinct (map ro_serial h) \<and> distinct (command_rows s) \<and>
    (\<forall>r \<in> set (cs_inspections s). ro_command_id r \<noteq> None \<longrightarrow>
       (\<exists>a \<in> set h. ro_id a = ro_id r \<and> ro_payload a = ro_payload r \<and> ro_received a = ro_received r \<and>
          ro_command_id a = ro_command_id r)) \<and>
    length (pending_rows s) \<le> 128"
proof -
  have inv: "store_ok s" "history_kept M t h s" using store_run_inv [OF assms] by (simp_all add: store_inv_def)
  have "\<exists>a \<in> set h. ro_id a = ro_id r \<and> ro_payload a = ro_payload r \<and> ro_received a = ro_received r \<and>
      ro_command_id a = ro_command_id r" if r: "r \<in> set (cs_inspections s)" "ro_command_id r \<noteq> None" for r
  proof -
    obtain a where "a \<in> set h" "row_key r = row_key a" using inv(2) r by (auto simp: history_kept_def)
    then show ?thesis using row_keyD [of r a] by metis
  qed
  then show ?thesis using inv by (simp add: history_kept_def row_bottle_def store_ok_def)
qed

definition example_bottle :: "string \<Rightarrow> int \<Rightarrow> bottle_inspection" where
  "example_bottle i us =
     \<lparr>bi_inspection_id = i, bi_bottle_id = 3, bi_passed = False, bi_inspected_at = utc us\<rparr>"

definition example_store :: consumer_store where
  "example_store =
     \<lparr>cs_instance = ''i'', cs_positions = Map.empty, cs_inspections = [], cs_next_serial = 1,
      cs_audit = [], cs_next_audit = 1\<rparr>"

definition example_order :: "string \<Rightarrow> doc" where
  "example_order c = [(''correlation_id'', JStr c), (''requester'', JStr ''r''),
     (''target_uns_topic'', JStr ''t''), (''requested_value'', JInt 3), (''value_type'', JStr ''integer'')]"

definition example_hash :: crypto where
  "example_hash = \<lparr>sha256 = (\<lambda>_. ''d''), hmac = (\<lambda>_ _. ''m'')\<rparr>"

definition first_receipt :: "consumer_store \<times> inspection_row res" where
  "first_receipt =
     receive example_hash (example_bottle ''s:1'' 1000000) 2 5 (Inr (example_order ''c1'')) None example_store"

definition second_receipt :: "consumer_store \<times> inspection_row res" where
  "second_receipt =
     receive example_hash (example_bottle ''s:2'' 30000000) 31 5 (Inr (example_order ''c2'')) None (fst first_receipt)"

lemma example_receipts:
  "map (\<lambda>r. (ro_id r, ro_command_id r, ro_received r, ro_disposition r)) (cs_inspections (fst second_receipt)) =
     [(''s:1'', Some ''c1'', 2, DPending), (''s:2'', Some ''c2'', 31, DPending)]"
  by code_simp

lemma example_run:
  "store_run example_hash 5 example_store
     (commanded (fst first_receipt) (fst second_receipt) (snd second_receipt) @
      commanded example_store (fst first_receipt) (snd first_receipt) @ []) 31 (fst second_receipt)"
proof -
  have "store_run example_hash 5 example_store (commanded example_store (fst first_receipt) (snd first_receipt) @ []) 2
      (fst first_receipt)"
    by (rule run_receive [where s = example_store and t = 0 and event = "example_bottle ''s:1'' 1000000"
          and factory = "Inr (example_order ''c1'')" and baseline = None])
      (simp_all add: first_receipt_def run_open example_store_def)
  then show ?thesis
    by (rule run_receive [where event = "example_bottle ''s:2'' 30000000" and baseline = None
          and factory = "Inr (example_order ''c2'')"])
      (simp_all add: second_receipt_def)
qed

theorem bottle_commanded_once_witness:
  "\<exists>a b. {a, b} \<subseteq> set (cs_inspections (fst second_receipt)) \<and> ro_command_id a = Some ''c1'' \<and>
     ro_command_id b = Some ''c2'' \<and> 15 < \<bar>ro_received a - ro_received b\<bar>"
proof -
  obtain a b where ab: "cs_inspections (fst second_receipt) = [a, b]" "ro_id a = ''s:1''" "ro_id b = ''s:2''"
      "ro_command_id a = Some ''c1''" "ro_command_id b = Some ''c2''"
    using example_receipts by (auto simp: map_eq_Cons_conv)
  have bottles: "map (\<lambda>r. dget ''bottle_id'' (ro_payload r)) (cs_inspections (fst second_receipt)) = [Some (JInt 3), Some (JInt 3)]"
    by code_simp
  let ?h = "commanded (fst first_receipt) (fst second_receipt) (snd second_receipt) @
      commanded example_store (fst first_receipt) (snd first_receipt) @ []"
  have once: "(\<forall>x \<in> set ?h. \<forall>y \<in> set ?h. x \<noteq> y \<and> id_session (ro_id x) = id_session (ro_id y) \<and>
       dget ''bottle_id'' (ro_payload x) = dget ''bottle_id'' (ro_payload y) \<longrightarrow> 5 + 10 < \<bar>ro_received x - ro_received y\<bar>)"
    "\<And>r. r \<in> {a, b} \<Longrightarrow> \<exists>x \<in> set ?h. ro_id x = ro_id r \<and> ro_payload x = ro_payload r \<and> ro_received x = ro_received r"
    using bottle_commanded_once [OF example_run] ab by auto
  obtain x where x: "x \<in> set ?h" "ro_id x = ro_id a" "ro_payload x = ro_payload a" "ro_received x = ro_received a"
    using once(2) [of a] by auto
  obtain y where y: "y \<in> set ?h" "ro_id y = ro_id b" "ro_payload y = ro_payload b" "ro_received y = ro_received b"
    using once(2) [of b] by auto
  have "x \<noteq> y" "id_session (ro_id x) = id_session (ro_id y)" "dget ''bottle_id'' (ro_payload x) = dget ''bottle_id'' (ro_payload y)"
    using x y ab bottles by (auto simp: id_session_def)
  then have "5 + 10 < \<bar>ro_received x - ro_received y\<bar>" using once(1) x(1) y(1) by blast
  then show ?thesis using ab x(4) y(4) by auto
qed

text \<open>
  A reception is idempotent: when an inspection has been stored, receiving it again, at any time
  and with any command at hand, returns the same row and leaves the store alone, and a different
  event under its id is refused.
\<close>

theorem receive_idempotent:
  assumes "store_ok s" and "receive C event now max_age factory baseline s = (s', Inr row)"
    and "bi_inspection_id other = bi_inspection_id event"
  shows "receive C event now2 max_age2 factory2 baseline2 s' = (s', Inr row) \<and>
    (receive C other now2 max_age2 factory2 baseline2 s' = (s', Inr row) \<or>
     sha256 C (sorted_keys (JObj (event_doc other))) \<noteq> sha256 C (sorted_keys (JObj (event_doc event))) \<and>
     receive C other now2 max_age2 factory2 baseline2 s' = (s', Inl (ValueError ''inspection identity conflict'')))"
proof -
  have "find_row (\<lambda>r. ro_id r = bi_inspection_id event) s' = Some row \<and>
      ro_digest row = sha256 C (sorted_keys (JObj (event_doc event)))"
  proof (cases rule: receive_cases [OF assms(2)])
    case (3 r)
    then have "row \<in> set (cs_inspections s')" "ro_id row = bi_inspection_id event" by (auto simp: insert_row_def)
    then show ?thesis
      using find_row_unique [of s' row] receive_ok [OF assms(1,2)] 3 by (simp add: store_ok_def)
  qed simp_all
  then show ?thesis using assms(3) by (simp add: receive_def del: sorted_keys.simps)
qed

theorem receive_idempotent_witness:
  "receive example_hash (example_bottle ''s:1'' 1000000) 40 1 (Inl AssertionError) None (fst first_receipt) = first_receipt"
proof -
  have "isl (snd first_receipt) = False" by code_simp
  then obtain row where r: "snd first_receipt = Inr row" by (cases "snd first_receipt") auto
  have "store_ok example_store" by (simp add: store_ok_def example_store_def command_rows_def pending_rows_def)
  from receive_idempotent [OF this, where row = row and s' = "fst first_receipt"
      and event = "example_bottle ''s:1'' 1000000" and other = "example_bottle ''s:1'' 1000000"] r
  show ?thesis by (simp add: first_receipt_def prod_eq_iff)
qed

text \<open>
  Settling is bound to the command: a result changes at most the row of its own command, and
  only when requester, target, value and type are those of the command; an approved result carries
  the time of the write; a completed row stays completed.
\<close>

theorem settlement_bound:
  assumes "settle result s = (s', out)"
  shows "s' = s \<or> out = Inr () \<and>
    (\<exists>i decision row. dget ''correlation_id'' result = Some (JStr i) \<and> dget ''decision'' result = Some (JStr decision) \<and>
       find_row (\<lambda>r. ro_command_id r = Some i) s = Some row \<and>
       decision \<in> {''approve'', ''reject'', ''unknown''} \<and>
       s' = s\<lparr>cs_inspections := map (settle_row i (settled_as decision) result) (cs_inspections s)\<rparr> \<and>
       list_all (\<lambda>k. opt_json_eq (dget k result) (dget k (case ro_command row of None \<Rightarrow> [] | Some c \<Rightarrow> c))) bound_fields \<and>
       (decision \<noteq> ''approve'' \<or> (\<exists>v. dget ''written_at'' result = Some v \<and> truthy v)) \<and>
       (ro_disposition row \<noteq> DCompleted \<or> settled_as decision = DCompleted))"
proof (cases rule: settle_cases [of result s])
  case same
  then show ?thesis using assms by simp
next
  case (changed identity row d)
  then show ?thesis using assms settle_verdict_Some [OF changed(3)] by auto
qed

definition example_outcome :: doc where
  "example_outcome = example_order ''c1'' @ [(''decision'', JStr ''approve''), (''written_at'', JStr ''w'')]"

theorem settlement_bound_witness:
  "fst (settle example_outcome (fst first_receipt)) = (fst first_receipt)\<lparr>cs_inspections :=
     map (settle_row ''c1'' DCompleted example_outcome) (cs_inspections (fst first_receipt))\<rparr>"
proof -
  have "map ro_disposition (cs_inspections (fst (settle example_outcome (fst first_receipt)))) = [DCompleted]"
    "map ro_disposition (cs_inspections (fst first_receipt)) = [DPending]"
    "dget ''correlation_id'' example_outcome = Some (JStr ''c1'')"
    "dget ''decision'' example_outcome = Some (JStr ''approve'')"
    by code_simp+
  then show ?thesis
    using settlement_bound [OF prod.collapse [symmetric], of example_outcome "fst first_receipt"]
    by (auto simp: settled_as_def)
qed

end
