(* ===== verification/Decision_Rules.thy ===== *)
theory Decision_Rules
  imports Sosa Authorization
begin

text \<open>
  The rules of the decision agent: the production-mode rule (\<open>decision_agent_stub/service.py\<close>) and
  the bounded in-memory inspection rule (\<open>decision_agent_stub/inspection.py\<close>), with the settings
  they read (\<open>config.py\<close>). Fresh correlation ids are arguments; the dictionaries are association
  lists.
\<close>

section \<open>Settings\<close>

record agent_settings =
  ds_observation_contract :: "(string \<times> binding) list option"
  ds_durable :: bool
  ds_require_positions :: bool
  ds_receipt_key :: string
  ds_receipt_topic :: string
  ds_subscribe_topic :: string
  ds_amqp_queue :: string
  ds_enabled :: bool
  ds_normal_speed_max :: real
  ds_high_speed_min :: real
  ds_normal_setpoint :: real
  ds_high_setpoint :: real
  ds_max_observation_age :: real
  ds_target_topic :: string
  ds_inspection_enabled :: bool
  ds_inspection_topic :: string
  ds_reject_target_topic :: string
  ds_rejected_bottle_topic :: string
  ds_reject_count_topic :: string
  ds_inspection_max_age :: real

definition check_settings :: "agent_settings \<Rightarrow> agent_settings res" where
  "check_settings S =
     (if \<not> (0 \<le> ds_normal_speed_max S \<and> ds_normal_speed_max S \<le> 8 / 10 \<and>
             0 \<le> ds_high_speed_min S \<and> ds_high_speed_min S \<le> 8 / 10 \<and>
             20 \<le> ds_normal_setpoint S \<and> ds_normal_setpoint S \<le> 30 \<and>
             20 \<le> ds_high_setpoint S \<and> ds_high_setpoint S \<le> 30 \<and>
             0 < ds_max_observation_age S \<and> 0 < ds_inspection_max_age S \<and> ds_inspection_max_age S \<le> 5)
      then Inl (ValidationError ''DecisionAgentSettings'')
      else if ds_high_speed_min S \<le> ds_normal_speed_max S
      then Inl (ValidationError ''normal and high speed bands must be separated'')
      else Inr S)"

definition mk_request :: "actuation_request \<Rightarrow> actuation_request res" where
  "mk_request r = (if actuation_request_ok r then Inr r else Inl (ValidationError ''ActuationRequest''))"

section \<open>Production mode\<close>

text \<open>\<open>type(v) in (int, float) and math.isfinite(v)\<close>, and the number itself.\<close>

definition finite_speed :: "signal_value \<Rightarrow> bool res" where
  "finite_speed v = (case v of VBool _ \<Rightarrow> Inr False | VStr _ \<Rightarrow> Inr False | _ \<Rightarrow> finite_value v)"

fun number_of :: "signal_value \<Rightarrow> real" where
  "number_of (VInt n) = of_int n"
| "number_of (VFloat (Fin x)) = x"
| "number_of _ = 0"

record mode_state =
  md_last_mode :: "string option"
  md_latest_at :: "datetime option"

definition mode_new :: mode_state where
  "mode_new = \<lparr>md_last_mode = None, md_latest_at = None\<rparr>"

definition mode_target :: "agent_settings \<Rightarrow> real \<Rightarrow> (string \<times> real) option" where
  "mode_target S speed =
     (if ds_high_speed_min S \<le> speed then Some (''high'', ds_high_setpoint S)
      else if speed \<le> ds_normal_speed_max S then Some (''normal'', ds_normal_setpoint S)
      else None)"

text \<open>The text of the reason leaves out the mode and the printed speed.\<close>

definition mode_request :: "agent_settings \<Rightarrow> string \<Rightarrow> real \<Rightarrow> datetime \<Rightarrow> actuation_request" where
  "mode_request S cid target now =
     \<lparr>ar_correlation_id = cid, ar_requester = ''decision-agent-stub'', ar_target_uns_topic = ds_target_topic S,
      ar_requested_value = VFloat (Fin target), ar_value_type = TDouble,
      ar_reason = ''warmer recipe: production mode, conveyor speed setpoint'', ar_requested_at = now,
      ar_deadline = Some (now\<lparr>dt_us := dt_us now + 10000000\<rparr>), ar_extra = []\<rparr>"

definition mode_update ::
  "agent_settings \<Rightarrow> string \<Rightarrow> signal_value \<Rightarrow> datetime \<Rightarrow> datetime \<Rightarrow> string \<Rightarrow> mode_state
   \<Rightarrow> mode_state \<times> actuation_request option res" where
  "mode_update S cid speed observed_at now qual st =
     (if \<not> ds_enabled S \<or> qual \<noteq> ''good'' then (st, Inr None)
      else case finite_speed speed of
        Inl e \<Rightarrow> (st, Inl e)
      | Inr fin \<Rightarrow>
          if \<not> fin \<or> \<not> (0 \<le> number_of speed \<and> number_of speed \<le> 8 / 10) then (st, Inr None)
          else if \<not> aware observed_at \<or> \<not> aware now then (st, Inr None)
          else let age = secs (dt_us now - dt_us observed_at) in
          if \<not> (0 \<le> age \<and> age \<le> ds_max_observation_age S) then (st, Inr None)
          else if (case md_latest_at st of None \<Rightarrow> False | Some t \<Rightarrow> dt_us observed_at < dt_us t) then (st, Inr None)
          else let st1 = st\<lparr>md_latest_at := Some observed_at\<rparr> in
            case mode_target S (number_of speed) of
              None \<Rightarrow> (st1, Inr None)
            | Some (mode, target) \<Rightarrow>
                if md_last_mode st1 = Some mode then (st1, Inr None)
                else (st1\<lparr>md_last_mode := Some mode\<rparr>,
                      bindE (mk_request (mode_request S cid target now)) (\<lambda>r. Inr (Some r))))"

section \<open>Inspection rule\<close>

record rule_decision =
  rd_accepted :: bool
  rd_reason :: string
  rd_missing :: int
  rd_late :: bool

record inspection_rule =
  ir_capacity :: int
  ir_seen :: "(string \<times> datetime \<times> bottle_inspection) list"
  ir_bottles :: "((string \<times> int) \<times> datetime) list"
  ir_heads :: "(string \<times> int \<times> datetime \<times> datetime) list"
  ir_decision :: rule_decision

definition decided :: "bool \<Rightarrow> string \<Rightarrow> int \<Rightarrow> bool \<Rightarrow> rule_decision" where
  "decided accepted reason missing late =
     \<lparr>rd_accepted = accepted, rd_reason = reason, rd_missing = missing, rd_late = late\<rparr>"

definition rule_new :: "int \<Rightarrow> inspection_rule res" where
  "rule_new capacity =
     (if capacity < 1 then Inl (ValueError ''positive inspection capacity required'')
      else Inr \<lparr>ir_capacity = capacity, ir_seen = [], ir_bottles = [], ir_heads = [],
              ir_decision = decided False ''not_observed'' 0 False\<rparr>)"

definition window_us :: "agent_settings \<Rightarrow> int" where
  "window_us S = timedelta_us (ds_inspection_max_age S + 10)"

definition prune_rule :: "int \<Rightarrow> inspection_rule \<Rightarrow> inspection_rule" where
  "prune_rule cutoff r =
     r\<lparr>ir_seen := filter (\<lambda>(k, t0, e). cutoff \<le> dt_us t0) (ir_seen r),
       ir_bottles := filter (\<lambda>(k, t0). cutoff \<le> dt_us t0) (ir_bottles r),
       ir_heads := filter (\<lambda>(k, n, t0, i). cutoff \<le> dt_us t0) (ir_heads r)\<rparr>"

definition same_event :: "bottle_inspection \<Rightarrow> bottle_inspection \<Rightarrow> bool" where
  "same_event a b \<longleftrightarrow>
     bi_inspection_id a = bi_inspection_id b \<and> bi_bottle_id a = bi_bottle_id b \<and>
     bi_passed a = bi_passed b \<and> dt_eq (bi_inspected_at a) (bi_inspected_at b)"

definition split_identity :: "string \<Rightarrow> (string \<times> int) res" where
  "split_identity i =
     (case split_on (CHR '':'') i of
        [session, text] \<Rightarrow> (case parse_hex text of None \<Rightarrow> Inl (ValueError ''invalid literal for int()'') | Some n \<Rightarrow> Inr (session, n))
      | _ \<Rightarrow> Inl (ValueError ''wrong number of values to unpack''))"

definition reject_request :: "agent_settings \<Rightarrow> string \<Rightarrow> bottle_inspection \<Rightarrow> datetime \<Rightarrow> actuation_request" where
  "reject_request S cid event now =
     \<lparr>ar_correlation_id = cid, ar_requester = ''decision-agent-stub'', ar_target_uns_topic = ds_reject_target_topic S,
      ar_requested_value = VInt (bi_bottle_id event), ar_value_type = TInt64,
      ar_reason = ''failed bottle inspection '' @ bi_inspection_id event, ar_requested_at = now,
      ar_deadline = Some ((bi_inspected_at event)\<lparr>dt_us := dt_us (bi_inspected_at event) + timedelta_us (ds_inspection_max_age S)\<rparr>),
      ar_extra = []\<rparr>"

definition refuse :: "string \<Rightarrow> int \<Rightarrow> bool \<Rightarrow> inspection_rule \<Rightarrow> inspection_rule \<times> actuation_request option res" where
  "refuse reason gap late r = (r\<lparr>ir_decision := decided False reason gap late\<rparr>, Inr None)"

text \<open>The part of \<open>update\<close> after the sequence checks.\<close>

definition admit_bottle ::
  "agent_settings \<Rightarrow> string \<Rightarrow> bottle_inspection \<Rightarrow> datetime \<Rightarrow> string \<Rightarrow> int \<Rightarrow> bool \<Rightarrow> inspection_rule
   \<Rightarrow> inspection_rule \<times> actuation_request option res" where
  "admit_bottle S cid event now session gap late r =
     (let key = (session, bi_bottle_id event) in
      if map_of (ir_bottles r) key \<noteq> None then refuse ''bottle_duplicate'' gap late r
      else if ir_capacity r \<le> int (length (ir_seen r)) then refuse ''capacity'' gap late r
      else let r' = r\<lparr>ir_seen := AList.update (bi_inspection_id event) (now, event) (ir_seen r),
                     ir_bottles := AList.update key now (ir_bottles r),
                     ir_decision := decided True (if bi_passed event then ''passed'' else ''failed'') gap late\<rparr>
           in if bi_passed event then (r', Inr None)
              else (r', bindE (mk_request (reject_request S cid event now)) (\<lambda>q. Inr (Some q))))"

definition track_sequence ::
  "agent_settings \<Rightarrow> string \<Rightarrow> bottle_inspection \<Rightarrow> datetime \<Rightarrow> string \<Rightarrow> int \<Rightarrow> inspection_rule
   \<Rightarrow> inspection_rule \<times> actuation_request option res" where
  "track_sequence S cid event now session sequence r =
     (let head = map_of (ir_heads r) session;
          late = (case head of None \<Rightarrow> False | Some (n, _) \<Rightarrow> sequence \<le> n) in
      if late \<and> (case head of None \<Rightarrow> False | Some (n, t0, seen_at) \<Rightarrow> dt_us seen_at < dt_us (bi_inspected_at event))
      then refuse ''sequence_regression'' 0 False r
      else if head = None \<and> ir_capacity r \<le> int (length (ir_heads r)) then refuse ''capacity'' 0 False r
      else
        let gap = (case head of None \<Rightarrow> 0 | Some (n, _) \<Rightarrow> max 0 (sequence - n - 1));
            entry = (case head of
                       Some (n, t0, seen_at) \<Rightarrow> if late then (n, now, seen_at) else (sequence, now, bi_inspected_at event)
                     | None \<Rightarrow> (sequence, now, bi_inspected_at event))
        in admit_bottle S cid event now session gap late (r\<lparr>ir_heads := AList.update session entry (ir_heads r)\<rparr>))"

definition rule_update ::
  "agent_settings \<Rightarrow> string \<Rightarrow> bottle_inspection \<Rightarrow> datetime \<Rightarrow> inspection_rule
   \<Rightarrow> inspection_rule \<times> actuation_request option res" where
  "rule_update S cid event now r =
     (if \<not> ds_inspection_enabled S then refuse ''disabled'' 0 False r
      else let age = secs (dt_us now - dt_us (bi_inspected_at event)) in
      if \<not> (0 \<le> age \<and> age < ds_inspection_max_age S)
      then refuse (if age < 0 then ''future'' else ''stale'') 0 False r
      else let r1 = prune_rule (dt_us now - window_us S) (r\<lparr>ir_decision := decided False ''disabled'' 0 False\<rparr>) in
        case split_identity (bi_inspection_id event) of
          Inl e \<Rightarrow> (r1, Inl e)
        | Inr (session, sequence) \<Rightarrow>
            if sequence = 0 then refuse ''invalid_identity'' 0 False r1
            else case map_of (ir_seen r1) (bi_inspection_id event) of
              Some (t0, old) \<Rightarrow> refuse (if same_event old event then ''duplicate'' else ''identity_conflict'') 0 False r1
            | None \<Rightarrow> track_sequence S cid event now session sequence r1)"

section \<open>Runs of the mode rule\<close>

text \<open>An observation with the correlation id drawn for it; an exception is caught by the caller.\<close>

record mode_input =
  mi_cid :: string
  mi_speed :: signal_value
  mi_observed_at :: datetime
  mi_now :: datetime
  mi_quality :: string

fun mode_run :: "agent_settings \<Rightarrow> mode_state \<Rightarrow> mode_input list \<Rightarrow> (string \<times> actuation_request) list" where
  "mode_run S st [] = []"
| "mode_run S st (i # is) =
     (case mode_update S (mi_cid i) (mi_speed i) (mi_observed_at i) (mi_now i) (mi_quality i) st of
        (st', Inr (Some q)) \<Rightarrow> (case md_last_mode st' of None \<Rightarrow> [] | Some m \<Rightarrow> [(m, q)]) @ mode_run S st' is
      | (st', _) \<Rightarrow> mode_run S st' is)"

definition mode_inputs_ok :: "agent_settings \<Rightarrow> mode_input list \<Rightarrow> bool" where
  "mode_inputs_ok S is \<longleftrightarrow>
     (\<exists>path. parse_uns_topic (ds_target_topic S) = Inr path) \<and> list_all (\<lambda>i. is_valid_correlation_id (mi_cid i)) is"

lemma mode_request_ok:
  "\<exists>path. parse_uns_topic (ds_target_topic S) = Inr path \<Longrightarrow> is_valid_correlation_id cid \<Longrightarrow>
     mk_request (mode_request S cid target now) = Inr (mode_request S cid target now)"
  by (auto simp: mk_request_def actuation_request_ok_def mode_request_def)

text \<open>One update: the mode stays, or it changes and its request is issued.\<close>

lemma mode_update_cases:
  assumes "mode_update S cid speed at_time now qual st = (st', out)"
    and "\<exists>path. parse_uns_topic (ds_target_topic S) = Inr path" "is_valid_correlation_id cid"
  obtains (kept) "md_last_mode st' = md_last_mode st" "\<forall>q. out \<noteq> Inr (Some q)"
  | (changed) mode target where "mode_target S (number_of speed) = Some (mode, target)" "md_last_mode st \<noteq> Some mode"
      "md_last_mode st' = Some mode" "out = Inr (Some (mode_request S cid target now))"
proof -
  show thesis
    using assms(1) kept changed mode_request_ok [OF assms(2,3)]
    by (auto simp: mode_update_def Let_def split: if_splits option.splits sum.splits prod.splits)
qed

lemma mode_run_alternates:
  assumes "mode_inputs_ok S is"
  shows "distinct_adj (map fst (mode_run S st is)) \<and>
    (mode_run S st is \<noteq> [] \<longrightarrow> Some (fst (hd (mode_run S st is))) \<noteq> md_last_mode st) \<and>
    (\<forall>(m, q) \<in> set (mode_run S st is). \<exists>i \<in> set is. \<exists>target.
       mode_target S (number_of (mi_speed i)) = Some (m, target) \<and> q = mode_request S (mi_cid i) target (mi_now i))"
  using assms
proof (induction "is" arbitrary: st)
  case (Cons i "is")
  obtain st' out where u: "mode_update S (mi_cid i) (mi_speed i) (mi_observed_at i) (mi_now i) (mi_quality i) st = (st', out)"
    by fastforce
  have ok: "\<exists>path. parse_uns_topic (ds_target_topic S) = Inr path" "is_valid_correlation_id (mi_cid i)" "mode_inputs_ok S is"
    using Cons.prems by (auto simp: mode_inputs_ok_def)
  note IH = Cons.IH [OF ok(3), of st']
  show ?case
  proof (cases rule: mode_update_cases [OF u ok(1,2)])
    case 1
    then have "mode_run S st (i # is) = mode_run S st' is" using u by (auto split: sum.splits option.splits)
    then show ?thesis using IH 1(1) by auto
  next
    case (2 mode target)
    then have "mode_run S st (i # is) = (mode, mode_request S (mi_cid i) target (mi_now i)) # mode_run S st' is"
      using u by simp
    then show ?thesis using IH 2
      by (cases "mode_run S st' is") (auto simp: distinct_adj_Cons)
  qed
qed simp

section \<open>Runs of the inspection rule\<close>

definition event_key :: "bottle_inspection \<Rightarrow> string \<times> int" where
  "event_key e = (hd (split_on (CHR '':'') (bi_inspection_id e)), bi_bottle_id e)"

text \<open>Updates with a clock that does not go back; \<open>hist\<close> lists the events that led to a request.\<close>

inductive rule_run :: "agent_settings \<Rightarrow> int \<Rightarrow> inspection_rule \<Rightarrow> (bottle_inspection \<times> datetime) list \<Rightarrow> bool" for S where
  rule_start: "rule_new capacity = Inr r \<Longrightarrow> rule_run S t r []"
| rule_step: "rule_run S t r hist \<Longrightarrow> t \<le> dt_us now \<Longrightarrow> rule_update S cid event now r = (r', out) \<Longrightarrow>
    rule_run S (dt_us now) r' (hist @ (case out of Inr (Some q) \<Rightarrow> [(event, now)] | _ \<Rightarrow> []))"

definition live_bottles :: "agent_settings \<Rightarrow> int \<Rightarrow> inspection_rule \<Rightarrow> (bottle_inspection \<times> datetime) list \<Rightarrow> bool" where
  "live_bottles S t r hist \<longleftrightarrow>
     (\<forall>(e, n) \<in> set hist. dt_us n \<le> t \<and> (t - window_us S \<le> dt_us n \<longrightarrow> (event_key e, n) \<in> set (ir_bottles r)))"

definition log_apart :: "agent_settings \<Rightarrow> (bottle_inspection \<times> datetime) list \<Rightarrow> bool" where
  "log_apart S hist \<longleftrightarrow>
     sorted_wrt (\<lambda>a b. event_key (fst a) = event_key (fst b) \<longrightarrow> window_us S < dt_us (snd b) - dt_us (snd a)) hist"

definition within_capacity :: "inspection_rule \<Rightarrow> bool" where
  "within_capacity r \<longleftrightarrow> int (length (ir_seen r)) \<le> ir_capacity r \<and> int (length (ir_heads r)) \<le> ir_capacity r"

lemma update_length: "length (AList.update k v al) \<le> length al + (if map_of al k = None then 1 else 0)"
  by (induction al) auto

lemma update_other: "(k, v) \<in> set al \<Longrightarrow> k \<noteq> k' \<Longrightarrow> (k, v) \<in> set (AList.update k' v' al)"
  by (induction al) auto

lemma update_mem: "(k, v) \<in> set (AList.update k v al)"
  by (induction al) auto

lemma split_identity_session: "split_identity i = Inr (session, n) \<Longrightarrow> session = hd (split_on (CHR '':'') i)"
  by (auto simp: split_identity_def split: list.splits option.splits)

text \<open>What an update can do to the bottles and what it issues.\<close>

definition rule_effect ::
  "agent_settings \<Rightarrow> bottle_inspection \<Rightarrow> datetime \<Rightarrow> inspection_rule \<Rightarrow>
   inspection_rule \<times> actuation_request option res \<Rightarrow> bool" where
  "rule_effect S event now r res \<longleftrightarrow>
     (case res of (r', out) \<Rightarrow>
        ir_capacity r' = ir_capacity r \<and> within_capacity r' \<and>
        (ir_bottles r' = ir_bottles r \<and> (\<forall>q. out \<noteq> Inr (Some q)) \<or>
         map_of (ir_bottles r) (event_key event) = None \<and> ir_bottles r' = AList.update (event_key event) now (ir_bottles r)))"

lemma refuse_effect: "within_capacity r \<Longrightarrow> rule_effect S event now r (refuse reason gap late r)"
  by (simp add: rule_effect_def refuse_def within_capacity_def)

lemma effect_if:
  "(c \<Longrightarrow> rule_effect S event now r x) \<Longrightarrow> (\<not> c \<Longrightarrow> rule_effect S event now r y) \<Longrightarrow>
     rule_effect S event now r (if c then x else y)"
  by simp

lemma admit_effect:
  assumes "within_capacity r" "session = fst (event_key event)"
  shows "rule_effect S event now r (admit_bottle S cid event now session gap late r)"
proof -
  have "int (length (AList.update k v (ir_seen r))) \<le> ir_capacity r"
    if "\<not> ir_capacity r \<le> int (length (ir_seen r))" for k v
    using update_length [of k v "ir_seen r"] that by (auto split: if_splits)
  then have "rule_effect S event now r
      (r\<lparr>ir_seen := AList.update i v (ir_seen r), ir_bottles := AList.update (session, bi_bottle_id event) now (ir_bottles r),
        ir_decision := d\<rparr>, out)"
    if "map_of (ir_bottles r) (session, bi_bottle_id event) = None" "\<not> ir_capacity r \<le> int (length (ir_seen r))" for i v d out
    using assms that by (simp add: rule_effect_def within_capacity_def event_key_def)
  then show ?thesis unfolding admit_bottle_def Let_def
    by (intro effect_if refuse_effect [OF assms(1)]) simp_all
qed

lemma head_effect:
  assumes "within_capacity r" "session = fst (event_key event)"
    and room: "\<not> (map_of (ir_heads r) session = None \<and> ir_capacity r \<le> int (length (ir_heads r)))"
  shows "rule_effect S event now r
           (admit_bottle S cid event now session gap late (r\<lparr>ir_heads := AList.update session entry (ir_heads r)\<rparr>))"
proof -
  have "within_capacity (r\<lparr>ir_heads := AList.update session entry (ir_heads r)\<rparr>)"
    using update_length [of session entry "ir_heads r"] room assms(1) by (auto simp: within_capacity_def split: if_splits)
  from admit_effect [OF this assms(2)] show ?thesis
    by (simp add: rule_effect_def split: prod.splits)
qed

lemma track_effect:
  assumes "within_capacity r" "session = fst (event_key event)"
  shows "rule_effect S event now r (track_sequence S cid event now session sequence r)"
  unfolding track_sequence_def Let_def
  by (intro effect_if refuse_effect [OF assms(1)] head_effect [OF assms])

lemma prune_capacity: "within_capacity r \<Longrightarrow> within_capacity (prune_rule c r)"
proof -
  have shorter: "int (length (filter P xs)) \<le> n" if "int (length xs) \<le> n" for P :: "'x \<Rightarrow> bool" and xs n
    using length_filter_le [of P xs] that by linarith
  show "within_capacity r \<Longrightarrow> within_capacity (prune_rule c r)"
    by (simp add: within_capacity_def prune_rule_def shorter)
qed

text \<open>An update either changes nothing but the decision or works on the pruned state.\<close>

lemma rule_update_cases:
  assumes "rule_update S cid event now r = (r', out)" "within_capacity r"
  shows "ir_bottles r' = ir_bottles r \<and> within_capacity r' \<and> (\<forall>q. out \<noteq> Inr (Some q)) \<or>
    rule_effect S event now (prune_rule (dt_us now - window_us S) r) (r', out)"
proof -
  let ?r = "prune_rule (dt_us now - window_us S) (r\<lparr>ir_decision := decided False ''disabled'' 0 False\<rparr>)"
  have cap: "within_capacity ?r" by (rule prune_capacity) (use assms(2) in \<open>simp add: within_capacity_def\<close>)
  have same: "rule_effect S event now (prune_rule (dt_us now - window_us S) r) x" if "rule_effect S event now ?r x" for x
    using that by (simp add: rule_effect_def prune_rule_def split: prod.splits)
  have track: "rule_effect S event now ?r (track_sequence S cid event now session n ?r)"
    if "split_identity (bi_inspection_id event) = Inr (session, n)" for session n
    by (rule track_effect [OF cap]) (simp add: event_key_def split_identity_session [OF that])
  have raised: "rule_effect S event now ?r (?r, Inl e)" for e using cap by (simp add: rule_effect_def)
  show ?thesis
    using assms refuse_effect [OF cap] track raised same
    by (auto simp: rule_update_def Let_def within_capacity_def refuse_def split: if_splits sum.splits option.splits prod.splits)
qed

lemma rule_run_inv:
  "rule_run S t r hist \<Longrightarrow> within_capacity r \<and> live_bottles S t r hist \<and> log_apart S hist"
proof (induction rule: rule_run.induct)
  case (rule_start capacity r t)
  then show ?case
    by (auto simp: rule_new_def within_capacity_def live_bottles_def log_apart_def split: if_splits)
next
  case (rule_step t r hist now cid event r' out)
  let ?c = "dt_us now - window_us S"
  note IH = rule_step.IH
  consider (same) "ir_bottles r' = ir_bottles r" "within_capacity r'" "\<forall>q. out \<noteq> Inr (Some q)"
    | (effect) "rule_effect S event now (prune_rule ?c r) (r', out)"
    using rule_update_cases [OF rule_step.hyps(3)] IH by blast
  then show ?case
  proof cases
    case same
    then have "hist @ (case out of Inr (Some q) \<Rightarrow> [(event, now)] | _ \<Rightarrow> []) = hist" by (auto split: sum.splits option.splits)
    then show ?thesis using IH same rule_step.hyps(2) by (fastforce simp: live_bottles_def)
  next
    case effect
    have kept: "(event_key e, n) \<in> set (ir_bottles (prune_rule ?c r))"
      if "(e, n) \<in> set hist" "?c \<le> dt_us n" for e n
      using IH that rule_step.hyps(2) by (fastforce simp: live_bottles_def prune_rule_def)
    have le: "\<forall>(e, n) \<in> set hist. dt_us n \<le> dt_us now" using IH rule_step.hyps(2) by (fastforce simp: live_bottles_def)
    consider (none) "ir_bottles r' = ir_bottles (prune_rule ?c r)" "\<forall>q. out \<noteq> Inr (Some q)"
      | (new) "map_of (ir_bottles (prune_rule ?c r)) (event_key event) = None"
          "ir_bottles r' = AList.update (event_key event) now (ir_bottles (prune_rule ?c r))"
      using effect by (auto simp: rule_effect_def)
    then show ?thesis
    proof cases
      case none
      then have "hist @ (case out of Inr (Some q) \<Rightarrow> [(event, now)] | _ \<Rightarrow> []) = hist" by (auto split: sum.splits option.splits)
      then show ?thesis using IH effect none kept le by (fastforce simp: live_bottles_def rule_effect_def)
    next
      case new
      have gone: "window_us S < dt_us now - dt_us n" if "(e, n) \<in> set hist" "event_key e = event_key event" for e n
      proof (rule ccontr)
        assume "\<not> window_us S < dt_us now - dt_us n"
        then have "(event_key event, n) \<in> set (ir_bottles (prune_rule ?c r))" using kept [OF that(1)] that(2) by simp
        then have "event_key event \<in> fst ` set (ir_bottles (prune_rule ?c r))" by force
        then show False using new(1) by (simp add: map_of_eq_None_iff)
      qed
      have live: "(event_key e, n) \<in> set (ir_bottles r')" if "(e, n) \<in> set hist" "?c \<le> dt_us n" for e n
        using kept [OF that] gone [OF that(1)] that(2) new(2) by (cases "event_key e = event_key event") (auto intro: update_other)
      have "log_apart S (hist @ [(event, now)])" using IH gone by (fastforce simp: log_apart_def sorted_wrt_append)
      moreover have "(event_key event, now) \<in> set (ir_bottles r')" using new(2) by (simp add: update_mem)
      moreover have "within_capacity r'" using effect by (simp add: rule_effect_def)
      ultimately show ?thesis using IH live le
        by (cases out; cases "projr out") (fastforce simp: live_bottles_def)+
    qed
  qed
qed

section \<open>Properties\<close>

text \<open>
  The mode rule issues one request per change of mode: successive requests are of different
  modes, and each asks for the setpoint of the mode whose speed band contained the observed speed.
\<close>

theorem mode_requests_alternate:
  assumes "mode_inputs_ok S is"
  shows "distinct_adj (map fst (mode_run S mode_new is)) \<and>
    (\<forall>(m, q) \<in> set (mode_run S mode_new is). \<exists>i \<in> set is. \<exists>target.
       mode_target S (number_of (mi_speed i)) = Some (m, target) \<and> q = mode_request S (mi_cid i) target (mi_now i))"
  using mode_run_alternates [OF assms] by blast

definition example_settings :: agent_settings where
  "example_settings =
     \<lparr>ds_observation_contract = None, ds_durable = False, ds_require_positions = False, ds_receipt_key = [],
      ds_receipt_topic = ''rt'', ds_subscribe_topic = ''st'', ds_amqp_queue = ''q'', ds_enabled = True,
      ds_normal_speed_max = 5 / 10, ds_high_speed_min = 6 / 10, ds_normal_setpoint = 22, ds_high_setpoint = 26,
      ds_max_observation_age = 5, ds_target_topic = ''a/b/c/d/e/f/g'', ds_inspection_enabled = True,
      ds_inspection_topic = ''it'', ds_reject_target_topic = ''a/b/c/d/e/f/h'', ds_rejected_bottle_topic = ''bt'',
      ds_reject_count_topic = ''ct'', ds_inspection_max_age = 2\<rparr>"

definition example_speed :: "real \<Rightarrow> int \<Rightarrow> mode_input" where
  "example_speed v t = \<lparr>mi_cid = replicate 26 (CHR ''0''), mi_speed = VFloat (Fin v), mi_observed_at = utc t,
     mi_now = utc (t + 1), mi_quality = ''good''\<rparr>"

theorem mode_requests_alternate_witness:
  "map fst (mode_run example_settings mode_new
     [example_speed (7/10) 1, example_speed (55/100) 2, example_speed (7/10) 3, example_speed (1/10) 4]) =
   [''high'', ''normal''] \<and> distinct_adj (map fst (mode_run example_settings mode_new
     [example_speed (7/10) 1, example_speed (55/100) 2, example_speed (7/10) 3, example_speed (1/10) 4]))"
proof -
  let ?is = "[example_speed (7/10) 1, example_speed (55/100) 2, example_speed (7/10) 3, example_speed (1/10) 4]"
  have "case parse_uns_topic (ds_target_topic example_settings) of Inr p \<Rightarrow> True | Inl e \<Rightarrow> False" by code_simp
  then have "mode_inputs_ok example_settings ?is"
    using example_command_ok by (auto simp: mode_inputs_ok_def example_speed_def actuation_request_ok_def example_command_def split: sum.splits)
  moreover have "map fst (mode_run example_settings mode_new ?is) = [''high'', ''normal'']" by code_simp
  ultimately show ?thesis using mode_requests_alternate by blast
qed

text \<open>
  C35. The inspection rule asks for one rejection per bottle: with a clock that does not go back, two
  requests for the same session and bottle lie more than the inspection window and ten seconds
  apart, and the identities and sessions remembered never exceed the capacity.
\<close>

theorem rule_requests_apart:
  assumes "rule_run S t r hist"
  shows "sorted_wrt (\<lambda>a b. event_key (fst a) = event_key (fst b) \<longrightarrow> window_us S < dt_us (snd b) - dt_us (snd a)) hist \<and>
    int (length (ir_seen r)) \<le> ir_capacity r \<and> int (length (ir_heads r)) \<le> ir_capacity r"
  using rule_run_inv [OF assms] by (simp add: log_apart_def within_capacity_def)

definition example_failed :: "string \<Rightarrow> int \<Rightarrow> bottle_inspection" where
  "example_failed n t =
     \<lparr>bi_inspection_id = ''0123456789abcdef:000000000000000'' @ n, bi_bottle_id = 7, bi_passed = False, bi_inspected_at = utc t\<rparr>"

definition rule_examples :: "(string \<times> bottle_inspection \<times> datetime) list" where
  "rule_examples =
     [(replicate 26 (CHR ''1''), example_failed ''1'' 1000000, utc 1000001),
      (replicate 26 (CHR ''2''), example_failed ''2'' 2000000, utc 2000001),
      (replicate 26 (CHR ''3''), example_failed ''3'' 16000000, utc 16000001)]"

fun rule_replay :: "agent_settings \<Rightarrow> (string \<times> bottle_inspection \<times> datetime) list \<Rightarrow> inspection_rule
    \<Rightarrow> inspection_rule \<times> (bottle_inspection \<times> datetime) list" where
  "rule_replay S [] r = (r, [])"
| "rule_replay S ((cid, event, now) # xs) r =
     (case rule_update S cid event now r of
        (r', out) \<Rightarrow> (case rule_replay S xs r' of
          (r'', hist) \<Rightarrow> (r'', (case out of Inr (Some q) \<Rightarrow> [(event, now)] | _ \<Rightarrow> []) @ hist)))"

lemma rule_replay_run:
  "rule_run S t r hist \<Longrightarrow> sorted_wrt (\<le>) (t # map (\<lambda>x. dt_us (snd (snd x))) xs) \<Longrightarrow>
     rule_run S (last (t # map (\<lambda>x. dt_us (snd (snd x))) xs)) (fst (rule_replay S xs r)) (hist @ snd (rule_replay S xs r))"
proof (induction xs arbitrary: t r hist)
  case (Cons x xs)
  obtain cid event now where x: "x = (cid, event, now)" using prod_cases3 by blast
  obtain r' out where u: "rule_update S cid event now r = (r', out)" by fastforce
  have "rule_run S (dt_us now) r' (hist @ (case out of Inr (Some q) \<Rightarrow> [(event, now)] | _ \<Rightarrow> []))"
    using Cons.prems x u by (auto intro: rule_step)
  from Cons.IH [OF this] Cons.prems x u show ?case by (auto split: prod.splits)
qed simp

theorem rule_requests_apart_witness:
  "case rule_replay example_settings rule_examples (projr (rule_new 2)) of (r, hist) \<Rightarrow>
     map (bi_inspection_id \<circ> fst) hist = [''0123456789abcdef:0000000000000001'', ''0123456789abcdef:0000000000000003''] \<and>
     sorted_wrt (\<lambda>a b. event_key (fst a) = event_key (fst b) \<longrightarrow> 12000000 < dt_us (snd b) - dt_us (snd a)) hist"
proof -
  have run: "rule_run example_settings 16000001 (fst (rule_replay example_settings rule_examples (projr (rule_new 2))))
      (snd (rule_replay example_settings rule_examples (projr (rule_new 2))))"
    using rule_replay_run [OF rule_start [of 2 "projr (rule_new 2)" example_settings 0], of rule_examples]
    by (simp add: rule_new_def rule_examples_def utc_def)
  have ids: "map (bi_inspection_id \<circ> fst) (snd (rule_replay example_settings rule_examples (projr (rule_new 2)))) =
      [''0123456789abcdef:0000000000000001'', ''0123456789abcdef:0000000000000003'']" by code_simp
  have "window_us example_settings = 12000000" by (simp add: window_us_def example_settings_def timedelta_us_def)
  then show ?thesis using rule_requests_apart [OF run] ids by (simp add: case_prod_beta)
qed

end
