(* ===== verification/Rejections.thy ===== *)
theory Rejections
  imports Consumer_Store Service_World Decision_Rules "HOL-Library.Multiset"
begin

text \<open>
  \<open>RejectionTracker\<close> of \<open>decision_agent_stub/inspection.py\<close>: the automatic rejections that wait for
  the writer's result and for the reject station's feedback. Journal writes may raise; outcomes
  collected before an exception are lost with it, deletions are not. The times held are aware, as
  the requests of this service are.
\<close>

record pending_rejection =
  pj_request :: actuation_request
  pj_inspection :: bottle_inspection
  pj_baseline :: int
  pj_acknowledged :: bool

record ('e, 'm) rejection_world = "('e, 'm) service_world" +
  rj_capacity :: int
  rj_pending :: "(string \<times> pending_rejection) list"
  rj_feedback :: "string \<rightharpoonup> int \<times> datetime"

type_synonym rejection_outcome = "string \<times> string"

definition entry_id :: "pending_rejection \<Rightarrow> string" where
  "entry_id p = bi_inspection_id (pj_inspection p)"

definition agent_name :: string where
  "agent_name = ''decision-agent-stub''"

definition set_pending :: "((string \<times> pending_rejection) list \<Rightarrow> (string \<times> pending_rejection) list) \<Rightarrow>
    (('e, 'm, 'z) rejection_world_scheme, unit) act" where
  "set_pending f = putS (\<lambda>w. w\<lparr>rj_pending := f (rj_pending w)\<rparr>)"

definition rejection_add ::
  "actuation_request \<Rightarrow> bottle_inspection \<Rightarrow> int \<Rightarrow> (('e, 'm, 'z) rejection_world_scheme, unit) act" where
  "rejection_add request event baseline =
     bindS (getS (\<lambda>w. rj_capacity w \<le> int (length (rj_pending w)))) (\<lambda>full.
       if full then raiseS (ValueError ''rejection tracker at capacity'')
       else set_pending (AList.update (ar_correlation_id request)
              \<lparr>pj_request = request, pj_inspection = event, pj_baseline = baseline, pj_acknowledged = False\<rparr>))"

definition feedback_deadline :: "pending_rejection \<Rightarrow> int" where
  "feedback_deadline p =
     dt_us (case ar_deadline (pj_request p) of None \<Rightarrow> ar_requested_at (pj_request p) | Some d \<Rightarrow> d) + 10000000"

text \<open>Journal the end of an entry, delete it and give its outcome.\<close>

definition finish_entry ::
  "'e backend \<Rightarrow> string \<Rightarrow> doc \<Rightarrow> string \<Rightarrow> string \<times> pending_rejection
   \<Rightarrow> (('e, 'm, 'z) rejection_world_scheme, rejection_outcome) act" where
  "finish_entry B action evidence verdict = (\<lambda>(key, p).
     thenS (journal_step B agent_name action (pj_request p) ((''inspection_id'', JStr (entry_id p)) # evidence))
     (thenS (set_pending (AList.delete key))
       (retS (entry_id p, verdict))))"

fun expire_loop ::
  "'e backend \<Rightarrow> int \<Rightarrow> (string \<times> pending_rejection) list
   \<Rightarrow> (('e, 'm, 'z) rejection_world_scheme, rejection_outcome list) act" where
  "expire_loop B now [] = retS []"
| "expire_loop B now (kp # xs) =
     (if feedback_deadline (snd kp) < now
      then bindS (finish_entry B ''process_response_unresolved'' [(''reason'', JStr ''feedback_timeout'')] ''unknown'' kp)
             (\<lambda>x. bindS (expire_loop B now xs) (\<lambda>os. retS (x # os)))
      else expire_loop B now xs)"

definition rejection_expire ::
  "'e backend \<Rightarrow> int \<Rightarrow> (('e, 'm, 'z) rejection_world_scheme, rejection_outcome list) act" where
  "rejection_expire B now = bindS (getS rj_pending) (expire_loop B now)"

definition feedback_shows :: "int \<times> datetime \<Rightarrow> int \<times> datetime \<Rightarrow> pending_rejection \<Rightarrow> bool" where
  "feedback_shows bottle tally p \<longleftrightarrow>
     pj_acknowledged p \<and> fst bottle = bi_bottle_id (pj_inspection p) \<and> pj_baseline p < fst tally \<and>
     dt_us (ar_requested_at (pj_request p)) \<le> dt_us (snd bottle) \<and>
     dt_us (ar_requested_at (pj_request p)) \<le> dt_us (snd tally)"

fun confirm_loop ::
  "'e backend \<Rightarrow> int \<times> datetime \<Rightarrow> int \<times> datetime \<Rightarrow> (string \<times> pending_rejection) list
   \<Rightarrow> (('e, 'm, 'z) rejection_world_scheme, rejection_outcome list) act" where
  "confirm_loop B bottle tally [] = retS []"
| "confirm_loop B bottle tally (kp # xs) =
     (if feedback_shows bottle tally (snd kp)
      then bindS (finish_entry B ''process_observed''
               [(''observed_bottle'', JInt (fst bottle)), (''observed_count'', JInt (fst tally)),
                (''baseline_count'', JInt (pj_baseline (snd kp))), (''bottle_observed_at'', JTime (snd bottle)),
                (''count_observed_at'', JTime (snd tally)), (''evidence_scope'', JStr ''simulator_feedback'')] ''confirmed'' kp)
             (\<lambda>x. bindS (confirm_loop B bottle tally xs) (\<lambda>os. retS (x # os)))
      else confirm_loop B bottle tally xs)"

definition rejection_confirm ::
  "'e backend \<Rightarrow> (('e, 'm, 'z) rejection_world_scheme, rejection_outcome list) act" where
  "rejection_confirm B =
     bindS (getS (\<lambda>w. w)) (\<lambda>w.
       case (rj_feedback w ''bottle'', rj_feedback w ''count'') of
         (Some bottle, Some tally) \<Rightarrow> confirm_loop B bottle tally (rj_pending w)
       | _ \<Rightarrow> retS [])"

definition approved :: "doc \<Rightarrow> bool" where
  "approved result \<longleftrightarrow>
     dget ''decision'' result = Some (JStr ''approve'') \<and>
     (case dget ''written_at'' result of None \<Rightarrow> False | Some v \<Rightarrow> truthy v)"

text \<open>What a result does to its entry: the outcomes after the expired ones.\<close>

definition take_result ::
  "'e backend \<Rightarrow> doc \<Rightarrow> string \<Rightarrow> pending_rejection \<Rightarrow> (('e, 'm, 'z) rejection_world_scheme, rejection_outcome list) act" where
  "take_result B result key p =
     (if approved result
      then thenS (set_pending (AList.update key (p\<lparr>pj_acknowledged := True\<rparr>))) (rejection_confirm B)
      else if dget ''decision'' result = Some (JStr ''pending'') then retS []
      else if dget ''decision'' result = Some (JStr ''unknown'')
      then bindS (finish_entry B ''process_response_unresolved'' [(''reason'', JStr ''writer_unknown'')] ''unknown'' (key, p))
             (\<lambda>x. bindS (rejection_confirm B) (\<lambda>os. retS (x # os)))
      else thenS (set_pending (AList.delete key))
             (bindS (rejection_confirm B) (\<lambda>os. retS ((entry_id p, ''not_confirmed'') # os))))"

definition rejection_result ::
  "'e backend \<Rightarrow> doc \<Rightarrow> int \<Rightarrow> (('e, 'm, 'z) rejection_world_scheme, rejection_outcome list) act" where
  "rejection_result B result now =
     bindS (rejection_expire B now) (\<lambda>outcomes.
     bindS (getS rj_pending) (\<lambda>pending.
       case dget ''correlation_id'' result of
         Some (JStr key) \<Rightarrow>
           (case map_of pending key of
              None \<Rightarrow> retS outcomes
            | Some p \<Rightarrow> bindS (take_result B result key p) (\<lambda>os. retS (outcomes @ os)))
       | _ \<Rightarrow> retS outcomes))"

definition rejection_feedback ::
  "'e backend \<Rightarrow> string \<Rightarrow> int \<Rightarrow> datetime \<Rightarrow> int \<Rightarrow> (('e, 'm, 'z) rejection_world_scheme, rejection_outcome list) act" where
  "rejection_feedback B kind value observed_at now =
     bindS (rejection_expire B now) (\<lambda>outcomes.
     thenS (putS (\<lambda>w. case rj_feedback w kind of
               Some (v, t) \<Rightarrow> if dt_us t \<le> dt_us observed_at then w\<lparr>rj_feedback := (rj_feedback w)(kind \<mapsto> (value, observed_at))\<rparr> else w
             | None \<Rightarrow> w\<lparr>rj_feedback := (rj_feedback w)(kind \<mapsto> (value, observed_at))\<rparr>))
     (bindS (rejection_confirm B) (\<lambda>os. retS (outcomes @ os))))"

section \<open>Runs\<close>

datatype rejection_op =
    RAdd actuation_request bottle_inspection int
  | RResult doc int
  | RFeedback string int datetime int
  | RExpire int

fun rejection_do :: "'e backend \<Rightarrow> rejection_op \<Rightarrow> (('e, 'm, 'z) rejection_world_scheme, rejection_outcome list) act" where
  "rejection_do B (RAdd q e b) = thenS (rejection_add q e b) (retS [])"
| "rejection_do B (RResult result now) = rejection_result B result now"
| "rejection_do B (RFeedback kind v t now) = rejection_feedback B kind v t now"
| "rejection_do B (RExpire now) = rejection_expire B now"

text \<open>The operations done, last one last, and the outcomes they returned.\<close>

inductive rejection_run :: "'e backend \<Rightarrow> rejection_op list \<Rightarrow> ('e, 'm, 'z) rejection_world_scheme \<Rightarrow> rejection_outcome list \<Rightarrow> bool"
  for B where
  rejections_new: "rj_pending w = [] \<Longrightarrow> rj_feedback w = Map.empty \<Longrightarrow> rejection_run B [] w []"
| rejections_op: "rejection_run B h w os \<Longrightarrow> rejection_do B op w = (w', out) \<Longrightarrow>
    rejection_run B (h @ [op]) w' (os @ (case out of Inr xs \<Rightarrow> xs | Inl _ \<Rightarrow> []))"

text \<open>What the history must hold for an entry to be confirmed.\<close>

definition added :: "rejection_op list \<Rightarrow> pending_rejection \<Rightarrow> bool" where
  "added h p \<longleftrightarrow> RAdd (pj_request p) (pj_inspection p) (pj_baseline p) \<in> set h"

definition acknowledged :: "rejection_op list \<Rightarrow> string \<Rightarrow> bool" where
  "acknowledged h key \<longleftrightarrow>
     (\<exists>result now. RResult result now \<in> set h \<and> approved result \<and> dget ''correlation_id'' result = Some (JStr key))"

definition fed_back :: "rejection_op list \<Rightarrow> string \<Rightarrow> int \<times> datetime \<Rightarrow> bool" where
  "fed_back h kind vt \<longleftrightarrow> (\<exists>now. RFeedback kind (fst vt) (snd vt) now \<in> set h)"

definition justified :: "rejection_op list \<Rightarrow> string \<Rightarrow> bool" where
  "justified h i \<longleftrightarrow>
     (\<exists>p bottle tally. added h p \<and> entry_id p = i \<and> acknowledged h (ar_correlation_id (pj_request p)) \<and>
        fed_back h ''bottle'' bottle \<and> fed_back h ''count'' tally \<and> feedback_shows bottle tally p)"

fun added_id :: "rejection_op \<Rightarrow> string list" where
  "added_id (RAdd q e b) = [bi_inspection_id e]"
| "added_id _ = []"

definition pending_ids :: "('e, 'm, 'z) rejection_world_scheme \<Rightarrow> string multiset" where
  "pending_ids w = mset (map (entry_id \<circ> snd) (rj_pending w))"

text \<open>What holds of the tracker after the operations \<open>h\<close>.\<close>

definition tracker_inv :: "rejection_op list \<Rightarrow> ('e, 'm, 'z) rejection_world_scheme \<Rightarrow> bool" where
  "tracker_inv h w \<longleftrightarrow>
     distinct (map fst (rj_pending w)) \<and>
     (\<forall>(key, p) \<in> set (rj_pending w). key = ar_correlation_id (pj_request p) \<and> added h p \<and>
        (pj_acknowledged p \<longrightarrow> acknowledged h key)) \<and>
     (\<forall>kind vt. rj_feedback w kind = Some vt \<longrightarrow> fed_back h kind vt)"

text \<open>An operation settles entries: each entry gives at most one outcome, and a confirmation is justified.\<close>

definition settles ::
  "rejection_op list \<Rightarrow> ('e, 'm, 'z) rejection_world_scheme \<Rightarrow> ('e, 'm, 'z) rejection_world_scheme \<times> rejection_outcome list res \<Rightarrow> bool" where
  "settles h w res \<longleftrightarrow>
     (case res of (w', out) \<Rightarrow> tracker_inv h w' \<and>
        (case out of
           Inl e \<Rightarrow> pending_ids w' \<subseteq># pending_ids w
         | Inr os \<Rightarrow> pending_ids w' + mset (map fst os) \<subseteq># pending_ids w \<and>
                    (\<forall>i. (i, ''confirmed'') \<in> set os \<longrightarrow> justified h i)))"

lemma settles_nothing: "tracker_inv h w \<Longrightarrow> settles h w (retS [] w)"
  by (simp add: settles_def)

lemma settles_inv: "settles h w (w', out) \<Longrightarrow> tracker_inv h w'"
  by (simp add: settles_def)

lemma settles_ids: "settles h w (w', out) \<Longrightarrow> pending_ids w' \<subseteq># pending_ids w"
  by (cases out) (auto simp: settles_def dest: mset_subset_eq_add_left [THEN subset_mset.order_trans])

lemma settles_then:
  assumes "settles h w (w1, Inr os)" "settles h w1 (n w1)"
  shows "settles h w (bindS n (\<lambda>xs. retS (os @ xs)) w1)"
proof -
  obtain w' out where n: "n w1 = (w', out)" by fastforce
  have le: "pending_ids w1 + mset (map fst os) \<subseteq># pending_ids w" using assms(1) by (simp add: settles_def)
  show ?thesis
  proof (cases out)
    case (Inl e)
    then show ?thesis using settles_ids [OF assms(1)] assms(2) n
      by (auto simp: settles_def bindS_def dest: subset_mset.order_trans)
  next
    case (Inr xs)
    then have "pending_ids w' + mset (map fst xs) \<subseteq># pending_ids w1" using assms(2) n by (simp add: settles_def)
    then have "pending_ids w' + mset (map fst xs) + mset (map fst os) \<subseteq># pending_ids w"
      using le by (meson subset_mset.add_right_mono subset_mset.order_trans)
    then show ?thesis using assms Inr n by (auto simp: settles_def bindS_def ac_simps)
  qed
qed

lemma settles_raise: "settles h w (w1, Inl e) \<Longrightarrow> settles h w (w1, Inl e')"
  by (simp add: settles_def)

section \<open>Single steps\<close>

lemma delete_entry:
  "distinct (map fst al) \<Longrightarrow> (k, v) \<in> set al \<Longrightarrow> mset al = add_mset (k, v) (mset (AList.delete k al))"
proof (induction al)
  case (Cons x al)
  show ?case
  proof (cases "fst x = k")
    case True
    then have "x = (k, v)" "AList.delete k al = al"
      using Cons.prems by (cases x; force)+
    then show ?thesis by simp
  next
    case False
    then show ?thesis using Cons by (cases x) auto
  qed
qed simp

lemma tracker_inv_delete:
  assumes "tracker_inv h w"
  shows "tracker_inv h (w\<lparr>rj_pending := AList.delete key (rj_pending w)\<rparr>)"
proof -
  have "set (AList.delete key (rj_pending w)) \<subseteq> set (rj_pending w)" by (auto simp: AList.delete_eq)
  then show ?thesis using assms distinct_delete [of "rj_pending w" key] by (fastforce simp: tracker_inv_def)
qed

lemma pending_ids_delete:
  assumes "tracker_inv h w" "(key, p) \<in> set (rj_pending w)"
  shows "pending_ids w = add_mset (entry_id p) (pending_ids (w\<lparr>rj_pending := AList.delete key (rj_pending w)\<rparr>))"
  using assms delete_entry [of "rj_pending w" key p] by (simp add: tracker_inv_def pending_ids_def)

lemma journal_step_frame:
  "journal_step B c a q d w = (w', out) \<Longrightarrow> rj_pending w' = rj_pending w \<and> rj_feedback w' = rj_feedback w"
  by (auto simp: journal_step_def Let_def split: prod.splits option.splits if_splits)

lemma tracker_inv_cong:
  "rj_pending w' = rj_pending w \<Longrightarrow> rj_feedback w' = rj_feedback w \<Longrightarrow> tracker_inv h w' = tracker_inv h w"
  by (simp add: tracker_inv_def)

lemma finish_entry_settles:
  assumes inv: "tracker_inv h w" and kp: "kp \<in> set (rj_pending w)"
    and just: "verdict = ''confirmed'' \<Longrightarrow> justified h (entry_id (snd kp))"
    and f: "finish_entry B action evidence verdict kp w = (w', out)"
  shows "case out of Inl e \<Rightarrow> settles h w (w', Inl e)
    | Inr x \<Rightarrow> settles h w (w', Inr [x]) \<and> set (rj_pending w) - {kp} \<subseteq> set (rj_pending w') \<and> x = (entry_id (snd kp), verdict)"
proof -
  obtain key p where k: "kp = (key, p)" by fastforce
  obtain w1 r where j: "journal_step B agent_name action (pj_request p) ((''inspection_id'', JStr (entry_id p)) # evidence) w = (w1, r)"
    by fastforce
  have frame: "rj_pending w1 = rj_pending w" "rj_feedback w1 = rj_feedback w" using journal_step_frame [OF j] by simp_all
  then have inv1: "tracker_inv h w1" and ids: "pending_ids w1 = pending_ids w"
    using inv tracker_inv_cong by (blast, simp add: pending_ids_def)
  show ?thesis
  proof (cases r)
    case (Inl e)
    then show ?thesis using f j k inv1 ids by (auto simp: finish_entry_def bindS_def settles_def)
  next
    case (Inr u)
    then have w': "w' = w1\<lparr>rj_pending := AList.delete key (rj_pending w1)\<rparr>" "out = Inr (entry_id p, verdict)"
      using f j k by (auto simp: finish_entry_def bindS_def set_pending_def)
    have "settles h w (w', Inr [(entry_id p, verdict)])"
      using tracker_inv_delete [OF inv1, of key] pending_ids_delete [OF inv1, of key p] kp k just ids w'(1) frame
      by (simp add: settles_def)
    moreover have "set (rj_pending w) - {kp} \<subseteq> set (rj_pending w')"
      using inv kp k w'(1) frame by (auto simp: tracker_inv_def AList.delete_eq dest: eq_key_imp_eq_value)
    ultimately show ?thesis using w'(2) k by simp
  qed
qed

text \<open>Both loops finish the entries of a snapshot of the pending ones.\<close>

lemma loop_step:
  assumes "tracker_inv h w" "kp \<in> set (rj_pending w)" "set xs \<subseteq> set (rj_pending w)" "kp \<notin> set xs"
    and "verdict = ''confirmed'' \<Longrightarrow> justified h (entry_id (snd kp))"
    and rest: "\<And>w1. tracker_inv h w1 \<Longrightarrow> set xs \<subseteq> set (rj_pending w1) \<Longrightarrow> settles h w1 (rest w1)"
  shows "settles h w (bindS (finish_entry B action evidence verdict kp) (\<lambda>x. bindS rest (\<lambda>os. retS (x # os))) w)"
proof -
  obtain w1 out where f: "finish_entry B action evidence verdict kp w = (w1, out)" by fastforce
  note fin = finish_entry_settles [OF assms(1,2,5) f]
  show ?thesis
  proof (cases out)
    case (Inl e)
    then show ?thesis using fin f by (simp add: bindS_def)
  next
    case (Inr x)
    then have s: "settles h w (w1, Inr [x])" and sub: "set xs \<subseteq> set (rj_pending w1)" using fin assms(3,4) by auto
    have "settles h w1 (rest w1)" using rest [OF settles_inv [OF s] sub] .
    from settles_then [where n = rest, OF s this] show ?thesis using f Inr by (simp add: bindS_eval)
  qed
qed

lemma expire_loop_settles:
  fixes w :: "('e, 'm, 'z) rejection_world_scheme"
  shows "tracker_inv h w \<Longrightarrow> set xs \<subseteq> set (rj_pending w) \<Longrightarrow> distinct xs \<Longrightarrow> settles h w (expire_loop B now xs w)"
proof (induction xs arbitrary: w)
  case (Cons kp xs)
  then have rest: "settles h w1 (expire_loop B now xs w1)" if "tracker_inv h w1" "set xs \<subseteq> set (rj_pending w1)"
    for w1 :: "('e, 'm, 'z) rejection_world_scheme"
    using that by simp
  show ?case
  proof (cases "feedback_deadline (snd kp) < now")
    case True
    then show ?thesis unfolding expire_loop.simps if_P [OF True]
      by (intro loop_step [OF Cons.prems(1) _ _ _ _ rest]) (use Cons.prems in auto)
  qed (use Cons in simp)
qed (simp add: settles_nothing [simplified])

lemma confirm_loop_settles:
  fixes w :: "('e, 'm, 'z) rejection_world_scheme"
  assumes "fed_back h ''bottle'' bottle" "fed_back h ''count'' tally"
  shows "tracker_inv h w \<Longrightarrow> set xs \<subseteq> set (rj_pending w) \<Longrightarrow> distinct xs \<Longrightarrow> settles h w (confirm_loop B bottle tally xs w)"
proof (induction xs arbitrary: w)
  case (Cons kp xs)
  then have rest: "settles h w1 (confirm_loop B bottle tally xs w1)" if "tracker_inv h w1" "set xs \<subseteq> set (rj_pending w1)"
    for w1 :: "('e, 'm, 'z) rejection_world_scheme"
    using that by simp
  show ?case
  proof (cases "feedback_shows bottle tally (snd kp)")
    case True
    have "added h (snd kp)" "acknowledged h (ar_correlation_id (pj_request (snd kp)))"
      using Cons.prems True by (cases kp; force simp: tracker_inv_def feedback_shows_def)+
    then have just: "justified h (entry_id (snd kp))" using assms True unfolding justified_def by blast
    show ?thesis unfolding confirm_loop.simps if_P [OF True]
      by (intro loop_step [OF Cons.prems(1) _ _ _ just rest]) (use Cons.prems in auto)
  qed (use Cons in simp)
qed (simp add: settles_nothing [simplified])

lemma inv_distinct: "tracker_inv h w \<Longrightarrow> distinct (rj_pending w)"
  by (simp add: tracker_inv_def distinct_map)

lemma rejection_expire_settles: "tracker_inv h w \<Longrightarrow> settles h w (rejection_expire B now w)"
  by (simp add: rejection_expire_def expire_loop_settles inv_distinct)

lemma rejection_confirm_settles:
  assumes "tracker_inv h w"
  shows "settles h w (rejection_confirm B w)"
proof -
  have "rj_feedback w kind = Some vt \<Longrightarrow> fed_back h kind vt" for kind vt using assms unfolding tracker_inv_def by blast
  from confirm_loop_settles [OF this this assms order_refl inv_distinct [OF assms]]
  show ?thesis
    using settles_nothing [OF assms] by (auto simp: rejection_confirm_def split: option.splits)
qed

section \<open>Whole operations\<close>

lemma update_same_entry:
  "map_of al key = Some p \<Longrightarrow> entry_id p' = entry_id p \<Longrightarrow>
     map (entry_id \<circ> snd) (AList.update key p' al) = map (entry_id \<circ> snd) al"
  by (induction al) (auto split: if_splits)

lemma update_entry_mset:
  "mset (map (entry_id \<circ> snd) (AList.update key p al)) \<subseteq># add_mset (entry_id p) (mset (map (entry_id \<circ> snd) al))"
  by (induction al) (auto simp: add_mset_commute)

lemma update_set: "set (AList.update key p al) \<subseteq> insert (key, p) (set al)"
  by (induction al) auto

lemma tracker_inv_update:
  assumes "tracker_inv h w" "key = ar_correlation_id (pj_request p)" "added h p"
    and "pj_acknowledged p \<Longrightarrow> acknowledged h key"
  shows "tracker_inv h (w\<lparr>rj_pending := AList.update key p (rj_pending w)\<rparr>)"
  using assms distinct_update [of "rj_pending w" key p] update_set [of key p "rj_pending w"]
  by (fastforce simp: tracker_inv_def)

lemma tracker_inv_mono: "tracker_inv h w \<Longrightarrow> set h \<subseteq> set h' \<Longrightarrow> tracker_inv h' w"
  unfolding tracker_inv_def added_def acknowledged_def fed_back_def by (simp add: case_prod_beta subset_iff) metis

lemma tracker_inv_entry: "tracker_inv h w \<Longrightarrow> map_of (rj_pending w) key = Some p \<Longrightarrow>
    key = ar_correlation_id (pj_request p) \<and> added h p"
  by (auto simp: tracker_inv_def dest!: map_of_SomeD)

lemma settles_unchanged: "pending_ids w1 = pending_ids w \<Longrightarrow> settles h w1 r \<Longrightarrow> settles h w r"
  by (auto simp: settles_def split: sum.splits)

lemma take_result_settles:
  assumes inv: "tracker_inv h w" and op: "RResult result now \<in> set h"
    and key: "dget ''correlation_id'' result = Some (JStr key)" "map_of (rj_pending w) key = Some p"
  shows "settles h w (take_result B result key p w)"
proof -
  note entry = tracker_inv_entry [OF inv key(2)]
  have mem: "(key, p) \<in> set (rj_pending w)" using key(2) by (rule map_of_SomeD)
  consider (approved) "approved result"
    | (pending) "\<not> approved result" "dget ''decision'' result = Some (JStr ''pending'')"
    | (unknown) "\<not> approved result" "dget ''decision'' result = Some (JStr ''unknown'')"
    | (refused) "\<not> approved result" "dget ''decision'' result \<noteq> Some (JStr ''pending'')"
        "dget ''decision'' result \<noteq> Some (JStr ''unknown'')"
    by blast
  then show ?thesis
  proof cases
    case approved
    let ?p = "p\<lparr>pj_acknowledged := True\<rparr>"
    let ?w = "w\<lparr>rj_pending := AList.update key ?p (rj_pending w)\<rparr>"
    have "acknowledged h key" using op approved key(1) unfolding acknowledged_def by blast
    then have inv': "tracker_inv h ?w" using entry by (intro tracker_inv_update [OF inv]) (auto simp: added_def)
    have "pending_ids ?w = pending_ids w"
      using update_same_entry [OF key(2), of ?p] by (simp add: pending_ids_def entry_id_def)
    from settles_unchanged [OF this rejection_confirm_settles [OF inv']] show ?thesis
      using approved by (simp add: take_result_def set_pending_def)
  next
    case pending
    then show ?thesis using settles_nothing [OF inv] by (simp add: take_result_def)
  next
    case unknown
    have "settles h w (bindS (finish_entry B ''process_response_unresolved'' [(''reason'', JStr ''writer_unknown'')] ''unknown'' (key, p))
             (\<lambda>x. bindS (rejection_confirm B) (\<lambda>os. retS (x # os))) w)"
      by (rule loop_step [OF inv mem, of "[]"]) (auto intro: rejection_confirm_settles)
    then show ?thesis using unknown by (simp add: take_result_def)
  next
    case refused
    let ?w = "w\<lparr>rj_pending := AList.delete key (rj_pending w)\<rparr>"
    have inv': "tracker_inv h ?w" by (rule tracker_inv_delete [OF inv])
    then have "settles h w (?w, Inr [(entry_id p, ''not_confirmed'')])"
      using pending_ids_delete [OF inv mem] by (simp add: settles_def)
    from settles_then [where n = "rejection_confirm B", OF this rejection_confirm_settles [OF inv']]
    show ?thesis using refused by (simp add: take_result_def set_pending_def)
  qed
qed

text \<open>An operation that expires entries first.\<close>

lemma after_expire:
  assumes "tracker_inv h w" and "\<And>w1. tracker_inv h w1 \<Longrightarrow> settles h w1 (rest w1)"
  shows "settles h w (bindS (rejection_expire B now) (\<lambda>outcomes. bindS rest (\<lambda>os. retS (outcomes @ os))) w)"
proof -
  obtain w1 out where x: "rejection_expire B now w = (w1, out)" by fastforce
  have s: "settles h w (w1, out)" using rejection_expire_settles [OF assms(1), of B now] x by simp
  show ?thesis
  proof (cases out)
    case (Inl e)
    then show ?thesis using x s by (simp add: bindS_eval)
  next
    case (Inr os)
    then have s1: "settles h w (w1, Inr os)" using s by simp
    from settles_then [where n = rest, OF s1 assms(2) [OF settles_inv [OF s1]]] show ?thesis
      using x Inr by (simp add: bindS_eval)
  qed
qed

lemma rejection_result_settles:
  assumes "tracker_inv h w" and "RResult result now \<in> set h"
  shows "settles h w (rejection_result B result now w)"
proof -
  let ?rest = "\<lambda>w. case dget ''correlation_id'' result of
      Some (JStr key) \<Rightarrow> (case map_of (rj_pending w) key of None \<Rightarrow> retS [] | Some p \<Rightarrow> take_result B result key p) w
    | _ \<Rightarrow> retS [] w"
  have eq: "rejection_result B result now = bindS (rejection_expire B now) (\<lambda>outcomes. bindS ?rest (\<lambda>os. retS (outcomes @ os)))"
    unfolding rejection_result_def
    by (intro arg_cong [of _ _ "bindS (rejection_expire B now)"] ext)
       (simp add: bindS_def split: option.splits json.splits prod.splits)
  have "settles h w1 (?rest w1)" if "tracker_inv h w1" for w1
    using take_result_settles [OF that assms(2)] settles_nothing [OF that]
    by (auto split: option.splits json.splits)
  from after_expire [where rest = ?rest, OF assms(1) this] show ?thesis unfolding eq .
qed

definition note_feedback :: "string \<Rightarrow> int \<Rightarrow> datetime \<Rightarrow> ('e, 'm, 'z) rejection_world_scheme \<Rightarrow> ('e, 'm, 'z) rejection_world_scheme" where
  "note_feedback kind value observed_at w =
     (case rj_feedback w kind of
        Some (v, t) \<Rightarrow> if dt_us t \<le> dt_us observed_at then w\<lparr>rj_feedback := (rj_feedback w)(kind \<mapsto> (value, observed_at))\<rparr> else w
      | None \<Rightarrow> w\<lparr>rj_feedback := (rj_feedback w)(kind \<mapsto> (value, observed_at))\<rparr>)"

lemma note_feedback_inv:
  assumes "tracker_inv h w" "RFeedback kind value observed_at now \<in> set h"
  shows "tracker_inv h (note_feedback kind value observed_at w)" "pending_ids (note_feedback kind value observed_at w) = pending_ids w"
proof -
  have "fed_back h kind (value, observed_at)" using assms(2) by (auto simp: fed_back_def)
  then show "tracker_inv h (note_feedback kind value observed_at w)"
    using assms(1) by (auto simp: note_feedback_def tracker_inv_def split: option.splits)
qed (simp add: note_feedback_def pending_ids_def split: option.splits prod.splits)

lemma rejection_feedback_settles:
  assumes "tracker_inv h w" and op: "RFeedback kind value observed_at now \<in> set h"
  shows "settles h w (rejection_feedback B kind value observed_at now w)"
proof -
  let ?rest = "thenS (putS (note_feedback kind value observed_at)) (rejection_confirm B)"
  have "settles h w1 (?rest w1)" if "tracker_inv h w1" for w1
    using note_feedback_inv [OF that op] rejection_confirm_settles settles_unchanged by (metis bindS_putS)
  from after_expire [where rest = ?rest, OF assms(1) this] show ?thesis
    by (simp add: rejection_feedback_def note_feedback_def [abs_def] bindS_assoc)
qed

lemma rejection_add_settles:
  assumes inv: "tracker_inv h w" and op: "RAdd q e b \<in> set h" and d: "rejection_add q e b w = (w', out)"
  shows "tracker_inv h w' \<and> pending_ids w' \<subseteq># add_mset (bi_inspection_id e) (pending_ids w)"
proof -
  let ?p = "\<lparr>pj_request = q, pj_inspection = e, pj_baseline = b, pj_acknowledged = False\<rparr>"
  let ?w = "w\<lparr>rj_pending := AList.update (ar_correlation_id q) ?p (rj_pending w)\<rparr>"
  have inv': "tracker_inv h ?w" using op by (intro tracker_inv_update [OF inv]) (auto simp: added_def)
  have le: "pending_ids ?w \<subseteq># add_mset (bi_inspection_id e) (pending_ids w)"
    using update_entry_mset [of "ar_correlation_id q" ?p "rj_pending w"] by (simp add: pending_ids_def entry_id_def)
  have "w' = w \<or> w' = ?w"
    using d by (auto simp: rejection_add_def set_pending_def split: if_splits)
  moreover have "pending_ids w \<subseteq># add_mset (bi_inspection_id e) (pending_ids w)" by simp
  ultimately show ?thesis using inv inv' le by auto
qed

lemma rejection_do_step:
  assumes inv: "tracker_inv h w" and op: "op \<in> set h" and d: "rejection_do B op w = (w', out)"
  shows "tracker_inv h w' \<and>
    pending_ids w' + mset (map fst (case out of Inr os \<Rightarrow> os | Inl _ \<Rightarrow> [])) \<subseteq># pending_ids w + mset (added_id op) \<and>
    (\<forall>i. (i, ''confirmed'') \<in> set (case out of Inr os \<Rightarrow> os | Inl _ \<Rightarrow> []) \<longrightarrow> justified h i)"
proof -
  have settled: ?thesis if "settles h w (w', out)" "added_id op = []"
    using that by (cases out) (auto simp: settles_def)
  show ?thesis
  proof (cases op)
    case (RAdd q e b)
    obtain w1 r where a: "rejection_add q e b w = (w1, r)" by fastforce
    have w': "w' = w1" and none: "(case out of Inr os \<Rightarrow> os | Inl _ \<Rightarrow> []) = []"
      using d RAdd a by (cases r; auto simp: bindS_def)+
    have "tracker_inv h w1 \<and> pending_ids w1 \<subseteq># add_mset (bi_inspection_id e) (pending_ids w)"
      using rejection_add_settles [OF inv _ a] op RAdd by blast
    then show ?thesis unfolding none w' by (simp add: RAdd)
  next
    case (RResult result now)
    then show ?thesis using settled rejection_result_settles [OF inv, of result now B] op d by simp
  next
    case (RFeedback kind v t now)
    then show ?thesis using settled rejection_feedback_settles [OF inv, of kind v t now B] op d by simp
  next
    case (RExpire now)
    then show ?thesis using settled rejection_expire_settles [OF inv, of B now] d by simp
  qed
qed

lemma justified_mono: "justified h i \<Longrightarrow> set h \<subseteq> set h' \<Longrightarrow> justified h' i"
  unfolding justified_def added_def acknowledged_def fed_back_def by blast

lemma rejection_run_inv:
  "rejection_run B h w os \<Longrightarrow>
     tracker_inv h w \<and> pending_ids w + mset (map fst os) \<subseteq># mset (concat (map added_id h)) \<and>
     (\<forall>i. (i, ''confirmed'') \<in> set os \<longrightarrow> justified h i)"
proof (induction rule: rejection_run.induct)
  case (rejections_new w)
  then show ?case by (simp add: tracker_inv_def pending_ids_def)
next
  case (rejections_op h w os op w' out)
  let ?os = "case out of Inr xs \<Rightarrow> xs | Inl _ \<Rightarrow> []"
  have sub: "set h \<subseteq> set (h @ [op])" by auto
  have "tracker_inv (h @ [op]) w" using tracker_inv_mono [OF _ sub] rejections_op.IH by blast
  from rejection_do_step [OF this _ rejections_op.hyps(2)]
  have step: "tracker_inv (h @ [op]) w'" "pending_ids w' + mset (map fst ?os) \<subseteq># pending_ids w + mset (added_id op)"
    "\<forall>i. (i, ''confirmed'') \<in> set ?os \<longrightarrow> justified (h @ [op]) i" by auto
  have "pending_ids w' + mset (map fst ?os) + mset (map fst os) \<subseteq># pending_ids w + mset (added_id op) + mset (map fst os)"
    using step(2) by (rule subset_mset.add_right_mono)
  also have "\<dots> \<subseteq># mset (concat (map added_id h)) + mset (added_id op)"
    using rejections_op.IH subset_mset.add_right_mono [of "pending_ids w + mset (map fst os)" _ "mset (added_id op)"]
    by (simp add: ac_simps)
  finally show ?case using step(1,3) rejections_op.IH justified_mono [OF _ sub] by (auto simp: ac_simps)
qed

section \<open>Properties\<close>

text \<open>
  C34. The outcomes of automatic rejections: whatever results, feedback, expiries and journal
  failures come in whatever order, every rejection added gets at most one outcome, and one is called
  confirmed only if it was added, an approval with a write time came back for its command, and
  feedback seen no earlier than the request showed its bottle and a count above the baseline.
\<close>

theorem rejection_outcomes_sound:
  assumes "rejection_run B h w outcomes"
  shows "mset (map fst outcomes) \<subseteq># mset (concat (map added_id h)) \<and>
    (\<forall>(i, verdict) \<in> set outcomes. verdict = ''confirmed'' \<longrightarrow>
       (\<exists>q e base result bottle_at now1 now2 now3 tally tally_at.
          bi_inspection_id e = i \<and> RAdd q e base \<in> set h \<and>
          RResult result now1 \<in> set h \<and> approved result \<and> dget ''correlation_id'' result = Some (JStr (ar_correlation_id q)) \<and>
          RFeedback ''bottle'' (bi_bottle_id e) bottle_at now2 \<in> set h \<and> dt_us (ar_requested_at q) \<le> dt_us bottle_at \<and>
          RFeedback ''count'' tally tally_at now3 \<in> set h \<and> dt_us (ar_requested_at q) \<le> dt_us tally_at \<and> base < tally))"
proof -
  note inv = rejection_run_inv [OF assms]
  have "mset (map fst outcomes) \<subseteq># mset (concat (map added_id h))"
    using inv mset_subset_eq_add_right subset_mset.order_trans by blast
  then show ?thesis
    using inv by (fastforce simp: justified_def added_def acknowledged_def fed_back_def feedback_shows_def entry_id_def)
qed

fun rejection_replay :: "'e backend \<Rightarrow> rejection_op list \<Rightarrow> ('e, 'm, 'z) rejection_world_scheme \<Rightarrow>
    ('e, 'm, 'z) rejection_world_scheme \<times> rejection_outcome list" where
  "rejection_replay B [] w = (w, [])"
| "rejection_replay B (op # h) w =
     (case rejection_do B op w of (w1, out) \<Rightarrow>
        (case rejection_replay B h w1 of (w2, os) \<Rightarrow> (w2, (case out of Inr xs \<Rightarrow> xs | Inl _ \<Rightarrow> []) @ os)))"

lemma rejection_replay_run:
  "rejection_run B h w os \<Longrightarrow> rejection_run B (h @ h') (fst (rejection_replay B h' w)) (os @ snd (rejection_replay B h' w))"
proof (induction h' arbitrary: h w os)
  case (Cons op h')
  obtain w1 out where d: "rejection_do B op w = (w1, out)" by fastforce
  from Cons.IH [OF rejections_op [OF Cons.prems d]] show ?case using d by (simp add: case_prod_beta)
qed simp

definition example_tracker_world :: "(unit, unit) rejection_world" where
  "example_tracker_world =
     \<lparr>sv_env = (), sv_clock = 0, sv_events = [], sv_counts = [], sv_sent = [], rj_capacity = 128, rj_pending = [],
      rj_feedback = Map.empty\<rparr>"

definition example_rejections :: "rejection_op list" where
  "example_rejections =
     (let q = reject_request example_settings (replicate 26 (CHR ''1'')) (example_failed ''1'' 1000000) (utc 1500000);
          q2 = reject_request example_settings (replicate 26 (CHR ''2'')) (example_failed ''2'' 1000000) (utc 1500000);
          approval = [(''correlation_id'', JStr (replicate 26 (CHR ''1''))), (''decision'', JStr ''approve''), (''written_at'', JStr ''t'')]
      in [RAdd q (example_failed ''1'' 1000000) 4, RAdd q2 (example_failed ''2'' 1000000) 4,
          RFeedback ''bottle'' 7 (utc 1000000) 2000000, RResult approval 2100000, RFeedback ''count'' 5 (utc 2200000) 2300000,
          RFeedback ''bottle'' 7 (utc 2400000) 2500000, RExpire 90000000])"

theorem rejection_outcomes_sound_witness:
  "snd (rejection_replay quiet example_rejections example_tracker_world) =
     [(''0123456789abcdef:0000000000000001'', ''confirmed''), (''0123456789abcdef:0000000000000002'', ''unknown'')] \<and>
   mset (map fst (snd (rejection_replay quiet example_rejections example_tracker_world))) \<subseteq>#
     mset (concat (map added_id example_rejections))"
proof -
  have run: "rejection_run quiet ([] @ example_rejections) (fst (rejection_replay quiet example_rejections example_tracker_world))
      ([] @ snd (rejection_replay quiet example_rejections example_tracker_world))"
    by (rule rejection_replay_run) (rule rejections_new, simp_all add: example_tracker_world_def)
  have "snd (rejection_replay quiet example_rejections example_tracker_world) =
     [(''0123456789abcdef:0000000000000001'', ''confirmed''), (''0123456789abcdef:0000000000000002'', ''unknown'')]"
    by code_simp
  then show ?thesis using rejection_outcomes_sound [OF run] by simp
qed

end
