(* ===== verification/State_Tracker.thy ===== *)
theory State_Tracker
  imports Consumer_Store Effects
begin

text \<open>
  The freshness and ordering guard of the decision agent (\<open>decision_agent_stub/state.py\<close>): an
  observation is taken over only if it is good, fresh and newer than what was taken over before,
  by its durable position or, without one, by its timestamp.
\<close>

record state_tracker =
  st_max_age :: real
  st_require_position :: bool
  st_store :: "consumer_store option"
  st_positions :: "string \<rightharpoonup> source_position"
  st_latest :: "string \<rightharpoonup> datetime \<times> signal_value"
  st_decision :: "bool \<times> string"

definition tracker_new :: "pyfloat \<Rightarrow> bool \<Rightarrow> consumer_store option \<Rightarrow> state_tracker res" where
  "tracker_new max_age require_position store =
     (case max_age of
        Fin a \<Rightarrow>
          if a \<le> 0 then Inl (ValueError ''positive finite state age required'')
          else Inr \<lparr>st_max_age = a, st_require_position = require_position, st_store = store,
                  st_positions = Map.empty, st_latest = Map.empty, st_decision = (False, ''not_observed'')\<rparr>
      | _ \<Rightarrow> Inl (ValueError ''positive finite state age required''))"

text \<open>The body whose text binds a position to its observation.\<close>

definition state_body :: "signal_value \<Rightarrow> datetime \<Rightarrow> string \<Rightarrow> json" where
  "state_body value at_time qual = sorted_keys (JArr [json_of_value value, JTime at_time, JStr qual])"

definition advance_position ::
  "string \<Rightarrow> signal_value \<Rightarrow> datetime \<Rightarrow> string \<Rightarrow> json \<Rightarrow> (state_tracker, string) act" where
  "advance_position topic value at_time qual position =
     bindS (liftS (position_of_json position)) (\<lambda>parsed.
     bindS (getS st_store) (\<lambda>store.
       case store of
         None \<Rightarrow> raiseS (RuntimeError ''durable position guard required'')
       | Some s \<Rightarrow>
           (case store_advance topic parsed (state_body value at_time qual) s of
              (s', reason) \<Rightarrow>
                thenS (putS (\<lambda>t. t\<lparr>st_store := Some s'\<rparr>))
                (thenS (whenS (reason = ''accepted'')
                          (putS (\<lambda>t. t\<lparr>st_positions := (st_positions t)(topic \<mapsto> parsed)\<rparr>)))
                  (retS reason)))))"

definition compare_latest :: "datetime \<times> signal_value \<Rightarrow> signal_value \<Rightarrow> datetime \<Rightarrow> string" where
  "compare_latest latest value at_time =
     (if dt_us at_time < dt_us (fst latest) then ''out_of_order''
      else if dt_eq at_time (fst latest)
      then if same_value value (snd latest) then ''duplicate'' else ''timestamp_conflict''
      else ''accepted'')"

definition age_of :: "datetime \<Rightarrow> datetime \<Rightarrow> real" where
  "age_of at_time now = secs (dt_us now - dt_us at_time)"

definition judge ::
  "string \<Rightarrow> signal_value \<Rightarrow> datetime \<Rightarrow> datetime \<Rightarrow> string \<Rightarrow> json option \<Rightarrow> (state_tracker, string) act" where
  "judge topic value at_time now qual position =
     bindS (getS (\<lambda>t. t)) (\<lambda>t.
       if \<not> aware at_time \<or> \<not> aware now then retS ''invalid_time''
       else if qual \<noteq> ''good'' then retS ''bad_quality''
       else if age_of at_time now < 0 then retS ''future''
       else if st_max_age t < age_of at_time now then retS ''stale''
       else if st_require_position t \<and> position = None then retS ''missing_position''
       else case position of
         Some p \<Rightarrow> advance_position topic value at_time qual p
       | None \<Rightarrow>
           (case st_latest t topic of
              None \<Rightarrow> retS ''accepted''
            | Some latest \<Rightarrow> retS (compare_latest latest value at_time)))"

definition tracker_update ::
  "string \<Rightarrow> signal_value \<Rightarrow> datetime \<Rightarrow> datetime \<Rightarrow> string \<Rightarrow> json option \<Rightarrow> (state_tracker, bool) act" where
  "tracker_update topic value at_time now qual position =
     bindS (judge topic value at_time now qual position) (\<lambda>reason.
       let accepted = (reason = ''accepted'') in
       thenS (whenS accepted (putS (\<lambda>t. t\<lparr>st_latest := (st_latest t)(topic \<mapsto> (at_time, value))\<rparr>)))
       (thenS (putS (\<lambda>t. t\<lparr>st_decision := (accepted, reason)\<rparr>))
         (retS accepted)))"

record state_snapshot =
  sn_status :: string
  sn_value :: "signal_value option"
  sn_source_timestamp :: "datetime option"
  sn_position :: "source_position option"

definition tracker_snapshot :: "string \<Rightarrow> datetime \<Rightarrow> state_tracker \<Rightarrow> state_snapshot" where
  "tracker_snapshot topic now t =
     (case st_latest t topic of
        None \<Rightarrow> \<lparr>sn_status = ''unknown'', sn_value = None, sn_source_timestamp = None, sn_position = None\<rparr>
      | Some (at_time, value) \<Rightarrow>
          (let age = (if aware now then age_of at_time now else -1) in
           \<lparr>sn_status = (if 0 \<le> age \<and> age \<le> st_max_age t then ''fresh'' else if 0 \<le> age then ''stale'' else ''unknown''),
            sn_value = Some value, sn_source_timestamp = Some at_time, sn_position = st_positions t topic\<rparr>))"

text \<open>The document of a snapshot, as the audit log keeps it.\<close>

definition snapshot_doc :: "state_snapshot \<Rightarrow> doc" where
  "snapshot_doc s =
     [(''status'', JStr (sn_status s)),
      (''value'', case sn_value s of None \<Rightarrow> JNull | Some v \<Rightarrow> json_of_value v),
      (''source_timestamp'', case sn_source_timestamp s of None \<Rightarrow> JNull | Some t \<Rightarrow> JTime t)]
     @ (if sn_source_timestamp s = None then [] else [(''quality'', JStr ''good'')])
     @ (case sn_position s of None \<Rightarrow> [] | Some p \<Rightarrow> [(''position'', position_json p)])"

section \<open>What is taken over\<close>

lemma advance_position_Inr:
  assumes "advance_position topic value at_time qual p t = (t', Inr reason)"
  shows "\<exists>parsed s. position_of_json p = Inr parsed \<and> st_store t = Some s \<and>
    reason = snd (store_advance topic parsed (state_body value at_time qual) s) \<and>
    st_store t' = Some (fst (store_advance topic parsed (state_body value at_time qual) s)) \<and>
    st_latest t' = st_latest t \<and> st_max_age t' = st_max_age t \<and> st_require_position t' = st_require_position t"
proof -
  obtain parsed s where p: "position_of_json p = Inr parsed" "st_store t = Some s"
    using assms by (cases "position_of_json p"; cases "st_store t") (auto simp: advance_position_def)
  obtain s' r where a: "store_advance topic parsed (state_body value at_time qual) s = (s', r)" by fastforce
  show ?thesis
    using assms p a by (auto simp: advance_position_def whenS_def split: if_splits)
qed

text \<open>The position is the next of its stream for the durable guard.\<close>

definition position_next :: "state_tracker \<Rightarrow> string \<Rightarrow> json \<Rightarrow> bool" where
  "position_next t topic p \<longleftrightarrow>
     (\<exists>parsed s. position_of_json p = Inr parsed \<and> st_store t = Some s \<and>
        (case store_mark s topic of None \<Rightarrow> True | Some (i, k) \<Rightarrow> i = sp_producer parsed \<and> pos_less k (pos_key parsed)))"

definition admissible_state ::
  "state_tracker \<Rightarrow> string \<Rightarrow> datetime \<Rightarrow> datetime \<Rightarrow> string \<Rightarrow> json option \<Rightarrow> bool" where
  "admissible_state t topic at_time now qual position \<longleftrightarrow>
     aware at_time \<and> aware now \<and> qual = ''good'' \<and> 0 \<le> age_of at_time now \<and> age_of at_time now \<le> st_max_age t \<and>
     (case position of
        Some p \<Rightarrow> position_next t topic p
      | None \<Rightarrow> \<not> st_require_position t \<and>
          (case st_latest t topic of None \<Rightarrow> True | Some latest \<Rightarrow> dt_us (fst latest) < dt_us at_time \<or>
             aware (fst latest) \<noteq> aware at_time \<and> dt_us (fst latest) = dt_us at_time))"

lemma compare_latest_accepted:
  "compare_latest latest value at_time = ''accepted'' \<longleftrightarrow>
     dt_us (fst latest) < dt_us at_time \<or> aware (fst latest) \<noteq> aware at_time \<and> dt_us (fst latest) = dt_us at_time"
  by (auto simp: compare_latest_def dt_eq_def)

lemma judge_accepts:
  assumes "judge topic value at_time now qual position t = (t', Inr reason)"
  shows "reason = ''accepted'' \<longleftrightarrow> admissible_state t topic at_time now qual position"
proof (cases "aware at_time \<and> aware now \<and> qual = ''good'' \<and> 0 \<le> age_of at_time now \<and> age_of at_time now \<le> st_max_age t")
  case False
  then show ?thesis using assms
    by (auto simp: judge_def admissible_state_def not_le not_less split: if_splits)
next
  case True
  show ?thesis
  proof (cases position)
    case None
    then show ?thesis using assms True
      by (auto simp: judge_def admissible_state_def compare_latest_accepted split: if_splits option.splits)
  next
    case (Some p)
    then have "advance_position topic value at_time qual p t = (t', Inr reason)"
      using assms True by (simp add: judge_def)
    from advance_position_Inr [OF this] obtain parsed s where
      "position_of_json p = Inr parsed" "st_store t = Some s"
      "reason = snd (store_advance topic parsed (state_body value at_time qual) s)" by blast
    then show ?thesis using Some True inbox_guard.accept_iff
      by (auto simp: admissible_state_def position_next_def)
  qed
qed

lemma judge_same:
  assumes "judge topic value at_time now qual position t = (t', r)"
  shows "st_latest t' = st_latest t \<and> st_max_age t' = st_max_age t"
proof -
  have "keeps (\<lambda>x. st_latest x = st_latest t \<and> st_max_age x = st_max_age t) (judge topic value at_time now qual position)"
    unfolding judge_def advance_position_def
    by (intro edge_intros keeps_putS) (auto intro!: edge_intros keeps_putS split: option.split)
  from keepsD [OF this _ assms] show ?thesis by simp
qed

section \<open>Properties\<close>

text \<open>
  An observation is taken over exactly when it is admissible: aware times, good quality, an age
  within the limit and, with a position, one that the durable guard accepts, without one, a newer
  timestamp where none is required. It then is the fresh snapshot of its topic; an observation that
  is refused leaves every snapshot as it was.
\<close>

theorem observation_taken_over:
  assumes "tracker_update topic value at_time now qual position t = (t', Inr accepted)"
  shows "accepted = admissible_state t topic at_time now qual position \<and>
    (if accepted
     then sn_status (tracker_snapshot topic now t') = ''fresh'' \<and> sn_value (tracker_snapshot topic now t') = Some value \<and>
       (\<forall>other later. other = topic \<or> sn_value (tracker_snapshot other later t') = sn_value (tracker_snapshot other later t))
     else st_latest t' = st_latest t)"
proof -
  obtain t1 reason where j: "judge topic value at_time now qual position t = (t1, Inr reason)"
    using assms by (auto simp: tracker_update_def bindS_Inr_iff)
  note r = judge_accepts [OF j] and same = judge_same [OF j]
  have t': "accepted = (reason = ''accepted'')"
    "t' = (if accepted then t1\<lparr>st_latest := (st_latest t1)(topic \<mapsto> (at_time, value)), st_decision := (True, reason)\<rparr>
           else t1\<lparr>st_decision := (False, reason)\<rparr>)"
    using assms j by (auto simp: tracker_update_def bindS_def Let_def whenS_def split: if_splits)
  show ?thesis
    using r same t' by (auto simp: admissible_state_def tracker_snapshot_def Let_def split: option.split)
qed

definition example_tracker :: state_tracker where
  "example_tracker =
     \<lparr>st_max_age = 5, st_require_position = True, st_store = Some example_store, st_positions = Map.empty,
      st_latest = Map.empty, st_decision = (False, ''not_observed'')\<rparr>"

definition example_position :: json where
  "example_position = position_json \<lparr>sp_producer = ''p/n'', sp_epoch = 1, sp_sequence = 1\<rparr>"

theorem observation_taken_over_witness:
  "\<exists>t'. tracker_update ''t'' (VInt 4) (utc 1000000) (utc 2000000) ''good'' (Some example_position) example_tracker = (t', Inr True) \<and>
     sn_status (tracker_snapshot ''t'' (utc 2000000) t') = ''fresh''"
proof -
  let ?run = "tracker_update ''t'' (VInt 4) (utc 1000000) (utc 2000000) ''good'' (Some example_position) example_tracker"
  have "case snd ?run of Inr b \<Rightarrow> b | Inl e \<Rightarrow> False" by code_simp
  then have "?run = (fst ?run, Inr True)" by (cases ?run) (auto split: sum.splits)
  from observation_taken_over [OF this] this show ?thesis by auto
qed

end
