(* ===== verification/Decision_Agent.thy ===== *)
theory Decision_Agent
  imports Rejections State_Tracker
begin

text \<open>
  The decision agent (\<open>decision_agent_stub/service.py\<close>, \<open>DecisionAgentRuntime\<close>): observations go
  through the contract check, the state tracker and the rules to commands and receipts; results of
  the writer settle the durable store and the pending rejections. The store is the one the state
  tracker holds. Parsing of JSON texts is pydantic's and a parameter; log lines are left out.
\<close>

section \<open>The agent\<close>

datatype agent_message = Command actuation_request | Receipt inspection_receipt

record 'e agent = 
  dg_settings :: agent_settings
  dg_backend :: "'e backend"
  dg_crypto :: crypto
  dg_parse_event :: "string \<Rightarrow> bottle_inspection res"
  dg_parse_request :: "doc \<Rightarrow> actuation_request res"

record 'e agent_world = "('e, agent_message) rejection_world" +
  ag_tracker :: state_tracker
  ag_mode :: mode_state
  ag_rule :: inspection_rule
  ag_count :: "(int \<times> datetime) option"
  ag_receipt :: "bottle_inspection option"

text \<open>Operations of the parts of the agent.\<close>

definition on_tracker :: "(state_tracker, 'a) act \<Rightarrow> ('e agent_world, 'a) act" where
  "on_tracker m w = (case m (ag_tracker w) of (t, r) \<Rightarrow> (w\<lparr>ag_tracker := t\<rparr>, r))"

definition on_mode :: "(mode_state \<Rightarrow> mode_state \<times> 'a res) \<Rightarrow> ('e agent_world, 'a) act" where
  "on_mode m w = (case m (ag_mode w) of (st, r) \<Rightarrow> (w\<lparr>ag_mode := st\<rparr>, r))"

definition on_rule :: "(inspection_rule \<Rightarrow> inspection_rule \<times> 'a res) \<Rightarrow> ('e agent_world, 'a) act" where
  "on_rule m w = (case m (ag_rule w) of (st, r) \<Rightarrow> (w\<lparr>ag_rule := st\<rparr>, r))"

definition agent_store :: "'e agent_world \<Rightarrow> consumer_store option" where
  "agent_store w = st_store (ag_tracker w)"

definition on_store :: "(consumer_store \<Rightarrow> consumer_store \<times> 'a res) \<Rightarrow> ('e agent_world, 'a) act" where
  "on_store m w =
     (case agent_store w of
        None \<Rightarrow> (w, Inl (OtherError ''AssertionError'' []))
      | Some s \<Rightarrow> (case m s of (s', r) \<Rightarrow> (w\<lparr>ag_tracker := (ag_tracker w)\<lparr>st_store := Some s'\<rparr>\<rparr>, r)))"

section \<open>Observations\<close>

text \<open>A quality that is not a string is not good.\<close>

definition quality_text :: "json \<Rightarrow> string" where
  "quality_text v = (case v of JStr q \<Rightarrow> q | _ \<Rightarrow> [])"

definition present :: "json option \<Rightarrow> json option" where
  "present v = (if v = Some JNull then None else v)"

definition decision_state_doc :: "bool \<times> string \<Rightarrow> doc" where
  "decision_state_doc d = [(''accepted'', JBool (fst d)), (''reason'', JStr (snd d))]"

definition state_update ::
  "string \<Rightarrow> signal_value \<Rightarrow> datetime \<Rightarrow> datetime \<Rightarrow> doc \<Rightarrow> ('e agent_world, bool) act" where
  "state_update topic value observed_at now payload =
     bindS (liftS (dkey ''eirvah:quality'' payload)) (\<lambda>qual.
     bindS (on_tracker (tracker_update topic value observed_at now (quality_text qual)
              (present (dget ''eirvah:position'' payload)))) (\<lambda>accepted.
     bindS (getS (\<lambda>w. w)) (\<lambda>w.
     thenS (if agent_store w = None then retS ()
            else on_store (audit_state topic payload (decision_state_doc (st_decision (ag_tracker w)))
                   (snapshot_doc (tracker_snapshot topic now (ag_tracker w))) (timestamp now)))
       (retS accepted))))"

definition inspection_age :: "datetime \<Rightarrow> datetime \<Rightarrow> real" where
  "inspection_age now at_time = secs (dt_us now - dt_us at_time)"

text \<open>Without a recent, unsaturated count no further increment could be established.\<close>

definition no_baseline :: "agent_settings \<Rightarrow> datetime \<Rightarrow> (int \<times> datetime) option \<Rightarrow> bool" where
  "no_baseline S now baseline \<longleftrightarrow>
     (case baseline of
        None \<Rightarrow> True
      | Some (n, t) \<Rightarrow> n = 65535 \<or> ds_max_observation_age S < inspection_age now t)"

definition fresh_event :: "agent_settings \<Rightarrow> datetime \<Rightarrow> bottle_inspection \<Rightarrow> bool" where
  "fresh_event S now event \<longleftrightarrow>
     0 \<le> inspection_age now (bi_inspected_at event) \<and>
     inspection_age now (bi_inspected_at event) < ds_inspection_max_age S"

text \<open>
  The follow-up of a stored event: a pending command is tracked for feedback. Its row has a
  baseline, since a fresh event without one is not stored.
\<close>

definition track_command ::
  "'e agent \<Rightarrow> bottle_inspection \<Rightarrow> datetime \<Rightarrow> inspection_row \<Rightarrow> ('e agent_world, unit) act" where
  "track_command A event now row =
     bindS (getS rj_pending) (\<lambda>pending.
       case (ro_command row, ro_command_id row) of
         (Some command, Some cid) \<Rightarrow>
           if command \<noteq> [] \<and> ro_disposition row = DPending \<and> map_of pending cid = None \<and>
              fresh_event (dg_settings A) now event
           then bindS (liftS (dg_parse_request A command)) (\<lambda>request.
                  case ro_baseline row of
                    None \<Rightarrow> raiseS (TypeError ''baseline'')
                  | Some baseline \<Rightarrow> rejection_add request event baseline)
           else retS ()
       | _ \<Rightarrow> retS ())"

definition receive_durable ::
  "'e agent \<Rightarrow> string \<Rightarrow> bottle_inspection \<Rightarrow> datetime \<Rightarrow> ('e agent_world, unit) act" where
  "receive_durable A cid event now =
     bindS (getS (\<lambda>w. w)) (\<lambda>w.
       let S = dg_settings A; baseline = ag_count w in
       if fresh_event S now event \<and> \<not> bi_passed event \<and>
          (case agent_store w of None \<Rightarrow> False | Some s \<Rightarrow> store_find (bi_inspection_id event) s = None) \<and>
          no_baseline S now baseline
       then retS ()
       else bindS (on_store (receive (dg_crypto A) event (timestamp now) (ds_inspection_max_age S)
                (bindE (mk_request (reject_request S cid event now)) (\<lambda>q. Inr (request_doc q)))
                (map_option fst baseline))) (\<lambda>row.
         thenS (putS (\<lambda>w. w\<lparr>ag_receipt := Some event\<rparr>)) (track_command A event now row)))"

definition in_band :: "signal_value \<Rightarrow> bool res" where
  "in_band v = bindE (finite_speed v) (\<lambda>fin. Inr (fin \<and> 0 \<le> number_of v \<and> number_of v \<le> 8 / 10))"

definition observe_speed ::
  "'e agent \<Rightarrow> string \<Rightarrow> string \<Rightarrow> json \<Rightarrow> datetime \<Rightarrow> datetime \<Rightarrow> doc \<Rightarrow> ('e agent_world, actuation_request option) act" where
  "observe_speed A cid topic value observed_at now payload =
     (case value_of_json value of
        Inl e \<Rightarrow> retS None
      | Inr v \<Rightarrow>
          bindS (liftS (in_band v)) (\<lambda>ok.
            if \<not> ok then retS None
            else bindS (state_update topic v observed_at now payload) (\<lambda>accepted.
              if \<not> accepted then retS None
              else on_mode (mode_update (dg_settings A) cid v observed_at now ''good''))))"

definition observe_feedback ::
  "'e agent \<Rightarrow> string \<Rightarrow> json \<Rightarrow> datetime \<Rightarrow> datetime \<Rightarrow> doc \<Rightarrow> ('e agent_world, actuation_request option) act" where
  "observe_feedback A topic value observed_at now payload =
     (case value of
        JInt n \<Rightarrow>
          if \<not> (0 \<le> n \<and> n \<le> 65535) \<or> dget ''eirvah:unit'' payload \<noteq> Some (JStr ''dimensionless'') then retS None
          else bindS (state_update topic (VInt n) observed_at now payload) (\<lambda>accepted.
            if \<not> accepted then retS None
            else let counted = (topic = ds_reject_count_topic (dg_settings A)) in
              thenS (putS (\<lambda>w. if counted \<and> (case ag_count w of None \<Rightarrow> True | Some (m, t) \<Rightarrow> dt_us t \<le> dt_us observed_at)
                               then w\<lparr>ag_count := Some (n, observed_at)\<rparr> else w))
              (thenS (rejection_feedback (dg_backend A) (if counted then ''count'' else ''bottle'') n observed_at (dt_us now))
                (retS None)))
      | _ \<Rightarrow> retS None)"

text \<open>An inspection without a store: it must wait for a fresh count.\<close>

definition observe_inspection ::
  "'e agent \<Rightarrow> string \<Rightarrow> bottle_inspection \<Rightarrow> datetime \<Rightarrow> ('e agent_world, actuation_request option) act" where
  "observe_inspection A cid event now =
     bindS (getS (\<lambda>w. w)) (\<lambda>w.
       case ag_count w of
         None \<Rightarrow> retS None
       | Some (n, t) \<Rightarrow>
           if n = 65535 \<or> ds_max_observation_age (dg_settings A) < inspection_age now t then retS None
           else if rj_capacity w \<le> int (length (rj_pending w)) then retS None
           else bindS (on_rule (rule_update (dg_settings A) cid event now)) (\<lambda>request.
             case request of
               None \<Rightarrow> retS None
             | Some q \<Rightarrow> thenS (rejection_add q event n) (retS (Some q))))"

definition observe_value ::
  "'e agent \<Rightarrow> string \<Rightarrow> string \<Rightarrow> json \<Rightarrow> datetime \<Rightarrow> datetime \<Rightarrow> doc \<Rightarrow> ('e agent_world, actuation_request option) act" where
  "observe_value A cid topic value observed_at now payload =
     (let S = dg_settings A in
      if topic = ds_subscribe_topic S \<and> dget ''eirvah:unit'' payload = Some (JStr ''m/s'')
      then observe_speed A cid topic value observed_at now payload
      else if topic = ds_reject_count_topic S \<or> topic = ds_rejected_bottle_topic S
      then observe_feedback A topic value observed_at now payload
      else if topic \<noteq> ds_inspection_topic S \<or> dget ''eirvah:unit'' payload \<noteq> Some (JStr ''json'') then retS None
      else case value of
        JStr text \<Rightarrow>
          bindS (liftS (dg_parse_event A text)) (\<lambda>event.
            if \<not> dt_eq (bi_inspected_at event) observed_at then retS None
            else bindS (getS (\<lambda>w. agent_store w \<noteq> None)) (\<lambda>durable.
              if durable then thenS (receive_durable A cid event now) (retS None)
              else observe_inspection A cid event now))
      | _ \<Rightarrow> retS None)"

definition agent_observation ::
  "'e agent \<Rightarrow> string \<Rightarrow> string \<Rightarrow> doc \<Rightarrow> datetime \<Rightarrow> ('e agent_world, actuation_request option) act" where
  "agent_observation A cid topic payload now =
     (let S = dg_settings A;
          state_topic = topic \<in> {ds_subscribe_topic S, ds_reject_count_topic S, ds_rejected_bottle_topic S} in
      thenS (putS (\<lambda>w. w\<lparr>ag_receipt := None\<rparr>))
      (thenS (case ds_observation_contract S of
                None \<Rightarrow> retS ()
              | Some bindings \<Rightarrow> bindS (liftS (validate_observation (dg_parse_event A) topic payload bindings)) (\<lambda>_. retS ()))
      (thenS (rejection_expire (dg_backend A) (dt_us now))
      (thenS (if state_topic
              then putS (\<lambda>w. w\<lparr>ag_tracker := (ag_tracker w)\<lparr>st_decision := (False, ''invalid_contract'')\<rparr>\<rparr>)
              else retS ())
        (if \<not> state_topic \<and> dget ''eirvah:quality'' payload \<noteq> Some (JStr ''good'') then retS None
         else bindS (liftS (bindE (dkey ''sosa:resultTime'' payload) from_isoformat)) (\<lambda>observed_at.
           if \<not> aware observed_at then retS None
           else bindS (getS (\<lambda>w. agent_store w = None)) (\<lambda>volatile.
             let age = inspection_age now observed_at in
             if \<not> state_topic \<and> volatile \<and> \<not> (0 \<le> age \<and> age \<le> ds_max_observation_age S) then retS None
             else bindS (liftS (dkey ''sosa:hasSimpleResult'' payload)) (\<lambda>value.
               observe_value A cid topic value observed_at now payload))))))))"

section \<open>Commands, receipts and results\<close>

definition publish_command :: "'e agent \<Rightarrow> actuation_request \<Rightarrow> ('e agent_world, unit) act" where
  "publish_command A q =
     thenS (journal_step (dg_backend A) agent_name ''request_submitting'' q [])
     (thenS (send_step (dg_backend A) (ds_amqp_queue (dg_settings A)) (Command q))
     (thenS (journal_step (dg_backend A) agent_name ''request_published'' q [])
       (count_step ''decision_agent_actuation_fired_total''
          [if ar_value_type q = TInt64 then ''failed_inspection'' else ''production_mode_change''])))"

text \<open>One message of the subscription: \<open>body\<close> is the decoded payload.\<close>

definition agent_message_turn ::
  "'e agent \<Rightarrow> string \<Rightarrow> string \<Rightarrow> doc res \<Rightarrow> ('e agent_world, unit) act" where
  "agent_message_turn A cid topic body =
     exceptS
       (bindS (liftS body) (\<lambda>payload.
        bindS (now_step (dg_backend A)) (\<lambda>t.
        bindS (agent_observation A cid topic payload (utc t)) (\<lambda>request.
        bindS (getS ag_receipt) (\<lambda>receipt_event.
        thenS (case receipt_event of
                 None \<Rightarrow> retS ()
               | Some event \<Rightarrow>
                   bindS (liftS (sign_receipt (dg_crypto A) event (ds_receipt_key (dg_settings A)) ''decision-agent-stub'')) (\<lambda>receipt.
                     send_step (dg_backend A) (ds_receipt_topic (dg_settings A)) (Receipt receipt)))
          (case request of None \<Rightarrow> retS () | Some q \<Rightarrow> publish_command A q))))))
       (\<lambda>e. retS ())
       retS"

text \<open>One round of \<open>_send_pending\<close>: a stored command that cannot be parsed ends the task.\<close>

fun send_rows :: "'e agent \<Rightarrow> real \<Rightarrow> inspection_row list \<Rightarrow> ('e agent_world, unit) act" where
  "send_rows A now [] = retS ()"
| "send_rows A now (row # rows) =
     bindS (liftS (dg_parse_request A (case ro_command row of None \<Rightarrow> [] | Some c \<Rightarrow> c))) (\<lambda>request.
     thenS (exceptS (thenS (on_store (\<lambda>s. (store_sent (ro_id row) now s, Inr ()))) (publish_command A request))
              (\<lambda>e. retS ()) retS)
       (send_rows A now rows))"

definition send_round :: "'e agent \<Rightarrow> ('e agent_world, unit) act" where
  "send_round A =
     bindS (now_step (dg_backend A)) (\<lambda>t.
     bindS (on_store (\<lambda>s. case store_ready (secs t) s of (s', rows) \<Rightarrow> (s', Inr rows))) (\<lambda>rows.
       send_rows A (secs t) rows))"

definition agent_result :: "'e agent \<Rightarrow> doc res \<Rightarrow> ('e agent_world, unit) act" where
  "agent_result A body =
     exceptS
       (bindS (liftS body) (\<lambda>result.
        bindS (getS (\<lambda>w. agent_store w \<noteq> None)) (\<lambda>durable.
        thenS (if durable then on_store (settle result) else retS ())
        (bindS (now_step (dg_backend A)) (\<lambda>t.
         bindS (rejection_result (dg_backend A) result t) (\<lambda>outcomes. retS ()))))))
       (\<lambda>e. retS ())
       retS"

text \<open>Start-up: a durable agent needs a usable receipt key.\<close>

definition start_agent :: "'e agent \<Rightarrow> consumer_store \<Rightarrow> 'e agent_world \<Rightarrow> 'e agent_world res" where
  "start_agent A s w =
     (if ds_durable (dg_settings A)
      then bindE (require_key (ds_receipt_key (dg_settings A))) (\<lambda>_.
             Inr (w\<lparr>ag_tracker := (ag_tracker w)\<lparr>st_store := Some s\<rparr>\<rparr>))
      else Inr w)"

section \<open>What the steps leave alone\<close>

text \<open>The messages sent, the rows of the store and the event to acknowledge.\<close>

definition shown :: "'e agent_world \<Rightarrow> (string \<times> agent_message) list \<times> inspection_row list option \<times> bottle_inspection option" where
  "shown w = (sv_sent w, map_option cs_inspections (agent_store w), ag_receipt w)"

abbreviation holds :: "((string \<times> agent_message) list \<times> inspection_row list option \<times> bottle_inspection option \<Rightarrow> bool) \<Rightarrow> 'e agent_world \<Rightarrow> bool" where
  "holds R w \<equiv> R (shown w)"

lemma keeps_shown [edge_intros]:
  "keeps (holds R) (now_step B)" "keeps (holds R) (journal_step B c a q d)" "keeps (holds R) (count_step n ls)"
  "keeps (holds R) (set_pending f)"
  by (auto simp: keeps_def shown_def agent_store_def now_step_def journal_step_def Let_def count_step_def set_pending_def
      split: prod.splits option.splits)

lemma keeps_shown_put:
  "(\<And>w. shown (f w) = shown w) \<Longrightarrow> keeps (holds R) (putS f)"
  by (simp add: keeps_def)

lemma keeps_shown_zoom [edge_intros]: "keeps (holds R) (on_mode m)" "keeps (holds R) (on_rule k)"
  by (auto simp: keeps_def shown_def agent_store_def on_mode_def on_rule_def split: prod.splits)

lemma keeps_shown_finish [edge_intros]: "keeps (holds R) (finish_entry B action evidence verdict kp)"
  by (cases kp) (auto simp: finish_entry_def intro!: edge_intros)

lemma keeps_shown_loops:
  "keeps (holds R) (expire_loop B now xs)" "keeps (holds R) (confirm_loop B bottle tally xs)"
  by (induction xs) (auto intro!: edge_intros)

lemma keeps_shown_rejections [edge_intros]:
  "keeps (holds R) (rejection_expire B now)" "keeps (holds R) (rejection_confirm B)"
  "keeps (holds R) (rejection_add q e b)" "keeps (holds R) (rejection_feedback B kind v t now)"
proof -
  show confirm: "keeps (holds R) (rejection_confirm B)"
    unfolding rejection_confirm_def by (intro edge_intros keeps_shown_loops)
  show expire: "keeps (holds R) (rejection_expire B now)"
    unfolding rejection_expire_def by (intro edge_intros keeps_shown_loops)
  show "keeps (holds R) (rejection_add q e b)" unfolding rejection_add_def by (intro edge_intros)
  show "keeps (holds R) (rejection_feedback B kind v t now)"
    unfolding rejection_feedback_def
    by (intro edge_intros confirm expire keeps_shown_put) (auto simp: shown_def agent_store_def split: option.splits)
qed

lemma tracker_update_rows:
  "map_option cs_inspections (st_store (fst (tracker_update topic value at_time now qual position t))) =
     map_option cs_inspections (st_store t)"
proof -
  have "keeps (\<lambda>t'. map_option cs_inspections (st_store t') = map_option cs_inspections (st_store t)) (advance_position topic value at_time qual p)" for p
    unfolding advance_position_def
    by (auto simp: keeps_def bindS_def whenS_def store_advance_def split: prod.splits sum.splits option.splits)
  then have "keeps (\<lambda>t'. map_option cs_inspections (st_store t') = map_option cs_inspections (st_store t))
      (tracker_update topic value at_time now qual position)"
    unfolding tracker_update_def judge_def Let_def by (intro edge_intros keeps_putS) auto
  then show ?thesis by (simp add: keeps_def)
qed

lemma keeps_state_update [edge_intros]: "keeps (holds R) (state_update topic value observed_at now payload)"
proof -
  have tracker: "keeps (holds R) (on_tracker (tracker_update topic value observed_at now qual position))" for qual position
    using tracker_update_rows by (auto simp: keeps_def on_tracker_def shown_def agent_store_def split: prod.splits) (metis fst_conv)
  have audit: "keeps (holds R) (on_store (audit_state topic payload d sn stamp))" for d sn stamp
    by (auto simp: keeps_def on_store_def audit_state_def shown_def agent_store_def Let_def split: prod.splits option.splits if_splits)
  show ?thesis unfolding state_update_def Let_def by (intro edge_intros tracker audit)
qed

section \<open>Receipts follow storage\<close>

definition stored :: "crypto \<Rightarrow> bottle_inspection \<Rightarrow> inspection_row list option \<Rightarrow> bool" where
  "stored C event rows \<longleftrightarrow>
     (\<exists>rs. rows = Some rs \<and> (\<exists>row \<in> set rs. ro_id row = bi_inspection_id event \<and>
        ro_digest row = sha256 C (sorted_keys (JObj (event_doc event)))))"

lemma receive_stored:
  assumes "receive C event now max_age factory baseline s = (s', Inr row)"
  shows "stored C event (Some (cs_inspections s'))"
proof (cases rule: receive_cases [OF assms])
  case (1 r)
  then show ?thesis using find_rowD [OF 1(3)] by (auto simp: stored_def)
next
  case (3 r)
  then show ?thesis by (auto simp: stored_def insert_row_def)
qed simp

text \<open>From a state without an event to acknowledge an operation leads to one whose event is stored.\<close>

definition idle :: "(string \<times> agent_message) list \<Rightarrow> 'e agent_world \<Rightarrow> bool" where
  "idle sent w \<longleftrightarrow> sv_sent w = sent \<and> ag_receipt w = None"

definition owed :: "crypto \<Rightarrow> (string \<times> agent_message) list \<Rightarrow> 'e agent_world \<Rightarrow> bool" where
  "owed C sent w \<longleftrightarrow>
     sv_sent w = sent \<and> (\<forall>event. ag_receipt w = Some event \<longrightarrow> stored C event (map_option cs_inspections (agent_store w)))"

definition stores_first :: "crypto \<Rightarrow> (string \<times> agent_message) list \<Rightarrow> ('e agent_world, 'a) act \<Rightarrow> bool" where
  "stores_first C sent m \<longleftrightarrow> (\<forall>w. idle sent w \<longrightarrow> owed C sent (fst (m w)))"

lemma keeps_idle: "(\<And>R. keeps (holds R) m) \<Longrightarrow> keeps (idle sent) m"
  by (drule meta_spec [of _ "\<lambda>x. fst x = sent \<and> snd (snd x) = None"]) (simp add: keeps_def idle_def shown_def)

lemma keeps_owed: "(\<And>R. keeps (holds R) m) \<Longrightarrow> keeps (owed C sent) m"
  by (drule meta_spec [of _ "\<lambda>x. fst x = sent \<and> (\<forall>event. snd (snd x) = Some event \<longrightarrow> stored C event (fst (snd x)))"])
     (simp add: keeps_def owed_def shown_def)

lemma stores_first_idle: "keeps (idle sent) m \<Longrightarrow> stores_first C sent m"
  by (auto simp: stores_first_def keeps_def idle_def owed_def)

lemma stores_first_bind:
  assumes "keeps (idle sent) m" "\<And>a. stores_first C sent (f a)"
  shows "stores_first C sent (bindS m f)"
  unfolding stores_first_def
proof (intro allI impI)
  fix w :: "'a agent_world"
  assume idle: "idle sent w"
  obtain w1 r where m: "m w = (w1, r)" by fastforce
  have "idle sent w1" by (rule keepsD [OF assms(1) idle m])
  then show "owed C sent (fst (bindS m f w))"
  proof (cases r)
    case (Inl e)
    then show ?thesis using m \<open>idle sent w1\<close> by (simp add: bindS_eval owed_def idle_def)
  next
    case (Inr a)
    then show ?thesis using m \<open>idle sent w1\<close> assms(2) [of a] by (simp add: bindS_eval stores_first_def)
  qed
qed

lemma stores_first_cases:
  "(b \<Longrightarrow> stores_first C sent m) \<Longrightarrow> (\<not> b \<Longrightarrow> stores_first C sent n) \<Longrightarrow> stores_first C sent (if b then m else n)"
  by simp

lemma receive_durable_stores: "stores_first (dg_crypto A) sent (receive_durable A cid event now)"
  unfolding stores_first_def
proof (intro allI impI)
  fix w :: "'a agent_world"
  assume idle: "idle sent w"
  have track: "keeps (owed (dg_crypto A) sent) (track_command A event now row)" for row
    unfolding track_command_def by (intro keeps_owed) (intro edge_intros)
  let ?m = "on_store (receive (dg_crypto A) event (timestamp now) (ds_inspection_max_age (dg_settings A))
      (bindE (mk_request (reject_request (dg_settings A) cid event now)) (\<lambda>q. Inr (request_doc q))) (map_option fst (ag_count w)))"
  have "owed (dg_crypto A) sent (fst (bindS ?m (\<lambda>row. thenS (putS (\<lambda>w. w\<lparr>ag_receipt := Some event\<rparr>)) (track_command A event now row)) w))"
  proof (cases "?m w")
    case (Pair w1 r)
    then have idle1: "idle sent w1" using idle
      unfolding on_store_def idle_def by (auto split: option.splits prod.splits)
    show ?thesis
    proof (cases r)
      case (Inl e)
      then show ?thesis using Pair idle1 by (simp add: bindS_def owed_def idle_def)
    next
      case (Inr row)
      obtain s s' where "agent_store w1 = Some s'" "receive (dg_crypto A) event (timestamp now)
          (ds_inspection_max_age (dg_settings A)) (bindE (mk_request (reject_request (dg_settings A) cid event now))
          (\<lambda>q. Inr (request_doc q))) (map_option fst (ag_count w)) s = (s', Inr row)"
        using Pair Inr unfolding on_store_def by (auto simp: agent_store_def split: option.splits prod.splits)
      then have "stored (dg_crypto A) event (map_option cs_inspections (agent_store w1))"
        by (simp add: receive_stored)
      then have "owed (dg_crypto A) sent (w1\<lparr>ag_receipt := Some event\<rparr>)"
        using idle1 by (simp add: owed_def idle_def agent_store_def)
      then show ?thesis using Pair Inr track [of row] by (simp add: bindS_def keeps_def)
    qed
  qed
  then show "owed (dg_crypto A) sent (fst (receive_durable A cid event now w))"
    using idle by (simp add: receive_durable_def Let_def owed_def idle_def)
qed

lemma keeps_observe:
  "keeps (holds R) (observe_speed A cid topic value observed_at now payload)"
  "keeps (holds R) (observe_feedback A topic value observed_at now payload)"
  "keeps (holds R) (observe_inspection A cid event now)"
proof -
  show "keeps (holds R) (observe_speed A cid topic value observed_at now payload)"
    unfolding observe_speed_def by (intro edge_intros)
  show "keeps (holds R) (observe_inspection A cid event now)"
    unfolding observe_inspection_def by (intro edge_intros)
  have counted: "keeps (holds R) (putS (\<lambda>w. if b w then w\<lparr>ag_count := Some (n, t)\<rparr> else w))" for b n t
    by (rule keeps_shown_put) (simp add: shown_def agent_store_def)
  show "keeps (holds R) (observe_feedback A topic value observed_at now payload)"
    unfolding observe_feedback_def Let_def
    by (cases "value"; simp only: json.case; intro edge_intros counted)
qed

lemma observe_value_stores: "stores_first (dg_crypto A) sent (observe_value A cid topic value observed_at now payload)"
proof -
  have quiet: "stores_first (dg_crypto A) sent m" if "\<And>R. keeps (holds R) m" for m :: "('a agent_world, actuation_request option) act"
    by (rule stores_first_idle [OF keeps_idle [OF that]])
  have durable: "stores_first (dg_crypto A) sent (thenS (receive_durable A cid event now) (retS None))" for event
    using receive_durable_stores [of A sent cid event now]
    by (auto simp: stores_first_def bindS_def split: prod.splits sum.splits)
  have stop: "stores_first (dg_crypto A) sent (retS None :: ('a agent_world, actuation_request option) act)"
    by (rule quiet) (rule keeps_basic)
  have inspect: "stores_first (dg_crypto A) sent
      (bindS (liftS (dg_parse_event A body)) (\<lambda>event.
         if \<not> dt_eq (bi_inspected_at event) observed_at then retS None
         else bindS (getS (\<lambda>w. agent_store w \<noteq> None)) (\<lambda>durable.
           if durable then thenS (receive_durable A cid event now) (retS None) else observe_inspection A cid event now)))" for body
    by (intro stores_first_bind stores_first_cases durable keeps_idle edge_intros quiet [OF keeps_observe(3)] stores_first_idle)
  show ?thesis
    unfolding observe_value_def Let_def
    by (intro stores_first_cases quiet [OF keeps_observe(1)] quiet [OF keeps_observe(2)] stop)
       (cases "value"; simp only: json.case inspect stop)
qed

lemma observation_stores:
  "owed (dg_crypto A) (sv_sent w) (fst (agent_observation A cid topic payload now w))"
proof -
  have decision: "keeps (idle sent) (putS (\<lambda>w. w\<lparr>ag_tracker := (ag_tracker w)\<lparr>st_decision := d\<rparr>\<rparr>))" for sent d
    by (simp add: keeps_def idle_def)
  have contract: "keeps (idle sent) (case c of None \<Rightarrow> retS () | Some b \<Rightarrow> bindS (liftS (f b)) (\<lambda>_. retS ()))" for sent c and f :: "(string \<times> binding) list \<Rightarrow> sosa_observation res"
    by (intro edge_intros)
  have expire: "keeps (idle sent) (rejection_expire B t)" for sent B t by (intro keeps_idle edge_intros)
  have "idle (sv_sent w) (w\<lparr>ag_receipt := None\<rparr>)" by (simp add: idle_def)
  then show ?thesis
    unfolding agent_observation_def Let_def bindS_putS
    by (rule mp [OF spec [of _ "w\<lparr>ag_receipt := None\<rparr>"], rotated])
       (fold stores_first_def,
        intro stores_first_bind stores_first_cases contract expire edge_intros decision observe_value_stores stores_first_idle)
qed

text \<open>Every receipt sent since \<open>sent\<close> is for an event in the store.\<close>

definition receipts_ok ::
  "'e agent \<Rightarrow> (string \<times> agent_message) list \<Rightarrow> (string \<times> agent_message) list \<times> inspection_row list option \<times> bottle_inspection option \<Rightarrow> bool" where
  "receipts_ok A sent x \<longleftrightarrow>
     (\<exists>new. fst x = sent @ new \<and>
        (\<forall>t receipt. (t, Receipt receipt) \<in> set new \<longrightarrow>
           (\<exists>event. stored (dg_crypto A) event (fst (snd x)) \<and>
              sign_receipt (dg_crypto A) event (ds_receipt_key (dg_settings A)) ''decision-agent-stub'' = Inr receipt)))"

lemma send_step_sent:
  "send_step B subject m w = (w', r) \<Longrightarrow> shown w' = shown w \<or>
     shown w' = (sv_sent w @ [(subject, m)], snd (shown w))"
  by (auto simp: send_step_def shown_def agent_store_def split: prod.splits option.splits)

lemma keeps_receipts_command: "keeps (holds (receipts_ok A sent)) (send_step B subject (Command q))"
  unfolding keeps_def
proof (intro allI impI)
  fix w :: "'a agent_world"
  assume ok: "receipts_ok A sent (shown w)"
  obtain w' r where s: "send_step B subject (Command q) w = (w', r)" by fastforce
  from send_step_sent [OF s] show "receipts_ok A sent (shown (fst (send_step B subject (Command q) w)))"
    using ok s by (auto simp: receipts_ok_def shown_def)
qed

lemma keeps_receipts_publish: "keeps (holds (receipts_ok A sent)) (publish_command A' q)"
  unfolding publish_command_def by (intro edge_intros keeps_receipts_command)

lemma owed_receipts_ok: "owed (dg_crypto A) sent w \<Longrightarrow> receipts_ok A sent (shown w)"
  by (simp add: owed_def receipts_ok_def shown_def)

lemma send_receipt_ok:
  assumes "owed (dg_crypto A) sent w" "ag_receipt w = Some event"
    and sign: "sign_receipt (dg_crypto A) event (ds_receipt_key (dg_settings A)) ''decision-agent-stub'' = Inr receipt"
    and s: "send_step B subject (Receipt receipt) w = (w', r)"
  shows "receipts_ok A sent (shown w')"
proof -
  have "stored (dg_crypto A) event (fst (snd (shown w)))" using assms(1,2) by (simp add: owed_def shown_def)
  then show ?thesis
    using send_step_sent [OF s] assms(1) sign owed_receipts_ok [OF assms(1)]
    by (auto simp: receipts_ok_def shown_def owed_def)
qed

text \<open>After the observation.\<close>

lemma send_phase:
  assumes "owed (dg_crypto A) sent w"
  shows "receipts_ok A sent (shown (fst
     (bindS (getS ag_receipt) (\<lambda>receipt_event.
        thenS (case receipt_event of
                 None \<Rightarrow> retS ()
               | Some event \<Rightarrow>
                   bindS (liftS (sign_receipt (dg_crypto A) event (ds_receipt_key (dg_settings A)) ''decision-agent-stub'')) (\<lambda>receipt.
                     send_step (dg_backend A) (ds_receipt_topic (dg_settings A)) (Receipt receipt)))
          (case request of None \<Rightarrow> retS () | Some q \<Rightarrow> publish_command A q)) w)))"
proof -
  let ?last = "case request of None \<Rightarrow> retS () | Some q \<Rightarrow> publish_command A q"
  have last: "keeps (holds (receipts_ok A sent)) ?last" by (intro edge_intros keeps_receipts_publish)
  have "receipts_ok A sent (shown (fst (thenS m ?last w)))"
    if "receipts_ok A sent (shown (fst (m w)))" for m :: "('a agent_world, unit) act"
    using that last by (auto simp: bindS_def keeps_def split: prod.splits sum.splits)
  moreover have "receipts_ok A sent (shown (fst ((case ag_receipt w of None \<Rightarrow> retS ()
       | Some event \<Rightarrow> bindS (liftS (sign_receipt (dg_crypto A) event (ds_receipt_key (dg_settings A)) ''decision-agent-stub'')) (\<lambda>receipt.
           send_step (dg_backend A) (ds_receipt_topic (dg_settings A)) (Receipt receipt))) w)))"
    using owed_receipts_ok [OF assms] send_receipt_ok [OF assms]
    by (cases "ag_receipt w"; cases "sign_receipt (dg_crypto A) (the (ag_receipt w)) (ds_receipt_key (dg_settings A)) ''decision-agent-stub''")
       (auto simp: fst_def split: prod.splits)
  ultimately show ?thesis unfolding bindS_getS by blast
qed

lemma turn_receipts: "receipts_ok A (sv_sent w) (shown (fst (agent_message_turn A cid topic body w)))"
proof -
  have start: "receipts_ok A (sv_sent w) (shown w')" if "sv_sent w' = sv_sent w" for w' :: "'a agent_world"
    using that by (simp add: receipts_ok_def shown_def)
  have handled: "fst (exceptS m (\<lambda>e. retS ()) retS w) = fst (m w)" for m :: "('a agent_world, unit) act"
    by (auto simp: exceptS_def tryS_def split: prod.splits sum.splits)
  show ?thesis
  proof (cases body)
    case (Inl e)
    then show ?thesis by (simp add: agent_message_turn_def handled start)
  next
    case (Inr payload)
    obtain w1 t where n: "now_step (dg_backend A) w = (w1, Inr t)" "sv_sent w1 = sv_sent w"
      by (cases "bk_tick (dg_backend A) (sv_env w)") (auto simp: now_step_def)
    obtain w2 r where o: "agent_observation A cid topic payload (utc t) w1 = (w2, r)" by fastforce
    have owed: "owed (dg_crypto A) (sv_sent w) w2"
      using observation_stores [of A w1 cid topic payload "utc t"] o n by simp
    show ?thesis
    proof (cases r)
      case (Inl e)
      then show ?thesis using Inr n o owed_receipts_ok [OF owed]
        by (simp add: agent_message_turn_def handled bindS_eval)
    next
      case (Inr request)
      then show ?thesis using \<open>body = Inr payload\<close> n o send_phase [OF owed, of request]
        by (simp add: agent_message_turn_def handled bindS_eval)
    qed
  qed
qed

section \<open>Properties\<close>

text \<open>
  C14. A receipt follows storage: whenever the handling of a message sends a receipt, the store holds
  a row with the identity and the digest of the event the receipt is signed for, whatever the
  message, the clock and the failures of the journal and the brokers.
\<close>

theorem receipt_follows_storage:
  assumes "agent_message_turn A cid topic body w = (w', r)" and "sv_sent w' = sv_sent w @ new"
    and "(t, Receipt receipt) \<in> set new"
  shows "\<exists>event store row. agent_store w' = Some store \<and> row \<in> set (cs_inspections store) \<and>
    ro_id row = bi_inspection_id event \<and> ro_digest row = sha256 (dg_crypto A) (sorted_keys (JObj (event_doc event))) \<and>
    sign_receipt (dg_crypto A) event (ds_receipt_key (dg_settings A)) ''decision-agent-stub'' = Inr receipt"
proof -
  obtain event where "stored (dg_crypto A) event (map_option cs_inspections (agent_store w'))"
      "sign_receipt (dg_crypto A) event (ds_receipt_key (dg_settings A)) ''decision-agent-stub'' = Inr receipt"
    using turn_receipts [of A w cid topic body] assms by (auto simp: receipts_ok_def shown_def)
  then show ?thesis unfolding stored_def by blast
qed

definition example_passed :: bottle_inspection where
  "example_passed = (example_bottle ''s:1'' 1000000)\<lparr>bi_passed := True\<rparr>"

definition example_agent :: "unit agent" where
  "example_agent =
     \<lparr>dg_settings = example_settings\<lparr>ds_durable := True, ds_receipt_key := replicate 32 (CHR ''k'')\<rparr>,
      dg_backend = quiet, dg_crypto = example_hash, dg_parse_event = (\<lambda>_. Inr example_passed),
      dg_parse_request = (\<lambda>_. Inl (ValidationError ''ActuationRequest''))\<rparr>"

definition example_agent_world :: "unit agent_world" where
  "example_agent_world =
     \<lparr>sv_env = (), sv_clock = 1500000, sv_events = [], sv_counts = [], sv_sent = [], rj_capacity = 128, rj_pending = [],
      rj_feedback = Map.empty,
      ag_tracker = \<lparr>st_max_age = 5, st_require_position = False, st_store = Some example_store,
        st_positions = Map.empty, st_latest = Map.empty, st_decision = (False, ''not_observed'')\<rparr>,
      ag_mode = mode_new, ag_rule = projr (rule_new 512), ag_count = None, ag_receipt = None\<rparr>"

definition example_packet :: doc where
  "example_packet =
     [(''eirvah:quality'', JStr ''good''), (''sosa:resultTime'', JTime (utc 1000000)), (''eirvah:unit'', JStr ''json''),
      (''sosa:hasSimpleResult'', JStr ''event'')]"

definition example_turn :: "unit agent_world \<times> unit res" where
  "example_turn = agent_message_turn example_agent [] ''it'' (Inr example_packet) example_agent_world"

theorem receipt_follows_storage_witness:
  "\<exists>receipt (event :: bottle_inspection) store (row :: inspection_row). sv_sent (fst example_turn) = [(''rt'', Receipt receipt)] \<and>
     agent_store (fst example_turn) = Some store \<and> row \<in> set (cs_inspections store) \<and>
     ro_id row = bi_inspection_id event \<and> ro_digest row = ''d''"
proof -
  let ?receipt = "\<lparr>ir_inspection_id = ''s:1'', ir_event_digest = ''d'', ir_consumer = ''decision-agent-stub'', ir_signature = ''m''\<rparr>"
  have sent: "sv_sent (fst example_turn) = [(''rt'', Receipt ?receipt)]" by code_simp
  have run: "agent_message_turn example_agent [] ''it'' (Inr example_packet) example_agent_world = (fst example_turn, snd example_turn)"
    by (simp add: example_turn_def)
  have new: "sv_sent (fst example_turn) = sv_sent example_agent_world @ [(''rt'', Receipt ?receipt)]"
    using sent by (simp add: example_agent_world_def)
  have "(''rt'', Receipt ?receipt) \<in> set [(''rt'', Receipt ?receipt)]" by simp
  from receipt_follows_storage [OF run new this]
  obtain event store row where row: "agent_store (fst example_turn) = Some store" "row \<in> set (cs_inspections store)"
      "ro_id row = bi_inspection_id event" and
      digest: "ro_digest row = sha256 (dg_crypto example_agent) (sorted_keys (JObj (event_doc event)))"
    by blast
  have "ro_digest row = ''d''" unfolding digest by (simp only: example_agent_def agent.simps example_hash_def crypto.simps)
  with sent row show ?thesis
    by (intro exI [of _ ?receipt] exI [of _ event] exI [of _ store] exI [of _ row] conjI)
qed

end
