(* ===== verification/S7_Simulator.thy ===== *)
theory S7_Simulator
  imports Effects Device_Controls
begin

text \<open>
  The S7 simulator (\<open>s7_simulator/server.py\<close>): the big-endian layout of its data blocks, the
  capper and the palletizer, and the command mailbox of the capper's motor in data block 3. A buffer
  is a list of byte values. The random numbers are a parameter; metrics, log lines and the snap7
  server that shows the buffers to clients are left out. Floats are exact reals without a negative
  zero.
\<close>

section \<open>Packing\<close>

definition struct_error :: exn where
  "struct_error = OtherError ''error'' ''struct''"

text \<open>\<open>struct.pack_into\<close> and \<open>struct.unpack_from\<close>: \<open>k\<close> bytes at an offset of a buffer.\<close>

definition put_bytes :: "int list \<Rightarrow> nat \<Rightarrow> int list \<Rightarrow> int list res" where
  "put_bytes buf offset bs =
     (if offset + length bs \<le> length buf then Inr (take offset buf @ bs @ drop (offset + length bs) buf)
      else Inl struct_error)"

definition get_bytes :: "int list \<Rightarrow> nat \<Rightarrow> nat \<Rightarrow> int list res" where
  "get_bytes buf offset k = (if offset + k \<le> length buf then Inr (take k (drop offset buf)) else Inl struct_error)"

fun be_bytes :: "nat \<Rightarrow> int \<Rightarrow> int list" where
  "be_bytes 0 n = []"
| "be_bytes (Suc k) n = n div 256 ^ k mod 256 # be_bytes k n"

fun be_value :: "int list \<Rightarrow> int" where
  "be_value [] = 0"
| "be_value (b # bs) = b * 256 ^ length bs + be_value bs"

text \<open>Format \<open>>h\<close> and \<open>>H\<close>.\<close>

definition pack_short :: "int \<Rightarrow> int list res" where
  "pack_short n = (if -32768 \<le> n \<and> n \<le> 32767 then Inr (be_bytes 2 (n mod 65536)) else Inl struct_error)"

definition unpack_short :: "int list \<Rightarrow> int" where
  "unpack_short bs = (let v = be_value bs in if v < 32768 then v else v - 65536)"

definition pack_ushort :: "int \<Rightarrow> int list res" where
  "pack_ushort n = (if 0 \<le> n \<and> n \<le> 65535 then Inr (be_bytes 2 n) else Inl struct_error)"

text \<open>
  Format \<open>>f\<close>, the IEEE single: the least exponent at which the rounded significand has 24 bits;
  a value that rounds beyond the largest single raises.
\<close>

definition two_to :: "int \<Rightarrow> real" where
  "two_to e = (if 0 \<le> e then 2 ^ nat e else 1 / 2 ^ nat (- e))"

definition significand :: "real \<Rightarrow> int \<Rightarrow> int" where
  "significand x e = round_half_even (\<bar>x\<bar> / two_to e)"

definition exponents :: "int list" where
  "exponents = [-149..104]"

definition pack_single :: "pyfloat \<Rightarrow> int list res" where
  "pack_single f =
     (case f of
        Fin x \<Rightarrow>
          (case find (\<lambda>e. significand x e < 2 ^ 24) exponents of
             None \<Rightarrow> Inl (OverflowError ''float too large to pack with f format'')
           | Some e \<Rightarrow> Inr (be_bytes 4 ((if x < 0 then 2 ^ 31 else 0) + (e + 149) * 2 ^ 23 + significand x e)))
      | PosInf \<Rightarrow> Inr (be_bytes 4 (255 * 2 ^ 23))
      | NegInf \<Rightarrow> Inr (be_bytes 4 (2 ^ 31 + 255 * 2 ^ 23))
      | NaN \<Rightarrow> Inr (be_bytes 4 (255 * 2 ^ 23 + 2 ^ 22)))"

definition unpack_single :: "int list \<Rightarrow> pyfloat" where
  "unpack_single bs =
     (let v = be_value bs; negative = 2 ^ 31 \<le> v; ex = v div 2 ^ 23 mod 256; m = v mod 2 ^ 23 in
      if ex = 255 then (if m \<noteq> 0 then NaN else if negative then NegInf else PosInf)
      else let y = (if ex = 0 then of_int m * two_to (- 149) else of_int (2 ^ 23 + m) * two_to (ex - 150))
           in Fin (if negative then - y else y))"

definition encode_real :: "int list \<Rightarrow> nat \<Rightarrow> pyfloat \<Rightarrow> int list res" where
  "encode_real buf offset v = bindE (pack_single v) (put_bytes buf offset)"

definition encode_int :: "int list \<Rightarrow> nat \<Rightarrow> int \<Rightarrow> int list res" where
  "encode_int buf offset v = bindE (pack_short v) (put_bytes buf offset)"

section \<open>The machines\<close>

text \<open>\<open>random.Random\<close>: \<open>uniform\<close>, \<open>random\<close> and \<open>randint\<close> with the next state.\<close>

record 'r plant_random =
  pr_uniform :: "real \<Rightarrow> real \<Rightarrow> 'r \<Rightarrow> real \<times> 'r"
  pr_random :: "'r \<Rightarrow> real \<times> 'r"
  pr_randint :: "int \<Rightarrow> int \<Rightarrow> 'r \<Rightarrow> int \<times> 'r"

record capper_block =
  cb_torque :: real
  cb_presence :: int
  cb_rejects :: int
  cb_motor :: motor_control

definition capper_new :: capper_block where
  "capper_new =
     \<lparr>cb_torque = 5 / 2, cb_presence = 1, cb_rejects = 0,
      cb_motor = \<lparr>mc_max_speed = 1800, mc_setpoint = 1500, mc_running = True, mc_faulted = False\<rparr>\<rparr>"

definition tick_torque :: "'r plant_random \<Rightarrow> capper_block \<Rightarrow> 'r \<Rightarrow> real \<times> 'r" where
  "tick_torque R b r =
     (if motor_speed (cb_motor b) \<noteq> 0
      then (case pr_uniform R (- 1 / 5) (1 / 5) r of (d, r') \<Rightarrow> (max (3 / 2) (min 4 (cb_torque b + d)), r'))
      else (0, r))"

definition tick_rejects :: "'r plant_random \<Rightarrow> int \<Rightarrow> 'r \<Rightarrow> int \<times> 'r" where
  "tick_rejects R n r =
     (case pr_random R r of (x, r1) \<Rightarrow>
        if x < 1 / 100 then (min (n + 1) 10, r1)
        else if n > 0 then (case pr_random R r1 of (y, r2) \<Rightarrow> (if y < 1 / 10 then n - 1 else n, r2))
        else (n, r1))"

definition capper_tick :: "'r plant_random \<Rightarrow> capper_block \<Rightarrow> 'r \<Rightarrow> capper_block \<times> 'r" where
  "capper_tick R b r =
     (case tick_torque R b r of (torque, r1) \<Rightarrow>
      case pr_random R r1 of (x, r2) \<Rightarrow>
      case tick_rejects R (cb_rejects b) r2 of (rejects, r3) \<Rightarrow>
        (b\<lparr>cb_torque := torque, cb_presence := (if x < 2 / 1000 then 0 else 1), cb_rejects := rejects\<rparr>, r3))"

definition capper_to_bytes :: "capper_block \<Rightarrow> int list res" where
  "capper_to_bytes b =
     bindE (encode_real (replicate 8 0) 0 (Fin (cb_torque b))) (\<lambda>buf.
     bindE (encode_int buf 4 (cb_presence b)) (\<lambda>buf. encode_int buf 6 (cb_rejects b)))"

record palletizer_block =
  pb_layers :: int
  pb_complete :: int
  pb_cycles :: int
  pb_ticks :: int

definition palletizer_new :: palletizer_block where
  "palletizer_new = \<lparr>pb_layers = 0, pb_complete = 0, pb_cycles = 12, pb_ticks = 11\<rparr>"

definition palletizer_tick :: "'r plant_random \<Rightarrow> palletizer_block \<Rightarrow> 'r \<Rightarrow> palletizer_block \<times> 'r" where
  "palletizer_tick R b r =
     (let b0 = b\<lparr>pb_complete := 0, pb_ticks := pb_ticks b + 1\<rparr>;
          b1 = (if 12 \<le> pb_ticks b0
                then let b' = b0\<lparr>pb_ticks := 0, pb_layers := pb_layers b0 + 1\<rparr> in
                     if 10 \<le> pb_layers b' then b'\<lparr>pb_layers := 0, pb_complete := 1\<rparr> else b'
                else b0)
      in case pr_randint R (- 1) 1 r of (d, r') \<Rightarrow> (b1\<lparr>pb_cycles := max 8 (min 16 (pb_cycles b1 + d))\<rparr>, r'))"

definition palletizer_to_bytes :: "palletizer_block \<Rightarrow> int list res" where
  "palletizer_to_bytes b =
     bindE (encode_int (replicate 8 0) 0 (pb_layers b)) (\<lambda>buf.
     bindE (encode_int buf 2 (pb_complete b)) (\<lambda>buf. encode_int buf 4 (pb_cycles b)))"

section \<open>The runtime\<close>

record 'r s7_simulator =
  s7_rng :: 'r
  s7_capper :: capper_block
  s7_palletizer :: palletizer_block
  s7_db1 :: "int list"
  s7_db2 :: "int list"
  s7_db3 :: "int list"

definition s7_new :: "'r \<Rightarrow> 'r s7_simulator" where
  "s7_new r =
     \<lparr>s7_rng = r, s7_capper = capper_new, s7_palletizer = palletizer_new,
      s7_db1 = replicate 8 0, s7_db2 = replicate 8 0, s7_db3 = replicate 18 0\<rparr>"

text \<open>\<open>struct.pack_into(">HH...")\<close> and \<open>struct.unpack_from(">H...")\<close>.\<close>

definition pack_words :: "int list \<Rightarrow> nat \<Rightarrow> int list \<Rightarrow> int list res" where
  "pack_words buf offset vs = bindE (mapE pack_ushort vs) (\<lambda>bss. put_bytes buf offset (concat bss))"

definition word_at :: "int list \<Rightarrow> nat \<Rightarrow> int res" where
  "word_at buf offset = bindE (get_bytes buf offset 2) (\<lambda>bs. Inr (be_value bs))"

definition s7_process_controls :: "('r s7_simulator, unit) act" where
  "s7_process_controls =
     bindS (getS (\<lambda>w. w)) (\<lambda>w.
     bindS (liftS (word_at (s7_db3 w) 0)) (\<lambda>sequence.
     bindS (liftS (word_at (s7_db3 w) 2)) (\<lambda>operation.
     bindS (liftS (word_at (s7_db3 w) 4)) (\<lambda>v.
     bindS (liftS (word_at (s7_db3 w) 6)) (\<lambda>previous.
       if sequence = 0 \<or> sequence = previous then retS ()
       else case motor_apply (cb_motor (s7_capper w)) operation v of
         (motor, status) \<Rightarrow>
           thenS (putS (\<lambda>w. w\<lparr>s7_capper := (s7_capper w)\<lparr>cb_motor := motor\<rparr>\<rparr>))
             (bindS (liftS (pack_words (s7_db3 w) 6 [sequence, status])) (\<lambda>db3.
                putS (\<lambda>w. w\<lparr>s7_db3 := db3\<rparr>))))))))"

definition motor_words :: "motor_control \<Rightarrow> int list" where
  "motor_words m = [if mc_running m then 1 else 0, if mc_faulted m then 1 else 0, mc_setpoint m, motor_speed m]"

definition sync_buffers :: "('r s7_simulator, unit) act" where
  "sync_buffers =
     bindS (getS (\<lambda>w. w)) (\<lambda>w.
     bindS (liftS (capper_to_bytes (s7_capper w))) (\<lambda>db1.
     bindS (liftS (palletizer_to_bytes (s7_palletizer w))) (\<lambda>db2.
     thenS (putS (\<lambda>w. w\<lparr>s7_db1 := db1, s7_db2 := db2\<rparr>))
       (bindS (liftS (pack_words (s7_db3 w) 10 (motor_words (cb_motor (s7_capper w))))) (\<lambda>db3.
          putS (\<lambda>w. w\<lparr>s7_db3 := db3\<rparr>))))))"

definition s7_move :: "'r plant_random \<Rightarrow> 'r s7_simulator \<Rightarrow> 'r s7_simulator" where
  "s7_move R w =
     (case capper_tick R (s7_capper w) (s7_rng w) of (capper, r1) \<Rightarrow>
      case palletizer_tick R (s7_palletizer w) r1 of (palletizer, r2) \<Rightarrow>
        w\<lparr>s7_capper := capper, s7_palletizer := palletizer, s7_rng := r2\<rparr>)"

definition s7_tick :: "'r plant_random \<Rightarrow> ('r s7_simulator, unit) act" where
  "s7_tick R = thenS s7_process_controls (thenS (putS (s7_move R)) sync_buffers)"

section \<open>Bytes\<close>

lemma be_bytes_length [simp]: "length (be_bytes k n) = k"
  by (induction k) auto

lemma be_value_bytes_mod: "be_value (be_bytes k n) = n mod 256 ^ k"
proof (induction k)
  case (Suc k)
  have "n mod (256 ^ k * 256) = 256 ^ k * (n div 256 ^ k mod 256) + n mod 256 ^ k"
    by (rule zmod_zmult2_eq) simp
  then show ?case using Suc by (simp add: mult.commute)
qed simp

lemma be_value_bytes [simp]: "0 \<le> n \<Longrightarrow> n < 256 ^ k \<Longrightarrow> be_value (be_bytes k n) = n"
  by (simp add: be_value_bytes_mod)

lemma be_value_range: "\<forall>b \<in> set bs. 0 \<le> b \<and> b \<le> 255 \<Longrightarrow> 0 \<le> be_value bs \<and> be_value bs < 256 ^ length bs"
proof (induction bs)
  case (Cons b bs)
  then have "b * 256 ^ length bs \<le> 255 * 256 ^ length bs" "0 \<le> b * 256 ^ length bs"
    by (auto intro!: mult_right_mono)
  moreover have "0 \<le> be_value bs" "be_value bs < 256 ^ length bs" using Cons by auto
  ultimately show ?case unfolding be_value.simps length_Cons power_Suc by linarith
qed simp

lemma be_bytes_set: "b \<in> set (be_bytes k n) \<Longrightarrow> 0 \<le> b \<and> b \<le> 255"
  by (induction k) (auto dest: zmod_le_nonneg_dividend)

lemma get_put_same:
  "put_bytes buf offset bs = Inr buf' \<Longrightarrow> k = length bs \<Longrightarrow> get_bytes buf' offset k = Inr bs"
  by (auto simp: put_bytes_def get_bytes_def split: if_splits)

lemma get_put_other:
  assumes "put_bytes buf offset bs = Inr buf'" "i + k \<le> offset \<or> offset + length bs \<le> i"
  shows "get_bytes buf' i k = get_bytes buf i k"
proof -
  have fit: "offset + length bs \<le> length buf" and buf': "buf' = take offset buf @ bs @ drop (offset + length bs) buf"
    using assms(1) by (auto simp: put_bytes_def split: if_splits)
  have len: "length buf' = length buf" using fit buf' by simp
  have nth: "buf' ! n = buf ! n" if "n < offset \<or> offset + length bs \<le> n" "n < length buf" for n
    using that fit unfolding buf' by (auto simp: nth_append)
  have "take k (drop i buf') = take k (drop i buf)" if "i + k \<le> length buf"
    by (rule nth_equalityI) (use that assms(2) len nth in auto)
  then show ?thesis by (simp add: get_bytes_def len)
qed

lemma put_bytes_Inr: "put_bytes buf offset bs = Inr buf' \<Longrightarrow> length buf' = length buf"
  by (auto simp: put_bytes_def split: if_splits)

lemma put_bytes_fits: "offset + length bs \<le> length buf \<Longrightarrow> \<exists>buf'. put_bytes buf offset bs = Inr buf'"
  by (simp add: put_bytes_def)

section \<open>Single precision\<close>

lemma two_to_pos [simp]: "0 < two_to e" "two_to e \<noteq> 0" "0 \<le> two_to e"
  by (simp_all add: two_to_def)

lemma exponents_nth: "length exponents = 254" "i < 254 \<Longrightarrow> exponents ! i = int i - 149" "set exponents = {-149..104}"
proof -
  show "length exponents = 254" unfolding exponents_def length_upto by simp
  show "i < 254 \<Longrightarrow> exponents ! i = int i - 149" unfolding exponents_def by (subst nth_upto) simp_all
  show "set exponents = {-149..104}" unfolding exponents_def by (rule set_upto)
qed

lemma two_to_step: "two_to (e + 1) = 2 * two_to e"
proof (cases "0 \<le> e")
  case True
  then have "nat (e + 1) = Suc (nat e)" by simp
  then show ?thesis using True by (simp add: two_to_def)
next
  case False
  then have "nat (- e) = Suc (nat (- (e + 1)))" by simp
  then show ?thesis using False by (cases "e = - 1") (simp_all add: two_to_def)
qed

lemma significand_close: "\<bar>of_int (significand x e) * two_to e - \<bar>x\<bar>\<bar> \<le> two_to e / 2"
proof -
  have "of_int (significand x e) * two_to e - \<bar>x\<bar> = (of_int (significand x e) - \<bar>x\<bar> / two_to e) * two_to e"
    by (simp add: left_diff_distrib)
  then have "\<bar>of_int (significand x e) * two_to e - \<bar>x\<bar>\<bar> = \<bar>of_int (significand x e) - \<bar>x\<bar> / two_to e\<bar> * two_to e"
    by (simp only: abs_mult) simp
  also have "\<dots> \<le> 1 / 2 * two_to e"
    unfolding significand_def by (rule mult_right_mono [OF round_half_even_close]) simp
  finally show ?thesis by simp
qed

lemma significand_nonneg: "0 \<le> significand x e"
  unfolding significand_def using round_half_even_mono [of 0 "\<bar>x\<bar> / two_to e"] by (simp add: less_imp_le)

lemma exponent_found:
  assumes "find (\<lambda>e. significand x e < 2 ^ 24) exponents = Some e"
  shows "-149 \<le> e \<and> e \<le> 104 \<and> significand x e < 2 ^ 24 \<and> (e = -149 \<or> 2 ^ 24 \<le> significand x (e - 1))"
proof -
  obtain i where i: "i < length exponents" "significand x (exponents ! i) < 2 ^ 24" "e = exponents ! i"
      "\<forall>j < i. \<not> significand x (exponents ! j) < 2 ^ 24"
    using assms unfolding find_Some_iff by blast
  have lt: "i < 254" using i(1) by (simp add: exponents_nth(1))
  have e: "e = int i - 149" using i(3) exponents_nth(2) [OF lt] by simp
  have "2 ^ 24 \<le> significand x (e - 1)" if "i \<noteq> 0"
  proof -
    have "exponents ! (i - 1) = e - 1" using exponents_nth(2) [of "i - 1"] lt that e by simp
    then show ?thesis using i(4) [rule_format, of "i - 1"] that by simp
  qed
  then show ?thesis using i(2,3) lt e by (cases "i = 0") simp_all
qed

text \<open>The significand is full unless the exponent is the least one, and the rounding is then relative.\<close>

lemma full_significand:
  assumes "2 ^ 24 \<le> significand x (e - 1)"
  shows "2 ^ 23 \<le> significand x e \<and> two_to e / 2 \<le> \<bar>x\<bar> / 2 ^ 23"
proof -
  define u where "u = two_to (e - 1)"
  have u: "two_to e = 2 * u" "0 < u" using two_to_step [of "e - 1"] by (simp_all add: u_def)
  have "16777216 \<le> (of_int (significand x (e - 1)) :: real)" using assms by simp
  from mult_right_mono [OF this, of u] have "16777216 * u \<le> of_int (significand x (e - 1)) * u" using u(2) by simp
  then have x: "16777216 * u - u / 2 \<le> \<bar>x\<bar>"
    using significand_close [of x "e - 1", folded u_def] by linarith
  then have "(8388608 - 3 / 4) * (2 * u) \<le> of_int (significand x e) * (2 * u)"
    using significand_close [of x e, unfolded u(1)] by (simp add: left_diff_distrib abs_le_iff)
  then have "(8388608 - 3 / 4 :: real) \<le> of_int (significand x e)" using u(2) by simp
  then have "8388608 \<le> significand x e" by linarith
  moreover have "u \<le> \<bar>x\<bar> / 8388608" using x u(2) by simp
  ultimately show ?thesis using u(1) by simp
qed

lemma unpack_word:
  assumes "0 \<le> ex" "ex < 256" "0 \<le> m" "m < 2 ^ 23" "s = 0 \<or> s = 1"
  shows "be_value (be_bytes 4 ((s * 256 + ex) * 2 ^ 23 + m)) = (s * 256 + ex) * 2 ^ 23 + m \<and>
    ((s * 256 + ex) * 2 ^ 23 + m) mod 2 ^ 23 = m \<and> ((s * 256 + ex) * 2 ^ 23 + m) div 2 ^ 23 mod 256 = ex \<and>
    (2 ^ 31 \<le> (s * 256 + ex) * 2 ^ 23 + m \<longleftrightarrow> s = 1)"
proof -
  have "((s * 256 + ex) * 2 ^ 23 + m) div 2 ^ 23 = s * 256 + ex" using assms(3,4) by simp
  moreover have "(s * 256 + ex) mod 256 = ex" using assms(1,2) by simp
  moreover have "((s * 256 + ex) * 2 ^ 23 + m) mod 2 ^ 23 = m"
    unfolding mod_mult_self3 using assms(3,4) by (rule mod_pos_pos_trivial)
  moreover have "be_value (be_bytes 4 ((s * 256 + ex) * 2 ^ 23 + m)) = (s * 256 + ex) * 2 ^ 23 + m"
    by (rule be_value_bytes) (use assms in auto)
  moreover have "2 ^ 31 \<le> (s * 256 + ex) * 2 ^ 23 + m \<longleftrightarrow> s = 1" using assms by auto
  ultimately show ?thesis by simp
qed

lemma single_faithful:
  assumes "pack_single (Fin x) = Inr bs"
  shows "length bs = 4 \<and> (\<exists>y. unpack_single bs = Fin y \<and> \<bar>y - x\<bar> \<le> max (\<bar>x\<bar> / 2 ^ 23) (1 / 2 ^ 150))"
proof -
  obtain e where found: "find (\<lambda>e. significand x e < 2 ^ 24) exponents = Some e"
      and bs: "bs = be_bytes 4 ((if x < 0 then 2 ^ 31 else 0) + (e + 149) * 2 ^ 23 + significand x e)"
    using assms by (auto simp: pack_single_def split: option.splits)
  note e = exponent_found [OF found]
  let ?m = "significand x e"
  define s where "s = (if x < 0 then 1 else 0 :: int)"
  have y: "unpack_single bs = Fin (if x < 0 then - (of_int ?m * two_to e) else of_int ?m * two_to e)"
  proof (cases "?m < 2 ^ 23")
    case True
    then have "e = -149" using e full_significand [of x e] by fastforce
    moreover have "bs = be_bytes 4 ((s * 256 + 0) * 2 ^ 23 + ?m)" using bs calculation by (simp add: s_def)
    ultimately show ?thesis
      using unpack_word [of 0 ?m s] True significand_nonneg [of x e] by (simp add: unpack_single_def Let_def s_def)
  next
    case False
    have "bs = be_bytes 4 ((s * 256 + (e + 150)) * 2 ^ 23 + (?m - 2 ^ 23))" using bs by (simp add: s_def algebra_simps)
    then show ?thesis
      using unpack_word [of "e + 150" "?m - 2 ^ 23" s] False e by (simp add: unpack_single_def Let_def s_def)
  qed
  have "two_to e / 2 \<le> max (\<bar>x\<bar> / 2 ^ 23) (1 / 2 ^ 150)"
  proof (cases "e = -149")
    case True
    then have "two_to e / 2 = 1 / 2 ^ 150" by (simp add: two_to_def)
    then show ?thesis by simp
  next
    case False
    then have "two_to e / 2 \<le> \<bar>x\<bar> / 2 ^ 23" using e full_significand [of x e] by blast
    then show ?thesis by (rule max.coboundedI1)
  qed
  moreover have "\<bar>(if x < 0 then - (of_int ?m * two_to e) else of_int ?m * two_to e) - x\<bar> \<le> two_to e / 2"
  proof (cases "x < 0")
    case True
    then have "(if x < 0 then - (of_int ?m * two_to e) else of_int ?m * two_to e) - x = - (of_int ?m * two_to e - \<bar>x\<bar>)" by simp
    then show ?thesis using significand_close [of x e] by (simp only: abs_minus_cancel)
  qed (use significand_close [of x e] in simp)
  ultimately show ?thesis using y bs by auto
qed

lemma single_defined:
  assumes "\<bar>x\<bar> \<le> 2 ^ 100" shows "\<exists>bs. pack_single (Fin x) = Inr bs"
proof -
  have "\<bar>x\<bar> / two_to 104 \<le> 1" using assms by (simp add: two_to_def)
  then have "significand x 104 \<le> 1" unfolding significand_def using round_half_even_mono [of "\<bar>x\<bar> / two_to 104" 1] by simp
  then have "\<not> find (\<lambda>e. significand x e < 2 ^ 24) exponents = None"
    unfolding find_None_iff by (auto simp: exponents_nth(3) intro!: bexI [of _ 104])
  then show ?thesis by (auto simp: pack_single_def)
qed

section \<open>The buffers and the mailbox\<close>

definition bytes_ok :: "nat \<Rightarrow> int list \<Rightarrow> bool" where
  "bytes_ok n buf \<longleftrightarrow> length buf = n \<and> (\<forall>b \<in> set buf. 0 \<le> b \<and> b \<le> 255)"

lemma bytes_ok_put:
  "bytes_ok n buf \<Longrightarrow> put_bytes buf offset bs = Inr buf' \<Longrightarrow> (\<forall>b \<in> set bs. 0 \<le> b \<and> b \<le> 255) \<Longrightarrow> bytes_ok n buf'"
  using set_take_subset [of offset buf] set_drop_subset [of "offset + length bs" buf]
  by (fastforce simp: bytes_ok_def put_bytes_def split: if_splits)

lemma word_at_ok:
  assumes "bytes_ok n buf" "offset + 2 \<le> n"
  shows "\<exists>v. word_at buf offset = Inr v \<and> 0 \<le> v \<and> v \<le> 65535"
proof -
  let ?bs = "take 2 (drop offset buf)"
  have "length ?bs = 2" "\<forall>b \<in> set ?bs. 0 \<le> b \<and> b \<le> 255"
    using assms by (auto simp: bytes_ok_def dest!: in_set_takeD in_set_dropD)
  then show ?thesis using be_value_range [of ?bs] assms by (simp add: word_at_def get_bytes_def bytes_ok_def)
qed

lemma pack_ushort_word: "0 \<le> v \<Longrightarrow> v \<le> 65535 \<Longrightarrow> pack_ushort v = Inr (be_bytes 2 v) \<and> be_value (be_bytes 2 v) = v"
  by (simp add: pack_ushort_def del: be_bytes.simps)

lemma mapE_pack_ushort: "\<forall>v \<in> set vs. 0 \<le> v \<and> v \<le> 65535 \<Longrightarrow> mapE pack_ushort vs = Inr (map (be_bytes 2) vs)"
  by (induction vs) (auto simp: pack_ushort_word)

lemma concat_words_length: "length (concat (map (be_bytes 2) vs)) = 2 * length vs"
  by (induction vs) auto

text \<open>Words written are read back, and the other words stay.\<close>

lemma pack_words_ok:
  assumes "bytes_ok n buf" "offset + 2 * length vs \<le> n" "\<forall>v \<in> set vs. 0 \<le> v \<and> v \<le> 65535"
  shows "\<exists>buf'. pack_words buf offset vs = Inr buf' \<and> bytes_ok n buf' \<and>
    (\<forall>i < length vs. word_at buf' (offset + 2 * i) = Inr (vs ! i)) \<and>
    (\<forall>i k. i + k \<le> offset \<or> offset + 2 * length vs \<le> i \<longrightarrow> get_bytes buf' i k = get_bytes buf i k)"
proof -
  let ?bs = "concat (map (be_bytes 2) vs)"
  have len: "length ?bs = 2 * length vs" by (rule concat_words_length)
  obtain buf' where p: "put_bytes buf offset ?bs = Inr buf'"
    using put_bytes_fits [of offset ?bs buf] assms(1,2) len by (auto simp: bytes_ok_def)
  have buf': "buf' = take offset buf @ ?bs @ drop (offset + length ?bs) buf" and blen: "length buf' = n" "length buf = n"
    using p assms(1) by (auto simp: put_bytes_def bytes_ok_def split: if_splits)
  have "take 2 (drop (2 * i) ?bs) = be_bytes 2 (vs ! i)" if "i < length vs" for i
    using that
  proof (induction vs arbitrary: i)
    case (Cons v vs)
    then show ?case by (cases i) (auto simp del: be_bytes.simps)
  qed simp
  moreover have "drop (offset + 2 * i) buf' = drop (2 * i) ?bs @ drop (offset + length ?bs) buf" if "i < length vs" for i
    using that len assms(2) blen unfolding buf' by simp
  ultimately have "take 2 (drop (offset + 2 * i) buf') = be_bytes 2 (vs ! i)" if "i < length vs" for i
    using that len by simp
  then have "word_at buf' (offset + 2 * i) = Inr (vs ! i)" if "i < length vs" for i
    using that assms(2,3) blen by (simp add: word_at_def get_bytes_def pack_ushort_word del: be_bytes.simps)
  moreover have "pack_words buf offset vs = Inr buf'" using mapE_pack_ushort [OF assms(3)] p by (simp add: pack_words_def)
  moreover have "bytes_ok n buf'" by (rule bytes_ok_put [OF assms(1) p]) (auto dest: be_bytes_set simp del: be_bytes.simps)
  moreover have "\<forall>i k. i + k \<le> offset \<or> offset + 2 * length vs \<le> i \<longrightarrow> get_bytes buf' i k = get_bytes buf i k"
    using get_put_other [OF p] len by simp
  ultimately show ?thesis by blast
qed

definition word_of :: "int list \<Rightarrow> nat \<Rightarrow> int" where
  "word_of buf offset = (case word_at buf offset of Inl _ \<Rightarrow> 0 | Inr v \<Rightarrow> v)"

definition mailbox_command :: "'r s7_simulator \<Rightarrow> command_regs" where
  "mailbox_command w = (word_of (s7_db3 w) 0, word_of (s7_db3 w) 2, word_of (s7_db3 w) 4)"

definition mailbox_ack :: "'r s7_simulator \<Rightarrow> ack_regs" where
  "mailbox_ack w = (word_of (s7_db3 w) 6, word_of (s7_db3 w) 8)"

lemma word_of_ok: "bytes_ok n buf \<Longrightarrow> offset + 2 \<le> n \<Longrightarrow> word_at buf offset = Inr (word_of buf offset) \<and> 0 \<le> word_of buf offset \<and> word_of buf offset \<le> 65535"
  using word_at_ok [of n buf offset] by (auto simp: word_of_def)

text \<open>One poll of data block 3 is one poll of the abstract mailbox of the motor.\<close>

lemma controls_mailbox:
  assumes ok: "bytes_ok 18 (s7_db3 w)"
  shows "\<exists>w'. s7_process_controls w = (w', Inr ()) \<and> bytes_ok 18 (s7_db3 w') \<and>
    mailbox_poll motor_apply (mailbox_command w) (cb_motor (s7_capper w), mailbox_ack w) = (cb_motor (s7_capper w'), mailbox_ack w') \<and>
    mailbox_command w' = mailbox_command w \<and>
    w' = w\<lparr>s7_capper := (s7_capper w)\<lparr>cb_motor := cb_motor (s7_capper w')\<rparr>, s7_db3 := s7_db3 w'\<rparr>"
proof -
  let ?db = "s7_db3 w"
  note words = word_of_ok [OF ok, of 0] word_of_ok [OF ok, of 2] word_of_ok [OF ok, of 4] word_of_ok [OF ok, of 6]
  let ?s = "word_of ?db 0" and ?o = "word_of ?db 2" and ?v = "word_of ?db 4" and ?p = "word_of ?db 6"
  show ?thesis
  proof (cases "?s = 0 \<or> ?s = ?p")
    case True
    then have "s7_process_controls w = (w, Inr ())" using words by (auto simp: s7_process_controls_def)
    moreover have "mailbox_poll motor_apply (mailbox_command w) (cb_motor (s7_capper w), mailbox_ack w) =
        (cb_motor (s7_capper w), mailbox_ack w)"
      using True by (auto simp: mailbox_poll_def mailbox_command_def mailbox_ack_def)
    ultimately show ?thesis using ok by simp
  next
    case False
    obtain m status where m: "motor_apply (cb_motor (s7_capper w)) ?o ?v = (m, status)" by fastforce
    have "status \<in> {1, 2, 3, 4}" using motor.status_range [of "cb_motor (s7_capper w)" ?o ?v] m by simp
    then obtain db where db: "pack_words ?db 6 [?s, status] = Inr db" "bytes_ok 18 db"
        "\<forall>i < 2. word_at db (6 + 2 * i) = Inr ([?s, status] ! i)"
        "\<forall>i k. i + k \<le> 6 \<or> 10 \<le> i \<longrightarrow> get_bytes db i k = get_bytes ?db i k"
      using pack_words_ok [OF ok, of 6 "[?s, status]"] words by auto
    have "word_of db 6 = ?s" "word_of db 8 = status"
      using db(3) [rule_format, of 0] db(3) [rule_format, of 1] by (simp_all add: word_of_def)
    moreover have "word_of db i = word_of ?db i" if "i \<le> 4" for i
      using db(4) that by (simp add: word_of_def word_at_def)
    moreover have "s7_process_controls w = (w\<lparr>s7_capper := (s7_capper w)\<lparr>cb_motor := m\<rparr>, s7_db3 := db\<rparr>, Inr ())"
      using False words m db(1) by (simp add: s7_process_controls_def)
    ultimately show ?thesis
      using False m db(2) by (simp add: mailbox_poll_def mailbox_command_def mailbox_ack_def)
  qed
qed

section \<open>Runs\<close>

definition capper_ok :: "capper_block \<Rightarrow> bool" where
  "capper_ok b \<longleftrightarrow>
     (cb_torque b = 0 \<or> 3 / 2 \<le> cb_torque b \<and> cb_torque b \<le> 4) \<and> cb_presence b \<in> {0, 1} \<and>
     0 \<le> cb_rejects b \<and> cb_rejects b \<le> 10 \<and> motor_invar (cb_motor b) \<and> mc_max_speed (cb_motor b) = 1800"

definition palletizer_ok :: "palletizer_block \<Rightarrow> bool" where
  "palletizer_ok b \<longleftrightarrow>
     0 \<le> pb_layers b \<and> pb_layers b \<le> 9 \<and> pb_complete b \<in> {0, 1} \<and> 8 \<le> pb_cycles b \<and> pb_cycles b \<le> 16 \<and>
     0 \<le> pb_ticks b \<and> pb_ticks b \<le> 11"

definition s7_ok :: "'r s7_simulator \<Rightarrow> bool" where
  "s7_ok w \<longleftrightarrow> capper_ok (s7_capper w) \<and> palletizer_ok (s7_palletizer w) \<and> bytes_ok 18 (s7_db3 w)"

lemma tick_rejects_range: "tick_rejects R n r = (n', r') \<Longrightarrow> 0 \<le> n \<Longrightarrow> n \<le> 10 \<Longrightarrow> 0 \<le> n' \<and> n' \<le> 10"
  by (auto simp: tick_rejects_def split: prod.splits if_splits)

lemma tick_torque_range: "tick_torque R b r = (t, r') \<Longrightarrow> t = 0 \<or> 3 / 2 \<le> t \<and> t \<le> 4"
  by (auto simp: tick_torque_def max_def min_def split: prod.splits if_splits)

lemma capper_tick_ok:
  assumes "capper_ok b" "capper_tick R b r = (b', r')" shows "capper_ok b'"
proof -
  obtain torque r1 x r2 rejects r3 where t: "tick_torque R b r = (torque, r1)" "pr_random R r1 = (x, r2)"
      "tick_rejects R (cb_rejects b) r2 = (rejects, r3)" by (metis surj_pair)
  then have "b' = b\<lparr>cb_torque := torque, cb_presence := (if x < 2 / 1000 then 0 else 1), cb_rejects := rejects\<rparr>"
    using assms(2) by (simp add: capper_tick_def)
  then show ?thesis using assms(1) tick_torque_range [OF t(1)] tick_rejects_range [OF t(3)] by (simp add: capper_ok_def)
qed

lemma palletizer_tick_ok:
  assumes "palletizer_ok b" "palletizer_tick R b r = (b', r')" shows "palletizer_ok b'"
proof -
  obtain d r1 where d: "pr_randint R (- 1) 1 r = (d, r1)" by fastforce
  have p: "0 \<le> pb_layers b" "pb_layers b \<le> 9" "0 \<le> pb_ticks b" "pb_ticks b \<le> 11" using assms(1) by (auto simp: palletizer_ok_def)
  show ?thesis
    using assms(2) d p unfolding palletizer_tick_def Let_def
    by (cases "12 \<le> pb_ticks b + 1"; cases "10 \<le> pb_layers b + 1") (auto simp: palletizer_ok_def)
qed

lemma s7_new_ok: "s7_ok (s7_new r)"
  by (simp add: s7_ok_def s7_new_def capper_ok_def capper_new_def palletizer_ok_def palletizer_new_def motor_invar_def bytes_ok_def)

lemma s7_move_ok:
  assumes "s7_ok w" shows "s7_ok (s7_move R w) \<and> s7_db3 (s7_move R w) = s7_db3 w"
proof -
  obtain b r1 p r2 where t: "capper_tick R (s7_capper w) (s7_rng w) = (b, r1)"
      "palletizer_tick R (s7_palletizer w) r1 = (p, r2)" by (metis surj_pair)
  then show ?thesis
    using assms capper_tick_ok [OF _ t(1)] palletizer_tick_ok [OF _ t(2)] by (simp add: s7_ok_def s7_move_def)
qed

lemma poll_max_speed: "mc_max_speed (fst (mailbox_poll motor_apply c sa)) = mc_max_speed (fst sa)"
  using motor_apply_max by (auto simp: mailbox_poll_def split: prod.splits) (metis fst_conv motor_apply_max)

lemma s7_controls_ok:
  assumes "s7_ok w" shows "\<exists>w'. s7_process_controls w = (w', Inr ()) \<and> s7_ok w'"
proof -
  have ok: "bytes_ok 18 (s7_db3 w)" "capper_ok (s7_capper w)" "palletizer_ok (s7_palletizer w)"
    using assms by (simp_all add: s7_ok_def)
  obtain w' where w': "s7_process_controls w = (w', Inr ())" "bytes_ok 18 (s7_db3 w')"
      "mailbox_poll motor_apply (mailbox_command w) (cb_motor (s7_capper w), mailbox_ack w) = (cb_motor (s7_capper w'), mailbox_ack w')"
      "w' = w\<lparr>s7_capper := (s7_capper w)\<lparr>cb_motor := cb_motor (s7_capper w')\<rparr>, s7_db3 := s7_db3 w'\<rparr>"
    using controls_mailbox [OF ok(1)] by blast
  have "motor_invar (cb_motor (s7_capper w'))"
    using motor.poll_invar [of "(cb_motor (s7_capper w), mailbox_ack w)" "mailbox_command w"] ok(2) w'(3) by (simp add: capper_ok_def)
  moreover have "mc_max_speed (cb_motor (s7_capper w')) = 1800"
    using poll_max_speed [of "mailbox_command w" "(cb_motor (s7_capper w), mailbox_ack w)"] w'(3) ok(2) by (simp add: capper_ok_def)
  moreover obtain m where m: "s7_capper w' = (s7_capper w)\<lparr>cb_motor := m\<rparr>" using arg_cong [OF w'(4), of s7_capper] by auto
  moreover have "s7_palletizer w' = s7_palletizer w" using arg_cong [OF w'(4), of s7_palletizer] by simp
  ultimately have "capper_ok (s7_capper w')" "palletizer_ok (s7_palletizer w')"
    using ok(2,3) unfolding m by (simp_all add: capper_ok_def)
  then show ?thesis using w'(1,2) by (simp add: s7_ok_def)
qed

lemma single_at:
  assumes "encode_real buf offset (Fin x) = Inr buf'"
  shows "length buf' = length buf \<and>
    (\<exists>bs y. get_bytes buf' offset 4 = Inr bs \<and> unpack_single bs = Fin y \<and> \<bar>y - x\<bar> \<le> max (\<bar>x\<bar> / 2 ^ 23) (1 / 2 ^ 150)) \<and>
    (\<forall>i k. offset + 4 \<le> i \<longrightarrow> get_bytes buf' i k = get_bytes buf i k)"
proof -
  obtain bs where bs: "pack_single (Fin x) = Inr bs" "put_bytes buf offset bs = Inr buf'"
    using assms by (auto simp: encode_real_def bindE_Inr_iff)
  obtain y where y: "unpack_single bs = Fin y" "\<bar>y - x\<bar> \<le> max (\<bar>x\<bar> / 2 ^ 23) (1 / 2 ^ 150)" and len: "length bs = 4"
    using single_faithful [OF bs(1)] by blast
  have "get_bytes buf' offset 4 = Inr bs" using get_put_same [OF bs(2), of 4] len by simp
  moreover have "\<forall>i k. offset + 4 \<le> i \<longrightarrow> get_bytes buf' i k = get_bytes buf i k" using get_put_other [OF bs(2)] len by simp
  ultimately show ?thesis using put_bytes_Inr [OF bs(2)] y by blast
qed

lemma int_at_bytes:
  assumes "-32768 \<le> n" "n \<le> 32767" "offset + 2 \<le> length buf"
  shows "\<exists>buf' bs. encode_int buf offset n = Inr buf' \<and> length buf' = length buf \<and> get_bytes buf' offset 2 = Inr bs \<and>
    unpack_short bs = n \<and> (\<forall>i k. i + k \<le> offset \<or> offset + 2 \<le> i \<longrightarrow> get_bytes buf' i k = get_bytes buf i k)"
proof -
  let ?bs = "be_bytes 2 (n mod 65536)"
  have "unpack_short ?bs = n"
  proof (cases "0 \<le> n")
    case False
    then have "(n + 65536) mod 65536 = n + 65536" using assms(1) by (intro mod_pos_pos_trivial) simp_all
    then have "n mod 65536 = n + 65536" by simp
    then show ?thesis using False assms by (simp add: unpack_short_def Let_def del: be_bytes.simps)
  qed (use assms in \<open>simp add: unpack_short_def Let_def del: be_bytes.simps\<close>)
  moreover obtain buf' where p: "put_bytes buf offset ?bs = Inr buf'"
    using put_bytes_fits [of offset ?bs buf] assms(3) by (auto simp del: be_bytes.simps)
  moreover have "encode_int buf offset n = Inr buf'" using assms(1,2) p by (simp add: encode_int_def pack_short_def del: be_bytes.simps)
  moreover have "get_bytes buf' offset 2 = Inr ?bs" using get_put_same [OF p, of 2] by (simp del: be_bytes.simps)
  moreover have "\<forall>i k. i + k \<le> offset \<or> offset + 2 \<le> i \<longrightarrow> get_bytes buf' i k = get_bytes buf i k"
    using get_put_other [OF p] by (simp del: be_bytes.simps)
  ultimately show ?thesis using put_bytes_Inr [OF p] by blast
qed

text \<open>What a client reads from the blocks of a machine in its range.\<close>

lemma capper_bytes:
  assumes "capper_ok b"
  shows "\<exists>buf bs1 bs2 bs3 y. capper_to_bytes b = Inr buf \<and> length buf = 8 \<and> get_bytes buf 0 4 = Inr bs1 \<and> unpack_single bs1 = Fin y \<and>
    \<bar>y - cb_torque b\<bar> \<le> max (\<bar>cb_torque b\<bar> / 2 ^ 23) (1 / 2 ^ 150) \<and> get_bytes buf 4 2 = Inr bs2 \<and> unpack_short bs2 = cb_presence b \<and>
    get_bytes buf 6 2 = Inr bs3 \<and> unpack_short bs3 = cb_rejects b"
proof -
  have "\<bar>cb_torque b\<bar> \<le> 2 ^ 100" using assms by (auto simp: capper_ok_def)
  then obtain bs where "pack_single (Fin (cb_torque b)) = Inr bs" using single_defined by blast
  then obtain b1 where 1: "encode_real (replicate 8 0) 0 (Fin (cb_torque b)) = Inr b1"
    using put_bytes_fits [of 0 bs "replicate 8 0"] single_faithful [of "cb_torque b" bs] by (auto simp: encode_real_def)
  note r1 = single_at [OF 1]
  have "-32768 \<le> cb_presence b" "cb_presence b \<le> 32767" using assms by (auto simp: capper_ok_def)
  from int_at_bytes [OF this, of 4 b1] obtain b2 bs2 where 2: "encode_int b1 4 (cb_presence b) = Inr b2" "length b2 = 8"
      "get_bytes b2 4 2 = Inr bs2" "unpack_short bs2 = cb_presence b" "\<forall>i k. i + k \<le> 4 \<or> 6 \<le> i \<longrightarrow> get_bytes b2 i k = get_bytes b1 i k"
    using r1 by auto
  have "-32768 \<le> cb_rejects b" "cb_rejects b \<le> 32767" using assms by (auto simp: capper_ok_def)
  from int_at_bytes [OF this, of 6 b2] obtain b3 bs3 where 3: "encode_int b2 6 (cb_rejects b) = Inr b3" "length b3 = 8"
      "get_bytes b3 6 2 = Inr bs3" "unpack_short bs3 = cb_rejects b" "\<forall>i k. i + k \<le> 6 \<or> 8 \<le> i \<longrightarrow> get_bytes b3 i k = get_bytes b2 i k"
    using 2(2) by auto
  have "get_bytes b3 0 4 = get_bytes b1 0 4" "get_bytes b3 4 2 = Inr bs2" using 2(3,5) 3(5) by simp_all
  moreover have "capper_to_bytes b = Inr b3" using 1 2(1) 3(1) by (simp add: capper_to_bytes_def)
  ultimately show ?thesis using r1 2(4) 3(2,3,4) by auto
qed

lemma palletizer_bytes:
  assumes "palletizer_ok b"
  shows "\<exists>buf bs1 bs2 bs3. palletizer_to_bytes b = Inr buf \<and> length buf = 8 \<and> get_bytes buf 0 2 = Inr bs1 \<and> unpack_short bs1 = pb_layers b \<and>
    get_bytes buf 2 2 = Inr bs2 \<and> unpack_short bs2 = pb_complete b \<and> get_bytes buf 4 2 = Inr bs3 \<and> unpack_short bs3 = pb_cycles b"
proof -
  have r: "-32768 \<le> pb_layers b" "pb_layers b \<le> 32767" "-32768 \<le> pb_complete b" "pb_complete b \<le> 32767"
    "-32768 \<le> pb_cycles b" "pb_cycles b \<le> 32767" using assms by (auto simp: palletizer_ok_def)
  obtain b1 bs1 where 1: "encode_int (replicate 8 0) 0 (pb_layers b) = Inr b1" "length b1 = 8"
      "get_bytes b1 0 2 = Inr bs1" "unpack_short bs1 = pb_layers b"
    using int_at_bytes [OF r(1,2), of 0 "replicate 8 0"] by auto
  obtain b2 bs2 where 2: "encode_int b1 2 (pb_complete b) = Inr b2" "length b2 = 8"
      "get_bytes b2 2 2 = Inr bs2" "unpack_short bs2 = pb_complete b" "\<forall>i k. i + k \<le> 2 \<or> 4 \<le> i \<longrightarrow> get_bytes b2 i k = get_bytes b1 i k"
    using int_at_bytes [OF r(3,4), of 2 b1] 1(2) by auto
  obtain b3 bs3 where 3: "encode_int b2 4 (pb_cycles b) = Inr b3" "length b3 = 8"
      "get_bytes b3 4 2 = Inr bs3" "unpack_short bs3 = pb_cycles b" "\<forall>i k. i + k \<le> 4 \<or> 6 \<le> i \<longrightarrow> get_bytes b3 i k = get_bytes b2 i k"
    using int_at_bytes [OF r(5,6), of 4 b2] 2(2) by auto
  have "get_bytes b3 0 2 = Inr bs1" "get_bytes b3 2 2 = Inr bs2" using 1(3) 2(3,5) 3(5) by simp_all
  moreover have "palletizer_to_bytes b = Inr b3" using 1(1) 2(1) 3(1) by (simp add: palletizer_to_bytes_def)
  ultimately show ?thesis using 1(4) 2(4) 3(2,3,4) by auto
qed

end
