(* ===== verification/Data_Subscribers.thy ===== *)
theory Data_Subscribers
  imports Telemetry_Workers Inspection Positions S7_Simulator
begin

text \<open>
  The three services that read the devices and feed the telemetry path: the Modbus, S7 and OPC UA
  data subscribers. Each connection begins a new epoch of its positions, and every reading is
  published with the next position of its node. The device clients, the generator of correlation
  ids and the JSON text of an inspection are parameters. A reading that is not a finite float keeps
  its value until the message is written to JSON. Pauses between rounds, log lines and the header
  that repeats the correlation id are left out; the number of connections and of rounds is bounded
  by fuel, whose end stands for the service being stopped.
\<close>

section \<open>What the subscribers share\<close>

record 'e subscriber = "('e, tel_payload nats_envelope) service_world" +
  su_positions :: "producer_positions option"
  su_db :: positions_db
  su_ready :: bool
  su_gauge :: "string \<rightharpoonup> int"
  su_last_inspection :: "string option"
  su_gaps :: "(string \<times> string) list"

record 'e subscriber_platform =
  sp_backend :: "'e backend"
  sp_correlation_id :: "'e \<Rightarrow> string \<times> 'e"

definition subscriber_new :: "'e \<Rightarrow> int \<Rightarrow> positions_db \<Rightarrow> 'e subscriber" where
  "subscriber_new e clock db =
     \<lparr>sv_env = e, sv_clock = clock, sv_events = [], sv_counts = [], sv_sent = [], su_positions = None, su_db = db,
      su_ready = False, su_gauge = Map.empty, su_last_inspection = None, su_gaps = []\<rparr>"

definition reading ::
  "string \<Rightarrow> signal_value \<Rightarrow> value_type \<Rightarrow> quality \<Rightarrow> string \<Rightarrow> datetime \<Rightarrow> datetime \<Rightarrow> datetime \<Rightarrow> raw_signal" where
  "reading alias v t q source_endpoint source_at server_at received_at =
     \<lparr>rs_source_endpoint = source_endpoint, rs_node_id = alias, rs_value = v, rs_value_type = t, rs_quality = q,
      rs_position = None, rs_source_timestamp = source_at, rs_server_timestamp = server_at, rs_received_at = received_at\<rparr>"

definition build_raw_envelope ::
  "string \<Rightarrow> signal_value \<Rightarrow> value_type \<Rightarrow> string \<Rightarrow> datetime \<Rightarrow> raw_signal" where
  "build_raw_envelope alias v t source_endpoint received_at =
     reading alias v t Good source_endpoint received_at received_at received_at"

definition wrap_in_nats_envelope :: "'e subscriber_platform \<Rightarrow> raw_signal \<Rightarrow> ('e subscriber, tel_payload nats_envelope) act" where
  "wrap_in_nats_envelope P raw w =
     (case sp_correlation_id P (sv_env w) of (cid, e) \<Rightarrow>
        (w\<lparr>sv_env := e\<rparr>, validate_envelope (ok_envelope cid (Some (TRaw raw)))))"

definition begin_epoch_step :: "('e subscriber, unit) act" where
  "begin_epoch_step =
     putS (\<lambda>w. case su_positions w of
        None \<Rightarrow> w
      | Some p \<Rightarrow> (case begin_epoch p (su_db w) of (p', db) \<Rightarrow> w\<lparr>su_positions := Some p', su_db := db\<rparr>))"

text \<open>\<open>SourcePosition.model_validate(self._positions.next(node))\<close>\<close>

definition next_step :: "producer_positions \<Rightarrow> string \<Rightarrow> ('e subscriber, source_position) act" where
  "next_step p node w =
     (case next_position p (su_db w) node None of (db, r) \<Rightarrow>
        (w\<lparr>su_db := db\<rparr>,
         bindE r (\<lambda>pos. if source_position_ok pos then Inr pos else Inl (ValidationError ''SourcePosition''))))"

definition publish_reading :: "'e subscriber_platform \<Rightarrow> tel_payload nats_envelope \<Rightarrow> ('e subscriber, unit) act" where
  "publish_reading P envelope =
     bindS (getS su_positions) (\<lambda>positions.
     bindS (case positions of
              None \<Rightarrow> retS envelope
            | Some p \<Rightarrow>
                bindS (liftS (validate_raw (env_payload envelope))) (\<lambda>raw.
                bindS (next_step p (rs_node_id raw)) (\<lambda>position.
                  retS (envelope\<lparr>env_payload := Some (TRaw (raw\<lparr>rs_position := Some position\<rparr>))\<rparr>)))) (\<lambda>e.
       send_step (sp_backend P) ''uns.ingress.raw'' (wire_envelope e)))"

definition publish_raw :: "'e subscriber_platform \<Rightarrow> raw_signal \<Rightarrow> ('e subscriber, unit) act" where
  "publish_raw P raw = bindS (wrap_in_nats_envelope P raw) (publish_reading P)"

definition connected :: "bool \<Rightarrow> ('e subscriber, unit) act" where
  "connected up =
     putS (\<lambda>w. w\<lparr>su_ready := up, su_gauge := (su_gauge w)(''connected'' \<mapsto> if up then 1 else 0,
                                                        ''disconnected'' \<mapsto> if up then 0 else 1)\<rparr>)"

fun each :: "('a \<Rightarrow> ('w, unit) act) \<Rightarrow> 'a list \<Rightarrow> ('w, unit) act" where
  "each f [] = retS ()"
| "each f (x # xs) = thenS (f x) (each f xs)"

text \<open>A loop that only an exception ends, and the loop that connects again after one.\<close>

fun rounds :: "nat \<Rightarrow> ('w, unit) act \<Rightarrow> ('w, unit) act" where
  "rounds 0 m = raiseS CancelledError"
| "rounds (Suc n) m = thenS m (rounds n m)"

definition reconnecting :: "nat \<Rightarrow> ('e subscriber, unit) act \<Rightarrow> ('e subscriber, unit) act" where
  "reconnecting connections loop = rounds connections (exceptS loop (\<lambda>e. connected False) retS)"

section \<open>Modbus\<close>

record 'e modbus_reader =
  mr_open :: "('e subscriber, unit) act"
  mr_close :: "'e subscriber \<Rightarrow> 'e subscriber"
  mr_read :: "int \<Rightarrow> int \<Rightarrow> ('e subscriber, int list option) act"

record register_config =
  rg_address :: int
  rg_alias :: string
  rg_scale :: real
  rg_value_type :: value_type

record register_map =
  rm_endpoint :: string
  rm_registers :: "register_config list"
  rm_inspection_address :: "int option"

definition apply_scale :: "int \<Rightarrow> real \<Rightarrow> value_type \<Rightarrow> signal_value res" where
  "apply_scale raw scale t =
     (if t = TInt64 then Inr (VInt raw)
      else if scale = 0 then Inl (OtherError ''ZeroDivisionError'' ''division by zero'')
      else Inr (VFloat (Fin (of_int raw / scale))))"

definition least :: "int list \<Rightarrow> int res" where
  "least xs = (case xs of [] \<Rightarrow> Inl (ValueError ''min() iterable argument is empty'') | x # ys \<Rightarrow> Inr (foldl min x ys))"

text \<open>The span of registers one read covers: first address and count.\<close>

definition read_span :: "register_map \<Rightarrow> (int \<times> int) res" where
  "read_span cfg =
     (let registers = map rg_address (rm_registers cfg);
          addresses = registers @ (case rm_inspection_address cfg of None \<Rightarrow> [] | Some a \<Rightarrow> [a, a + 9]) in
      bindE (least registers) (\<lambda>_.
      bindE (least addresses) (\<lambda>start. Inr (start, foldl max start addresses - start + 1))))"

definition register_at :: "int list \<Rightarrow> int \<Rightarrow> int res" where
  "register_at registers i =
     (if 0 \<le> i \<and> i < int (length registers) then Inr (registers ! nat i)
      else Inl (OtherError ''IndexError'' ''list index out of range''))"

definition read_or_fail :: "'e modbus_reader \<Rightarrow> int \<Rightarrow> int \<Rightarrow> string \<Rightarrow> ('e subscriber, int list) act" where
  "read_or_fail R address n why =
     bindS (mr_read R address n) (\<lambda>reply.
       case reply of None \<Rightarrow> raiseS (ConnectionError why) | Some registers \<Rightarrow> retS registers)"

definition publish_register ::
  "'e subscriber_platform \<Rightarrow> string \<Rightarrow> int \<Rightarrow> int list \<Rightarrow> datetime \<Rightarrow> register_config \<Rightarrow> ('e subscriber, unit) act" where
  "publish_register P endpoint start registers received_at reg =
     bindS (liftS (register_at registers (rg_address reg - start))) (\<lambda>raw.
     bindS (liftS (apply_scale raw (rg_scale reg) (rg_value_type reg))) (\<lambda>v.
       publish_raw P (build_raw_envelope (rg_alias reg) v (rg_value_type reg) endpoint received_at)))"

text \<open>A new identity in the same session that skips a number is a gap.\<close>

definition is_gap :: "string \<Rightarrow> string \<Rightarrow> bool res" where
  "is_gap previous current =
     bindE (split_inspection_id previous) (\<lambda>(previous_session, previous_sequence).
     bindE (split_inspection_id current) (\<lambda>(session, sequence).
       if session \<noteq> previous_session then Inr False
       else bindE (int16 sequence) (\<lambda>n. bindE (int16 previous_sequence) (\<lambda>m. Inr (m + 1 < n)))))"

definition note_inspection :: "bottle_inspection \<Rightarrow> ('e subscriber, unit) act" where
  "note_inspection inspection =
     (let identity = bi_inspection_id inspection in
      bindS (getS su_last_inspection) (\<lambda>last.
        if last = Some identity then retS ()
        else thenS (case last of
                      None \<Rightarrow> retS ()
                    | Some previous \<Rightarrow> bindS (liftS (is_gap previous identity)) (\<lambda>gap.
                        whenS gap (putS (\<lambda>w. w\<lparr>su_gaps := su_gaps w @ [(previous, identity)]\<rparr>))))
          (putS (\<lambda>w. w\<lparr>su_last_inspection := Some identity\<rparr>))))"

definition publish_inspection ::
  "'e subscriber_platform \<Rightarrow> (bottle_inspection \<Rightarrow> string) \<Rightarrow> string \<Rightarrow> datetime \<Rightarrow> bottle_inspection
   \<Rightarrow> ('e subscriber, unit) act" where
  "publish_inspection P text_of endpoint received_at inspection =
     thenS (note_inspection inspection)
       (publish_raw P (reading ''Inspector01.BottleInspection'' (VStr (text_of inspection)) TString Good endpoint
          (bi_inspected_at inspection) (bi_inspected_at inspection) received_at))"

definition modbus_round ::
  "'e subscriber_platform \<Rightarrow> 'e modbus_reader \<Rightarrow> (bottle_inspection \<Rightarrow> string) \<Rightarrow> bool \<Rightarrow> register_map \<Rightarrow> int \<Rightarrow> int
   \<Rightarrow> ('e subscriber, unit) act" where
  "modbus_round P R text_of durable cfg start n =
     bindS (read_or_fail R start n ''Modbus read failed'') (\<lambda>registers.
     bindS (now_step (sp_backend P)) (\<lambda>now.
     thenS (each (publish_register P (rm_endpoint cfg) start registers (utc now)) (rm_registers cfg))
       (case rm_inspection_address cfg of
          None \<Rightarrow> retS ()
        | Some address \<Rightarrow>
            bindS (if durable then read_or_fail R 60 10 ''retained inspection unavailable''
                   else retS (take 10 (drop (nat (address - start)) registers))) (\<lambda>snapshot.
            bindS (liftS (decode_inspection snapshot)) (\<lambda>inspection.
              case inspection of
                None \<Rightarrow> retS ()
              | Some e \<Rightarrow> publish_inspection P text_of (rm_endpoint cfg) (utc now) e)))))"

definition modbus_poll_loop ::
  "nat \<Rightarrow> 'e subscriber_platform \<Rightarrow> 'e modbus_reader \<Rightarrow> (bottle_inspection \<Rightarrow> string) \<Rightarrow> bool \<Rightarrow> register_map
   \<Rightarrow> ('e subscriber, unit) act" where
  "modbus_poll_loop fuel P R text_of durable cfg =
     bindS (liftS (read_span cfg)) (\<lambda>(start, n).
       thenS (mr_open R)
         (finallyS (thenS begin_epoch_step (thenS (connected True)
            (rounds fuel (modbus_round P R text_of durable cfg start n))))
           (mr_close R)))"

definition modbus_produce ::
  "nat \<Rightarrow> nat \<Rightarrow> 'e subscriber_platform \<Rightarrow> 'e modbus_reader \<Rightarrow> (bottle_inspection \<Rightarrow> string) \<Rightarrow> bool \<Rightarrow> string \<Rightarrow> register_map
   \<Rightarrow> ('e subscriber, unit) act" where
  "modbus_produce connections fuel P R text_of durable source_id cfg =
     bindS (liftS (positions_new source_id)) (\<lambda>p.
     thenS (putS (\<lambda>w. w\<lparr>su_positions := Some p\<rparr>))
       (reconnecting connections (modbus_poll_loop fuel P R text_of durable cfg)))"

definition modbus_run ::
  "nat \<Rightarrow> nat \<Rightarrow> 'e subscriber_platform \<Rightarrow> 'e modbus_reader \<Rightarrow> (bottle_inspection \<Rightarrow> string) \<Rightarrow> bool \<Rightarrow> string \<Rightarrow> string
   \<Rightarrow> register_map \<Rightarrow> ('e subscriber, unit) act" where
  "modbus_run connections fuel P R text_of durable receipt_key source_id cfg =
     thenS (whenS durable (liftS (bindE (require_key receipt_key) (\<lambda>_. Inr ()))))
       (modbus_produce connections fuel P R text_of durable source_id cfg)"

subsection \<open>Receipts\<close>

text \<open>
  \<open>_receipts\<close>, per message: the receipts of the consumer are forwarded to the device in registers 70 to 74, once they match
  the event at the head of its outbox in registers 60 to 69. \<open>'w\<close> is the world of the device.
\<close>

record 'w native_registers =
  nr_read :: "nat \<Rightarrow> nat \<Rightarrow> ('w, int list option) act"
  nr_write :: "nat \<Rightarrow> int list \<Rightarrow> ('w, bool) act"

definition receipt_registers :: "bottle_inspection \<Rightarrow> int list res" where
  "receipt_registers head =
     bindE (split_inspection_id (bi_inspection_id head)) (\<lambda>(session, seq).
     bindE (int16 session) (\<lambda>bits.
     bindE (int16 seq) (\<lambda>n. Inr (map (reg16 bits) [48, 32, 16, 0] @ [n]))))"

definition forward_receipt ::
  "crypto \<Rightarrow> string \<Rightarrow> 'w native_registers \<Rightarrow> inspection_receipt res \<Rightarrow> ('w, unit) act" where
  "forward_receipt C key R message =
     exceptS
       (bindS (liftS message) (\<lambda>receipt.
        bindS (nr_read R 60 10) (\<lambda>reply.
        case reply of
          None \<Rightarrow> raiseS (ConnectionError ''source head unavailable'')
        | Some registers \<Rightarrow>
            bindS (liftS (decode_inspection registers)) (\<lambda>head.
            case head of
              None \<Rightarrow> retS ()
            | Some e \<Rightarrow>
                thenS (liftS (verify_receipt C receipt e key ''decision-agent-stub''))
                (bindS (liftS (receipt_registers e)) (\<lambda>values.
                 bindS (nr_write R 70 values) (\<lambda>done.
                   guardS done (ConnectionError ''source receipt write failed''))))))))
       (\<lambda>e. retS ()) retS"

section \<open>S7\<close>

record 'e s7_reader =
  sr_connect :: "('e subscriber, unit) act"
  sr_disconnect :: "'e subscriber \<Rightarrow> 'e subscriber"
  sr_read :: "int \<Rightarrow> int \<Rightarrow> ('e subscriber, int list) act"

record s7_signal =
  sg_offset :: nat
  sg_real :: bool
  sg_alias :: string
  sg_value_type :: value_type

record s7_block =
  sb_db :: int
  sb_size :: int
  sb_signals :: "s7_signal list"

record s7_unit_map =
  um_endpoint :: string
  um_blocks :: "s7_block list"

definition decode_real :: "int list \<Rightarrow> nat \<Rightarrow> pyfloat res" where
  "decode_real buf offset = bindE (get_bytes buf offset 4) (\<lambda>bs. Inr (unpack_single bs))"

definition decode_int :: "int list \<Rightarrow> nat \<Rightarrow> int res" where
  "decode_int buf offset = bindE (get_bytes buf offset 2) (\<lambda>bs. Inr (unpack_short bs))"

definition s7_value :: "int list \<Rightarrow> s7_signal \<Rightarrow> signal_value res" where
  "s7_value data sig =
     (if sg_real sig then bindE (decode_real data (sg_offset sig)) (\<lambda>x. Inr (VFloat x))
      else bindE (decode_int data (sg_offset sig)) (\<lambda>n. Inr (VInt n)))"

text \<open>The S7 and the OPC UA service have copies of their own of the shared functions.\<close>

definition s7_raw_envelope :: "string \<Rightarrow> signal_value \<Rightarrow> value_type \<Rightarrow> string \<Rightarrow> datetime \<Rightarrow> raw_signal" where
  "s7_raw_envelope alias v t endpoint received_at = build_raw_envelope alias v t endpoint received_at"

definition s7_wrap :: "'e subscriber_platform \<Rightarrow> raw_signal \<Rightarrow> ('e subscriber, tel_payload nats_envelope) act" where
  "s7_wrap P raw = wrap_in_nats_envelope P raw"

definition s7_publish :: "'e subscriber_platform \<Rightarrow> tel_payload nats_envelope \<Rightarrow> ('e subscriber, unit) act" where
  "s7_publish P envelope = publish_reading P envelope"

definition s7_publish_signal ::
  "'e subscriber_platform \<Rightarrow> string \<Rightarrow> int list \<Rightarrow> datetime \<Rightarrow> s7_signal \<Rightarrow> ('e subscriber, unit) act" where
  "s7_publish_signal P endpoint data received_at sig =
     bindS (liftS (s7_value data sig)) (\<lambda>v.
     bindS (s7_wrap P (s7_raw_envelope (sg_alias sig) v (sg_value_type sig) endpoint received_at)) (s7_publish P))"

definition s7_round :: "'e subscriber_platform \<Rightarrow> 'e s7_reader \<Rightarrow> s7_unit_map \<Rightarrow> ('e subscriber, unit) act" where
  "s7_round P R cfg =
     bindS (now_step (sp_backend P)) (\<lambda>now.
       each (\<lambda>block. bindS (sr_read R (sb_db block) (sb_size block)) (\<lambda>data.
               each (s7_publish_signal P (um_endpoint cfg) data (utc now)) (sb_signals block)))
         (um_blocks cfg))"

definition s7_poll_loop :: "nat \<Rightarrow> 'e subscriber_platform \<Rightarrow> 'e s7_reader \<Rightarrow> s7_unit_map \<Rightarrow> ('e subscriber, unit) act" where
  "s7_poll_loop fuel P R cfg =
     thenS (sr_connect R) (thenS begin_epoch_step (thenS (connected True)
       (finallyS (rounds fuel (s7_round P R cfg)) (sr_disconnect R))))"

definition s7_produce ::
  "nat \<Rightarrow> nat \<Rightarrow> 'e subscriber_platform \<Rightarrow> 'e s7_reader \<Rightarrow> string \<Rightarrow> s7_unit_map \<Rightarrow> ('e subscriber, unit) act" where
  "s7_produce connections fuel P R source_id cfg =
     bindS (liftS (positions_new source_id)) (\<lambda>p.
     thenS (putS (\<lambda>w. w\<lparr>su_positions := Some p\<rparr>)) (reconnecting connections (s7_poll_loop fuel P R cfg)))"

section \<open>OPC UA\<close>

text \<open>A data value: the class of its status code and its two timestamps, if they are any.\<close>

record data_value =
  dv_bad :: bool
  dv_uncertain :: bool
  dv_source :: "datetime option"
  dv_server :: "datetime option"

fun detect_value_type :: "signal_value \<Rightarrow> value_type" where
  "detect_value_type (VBool _) = TBool"
| "detect_value_type (VInt _) = TInt64"
| "detect_value_type (VFloat _) = TDouble"
| "detect_value_type (VStr _) = TString"

definition status_quality :: "data_value \<Rightarrow> quality" where
  "status_quality dv = (if dv_bad dv then Bad else if dv_uncertain dv then Uncertain else Good)"

definition stamp_or_now :: "'e subscriber_platform \<Rightarrow> datetime option \<Rightarrow> ('e subscriber, datetime) act" where
  "stamp_or_now P stamp =
     (case stamp of
        None \<Rightarrow> bindS (now_step (sp_backend P)) (\<lambda>t. retS (utc t))
      | Some t \<Rightarrow> retS (if aware t then t else as_utc t))"

text \<open>A value that is neither a number nor a string (\<open>None\<close>) is refused by the model of the envelope.\<close>

definition opcua_raw_envelope ::
  "'e subscriber_platform \<Rightarrow> string \<Rightarrow> signal_value option \<Rightarrow> string \<Rightarrow> data_value \<Rightarrow> ('e subscriber, raw_signal) act" where
  "opcua_raw_envelope P alias val endpoint dv =
     bindS (stamp_or_now P (dv_source dv)) (\<lambda>source_at.
     bindS (stamp_or_now P (dv_server dv)) (\<lambda>server_at.
     bindS (now_step (sp_backend P)) (\<lambda>now.
       case val of
         None \<Rightarrow> raiseS (ValidationError ''RawSignalEnvelope'')
       | Some v \<Rightarrow> retS (reading alias v (detect_value_type v) (status_quality dv) endpoint source_at server_at (utc now)))))"

text \<open>The handler of one connection: the alias of each subscribed node and the epoch begun for it.\<close>

record change_handler =
  ch_alias :: "(string \<times> string) list"
  ch_endpoint :: string
  ch_epoch :: "int option"

definition opcua_wrap :: "'e subscriber_platform \<Rightarrow> raw_signal \<Rightarrow> ('e subscriber, tel_payload nats_envelope) act" where
  "opcua_wrap P raw = wrap_in_nats_envelope P raw"

definition opcua_publish :: "'e subscriber_platform \<Rightarrow> tel_payload nats_envelope \<Rightarrow> ('e subscriber, unit) act" where
  "opcua_publish P envelope = publish_reading P envelope"

definition on_message :: "'e subscriber_platform \<Rightarrow> change_handler \<Rightarrow> tel_payload nats_envelope \<Rightarrow> ('e subscriber, unit) act" where
  "on_message P h envelope =
     bindS (getS su_positions) (\<lambda>positions.
       if (case positions of None \<Rightarrow> False | Some p \<Rightarrow> Some (pp_epoch p) \<noteq> ch_epoch h)
       then raiseS (RuntimeError ''old OPC UA connection fenced'')
       else opcua_publish P envelope)"

definition datachange_notification ::
  "'e subscriber_platform \<Rightarrow> change_handler \<Rightarrow> string \<Rightarrow> signal_value option \<Rightarrow> data_value \<Rightarrow> ('e subscriber, unit) act" where
  "datachange_notification P h node val dv =
     (case map_of (rev (ch_alias h)) node of
        None \<Rightarrow> retS ()
      | Some alias \<Rightarrow>
          exceptS (bindS (opcua_raw_envelope P alias val (ch_endpoint h) dv) (\<lambda>raw.
                   bindS (opcua_wrap P raw) (on_message P h)))
            (\<lambda>e. retS ()) retS)"

record 'e opcua_reader =
  or_open :: "('e subscriber, unit) act"
  or_close :: "'e subscriber \<Rightarrow> 'e subscriber"
  or_namespace :: "string \<Rightarrow> ('e subscriber, int) act"
  or_child :: "(int \<times> string) list \<Rightarrow> ('e subscriber, string) act"
  or_subscribe :: "string list \<Rightarrow> ('e subscriber, unit) act"

record opcua_node_list =
  ol_endpoint :: string
  ol_namespace_uri :: string
  ol_nodes :: "(string list \<times> string) list"

fun find_nodes :: "'e opcua_reader \<Rightarrow> int \<Rightarrow> (string list \<times> string) list \<Rightarrow> ('e subscriber, (string \<times> string) list) act" where
  "find_nodes R ns [] = retS []"
| "find_nodes R ns ((names, alias) # nodes) =
     bindS (or_child R (map (Pair ns) names)) (\<lambda>node.
     bindS (find_nodes R ns nodes) (\<lambda>found. retS ((node, alias) # found)))"

text \<open>\<open>_subscribe_loop\<close> up to its wait; the end of the wait is \<open>opcua_disconnect\<close>.\<close>

definition opcua_subscribe :: "'e opcua_reader \<Rightarrow> opcua_node_list \<Rightarrow> ('e subscriber, change_handler) act" where
  "opcua_subscribe R cfg =
     bindS (or_namespace R (ol_namespace_uri cfg)) (\<lambda>ns.
     bindS (find_nodes R ns (ol_nodes cfg)) (\<lambda>found.
     thenS begin_epoch_step
     (bindS (getS (\<lambda>w. map_option pp_epoch (su_positions w))) (\<lambda>epoch.
      thenS (or_subscribe R (map fst found))
        (thenS (connected True)
          (retS \<lparr>ch_alias = found, ch_endpoint = ol_endpoint cfg, ch_epoch = epoch\<rparr>))))))"

definition opcua_disconnect :: "'e opcua_reader \<Rightarrow> ('e subscriber, unit) act" where
  "opcua_disconnect R = thenS (putS (or_close R)) (connected False)"

definition opcua_connect :: "'e opcua_reader \<Rightarrow> opcua_node_list \<Rightarrow> ('e subscriber, change_handler option) act" where
  "opcua_connect R cfg =
     exceptS (thenS (or_open R)
               (tryS (opcua_subscribe R cfg) (\<lambda>e. thenS (putS (or_close R)) (raiseS e)) (\<lambda>h. retS (Some h))))
       (\<lambda>e. thenS (connected False) (retS None)) retS"
lemmas copies = s7_raw_envelope_def s7_wrap_def s7_publish_def opcua_wrap_def opcua_publish_def

lemma s7_publish_signal_eq:
  "s7_publish_signal P endpoint data received_at sig =
     bindS (liftS (s7_value data sig)) (\<lambda>v.
       publish_raw P (build_raw_envelope (sg_alias sig) v (sg_value_type sig) endpoint received_at))"
  unfolding s7_publish_signal_def publish_raw_def copies ..

end
