(* ===== verification/Subscriber_Runs.thy ===== *)
theory Subscriber_Runs
  imports Data_Subscribers
begin

text \<open>
  The positions the data subscribers publish: however readings, clients and the bus fail and
  however often a connection is made again, the positions of a node go strictly up, and an OPC UA
  connection that was replaced publishes nothing.
\<close>

section \<open>Positions sent\<close>

definition position_sent :: "tel_payload nats_envelope \<Rightarrow> (string \<times> source_position) option" where
  "position_sent e =
     (case env_payload e of Some (TRaw r) \<Rightarrow> map_option (Pair (rs_node_id r)) (rs_position r) | _ \<Rightarrow> None)"

definition sent_positions :: "string \<Rightarrow> (string \<times> tel_payload nats_envelope) list \<Rightarrow> source_position list" where
  "sent_positions node sent = map snd (filter (\<lambda>np. fst np = node) (List.map_filter (\<lambda>m. position_sent (snd m)) sent))"

definition at_most :: "int \<times> int \<Rightarrow> int \<times> int \<Rightarrow> bool" where
  "at_most a b \<longleftrightarrow> a = b \<or> pos_less a b"

lemma at_most_less: "at_most a b \<Longrightarrow> pos_less b c \<Longrightarrow> pos_less a c"
  by (auto simp: at_most_def intro: pos_less_trans)

lemma at_most_trans: "at_most a b \<Longrightarrow> at_most b c \<Longrightarrow> at_most a c"
  by (auto simp: at_most_def intro: pos_less_trans)

lemma at_most_refl [simp]: "at_most a a"
  by (simp add: at_most_def)

text \<open>Positions above those of the database at the start, in order, and none above the mark.\<close>

definition in_order :: "positions_db \<Rightarrow> string \<Rightarrow> positions_db \<Rightarrow> (string \<times> tel_payload nats_envelope) list \<Rightarrow> bool" where
  "in_order db0 ident db sent \<longleftrightarrow>
     (\<forall>node. sorted_wrt (\<lambda>p q. pos_less (pos_key p) (pos_key q)) (sent_positions node sent) \<and>
        at_most (high_mark db0 ident node) (high_mark db ident node) \<and>
        (\<forall>p \<in> set (sent_positions node sent). source_position_ok p \<and> sp_producer p = ident @ CHR ''/'' # node \<and>
           pos_less (high_mark db0 ident node) (pos_key p) \<and> at_most (pos_key p) (high_mark db ident node)))"

definition positions_inv :: "positions_db \<Rightarrow> string \<Rightarrow> 'e subscriber \<Rightarrow> bool" where
  "positions_inv db0 ident w \<longleftrightarrow>
     (\<forall>p. su_positions w = Some p \<longrightarrow> pp_producer p = ident) \<and> in_order db0 ident (su_db w) (sv_sent w)"

lemma sent_positions_append:
  "sent_positions node (sent @ [(s, e)]) =
     sent_positions node sent @
     (case position_sent e of None \<Rightarrow> [] | Some (n, p) \<Rightarrow> if n = node then [p] else [])"
  by (auto simp: sent_positions_def map_filter_def split: option.split)

lemma in_order_raise:
  assumes "in_order db0 ident db sent" "\<And>node. at_most (high_mark db ident node) (high_mark db' ident node)"
  shows "in_order db0 ident db' sent"
  using assms unfolding in_order_def by (meson at_most_trans)

lemma in_order_none:
  "in_order db0 ident db sent \<Longrightarrow> position_sent e = None \<Longrightarrow> in_order db0 ident db (sent @ [(s, e)])"
  by (simp add: in_order_def sent_positions_append)

lemma next_marks:
  assumes "next_position p db node None = (db', r)" and "pp_producer p = ident"
  shows "at_most (high_mark db ident n) (high_mark db' ident n)"
proof (cases r)
  case (Inl e)
  then show ?thesis using next_position_Inl assms by fastforce
next
  case (Inr pos)
  show ?thesis
  proof (cases "n = node")
    case True
    then show ?thesis using next_position_mark [of p db node None db' pos] assms Inr by (simp add: at_most_def)
  next
    case False
    then show ?thesis using assms Inr by (simp add: next_position_Inr high_mark_def)
  qed
qed

lemma in_order_next:
  assumes o: "in_order db0 ident db sent" and n: "next_position p db node None = (db', Inr pos)"
    and p: "pp_producer p = ident" "source_position_ok pos" and e: "position_sent e = Some (node, pos) \<or> position_sent e = None"
  shows "in_order db0 ident db' (sent @ [(s, e)])"
proof (cases "position_sent e = None")
  case True
  then show ?thesis using in_order_none in_order_raise [OF o next_marks [OF n p(1)]] by blast
next
  case False
  then have e: "position_sent e = Some (node, pos)" using assms(5) by (elim disjE) simp_all
  have m: "pos_less (high_mark db ident node) (pos_key pos)" "high_mark db' ident node = pos_key pos"
    using next_position_mark [OF n] p(1) by auto
  have "sp_producer pos = ident @ CHR ''/'' # node" using n p(1) by (simp add: next_position_Inr)
  moreover have "pos_less (pos_key q) (pos_key pos)" if "q \<in> set (sent_positions node sent)" for q
    using o that m(1) at_most_less unfolding in_order_def by blast
  moreover have "pos_less (high_mark db0 ident node) (pos_key pos)"
    using o m(1) at_most_less unfolding in_order_def by blast
  moreover have "in_order db0 ident db' sent" by (rule in_order_raise [OF o next_marks [OF n p(1)]])
  ultimately show ?thesis using e m(2) p(2) by (auto simp: in_order_def sent_positions_append sorted_wrt_append)
qed

section \<open>Steps\<close>

lemma inv_frame:
  "positions_inv db0 ident w \<Longrightarrow> su_positions w' = su_positions w \<Longrightarrow> su_db w' = su_db w \<Longrightarrow> sv_sent w' = sv_sent w \<Longrightarrow>
     positions_inv db0 ident w'"
  by (simp add: positions_inv_def)

text \<open>A device client changes nothing of the subscriber but the environment.\<close>

definition env_only :: "('e subscriber, 'a) act \<Rightarrow> bool" where
  "env_only m \<longleftrightarrow> (\<forall>w w' r. m w = (w', r) \<longrightarrow> (\<exists>e. w' = w\<lparr>sv_env := e\<rparr>))"

lemma env_onlyD:
  assumes "env_only m" "m w = (w', r)"
  shows "su_positions w' = su_positions w \<and> su_db w' = su_db w \<and> sv_sent w' = sv_sent w"
proof -
  obtain e where "w' = w\<lparr>sv_env := e\<rparr>" using assms unfolding env_only_def by blast
  then show ?thesis by simp
qed

lemma keepsI: "(\<And>w w' r. I w \<Longrightarrow> m w = (w', r) \<Longrightarrow> I w') \<Longrightarrow> keeps I m"
  unfolding keeps_def by (metis prod.collapse)

lemma keeps_env_only:
  assumes "env_only m" shows "keeps (positions_inv db0 ident) m"
proof (rule keepsI)
  fix w w' r
  assume "positions_inv db0 ident w" "m w = (w', r)"
  with env_onlyD [OF assms, of w w' r] show "positions_inv db0 ident w'" by (auto intro: inv_frame)
qed

lemma keeps_now [edge_intros]: "keeps (positions_inv db0 ident) (now_step B)"
  by (auto simp: keeps_def positions_inv_def now_step_def split: prod.splits)

lemma wrap_frame:
  "wrap_in_nats_envelope P raw w = (w', r) \<Longrightarrow>
     su_positions w' = su_positions w \<and> su_db w' = su_db w \<and> sv_sent w' = sv_sent w \<and>
     (\<forall>e. r = Inr e \<longrightarrow> env_payload e = Some (TRaw raw))"
  by (auto simp: wrap_in_nats_envelope_def validate_envelope_def split: prod.splits if_splits)

lemma keeps_wrap [edge_intros]: "keeps (positions_inv db0 ident) (wrap_in_nats_envelope P raw)"
proof (rule keepsI)
  fix w w' r
  assume "positions_inv db0 ident w" "wrap_in_nats_envelope P raw w = (w', r)"
  with wrap_frame [of P raw w w' r] show "positions_inv db0 ident w'" by (auto intro: inv_frame)
qed

lemma begin_marks: "begin_epoch p db = (p', db') \<Longrightarrow> at_most (high_mark db i node) (high_mark db' i node)"
  by (cases "i = pp_producer p")
    (auto simp: at_most_def begin_epoch_mark, auto simp: begin_epoch_def Let_def high_mark_def)

lemma keeps_begin_epoch [edge_intros]: "keeps (positions_inv db0 ident) begin_epoch_step"
  unfolding begin_epoch_step_def
proof (rule keeps_putS)
  fix w :: "'e subscriber"
  assume inv: "positions_inv db0 ident w"
  show "positions_inv db0 ident (case su_positions w of None \<Rightarrow> w
      | Some p \<Rightarrow> (case begin_epoch p (su_db w) of (p', db) \<Rightarrow> w\<lparr>su_positions := Some p', su_db := db\<rparr>))"
  proof (cases "su_positions w")
    case (Some p)
    obtain p' db where b: "begin_epoch p (su_db w) = (p', db)" by fastforce
    then have "pp_producer p' = pp_producer p" by (auto simp: begin_epoch_def Let_def)
    moreover have "in_order db0 ident db (sv_sent w)"
      by (rule in_order_raise [OF _ begin_marks [OF b]]) (use inv in \<open>simp add: positions_inv_def\<close>)
    ultimately show ?thesis using inv Some b by (simp add: positions_inv_def)
  qed (use inv in simp)
qed

text \<open>A reading without a position of its own gets one above all that were sent.\<close>

lemma on_wire_raw: "position_sent (wire_envelope (e\<lparr>env_payload := Some (TRaw r)\<rparr>)) =
    (if lost_value (rs_value r) then None else map_option (Pair (rs_node_id r)) (rs_position r))"
  by (simp add: position_sent_def wire_envelope_def)

lemma send_cases:
  "send_step B subject m w = (w', r) \<Longrightarrow>
     (\<exists>e. w' = w\<lparr>sv_env := e\<rparr>) \<or> (\<exists>e. w' = w\<lparr>sv_env := e, sv_sent := sv_sent w @ [(subject, m)]\<rparr>)"
  by (auto simp: send_step_def split: prod.splits option.splits)

lemma send_inv:
  assumes "send_step B subject m w = (w', r)" "positions_inv db0 ident w"
    and "in_order db0 ident (su_db w) (sv_sent w @ [(subject, m)])"
  shows "positions_inv db0 ident w'"
  using send_cases [OF assms(1)] assms(2,3) by (auto simp: positions_inv_def)

lemma publish_reading_inv:
  assumes inv: "positions_inv db0 ident w" and p: "publish_reading P e w = (w', r)"
    and e: "env_payload e = Some (TRaw raw)" "rs_position raw = None"
  shows "positions_inv db0 ident w'"
proof (cases "su_positions w")
  case None
  have "wire_envelope e = wire_envelope (e\<lparr>env_payload := Some (TRaw raw)\<rparr>)" using e(1) by (cases e) simp
  then have none: "position_sent (wire_envelope e) = None" using e(2) by (simp only: on_wire_raw) simp
  have "send_step (sp_backend P) ''uns.ingress.raw'' (wire_envelope e) w = (w', r)"
    using p None by (simp add: publish_reading_def)
  then show ?thesis using send_inv [OF _ inv in_order_none] inv none unfolding positions_inv_def by metis
next
  case (Some q)
  show ?thesis
  proof (cases "raw_signal_ok raw")
    case False
    then show ?thesis using p inv Some e(1) by (auto simp: publish_reading_def bindS_def)
  next
    case True
    obtain db n where n: "next_position q (su_db w) (rs_node_id raw) None = (db, n)" by fastforce
    have q: "pp_producer q = ident" using inv Some by (simp add: positions_inv_def)
    have raised: "positions_inv db0 ident (w\<lparr>su_db := db\<rparr>)"
      using inv in_order_raise [OF _ next_marks [OF n q]] by (simp add: positions_inv_def)
    show ?thesis
    proof (cases "\<exists>pos. n = Inr pos \<and> source_position_ok pos")
      case False
      then have "w' = w\<lparr>su_db := db\<rparr>"
        using p Some True e(1) n by (auto simp: publish_reading_def bindS_def next_step_def bindE_def split: sum.splits if_splits)
      then show ?thesis using raised by simp
    next
      case ok: True
      then obtain pos where pos: "n = Inr pos" "source_position_ok pos" by blast
      let ?e = "e\<lparr>env_payload := Some (TRaw (raw\<lparr>rs_position := Some pos\<rparr>))\<rparr>"
      have s: "send_step (sp_backend P) ''uns.ingress.raw'' (wire_envelope ?e) (w\<lparr>su_db := db\<rparr>) = (w', r)"
        using p Some True e(1) n pos by (simp add: publish_reading_def bindS_def next_step_def)
      have "in_order db0 ident db (sv_sent w @ [(''uns.ingress.raw'', wire_envelope ?e)])"
        by (rule in_order_next [OF _ n [unfolded pos(1)] q pos(2)])
           (use inv in \<open>simp_all add: positions_inv_def on_wire_raw\<close>)
      then show ?thesis using send_inv [OF s raised] by simp
    qed
  qed
qed

lemma publish_raw_inv [edge_intros]:
  assumes "rs_position raw = None" shows "keeps (positions_inv db0 ident) (publish_raw P raw)"
  unfolding keeps_def
proof (intro allI impI)
  fix w :: "'a subscriber"
  assume inv: "positions_inv db0 ident w"
  obtain w1 r where w: "wrap_in_nats_envelope P raw w = (w1, r)" by fastforce
  have inv1: "positions_inv db0 ident w1" using keeps_wrap inv w by (rule keepsD)
  show "positions_inv db0 ident (fst (publish_raw P raw w))"
  proof (cases r)
    case (Inl e)
    then show ?thesis using w inv1 by (simp add: publish_raw_def bindS_def)
  next
    case (Inr e)
    obtain w2 r2 where p: "publish_reading P e w1 = (w2, r2)" by fastforce
    have "env_payload e = Some (TRaw raw)" using wrap_frame [OF w] Inr by simp
    from publish_reading_inv [OF inv1 p this assms] show ?thesis using w Inr p by (simp add: publish_raw_def bindS_def)
  qed
qed

lemma keeps_connected [edge_intros]: "keeps (positions_inv db0 ident) (connected up)"
  unfolding connected_def by (rule keeps_putS) (simp add: positions_inv_def)

lemma keeps_each: "(\<And>x. keeps I (f x)) \<Longrightarrow> keeps I (each f xs)"
  by (induction xs) (auto intro: edge_intros)

lemma keeps_rounds: "keeps I m \<Longrightarrow> keeps I (rounds n m)"
  by (induction n) (auto intro: edge_intros)

lemma keeps_reconnecting: "keeps (positions_inv db0 ident) m \<Longrightarrow> keeps (positions_inv db0 ident) (reconnecting n m)"
  unfolding reconnecting_def by (intro keeps_rounds edge_intros)

lemma keeps_note [edge_intros]: "keeps (positions_inv db0 ident) (note_inspection e)"
  unfolding note_inspection_def Let_def
  by (intro edge_intros keeps_putS) (simp_all add: positions_inv_def)

section \<open>Modbus and S7\<close>

definition modbus_reader_ok :: "'e modbus_reader \<Rightarrow> bool" where
  "modbus_reader_ok R \<longleftrightarrow>
     env_only (mr_open R) \<and> (\<forall>w. \<exists>e. mr_close R w = w\<lparr>sv_env := e\<rparr>) \<and> (\<forall>a n. env_only (mr_read R a n))"

definition s7_reader_ok :: "'e s7_reader \<Rightarrow> bool" where
  "s7_reader_ok R \<longleftrightarrow>
     env_only (sr_connect R) \<and> (\<forall>w. \<exists>e. sr_disconnect R w = w\<lparr>sv_env := e\<rparr>) \<and> (\<forall>db n. env_only (sr_read R db n))"

lemma keeps_closing:
  fixes m :: "('e subscriber, 'a) act"
  assumes "keeps (positions_inv db0 ident) m" "\<forall>w. \<exists>e. close w = w\<lparr>sv_env := e\<rparr>"
  shows "keeps (positions_inv db0 ident) (finallyS m close)"
proof (rule keeps_finallyS [OF assms(1)])
  fix w :: "'e subscriber"
  assume "positions_inv db0 ident w"
  moreover obtain e where "close w = w\<lparr>sv_env := e\<rparr>" using assms(2) by blast
  ultimately show "positions_inv db0 ident (close w)" by (auto intro: inv_frame)
qed

lemma position_free [simp]:
  "rs_position (build_raw_envelope a v t s r) = None" "rs_position (reading a v t q s x y z) = None"
  by (simp_all add: build_raw_envelope_def reading_def)

lemma keeps_read [edge_intros]:
  "modbus_reader_ok R \<Longrightarrow> keeps (positions_inv db0 ident) (read_or_fail R a n why)"
  unfolding read_or_fail_def modbus_reader_ok_def by (intro edge_intros keeps_env_only) simp_all

lemma keeps_modbus_round:
  "modbus_reader_ok R \<Longrightarrow> keeps (positions_inv db0 ident) (modbus_round P R text_of durable cfg start n)"
  unfolding modbus_round_def publish_register_def publish_inspection_def
  by (intro edge_intros keeps_each) simp_all

lemma keeps_modbus_loop:
  assumes "modbus_reader_ok R"
  shows "keeps (positions_inv db0 ident) (modbus_poll_loop fuel P R text_of durable cfg)"
  unfolding modbus_poll_loop_def
  by (intro edge_intros keeps_closing keeps_rounds keeps_modbus_round keeps_env_only assms)
     (use assms in \<open>simp_all add: modbus_reader_ok_def\<close>)

lemma keeps_s7_loop:
  assumes "s7_reader_ok R"
  shows "keeps (positions_inv db0 ident) (s7_poll_loop fuel P R cfg)"
  unfolding s7_poll_loop_def s7_round_def s7_publish_signal_eq
  by (intro edge_intros keeps_closing keeps_rounds keeps_each keeps_env_only)
     (use assms in \<open>simp_all add: s7_reader_ok_def\<close>)

lemma new_inv: "positions_inv db ident (subscriber_new e t db)"
  by (simp add: positions_inv_def in_order_def sent_positions_def subscriber_new_def map_filter_def)

lemma keeps_identity:
  "positions_new ident = Inr p \<Longrightarrow> keeps (positions_inv db0 ident) (putS (\<lambda>w. w\<lparr>su_positions := Some p\<rparr>))"
  by (rule keeps_putS) (auto simp: positions_inv_def positions_new_def split: if_splits)

lemma keeps_produce:
  assumes "\<And>ident. keeps (positions_inv db0 ident) loop"
  shows "keeps (positions_inv db0 ident) (bindS (liftS (positions_new ident)) (\<lambda>p.
      thenS (putS (\<lambda>w. w\<lparr>su_positions := Some p\<rparr>)) (reconnecting n loop)))"
proof (cases "positions_new ident")
  case (Inr p)
  show ?thesis unfolding Inr bindS_simps by (intro edge_intros keeps_identity [OF Inr] keeps_reconnecting assms)
qed (simp add: edge_intros)

definition published_in_order :: "positions_db \<Rightarrow> string \<Rightarrow> 'e subscriber \<Rightarrow> bool" where
  "published_in_order db0 ident w \<longleftrightarrow>
     (\<forall>node. sorted_wrt (\<lambda>p q. pos_less (pos_key p) (pos_key q)) (sent_positions node (sv_sent w)) \<and>
        (\<forall>p \<in> set (sent_positions node (sv_sent w)).
           source_position_ok p \<and> sp_producer p = ident @ CHR ''/'' # node \<and> pos_less (high_mark db0 ident node) (pos_key p)))"

lemma inv_published: "positions_inv db0 ident w \<Longrightarrow> published_in_order db0 ident w"
  by (auto simp: positions_inv_def in_order_def published_in_order_def)

section \<open>OPC UA\<close>

definition opcua_reader_ok :: "'e opcua_reader \<Rightarrow> bool" where
  "opcua_reader_ok R \<longleftrightarrow>
     env_only (or_open R) \<and> (\<forall>w. \<exists>e. or_close R w = w\<lparr>sv_env := e\<rparr>) \<and> (\<forall>uri. env_only (or_namespace R uri)) \<and>
     (\<forall>path. env_only (or_child R path)) \<and> (\<forall>nodes. env_only (or_subscribe R nodes))"

text \<open>
  A run: connections are made or fail, end, and every handler ever created may still be called,
  with any node and value. The newest handler is first.
\<close>

inductive opcua_run ::
  "'e subscriber_platform \<Rightarrow> 'e opcua_reader \<Rightarrow> opcua_node_list \<Rightarrow> positions_db \<Rightarrow> string \<Rightarrow> 'e subscriber
   \<Rightarrow> change_handler list \<Rightarrow> bool" for P R cfg db0 ident where
  or_start: "positions_new ident = Inr p \<Longrightarrow> opcua_run P R cfg db0 ident ((subscriber_new e t db0)\<lparr>su_positions := Some p\<rparr>) []"
| or_connect: "opcua_run P R cfg db0 ident w hs \<Longrightarrow> opcua_connect R cfg w = (w', Inr h) \<Longrightarrow>
    opcua_run P R cfg db0 ident w' ((case h of None \<Rightarrow> [] | Some h \<Rightarrow> [h]) @ hs)"
| or_disconnect: "opcua_run P R cfg db0 ident w hs \<Longrightarrow> opcua_disconnect R w = (w', r) \<Longrightarrow> opcua_run P R cfg db0 ident w' hs"
| or_change: "opcua_run P R cfg db0 ident w hs \<Longrightarrow> h \<in> set hs \<Longrightarrow> datachange_notification P h node v dv w = (w', r) \<Longrightarrow>
    opcua_run P R cfg db0 ident w' hs"

text \<open>The epoch of the subscriber and of the database; a handler holds an epoch at most as new.\<close>

abbreviation db_epoch :: "positions_db \<Rightarrow> string \<Rightarrow> int" where
  "db_epoch db ident \<equiv> (case pd_epoch db ident of None \<Rightarrow> 0 | Some e \<Rightarrow> e)"

definition epoch_inv :: "string \<Rightarrow> change_handler list \<Rightarrow> 'e subscriber \<Rightarrow> bool" where
  "epoch_inv ident hs w \<longleftrightarrow>
     (\<exists>p. su_positions w = Some p \<and> pp_producer p = ident \<and> pp_epoch p \<le> db_epoch (su_db w) ident \<and>
        (\<forall>h \<in> set hs. \<exists>n. ch_epoch h = Some n \<and> n \<le> pp_epoch p) \<and>
        sorted_wrt (\<lambda>h g. the (ch_epoch g) < the (ch_epoch h)) hs)"

lemma epoch_frame:
  "epoch_inv ident hs w \<Longrightarrow> su_positions w' = su_positions w \<Longrightarrow> pd_epoch (su_db w') = pd_epoch (su_db w) \<Longrightarrow> epoch_inv ident hs w'"
  by (simp add: epoch_inv_def)

lemma epoch_begin:
  assumes "epoch_inv ident hs w" "begin_epoch_step w = (w', r)"
  shows "epoch_inv ident hs w' \<and> (\<exists>p. su_positions w' = Some p \<and> (\<forall>h \<in> set hs. the (ch_epoch h) < pp_epoch p))"
proof -
  obtain p where p: "su_positions w = Some p" "pp_producer p = ident" "pp_epoch p \<le> db_epoch (su_db w) ident"
      "\<forall>h \<in> set hs. \<exists>n. ch_epoch h = Some n \<and> n \<le> pp_epoch p" "sorted_wrt (\<lambda>h g. the (ch_epoch g) < the (ch_epoch h)) hs"
    using assms(1) unfolding epoch_inv_def by blast
  obtain p' db where b: "begin_epoch p (su_db w) = (p', db)" by fastforce
  have p': "pp_producer p' = ident" "pp_epoch p' = db_epoch (su_db w) ident + 1" "db_epoch db ident = pp_epoch p'"
    using b p(2) by (auto simp: begin_epoch_def Let_def split: option.splits)
  have less: "\<forall>h \<in> set hs. \<exists>n. ch_epoch h = Some n \<and> n < pp_epoch p'"
    using p(3,4) p'(2) by fastforce
  have w': "w' = w\<lparr>su_positions := Some p', su_db := db\<rparr>" using assms(2) p(1) b by (simp add: begin_epoch_step_def)
  have "epoch_inv ident hs w'"
    unfolding epoch_inv_def using less p(5) p'(1,3) by (intro exI [of _ p']) (fastforce simp: w')
  moreover have "\<forall>h \<in> set hs. the (ch_epoch h) < pp_epoch p'" using less by fastforce
  ultimately show ?thesis by (simp add: w')
qed

lemma keeps_epoch_env:
  assumes "env_only m" shows "keeps (epoch_inv ident hs) m"
proof (rule keepsI)
  fix w w' r
  assume "epoch_inv ident hs w" "m w = (w', r)"
  with env_onlyD [OF assms, of w w' r] show "epoch_inv ident hs w'" by (auto intro: epoch_frame)
qed

lemma env_only_bind:
  assumes "env_only m" "\<And>a. env_only (f a)" shows "env_only (bindS m f)"
  unfolding env_only_def
proof (intro allI impI)
  fix w w' r
  assume b: "bindS m f w = (w', r)"
  obtain w1 r1 where m: "m w = (w1, r1)" by fastforce
  then obtain e where w1: "w1 = w\<lparr>sv_env := e\<rparr>" using assms(1) unfolding env_only_def by blast
  show "\<exists>e. w' = w\<lparr>sv_env := e\<rparr>"
  proof (cases r1)
    case (Inr a)
    then have "f a w1 = (w', r)" using b m by (simp add: bindS_def)
    then obtain e' where "w' = w1\<lparr>sv_env := e'\<rparr>" using assms(2) unfolding env_only_def by blast
    then show ?thesis using w1 by (intro exI [of _ e']) simp
  qed (use b m w1 in \<open>auto simp: bindS_def\<close>)
qed

lemma env_self [simp]:
  fixes w :: "'e subscriber"
  shows "\<exists>e. w = w\<lparr>sv_env := e\<rparr>"
  by (rule exI [of _ "sv_env w"]) simp

lemma env_only_basic: "env_only (retS a)" "env_only (raiseS e)"
  by (auto simp: env_only_def retS_def raiseS_def)

lemma env_only_find: "opcua_reader_ok R \<Longrightarrow> env_only (find_nodes R ns nodes)"
  by (induction nodes) (auto intro!: env_only_bind env_only_basic simp: opcua_reader_ok_def)

lemma keeps_epoch_connected: "keeps (epoch_inv ident hs) (connected up)"
  unfolding connected_def by (rule keeps_putS) (auto intro: epoch_frame)

lemma close_env: "\<forall>w. \<exists>e. close w = w\<lparr>sv_env := e\<rparr> \<Longrightarrow> env_only (putS close)"
  by (auto simp: env_only_def putS_def)

lemma subscribe_parts:
  assumes "opcua_subscribe R cfg w = (w', r)" "opcua_reader_ok R"
  obtains (early) m e where "env_only m" "m w = (w', r)" "r = Inl e"
  | (late) w1 w2 r2 found m where "env_only m" "m w = (w1, Inr found)" "begin_epoch_step w1 = (w2, r2)"
      "thenS (or_subscribe R (map fst found)) (thenS (connected True)
          (retS \<lparr>ch_alias = found, ch_endpoint = ol_endpoint cfg, ch_epoch = map_option pp_epoch (su_positions w2)\<rparr>)) w2 = (w', r)"
proof -
  let ?m = "bindS (or_namespace R (ol_namespace_uri cfg)) (\<lambda>ns. find_nodes R ns (ol_nodes cfg))"
  have m: "env_only ?m" using assms(2) by (auto intro!: env_only_bind env_only_find simp: opcua_reader_ok_def)
  have eq: "opcua_subscribe R cfg = bindS ?m (\<lambda>found. thenS begin_epoch_step
     (bindS (getS (\<lambda>w. map_option pp_epoch (su_positions w))) (\<lambda>epoch.
      thenS (or_subscribe R (map fst found))
        (thenS (connected True)
          (retS \<lparr>ch_alias = found, ch_endpoint = ol_endpoint cfg, ch_epoch = epoch\<rparr>)))))"
    by (simp add: opcua_subscribe_def bindS_assoc)
  obtain w1 r1 where 1: "?m w = (w1, r1)" by fastforce
  show thesis
  proof (cases r1)
    case (Inl e)
    have b: "bindS ?m (\<lambda>_. raiseS e) w = (w', r)" and r: "r = Inl e"
      using assms(1) 1 Inl unfolding eq by (simp_all add: bindS_def)
    have "env_only (bindS ?m (\<lambda>_. raiseS e) :: ('a subscriber, change_handler) act)"
      by (rule env_only_bind [OF m]) (rule env_only_basic)
    then show ?thesis using b r by (rule early)
  next
    case (Inr found)
    obtain w2 r2 where "begin_epoch_step w1 = (w2, r2)" by fastforce
    moreover have "r2 = Inr ()" using calculation by (simp add: begin_epoch_step_def)
    ultimately show ?thesis using late [OF m 1 [unfolded Inr]] assms(1) 1 Inr unfolding eq by (simp add: bindS_def)
  qed
qed

lemma subscribe_epoch:
  assumes inv: "epoch_inv ident hs w" and s: "opcua_subscribe R cfg w = (w', r)" and ok: "opcua_reader_ok R"
  shows "epoch_inv ident hs w' \<and> (\<forall>h. r = Inr h \<longrightarrow> epoch_inv ident (h # hs) w')"
  using s ok
proof (cases rule: subscribe_parts)
  case (early m e)
  then show ?thesis using keepsD [OF keeps_epoch_env inv] by blast
next
  case (late w1 w2 r2 found m)
  have "epoch_inv ident hs w1" using keepsD [OF keeps_epoch_env inv] late(1,2) by blast
  from epoch_begin [OF this late(3)] obtain p where inv2: "epoch_inv ident hs w2" and p: "su_positions w2 = Some p"
      "\<forall>h \<in> set hs. the (ch_epoch h) < pp_epoch p" by blast
  obtain w3 r3 where 3: "or_subscribe R (map fst found) w2 = (w3, r3)" by fastforce
  have same: "su_positions w3 = su_positions w2" "su_db w3 = su_db w2"
    using env_onlyD [of "or_subscribe R (map fst found)" w2 w3 r3] 3 ok by (simp_all add: opcua_reader_ok_def)
  have w': "su_positions w' = su_positions w2 \<and> su_db w' = su_db w2 \<and>
      (\<forall>h. r = Inr h \<longrightarrow> ch_epoch h = Some (pp_epoch p))"
    using late(4) 3 same p(1) by (cases r3) (auto simp: bindS_def connected_def putS_def retS_def)
  then have inv': "epoch_inv ident hs w'" using inv2 by (auto intro: epoch_frame)
  moreover have "epoch_inv ident (h # hs) w'" if "ch_epoch h = Some (pp_epoch p)" for h
    using inv' w' p that unfolding epoch_inv_def by auto
  ultimately show ?thesis using w' by blast
qed

lemma connect_epoch:
  assumes inv: "epoch_inv ident hs w" and c: "opcua_connect R cfg w = (w', Inr h)" and ok: "opcua_reader_ok R"
  shows "epoch_inv ident ((case h of None \<Rightarrow> [] | Some h \<Rightarrow> [h]) @ hs) w'"
proof -
  obtain w1 r1 where 1: "or_open R w = (w1, r1)" by fastforce
  have inv1: "epoch_inv ident hs w1"
    by (rule keepsD [where m = "or_open R", OF keeps_epoch_env inv 1]) (use ok in \<open>simp add: opcua_reader_ok_def\<close>)
  have gone: "epoch_inv ident hs (fst (connected False v))" if "epoch_inv ident hs v" for v
    using keepsD [OF keeps_epoch_connected that] by (metis prod.collapse)
  show ?thesis
  proof (cases r1)
    case (Inl e)
    then have "h = None" "w' = fst (connected False w1)"
      using c 1 by (auto simp: opcua_connect_def exceptS_def tryS_def bindS_def connected_def split: if_splits)
    then show ?thesis using gone [OF inv1] by simp
  next
    case (Inr u)
    obtain w2 r2 where 2: "opcua_subscribe R cfg w1 = (w2, r2)" by fastforce
    note sub = subscribe_epoch [OF inv1 2 ok]
    show ?thesis
    proof (cases r2)
      case (Inl e)
      have "epoch_inv ident hs (or_close R w2)"
        by (rule keepsD [where m = "putS (or_close R)", OF keeps_epoch_env conjunct1 [OF sub]])
           (use ok in \<open>auto intro: close_env simp: opcua_reader_ok_def putS_def\<close>)
      moreover have "h = None" "w' = fst (connected False (or_close R w2))"
        using c 1 2 Inl \<open>r1 = Inr u\<close>
        by (auto simp: opcua_connect_def exceptS_def tryS_def bindS_def connected_def split: if_splits)
      ultimately show ?thesis using gone by simp
    next
      case (Inr g)
      then have "h = Some g" "w' = w2"
        using c 1 2 \<open>r1 = Inr u\<close> by (auto simp: opcua_connect_def exceptS_def tryS_def bindS_def)
      then show ?thesis using sub Inr by simp
    qed
  qed
qed

text \<open>A notification changes the epoch of neither side.\<close>

lemma publish_reading_epoch: "keeps (epoch_inv ident hs) (publish_reading P e)"
proof (rule keepsI)
  fix w w' r
  assume inv: "epoch_inv ident hs w" and p: "publish_reading P e w = (w', r)"
  have "su_positions w' = su_positions w \<and> pd_epoch (su_db w') = pd_epoch (su_db w)"
    using p
    by (auto simp: publish_reading_def bindS_def next_step_def next_position_def Let_def send_step_def
        split: option.splits prod.splits sum.splits if_splits)
  then show "epoch_inv ident hs w'" using inv by (auto intro: epoch_frame)
qed

lemma keeps_epoch_now: "keeps (epoch_inv ident hs) (now_step B)"
  by (rule keepsI) (auto simp: now_step_def intro: epoch_frame split: prod.splits)

lemma keeps_epoch_wrap: "keeps (epoch_inv ident hs) (wrap_in_nats_envelope P raw)"
  by (rule keepsI) (use wrap_frame in \<open>fastforce intro: epoch_frame\<close>)

lemma keeps_stamp: "keeps I (now_step (sp_backend P)) \<Longrightarrow> keeps I (stamp_or_now P t)"
  unfolding stamp_or_now_def by (intro edge_intros)

lemma keeps_opcua_raw: "keeps I (now_step (sp_backend P)) \<Longrightarrow> keeps I (opcua_raw_envelope P alias val endpoint dv)"
  unfolding opcua_raw_envelope_def by (intro edge_intros keeps_stamp)

lemma datachange_epoch: "keeps (epoch_inv ident hs) (datachange_notification P h node v dv)"
  unfolding datachange_notification_def on_message_def copies
  by (intro edge_intros keeps_opcua_raw keeps_epoch_now keeps_epoch_wrap publish_reading_epoch)



lemma keeps_bindS_replies:
  assumes "keeps I m" "replies Q m" "\<And>a. Q a \<Longrightarrow> keeps I (f a)"
  shows "keeps I (bindS m f)"
proof (rule keepsI)
  fix w w' r
  assume w: "I w" "bindS m f w = (w', r)"
  obtain w1 r1 where 1: "m w = (w1, r1)" by fastforce
  from keepsD [OF assms(1) w(1) this] have w1: "I w1" .
  show "I w'"
  proof (cases r1)
    case (Inl e)
    then show ?thesis using w(2) 1 w1 by (simp add: bindS_def)
  next
    case (Inr a)
    then have "Q a" using repliesD [OF assms(2)] 1 by blast
    moreover have "f a w1 = (w', r)" using w(2) 1 Inr by (simp add: bindS_def)
    ultimately show ?thesis using keepsD [OF assms(3) w1] by blast
  qed
qed

lemma wrap_replies: "replies (\<lambda>e. env_payload e = Some (TRaw raw)) (wrap_in_nats_envelope P raw)"
  unfolding replies_def by (metis prod.collapse wrap_frame)

lemma opcua_raw_replies: "replies (\<lambda>raw. rs_position raw = None) (opcua_raw_envelope P alias val endpoint dv)"
  unfolding opcua_raw_envelope_def
  by (intro replies_bindS) (auto simp: replies_def retS_def raiseS_def split: option.split)

lemma on_message_inv:
  assumes "env_payload e = Some (TRaw raw)" "rs_position raw = None"
  shows "keeps (positions_inv db0 ident) (on_message P h e)"
proof -
  have "keeps (positions_inv db0 ident) (publish_reading P e)"
    by (rule keepsI) (rule publish_reading_inv [OF _ _ assms])
  then show ?thesis unfolding on_message_def copies by (intro edge_intros)
qed

lemma datachange_inv: "keeps (positions_inv db0 ident) (datachange_notification P h node v dv)"
proof -
  have "keeps (positions_inv db0 ident) (bindS (wrap_in_nats_envelope P raw) (on_message P h))" if "rs_position raw = None" for raw
    by (rule keeps_bindS_replies [OF keeps_wrap wrap_replies]) (rule on_message_inv [OF _ that])
  then have get: "keeps (positions_inv db0 ident) (bindS (opcua_raw_envelope P name v (ch_endpoint h) dv) (\<lambda>raw.
      bindS (wrap_in_nats_envelope P raw) (on_message P h)))" for name
    by (intro keeps_bindS_replies [OF keeps_opcua_raw [OF keeps_now] opcua_raw_replies])
  show ?thesis unfolding datachange_notification_def exceptS_def copies
    by (intro keeps_option keeps_tryS keeps_cond keeps_basic get)
qed

lemma connect_inv:
  assumes "opcua_reader_ok R" shows "keeps (positions_inv db0 ident) (opcua_connect R cfg)"
  unfolding opcua_connect_def opcua_subscribe_def
  by (intro edge_intros keeps_env_only env_only_find close_env)
     (use assms in \<open>simp_all add: opcua_reader_ok_def\<close>)

lemma disconnect_keeps:
  assumes "opcua_reader_ok R"
  shows "keeps (positions_inv db0 ident) (opcua_disconnect R)" "keeps (epoch_inv ident hs) (opcua_disconnect R)"
  unfolding opcua_disconnect_def
  by (intro edge_intros keeps_env_only keeps_epoch_env keeps_epoch_connected close_env;
      use assms in \<open>simp add: opcua_reader_ok_def\<close>)+

lemma opcua_run_inv:
  assumes "opcua_run P R cfg db0 ident w hs" "opcua_reader_ok R" "positions_db_ok db0"
  shows "positions_inv db0 ident w \<and> epoch_inv ident hs w"
  using assms(1)
proof induction
  case (or_start p e t)
  have "0 \<le> db_epoch db0 ident"
  proof (cases "pd_epoch db0 ident")
    case (Some n)
    then have "1 \<le> n" using assms(3) unfolding positions_db_ok_def by blast
    then show ?thesis using Some by simp
  qed simp
  then have "epoch_inv ident [] ((subscriber_new e t db0)\<lparr>su_positions := Some p\<rparr>)"
    using or_start by (auto simp: epoch_inv_def positions_new_def subscriber_new_def split: if_splits)
  moreover have "positions_inv db0 ident ((subscriber_new e t db0)\<lparr>su_positions := Some p\<rparr>)"
    by (rule keepsD [where m = "putS (\<lambda>w. w\<lparr>su_positions := Some p\<rparr>)", OF keeps_identity [OF or_start] new_inv])
       (simp add: putS_def)
  ultimately show ?case by simp
next
  case (or_connect w hs w' h)
  then show ?case
    using keepsD [OF connect_inv [OF assms(2)] _ or_connect(2)] connect_epoch [OF _ or_connect(2) assms(2)] by blast
next
  case (or_disconnect w hs w' r)
  then show ?case
    using keepsD [OF disconnect_keeps(1) [OF assms(2)] _ or_disconnect(2)]
      keepsD [OF disconnect_keeps(2) [OF assms(2)] _ or_disconnect(2)] by blast
next
  case (or_change w hs h node v dv w' r)
  then show ?case
    using keepsD [OF datachange_inv _ or_change(3)] keepsD [OF datachange_epoch _ or_change(3)] by blast
qed

text \<open>The handler of an older epoch.\<close>

lemma fenced_handler:
  assumes "su_positions w = Some p" "ch_epoch h \<noteq> Some (pp_epoch p)" "datachange_notification P h node v dv w = (w', r)"
  shows "sv_sent w' = sv_sent w"
proof -
  let ?I = "\<lambda>v :: 'a subscriber. sv_sent v = sv_sent w \<and> su_positions v = Some p"
  have now: "keeps ?I (now_step B)" for B by (rule keepsI) (auto simp: now_step_def split: prod.splits)
  have wrap: "keeps ?I (wrap_in_nats_envelope P raw)" for raw by (rule keepsI) (use wrap_frame in fastforce)
  have message: "keeps ?I (on_message P h e)" for e
    by (rule keepsI) (use assms(2) in \<open>auto simp: on_message_def\<close>)
  have "keeps ?I (datachange_notification P h node v dv)"
    unfolding datachange_notification_def copies by (intro edge_intros keeps_opcua_raw now wrap message)
  then show ?thesis using keepsD [of ?I] assms(1,3) by blast
qed

section \<open>Properties\<close>

text \<open>
  C19. Positions published by the polling subscribers go strictly up: whatever the devices answer,
  however often a connection fails and is made again, and whichever sends are lost, the positions
  the Modbus and the S7 subscriber publish for a node increase strictly, lie above all that the
  stored database had given out before, and name the producer and the node.
\<close>

theorem published_positions_increase:
  assumes "modbus_reader_ok M" and "s7_reader_ok R"
    and "modbus_run n fuel P M text_of durable key ident cfg (subscriber_new e t db) = (w, r)"
    and "s7_produce n fuel P R ident' units (subscriber_new e t db) = (w', r')"
  shows "published_in_order db ident w \<and> published_in_order db ident' w'"
proof
  have "keeps (positions_inv db ident) (modbus_produce n fuel P M text_of durable ident cfg)"
    unfolding modbus_produce_def by (intro keeps_produce keeps_modbus_loop assms(1))
  then have "keeps (positions_inv db ident) (modbus_run n fuel P M text_of durable key ident cfg)"
    unfolding modbus_run_def by (intro edge_intros)
  from inv_published [OF keepsD [OF this new_inv assms(3)]] show "published_in_order db ident w" .
  have "keeps (positions_inv db ident') (s7_produce n fuel P R ident' units)"
    unfolding s7_produce_def by (intro keeps_produce keeps_s7_loop assms(2))
  from inv_published [OF keepsD [OF this new_inv assms(4)]] show "published_in_order db ident' w'" .
qed

definition subscriber_lab :: "nat subscriber_platform" where
  "subscriber_lab = \<lparr>sp_backend = quiet, sp_correlation_id = (\<lambda>e. (replicate 26 CHR ''1'', e))\<rparr>"

text \<open>A device that answers three reads and then fails once per connection.\<close>

definition example_modbus :: "nat modbus_reader" where
  "example_modbus = \<lparr>mr_open = retS (), mr_close = (\<lambda>w. w\<lparr>sv_env := 0\<rparr>),
     mr_read = (\<lambda>a n w. if sv_env w < 3 then (w\<lparr>sv_env := sv_env w + 1\<rparr>, Inr (Some (replicate (nat n) 7))) else (w, Inr None))\<rparr>"

definition example_s7 :: "nat s7_reader" where
  "example_s7 = \<lparr>sr_connect = retS (), sr_disconnect = (\<lambda>w. w), sr_read = (\<lambda>db n w. (w, Inr (replicate (nat n) 0)))\<rparr>"

definition example_map :: register_map where
  "example_map = \<lparr>rm_endpoint = ''m'', rm_registers = [\<lparr>rg_address = 3, rg_alias = ''b'', rg_scale = 100, rg_value_type = TInt64\<rparr>],
     rm_inspection_address = None\<rparr>"

definition example_units :: s7_unit_map where
  "example_units = \<lparr>um_endpoint = ''s'', um_blocks = [\<lparr>sb_db = 1, sb_size = 8,
     sb_signals = [\<lparr>sg_offset = 4, sg_real = False, sg_alias = ''c'', sg_value_type = TInt64\<rparr>]\<rparr>]\<rparr>"

definition example_db :: positions_db where
  "example_db = \<lparr>pd_epoch = Map.empty, pd_seq = Map.empty\<rparr>"

lemma example_readers_ok: "modbus_reader_ok example_modbus" "s7_reader_ok example_s7"
  by (auto simp: modbus_reader_ok_def s7_reader_ok_def example_modbus_def example_s7_def env_only_basic)
     (auto simp: env_only_def)

definition modbus_example :: "nat subscriber \<times> unit res" where
  "modbus_example =
     modbus_run 2 5 subscriber_lab example_modbus (\<lambda>_. []) False [] ''m'' example_map (subscriber_new 0 0 example_db)"

definition s7_example :: "nat subscriber \<times> unit res" where
  "s7_example = s7_produce 2 5 subscriber_lab example_s7 ''s'' example_units (subscriber_new 0 0 example_db)"

lemma modbus_example_sent:
  "map pos_key (sent_positions ''b'' (sv_sent (fst modbus_example))) = [(1, 1), (1, 2), (1, 3), (2, 1), (2, 2), (2, 3)]"
  by code_simp

theorem published_positions_increase_witness:
  "map pos_key (sent_positions ''b'' (sv_sent (fst modbus_example))) = [(1, 1), (1, 2), (1, 3), (2, 1), (2, 2), (2, 3)] \<and>
   published_in_order example_db ''m'' (fst modbus_example)"
proof
  obtain w r where 1: "modbus_example = (w, r)" by (rule prod.exhaust)
  obtain w' r' where 2: "s7_example = (w', r')" by (rule prod.exhaust)
  from published_positions_increase [OF example_readers_ok 1 [unfolded modbus_example_def] 2 [unfolded s7_example_def]]
  have "published_in_order example_db ''m'' w" ..
  then show "published_in_order example_db ''m'' (fst modbus_example)" unfolding 1 by (simp only: fst_conv)
qed (rule modbus_example_sent)

text \<open>
  C20. A replaced OPC UA connection is fenced: in every run, with any failures and any late calls of
  old handlers, the published positions of each node increase strictly, the handlers are of
  decreasing epochs, and a notification of any handler but the newest publishes nothing.
\<close>

theorem opcua_old_connection_fenced:
  assumes "opcua_run P R cfg db ident w (newest # older)" and "opcua_reader_ok R" and "positions_db_ok db"
  shows "published_in_order db ident w \<and>
    (\<forall>h \<in> set older. \<forall>node v dv. sv_sent (fst (datachange_notification P h node v dv w)) = sv_sent w)"
proof -
  note inv = opcua_run_inv [OF assms]
  then obtain p where p: "su_positions w = Some p" "\<forall>h \<in> set (newest # older). \<exists>n. ch_epoch h = Some n \<and> n \<le> pp_epoch p"
      "sorted_wrt (\<lambda>h g. the (ch_epoch g) < the (ch_epoch h)) (newest # older)"
    unfolding epoch_inv_def by blast
  have "sv_sent (fst (datachange_notification P h node v dv w)) = sv_sent w" if h: "h \<in> set older" for h node v dv
  proof -
    have "ch_epoch h \<noteq> Some (pp_epoch p)" using p(2,3) h by fastforce
    from fenced_handler [OF p(1) this] show ?thesis by (metis prod.collapse)
  qed
  then show ?thesis using inv_published inv by blast
qed

definition example_opcua :: "nat opcua_reader" where
  "example_opcua = \<lparr>or_open = retS (), or_close = (\<lambda>w. w), or_namespace = (\<lambda>uri. retS 2),
     or_child = (\<lambda>path. retS ''n1''), or_subscribe = (\<lambda>nodes. retS ())\<rparr>"

definition example_nodes :: opcua_node_list where
  "example_nodes = \<lparr>ol_endpoint = ''o'', ol_namespace_uri = ''u'', ol_nodes = [([''a'', ''b''], ''temp'')]\<rparr>"

definition example_value :: data_value where
  "example_value = \<lparr>dv_bad = False, dv_uncertain = True, dv_source = None, dv_server = Some \<lparr>dt_us = 7, dt_off = None\<rparr>\<rparr>"

text \<open>Two connections; the handler of the first one is called before and after the second.\<close>

definition handler_of :: "int \<Rightarrow> change_handler" where
  "handler_of n = \<lparr>ch_alias = [(''n1'', ''temp'')], ch_endpoint = ''o'', ch_epoch = Some n\<rparr>"

definition opcua_first :: "nat subscriber" where
  "opcua_first = fst (opcua_connect example_opcua example_nodes
     ((subscriber_new 0 0 example_db)\<lparr>su_positions := Some \<lparr>pp_producer = ''o'', pp_epoch = 0\<rparr>\<rparr>))"

definition opcua_notified :: "nat subscriber" where
  "opcua_notified = fst (datachange_notification subscriber_lab (handler_of 1) ''n1'' (Some (VInt 5)) example_value opcua_first)"

definition opcua_second :: "nat subscriber" where
  "opcua_second = fst (opcua_connect example_opcua example_nodes opcua_notified)"

lemma opcua_states:
  "snd (opcua_connect example_opcua example_nodes
     ((subscriber_new 0 0 example_db)\<lparr>su_positions := Some \<lparr>pp_producer = ''o'', pp_epoch = 0\<rparr>\<rparr>)) = Inr (Some (handler_of 1))"
  "snd (opcua_connect example_opcua example_nodes opcua_notified) = Inr (Some (handler_of 2))"
  "map pos_key (sent_positions ''temp'' (sv_sent opcua_second)) = [(1, 1)]"
  by code_simp+

lemma example_opcua_run:
  "opcua_run subscriber_lab example_opcua example_nodes example_db ''o'' opcua_second [handler_of 2, handler_of 1]"
proof -
  have p: "positions_new ''o'' = Inr \<lparr>pp_producer = ''o'', pp_epoch = 0\<rparr>" by (simp add: positions_new_def)
  have "opcua_connect example_opcua example_nodes
     ((subscriber_new 0 0 example_db)\<lparr>su_positions := Some \<lparr>pp_producer = ''o'', pp_epoch = 0\<rparr>\<rparr>) = (opcua_first, Inr (Some (handler_of 1)))"
    using opcua_states(1) by (simp add: opcua_first_def prod_eq_iff)
  from or_connect [OF or_start [OF p] this] have 1: "opcua_run subscriber_lab example_opcua example_nodes example_db ''o'' opcua_first [handler_of 1]"
    by simp
  have "opcua_run subscriber_lab example_opcua example_nodes example_db ''o'' opcua_notified [handler_of 1]"
    by (rule or_change [OF 1, of "handler_of 1" "''n1''" "Some (VInt 5)" example_value]) (simp_all add: opcua_notified_def prod_eq_iff)
  moreover have "opcua_connect example_opcua example_nodes opcua_notified = (opcua_second, Inr (Some (handler_of 2)))"
    using opcua_states(2) by (simp add: opcua_second_def prod_eq_iff)
  ultimately show ?thesis using or_connect by fastforce
qed

theorem opcua_old_connection_fenced_witness:
  "map pos_key (sent_positions ''temp'' (sv_sent opcua_second)) = [(1, 1)] \<and>
   sv_sent (fst (datachange_notification subscriber_lab (handler_of 1) ''n1'' (Some (VInt 6)) example_value opcua_second)) =
     sv_sent opcua_second"
proof -
  have "opcua_reader_ok example_opcua" "positions_db_ok example_db"
    by (auto simp: opcua_reader_ok_def example_opcua_def env_only_basic positions_db_ok_def example_db_def)
  from opcua_old_connection_fenced [OF example_opcua_run this] show ?thesis using opcua_states(3) by simp
qed

end
