(* ===== verification/S7_Path.thy ===== *)
theory S7_Path
  imports Data_Subscribers
begin

text \<open>
  The S7 path from the machines to the reading: after every tick of the simulator the data blocks
  hold what the subscriber's decoders read back as the state of the machines, whatever clients wrote
  into them, and one tick is one poll of the motor's mailbox.
\<close>

section \<open>Runs of the simulator\<close>

inductive s7_run :: "'r plant_random \<Rightarrow> 'r s7_simulator \<Rightarrow> bool" for R where
  sr_first: "sync_buffers (s7_new r) = (w, Inr ()) \<Longrightarrow> s7_run R w"
| sr_tick: "s7_run R w \<Longrightarrow> s7_tick R w = (w', x) \<Longrightarrow> s7_run R w'"
| sr_client: "s7_run R w \<Longrightarrow> bytes_ok 8 db1 \<Longrightarrow> bytes_ok 8 db2 \<Longrightarrow> bytes_ok 18 db3 \<Longrightarrow>
    s7_run R (w\<lparr>s7_db1 := db1, s7_db2 := db2, s7_db3 := db3\<rparr>)"

text \<open>The blocks show the machines.\<close>

definition shows_capper :: "int list \<Rightarrow> capper_block \<Rightarrow> bool" where
  "shows_capper db b \<longleftrightarrow>
     (\<exists>y. decode_real db 0 = Inr (Fin y) \<and> \<bar>y - cb_torque b\<bar> \<le> max (\<bar>cb_torque b\<bar> / 2 ^ 23) (1 / 2 ^ 150)) \<and>
     decode_int db 4 = Inr (cb_presence b) \<and> decode_int db 6 = Inr (cb_rejects b)"

definition shows_palletizer :: "int list \<Rightarrow> palletizer_block \<Rightarrow> bool" where
  "shows_palletizer db b \<longleftrightarrow>
     decode_int db 0 = Inr (pb_layers b) \<and> decode_int db 2 = Inr (pb_complete b) \<and> decode_int db 4 = Inr (pb_cycles b)"

definition shows_motor :: "int list \<Rightarrow> motor_control \<Rightarrow> bool" where
  "shows_motor db m \<longleftrightarrow>
     map (word_of db) [10, 12, 14, 16] =
       [if mc_running m then 1 else 0, if mc_faulted m then 1 else 0, mc_setpoint m, motor_speed m]"

lemma motor_words_range: "motor_invar m \<Longrightarrow> mc_max_speed m = 1800 \<Longrightarrow> v \<in> set (motor_words m) \<Longrightarrow> 0 \<le> v \<and> v \<le> 65535"
  using motor_speed_range [of m] by (auto simp: motor_words_def motor_invar_def)

lemma sync_shows:
  assumes "s7_ok w"
  shows "\<exists>w'. sync_buffers w = (w', Inr ()) \<and> s7_ok w' \<and> s7_capper w' = s7_capper w \<and> s7_palletizer w' = s7_palletizer w \<and>
    shows_capper (s7_db1 w') (s7_capper w) \<and> shows_palletizer (s7_db2 w') (s7_palletizer w) \<and>
    shows_motor (s7_db3 w') (cb_motor (s7_capper w)) \<and> mailbox_command w' = mailbox_command w \<and> mailbox_ack w' = mailbox_ack w"
proof -
  have ok: "capper_ok (s7_capper w)" "palletizer_ok (s7_palletizer w)" "bytes_ok 18 (s7_db3 w)"
    using assms by (simp_all add: s7_ok_def)
  let ?m = "cb_motor (s7_capper w)"
  obtain db1 where 1: "capper_to_bytes (s7_capper w) = Inr db1" "shows_capper db1 (s7_capper w)"
    using capper_bytes [OF ok(1)] by (fastforce simp: shows_capper_def decode_real_def decode_int_def)
  obtain db2 where 2: "palletizer_to_bytes (s7_palletizer w) = Inr db2" "shows_palletizer db2 (s7_palletizer w)"
    using palletizer_bytes [OF ok(2)] by (fastforce simp: shows_palletizer_def decode_int_def)
  have "\<forall>v \<in> set (motor_words ?m). 0 \<le> v \<and> v \<le> 65535" using motor_words_range ok(1) by (auto simp: capper_ok_def)
  moreover have len: "length (motor_words ?m) = 4" by (simp add: motor_words_def)
  ultimately obtain db3 where 3: "pack_words (s7_db3 w) 10 (motor_words ?m) = Inr db3" "bytes_ok 18 db3"
      "\<forall>i < 4. word_at db3 (10 + 2 * i) = Inr (motor_words ?m ! i)"
      "\<forall>i k. i + k \<le> 10 \<or> 18 \<le> i \<longrightarrow> get_bytes db3 i k = get_bytes (s7_db3 w) i k"
    using pack_words_ok [OF ok(3), of 10 "motor_words ?m"] by auto
  have same: "word_of db3 i = word_of (s7_db3 w) i" if "i \<le> 8" for i
    using 3(4) that by (simp add: word_of_def word_at_def)
  have "word_of db3 (10 + 2 * i) = motor_words ?m ! i" if "i < 4" for i using 3(3) that by (simp add: word_of_def)
  from this [of 0] this [of 1] this [of 2] this [of 3] have "shows_motor db3 ?m" by (simp add: shows_motor_def motor_words_def)
  moreover have "sync_buffers w = (w\<lparr>s7_db1 := db1, s7_db2 := db2, s7_db3 := db3\<rparr>, Inr ())"
    using 1(1) 2(1) 3(1) by (simp add: sync_buffers_def)
  ultimately show ?thesis
    using 1(2) 2(2) 3(2) ok same by (simp add: s7_ok_def mailbox_command_def mailbox_ack_def)
qed

text \<open>A tick from a good state.\<close>

lemma tick_shows:
  assumes "s7_ok w"
  shows "\<exists>w'. s7_tick R w = (w', Inr ()) \<and> s7_ok w' \<and> shows_capper (s7_db1 w') (s7_capper w') \<and>
    shows_palletizer (s7_db2 w') (s7_palletizer w') \<and> shows_motor (s7_db3 w') (cb_motor (s7_capper w')) \<and>
    mailbox_poll motor_apply (mailbox_command w) (cb_motor (s7_capper w), mailbox_ack w) = (cb_motor (s7_capper w'), mailbox_ack w') \<and>
    mailbox_command w' = mailbox_command w"
proof -
  obtain w1 where 1: "s7_process_controls w = (w1, Inr ())" "s7_ok w1" using s7_controls_ok [OF assms] by blast
  have box: "mailbox_poll motor_apply (mailbox_command w) (cb_motor (s7_capper w), mailbox_ack w) = (cb_motor (s7_capper w1), mailbox_ack w1)"
      "mailbox_command w1 = mailbox_command w"
    using controls_mailbox [of w] assms 1(1) by (auto simp: s7_ok_def)
  let ?w2 = "s7_move R w1"
  have 2: "s7_ok ?w2" "s7_db3 ?w2 = s7_db3 w1" using s7_move_ok [OF 1(2)] by blast+
  have motor: "cb_motor (s7_capper ?w2) = cb_motor (s7_capper w1)"
    by (simp add: s7_move_def capper_tick_def split: prod.split)
  obtain w3 where 3: "sync_buffers ?w2 = (w3, Inr ())" "s7_ok w3" "s7_capper w3 = s7_capper ?w2" "s7_palletizer w3 = s7_palletizer ?w2"
      "shows_capper (s7_db1 w3) (s7_capper ?w2)" "shows_palletizer (s7_db2 w3) (s7_palletizer ?w2)"
      "shows_motor (s7_db3 w3) (cb_motor (s7_capper ?w2))" "mailbox_command w3 = mailbox_command ?w2" "mailbox_ack w3 = mailbox_ack ?w2"
    using sync_shows [OF 2(1)] by blast
  have "s7_tick R w = (w3, Inr ())" using 1(1) 3(1) by (simp add: s7_tick_def bindS_def putS_def)
  then show ?thesis using 2(2) 3 box motor by (simp add: mailbox_command_def mailbox_ack_def)
qed

lemma s7_run_ok: "s7_run R w \<Longrightarrow> s7_ok w"
proof (induction rule: s7_run.induct)
  case (sr_first r w)
  then show ?case using sync_shows [OF s7_new_ok [of r]] by auto
next
  case (sr_tick w w' x)
  then show ?case using tick_shows [of w R] by auto
next
  case (sr_client w db1 db2 db3)
  then show ?case by (simp add: s7_ok_def)
qed

section \<open>Properties\<close>

text \<open>
  C21. What the S7 subscriber decodes is the state of the machines: in every run, whatever clients
  wrote into the data blocks and whatever the random numbers are, a tick succeeds, and afterwards
  the decoders read the counters and flags exactly and the torque to within single precision; all
  of them stay in their ranges.
\<close>

theorem s7_blocks_show_machines:
  assumes "s7_run R w" and "s7_tick R w = (w', r)"
  shows "r = Inr () \<and> shows_capper (s7_db1 w') (s7_capper w') \<and> shows_palletizer (s7_db2 w') (s7_palletizer w') \<and>
    shows_motor (s7_db3 w') (cb_motor (s7_capper w')) \<and> capper_ok (s7_capper w') \<and> palletizer_ok (s7_palletizer w')"
  using tick_shows [OF s7_run_ok [OF assms(1)], of R] assms(2) by (auto simp: s7_ok_def)

text \<open>
  A tick of the S7 simulator is one poll of the motor's mailbox: the command registers are read
  from data block 3, a new sequence number is applied to the motor exactly once and acknowledged
  with its status, and feedback and machines do not disturb command or acknowledgement.
\<close>

theorem s7_tick_polls_mailbox:
  assumes "s7_run R w" and "s7_tick R w = (w', r)"
  shows "(cb_motor (s7_capper w'), mailbox_ack w') =
      mailbox_poll motor_apply (mailbox_command w) (cb_motor (s7_capper w), mailbox_ack w) \<and>
    mailbox_command w' = mailbox_command w"
  using tick_shows [OF s7_run_ok [OF assms(1)], of R] assms(2) by auto

definition example_random :: "unit plant_random" where
  "example_random = \<lparr>pr_uniform = (\<lambda>lo hi r. (0, r)), pr_random = (\<lambda>r. (1 / 2, r)), pr_randint = (\<lambda>lo hi r. (hi, r))\<rparr>"

definition example_write :: "unit s7_simulator" where
  "example_write = (s7_new ())\<lparr>s7_db3 := [0, 9, 0, 2, 3, 232] @ replicate 12 0\<rparr>"

lemma example_write_run: "s7_run example_random example_write"
proof -
  obtain w where w: "sync_buffers (s7_new ()) = (w, Inr ())" "s7_capper w = capper_new" "s7_palletizer w = palletizer_new"
  proof -
    have "s7_capper (s7_new ()) = capper_new" "s7_palletizer (s7_new ()) = palletizer_new" by (simp_all add: s7_new_def)
    then show thesis using that sync_shows [OF s7_new_ok [of "()"]] by metis
  qed
  have "s7_run example_random (w\<lparr>s7_db1 := replicate 8 0, s7_db2 := replicate 8 0, s7_db3 := [0, 9, 0, 2, 3, 232] @ replicate 12 0\<rparr>)"
    by (rule sr_client [OF sr_first [OF w(1)]]) (simp_all add: bytes_ok_def)
  moreover have "w\<lparr>s7_db1 := replicate 8 0, s7_db2 := replicate 8 0, s7_db3 := [0, 9, 0, 2, 3, 232] @ replicate 12 0\<rparr> = example_write"
    using w(2,3) by (cases w) (simp add: example_write_def s7_new_def)
  ultimately show ?thesis by simp
qed

theorem s7_blocks_show_machines_witness:
  "shows_palletizer (s7_db2 (fst (s7_tick example_random example_write))) (s7_palletizer (fst (s7_tick example_random example_write)))"
  using s7_blocks_show_machines [OF example_write_run prod.collapse [symmetric]] by blast

theorem s7_tick_polls_mailbox_witness:
  "mc_setpoint (cb_motor (s7_capper (fst (s7_tick example_random example_write)))) = 1000 \<and>
   mailbox_ack (fst (s7_tick example_random example_write)) = (9, 1)"
proof -
  have "mailbox_poll motor_apply (mailbox_command example_write) (cb_motor (s7_capper example_write), mailbox_ack example_write) =
      (\<lparr>mc_max_speed = 1800, mc_setpoint = 1000, mc_running = True, mc_faulted = False\<rparr>, (9, 1))" by code_simp
  with s7_tick_polls_mailbox [OF example_write_run prod.collapse [symmetric]] show ?thesis by auto
qed

end
