(* ===== verification/Modbus_Simulator.thy ===== *)
theory Modbus_Simulator
  imports Source_Journal Device_Controls Inspection_Stream
begin

text \<open>
  The Modbus simulator (\<open>modbus_simulator/server.py\<close>): the register block and its controls, the
  polling of command registers, the tick, and the recovery of all of it from the source journal.
  The random number generator and its saved state are parameters. Metrics and log lines are left
  out; the register store is a function from addresses to values.
\<close>

section \<open>Scaling\<close>

text \<open>\<open>ROUND_HALF_UP\<close> rounds half away from zero.\<close>

definition round_half_up :: "real \<Rightarrow> int" where
  "round_half_up x = (if 0 \<le> x then \<lfloor>x + 1 / 2\<rfloor> else - \<lfloor>1 / 2 - x\<rfloor>)"

definition scale_to_register :: "real \<Rightarrow> int \<Rightarrow> int" where
  "scale_to_register v scale = round_half_up (v * of_int scale)"

definition register_to_scale :: "int \<Rightarrow> int \<Rightarrow> real" where
  "register_to_scale raw scale = of_int raw / of_int scale"

section \<open>The register block\<close>

record register_block =
  rb_fill_level :: int
  rb_motor_state :: int
  rb_throughput :: int
  rb_belt_speed :: int
  rb_jam_detected :: int
  rb_bottle_count :: int
  rb_reject_count :: int
  rb_conveyor_active :: int
  rb_conveyor :: motor_control
  rb_valve :: valve_control
  rb_reject :: reject_control

definition block_new :: register_block where
  "block_new =
     \<lparr>rb_fill_level = 750, rb_motor_state = 1, rb_throughput = 80, rb_belt_speed = 50, rb_jam_detected = 0,
      rb_bottle_count = 0, rb_reject_count = 0, rb_conveyor_active = 1,
      rb_conveyor = \<lparr>mc_max_speed = 80, mc_setpoint = 50, mc_running = True, mc_faulted = False\<rparr>,
      rb_valve = \<lparr>vc_opened = True\<rparr>, rb_reject = reject_init\<lparr>rc_count := 0\<rparr>\<rparr>"

definition as_list :: "register_block \<Rightarrow> int list" where
  "as_list b =
     [rb_fill_level b, rb_motor_state b, rb_throughput b, rb_belt_speed b, rb_jam_detected b, rb_bottle_count b,
      rb_reject_count b, rb_conveyor_active b]"

text \<open>A generator: \<open>randint\<close>, \<open>random\<close>, \<open>getstate\<close> as JSON and \<open>setstate\<close>.\<close>

record 'r generator =
  gn_randint :: "int \<Rightarrow> int \<Rightarrow> 'r \<Rightarrow> int \<times> 'r"
  gn_random :: "'r \<Rightarrow> real \<times> 'r"
  gn_getstate :: "'r \<Rightarrow> json"
  gn_setstate :: "json \<Rightarrow> 'r res"

definition clamp :: "int \<Rightarrow> int \<Rightarrow> int \<Rightarrow> int" where
  "clamp lo hi v = max lo (min hi v)"

definition tick_fill :: "'r generator \<Rightarrow> int \<Rightarrow> register_block \<Rightarrow> 'r \<Rightarrow> register_block \<times> 'r" where
  "tick_fill G delta_max b r =
     (if vc_opened (rb_valve b)
      then case gn_randint G (- \<bar>delta_max\<bar>) \<bar>delta_max\<bar> r of
             (d, r') \<Rightarrow> (b\<lparr>rb_fill_level := clamp 500 950 (rb_fill_level b + d)\<rparr>, r')
      else (b, r))"

definition tick_conveyor :: "bool \<Rightarrow> register_block \<Rightarrow> register_block" where
  "tick_conveyor jam b =
     (let conveyor = (if jam then fst (motor_apply (rb_conveyor b) 4 1) else rb_conveyor b);
          speed = motor_speed conveyor in
      b\<lparr>rb_throughput := (if vc_opened (rb_valve b) then 80 else 0), rb_conveyor := conveyor, rb_belt_speed := speed,
        rb_jam_detected := (if mc_faulted conveyor then 1 else 0), rb_conveyor_active := (if 0 < speed then 1 else 0)\<rparr>)"

definition tick_bottle :: "register_block \<Rightarrow> register_block" where
  "tick_bottle b =
     (let b' = (if rb_belt_speed b \<noteq> 0
                then let n = rb_bottle_count b mod 65535 + 1
                     in b\<lparr>rb_bottle_count := n, rb_reject := reject_observe (rb_reject b) n\<rparr>
                else b)
      in b'\<lparr>rb_reject_count := rc_count (rb_reject b')\<rparr>)"

definition block_tick ::
  "'r generator \<Rightarrow> int \<Rightarrow> real \<Rightarrow> register_block \<Rightarrow> 'r \<Rightarrow> register_block \<times> 'r" where
  "block_tick G delta_max jam_probability b r =
     (case tick_fill G delta_max b r of (b1, r1) \<Rightarrow>
        (case gn_random G r1 of (x, r2) \<Rightarrow> (tick_bottle (tick_conveyor (x < jam_probability) b1), r2)))"

section \<open>The runtime\<close>

record simulator_settings =
  ss_every_n :: int
  ss_fail_every_n :: int
  ss_journalled :: bool
  ss_outbox_capacity :: int
  ss_jam_probability :: real

record 'r simulator =
  sm_block :: register_block
  sm_inspection :: inspection_stream
  sm_rng :: 'r
  sm_journal :: "source_journal option"
  sm_acks :: "(string \<times> int \<times> int) list"
  sm_boot :: int
  sm_registers :: "nat \<Rightarrow> int"

text \<open>\<open>session\<close> is the fresh random identity.\<close>

definition simulator_new :: "simulator_settings \<Rightarrow> int \<Rightarrow> 'r \<Rightarrow> 'r simulator res" where
  "simulator_new S session r =
     bindE (stream_new session (ss_every_n S) (ss_fail_every_n S)) (\<lambda>stream.
       Inr \<lparr>sm_block = block_new, sm_inspection = stream, sm_rng = r, sm_journal = None, sm_acks = [],
            sm_boot = 0, sm_registers = (\<lambda>_. 0)\<rparr>)"

subsection \<open>The snapshot\<close>

definition motor_doc :: "motor_control \<Rightarrow> doc" where
  "motor_doc m = [(''max_speed'', JInt (mc_max_speed m)), (''setpoint'', JInt (mc_setpoint m)),
     (''running'', JBool (mc_running m)), (''faulted'', JBool (mc_faulted m))]"

definition valve_doc :: "valve_control \<Rightarrow> doc" where
  "valve_doc v = [(''opened'', JBool (vc_opened v))]"

definition reject_doc :: "reject_control \<Rightarrow> doc" where
  "reject_doc r = [(''window'', JInt (int (rc_window r))), (''count'', JInt (rc_count r)), (''last_bottle'', JInt (rc_last_bottle r)),
     (''_present'', JArr (map JInt (rc_present r))), (''_rejected'', JArr (map JInt (sorted_list_of_set (rc_rejected r))))]"

definition block_doc :: "register_block \<Rightarrow> doc" where
  "block_doc b =
     [(''fill_level_raw'', JInt (rb_fill_level b)), (''motor_state'', JInt (rb_motor_state b)),
      (''throughput_raw'', JInt (rb_throughput b)), (''belt_speed_raw'', JInt (rb_belt_speed b)),
      (''jam_detected'', JInt (rb_jam_detected b)), (''bottle_count'', JInt (rb_bottle_count b)),
      (''reject_count'', JInt (rb_reject_count b)), (''conveyor_active'', JInt (rb_conveyor_active b)),
      (''conveyor'', JObj (motor_doc (rb_conveyor b))), (''valve'', JObj (valve_doc (rb_valve b))),
      (''reject'', JObj (reject_doc (rb_reject b)))]"

definition stream_doc :: "inspection_stream \<Rightarrow> doc" where
  "stream_doc s =
     [(''session'', JInt (is_session s)), (''every_n_bottles'', JInt (is_every_n s)),
      (''fail_every_n_inspections'', JInt (is_fail_every_n s)), (''inspected'', JInt (is_inspected s)),
      (''failed'', JInt (is_failed s)), (''_bottles'', JInt (is_bottles s)), (''_sequence'', JInt (is_sequence s)),
      (''_snapshot'', JArr (map JInt (is_snapshot s)))]"

definition acks_doc :: "(string \<times> int \<times> int) list \<Rightarrow> doc" where
  "acks_doc acks = map (\<lambda>(k, sequence, status). (k, JArr [JInt sequence, JInt status])) acks"

definition simulator_snapshot :: "'r generator \<Rightarrow> 'r simulator \<Rightarrow> doc" where
  "simulator_snapshot G w =
     [(''block'', JObj (block_doc (sm_block w))), (''inspection'', JObj (stream_doc (sm_inspection w))),
      (''acks'', JObj (acks_doc (sm_acks w))), (''rng'', gn_getstate G (sm_rng w))]"

subsection \<open>Recovery\<close>

text \<open>A state read back must have the shape that \<open>_snapshot\<close> writes; another raises.\<close>

fun json_int :: "json \<Rightarrow> int res" where
  "json_int (JInt n) = Inr n"
| "json_int _ = Inl (TypeError ''int'')"

fun json_bool :: "json \<Rightarrow> bool res" where
  "json_bool (JBool b) = Inr b"
| "json_bool _ = Inl (TypeError ''bool'')"

fun json_ints :: "json \<Rightarrow> int list res" where
  "json_ints (JArr xs) = mapE json_int xs"
| "json_ints _ = Inl (TypeError ''list'')"

definition int_at :: "string \<Rightarrow> doc \<Rightarrow> int res" where
  "int_at k d = bindE (dkey k d) json_int"

definition bool_at :: "string \<Rightarrow> doc \<Rightarrow> bool res" where
  "bool_at k d = bindE (dkey k d) json_bool"

definition ints_at :: "string \<Rightarrow> doc \<Rightarrow> int list res" where
  "ints_at k d = bindE (dkey k d) json_ints"

definition obj_at :: "string \<Rightarrow> doc \<Rightarrow> doc res" where
  "obj_at k d = bindE (dkey k d) as_obj"

definition load_motor :: "doc \<Rightarrow> motor_control res" where
  "load_motor d =
     bindE (int_at ''max_speed'' d) (\<lambda>m. bindE (int_at ''setpoint'' d) (\<lambda>s.
     bindE (bool_at ''running'' d) (\<lambda>r. bindE (bool_at ''faulted'' d) (\<lambda>f.
       Inr \<lparr>mc_max_speed = m, mc_setpoint = s, mc_running = r, mc_faulted = f\<rparr>))))"

definition load_valve :: "doc \<Rightarrow> valve_control res" where
  "load_valve d = bindE (bool_at ''opened'' d) (\<lambda>v. Inr \<lparr>vc_opened = v\<rparr>)"

definition load_reject :: "doc \<Rightarrow> reject_control res" where
  "load_reject d =
     bindE (int_at ''window'' d) (\<lambda>w. bindE (int_at ''count'' d) (\<lambda>c. bindE (int_at ''last_bottle'' d) (\<lambda>l.
     bindE (ints_at ''_present'' d) (\<lambda>p. bindE (ints_at ''_rejected'' d) (\<lambda>r.
       Inr \<lparr>rc_window = nat w, rc_count = c, rc_last_bottle = l, rc_present = p, rc_rejected = set r\<rparr>)))))"

definition load_block :: "doc \<Rightarrow> register_block res" where
  "load_block d =
     bindE (int_at ''fill_level_raw'' d) (\<lambda>fill. bindE (int_at ''motor_state'' d) (\<lambda>motor.
     bindE (int_at ''throughput_raw'' d) (\<lambda>throughput. bindE (int_at ''belt_speed_raw'' d) (\<lambda>belt.
     bindE (int_at ''jam_detected'' d) (\<lambda>jam. bindE (int_at ''bottle_count'' d) (\<lambda>bottles.
     bindE (int_at ''reject_count'' d) (\<lambda>rejects. bindE (int_at ''conveyor_active'' d) (\<lambda>active.
     bindE (bindE (obj_at ''conveyor'' d) load_motor) (\<lambda>conveyor.
     bindE (bindE (obj_at ''valve'' d) load_valve) (\<lambda>valve.
     bindE (bindE (obj_at ''reject'' d) load_reject) (\<lambda>reject.
       Inr \<lparr>rb_fill_level = fill, rb_motor_state = motor, rb_throughput = throughput, rb_belt_speed = belt,
            rb_jam_detected = jam, rb_bottle_count = bottles, rb_reject_count = rejects, rb_conveyor_active = active,
            rb_conveyor = conveyor, rb_valve = valve, rb_reject = reject\<rparr>)))))))))))"

text \<open>The intervals come from the stored state too; the identity starts a new session.\<close>

definition load_stream :: "doc \<Rightarrow> inspection_stream res" where
  "load_stream d =
     bindE (int_at ''session'' d) (\<lambda>session. bindE (int_at ''every_n_bottles'' d) (\<lambda>every_n.
     bindE (int_at ''fail_every_n_inspections'' d) (\<lambda>fail_every_n. bindE (int_at ''inspected'' d) (\<lambda>inspected.
     bindE (int_at ''failed'' d) (\<lambda>failed. bindE (int_at ''_bottles'' d) (\<lambda>bottles.
     bindE (int_at ''_sequence'' d) (\<lambda>sequence. bindE (ints_at ''_snapshot'' d) (\<lambda>registers.
       Inr \<lparr>is_session = session mod (2 ^ 64 - 1) + 1, is_every_n = every_n, is_fail_every_n = fail_every_n,
            is_inspected = inspected, is_failed = failed, is_bottles = bottles, is_sequence = 0,
            is_snapshot = registers\<rparr>))))))))"

definition load_ack :: "string \<times> json \<Rightarrow> (string \<times> int \<times> int) res" where
  "load_ack kv =
     bindE (json_ints (snd kv)) (\<lambda>v. case v of [sequence, status] \<Rightarrow> Inr (fst kv, sequence, status)
       | _ \<Rightarrow> Inl (ValueError ''acks''))"

definition load_state :: "'r generator \<Rightarrow> doc \<Rightarrow> 'r simulator \<Rightarrow> 'r simulator res" where
  "load_state G old w =
     bindE (bindE (obj_at ''block'' old) load_block) (\<lambda>block.
     bindE (bindE (obj_at ''inspection'' old) load_stream) (\<lambda>stream.
     bindE (bindE (obj_at ''acks'' old) (mapE load_ack)) (\<lambda>acks.
     bindE (bindE (dkey ''rng'' old) (gn_setstate G)) (\<lambda>r.
       Inr (w\<lparr>sm_block := block, sm_inspection := stream, sm_acks := acks, sm_rng := r\<rparr>)))))"

definition sim_commit :: "'r generator \<Rightarrow> doc option \<Rightarrow> doc option \<Rightarrow> real \<Rightarrow> ('r simulator, unit) act" where
  "sim_commit G event effect now w =
     (case sm_journal w of
        None \<Rightarrow> (w, Inr ())
      | Some j \<Rightarrow> (case journal_commit (simulator_snapshot G w) event effect now j of
                    (j', out) \<Rightarrow> (w\<lparr>sm_journal := Some j'\<rparr>, out)))"

text \<open>\<open>stored\<close> is the journal found on disk.\<close>

definition open_recovery ::
  "simulator_settings \<Rightarrow> 'r generator \<Rightarrow> string \<Rightarrow> source_journal option \<Rightarrow> real \<Rightarrow> ('r simulator, unit) act" where
  "open_recovery S G uid stored now =
     (if \<not> ss_journalled S then retS ()
      else bindS (liftS (journal_open (ss_outbox_capacity S) uid stored)) (\<lambda>j.
        case boot j of (j', boots) \<Rightarrow>
          thenS (putS (\<lambda>w. w\<lparr>sm_journal := Some j', sm_boot := boots\<rparr>))
          (thenS (case journal_state j' of
                    None \<Rightarrow> retS ()
                  | Some old \<Rightarrow> if old = JObj [] then retS () else (\<lambda>w. case bindE (as_obj old) (\<lambda>d. load_state G d w) of
                                      Inl e \<Rightarrow> (w, Inl e) | Inr w' \<Rightarrow> (w', Inr ())))
            (sim_commit G None None now))))"

section \<open>Registers and commands\<close>

definition put_regs :: "nat \<Rightarrow> int list \<Rightarrow> (nat \<Rightarrow> int) \<Rightarrow> nat \<Rightarrow> int" where
  "put_regs address values regs a = (if address \<le> a \<and> a < address + length values then values ! (a - address) else regs a)"

definition set_values :: "nat \<Rightarrow> int list \<Rightarrow> ('r simulator, unit) act" where
  "set_values address values = putS (\<lambda>w. w\<lparr>sm_registers := put_regs address values (sm_registers w)\<rparr>)"

text \<open>Command registers, acknowledgement registers and the key of the acknowledgement of a control.\<close>

datatype control_kind = Conveyor | Valve | Reject_Station

fun control_address :: "control_kind \<Rightarrow> nat" where
  "control_address Conveyor = 20" | "control_address Valve = 24" | "control_address Reject_Station = 28"

fun ack_address :: "control_kind \<Rightarrow> nat" where
  "ack_address Conveyor = 50" | "ack_address Valve = 52" | "ack_address Reject_Station = 54"

fun control_key :: "control_kind \<Rightarrow> string" where
  "control_key Conveyor = ''20''" | "control_key Valve = ''24''" | "control_key Reject_Station = ''28''"

definition control_kinds :: "control_kind list" where
  "control_kinds = [Conveyor, Valve, Reject_Station]"

definition build_context :: "'r simulator \<Rightarrow> 'r simulator" where
  "build_context w =
     w\<lparr>sm_registers := fold (\<lambda>c regs. case map_of (sm_acks w) (control_key c) of
          None \<Rightarrow> regs | Some (sequence, status) \<Rightarrow> put_regs (ack_address c) [sequence, status] regs)
        control_kinds (put_regs 0 (as_list (sm_block w)) (\<lambda>_. 0))\<rparr>"

fun control_apply :: "control_kind \<Rightarrow> int \<Rightarrow> int \<Rightarrow> register_block \<Rightarrow> register_block \<times> int" where
  "control_apply Conveyor operation v b =
     (case motor_apply (rb_conveyor b) operation v of (c, status) \<Rightarrow> (b\<lparr>rb_conveyor := c\<rparr>, status))"
| "control_apply Valve operation v b =
     (case valve_apply (rb_valve b) operation v of (c, status) \<Rightarrow> (b\<lparr>rb_valve := c\<rparr>, status))"
| "control_apply Reject_Station operation v b =
     (case reject_apply (rb_reject b) operation v of (c, status) \<Rightarrow> (b\<lparr>rb_reject := c\<rparr>, status))"

definition effect_doc ::
  "control_kind \<Rightarrow> int \<Rightarrow> int \<Rightarrow> int \<Rightarrow> int \<Rightarrow> int \<Rightarrow> int \<Rightarrow> int \<Rightarrow> doc" where
  "effect_doc c sequence operation v status before after device_boot =
     [(''target'', JInt (int (control_address c))), (''sequence'', JInt sequence), (''operation'', JInt operation),
      (''value'', JInt v), (''status'', JInt status), (''before_count'', JInt before), (''after_count'', JInt after),
      (''device_boot'', JInt device_boot)]"

definition process_control :: "'r generator \<Rightarrow> real \<Rightarrow> control_kind \<Rightarrow> ('r simulator, unit) act" where
  "process_control G now c =
     bindS (getS (\<lambda>w. w)) (\<lambda>w.
       let regs = sm_registers w; a = control_address c;
           sequence = regs a; operation = regs (a + 1); v = regs (a + 2) in
       if sequence = 0 \<or> sequence = regs (ack_address c) then retS ()
       else case control_apply c operation v (sm_block w) of
         (b, status) \<Rightarrow>
           let b' = b\<lparr>rb_reject_count := rc_count (rb_reject b)\<rparr> in
           thenS (putS (\<lambda>w. w\<lparr>sm_block := b', sm_acks := AList.update (control_key c) (sequence, status) (sm_acks w)\<rparr>))
           (thenS (sim_commit G None (Some (effect_doc c sequence operation v status (rc_count (rb_reject (sm_block w)))
                     (rc_count (rb_reject b')) (sm_boot w))) now)
             (set_values (ack_address c) [sequence, status])))"

text \<open>The receipt the gateway writes into registers 70 to 74.\<close>

definition take_receipt :: "('r simulator, unit) act" where
  "take_receipt =
     putS (\<lambda>w. case sm_journal w of
       None \<Rightarrow> w
     | Some j \<Rightarrow>
         (let regs = sm_registers w;
              session = push_bit 48 (regs 70) + push_bit 32 (regs 71) + push_bit 16 (regs 72) + regs 73 in
          if session \<noteq> 0 \<and> regs 74 \<noteq> 0
          then w\<lparr>sm_journal := Some (fst (journal_ack (inspection_id_of session (regs 74)) j))\<rparr>
          else w))"

definition process_controls :: "'r generator \<Rightarrow> real \<Rightarrow> ('r simulator, unit) act" where
  "process_controls G now =
     thenS take_receipt (thenS (process_control G now Conveyor)
       (thenS (process_control G now Valve) (process_control G now Reject_Station)))"

section \<open>The tick\<close>

definition outbox_full :: "simulator_settings \<Rightarrow> 'r simulator \<Rightarrow> bool" where
  "outbox_full S w \<longleftrightarrow> (case sm_journal w of None \<Rightarrow> False | Some j \<Rightarrow> ss_outbox_capacity S \<le> journal_pending j)"

definition halt_block :: "register_block \<Rightarrow> register_block" where
  "halt_block b = b\<lparr>rb_belt_speed := 0, rb_throughput := 0, rb_conveyor_active := 0\<rparr>"

definition move_plant :: "simulator_settings \<Rightarrow> 'r generator \<Rightarrow> datetime \<Rightarrow> ('r simulator, unit) act" where
  "move_plant S G now w =
     (case block_tick G 20 (ss_jam_probability S) (sm_block w) (sm_rng w) of
        (b, r) \<Rightarrow>
          (let w1 = w\<lparr>sm_block := b, sm_rng := r\<rparr> in
           if rb_bottle_count b \<noteq> rb_bottle_count (sm_block w)
           then (case stream_observe (sm_inspection w1) (rb_bottle_count b) now of
                   (s, out) \<Rightarrow> (w1\<lparr>sm_inspection := s\<rparr>, out))
           else (w1, Inr ())))"

text \<open>The event of a new inspection goes into the journal with the snapshot.\<close>

definition journal_tick :: "'r generator \<Rightarrow> int \<Rightarrow> datetime \<Rightarrow> ('r simulator, unit) act" where
  "journal_tick G previous_inspected now =
     bindS (getS (\<lambda>w. w)) (\<lambda>w.
       if sm_journal w = None then retS ()
       else bindS (if is_inspected (sm_inspection w) \<noteq> previous_inspected
                   then liftS (decode_inspection (stream_registers (sm_inspection w))) else retS None) (\<lambda>event.
         sim_commit G (map_option inspection_doc event) None (timestamp now)))"

definition head_registers :: "(json \<Rightarrow> bottle_inspection res) \<Rightarrow> source_journal \<Rightarrow> int list res" where
  "head_registers parse j =
     (case journal_head j of
        None \<Rightarrow> encode_inspection None
      | Some head \<Rightarrow> bindE (parse head) (\<lambda>event. encode_inspection (Some event)))"

definition publish_registers :: "(json \<Rightarrow> bottle_inspection res) \<Rightarrow> ('r simulator, unit) act" where
  "publish_registers parse =
     bindS (getS (\<lambda>w. w)) (\<lambda>w.
     let b = sm_block w in
     thenS (set_values 0 (as_list b))
     (thenS (set_values 8 [if vc_opened (rb_valve b) then 1 else 0, if mc_running (rb_conveyor b) then 1 else 0,
               mc_setpoint (rb_conveyor b), rc_last_bottle (rb_reject b)])
     (thenS (set_values 32 (stream_registers (sm_inspection w)))
       (case sm_journal w of
          None \<Rightarrow> retS ()
        | Some j \<Rightarrow> bindS (liftS (head_registers parse j)) (set_values 60)))))"

definition sim_tick ::
  "simulator_settings \<Rightarrow> 'r generator \<Rightarrow> (json \<Rightarrow> bottle_inspection res) \<Rightarrow> datetime \<Rightarrow> ('r simulator, unit) act" where
  "sim_tick S G parse now =
     thenS (process_controls G (timestamp now))
     (bindS (getS (\<lambda>w. w)) (\<lambda>w.
      thenS (if outbox_full S w then putS (\<lambda>w. w\<lparr>sm_block := halt_block (sm_block w)\<rparr>) else move_plant S G now)
      (thenS (journal_tick G (is_inspected (sm_inspection w)) now) (publish_registers parse))))"

definition start_simulator ::
  "simulator_settings \<Rightarrow> 'r generator \<Rightarrow> string \<Rightarrow> source_journal option \<Rightarrow> real \<Rightarrow> 'r simulator \<Rightarrow> 'r simulator \<times> unit res" where
  "start_simulator S G uid stored now w =
     thenS (open_recovery S G uid stored now) (putS build_context) w"

end
