(* ===== verification/Modbus_Recovery.thy ===== *)
theory Modbus_Recovery
  imports Modbus_Simulator
begin

text \<open>
  What the journal of the Modbus simulator gives: a restart reads back the plant, the random
  numbers and the acknowledgements it wrote, and a command is carried out once even across restarts.
\<close>

section \<open>Reading what was written\<close>

definition canonical_doc :: "doc \<Rightarrow> doc" where
  "canonical_doc d = obj_members (sorted_keys (JObj d))"

lemma sorted_keys_JObj: "sorted_keys (JObj d) = JObj (canonical_doc d)"
  by (simp add: canonical_doc_def)

lemma dkey_canonical:
  "distinct (map fst d) \<Longrightarrow> dkey k (canonical_doc d) = bindE (dkey k d) (\<lambda>v. Inr (sorted_keys v))"
  unfolding dkey_def canonical_doc_def by (simp only: sorted_keys_lookup) (simp split: option.split)

lemma json_int_sorted [simp]: "json_int (sorted_keys j) = json_int j"
  by (cases j) auto

lemma json_bool_sorted [simp]: "json_bool (sorted_keys j) = json_bool j"
  by (cases j) auto

lemma mapE_map: "mapE f (map g xs) = mapE (f \<circ> g) xs"
  by (induction xs) auto

lemma json_ints_sorted [simp]: "json_ints (sorted_keys j) = json_ints j"
  by (cases j) (auto simp: mapE_map comp_def)

lemma mapE_JInt [simp]: "mapE json_int (map JInt xs) = Inr xs"
  by (induction xs) auto

lemma at_canonical:
  assumes "distinct (map fst d)"
  shows "int_at k (canonical_doc d) = int_at k d" "bool_at k (canonical_doc d) = bool_at k d"
    "ints_at k (canonical_doc d) = ints_at k d"
  unfolding int_at_def bool_at_def ints_at_def dkey_canonical [OF assms]
  by (cases "dkey k d"; simp)+

lemma obj_at_canonical:
  assumes "distinct (map fst d)" "dkey k d = Inr (JObj e)"
  shows "obj_at k (canonical_doc d) = Inr (canonical_doc e)"
  unfolding obj_at_def dkey_canonical [OF assms(1)] assms(2) by (simp add: canonical_doc_def)

lemma load_motor_doc: "load_motor (canonical_doc (motor_doc m)) = Inr m"
  unfolding load_motor_def by (subst at_canonical, simp add: motor_doc_def)+ (simp add: motor_doc_def int_at_def bool_at_def dkey_def)

lemma load_valve_doc: "load_valve (canonical_doc (valve_doc v)) = Inr v"
  unfolding load_valve_def by (subst at_canonical, simp add: valve_doc_def) (simp add: valve_doc_def bool_at_def dkey_def)

lemma load_reject_doc: "finite (rc_rejected r) \<Longrightarrow> load_reject (canonical_doc (reject_doc r)) = Inr r"
  unfolding load_reject_def
  by (subst at_canonical, simp add: reject_doc_def)+ (simp add: reject_doc_def int_at_def ints_at_def dkey_def)

lemma load_block_doc:
  assumes "finite (rc_rejected (rb_reject b))"
  shows "load_block (canonical_doc (block_doc b)) = Inr b"
proof -
  have d: "distinct (map fst (block_doc b))" by (simp add: block_doc_def)
  have "obj_at ''conveyor'' (canonical_doc (block_doc b)) = Inr (canonical_doc (motor_doc (rb_conveyor b)))"
    "obj_at ''valve'' (canonical_doc (block_doc b)) = Inr (canonical_doc (valve_doc (rb_valve b)))"
    "obj_at ''reject'' (canonical_doc (block_doc b)) = Inr (canonical_doc (reject_doc (rb_reject b)))"
    by (intro obj_at_canonical [OF d]; simp add: block_doc_def dkey_def)+
  then show ?thesis
    unfolding load_block_def at_canonical [OF d]
    by (simp add: load_motor_doc load_valve_doc load_reject_doc [OF assms]) (simp add: block_doc_def int_at_def dkey_def)
qed

lemma load_stream_doc:
  "load_stream (canonical_doc (stream_doc s)) = Inr (s\<lparr>is_session := is_session s mod (2 ^ 64 - 1) + 1, is_sequence := 0\<rparr>)"
proof -
  have d: "distinct (map fst (stream_doc s))" by (simp add: stream_doc_def)
  show ?thesis unfolding load_stream_def at_canonical [OF d] by (simp add: stream_doc_def int_at_def ints_at_def dkey_def)
qed

lemma insort_key_map: "insort_key f (h x) (map h xs) = map h (insort_key (\<lambda>y. f (h y)) x xs)"
  by (induction xs) auto

lemma sort_key_map: "sort_key f (map h xs) = map h (sort_key (\<lambda>y. f (h y)) xs)"
  by (induction xs) (auto simp: insort_key_map)

lemma load_acks_doc: "mapE load_ack (canonical_doc (acks_doc acks)) = Inr (sort_key fst acks)"
proof -
  let ?h = "\<lambda>(k, sequence, status). (k, JArr [JInt sequence, JInt status])"
  have "map (map_prod id sorted_keys) (acks_doc acks) = map ?h acks" by (auto simp: acks_doc_def)
  then have "canonical_doc (acks_doc acks) = sort_key fst (map ?h acks)" by (simp add: canonical_doc_def)
  moreover have key: "(\<lambda>x. fst (?h x)) = fst" by auto
  have "sort_key fst (map ?h acks) = map ?h (sort_key fst acks)"
    using sort_key_map [of fst ?h acks] unfolding key .
  ultimately have "canonical_doc (acks_doc acks) = map ?h (sort_key fst acks)" by simp
  moreover have "mapE load_ack (map ?h xs) = Inr xs" for xs
    by (induction xs) (auto simp: load_ack_def)
  ultimately show ?thesis by simp
qed

lemma distinct_sort_key: "distinct (map f (sort_key g xs)) = distinct (map f xs)"
  using mset_eq_imp_distinct_iff [of "map f (sort_key g xs)" "map f xs"] by simp

text \<open>The state of a simulator, as the journal keeps it.\<close>

definition saved_state :: "'r generator \<Rightarrow> 'r simulator \<Rightarrow> json" where
  "saved_state G w = sorted_keys (JObj (simulator_snapshot G w))"

lemma saved_fields:
  assumes "as_obj (saved_state G w) = Inr d"
  shows "obj_at ''block'' d = Inr (canonical_doc (block_doc (sm_block w)))"
    "obj_at ''inspection'' d = Inr (canonical_doc (stream_doc (sm_inspection w)))"
    "obj_at ''acks'' d = Inr (canonical_doc (acks_doc (sm_acks w)))"
    "dkey ''rng'' d = Inr (sorted_keys (gn_getstate G (sm_rng w)))"
proof -
  have d: "d = canonical_doc (simulator_snapshot G w)"
    using assms by (simp add: saved_state_def sorted_keys_JObj del: sorted_keys.simps)
  have dist: "distinct (map fst (simulator_snapshot G w))" by (simp add: simulator_snapshot_def)
  show "obj_at ''block'' d = Inr (canonical_doc (block_doc (sm_block w)))"
    "obj_at ''inspection'' d = Inr (canonical_doc (stream_doc (sm_inspection w)))"
    "obj_at ''acks'' d = Inr (canonical_doc (acks_doc (sm_acks w)))"
    unfolding d by (intro obj_at_canonical [OF dist]; simp add: simulator_snapshot_def dkey_def)+
  show "dkey ''rng'' d = Inr (sorted_keys (gn_getstate G (sm_rng w)))"
    unfolding d dkey_canonical [OF dist] by (simp add: simulator_snapshot_def dkey_def)
qed

lemma load_state_acks:
  assumes "load_state G d w' = Inr w''" "as_obj (saved_state G w) = Inr d" "distinct (map fst (sm_acks w))"
  shows "map_of (sm_acks w'') = map_of (sm_acks w) \<and> sm_journal w'' = sm_journal w' \<and> sm_boot w'' = sm_boot w'"
  using assms(1) saved_fields [OF assms(2)]
  by (auto simp: load_state_def load_acks_doc map_of_sort_key [OF assms(3)] bindE_Inr_iff)

lemma load_state_saved:
  assumes "as_obj (saved_state G w) = Inr d" "finite (rc_rejected (rb_reject (sm_block w)))"
    and "gn_setstate G (sorted_keys (gn_getstate G (sm_rng w))) = Inr (sm_rng w)"
  shows "load_state G d w' = Inr (w'\<lparr>sm_block := sm_block w,
     sm_inspection := (sm_inspection w)\<lparr>is_session := is_session (sm_inspection w) mod (2 ^ 64 - 1) + 1, is_sequence := 0\<rparr>,
     sm_acks := sort_key fst (sm_acks w), sm_rng := sm_rng w\<rparr>)"
  unfolding load_state_def saved_fields [OF assms(1)]
  by (simp add: load_block_doc [OF assms(2)] load_stream_doc load_acks_doc assms(3))

section \<open>What a commit saves\<close>

lemma insert_event_frame:
  "insert_event event now j = (j', Inr ()) \<Longrightarrow> sj_effects j' = sj_effects j"
  by (auto dest!: insert_event_cases)

lemma commit_saves:
  assumes "journal_commit state event effect now j = (j', Inr ())"
  shows "sj_state j' = Some (sorted_keys (JObj state)) \<and>
    sj_effects j' = sj_effects j @ (case effect of None \<Rightarrow> [] | Some f \<Rightarrow> [(now, sorted_keys (JObj f))])"
proof -
  obtain j1 where 1: "(case event of None \<Rightarrow> retS () | Some e \<Rightarrow> insert_event e now) j = (j1, Inr ())"
      and 2: "bindS (liftS (canonical (JObj state))) (\<lambda>s.
      thenS (putS (\<lambda>j. j\<lparr>sj_state := Some s\<rparr>))
      (thenS (case effect of
           None \<Rightarrow> retS ()
         | Some f \<Rightarrow> bindS (liftS (canonical (JObj f))) (\<lambda>b. putS (\<lambda>j. j\<lparr>sj_effects := sj_effects j @ [(now, b)]\<rparr>)))
        (putS (\<lambda>j. j\<lparr>sj_events := filter (\<lambda>e. \<not> (ev_received e \<and> ev_created e < now - 86400)) (sj_events j)\<rparr>)))) j1 = (j', Inr ())"
    using assms
    by (auto simp: journal_commit_def transaction_def bindS_Inr_iff split: prod.splits sum.splits)
  have "sj_effects j1 = sj_effects j" using 1 by (cases event) (auto dest: insert_event_frame)
  then show ?thesis using 2
    by (cases effect) (auto simp: bindS_Inr_iff canonical_Inr simp del: sorted_keys.simps)
qed

lemma sim_commit_Inr:
  assumes "sim_commit G event effect now w = (w', Inr ())" "sm_journal w = Some j"
  shows "\<exists>j'. w' = w\<lparr>sm_journal := Some j'\<rparr> \<and> sj_state j' = Some (saved_state G w) \<and>
    sj_effects j' = sj_effects j @ (case effect of None \<Rightarrow> [] | Some f \<Rightarrow> [(now, sorted_keys (JObj f))])"
  using assms commit_saves by (fastforce simp: sim_commit_def saved_state_def split: prod.splits)

section \<open>Commands carried out\<close>

definition int_member :: "string \<Rightarrow> json \<Rightarrow> int" where
  "int_member k v = (case dget k (obj_members v) of Some (JInt n) \<Rightarrow> n | _ \<Rightarrow> 0)"

text \<open>The sequence numbers of the commands a control carried out, as the journal lists them.\<close>

definition carried_out :: "control_kind \<Rightarrow> source_journal \<Rightarrow> int list" where
  "carried_out c j =
     map (int_member ''sequence'') (filter (\<lambda>e. int_member ''target'' e = int (control_address c)) (map snd (sj_effects j)))"

lemma int_member_effect:
  "int_member ''sequence'' (sorted_keys (JObj (effect_doc c n operation v status before after boots))) = n"
  "int_member ''target'' (sorted_keys (JObj (effect_doc c n operation v status before after boots))) = int (control_address c)"
proof -
  have d: "distinct (map fst (effect_doc c n operation v status before after boots))" by (simp add: effect_doc_def)
  show "int_member ''sequence'' (sorted_keys (JObj (effect_doc c n operation v status before after boots))) = n"
    "int_member ''target'' (sorted_keys (JObj (effect_doc c n operation v status before after boots))) = int (control_address c)"
    unfolding int_member_def dget_def sorted_keys_lookup [OF d] by (simp_all add: effect_doc_def)
qed

lemma control_inject [simp]:
  "control_address c = control_address c' \<longleftrightarrow> c = c'" "control_key c = control_key c' \<longleftrightarrow> c = c'"
  by (cases c; cases c'; simp)+

lemma carried_out_commit:
  assumes "sj_effects j' = sj_effects j @ [(now, sorted_keys (JObj (effect_doc c n operation v status before after boots)))]"
  shows "carried_out c' j' = carried_out c' j @ (if c' = c then [n] else [])"
  using assms by (simp add: carried_out_def int_member_effect del: sorted_keys.simps)

text \<open>The acknowledgement of a control is that of its last command, in memory, in the register and in the journal.\<close>

definition ack_sequence :: "(string \<times> int \<times> int) list \<Rightarrow> control_kind \<Rightarrow> int" where
  "ack_sequence acks c = (case map_of acks (control_key c) of None \<Rightarrow> 0 | Some (n, status) \<Rightarrow> n)"

definition last_command :: "control_kind \<Rightarrow> source_journal \<Rightarrow> int" where
  "last_command c j = (if carried_out c j = [] then 0 else last (carried_out c j))"

definition window_ok :: "'r simulator \<Rightarrow> bool" where
  "window_ok w \<longleftrightarrow> length (is_snapshot (sm_inspection w)) = 10"

definition acks_agree :: "'r generator \<Rightarrow> 'r simulator \<Rightarrow> bool" where
  "acks_agree G w \<longleftrightarrow>
     (\<exists>j. sm_journal w = Some j \<and> distinct (map fst (sm_acks w)) \<and> window_ok w \<and>
        (\<exists>v. sj_state j = Some (saved_state G v) \<and> distinct (map fst (sm_acks v)) \<and> map_of (sm_acks v) = map_of (sm_acks w) \<and>
             window_ok v) \<and>
        (\<forall>c. ack_sequence (sm_acks w) c = last_command c j \<and> sm_registers w (ack_address c) = last_command c j \<and>
             distinct_adj (carried_out c j)))"

text \<open>A step that changes neither acknowledgements nor effects, and saves the state it leaves or none.\<close>

lemma acks_agree_frame:
  assumes "acks_agree G w" "sm_journal w = Some j" "sm_acks w' = sm_acks w" "sm_journal w' = Some j'"
    and "sj_effects j' = sj_effects j"
    and "\<forall>c. sm_registers w' (ack_address c) = sm_registers w (ack_address c)" "window_ok w'"
    and "sj_state j' = sj_state j \<or> (\<exists>v. sj_state j' = Some (saved_state G v) \<and> sm_acks v = sm_acks w \<and> window_ok v)"
  shows "acks_agree G w'"
proof -
  have same: "carried_out c j' = carried_out c j" for c using assms(5) by (simp add: carried_out_def)
  have agree: "distinct (map fst (sm_acks w))"
    "\<forall>c. ack_sequence (sm_acks w) c = last_command c j \<and> sm_registers w (ack_address c) = last_command c j \<and>
       distinct_adj (carried_out c j)"
    using assms(1,2) unfolding acks_agree_def by auto
  obtain v where v: "sj_state j' = Some (saved_state G v)" "distinct (map fst (sm_acks v))"
      "map_of (sm_acks v) = map_of (sm_acks w)" "window_ok v"
    using assms(1,2,8) agree(1) unfolding acks_agree_def by (metis option.inject)
  show ?thesis
    unfolding acks_agree_def assms(3,4)
    by (intro exI [of _ j'] exI [of _ v] conjI refl agree(1) v assms(7))
       (use agree(2) assms(6) in \<open>simp add: last_command_def same\<close>)
qed

lemma put_regs_ack:
  "address + length vs \<le> 50 \<or> 56 \<le> address \<Longrightarrow> put_regs address vs regs (ack_address c) = regs (ack_address c)"
  by (cases c) (auto simp: put_regs_def)

lemma acks_agree_journal: "acks_agree G w \<Longrightarrow> \<exists>j. sm_journal w = Some j"
  by (auto simp: acks_agree_def)

text \<open>Steps that leave journal and acknowledgements alone.\<close>

lemma acks_agree_same:
  assumes "acks_agree G w" "sm_acks w' = sm_acks w" "sm_journal w' = sm_journal w" "window_ok w'"
    and "\<forall>c. sm_registers w' (ack_address c) = sm_registers w (ack_address c)"
  shows "acks_agree G w'"
proof -
  obtain j where "sm_journal w = Some j" using acks_agree_journal [OF assms(1)] by blast
  then show ?thesis using acks_agree_frame [OF assms(1) _ assms(2) _ refl assms(5,4)] assms(3) by simp
qed

lemma acks_agree_window: "acks_agree G w \<Longrightarrow> window_ok w"
  by (auto simp: acks_agree_def)

lemma set_values_agree:
  assumes "acks_agree G w" "set_values address vs w = (w', r)" "address + length vs \<le> 50 \<or> 56 \<le> address"
  shows "acks_agree G w' \<and> sm_inspection w' = sm_inspection w"
proof -
  have w': "w' = w\<lparr>sm_registers := put_regs address vs (sm_registers w)\<rparr>" using assms(2) by (simp add: set_values_def)
  have "acks_agree G w'" unfolding w'
    by (rule acks_agree_same [OF assms(1)])
       (use acks_agree_window [OF assms(1)] assms(3) in \<open>simp_all add: put_regs_ack window_ok_def\<close>)
  then show ?thesis by (simp add: w')
qed

lemma stream_observe_window:
  "length (is_snapshot s) = 10 \<Longrightarrow> length (is_snapshot (fst (stream_observe s b now))) = 10"
  by (simp add: stream_observe_def Let_def split: prod.splits)

lemma move_plant_agree:
  assumes "acks_agree G w" shows "acks_agree G (fst (move_plant S G now w))"
proof -
  have "length (is_snapshot (sm_inspection w)) = 10" using acks_agree_window [OF assms] by (simp add: window_ok_def)
  then have "window_ok (fst (move_plant S G now w))"
    using stream_observe_window [of "sm_inspection w"]
    by (auto simp: move_plant_def Let_def window_ok_def split: prod.splits) (metis fst_conv)
  then show ?thesis
    by (intro acks_agree_same [OF assms]) (auto simp: move_plant_def Let_def split: prod.splits)
qed

lemma halt_agree: "acks_agree G w \<Longrightarrow> acks_agree G (w\<lparr>sm_block := halt_block (sm_block w)\<rparr>)"
  by (rule acks_agree_same) (auto simp: window_ok_def dest: acks_agree_window)

lemma publish_registers_agree:
  assumes "acks_agree G w" "publish_registers parse w = (w', Inr ())"
  shows "acks_agree G w'"
proof -
  obtain w1 w2 w3 where s: "set_values 0 (as_list (sm_block w)) w = (w1, Inr ())"
      "set_values 8 [if vc_opened (rb_valve (sm_block w)) then 1 else 0, if mc_running (rb_conveyor (sm_block w)) then 1 else 0,
               mc_setpoint (rb_conveyor (sm_block w)), rc_last_bottle (rb_reject (sm_block w))] w1 = (w2, Inr ())"
      "set_values 32 (stream_registers (sm_inspection w)) w2 = (w3, Inr ())"
      "(case sm_journal w of None \<Rightarrow> retS () | Some j \<Rightarrow> bindS (liftS (head_registers parse j)) (set_values 60)) w3 = (w', Inr ())"
    using assms(2) unfolding publish_registers_def Let_def by (auto simp: bindS_Inr_iff)
  have 1: "acks_agree G w1 \<and> sm_inspection w1 = sm_inspection w" by (rule set_values_agree [OF assms(1) s(1)]) (simp add: as_list_def)
  then have 2: "acks_agree G w2 \<and> sm_inspection w2 = sm_inspection w" using set_values_agree [of G, OF _ s(2)] by simp
  then have 3: "acks_agree G w3"
    using set_values_agree [of G, OF _ s(3)] acks_agree_window [of G w2] by (simp add: window_ok_def stream_registers_def)
  from s(4) show ?thesis
    using 3 set_values_agree [OF 3] by (auto simp: bindS_Inr_iff split: option.splits)
qed

lemma take_receipt_agree:
  assumes "acks_agree G w" shows "acks_agree G (fst (take_receipt w))"
proof -
  obtain j where j: "sm_journal w = Some j" using acks_agree_journal [OF assms] by blast
  have frame: "sj_effects (fst (journal_ack i j)) = sj_effects j" "sj_state (fst (journal_ack i j)) = sj_state j" for i
    by (auto simp: journal_ack_def split: option.splits)
  have "fst (take_receipt w) = w \<or> (\<exists>i. fst (take_receipt w) = w\<lparr>sm_journal := Some (fst (journal_ack i j))\<rparr>)"
    using j by (auto simp: take_receipt_def Let_def)
  then show ?thesis
  proof (elim disjE exE)
    fix i
    assume i: "fst (take_receipt w) = w\<lparr>sm_journal := Some (fst (journal_ack i j))\<rparr>"
    show ?thesis unfolding i
      by (rule acks_agree_frame [OF assms j, where j' = "fst (journal_ack i j)"]) (use frame acks_agree_window [OF assms] in \<open>simp_all add: window_ok_def\<close>)
  qed (use assms in simp)
qed

lemma journal_tick_agree:
  assumes "acks_agree G w" "journal_tick G n now w = (w', Inr ())"
  shows "acks_agree G w'"
proof -
  obtain j where j: "sm_journal w = Some j" using acks_agree_journal [OF assms(1)] by blast
  obtain event where c: "sim_commit G event None (timestamp now) w = (w', Inr ())"
    using assms(2) j by (auto simp: journal_tick_def bindS_Inr_iff split: if_splits)
  obtain j' where j': "w' = w\<lparr>sm_journal := Some j'\<rparr>" "sj_state j' = Some (saved_state G w)" "sj_effects j' = sj_effects j"
    using sim_commit_Inr [OF c j] by auto
  show ?thesis
    by (rule acks_agree_frame [OF assms(1) j, where j' = j'])
       (use j' acks_agree_window [OF assms(1)] in \<open>auto simp: window_ok_def\<close>)
qed

lemma put_ack:
  "put_regs (ack_address c) [n, status] regs (ack_address c') = (if c' = c then n else regs (ack_address c'))"
  by (cases c; cases c') (simp_all add: put_regs_def)

lemma process_control_agree:
  assumes inv: "acks_agree G w" and p: "process_control G now c w = (w', Inr ())"
  shows "acks_agree G w'"
proof -
  obtain j where j: "sm_journal w = Some j" "distinct (map fst (sm_acks w))"
      "\<forall>c. ack_sequence (sm_acks w) c = last_command c j \<and> sm_registers w (ack_address c) = last_command c j \<and>
         distinct_adj (carried_out c j)"
    using inv unfolding acks_agree_def by auto
  let ?n = "sm_registers w (control_address c)"
  show ?thesis
  proof (cases "?n = 0 \<or> ?n = sm_registers w (ack_address c)")
    case True
    then show ?thesis using p inv by (auto simp: process_control_def Let_def)
  next
    case False
    let ?op = "sm_registers w (control_address c + 1)" and ?v = "sm_registers w (control_address c + 2)"
    obtain b status where b: "control_apply c ?op ?v (sm_block w) = (b, status)" by fastforce
    let ?w = "w\<lparr>sm_block := b\<lparr>rb_reject_count := rc_count (rb_reject b)\<rparr>,
        sm_acks := AList.update (control_key c) (?n, status) (sm_acks w)\<rparr>"
    obtain w2 where w2: "sim_commit G None (Some (effect_doc c ?n ?op ?v status (rc_count (rb_reject (sm_block w)))
          (rc_count (rb_reject b)) (sm_boot w))) now ?w = (w2, Inr ())"
        "set_values (ack_address c) [?n, status] w2 = (w', Inr ())"
      using p False b by (auto simp: process_control_def Let_def bindS_Inr_iff)
    obtain j' where j': "w2 = ?w\<lparr>sm_journal := Some j'\<rparr>" "sj_state j' = Some (saved_state G ?w)"
        "sj_effects j' = sj_effects j @ [(now, sorted_keys (JObj (effect_doc c ?n ?op ?v status
           (rc_count (rb_reject (sm_block w))) (rc_count (rb_reject b)) (sm_boot w))))]"
      using sim_commit_Inr [OF w2(1), of j] j(1) by auto
    have w': "w' = w2\<lparr>sm_registers := put_regs (ack_address c) [?n, status] (sm_registers w)\<rparr>"
      using w2(2) j'(1) by (simp add: set_values_def)
    have co: "carried_out c' j' = carried_out c' j @ (if c' = c then [?n] else [])" for c'
      by (rule carried_out_commit [OF j'(3)])
    have ack: "ack_sequence (AList.update (control_key c) (?n, status) (sm_acks w)) c' =
        (if c' = c then ?n else ack_sequence (sm_acks w) c')" for c'
      by (simp add: ack_sequence_def update_conv)
    have "last_command c j \<noteq> ?n" using j(3) False by metis
    then have adj: "distinct_adj (carried_out c' j')" for c'
      using j(3) co [of c'] by (auto simp: distinct_adj_append_iff last_command_def)
    have ok: "window_ok ?w" using acks_agree_window [OF inv] by (simp add: window_ok_def)
    have "distinct (map fst (sm_acks ?w))" using j(2) by (simp add: distinct_update)
    moreover have "last_command c' j' = (if c' = c then ?n else last_command c' j)" for c'
      by (simp add: last_command_def co)
    ultimately show ?thesis
      unfolding acks_agree_def w' j'(1)
      by (intro exI [of _ j'] exI [of _ ?w] conjI allI)
         (use j'(2) j(3) adj ok in \<open>simp_all add: ack put_ack window_ok_def\<close>)
  qed
qed

lemma ack_step:
  "(case map_of acks (control_key c) of None \<Rightarrow> regs | Some (n, status) \<Rightarrow> put_regs (ack_address c) [n, status] regs) (ack_address c') =
     (if c' = c \<and> map_of acks (control_key c) \<noteq> None then ack_sequence acks c else regs (ack_address c'))"
  by (auto simp: put_ack ack_sequence_def split: option.split prod.split)

lemma fold_acks:
  "distinct cs \<Longrightarrow>
     fold (\<lambda>c regs. case map_of acks (control_key c) of None \<Rightarrow> regs | Some (n, status) \<Rightarrow> put_regs (ack_address c) [n, status] regs)
       cs regs (ack_address c') =
     (if c' \<in> set cs \<and> map_of acks (control_key c') \<noteq> None then ack_sequence acks c' else regs (ack_address c'))"
proof (induction cs arbitrary: regs)
  case (Cons c cs)
  then show ?case
    unfolding fold.simps comp_apply by (subst Cons.IH) (auto simp only: ack_step distinct.simps list.set insert_iff split: if_splits)
qed simp

lemma build_context_ack: "sm_registers (build_context w) (ack_address c) = ack_sequence (sm_acks w) c"
proof -
  have regs: "sm_registers (w\<lparr>sm_registers := r\<rparr>) = r" for r by simp
  have zero: "put_regs 0 (as_list b) (\<lambda>_. 0) (ack_address c) = 0" for b by (simp add: put_regs_ack as_list_def)
  have "distinct control_kinds" "c \<in> set control_kinds" by (cases c; simp add: control_kinds_def)+
  then show ?thesis
    unfolding build_context_def regs fold_acks [OF \<open>distinct control_kinds\<close>]
    by (simp add: zero ack_sequence_def split: option.split)
qed

lemma build_context_frame:
  "sm_journal (build_context w) = sm_journal w" "sm_acks (build_context w) = sm_acks w"
  "sm_inspection (build_context w) = sm_inspection w"
  by (simp_all add: build_context_def)

section \<open>Restarts\<close>

text \<open>What a completed start-up does.\<close>

lemma start_simulator_Inr:
  assumes s: "start_simulator S G uid stored now w0 = (w', Inr ())" and on: "ss_journalled S"
  obtains j w1 j' where "journal_open (ss_outbox_capacity S) uid stored = Inr j"
    "w1 = w0\<lparr>sm_journal := Some (fst (boot j)), sm_boot := snd (boot j)\<rparr> \<and> (sj_state j = None \<or> sj_state j = Some (JObj [])) \<or>
     (\<exists>old d. sj_state j = Some old \<and> as_obj old = Inr d \<and>
        load_state G d (w0\<lparr>sm_journal := Some (fst (boot j)), sm_boot := snd (boot j)\<rparr>) = Inr w1)"
    "w' = build_context (w1\<lparr>sm_journal := Some j'\<rparr>)" "sj_state j' = Some (saved_state G w1)"
    "sj_effects j' = sj_effects (fst (boot j))"
proof -
  obtain j where j: "journal_open (ss_outbox_capacity S) uid stored = Inr j"
    using s on by (auto simp: start_simulator_def open_recovery_def bindS_Inr_iff)
  let ?w = "w0\<lparr>sm_journal := Some (fst (boot j)), sm_boot := snd (boot j)\<rparr>"
  have state: "journal_state (fst (boot j)) = sj_state j" by (simp add: boot_def Let_def journal_state_def)
  obtain w2 where o: "open_recovery S G uid stored now w0 = (w2, Inr ())" "w' = build_context w2"
    using s by (auto simp: start_simulator_def bindS_Inr_iff)
  obtain w1 where w1: "(case sj_state j of None \<Rightarrow> retS ()
        | Some old \<Rightarrow> if old = JObj [] then retS () else (\<lambda>w. case bindE (as_obj old) (\<lambda>d. load_state G d w) of
                                      Inl e \<Rightarrow> (w, Inl e) | Inr w' \<Rightarrow> (w', Inr ()))) ?w = (w1, Inr ())"
      "sim_commit G None None now w1 = (w2, Inr ())"
    using o(1) on j state by (auto simp: open_recovery_def bindS_Inr_iff case_prod_beta)
  have cases: "w1 = ?w \<and> (sj_state j = None \<or> sj_state j = Some (JObj [])) \<or>
     (\<exists>old d. sj_state j = Some old \<and> as_obj old = Inr d \<and> load_state G d ?w = Inr w1)"
    using w1(1) by (auto simp: bindE_Inr_iff split: option.splits if_splits sum.splits)
  then have "sm_journal w1 = Some (fst (boot j))"
    by (auto simp: load_state_def bindE_Inr_iff)
  from sim_commit_Inr [OF w1(2) this] obtain j' where "w2 = w1\<lparr>sm_journal := Some j'\<rparr>" "sj_state j' = Some (saved_state G w1)"
      "sj_effects j' = sj_effects (fst (boot j))" by auto
  then show thesis using that [OF j cases] o(2) by blast
qed

lemma boot_frame: "sj_effects (fst (boot j)) = sj_effects j"
  by (simp add: boot_def Let_def)

lemma first_start_agree:
  assumes "start_simulator S G uid None now w0 = (w', Inr ())" "ss_journalled S" "sm_acks w0 = []" "window_ok w0"
  shows "acks_agree G w'"
proof -
  obtain j w1 j' where o: "journal_open (ss_outbox_capacity S) uid None = Inr j"
      "w1 = w0\<lparr>sm_journal := Some (fst (boot j)), sm_boot := snd (boot j)\<rparr> \<and> (sj_state j = None \<or> sj_state j = Some (JObj [])) \<or>
       (\<exists>old d. sj_state j = Some old \<and> as_obj old = Inr d \<and>
          load_state G d (w0\<lparr>sm_journal := Some (fst (boot j)), sm_boot := snd (boot j)\<rparr>) = Inr w1)"
      "w' = build_context (w1\<lparr>sm_journal := Some j'\<rparr>)" "sj_state j' = Some (saved_state G w1)"
      "sj_effects j' = sj_effects (fst (boot j))"
    using start_simulator_Inr [OF assms(1,2)] by metis
  have j: "sj_state j = None" "sj_effects j = []" using o(1) by (auto simp: journal_open_def split: if_splits)
  have w1: "sm_acks w1 = []" "window_ok w1" using o(2) j assms(3,4) by (auto simp: window_ok_def)
  have none: "carried_out c j' = []" for c using o(5) j boot_frame by (simp add: carried_out_def)
  show ?thesis
    unfolding acks_agree_def o(3)
    by (intro exI [of _ j'] exI [of _ w1] conjI allI)
       (use o(4) w1 none in \<open>simp_all add: build_context_frame build_context_ack last_command_def ack_sequence_def window_ok_def\<close>)
qed

lemma load_state_window:
  assumes "load_state G d w' = Inr w''" "as_obj (saved_state G w) = Inr d" "window_ok w"
  shows "window_ok w''"
  using assms(1,3) saved_fields [OF assms(2)]
  by (auto simp: load_state_def load_stream_doc window_ok_def bindE_Inr_iff)

lemma restart_agree:
  assumes inv: "acks_agree G w" "sm_journal w = Some j0"
    and s: "start_simulator S G uid (Some j0) now w0 = (w', Inr ())" "ss_journalled S"
  shows "acks_agree G w' \<and> (\<forall>c. \<exists>j. sm_journal w' = Some j \<and> carried_out c j = carried_out c j0)"
proof -
  obtain v where v: "sj_state j0 = Some (saved_state G v)" "distinct (map fst (sm_acks v))"
      "map_of (sm_acks v) = map_of (sm_acks w)" "window_ok v"
      "\<forall>c. ack_sequence (sm_acks w) c = last_command c j0 \<and> distinct_adj (carried_out c j0)"
    using inv unfolding acks_agree_def by auto
  obtain j w1 j' where o: "journal_open (ss_outbox_capacity S) uid (Some j0) = Inr j"
      "w1 = w0\<lparr>sm_journal := Some (fst (boot j)), sm_boot := snd (boot j)\<rparr> \<and> (sj_state j = None \<or> sj_state j = Some (JObj [])) \<or>
       (\<exists>old d. sj_state j = Some old \<and> as_obj old = Inr d \<and>
          load_state G d (w0\<lparr>sm_journal := Some (fst (boot j)), sm_boot := snd (boot j)\<rparr>) = Inr w1)"
      "w' = build_context (w1\<lparr>sm_journal := Some j'\<rparr>)" "sj_state j' = Some (saved_state G w1)"
      "sj_effects j' = sj_effects (fst (boot j))"
    using start_simulator_Inr [OF s] by metis
  have j: "sj_state j = sj_state j0" "sj_effects j = sj_effects j0" using o(1) by (auto simp: journal_open_def split: if_splits)
  have "saved_state G v \<noteq> JObj []" by (simp add: saved_state_def simulator_snapshot_def insort_key_def)
  then obtain d where d: "as_obj (saved_state G v) = Inr d"
      "load_state G d (w0\<lparr>sm_journal := Some (fst (boot j)), sm_boot := snd (boot j)\<rparr>) = Inr w1"
    using o(2) j(1) v(1) by auto
  have acks: "map_of (sm_acks w1) = map_of (sm_acks w)" using load_state_acks [OF d(2,1) v(2)] v(3) by simp
  have dist: "distinct (map fst (sm_acks w1))"
    using d(2) saved_fields [OF d(1)] v(2) by (auto simp: load_state_def load_acks_doc distinct_sort_key bindE_Inr_iff)
  have same: "carried_out c j' = carried_out c j0" for c using o(5) j(2) boot_frame by (simp add: carried_out_def)
  have seq: "ack_sequence (sm_acks w1) c = last_command c j'" for c
    using acks v(5) same by (simp add: ack_sequence_def last_command_def)
  have "acks_agree G w'"
    unfolding acks_agree_def o(3)
    by (intro exI [of _ j'] exI [of _ w1] conjI allI)
       (use o(4) dist seq v(5) same load_state_window [OF d(2,1) v(4)] in
         \<open>simp_all add: build_context_frame build_context_ack window_ok_def\<close>)
  then show ?thesis using o(3) same by (simp add: build_context_frame)
qed

section \<open>Runs with restarts\<close>

text \<open>
  A run of the device: the parts of its tick, the writes of its client, and restarts from the
  journal at any point. A start uses an object that is fresh; the client writes any register but
  the acknowledgements. Whatever ends a part with an exception ends the process, and a commit that
  raises leaves the journal as it was.
\<close>

definition fresh_simulator :: "'r simulator \<Rightarrow> bool" where
  "fresh_simulator w \<longleftrightarrow> sm_acks w = [] \<and> window_ok w"

inductive device_run :: "simulator_settings \<Rightarrow> 'r generator \<Rightarrow> 'r simulator \<Rightarrow> bool" for S G where
  run_first: "fresh_simulator w0 \<Longrightarrow> start_simulator S G uid None now w0 = (w, Inr ()) \<Longrightarrow> device_run S G w"
| run_restart: "device_run S G w \<Longrightarrow> sm_journal w = Some j \<Longrightarrow> fresh_simulator w0 \<Longrightarrow>
    start_simulator S G uid (Some j) now w0 = (w', Inr ()) \<Longrightarrow> device_run S G w'"
| run_client: "device_run S G w \<Longrightarrow> (\<forall>c. regs (ack_address c) = sm_registers w (ack_address c)) \<Longrightarrow>
    device_run S G (w\<lparr>sm_registers := regs\<rparr>)"
| run_receipt: "device_run S G w \<Longrightarrow> take_receipt w = (w', Inr ()) \<Longrightarrow> device_run S G w'"
| run_control: "device_run S G w \<Longrightarrow> process_control G now c w = (w', Inr ()) \<Longrightarrow> device_run S G w'"
| run_halt: "device_run S G w \<Longrightarrow> device_run S G (w\<lparr>sm_block := halt_block (sm_block w)\<rparr>)"
| run_move: "device_run S G w \<Longrightarrow> move_plant S G at_time w = (w', Inr ()) \<Longrightarrow> device_run S G w'"
| run_journal: "device_run S G w \<Longrightarrow> journal_tick G n at_time w = (w', Inr ()) \<Longrightarrow> device_run S G w'"
| run_publish: "device_run S G w \<Longrightarrow> publish_registers parse w = (w', Inr ()) \<Longrightarrow> device_run S G w'"

text \<open>A completed tick is a run of its parts.\<close>

lemma tick_runs:
  assumes "device_run S G w" "sim_tick S G parse now w = (w', Inr ())"
  shows "device_run S G w'"
proof -
  obtain w1 w2 w3 where t: "process_controls G (timestamp now) w = (w1, Inr ())"
      "(if outbox_full S w1 then putS (\<lambda>w. w\<lparr>sm_block := halt_block (sm_block w)\<rparr>) else move_plant S G now) w1 = (w2, Inr ())"
      "journal_tick G (is_inspected (sm_inspection w1)) now w2 = (w3, Inr ())" "publish_registers parse w3 = (w', Inr ())"
    using assms(2) by (auto simp: sim_tick_def bindS_Inr_iff)
  obtain v1 v2 v3 where c: "take_receipt w = (v1, Inr ())" "process_control G (timestamp now) Conveyor v1 = (v2, Inr ())"
      "process_control G (timestamp now) Valve v2 = (v3, Inr ())" "process_control G (timestamp now) Reject_Station v3 = (w1, Inr ())"
    using t(1) by (auto simp: process_controls_def bindS_Inr_iff)
  have "device_run S G w1"
    by (rule run_control [OF run_control [OF run_control [OF run_receipt [OF assms(1) c(1)] c(2)] c(3)] c(4)])
  then have "device_run S G w2"
    using t(2) run_halt [of S G w1] run_move [of S G w1 now w2] by (auto split: if_splits)
  from run_publish [OF run_journal [OF this t(3)] t(4)] show ?thesis .
qed

lemma device_run_agree: "device_run S G w \<Longrightarrow> ss_journalled S \<Longrightarrow> acks_agree G w"
proof (induction rule: device_run.induct)
  case (run_first w0 uid now w)
  then show ?case by (auto intro: first_start_agree simp: fresh_simulator_def)
next
  case (run_restart w j w0 uid now w')
  then show ?case using restart_agree [of G w j S uid now w0 w'] by blast
next
  case (run_client w regs)
  then have inv: "acks_agree G w" by simp
  show ?case by (rule acks_agree_same [OF inv]) (use run_client.hyps(2) acks_agree_window [OF inv] in \<open>simp_all add: window_ok_def\<close>)
next
  case (run_receipt w w')
  then show ?case using take_receipt_agree [of G w] by simp
next
  case (run_control w now c w')
  then show ?case by (auto intro: process_control_agree)
next
  case (run_halt w)
  then show ?case by (auto intro: halt_agree)
next
  case (run_move w at_time w')
  then show ?case using move_plant_agree [of G w S at_time] by simp
next
  case (run_journal w n at_time w')
  then show ?case by (auto intro: journal_tick_agree)
next
  case (run_publish w parse w')
  then show ?case by (auto intro: publish_registers_agree)
qed

section \<open>The restarted device\<close>

lemma plain_commit:
  assumes "json_finite (JObj state)"
  shows "\<exists>j'. journal_commit state None None now j = (j', Inr ())"
  using assms by (simp add: journal_commit_def transaction_def canonical_def del: json_finite.simps sorted_keys.simps)

lemma snapshot_finite:
  "json_finite (gn_getstate G (sm_rng w)) \<Longrightarrow> json_finite (JObj (simulator_snapshot G w))"
  by (auto simp: simulator_snapshot_def block_doc_def motor_doc_def valve_doc_def reject_doc_def stream_doc_def acks_doc_def
      list_all_iff)

lemma saved_state_obj: "\<exists>d. as_obj (saved_state G w) = Inr d \<and> saved_state G w \<noteq> JObj []"
  by (simp add: saved_state_def simulator_snapshot_def insort_key_def)

lemma boot_queue: "journal_queue (fst (boot (j\<lparr>sj_capacity := c\<rparr>))) = journal_queue j"
  by (simp add: boot_def Let_def journal_queue_def pending_events_def)

text \<open>Opening a journal whose state loads.\<close>

lemma reopen:
  assumes "ss_journalled S" "1 \<le> ss_outbox_capacity S" "sj_state j = Some old" "old \<noteq> JObj []" "as_obj old = Inr d"
    and load: "load_state G d (w\<lparr>sm_journal := Some (fst (boot (j\<lparr>sj_capacity := ss_outbox_capacity S\<rparr>))),
        sm_boot := jm_boots (sj_meta j) + 1\<rparr>) = Inr w1"
    and "sm_journal w1 = Some (fst (boot (j\<lparr>sj_capacity := ss_outbox_capacity S\<rparr>)))"
    and fin: "json_finite (gn_getstate G (sm_rng w1))"
  shows "\<exists>j'. start_simulator S G uid (Some j) now w = (build_context (w1\<lparr>sm_journal := Some j'\<rparr>), Inr ()) \<and>
    journal_queue j' = journal_queue j"
proof -
  obtain jb where b: "boot (j\<lparr>sj_capacity := ss_outbox_capacity S\<rparr>) = (jb, jm_boots (sj_meta j) + 1)"
    by (simp add: boot_def Let_def)
  obtain j' where j': "journal_commit (simulator_snapshot G w1) None None now jb = (j', Inr ())"
    using plain_commit [OF snapshot_finite [OF fin]] by blast
  have "journal_queue jb = journal_queue j" using boot_queue [where j = j and c = "ss_outbox_capacity S"] b by simp
  then have "journal_queue j' = journal_queue j" using commit_queue [OF j'] by auto
  moreover have "journal_state jb = Some old" using assms(3) b by (auto simp: boot_def Let_def journal_state_def)
  moreover have "start_simulator S G uid (Some j) now w = (build_context (w1\<lparr>sm_journal := Some j'\<rparr>), Inr ())"
    using assms(1,2,4,5,7) load j' b calculation(2)
    by (simp add: start_simulator_def open_recovery_def journal_open_def bindS_def sim_commit_def)
  ultimately show ?thesis by blast
qed

section \<open>Properties\<close>

text \<open>
  C15. A device carries out a command once, across crashes and restarts: in every run, and for each
  control, the commands listed in the journal never repeat a sequence number in succession, and the
  number of the last one is what the acknowledgement register shows, also after a restart.
\<close>

theorem command_once_across_restarts:
  assumes "device_run S G w" and "ss_journalled S" and "sm_journal w = Some j"
  shows "distinct_adj (carried_out c j) \<and> sm_registers w (ack_address c) = last_command c j"
  using device_run_agree [OF assms(1,2)] assms(3) by (auto simp: acks_agree_def)

text \<open>
  C16. A restart brings back the plant: after any commit, opening the journal again succeeds and
  restores the register block with its controls, the random numbers, the acknowledgements and the
  queue of inspections not yet received, counts one more boot, and starts a new inspection session.
\<close>

theorem restart_restores_plant:
  assumes "sim_commit G event effect now w0 = (w, Inr ())" and "sm_journal w0 = Some j0"
    and "ss_journalled S" and "1 \<le> ss_outbox_capacity S"
    and "finite (rc_rejected (rb_reject (sm_block w)))" and "distinct (map fst (sm_acks w))"
    and "gn_setstate G (sorted_keys (gn_getstate G (sm_rng w))) = Inr (sm_rng w)" and "json_finite (gn_getstate G (sm_rng w))"
  shows "\<exists>j j' w'. sm_journal w = Some j \<and> start_simulator S G uid (Some j) now' fresh = (w', Inr ()) \<and>
    sm_block w' = sm_block w \<and> sm_rng w' = sm_rng w \<and> map_of (sm_acks w') = map_of (sm_acks w) \<and>
    sm_inspection w' = (sm_inspection w)\<lparr>is_session := is_session (sm_inspection w) mod (2 ^ 64 - 1) + 1, is_sequence := 0\<rparr> \<and>
    sm_journal w' = Some j' \<and> journal_queue j' = journal_queue j \<and> sm_boot w' = jm_boots (sj_meta j) + 1"
proof -
  obtain j where j: "w = w0\<lparr>sm_journal := Some j\<rparr>" "sj_state j = Some (saved_state G w)"
    using sim_commit_Inr [OF assms(1,2)] by (auto simp: saved_state_def simulator_snapshot_def)
  obtain d where d: "as_obj (saved_state G w) = Inr d" "saved_state G w \<noteq> JObj []" using saved_state_obj by blast
  note load = load_state_saved [OF d(1) assms(5,7)]
  obtain j' where s: "start_simulator S G uid (Some j) now' fresh = (build_context (fresh\<lparr>sm_boot := jm_boots (sj_meta j) + 1, sm_block := sm_block w,
        sm_inspection := (sm_inspection w)\<lparr>is_session := is_session (sm_inspection w) mod (2 ^ 64 - 1) + 1, is_sequence := 0\<rparr>,
        sm_acks := sort_key fst (sm_acks w), sm_rng := sm_rng w, sm_journal := Some j'\<rparr>), Inr ())"
      "journal_queue j' = journal_queue j"
    using reopen [OF assms(3,4) j(2) d(2,1) load, of fresh uid now'] assms(8) by auto
  have w: "sm_journal w = Some j" by (simp add: j(1))
  show ?thesis
    by (rule exI [of _ j], rule exI [of _ j'], rule exI, rule conjI [OF w], rule conjI [OF s(1)])
       (simp add: build_context_def s(2) map_of_sort_key [OF assms(6)])
qed

definition example_generator :: "unit generator" where
  "example_generator = \<lparr>gn_randint = (\<lambda>lo hi r. (3, r)), gn_random = (\<lambda>r. (1 / 2, r)),
     gn_getstate = (\<lambda>_. JNull), gn_setstate = (\<lambda>_. Inr ())\<rparr>"

definition example_simulation :: simulator_settings where
  "example_simulation = \<lparr>ss_every_n = 1, ss_fail_every_n = 2, ss_journalled = True, ss_outbox_capacity = 4,
     ss_jam_probability = 1 / 1000\<rparr>"

definition fresh_device :: "unit simulator" where
  "fresh_device = projr (simulator_new example_simulation 7 ())"

text \<open>A first start, a command of the client, a poll, and a restart with the command still in the registers.\<close>

definition first_device :: "unit simulator" where
  "first_device = fst (start_simulator example_simulation example_generator ''d'' None 0 fresh_device)"

definition write_command :: "unit simulator \<Rightarrow> unit simulator" where
  "write_command w = w\<lparr>sm_registers := put_regs 20 [5, 2, 30] (sm_registers w)\<rparr>"

definition polled_device :: "unit simulator" where
  "polled_device = fst (process_control example_generator 1 Conveyor (write_command first_device))"

definition restarted_device :: "unit simulator" where
  "restarted_device = fst (process_control example_generator 3 Conveyor (write_command
     (fst (start_simulator example_simulation example_generator ''d'' (sm_journal polled_device) 2 fresh_device))))"

lemma example_device_states:
  "snd (start_simulator example_simulation example_generator ''d'' None 0 fresh_device) = Inr ()"
  "snd (process_control example_generator 1 Conveyor (write_command first_device)) = Inr ()"
  "snd (start_simulator example_simulation example_generator ''d'' (sm_journal polled_device) 2 fresh_device) = Inr ()"
  "snd (process_control example_generator 3 Conveyor (write_command
     (fst (start_simulator example_simulation example_generator ''d'' (sm_journal polled_device) 2 fresh_device)))) = Inr ()"
  "map_option (carried_out Conveyor) (sm_journal restarted_device) = Some [5]"
  "map_option (carried_out Conveyor) (sm_journal polled_device) = Some [5]"
  "mc_setpoint (rb_conveyor (sm_block restarted_device)) = 30"
  by code_simp+

lemma example_device_run: "device_run example_simulation example_generator restarted_device"
proof -
  have fresh: "fresh_simulator fresh_device" by code_simp
  have client: "device_run example_simulation example_generator w \<Longrightarrow>
      device_run example_simulation example_generator (write_command w)" for w
    unfolding write_command_def by (rule run_client) (auto simp: put_regs_ack)
  have 1: "device_run example_simulation example_generator first_device"
    unfolding first_device_def
    by (rule run_first [OF fresh]) (use example_device_states(1) in \<open>simp add: prod_eq_iff\<close>)
  have 2: "device_run example_simulation example_generator polled_device"
    unfolding polled_device_def
    by (rule run_control [OF client [OF 1]]) (use example_device_states(2) in \<open>simp add: prod_eq_iff\<close>)
  obtain j where j: "sm_journal polled_device = Some j" using example_device_states(6) by (cases "sm_journal polled_device") auto
  have 3: "device_run example_simulation example_generator
      (fst (start_simulator example_simulation example_generator ''d'' (sm_journal polled_device) 2 fresh_device))"
    by (rule run_restart [OF 2 j fresh]) (use example_device_states(3) j in \<open>simp add: prod_eq_iff\<close>)
  show ?thesis unfolding restarted_device_def
    by (rule run_control [OF client [OF 3]]) (use example_device_states(4) in \<open>simp add: prod_eq_iff\<close>)
qed

theorem command_once_across_restarts_witness:
  "\<exists>j. sm_journal restarted_device = Some j \<and> carried_out Conveyor j = [5] \<and> distinct_adj (carried_out Conveyor j) \<and>
     sm_registers restarted_device (ack_address Conveyor) = 5"
proof -
  obtain j where j: "sm_journal restarted_device = Some j" "carried_out Conveyor j = [5]"
    using example_device_states(5) by (cases "sm_journal restarted_device") auto
  have "ss_journalled example_simulation" by (simp add: example_simulation_def)
  from command_once_across_restarts [OF example_device_run this j(1), of Conveyor] show ?thesis
    using j by (simp add: last_command_def)
qed

definition saved_device :: "unit simulator" where
  "saved_device = fst (sim_commit example_generator None None 5 polled_device)"

lemma saved_device_states:
  "snd (sim_commit example_generator None None 5 polled_device) = Inr ()"
  "mc_setpoint (rb_conveyor (sm_block saved_device)) = 30"
  "rc_rejected (rb_reject (sm_block saved_device)) = {}"
  "distinct (map fst (sm_acks saved_device))"
  by code_simp+

theorem restart_restores_plant_witness:
  "\<exists>j w'. sm_journal saved_device = Some j \<and>
     start_simulator example_simulation example_generator ''d'' (Some j) 9 fresh_device = (w', Inr ()) \<and>
     sm_block w' = sm_block saved_device \<and> mc_setpoint (rb_conveyor (sm_block w')) = 30"
proof -
  obtain j0 where j0: "sm_journal polled_device = Some j0"
    using example_device_states(6) by (cases "sm_journal polled_device") auto
  have c: "sim_commit example_generator None None 5 polled_device = (saved_device, Inr ())"
    using saved_device_states(1) by (simp add: saved_device_def prod_eq_iff)
  have "\<exists>j j' w'. sm_journal saved_device = Some j \<and>
      start_simulator example_simulation example_generator ''d'' (Some j) 9 fresh_device = (w', Inr ()) \<and>
      sm_block w' = sm_block saved_device \<and> sm_rng w' = sm_rng saved_device \<and>
      map_of (sm_acks w') = map_of (sm_acks saved_device) \<and>
      sm_inspection w' = (sm_inspection saved_device)\<lparr>
        is_session := is_session (sm_inspection saved_device) mod (2 ^ 64 - 1) + 1, is_sequence := 0\<rparr> \<and>
      sm_journal w' = Some j' \<and> journal_queue j' = journal_queue j \<and> sm_boot w' = jm_boots (sj_meta j) + 1"
    by (rule restart_restores_plant [OF c j0])
       (simp_all add: example_simulation_def saved_device_states example_generator_def)
  then show ?thesis using saved_device_states(2) by metis
qed

end
