(* ===== verification/Source_Receipts.thy ===== *)
theory Source_Receipts
  imports Modbus_Recovery Data_Subscribers
begin

text \<open>
  From the consumer's receipt back to the device: the Modbus subscriber forwards receipts into
  registers 70 to 74 of the simulated device, which takes them as the end of an inspection's stay in
  its journal. No inspection leaves the outbox without a receipt that verifies for it, across
  crashes and restarts.
\<close>

section \<open>The device as the subscriber's client sees it\<close>

definition device_client :: "('r simulator) native_registers" where
  "device_client = \<lparr>nr_read = (\<lambda>a n. getS (\<lambda>w. Some (map (sm_registers w) [a..<a + n]))),
     nr_write = (\<lambda>a vs. thenS (set_values a vs) (retS True))\<rparr>"

definition consumer_name :: string where
  "consumer_name = ''decision-agent-stub''"

text \<open>An identity for whose inspection one of the receipts verifies.\<close>

definition receipted :: "crypto \<Rightarrow> string \<Rightarrow> inspection_receipt list \<Rightarrow> string \<Rightarrow> bool" where
  "receipted C key rs i \<longleftrightarrow>
     (\<exists>rc \<in> set rs. \<exists>e. bi_inspection_id e = i \<and> verify_receipt C rc e key consumer_name = Inr ())"

lemma receipted_mono: "receipted C key rs i \<Longrightarrow> set rs \<subseteq> set rs' \<Longrightarrow> receipted C key rs' i"
  by (auto simp: receipted_def)

text \<open>The identity registers 70 to 74 hold.\<close>

definition regs_identity :: "(nat \<Rightarrow> int) \<Rightarrow> string option" where
  "regs_identity regs =
     (let session = push_bit 48 (regs 70) + push_bit 32 (regs 71) + push_bit 16 (regs 72) + regs 73 in
      if session \<noteq> 0 \<and> regs 74 \<noteq> 0 then Some (inspection_id_of session (regs 74)) else None)"

lemma regs_identity_cong: "\<forall>a \<in> {70..74}. regs' a = regs a \<Longrightarrow> regs_identity regs' = regs_identity regs"
  by (simp add: regs_identity_def Let_def)

lemma take_receipt_identity:
  "fst (take_receipt w) = (case (sm_journal w, regs_identity (sm_registers w)) of
     (Some j, Some i) \<Rightarrow> w\<lparr>sm_journal := Some (fst (journal_ack i j))\<rparr> | _ \<Rightarrow> w)"
  by (simp add: take_receipt_def regs_identity_def Let_def split: option.split)

section \<open>Forwarding\<close>

lemma receipt_registers_decoded:
  assumes "decode_inspection rs = Inr (Some e)"
  shows "\<exists>vals. receipt_registers e = Inr vals \<and> length vals = 5 \<and>
    regs_identity (put_regs 70 vals regs) = Some (bi_inspection_id e)"
proof -
  let ?s = "regs_session rs" and ?q = "rs ! 4"
  have d: "length rs = 10" "list_all (\<lambda>v. 0 \<le> v \<and> v \<le> 65535) rs" "?s \<noteq> 0" "?q \<noteq> 0" "bi_inspection_id e = inspection_id_of ?s ?q"
    using assms by (auto simp: decode_Some_iff)
  have r: "0 \<le> rs ! i \<and> rs ! i < 65536" if "i < 10" for i using regs_nth [OF d(1,2) that] .
  have s: "0 \<le> ?s" "?s < 2 ^ 64"
    using r [of 0] r [of 1] r [of 2] r [of 3] by (simp_all add: regs_session_def)
  have q: "0 \<le> ?q" "?q < 65536" using r [of 4] by simp_all
  let ?vals = "map (reg16 ?s) [48, 32, 16, 0] @ [?q]"
  have "receipt_registers e = Inr ?vals"
    using inspection_id_parts [OF s q] by (simp add: receipt_registers_def d(5))
  moreover have "regs_identity (put_regs 70 ?vals regs) = Some (bi_inspection_id e)"
  proof -
    have "push_bit 48 (reg16 ?s 48) + push_bit 32 (reg16 ?s 32) + push_bit 16 (reg16 ?s 16) + reg16 ?s 0 = ?s"
      using reg16_join4 [OF s] by (simp add: push_bit_eq_mult)
    then show ?thesis using d(3,4) by (simp add: regs_identity_def put_regs_def Let_def d(5))
  qed
  ultimately show ?thesis by (intro exI [of _ ?vals]) simp
qed

text \<open>A forward writes nothing, or the identity of an inspection the receipt verifies for.\<close>

lemma forward_cases:
  assumes "forward_receipt C key device_client message w = (w', r)"
  shows "w' = w \<or>
    (\<exists>rc e vals. message = Inr rc \<and> verify_receipt C rc e key consumer_name = Inr () \<and>
       decode_inspection (map (sm_registers w) [60..<70]) = Inr (Some e) \<and> length vals = 5 \<and>
       w' = w\<lparr>sm_registers := put_regs 70 vals (sm_registers w)\<rparr> \<and>
       regs_identity (sm_registers w') = Some (bi_inspection_id e))"
proof (cases message)
  case (Inl err)
  then show ?thesis using assms by (simp add: forward_receipt_def exceptS_def tryS_def retS_def raiseS_def split: if_splits)
next
  case (Inr rc)
  let ?d = "decode_inspection (map (sm_registers w) [60..<70])"
  show ?thesis
  proof (cases "\<exists>e. ?d = Inr (Some e) \<and> verify_receipt C rc e key consumer_name = Inr ()")
    case False
    then have "w' = w"
      using assms Inr
      by (cases ?d) (auto simp: forward_receipt_def device_client_def exceptS_def tryS_def bindS_def retS_def raiseS_def
          consumer_name_def split: option.splits sum.splits if_splits)
    then show ?thesis ..
  next
    case True
    then obtain e where e: "?d = Inr (Some e)" "verify_receipt C rc e key consumer_name = Inr ()" by blast
    obtain vals where v: "receipt_registers e = Inr vals" "length vals = 5"
        "regs_identity (put_regs 70 vals (sm_registers w)) = Some (bi_inspection_id e)"
      using receipt_registers_decoded [OF e(1)] by blast
    have "w' = w\<lparr>sm_registers := put_regs 70 vals (sm_registers w)\<rparr>"
      using assms Inr e v(1)
      by (simp add: forward_receipt_def device_client_def exceptS_def tryS_def bindS_def retS_def set_values_def putS_def consumer_name_def)
    then show ?thesis using Inr e v by auto
  qed
qed

section \<open>Runs of the device with its receipts\<close>

text \<open>The receipts delivered so far; other clients leave registers 50 to 55 and 70 to 74 alone.\<close>

inductive delivery_run ::
  "simulator_settings \<Rightarrow> 'r generator \<Rightarrow> crypto \<Rightarrow> string \<Rightarrow> inspection_receipt list \<Rightarrow> 'r simulator \<Rightarrow> bool"
  for S G C key where
  dl_first: "fresh_simulator w0 \<Longrightarrow> start_simulator S G uid None now w0 = (w, Inr ()) \<Longrightarrow> delivery_run S G C key [] w"
| dl_restart: "delivery_run S G C key rs w \<Longrightarrow> sm_journal w = Some j \<Longrightarrow> fresh_simulator w0 \<Longrightarrow>
    start_simulator S G uid (Some j) now w0 = (w', Inr ()) \<Longrightarrow> delivery_run S G C key rs w'"
| dl_client: "delivery_run S G C key rs w \<Longrightarrow> (\<forall>a. a \<in> {50..55} \<or> a \<in> {70..74} \<longrightarrow> regs a = sm_registers w a) \<Longrightarrow>
    delivery_run S G C key rs (w\<lparr>sm_registers := regs\<rparr>)"
| dl_forward: "delivery_run S G C key rs w \<Longrightarrow> forward_receipt C key device_client message w = (w', r) \<Longrightarrow>
    delivery_run S G C key ((case message of Inl _ \<Rightarrow> [] | Inr rc \<Rightarrow> [rc]) @ rs) w'"
| dl_receipt: "delivery_run S G C key rs w \<Longrightarrow> take_receipt w = (w', Inr ()) \<Longrightarrow> delivery_run S G C key rs w'"
| dl_control: "delivery_run S G C key rs w \<Longrightarrow> process_control G now c w = (w', Inr ()) \<Longrightarrow> delivery_run S G C key rs w'"
| dl_halt: "delivery_run S G C key rs w \<Longrightarrow> delivery_run S G C key rs (w\<lparr>sm_block := halt_block (sm_block w)\<rparr>)"
| dl_move: "delivery_run S G C key rs w \<Longrightarrow> move_plant S G at_time w = (w', Inr ()) \<Longrightarrow> delivery_run S G C key rs w'"
| dl_journal: "delivery_run S G C key rs w \<Longrightarrow> journal_tick G n at_time w = (w', Inr ()) \<Longrightarrow> delivery_run S G C key rs w'"
| dl_publish: "delivery_run S G C key rs w \<Longrightarrow> publish_registers parse w = (w', Inr ()) \<Longrightarrow> delivery_run S G C key rs w'"

lemma ack_address_range: "ack_address c \<in> {50..55}"
  by (cases c) simp_all

lemma delivery_device: "delivery_run S G C key rs w \<Longrightarrow> device_run S G w"
proof (induction rule: delivery_run.induct)
  case (dl_forward rs w message w' r)
  have same: "sm_registers w' (ack_address c) = sm_registers w (ack_address c)" for c
    using forward_cases [OF dl_forward(2)] ack_address_range [of c] by (auto simp: put_regs_def)
  have "w' = w\<lparr>sm_registers := sm_registers w'\<rparr>" using forward_cases [OF dl_forward(2)] by auto
  then show ?case using run_client [OF dl_forward(3), of "sm_registers w'"] same by simp
next
  case (dl_client rs w regs)
  then show ?case using ack_address_range by (intro run_client) auto
qed (auto intro: device_run.intros)

section \<open>What may be marked received\<close>

definition releases_ok :: "(string \<Rightarrow> bool) \<Rightarrow> source_journal \<Rightarrow> bool" where
  "releases_ok Q j \<longleftrightarrow> (\<forall>e \<in> set (sj_events j). ev_received e \<longrightarrow> Q (ev_id e))"

lemma releases_ack: "releases_ok Q j \<Longrightarrow> Q i \<Longrightarrow> releases_ok Q (fst (journal_ack i j))"
  by (auto simp: releases_ok_def journal_ack_def split: option.splits)

lemma releases_commit:
  assumes "releases_ok Q j" "journal_commit state event effect now j = (j', r)"
  shows "releases_ok Q j'"
proof -
  consider "j' = j" | j1 where "case event of None \<Rightarrow> j1 = j | Some e \<Rightarrow> insert_event e now j = (j1, Inr ())"
      "set (sj_events j') \<subseteq> set (sj_events j1)"
    using commit_cases [OF assms(2)] by fastforce
  then show ?thesis
  proof cases
    case 2
    have "releases_ok Q j1"
    proof (cases event)
      case (Some e)
      then show ?thesis using 2(1) assms(1) insert_event_cases [of e now j j1] by (auto simp: releases_ok_def)
    qed (use 2(1) assms(1) in simp)
    then show ?thesis using 2(2) by (auto simp: releases_ok_def)
  qed (use assms(1) in simp)
qed

definition delivery_inv :: "(string \<Rightarrow> bool) \<Rightarrow> 'r simulator \<Rightarrow> bool" where
  "delivery_inv Q w \<longleftrightarrow>
     (\<forall>j. sm_journal w = Some j \<longrightarrow> releases_ok Q j) \<and>
     (case regs_identity (sm_registers w) of None \<Rightarrow> True | Some i \<Rightarrow> Q i)"

lemma delivery_mono: "delivery_inv Q w \<Longrightarrow> (\<And>i. Q i \<Longrightarrow> Q' i) \<Longrightarrow> delivery_inv Q' w"
  by (auto simp: delivery_inv_def releases_ok_def split: option.splits)

lemma delivery_frame:
  "delivery_inv Q w \<Longrightarrow> sm_journal w' = sm_journal w \<Longrightarrow> regs_identity (sm_registers w') = regs_identity (sm_registers w) \<Longrightarrow>
     delivery_inv Q w'"
  by (simp add: delivery_inv_def)

lemma delivery_commit:
  assumes "delivery_inv Q w" "sim_commit G event effect now w = (w', r)"
  shows "delivery_inv Q w' \<and> sm_registers w' = sm_registers w"
proof (cases "sm_journal w")
  case (Some j)
  obtain j' out where c: "journal_commit (simulator_snapshot G w) event effect now j = (j', out)" by fastforce
  have "releases_ok Q j'" using releases_commit [OF _ c] assms(1) Some by (simp add: delivery_inv_def)
  then show ?thesis using assms Some c by (auto simp: sim_commit_def delivery_inv_def)
qed (use assms in \<open>simp add: sim_commit_def\<close>)

lemma delivery_set:
  "delivery_inv Q w \<Longrightarrow> set_values a vs w = (w', r) \<Longrightarrow> a + length vs \<le> 70 \<Longrightarrow>
     delivery_inv Q w' \<and> sm_journal w' = sm_journal w \<and> sm_inspection w' = sm_inspection w"
proof -
  assume a: "delivery_inv Q w" "set_values a vs w = (w', r)" "a + length vs \<le> 70"
  then have w': "w' = w\<lparr>sm_registers := put_regs a vs (sm_registers w)\<rparr>" by (simp add: set_values_def)
  have "regs_identity (put_regs a vs (sm_registers w)) = regs_identity (sm_registers w)"
    by (rule regs_identity_cong) (use a(3) in \<open>auto simp: put_regs_def\<close>)
  then show ?thesis using delivery_frame [OF a(1), of w'] by (simp add: w')
qed

section \<open>The steps keep it\<close>

lemma delivery_control:
  assumes "delivery_inv Q w" "process_control G now c w = (w', Inr ())"
  shows "delivery_inv Q w'"
proof (cases "sm_registers w (control_address c) = 0 \<or> sm_registers w (control_address c) = sm_registers w (ack_address c)")
  case True
  then show ?thesis using assms by (auto simp: process_control_def Let_def)
next
  case False
  let ?op = "sm_registers w (control_address c + 1)" and ?v = "sm_registers w (control_address c + 2)"
  let ?n = "sm_registers w (control_address c)"
  obtain b status where b: "control_apply c ?op ?v (sm_block w) = (b, status)" by fastforce
  obtain f w1 w2 where s: "w1 = w\<lparr>sm_block := b\<lparr>rb_reject_count := rc_count (rb_reject b)\<rparr>,
        sm_acks := AList.update (control_key c) (?n, status) (sm_acks w)\<rparr>"
      "sim_commit G None (Some f) now w1 = (w2, Inr ())" "set_values (ack_address c) [?n, status] w2 = (w', Inr ())"
    using assms(2) False b by (auto simp: process_control_def Let_def bindS_Inr_iff)
  have "delivery_inv Q w1" using delivery_frame [OF assms(1), of w1] by (simp add: s(1))
  then have "delivery_inv Q w2" using delivery_commit [OF _ s(2)] by blast
  then show ?thesis using delivery_set [OF _ s(3)] ack_address_range [of c] by simp
qed

lemma delivery_publish:
  assumes inv: "delivery_inv Q w" and p: "publish_registers parse w = (w', Inr ())" and ok: "window_ok w"
  shows "delivery_inv Q w'"
proof -
  obtain w1 w2 w3 where s: "set_values 0 (as_list (sm_block w)) w = (w1, Inr ())"
      "set_values 8 [if vc_opened (rb_valve (sm_block w)) then 1 else 0, if mc_running (rb_conveyor (sm_block w)) then 1 else 0,
               mc_setpoint (rb_conveyor (sm_block w)), rc_last_bottle (rb_reject (sm_block w))] w1 = (w2, Inr ())"
      "set_values 32 (stream_registers (sm_inspection w)) w2 = (w3, Inr ())"
      "(case sm_journal w of None \<Rightarrow> retS () | Some j \<Rightarrow> bindS (liftS (head_registers parse j)) (set_values 60)) w3 = (w', Inr ())"
    using p unfolding publish_registers_def Let_def by (auto simp: bindS_Inr_iff)
  have 1: "delivery_inv Q w1" using delivery_set [OF inv s(1)] by (simp add: as_list_def)
  have 2: "delivery_inv Q w2" using delivery_set [OF 1 s(2)] by simp
  have "length (stream_registers (sm_inspection w)) = 10" using ok by (simp add: window_ok_def stream_registers_def)
  then have 3: "delivery_inv Q w3" using delivery_set [OF 2 s(3)] by simp
  have len: "length rs = 10" if "head_registers parse j = Inr rs" for j rs
    using that by (auto simp: head_registers_def encode_inspection_def bindE_Inr_iff Let_def split: option.splits)
  show ?thesis
  proof (cases "sm_journal w")
    case (Some j)
    then obtain rs where "head_registers parse j = Inr rs" "set_values 60 rs w3 = (w', Inr ())"
      using s(4) by (auto simp: bindS_Inr_iff)
    then show ?thesis using delivery_set [OF 3] len by simp
  qed (use s(4) 3 in simp)
qed

lemma delivery_start:
  assumes s: "start_simulator S G uid stored now w0 = (w', Inr ())" and on: "ss_journalled S"
    and ok: "\<forall>j. stored = Some j \<longrightarrow> releases_ok Q j"
  shows "delivery_inv Q w'"
proof -
  obtain j where j: "journal_open (ss_outbox_capacity S) uid stored = Inr j"
    using s on by (auto simp: start_simulator_def open_recovery_def bindS_Inr_iff)
  have "releases_ok Q j" using j ok by (auto simp: journal_open_def releases_ok_def split: if_splits option.splits)
  then have jb: "releases_ok Q (fst (boot j))" by (simp add: releases_ok_def boot_def Let_def)
  let ?w = "w0\<lparr>sm_journal := Some (fst (boot j)), sm_boot := snd (boot j)\<rparr>"
  obtain w2 where o: "open_recovery S G uid stored now w0 = (w2, Inr ())" "w' = build_context w2"
    using s by (auto simp: start_simulator_def bindS_Inr_iff)
  obtain w1 where w1: "(case journal_state (fst (boot j)) of None \<Rightarrow> retS ()
        | Some old \<Rightarrow> if old = JObj [] then retS () else (\<lambda>w. case bindE (as_obj old) (\<lambda>d. load_state G d w) of
                                      Inl e \<Rightarrow> (w, Inl e) | Inr w' \<Rightarrow> (w', Inr ()))) ?w = (w1, Inr ())"
      "sim_commit G None None now w1 = (w2, Inr ())"
    using o(1) on j by (auto simp: open_recovery_def bindS_Inr_iff case_prod_beta)
  have "sm_journal w1 = Some (fst (boot j))"
    using w1(1) by (auto simp: load_state_def bindE_Inr_iff split: option.splits if_splits sum.splits)
  then have "\<forall>j. sm_journal w2 = Some j \<longrightarrow> releases_ok Q j"
    using w1(2) releases_commit [OF jb] by (auto simp: sim_commit_def split: prod.splits)
  moreover have "regs_identity (sm_registers (build_context w2)) = None"
  proof -
    have "sm_registers (build_context w2) a = 0" if "a \<in> {70..74}" for a
      using that by (auto simp: build_context_def control_kinds_def put_regs_def as_list_def split: option.splits)
    then show ?thesis by (simp add: regs_identity_def)
  qed
  ultimately show ?thesis using o(2) by (simp add: delivery_inv_def build_context_frame)
qed

lemma delivery_run_inv: "delivery_run S G C key rs w \<Longrightarrow> ss_journalled S \<Longrightarrow> delivery_inv (receipted C key rs) w"
proof (induction rule: delivery_run.induct)
  case (dl_first w0 uid now w)
  then show ?case using delivery_start [of S G uid None now w0 w] by simp
next
  case (dl_restart rs w j w0 uid now w')
  then show ?case using delivery_start [of S G uid "Some j" now w0 w' "receipted C key rs"] by (simp add: delivery_inv_def)
next
  case (dl_client rs w regs)
  have "regs_identity regs = regs_identity (sm_registers w)" using dl_client(2) by (intro regs_identity_cong) auto
  then show ?case using dl_client by (auto intro: delivery_frame)
next
  case (dl_forward rs w message w' r)
  let ?rs = "(case message of Inl _ \<Rightarrow> [] | Inr rc \<Rightarrow> [rc]) @ rs"
  have inv: "delivery_inv (receipted C key ?rs) w"
    by (rule delivery_mono [OF dl_forward(3) [OF dl_forward(4)]]) (erule receipted_mono, simp)
  from forward_cases [OF dl_forward(2)] show ?case
  proof (elim disjE exE conjE)
    fix rc e vals
    assume f: "message = Inr rc" "verify_receipt C rc e key consumer_name = Inr ()"
      "w' = w\<lparr>sm_registers := put_regs 70 vals (sm_registers w)\<rparr>" "regs_identity (sm_registers w') = Some (bi_inspection_id e)"
    have "receipted C key ?rs (bi_inspection_id e)" using f(1,2) by (auto simp: receipted_def)
    moreover have "sm_journal w' = sm_journal w" by (simp add: f(3))
    ultimately show ?thesis using inv f(4) by (simp add: delivery_inv_def)
  qed (use inv in simp)
next
  case (dl_receipt rs w w')
  have "w' = fst (take_receipt w)" using dl_receipt(2) by simp
  then show ?case
    using dl_receipt(3) [OF dl_receipt(4)]
    by (auto simp: take_receipt_identity delivery_inv_def releases_ack split: option.splits)
next
  case (dl_control rs w now c w')
  then show ?case using delivery_control by blast
next
  case (dl_halt rs w)
  then show ?case by (auto intro: delivery_frame)
next
  case (dl_move rs w at_time w')
  have "sm_journal w' = sm_journal w" "sm_registers w' = sm_registers w"
    using dl_move(2) by (auto simp: move_plant_def Let_def split: prod.splits if_splits)
  then show ?case using dl_move(3) [OF dl_move(4)] by (auto intro: delivery_frame)
next
  case (dl_journal rs w n at_time w')
  then obtain event where "sim_commit G event None (timestamp at_time) w = (w', Inr ()) \<or> w' = w"
    by (auto simp: journal_tick_def bindS_Inr_iff split: if_splits)
  then show ?case using delivery_commit dl_journal(3,4) by blast
next
  case (dl_publish rs w parse w')
  have "window_ok w" by (rule acks_agree_window [OF device_run_agree [OF delivery_device [OF dl_publish(1)] dl_publish(4)]])
  then show ?case using delivery_publish [OF dl_publish(3) [OF dl_publish(4)] dl_publish(2)] by blast
qed

section \<open>Properties\<close>

text \<open>
  C17. No inspection leaves the device without its receipt: in every run of device, clients and
  receipt forwarding, crashes and restarts included, each inspection that the journal marks as
  received has a delivered receipt that verifies, under the receipt key and the consumer's name, for
  an event of its identity.
\<close>

theorem released_only_with_receipt:
  assumes "delivery_run S G C key rs w" and "ss_journalled S" and "sm_journal w = Some j"
    and "ev \<in> set (sj_events j)" and "ev_received ev"
  shows "\<exists>rc \<in> set rs. \<exists>e. bi_inspection_id e = ev_id ev \<and> verify_receipt C rc e key ''decision-agent-stub'' = Inr ()"
  using delivery_run_inv [OF assms(1,2)] assms(3-5)
  by (simp add: delivery_inv_def releases_ok_def receipted_def consumer_name_def)

text \<open>
  C18. A receipt for the event that the device shows ends its stay: when registers 60 to 69 decode to
  an inspection for which the receipt verifies, forwarding succeeds and the next poll of the device
  takes exactly that identity out of the queue, keeping the order of the others.
\<close>

theorem receipt_releases_head:
  assumes "decode_inspection (map (sm_registers w) [60..<70]) = Inr (Some e)"
    and "verify_receipt C rc e key ''decision-agent-stub'' = Inr ()"
    and "sm_journal w = Some j" and "journal_ok j"
  shows "\<exists>w1 w2 j'. forward_receipt C key device_client (Inr rc) w = (w1, Inr ()) \<and> take_receipt w1 = (w2, Inr ()) \<and>
    sm_journal w2 = Some j' \<and> sm_block w2 = sm_block w \<and>
    journal_queue j' = filter (\<lambda>q. fst q \<noteq> bi_inspection_id e) (journal_queue j)"
proof -
  obtain vals where v: "receipt_registers e = Inr vals"
      "regs_identity (put_regs 70 vals (sm_registers w)) = Some (bi_inspection_id e)"
    using receipt_registers_decoded [OF assms(1)] by blast
  let ?w1 = "w\<lparr>sm_registers := put_regs 70 vals (sm_registers w)\<rparr>"
  obtain j' b where a: "journal_ack (bi_inspection_id e) j = (j', b)" by fastforce
  have "forward_receipt C key device_client (Inr rc) w = (?w1, Inr ())"
    using assms(1,2) v(1)
    by (simp add: forward_receipt_def device_client_def exceptS_def tryS_def bindS_def retS_def set_values_def putS_def)
  moreover have "fst (take_receipt ?w1) = ?w1\<lparr>sm_journal := Some j'\<rparr>"
    using v(2) assms(3) a by (simp add: take_receipt_identity)
  moreover have "snd (take_receipt ?w1) = Inr ()" by (simp add: take_receipt_def)
  moreover have "journal_queue j' = filter (\<lambda>q. fst q \<noteq> bi_inspection_id e) (journal_queue j)"
    using ack_pending [OF assms(4) a] by (simp add: journal_queue_def filter_map comp_def)
  ultimately show ?thesis
    by (intro exI [of _ ?w1] exI [of _ "?w1\<lparr>sm_journal := Some j'\<rparr>"] exI [of _ j']) (simp add: prod_eq_iff)
qed

section \<open>A run\<close>

definition receipt_crypto :: crypto where
  "receipt_crypto = \<lparr>sha256 = (\<lambda>_. ''d''), hmac = (\<lambda>k _. k)\<rparr>"

definition receipt_key :: string where
  "receipt_key = replicate 32 (CHR ''k'')"

definition read_inspection :: "json \<Rightarrow> bottle_inspection res" where
  "read_inspection v =
     bindE (as_obj v) (\<lambda>d. bindE (bindE (dkey ''inspection_id'' d) as_str) (\<lambda>i. bindE (bindE (dkey ''bottle_id'' d) as_int) (\<lambda>b.
     bindE (bindE (dkey ''passed'' d) json_bool) (\<lambda>p. bindE (bindE (dkey ''inspected_at'' d) from_isoformat) (\<lambda>t.
       Inr \<lparr>bi_inspection_id = i, bi_bottle_id = b, bi_passed = p, bi_inspected_at = t\<rparr>)))))"

definition moved_device :: "unit simulator" where
  "moved_device = fst (move_plant example_simulation example_generator (utc 1000000) first_device)"

definition noted_device :: "unit simulator" where
  "noted_device = fst (journal_tick example_generator 0 (utc 1000000) moved_device)"

definition shown_device :: "unit simulator" where
  "shown_device = fst (publish_registers read_inspection noted_device)"

definition shown_event :: bottle_inspection where
  "shown_event = \<lparr>bi_inspection_id = inspection_id_of 7 1, bi_bottle_id = 1, bi_passed = True, bi_inspected_at = utc 1000000\<rparr>"

definition shown_receipt :: inspection_receipt where
  "shown_receipt = \<lparr>ir_inspection_id = inspection_id_of 7 1, ir_event_digest = ''d'', ir_consumer = ''decision-agent-stub'',
     ir_signature = receipt_key\<rparr>"

definition forwarded_device :: "unit simulator" where
  "forwarded_device = fst (forward_receipt receipt_crypto receipt_key device_client (Inr shown_receipt) shown_device)"

definition released_device :: "unit simulator" where
  "released_device = fst (take_receipt forwarded_device)"

lemma receipt_states:
  "snd (move_plant example_simulation example_generator (utc 1000000) first_device) = Inr ()"
  "snd (journal_tick example_generator 0 (utc 1000000) moved_device) = Inr ()"
  "snd (publish_registers read_inspection noted_device) = Inr ()"
  "snd (take_receipt forwarded_device) = Inr ()"
  "map_option (map (\<lambda>e. (ev_id e, ev_received e)) \<circ> sj_events) (sm_journal released_device) = Some [(inspection_id_of 7 1, True)]"
  "decode_inspection (map (sm_registers shown_device) [60..<70]) = Inr (Some shown_event)"
  "map_option (map fst \<circ> journal_queue) (sm_journal shown_device) = Some [inspection_id_of 7 1]"
  "map_option journal_ok (sm_journal shown_device) = Some True"
  by code_simp+

lemma receipt_verifies: "verify_receipt receipt_crypto shown_receipt shown_event receipt_key ''decision-agent-stub'' = Inr ()"
  by (simp add: verify_receipt_iff sign_receipt_def require_key_def Let_def receipt_crypto_def shown_receipt_def shown_event_def
      receipt_key_def inspection_digest_def)

lemma released_run:
  "delivery_run example_simulation example_generator receipt_crypto receipt_key [shown_receipt] released_device"
proof -
  let ?run = "delivery_run example_simulation example_generator receipt_crypto receipt_key"
  have "fresh_simulator fresh_device" by code_simp
  moreover have "start_simulator example_simulation example_generator ''d'' None 0 fresh_device = (first_device, Inr ())"
    using example_device_states(1) by (simp add: first_device_def prod_eq_iff)
  ultimately have 1: "?run [] first_device" by (rule dl_first)
  have 2: "?run [] moved_device"
    by (rule dl_move [OF 1, where at_time = "utc 1000000"]) (simp add: moved_device_def prod_eq_iff receipt_states(1))
  have 3: "?run [] noted_device"
    by (rule dl_journal [OF 2, where n = 0 and at_time = "utc 1000000"]) (simp add: noted_device_def prod_eq_iff receipt_states(2))
  have 4: "?run [] shown_device"
    by (rule dl_publish [OF 3, where parse = read_inspection]) (simp add: shown_device_def prod_eq_iff receipt_states(3))
  have 5: "?run [shown_receipt] forwarded_device"
    using dl_forward [OF 4, of "Inr shown_receipt" forwarded_device] by (simp add: forwarded_device_def prod_eq_iff)
  show ?thesis
    by (rule dl_receipt [OF 5]) (simp add: released_device_def prod_eq_iff receipt_states(4))
qed

theorem released_only_with_receipt_witness:
  "\<exists>rc \<in> set [shown_receipt]. \<exists>e. bi_inspection_id e = inspection_id_of 7 1 \<and>
     verify_receipt receipt_crypto rc e receipt_key ''decision-agent-stub'' = Inr ()"
proof -
  obtain j where j: "sm_journal released_device = Some j" "map (\<lambda>e. (ev_id e, ev_received e)) (sj_events j) = [(inspection_id_of 7 1, True)]"
    using receipt_states(5) by auto
  then obtain ev where ev: "ev \<in> set (sj_events j)" "ev_received ev" and i: "ev_id ev = inspection_id_of 7 1" by auto
  have "ss_journalled example_simulation" by (simp add: example_simulation_def)
  from released_only_with_receipt [OF released_run this j(1) ev] show ?thesis unfolding i .
qed

theorem receipt_releases_head_witness:
  "\<exists>w1 w2 j. forward_receipt receipt_crypto receipt_key device_client (Inr shown_receipt) shown_device = (w1, Inr ()) \<and>
     take_receipt w1 = (w2, Inr ()) \<and> sm_journal w2 = Some j \<and> journal_queue j = []"
proof -
  obtain j where j: "sm_journal shown_device = Some j" using receipt_states(7) by (cases "sm_journal shown_device") auto
  then have ok: "journal_ok j" and q: "map fst (journal_queue j) = [inspection_id_of 7 1]" using receipt_states(7,8) by auto
  have "filter (\<lambda>q. fst q \<noteq> bi_inspection_id shown_event) (journal_queue j) = []"
    using q by (auto simp: shown_event_def filter_empty_conv)
  with receipt_releases_head [OF receipt_states(6) receipt_verifies j ok] show ?thesis by metis
qed

end
