(* ===== verification/Opcua_Machines.thy ===== *)
theory Opcua_Machines
  imports Effects Signals
begin

text \<open>
  The machines of the OPC UA simulator (\<open>services/opcua-simulator\<close>): the motor
  (\<open>motor.py\<close>), the bottle-conditioning zone (\<open>temperature.py\<close>), the hot spike
  (\<open>hot_spike.py\<close>), the setpoint with its history (\<open>setpoint.py\<close>), the throughput
  (\<open>throughput.py\<close>) and the two random qualities (\<open>quality.py\<close>, \<open>quality_rate.py\<close>). The
  generator is a parameter. Floats are exact reals where the code has checked that they are finite.
\<close>

text \<open>\<open>SimulatorRNG\<close>: \<open>random()\<close> and \<open>gauss(mu, sigma)\<close> with the next state.\<close>

record 'r opcua_random =
  or_random :: "'r \<Rightarrow> real \<times> 'r"
  or_gauss :: "real \<Rightarrow> real \<Rightarrow> 'r \<Rightarrow> real \<times> 'r"

section \<open>The motor\<close>

abbreviation MOTOR_STOPPED :: int where "MOTOR_STOPPED \<equiv> 0"
abbreviation MOTOR_STARTING :: int where "MOTOR_STARTING \<equiv> 1"
abbreviation MOTOR_RUNNING :: int where "MOTOR_RUNNING \<equiv> 2"
abbreviation MOTOR_FAULT :: int where "MOTOR_FAULT \<equiv> 3"

record opcua_motor =
  om_tick_ms :: int
  om_fault_probability :: real
  om_state :: int
  om_rpm :: real
  om_time_in_state :: int

definition opcua_motor_new :: "int \<Rightarrow> real \<Rightarrow> opcua_motor" where
  "opcua_motor_new tick_ms p =
     \<lparr>om_tick_ms = tick_ms, om_fault_probability = p, om_state = MOTOR_STOPPED, om_rpm = 0, om_time_in_state = 0\<rparr>"

definition motor_enter :: "int \<Rightarrow> opcua_motor \<Rightarrow> opcua_motor" where
  "motor_enter s m =
     m\<lparr>om_state := s, om_time_in_state := 0,
       om_rpm := (if s = MOTOR_STOPPED \<or> s = MOTOR_FAULT \<or> s = MOTOR_STARTING then 0 else om_rpm m)\<rparr>"

definition opcua_motor_tick :: "'r opcua_random \<Rightarrow> opcua_motor \<Rightarrow> 'r \<Rightarrow> opcua_motor \<times> 'r" where
  "opcua_motor_tick R m0 r =
     (let m = m0\<lparr>om_time_in_state := om_time_in_state m0 + om_tick_ms m0\<rparr>; t = om_time_in_state m in
      if om_state m = MOTOR_STOPPED then (if 5000 \<le> t then motor_enter MOTOR_STARTING m else m, r)
      else if om_state m = MOTOR_STARTING
      then let m1 = m\<lparr>om_rpm := min 1 (of_int t / 3000) * 1500\<rparr> in
           (if 3000 \<le> t then motor_enter MOTOR_RUNNING m1 else m1, r)
      else if om_state m = MOTOR_RUNNING
      then (case or_gauss R 0 50 r of (g, r1) \<Rightarrow>
            case or_random R r1 of (x, r2) \<Rightarrow>
              let m1 = m\<lparr>om_rpm := 1500 + g\<rparr> in
              (if x < om_fault_probability m then motor_enter MOTOR_FAULT m1 else m1, r2))
      else if om_state m = MOTOR_FAULT \<and> 10000 \<le> t then (motor_enter MOTOR_STOPPED m, r)
      else (m, r))"

section \<open>The temperature\<close>

record temperature =
  tp_time_constant :: real
  tp_sigma :: real
  tp_value :: real
  tp_cooling_rate :: real
  tp_cooling_remaining :: real

definition temperature_new :: "pyfloat \<Rightarrow> pyfloat \<Rightarrow> pyfloat \<Rightarrow> temperature res" where
  "temperature_new initial time_constant sigma =
     (case (initial, time_constant, sigma) of
        (Fin i, Fin c, Fin s) \<Rightarrow>
          if c \<le> 0 \<or> s < 0 then Inl (ValueError ''time constant must be positive and noise non-negative'')
          else Inr \<lparr>tp_time_constant = c, tp_sigma = s, tp_value = i, tp_cooling_rate = 0, tp_cooling_remaining = 0\<rparr>
      | _ \<Rightarrow> Inl (ValueError ''temperature parameters must be finite''))"

definition inject_cooling :: "pyfloat \<Rightarrow> pyfloat \<Rightarrow> temperature \<Rightarrow> temperature res" where
  "inject_cooling rate duration T =
     (case (rate, duration) of
        (Fin q, Fin d) \<Rightarrow>
          if 0 < q \<and> 0 < d then Inr (T\<lparr>tp_cooling_rate := q, tp_cooling_remaining := d\<rparr>)
          else Inl (ValueError ''cooling rate and duration must be positive and finite'')
      | _ \<Rightarrow> Inl (ValueError ''cooling rate and duration must be positive and finite''))"

text \<open>The solution of first-order tracking after \<open>t\<close> seconds, as the code writes it twice.\<close>

definition relax :: "real \<Rightarrow> real \<Rightarrow> real \<Rightarrow> real \<Rightarrow> real" where
  "relax c equilibrium v t = equilibrium + (v - equilibrium) * exp (- t / c)"

definition regulate :: "real \<Rightarrow> real \<Rightarrow> temperature \<Rightarrow> temperature" where
  "regulate setpoint elapsed T =
     (let c = tp_time_constant T;
          cooled = min elapsed (tp_cooling_remaining T);
          T1 = (if cooled \<noteq> 0
                then T\<lparr>tp_value := relax c (setpoint - tp_cooling_rate T * c) (tp_value T) cooled,
                       tp_cooling_remaining := max 0 (tp_cooling_remaining T - cooled)\<rparr>
                else T)
      in T1\<lparr>tp_value := relax c setpoint (tp_value T1) (elapsed - cooled)\<rparr>)"

definition noise_scale :: "real \<Rightarrow> temperature \<Rightarrow> real" where
  "noise_scale elapsed T =
     tp_sigma T * sqrt (tp_time_constant T / 2 * (1 - exp (- 2 * elapsed / tp_time_constant T)))"

definition add_noise :: "'r opcua_random \<Rightarrow> real \<Rightarrow> temperature \<Rightarrow> 'r \<Rightarrow> temperature \<times> 'r" where
  "add_noise R elapsed T r =
     (if noise_scale elapsed T \<noteq> 0
      then (case or_gauss R 0 (noise_scale elapsed T) r of (g, r') \<Rightarrow> (T\<lparr>tp_value := tp_value T + g\<rparr>, r'))
      else (T, r))"

definition temperature_tick ::
  "'r opcua_random \<Rightarrow> pyfloat \<Rightarrow> pyfloat \<Rightarrow> pyfloat \<Rightarrow> temperature \<Rightarrow> 'r \<Rightarrow> (temperature \<times> 'r) res" where
  "temperature_tick R setpoint elapsed spike T r =
     (case elapsed of
        Fin e \<Rightarrow>
          if e \<le> 0 then Inl (ValueError ''elapsed time must be positive and finite'')
          else (case (setpoint, spike) of
                  (Fin s, Fin k) \<Rightarrow>
                    (case add_noise R e (regulate s e T) r of
                       (T', r') \<Rightarrow> Inr (T'\<lparr>tp_value := tp_value T' + k\<rparr>, r'))
                | _ \<Rightarrow> Inl (ValueError ''temperature inputs must be finite''))
      | _ \<Rightarrow> Inl (ValueError ''elapsed time must be positive and finite''))"

section \<open>The hot spike\<close>

text \<open>\<open>Counter[k] += 1\<close> on an insertion-ordered dictionary.\<close>

definition count_one :: "string \<Rightarrow> (string \<times> nat) list \<Rightarrow> (string \<times> nat) list" where
  "count_one k counts = AList.update k (Suc (case map_of counts k of None \<Rightarrow> 0 | Some n \<Rightarrow> n)) counts"

record hot_spike =
  hs_probability :: real
  hs_contribution :: real
  hs_method_triggered :: bool
  hs_triggers :: "(string \<times> nat) list"

definition hot_spike_new :: "real \<Rightarrow> hot_spike" where
  "hot_spike_new p = \<lparr>hs_probability = p, hs_contribution = 0, hs_method_triggered = False, hs_triggers = []\<rparr>"

definition trigger_via_method :: "hot_spike \<Rightarrow> hot_spike" where
  "trigger_via_method h = h\<lparr>hs_method_triggered := True\<rparr>"

definition spike_kind :: "'r opcua_random \<Rightarrow> hot_spike \<Rightarrow> 'r \<Rightarrow> string option \<times> 'r" where
  "spike_kind R h r =
     (if hs_method_triggered h then (Some ''method'', r)
      else (case or_random R r of (x, r') \<Rightarrow> (if x < hs_probability h then Some ''stochastic'' else None, r')))"

definition hot_spike_tick :: "'r opcua_random \<Rightarrow> hot_spike \<Rightarrow> 'r \<Rightarrow> hot_spike \<times> 'r" where
  "hot_spike_tick R h r =
     (case spike_kind R h r of (kind, r') \<Rightarrow>
        let h1 = h\<lparr>hs_contribution := hs_contribution h * (9 / 10), hs_method_triggered := False\<rparr> in
        (case kind of None \<Rightarrow> h1
         | Some k \<Rightarrow> h1\<lparr>hs_contribution := 5, hs_triggers := count_one k (hs_triggers h)\<rparr>, r'))"

section \<open>The setpoint\<close>

record setpoint_write =
  sw_value :: pyfloat
  sw_session :: string
  sw_at :: datetime

record setpoint =
  st_value :: pyfloat
  st_writes :: "setpoint_write list"

definition setpoint_new :: "pyfloat \<Rightarrow> setpoint" where
  "setpoint_new v = \<lparr>st_value = v, st_writes = []\<rparr>"

definition setpoint_put :: "pyfloat \<Rightarrow> string \<Rightarrow> datetime \<Rightarrow> setpoint \<Rightarrow> setpoint" where
  "setpoint_put v session at_time s =
     s\<lparr>st_value := v, st_writes := st_writes s @ [\<lparr>sw_value = v, sw_session = session, sw_at = at_time\<rparr>]\<rparr>"

definition write_count_by_writer :: "setpoint \<Rightarrow> (string \<times> nat) list" where
  "write_count_by_writer s = fold (\<lambda>x. count_one (sw_session x)) (st_writes s) []"

section \<open>Throughput and qualities\<close>

definition throughput :: "'r opcua_random \<Rightarrow> opcua_motor \<Rightarrow> 'r \<Rightarrow> real \<times> 'r" where
  "throughput R m r =
     (if om_state m = MOTOR_RUNNING
      then (case or_gauss R 0 (5 / 100) r of (g, r') \<Rightarrow> (max 0 (6 / 10000 * om_rpm m + g), r'))
      else if om_state m = MOTOR_STARTING then (max 0 (6 / 10000 * om_rpm m), r)
      else (0, r))"

record quality_emitter =
  qe_bad :: real
  qe_uncertain :: real
  qe_counts :: "(string \<times> nat) list"

definition quality_next :: "'r opcua_random \<Rightarrow> quality_emitter \<Rightarrow> 'r \<Rightarrow> quality \<times> quality_emitter \<times> 'r" where
  "quality_next R q r =
     (case or_random R r of (x, r') \<Rightarrow>
        let v = (if x < qe_bad q then Bad else if x < qe_bad q + qe_uncertain q then Uncertain else Good) in
        (v, q\<lparr>qe_counts := count_one (quality_str v) (qe_counts q)\<rparr>, r'))"

text \<open>
  The quality rate takes any float as its target. \<open>min(100.0, v)\<close> and \<open>max(85.0, v)\<close> return
  their first argument unless the second one compares, so a NaN becomes 100.
\<close>

fun float_add :: "pyfloat \<Rightarrow> pyfloat \<Rightarrow> pyfloat" where
  "float_add (Fin x) (Fin y) = Fin (x + y)"
| "float_add NaN _ = NaN"
| "float_add _ NaN = NaN"
| "float_add PosInf NegInf = NaN"
| "float_add NegInf PosInf = NaN"
| "float_add PosInf _ = PosInf"
| "float_add _ PosInf = PosInf"
| "float_add NegInf _ = NegInf"
| "float_add _ NegInf = NegInf"

definition clamp_rate :: "pyfloat \<Rightarrow> pyfloat" where
  "clamp_rate v =
     (let low = (if fle v (Fin 100) then v else Fin 100) in if fle (Fin 85) low then low else Fin 85)"

record quality_rate =
  qr_target :: pyfloat
  qr_alpha :: real
  qr_sigma :: real
  qr_value :: pyfloat

definition quality_rate_new :: "pyfloat \<Rightarrow> quality_rate" where
  "quality_rate_new target = \<lparr>qr_target = target, qr_alpha = 1 / 10, qr_sigma = 3 / 10, qr_value = target\<rparr>"

definition quality_rate_tick :: "'r opcua_random \<Rightarrow> quality_rate \<Rightarrow> 'r \<Rightarrow> quality_rate \<times> 'r" where
  "quality_rate_tick R q r =
     (case (if 0 < qr_sigma q then or_gauss R 0 (qr_sigma q) r else (0, r)) of (noise, r') \<Rightarrow>
        let step = fmul (float_add (qr_target q) (fmul (qr_value q) (- 1))) (qr_alpha q) in
        (q\<lparr>qr_value := clamp_rate (fadd (float_add (qr_value q) step) noise)\<rparr>, r'))"

section \<open>The temperature does not depend on the ticks\<close>

lemma relax_0 [simp]: "relax c e v 0 = v"
  by (simp add: relax_def)

lemma relax_add: "relax c e (relax c e v a) b = relax c e v (a + b)"
proof -
  have "- (a + b) / c = - a / c + - b / c" by (simp add: add_divide_distrib diff_divide_distrib)
  then have "exp (- (a + b) / c) = exp (- a / c) * exp (- b / c)" by (simp only: exp_add)
  then show ?thesis by (simp add: relax_def)
qed

lemma regulate_eq:
  "regulate s e T = T\<lparr>tp_value := relax (tp_time_constant T) s
       (relax (tp_time_constant T) (s - tp_cooling_rate T * tp_time_constant T) (tp_value T)
          (min e (tp_cooling_remaining T)))
       (e - min e (tp_cooling_remaining T)),
     tp_cooling_remaining := (if min e (tp_cooling_remaining T) = 0 then tp_cooling_remaining T
        else max 0 (tp_cooling_remaining T - min e (tp_cooling_remaining T)))\<rparr>"
  by (simp add: regulate_def Let_def)

lemma regulate_split:
  assumes "0 < a" "0 < b" "0 \<le> tp_cooling_remaining T"
  shows "regulate s b (regulate s a T) = regulate s (a + b) T"
proof (cases "a \<le> tp_cooling_remaining T")
  case True
  then have "min a (tp_cooling_remaining T) = a" by simp
  moreover have "min (a + b) (tp_cooling_remaining T) = a + min b (tp_cooling_remaining T - a)" by simp
  ultimately show ?thesis using assms True
    by (auto simp: regulate_eq relax_add max_def min_def)
next
  case False
  then show ?thesis using assms
    by (auto simp: regulate_eq relax_add max_def min_def add.commute add_diff_eq)
qed


text \<open>Ticking through a list of intervals: the first error stops the run.\<close>

fun temperature_ticks ::
  "'r opcua_random \<Rightarrow> pyfloat \<Rightarrow> pyfloat list \<Rightarrow> temperature \<Rightarrow> 'r \<Rightarrow> (temperature \<times> 'r) res" where
  "temperature_ticks R setpoint [] T r = Inr (T, r)"
| "temperature_ticks R setpoint (e # es) T r =
     bindE (temperature_tick R setpoint e (Fin 0) T r) (\<lambda>(T', r'). temperature_ticks R setpoint es T' r')"

definition temperature_ok :: "temperature \<Rightarrow> bool" where
  "temperature_ok T \<longleftrightarrow> 0 < tp_time_constant T \<and> 0 \<le> tp_sigma T \<and> 0 \<le> tp_cooling_remaining T \<and>
     (0 < tp_cooling_remaining T \<longrightarrow> 0 < tp_cooling_rate T)"

lemma regulate_keeps [simp]:
  "tp_time_constant (regulate s e T) = tp_time_constant T" "tp_sigma (regulate s e T) = tp_sigma T"
  "tp_cooling_rate (regulate s e T) = tp_cooling_rate T"
  by (simp_all add: regulate_eq)

lemma regulate_remaining:
  "0 < e \<Longrightarrow> 0 \<le> tp_cooling_remaining T \<Longrightarrow>
     tp_cooling_remaining (regulate s e T) = max 0 (tp_cooling_remaining T - e)"
  by (auto simp: regulate_eq min_def max_def)

lemma temperature_new_ok: "temperature_new i c s = Inr T \<Longrightarrow> temperature_ok T"
  by (auto simp: temperature_new_def temperature_ok_def split: pyfloat.splits if_splits)

lemma inject_cooling_ok: "inject_cooling q d T = Inr T' \<Longrightarrow> temperature_ok T \<Longrightarrow> temperature_ok T'"
  by (auto simp: inject_cooling_def temperature_ok_def split: pyfloat.splits if_splits)

lemma regulate_ok: "0 < e \<Longrightarrow> temperature_ok T \<Longrightarrow> temperature_ok (regulate s e T)"
  by (auto simp: temperature_ok_def regulate_remaining)

lemma add_noise_ok:
  "add_noise R e T r = (T', r') \<Longrightarrow> temperature_ok T' = temperature_ok T"
  by (auto simp: add_noise_def temperature_ok_def split: if_splits prod.splits)

lemma temperature_tick_ok:
  assumes "temperature_tick R s e k T r = Inr (T', r')" "temperature_ok T"
  shows "temperature_ok T'"
proof -
  obtain x y z where e: "e = Fin x" "0 < x" "s = Fin y" "k = Fin z"
    using assms(1) by (auto simp: temperature_tick_def split: pyfloat.splits if_splits)
  obtain T1 where T1: "add_noise R x (regulate y x T) r = (T1, r')" "T' = T1\<lparr>tp_value := tp_value T1 + z\<rparr>"
    using assms(1) e by (auto simp: temperature_tick_def split: prod.splits)
  have "temperature_ok T1" using add_noise_ok [OF T1(1)] regulate_ok [OF e(2) assms(2)] by simp
  then show ?thesis using T1(2) by (simp add: temperature_ok_def)
qed

text \<open>Without noise a tick is the regulation alone.\<close>

lemma quiet_tick:
  "tp_sigma T = 0 \<Longrightarrow> 0 < e \<Longrightarrow> temperature_tick R (Fin s) (Fin e) (Fin 0) T r = Inr (regulate s e T, r)"
  by (simp add: temperature_tick_def add_noise_def noise_scale_def)

lemma quiet_ticks:
  assumes "tp_sigma T = 0" "0 \<le> tp_cooling_remaining T" "\<forall>e \<in> set es. 0 < e" "es \<noteq> []"
  shows "temperature_ticks R (Fin s) (map Fin es) T r = Inr (regulate s (sum_list es) T, r)"
  using assms
proof (induction es arbitrary: T)
  case (Cons e es)
  show ?case
  proof (cases es)
    case Nil
    then show ?thesis using Cons.prems by (simp add: quiet_tick)
  next
    case (Cons e' es')
    have "0 < e" "0 < sum_list es" using Cons.prems Cons by (auto intro!: add_pos_nonneg sum_list_nonneg)
    moreover have "temperature_ticks R (Fin s) (map Fin es) (regulate s e T) r =
        Inr (regulate s (sum_list es) (regulate s e T), r)"
      using Cons.IH [of "regulate s e T"] Cons.prems Cons by (simp add: regulate_remaining)
    ultimately show ?thesis using Cons.prems by (simp add: quiet_tick regulate_split)
  qed
qed simp

text \<open>
  C22. Without noise the temperature depends on the time that has passed and not on the ticks it is
  divided into: any sequence of intervals leaves the zone, its value and the rest of its cooling, as
  one tick over their sum does.
\<close>

theorem temperature_independent_of_ticks:
  assumes "temperature_ok T" "tp_sigma T = 0" "es \<noteq> []" "\<forall>e \<in> set es. 0 < e"
  shows "temperature_ticks R (Fin s) (map Fin es) T r = temperature_tick R (Fin s) (Fin (sum_list es)) (Fin 0) T r"
proof -
  have "0 < sum_list es" using assms(3,4) by (cases es) (auto intro!: add_pos_nonneg sum_list_nonneg)
  then show ?thesis using assms quiet_ticks [of T es R s r] by (simp add: temperature_ok_def quiet_tick)
qed

definition still_random :: "nat opcua_random" where
  "still_random = \<lparr>or_random = \<lambda>n. (1 / 2, Suc n), or_gauss = \<lambda>mu sigma n. (mu, Suc n)\<rparr>"

definition cooled_zone :: temperature where
  "cooled_zone = \<lparr>tp_time_constant = 10, tp_sigma = 0, tp_value = 22, tp_cooling_rate = 1 / 2, tp_cooling_remaining = 7 / 20\<rparr>"

theorem temperature_independent_of_ticks_witness:
  "temperature_ticks still_random (Fin 22) (map Fin (replicate 10 (1 / 10))) cooled_zone 0 =
   temperature_tick still_random (Fin 22) (Fin 1) (Fin 0) cooled_zone 0"
  using temperature_independent_of_ticks [of cooled_zone "replicate 10 (1 / 10)" still_random 22 0]
  by (simp add: cooled_zone_def temperature_ok_def sum_list_replicate)


section \<open>The temperature follows its equation\<close>

lemma relax_DERIV: "0 < c \<Longrightarrow> ((relax c e v) has_real_derivative (e - relax c e v t) / c) (at t)"
  unfolding relax_def [abs_def] by (auto intro!: derivative_eq_intros simp: field_simps)

lemma shifted_relax_DERIV:
  "0 < c \<Longrightarrow> ((\<lambda>t. relax c e v (t - a)) has_real_derivative (e - relax c e v (t - a)) / c) (at t)"
  using DERIV_shift [of "relax c e v" _ t "- a"] relax_DERIV [of c e v "t - a"] by simp

lemma regulate_DERIV:
  assumes "0 < t" "0 < tp_time_constant T" "0 \<le> tp_cooling_remaining T" "t \<noteq> tp_cooling_remaining T"
  shows "((\<lambda>t. tp_value (regulate s t T)) has_real_derivative
      ((s - tp_value (regulate s t T)) / tp_time_constant T -
       (if t < tp_cooling_remaining T then tp_cooling_rate T else 0))) (at t)"
proof (cases "t < tp_cooling_remaining T")
  case True
  let ?e = "s - tp_cooling_rate T * tp_time_constant T"
  let ?f = "relax (tp_time_constant T) ?e (tp_value T)"
  have "eventually (\<lambda>u. u < tp_cooling_remaining T) (nhds t)"
    using True by (intro eventually_nhds_in_open [of "{..<tp_cooling_remaining T}", simplified])
  then have ev: "eventually (\<lambda>u. tp_value (regulate s u T) = ?f u) (nhds t)"
    by (rule eventually_mono) (simp add: regulate_eq)
  have "(?f has_real_derivative (?e - ?f t) / tp_time_constant T) (at t)" by (rule relax_DERIV [OF assms(2)])
  moreover have "tp_value (regulate s t T) = ?f t" using True by (simp add: regulate_eq)
  moreover have "(?e - x) / tp_time_constant T = (s - x) / tp_time_constant T - tp_cooling_rate T" for x
    using assms(2) by (simp add: field_simps)
  ultimately show ?thesis using DERIV_cong_ev [OF refl ev refl] True by simp
next
  case False
  then have lt: "tp_cooling_remaining T < t" using assms(4) by simp
  let ?v = "relax (tp_time_constant T) (s - tp_cooling_rate T * tp_time_constant T) (tp_value T) (tp_cooling_remaining T)"
  let ?f = "\<lambda>u. relax (tp_time_constant T) s ?v (u - tp_cooling_remaining T)"
  have "eventually (\<lambda>u. tp_cooling_remaining T < u) (nhds t)"
    using lt by (intro eventually_nhds_in_open [of "{tp_cooling_remaining T<..}", simplified])
  then have ev: "eventually (\<lambda>u. tp_value (regulate s u T) = ?f u) (nhds t)"
    by (rule eventually_mono) (simp add: regulate_eq)
  have "(?f has_real_derivative (s - ?f t) / tp_time_constant T) (at t)" by (rule shifted_relax_DERIV [OF assms(2)])
  moreover have "tp_value (regulate s t T) = ?f t" using lt by (simp add: regulate_eq)
  ultimately show ?thesis using DERIV_cong_ev [OF refl ev refl] False by simp
qed

lemma regulate_continuous:
  "0 < tp_time_constant T \<Longrightarrow> continuous_on UNIV (\<lambda>t. tp_value (regulate s t T))"
  unfolding regulate_eq relax_def by (auto intro!: continuous_intros)

text \<open>
  C23. Without noise the ticks solve the differential equation the class states: from its present
  value the temperature moves continuously, at the rate (setpoint - T) / time constant, less the
  cooling rate for as long as the injected cooling lasts and not a moment longer.
\<close>

theorem temperature_solves_equation:
  assumes "temperature_ok T" "tp_sigma T = 0"
  shows "\<exists>f. f 0 = tp_value T \<and> continuous_on UNIV f \<and>
    (\<forall>t > 0. \<exists>T'. temperature_tick R (Fin s) (Fin t) (Fin 0) T r = Inr (T', r) \<and> tp_value T' = f t \<and>
       tp_cooling_remaining T' = max 0 (tp_cooling_remaining T - t)) \<and>
    (\<forall>t > 0. t < tp_cooling_remaining T \<longrightarrow>
       (f has_real_derivative (s - f t) / tp_time_constant T - tp_cooling_rate T) (at t)) \<and>
    (\<forall>t > 0. tp_cooling_remaining T < t \<longrightarrow> (f has_real_derivative (s - f t) / tp_time_constant T) (at t))"
proof (intro exI conjI allI impI)
  let ?f = "\<lambda>t. tp_value (regulate s t T)"
  have ok: "0 < tp_time_constant T" "0 \<le> tp_cooling_remaining T" using assms(1) by (simp_all add: temperature_ok_def)
  show "?f 0 = tp_value T" using ok by (simp add: regulate_eq)
  show "continuous_on UNIV ?f" by (rule regulate_continuous [OF ok(1)])
  fix t :: real assume t: "0 < t"
  show "temperature_tick R (Fin s) (Fin t) (Fin 0) T r = Inr (regulate s t T, r)" by (rule quiet_tick [OF assms(2) t])
  show "tp_value (regulate s t T) = ?f t" by simp
  show "tp_cooling_remaining (regulate s t T) = max 0 (tp_cooling_remaining T - t)"
    by (rule regulate_remaining [OF t ok(2)])
  show "(?f has_real_derivative (s - ?f t) / tp_time_constant T - tp_cooling_rate T) (at t)"
    if "t < tp_cooling_remaining T"
    using regulate_DERIV [OF t ok, of s] that by simp
  show "(?f has_real_derivative (s - ?f t) / tp_time_constant T) (at t)" if "tp_cooling_remaining T < t"
    using regulate_DERIV [OF t ok, of s] that by simp
qed

theorem temperature_solves_equation_witness:
  "\<exists>f. f 0 = (22::real) \<and>
    (\<exists>T'. temperature_tick still_random (Fin 22) (Fin (1 / 10)) (Fin 0) cooled_zone 0 = Inr (T', 0) \<and>
       tp_value T' = f (1 / 10) \<and> tp_cooling_remaining T' = 1 / 4) \<and>
    (f has_real_derivative (22 - f (1 / 10)) / 10 - 1 / 2) (at (1 / 10))"
proof -
  have "temperature_ok cooled_zone" "tp_sigma cooled_zone = 0" by (simp_all add: cooled_zone_def temperature_ok_def)
  from temperature_solves_equation [OF this, where R = still_random and s = 22 and r = 0]
  obtain f where f: "f 0 = tp_value cooled_zone"
      "\<forall>t > 0. \<exists>T'. temperature_tick still_random (Fin 22) (Fin t) (Fin 0) cooled_zone 0 = Inr (T', 0) \<and> tp_value T' = f t \<and>
         tp_cooling_remaining T' = max 0 (tp_cooling_remaining cooled_zone - t)"
      "\<forall>t > 0. t < tp_cooling_remaining cooled_zone \<longrightarrow>
         (f has_real_derivative (22 - f t) / tp_time_constant cooled_zone - tp_cooling_rate cooled_zone) (at t)"
    by blast
  show ?thesis using f(1) f(2) [rule_format, of "1 / 10"] f(3) [rule_format, of "1 / 10"]
    by (intro exI [of _ f]) (auto simp: cooled_zone_def)
qed


section \<open>The motor\<close>

definition motor_ok :: "opcua_motor \<Rightarrow> bool" where
  "motor_ok m \<longleftrightarrow> 0 < om_tick_ms m \<and> om_state m \<in> {0, 1, 2, 3} \<and> 0 \<le> om_time_in_state m \<and>
     (om_state m = MOTOR_STOPPED \<longrightarrow> om_rpm m = 0 \<and> om_time_in_state m < 5000) \<and>
     (om_state m = MOTOR_STARTING \<longrightarrow> 0 \<le> om_rpm m \<and> om_rpm m \<le> 1500 \<and> om_time_in_state m < 3000) \<and>
     (om_state m = MOTOR_FAULT \<longrightarrow> om_rpm m = 0 \<and> om_time_in_state m < 10000)"

lemma motor_new_ok: "0 < d \<Longrightarrow> motor_ok (opcua_motor_new d p)"
  by (simp add: opcua_motor_new_def motor_ok_def)

lemma motor_tick_ok:
  assumes "opcua_motor_tick R m r = (m', r')" "motor_ok m"
  shows "motor_ok m' \<and> om_tick_ms m' = om_tick_ms m \<and> om_fault_probability m' = om_fault_probability m"
proof -
  have "om_state m = 0 \<or> om_state m = 1 \<or> om_state m = 2 \<or> om_state m = 3" using assms(2) by (simp add: motor_ok_def)
  then show ?thesis
    using assms by (elim disjE) (auto simp: opcua_motor_tick_def motor_ok_def Let_def motor_enter_def min_def split: prod.splits if_splits)
qed

text \<open>A motor moves along its cycle only, and only when the time of its state has passed.\<close>

lemma motor_transition:
  assumes "opcua_motor_tick R m r = (m', r')" "motor_ok m" "om_state m' \<noteq> om_state m"
  shows "om_time_in_state m' = 0 \<and>
    (om_state m = 0 \<and> om_state m' = 1 \<and> 5000 \<le> om_time_in_state m + om_tick_ms m \<or>
     om_state m = 1 \<and> om_state m' = 2 \<and> 3000 \<le> om_time_in_state m + om_tick_ms m \<or>
     om_state m = 2 \<and> om_state m' = 3 \<or>
     om_state m = 3 \<and> om_state m' = 0 \<and> 10000 \<le> om_time_in_state m + om_tick_ms m)"
proof -
  have "om_state m = 0 \<or> om_state m = 1 \<or> om_state m = 2 \<or> om_state m = 3" using assms(2) by (simp add: motor_ok_def)
  then show ?thesis
    using assms(1,3) by (elim disjE) (auto simp: opcua_motor_tick_def Let_def motor_enter_def split: prod.splits if_splits)
qed

fun motor_ticks :: "'r opcua_random \<Rightarrow> nat \<Rightarrow> opcua_motor \<Rightarrow> 'r \<Rightarrow> opcua_motor \<times> 'r" where
  "motor_ticks R 0 m r = (m, r)"
| "motor_ticks R (Suc n) m r = (case motor_ticks R n m r of (m', r') \<Rightarrow> opcua_motor_tick R m' r')"

lemma motor_ticks_add:
  "motor_ticks R (n + k) m r = (case motor_ticks R n m r of (m', r') \<Rightarrow> motor_ticks R k m' r')"
  by (induction k) (auto split: prod.splits)

lemma motor_ticks_last:
  "n = Suc k \<Longrightarrow> motor_ticks R k m r = (m', r') \<Longrightarrow> motor_ticks R n m r = opcua_motor_tick R m' r'"
  by simp

lemma wait_stopped:
  "om_state m = 0 \<Longrightarrow> 0 < om_tick_ms m \<Longrightarrow> om_time_in_state m + int n * om_tick_ms m < 5000 \<Longrightarrow>
     motor_ticks R n m r = (m\<lparr>om_time_in_state := om_time_in_state m + int n * om_tick_ms m\<rparr>, r)"
  by (induction n) (auto simp: opcua_motor_tick_def Let_def algebra_simps)

lemma wait_starting:
  "om_state m = 1 \<Longrightarrow> 0 < om_tick_ms m \<Longrightarrow> om_time_in_state m = 0 \<Longrightarrow> 0 < n \<Longrightarrow> int n * om_tick_ms m < 3000 \<Longrightarrow>
     motor_ticks R n m r =
       (m\<lparr>om_time_in_state := int n * om_tick_ms m, om_rpm := of_int (int n * om_tick_ms m) / 2\<rparr>, r)"
proof (induction n)
  case (Suc n)
  have lt: "int n * om_tick_ms m < 3000" using Suc.prems by (simp add: algebra_simps)
  have "motor_ticks R n m r = (m\<lparr>om_time_in_state := int n * om_tick_ms m,
      om_rpm := (if n = 0 then om_rpm m else of_int (int n * om_tick_ms m) / 2)\<rparr>, r)"
    using Suc.IH [OF Suc.prems(1-3) _ lt] Suc.prems(3) by (cases "n = 0") simp_all
  moreover have "int n * om_tick_ms m + om_tick_ms m = int (Suc n) * om_tick_ms m" by (simp add: algebra_simps)
  moreover have "min 1 (of_int (int (Suc n) * om_tick_ms m) / 3000 :: real) = of_int (int (Suc n) * om_tick_ms m) / 3000"
    using Suc.prems(5) by (subst min_absorb2) (simp_all del: of_int_mult of_nat_Suc)
  ultimately show ?case using Suc.prems
    by (simp add: opcua_motor_tick_def Let_def del: of_int_mult of_nat_Suc)
qed simp

text \<open>The first tick at which a time is up.\<close>

definition ticks_until :: "int \<Rightarrow> int \<Rightarrow> nat" where
  "ticks_until d duration = nat ((duration + d - 1) div d)"

lemma ticks_until:
  assumes "0 < d" "0 < duration"
  shows "duration \<le> int (ticks_until d duration) * d" "int (ticks_until d duration - 1) * d < duration"
    "0 < ticks_until d duration"
proof -
  let ?q = "(duration + d - 1) div d"
  have q: "?q * d = duration + d - 1 - (duration + d - 1) mod d" by (simp add: minus_mod_eq_div_mult)
  have m: "0 \<le> (duration + d - 1) mod d" "(duration + d - 1) mod d < d" using assms(1) by simp_all
  have "0 < ?q" using assms by (simp add: pos_imp_zdiv_pos_iff)
  then show "0 < ticks_until d duration" "duration \<le> int (ticks_until d duration) * d"
      "int (ticks_until d duration - 1) * d < duration"
    using q m by (simp_all add: ticks_until_def of_nat_diff left_diff_distrib)
qed

text \<open>
  A new motor starts: it stands for five seconds of ticks, ramps up in proportion to the time
  for three more and then runs at 1500 rpm, whatever the length of a tick, and draws no random
  number on the way.
\<close>

theorem motor_starts_up:
  assumes "0 < d"
  shows "\<exists>stand ramp. 5000 \<le> int stand * d \<and> int (stand - 1) * d < 5000 \<and>
    3000 \<le> int ramp * d \<and> int (ramp - 1) * d < 3000 \<and>
    (\<forall>n < stand. \<exists>m. motor_ticks R n (opcua_motor_new d p) r = (m, r) \<and> om_state m = MOTOR_STOPPED \<and> om_rpm m = 0) \<and>
    (\<forall>n < ramp. \<exists>m. motor_ticks R (stand + n) (opcua_motor_new d p) r = (m, r) \<and> om_state m = MOTOR_STARTING \<and>
       om_rpm m = of_int (int n * d) / 2) \<and>
    (\<exists>m. motor_ticks R (stand + ramp) (opcua_motor_new d p) r = (m, r) \<and> om_state m = MOTOR_RUNNING \<and> om_rpm m = 1500)"
proof (rule exI [of _ "ticks_until d 5000"], rule exI [of _ "ticks_until d 3000"], intro conjI)
  let ?m = "opcua_motor_new d p"
  let ?stand = "ticks_until d 5000" and ?ramp = "ticks_until d 3000"
  have pos: "(0::int) < 5000" "(0::int) < 3000" by simp_all
  note s = ticks_until [OF assms pos(1)] and k = ticks_until [OF assms pos(2)]
  show "5000 \<le> int ?stand * d" "int (?stand - 1) * d < 5000" "3000 \<le> int ?ramp * d" "int (?ramp - 1) * d < 3000"
    by (rule s k)+
  have m: "om_state ?m = 0" "om_tick_ms ?m = d" "om_time_in_state ?m = 0" "om_rpm ?m = 0"
    by (simp_all add: opcua_motor_new_def)
  have before: "motor_ticks R n ?m r = (?m\<lparr>om_time_in_state := int n * d\<rparr>, r)" if "n < ?stand" for n
  proof -
    have "int n * d \<le> int (?stand - 1) * d" using that assms by (intro mult_right_mono) simp_all
    then have "int n * d < 5000" using s(2) by linarith
    then show ?thesis using wait_stopped [of ?m n R r] m assms by simp
  qed
  then show "\<forall>n < ?stand. \<exists>m. motor_ticks R n ?m r = (m, r) \<and> om_state m = MOTOR_STOPPED \<and> om_rpm m = 0"
    using m by simp
  let ?m1 = "motor_enter MOTOR_STARTING (?m\<lparr>om_time_in_state := int ?stand * d\<rparr>)"
  have stand: "motor_ticks R ?stand ?m r = (?m1, r)"
  proof -
    have "motor_ticks R ?stand ?m r = opcua_motor_tick R (?m\<lparr>om_time_in_state := int (?stand - 1) * d\<rparr>) r"
      by (rule motor_ticks_last [where k = "?stand - 1", OF _ before]) (use s(3) in linarith)+
    moreover have "int (?stand - 1) * d + d = int ?stand * d" using s(3) by (simp add: of_nat_diff algebra_simps)
    ultimately show ?thesis using s m by (simp add: opcua_motor_tick_def Let_def)
  qed
  have m1: "om_state ?m1 = 1" "om_tick_ms ?m1 = d" "om_time_in_state ?m1 = 0" "om_rpm ?m1 = 0"
    using m by (simp_all add: motor_enter_def)
  have ramp: "motor_ticks R (?stand + n) ?m r = (?m1\<lparr>om_time_in_state := int n * d, om_rpm := of_int (int n * d) / 2\<rparr>, r)"
    if "n < ?ramp" for n
  proof (cases "n = 0")
    case True
    then show ?thesis using stand m1 by simp
  next
    case False
    have "int n * d \<le> int (?ramp - 1) * d" using that assms by (intro mult_right_mono) simp_all
    then have "int n * d < 3000" using k(2) by linarith
    then show ?thesis using wait_starting [of ?m1 n R r] m1 assms stand False by (simp add: motor_ticks_add)
  qed
  then show "\<forall>n < ?ramp. \<exists>m. motor_ticks R (?stand + n) ?m r = (m, r) \<and> om_state m = MOTOR_STARTING \<and>
      om_rpm m = of_int (int n * d) / 2"
    using m1 by simp
  have "motor_ticks R (?stand + ?ramp) ?m r =
      opcua_motor_tick R (?m1\<lparr>om_time_in_state := int (?ramp - 1) * d, om_rpm := of_int (int (?ramp - 1) * d) / 2\<rparr>) r"
    by (rule motor_ticks_last [where k = "?stand + (?ramp - 1)", OF _ ramp]) (use k(3) in linarith)+
  moreover have "int (?ramp - 1) * d + d = int ?ramp * d" using k(3) by (simp add: of_nat_diff algebra_simps)
  moreover have "(real ?ramp - 1) * of_int d + of_int d = real ?ramp * of_int d" by (simp add: left_diff_distrib)
  moreover have "(3000::real) \<le> of_int (int ?ramp * d)" using k(1) by linarith
  ultimately show "\<exists>m. motor_ticks R (?stand + ?ramp) ?m r = (m, r) \<and> om_state m = MOTOR_RUNNING \<and> om_rpm m = 1500"
    using k m1 by (simp add: opcua_motor_tick_def Let_def motor_enter_def)
qed

theorem motor_starts_up_witness:
  "\<exists>stand ramp. 5000 \<le> int stand * 100 \<and>
    (\<exists>m. motor_ticks still_random (stand + ramp) (opcua_motor_new 100 (1 / 10)) 7 = (m, 7) \<and> om_state m = 2 \<and> om_rpm m = 1500)"
proof -
  have "(0::int) < 100" by simp
  from motor_starts_up [OF this, where R = still_random and p = "1 / 10" and r = 7]
  show ?thesis by (elim exE conjE) (intro exI conjI, assumption+)
qed


section \<open>Ranges\<close>

lemma clamp_rate_range: "\<exists>x. clamp_rate v = Fin x \<and> 85 \<le> x \<and> x \<le> 100"
  by (cases v) (auto simp: clamp_rate_def Let_def)

lemma quality_rate_range: "quality_rate_tick R q r = (q', r') \<Longrightarrow> \<exists>x. qr_value q' = Fin x \<and> 85 \<le> x \<and> x \<le> 100"
  using clamp_rate_range by (auto simp: quality_rate_tick_def Let_def split: prod.splits)

lemma throughput_nonneg: "throughput R m r = (x, r') \<Longrightarrow> 0 \<le> x"
  by (auto simp: throughput_def split: prod.splits if_splits)

definition spike_ok :: "hot_spike \<Rightarrow> bool" where
  "spike_ok h \<longleftrightarrow> 0 \<le> hs_contribution h \<and> hs_contribution h \<le> 5"

lemma hot_spike_tick_ok: "hot_spike_tick R h r = (h', r') \<Longrightarrow> spike_ok h \<Longrightarrow> spike_ok h'"
  by (auto simp: hot_spike_tick_def spike_ok_def Let_def split: prod.splits option.splits)

lemma count_one_total: "distinct (map fst counts) \<Longrightarrow>
  distinct (map fst (count_one k counts)) \<and> sum_list (map snd (count_one k counts)) = Suc (sum_list (map snd counts))"
  unfolding count_one_def
proof (intro conjI)
  assume d: "distinct (map fst counts)"
  show "distinct (map fst (AList.update k (Suc (case map_of counts k of None \<Rightarrow> 0 | Some n \<Rightarrow> n)) counts))"
    using d by (rule distinct_update)
  have "sum_list (map snd (AList.update k m counts)) + (case map_of counts k of None \<Rightarrow> 0 | Some n \<Rightarrow> n) =
      m + sum_list (map snd counts)" for m
    using d by (induction counts) (auto split: option.splits dest: map_of_SomeD)
  from this [of "Suc (case map_of counts k of None \<Rightarrow> 0 | Some n \<Rightarrow> n)"]
  show "sum_list (map snd (AList.update k (Suc (case map_of counts k of None \<Rightarrow> 0 | Some n \<Rightarrow> n)) counts)) =
      Suc (sum_list (map snd counts))"
    by simp
qed

lemma count_one_at: "map_of (count_one k counts) k = Some (Suc (case map_of counts k of None \<Rightarrow> 0 | Some n \<Rightarrow> n))"
    "k' \<noteq> k \<Longrightarrow> map_of (count_one k counts) k' = map_of counts k'"
  by (simp_all add: count_one_def update_conv')

text \<open>The counts of the writers are the lengths of their histories.\<close>

lemma write_counts: "map_of (write_count_by_writer s) k =
  (let n = length (filter (\<lambda>x. sw_session x = k) (st_writes s)) in if n = 0 then None else Some n)"
proof -
  have "map_of (fold (\<lambda>x. count_one (sw_session x)) xs c) k =
      (let n = length (filter (\<lambda>x. sw_session x = k) xs) in
       if n = 0 then map_of c k else Some (n + (case map_of c k of None \<Rightarrow> 0 | Some m \<Rightarrow> m)))" for xs c
    by (induction xs arbitrary: c) (auto simp: count_one_at Let_def)
  from this [of "st_writes s" "[]"] show ?thesis by (simp add: write_count_by_writer_def Let_def)
qed

end
