(* ===== verification/Opcua_Simulator.thy ===== *)
theory Opcua_Simulator
  imports Opcua_Machines
begin

text \<open>
  The OPC UA simulator (\<open>opcua_simulator/server.py\<close>): the address space, the values its nodes
  show, the methods and writes of its clients, and the tick that moves the machines. The value of a
  variable of the OPC UA server is kept under the id of its node. Whether the server refuses a value
  the runtime writes is a parameter, like the float syntax of Python; a tick is not interrupted,
  because the server of the library answers its own session without waiting.
\<close>

section \<open>The address space\<close>

record opcua_node =
  od_id :: string
  od_setpoint :: bool
  od_cell :: string
  od_equipment :: string
  od_type :: value_type
  od_initial :: signal_value
  od_dynamics :: "string option"
  od_bad :: real
  od_uncertain :: real

record opcua_equipment =
  oe_name :: string
  oe_nodes :: "opcua_node list"

record address_space =
  as_defaults :: "string list"
  as_equipments :: "opcua_equipment list"

definition iter_nodes :: "address_space \<Rightarrow> opcua_node list" where
  "iter_nodes A = concat (map oe_nodes (as_equipments A))"

record opcua_settings =
  ot_tick_ms :: int
  ot_hot_spike_probability :: real
  ot_motor_fault_probability :: real
  ot_time_constant :: pyfloat
  ot_noise :: pyfloat
  ot_cooling_rate :: pyfloat
  ot_cooling_duration :: pyfloat

section \<open>The runtime\<close>

text \<open>
  \<open>on_values\<close> holds what the variables of the server show. The gauges are kept under their
  name and labels; each counter is the list of its increments.
\<close>

record 'r opcua_simulator =
  on_rng :: 'r
  on_setpoint :: setpoint
  on_temperature :: temperature
  on_motor :: opcua_motor
  on_spike :: hot_spike
  on_quality :: "(string \<times> quality_emitter) list"
  on_rates :: "(string \<times> quality_rate) list"
  on_current :: "(string \<times> pyfloat) list"
  on_values :: "(string \<times> signal_value) list"
  on_last_tick :: "real option"
  on_gauges :: "((string \<times> string list) \<times> pyfloat) list"
  on_quality_count :: "(string list \<times> string) list"
  on_setpoint_writes :: "string list"
  on_hot_spikes :: "string list"

record 'r opcua_platform =
  ox_random :: "'r opcua_random"
  ox_float :: "string \<Rightarrow> pyfloat option"
  ox_refuses :: "opcua_node \<Rightarrow> signal_value \<Rightarrow> exn option"

definition find_setpoint :: "address_space \<Rightarrow> opcua_node option" where
  "find_setpoint A = find od_setpoint (iter_nodes A)"

definition build_rates ::
  "(string \<Rightarrow> pyfloat option) \<Rightarrow> opcua_node list \<Rightarrow> ((string \<times> quality_rate) list \<times> (string \<times> pyfloat) list) res" where
  "build_rates pf nodes =
     foldl (\<lambda>acc n. bindE acc (\<lambda>(rates, current).
              if od_dynamics n = Some ''quality_rate''
              then bindE (to_float pf (od_initial n)) (\<lambda>v.
                     Inr (AList.update (od_id n) (quality_rate_new v) rates, AList.update (od_id n) v current))
              else Inr (rates, current)))
       (Inr ([], [])) nodes"

definition build_quality :: "opcua_node list \<Rightarrow> (string \<times> quality_emitter) list" where
  "build_quality nodes =
     fold (\<lambda>n. AList.update (od_id n) \<lparr>qe_bad = od_bad n, qe_uncertain = od_uncertain n, qe_counts = []\<rparr>) nodes []"

definition populate :: "opcua_node list \<Rightarrow> (string \<times> signal_value) list" where
  "populate nodes = fold (\<lambda>n. AList.update (od_id n) (od_initial n)) nodes []"

definition opcua_start ::
  "'r opcua_platform \<Rightarrow> opcua_settings \<Rightarrow> address_space \<Rightarrow> 'r \<Rightarrow> 'r opcua_simulator res" where
  "opcua_start X S A r =
     (case find_setpoint A of
        None \<Rightarrow> Inl (ValueError ''address space must contain a setpoint node'')
      | Some sp \<Rightarrow>
          bindE (to_float (ox_float X) (od_initial sp)) (\<lambda>initial.
          case find (\<lambda>n. od_dynamics n = Some ''temperature'') (iter_nodes A) of
            None \<Rightarrow> Inl (ValueError ''address space must contain a temperature node'')
          | Some tn \<Rightarrow>
              bindE (to_float (ox_float X) (od_initial tn)) (\<lambda>t0.
              bindE (temperature_new t0 (ot_time_constant S) (ot_noise S)) (\<lambda>T.
              bindE (build_rates (ox_float X) (iter_nodes A)) (\<lambda>(rates, current).
                Inr \<lparr>on_rng = r, on_setpoint = setpoint_new initial, on_temperature = T,
                     on_motor = opcua_motor_new (ot_tick_ms S) (ot_motor_fault_probability S),
                     on_spike = hot_spike_new (ot_hot_spike_probability S),
                     on_quality = build_quality (iter_nodes A), on_rates = rates, on_current = current,
                     on_values = populate (iter_nodes A), on_last_tick = None, on_gauges = [],
                     on_quality_count = [], on_setpoint_writes = [], on_hot_spikes = []\<rparr>)))))"

section \<open>Clients\<close>

text \<open>A client writes a variable; only the setpoints are writable.\<close>

definition client_write :: "address_space \<Rightarrow> string \<Rightarrow> signal_value \<Rightarrow> 'r opcua_simulator \<Rightarrow> 'r opcua_simulator" where
  "client_write A nid v w =
     (if \<exists>n \<in> set (iter_nodes A). od_id n = nid \<and> od_setpoint n
      then w\<lparr>on_values := AList.update nid v (on_values w)\<rparr> else w)"

definition trigger_hot_spike :: "'r opcua_simulator \<Rightarrow> 'r opcua_simulator" where
  "trigger_hot_spike w = w\<lparr>on_spike := trigger_via_method (on_spike w)\<rparr>"

definition trigger_cooling_load :: "opcua_settings \<Rightarrow> ('r opcua_simulator, unit) act" where
  "trigger_cooling_load S =
     bindS (getS on_temperature) (\<lambda>T.
     bindS (liftS (inject_cooling (ot_cooling_rate S) (ot_cooling_duration S) T)) (\<lambda>T'.
       putS (\<lambda>w. w\<lparr>on_temperature := T'\<rparr>)))"

section \<open>The tick\<close>

definition reconcile_setpoint ::
  "'r opcua_platform \<Rightarrow> address_space \<Rightarrow> datetime \<Rightarrow> ('r opcua_simulator, unit) act" where
  "reconcile_setpoint X A at_time =
     (case find_setpoint A of
        None \<Rightarrow> raiseS (OtherError ''StopIteration'' [])
      | Some n \<Rightarrow>
          bindS (getS on_values) (\<lambda>shown.
          case map_of shown (od_id n) of
            None \<Rightarrow> raiseS (KeyError (od_id n))
          | Some v \<Rightarrow>
              bindS (liftS (to_float (ox_float X) v)) (\<lambda>x.
              bindS (getS on_setpoint) (\<lambda>s.
                if \<not> feq x (st_value s)
                then putS (\<lambda>w. w\<lparr>on_setpoint := setpoint_put x ''opcua-client'' at_time s,
                                 on_setpoint_writes := on_setpoint_writes w @ [''opcua-client'']\<rparr>)
                else retS ()))))"

definition value_for_node ::
  "'r opcua_platform \<Rightarrow> 'r opcua_simulator \<Rightarrow> real \<Rightarrow> real \<Rightarrow> opcua_node \<Rightarrow> signal_value res" where
  "value_for_node X w temp tput n =
     (if od_dynamics n = Some ''temperature'' then Inr (VFloat (Fin temp))
      else if od_dynamics n = Some ''throughput'' then Inr (VFloat (Fin tput))
      else if od_dynamics n = Some ''motor_state'' then Inr (VInt (om_state (on_motor w)))
      else if od_dynamics n = Some ''motor_rpm'' then Inr (VFloat (Fin (om_rpm (on_motor w))))
      else if od_dynamics n = Some ''quality_rate''
      then bindE (to_float (ox_float X) (od_initial n)) (\<lambda>d.
             Inr (VFloat (case map_of (on_current w) (od_id n) of None \<Rightarrow> d | Some v \<Rightarrow> v)))
      else if od_dynamics n = None \<and> od_setpoint n then Inr (VFloat (st_value (on_setpoint w)))
      else Inr (od_initial n))"

text \<open>The gauge a node is reported under.\<close>

definition node_gauge :: "opcua_node \<Rightarrow> string option" where
  "node_gauge n =
     (if od_dynamics n = Some ''temperature'' then Some ''simulator_temperature_celsius''
      else if od_dynamics n = Some ''throughput'' then Some ''simulator_throughput_bottles_per_second''
      else if od_dynamics n = Some ''motor_state'' then Some ''simulator_motor_state''
      else if od_dynamics n = Some ''motor_rpm'' then Some ''simulator_motor_rpm''
      else if od_dynamics n = Some ''quality_rate'' then Some ''simulator_quality_rate_percent''
      else if od_dynamics n = None \<and> od_setpoint n then Some ''simulator_setpoint_celsius''
      else None)"

definition node_labels :: "address_space \<Rightarrow> opcua_node \<Rightarrow> string list" where
  "node_labels A n = as_defaults A @ [od_cell n, od_equipment n]"

definition update_state_metric ::
  "'r opcua_platform \<Rightarrow> address_space \<Rightarrow> opcua_node \<Rightarrow> signal_value \<Rightarrow> ('r opcua_simulator, unit) act" where
  "update_state_metric X A n v =
     (case node_gauge n of
        None \<Rightarrow> retS ()
      | Some g \<Rightarrow>
          bindS (liftS (to_float (ox_float X) v)) (\<lambda>x.
            putS (\<lambda>w. w\<lparr>on_gauges := AList.update (g, node_labels A n) x (on_gauges w)\<rparr>)))"

definition emit_quality :: "'r opcua_platform \<Rightarrow> address_space \<Rightarrow> opcua_node \<Rightarrow> ('r opcua_simulator, unit) act" where
  "emit_quality X A n =
     bindS (getS (\<lambda>w. w)) (\<lambda>w.
     case map_of (on_quality w) (od_id n) of
       None \<Rightarrow> raiseS (KeyError (od_id n))
     | Some q \<Rightarrow>
         (case quality_next (ox_random X) q (on_rng w) of
            (v, q', r') \<Rightarrow>
              putS (\<lambda>w. w\<lparr>on_rng := r', on_quality := AList.update (od_id n) q' (on_quality w),
                          on_quality_count := on_quality_count w @ [(node_labels A n, quality_str v)]\<rparr>)))"

definition show_node ::
  "'r opcua_platform \<Rightarrow> address_space \<Rightarrow> real \<Rightarrow> real \<Rightarrow> opcua_node \<Rightarrow> ('r opcua_simulator, unit) act" where
  "show_node X A temp tput n =
     bindS (getS (\<lambda>w. w)) (\<lambda>w.
     bindS (liftS (value_for_node X w temp tput n)) (\<lambda>v.
     case ox_refuses X n v of
       Some e \<Rightarrow> raiseS e
     | None \<Rightarrow>
         if map_of (on_values w) (od_id n) = None then raiseS (KeyError (od_id n))
         else thenS (putS (\<lambda>w. w\<lparr>on_values := AList.update (od_id n) v (on_values w)\<rparr>))
                (thenS (update_state_metric X A n v) (emit_quality X A n))))"

fun show_nodes ::
  "'r opcua_platform \<Rightarrow> address_space \<Rightarrow> real \<Rightarrow> real \<Rightarrow> opcua_node list \<Rightarrow> ('r opcua_simulator, unit) act" where
  "show_nodes X A temp tput [] = retS ()"
| "show_nodes X A temp tput (n # ns) = thenS (show_node X A temp tput n) (show_nodes X A temp tput ns)"

fun tick_rates ::
  "'r opcua_random \<Rightarrow> (string \<times> quality_rate) list \<Rightarrow> 'r \<Rightarrow> (string \<times> quality_rate) list \<times> 'r" where
  "tick_rates R [] r = ([], r)"
| "tick_rates R ((k, q) # qs) r =
     (case quality_rate_tick R q r of (q', r1) \<Rightarrow>
      case tick_rates R qs r1 of (qs', r2) \<Rightarrow> ((k, q') # qs', r2))"

definition move_spike :: "'r opcua_platform \<Rightarrow> ('r opcua_simulator, real) act" where
  "move_spike X w =
     (case hot_spike_tick (ox_random X) (on_spike w) (on_rng w) of
        (h, r) \<Rightarrow> (w\<lparr>on_spike := h, on_rng := r\<rparr>, Inr (hs_contribution h)))"

definition move_motor :: "'r opcua_platform \<Rightarrow> ('r opcua_simulator, unit) act" where
  "move_motor X = putS (\<lambda>w. case opcua_motor_tick (ox_random X) (on_motor w) (on_rng w) of
     (m, r) \<Rightarrow> w\<lparr>on_motor := m, on_rng := r\<rparr>)"

definition elapsed_since :: "opcua_settings \<Rightarrow> real \<Rightarrow> ('r opcua_simulator, real) act" where
  "elapsed_since S now w =
     (w\<lparr>on_last_tick := Some now\<rparr>,
      Inr (case on_last_tick w of Some t \<Rightarrow> now - t | None \<Rightarrow> of_int (ot_tick_ms S) / 1000))"

definition move_temperature :: "'r opcua_platform \<Rightarrow> real \<Rightarrow> real \<Rightarrow> ('r opcua_simulator, real) act" where
  "move_temperature X elapsed spike w =
     (case temperature_tick (ox_random X) (st_value (on_setpoint w)) (Fin elapsed) (Fin spike) (on_temperature w) (on_rng w) of
        Inl e \<Rightarrow> (w, Inl e)
      | Inr (T, r) \<Rightarrow> (w\<lparr>on_temperature := T, on_rng := r\<rparr>, Inr (tp_value T)))"

definition read_throughput :: "'r opcua_platform \<Rightarrow> ('r opcua_simulator, real) act" where
  "read_throughput X w =
     (case throughput (ox_random X) (on_motor w) (on_rng w) of (x, r) \<Rightarrow> (w\<lparr>on_rng := r\<rparr>, Inr x))"

definition move_rates :: "'r opcua_platform \<Rightarrow> ('r opcua_simulator, unit) act" where
  "move_rates X = putS (\<lambda>w. case tick_rates (ox_random X) (on_rates w) (on_rng w) of
     (qs, r) \<Rightarrow> w\<lparr>on_rates := qs, on_rng := r,
                  on_current := fold (\<lambda>(k, q). AList.update k (qr_value q)) qs (on_current w)\<rparr>)"

definition count_spikes :: "(string \<times> nat) list \<Rightarrow> ('r opcua_simulator, unit) act" where
  "count_spikes before = putS (\<lambda>w. w\<lparr>on_hot_spikes := on_hot_spikes w @
     concat (map (\<lambda>(k, n). replicate (n - (case map_of before k of None \<Rightarrow> 0 | Some m \<Rightarrow> m)) k)
       (hs_triggers (on_spike w)))\<rparr>)"

definition opcua_tick ::
  "'r opcua_platform \<Rightarrow> opcua_settings \<Rightarrow> address_space \<Rightarrow> real \<Rightarrow> datetime \<Rightarrow> ('r opcua_simulator, unit) act" where
  "opcua_tick X S A now at_time =
     thenS (reconcile_setpoint X A at_time)
       (bindS (getS (\<lambda>w. hs_triggers (on_spike w))) (\<lambda>before.
        bindS (move_spike X) (\<lambda>spike.
        thenS (move_motor X)
          (bindS (elapsed_since S now) (\<lambda>elapsed.
           bindS (move_temperature X elapsed spike) (\<lambda>temp.
           bindS (read_throughput X) (\<lambda>tput.
           thenS (move_rates X)
             (thenS (show_nodes X A temp tput (iter_nodes A))
               (count_spikes before)))))))))"


section \<open>Runs\<close>

datatype opcua_event = Opcua_Tick real datetime | Client_Write string signal_value | Hot_Spike_Call | Cooling_Call

fun opcua_step ::
  "'r opcua_platform \<Rightarrow> opcua_settings \<Rightarrow> address_space \<Rightarrow> opcua_event \<Rightarrow> ('r opcua_simulator, unit) act" where
  "opcua_step X S A (Opcua_Tick now at_time) w = opcua_tick X S A now at_time w"
| "opcua_step X S A (Client_Write nid v) w = (client_write A nid v w, Inr ())"
| "opcua_step X S A Hot_Spike_Call w = (trigger_hot_spike w, Inr ())"
| "opcua_step X S A Cooling_Call w = (fst (trigger_cooling_load S w), Inr ())"

text \<open>An exception of a tick leaves the loop and ends the run; an error of a method goes to its caller.\<close>

fun opcua_sim_run ::
  "'r opcua_platform \<Rightarrow> opcua_settings \<Rightarrow> address_space \<Rightarrow> opcua_event list \<Rightarrow> ('r opcua_simulator, unit) act" where
  "opcua_sim_run X S A [] = retS ()"
| "opcua_sim_run X S A (e # es) = thenS (opcua_step X S A e) (opcua_sim_run X S A es)"

section \<open>Well-formed spaces and states\<close>

fun variant_of :: "signal_value \<Rightarrow> value_type" where
  "variant_of (VFloat f) = TDouble"
| "variant_of (VInt i) = TInt64"
| "variant_of (VBool b) = TBool"
| "variant_of (VStr s) = TString"

text \<open>The type of the values a tick writes to a node.\<close>

definition shown_type :: "opcua_node \<Rightarrow> value_type" where
  "shown_type n =
     (if od_dynamics n = Some ''motor_state'' then TInt64
      else if od_dynamics n \<in> {Some ''temperature'', Some ''throughput'', Some ''motor_rpm'', Some ''quality_rate''} then TDouble
      else if od_dynamics n = None \<and> od_setpoint n then TDouble
      else variant_of (od_initial n))"

text \<open>
  An address space with a setpoint and distinct ids whose variables are declared with the type of the
  values they show. The server accepts a value of the declared type of a variable; what it does with
  any other value is left open (asyncua refuses it).
\<close>

definition space_ok :: "'r opcua_platform \<Rightarrow> address_space \<Rightarrow> opcua_node \<Rightarrow> bool" where
  "space_ok X A sp \<longleftrightarrow> find_setpoint A = Some sp \<and> od_dynamics sp = None \<and> distinct (map od_id (iter_nodes A)) \<and>
     (\<forall>n \<in> set (iter_nodes A). (od_dynamics n = Some ''quality_rate'' \<longrightarrow> (\<exists>f. to_float (ox_float X) (od_initial n) = Inr f)) \<and>
        od_type n = shown_type n \<and> (\<forall>v. variant_of v = od_type n \<longrightarrow> ox_refuses X n v = None))"

lemma value_variant: "value_for_node X w temp tput n = Inr v \<Longrightarrow> variant_of v = shown_type n"
  by (auto simp: value_for_node_def shown_type_def bindE_Inr_iff split: if_splits)

definition opcua_ok :: "address_space \<Rightarrow> 'r opcua_simulator \<Rightarrow> bool" where
  "opcua_ok A w \<longleftrightarrow> motor_ok (on_motor w) \<and> temperature_ok (on_temperature w) \<and> spike_ok (on_spike w) \<and>
     (\<forall>n \<in> set (iter_nodes A). map_of (on_values w) (od_id n) \<noteq> None \<and> map_of (on_quality w) (od_id n) \<noteq> None) \<and>
     (\<forall>n \<in> set (iter_nodes A). od_dynamics n = Some ''quality_rate'' \<longrightarrow> od_id n \<in> fst ` set (on_rates w))"

lemma fold_update_dom: "map_of (fold (\<lambda>n. AList.update (f n) (g n)) ns al) k = None \<longleftrightarrow>
    map_of al k = None \<and> k \<notin> f ` set ns"
  by (induction ns arbitrary: al) (auto simp: update_conv')

lemma build_rates_keys:
  "build_rates pf ns = Inr (rates, current) \<Longrightarrow> n \<in> set ns \<Longrightarrow> od_dynamics n = Some ''quality_rate'' \<Longrightarrow>
     od_id n \<in> fst ` set rates"
proof (induction ns arbitrary: rates current rule: rev_induct)
  case (snoc m ns)
  obtain rs cs where b: "build_rates pf ns = Inr (rs, cs)"
    using snoc.prems(1) by (auto simp: build_rates_def bindE_Inr_iff)
  have "fst ` set (AList.update k q al) = insert k (fst ` set al)" for k :: string and q :: quality_rate and al
    using dom_update [of k q al] by (simp add: dom_map_of_conv_image_fst)
  then show ?case using snoc.prems snoc.IH [OF b] b
    by (auto simp: build_rates_def bindE_Inr_iff split: if_splits)
qed simp

lemma opcua_start_ok:
  assumes "opcua_start X S A r = Inr w" "0 < ot_tick_ms S"
  shows "opcua_ok A w \<and> on_last_tick w = None \<and> st_writes (on_setpoint w) = [] \<and> on_setpoint_writes w = []"
proof -
  have "\<exists>T0 q c. temperature_new (fst T0) (ot_time_constant S) (ot_noise S) = Inr (on_temperature w) \<and>
      on_motor w = opcua_motor_new (ot_tick_ms S) q \<and> on_spike w = hot_spike_new c \<and>
      on_quality w = build_quality (iter_nodes A) \<and> on_values w = populate (iter_nodes A) \<and>
      (\<exists>cs. build_rates (ox_float X) (iter_nodes A) = Inr (on_rates w, cs)) \<and> on_last_tick w = None \<and> st_writes (on_setpoint w) = [] \<and> on_setpoint_writes w = []"
    using assms(1) by (fastforce simp: opcua_start_def res_iffs setpoint_new_def split: option.splits)
  then show ?thesis using motor_new_ok [OF assms(2)] temperature_new_ok build_rates_keys
    by (auto simp: opcua_ok_def spike_ok_def hot_spike_new_def build_quality_def populate_def fold_update_dom)
qed

section \<open>Showing the nodes\<close>

text \<open>What the loop over the nodes leaves alone.\<close>

definition same_plant :: "'r opcua_simulator \<Rightarrow> 'r opcua_simulator \<Rightarrow> bool" where
  "same_plant w w' \<longleftrightarrow> on_motor w' = on_motor w \<and> on_setpoint w' = on_setpoint w \<and> on_current w' = on_current w \<and>
     on_temperature w' = on_temperature w \<and> on_spike w' = on_spike w \<and> on_last_tick w' = on_last_tick w \<and>
     on_setpoint_writes w' = on_setpoint_writes w \<and> on_rates w' = on_rates w"

lemma same_plant_value: "same_plant w w' \<Longrightarrow> value_for_node X w' temp tput n = value_for_node X w temp tput n"
  by (simp add: same_plant_def value_for_node_def)

lemma value_gauge:
  assumes "value_for_node X w temp tput n = Inr v" "node_gauge n = Some g"
    and "\<bar>om_state (on_motor w)\<bar> \<le> 65535"
  shows "\<exists>x. to_float (ox_float X) v = Inr x"
  using assms by (auto simp: value_for_node_def node_gauge_def res_iffs split: if_splits)

lemma show_node_ok:
  assumes "space_ok X A sp" "n \<in> set (iter_nodes A)" "value_for_node X w temp tput n = Inr v" "motor_ok (on_motor w)"
    and "map_of (on_values w) (od_id n) \<noteq> None" "map_of (on_quality w) (od_id n) \<noteq> None"
  shows "\<exists>w'. show_node X A temp tput n w = (w', Inr ()) \<and> same_plant w w' \<and>
    on_values w' = AList.update (od_id n) v (on_values w) \<and>
    (\<forall>k. map_of (on_quality w) k \<noteq> None \<longrightarrow> map_of (on_quality w') k \<noteq> None) \<and>
    (\<exists>q. on_quality_count w' = on_quality_count w @ [(node_labels A n, q)])"
proof -
  have r: "ox_refuses X n v = None" using assms(1,2) value_variant [OF assms(3)] by (simp add: space_ok_def)
  have m: "\<bar>om_state (on_motor w)\<bar> \<le> 65535" using assms(4) by (auto simp: motor_ok_def)
  let ?w1 = "w\<lparr>on_values := AList.update (od_id n) v (on_values w)\<rparr>"
  obtain g where g: "update_state_metric X A n v ?w1 = (?w1\<lparr>on_gauges := g\<rparr>, Inr ())"
  proof (cases "node_gauge n")
    case None
    then show thesis using that [of "on_gauges ?w1"] by (simp add: update_state_metric_def)
  next
    case (Some h)
    then obtain x where "to_float (ox_float X) v = Inr x" using value_gauge [OF assms(3) _ m] by blast
    then show thesis using that Some by (simp add: update_state_metric_def)
  qed
  obtain q where q: "map_of (on_quality w) (od_id n) = Some q" using assms(6) by blast
  obtain k q' r' where k: "quality_next (ox_random X) q (on_rng w) = (k, q', r')" by (cases "quality_next (ox_random X) q (on_rng w)")
  show ?thesis using assms(3,5) r g q k
    by (auto simp: show_node_def emit_quality_def same_plant_def update_conv' bindS_def g)
qed

lemma show_nodes_ok:
  assumes "space_ok X A sp" "motor_ok (on_motor w)" "set ns \<subseteq> set (iter_nodes A)" "distinct (map od_id ns)"
    and "\<forall>n \<in> set ns. \<exists>v. value_for_node X w temp tput n = Inr v"
    and "\<forall>n \<in> set (iter_nodes A). map_of (on_values w) (od_id n) \<noteq> None \<and> map_of (on_quality w) (od_id n) \<noteq> None"
  shows "\<exists>w'. show_nodes X A temp tput ns w = (w', Inr ()) \<and> same_plant w w' \<and>
    (\<forall>n \<in> set (iter_nodes A). map_of (on_values w') (od_id n) \<noteq> None \<and> map_of (on_quality w') (od_id n) \<noteq> None) \<and>
    (\<forall>n \<in> set ns. \<exists>v. value_for_node X w temp tput n = Inr v \<and> map_of (on_values w') (od_id n) = Some v) \<and>
    (\<forall>k. k \<notin> od_id ` set ns \<longrightarrow> map_of (on_values w') k = map_of (on_values w) k) \<and>
    (\<exists>qs. map fst qs = map (node_labels A) ns \<and> on_quality_count w' = on_quality_count w @ qs)"
  using assms(2-)
proof (induction ns arbitrary: w)
  case Nil
  then show ?case by (auto simp: same_plant_def)
next
  case (Cons n ns)
  obtain v where v: "value_for_node X w temp tput n = Inr v" using Cons.prems(4) by auto
  have n: "n \<in> set (iter_nodes A)" using Cons.prems(2) by simp
  obtain w1 q where w1: "show_node X A temp tput n w = (w1, Inr ())" "same_plant w w1"
      "on_values w1 = AList.update (od_id n) v (on_values w)"
      "\<forall>k. map_of (on_quality w) k \<noteq> None \<longrightarrow> map_of (on_quality w1) k \<noteq> None"
      "on_quality_count w1 = on_quality_count w @ [(node_labels A n, q)]"
    using show_node_ok [OF assms(1) n v Cons.prems(1)] Cons.prems(5) n by blast
  have m1: "motor_ok (on_motor w1)" using Cons.prems(1) w1(2) by (simp add: same_plant_def)
  have d1: "\<forall>n \<in> set (iter_nodes A). map_of (on_values w1) (od_id n) \<noteq> None \<and> map_of (on_quality w1) (od_id n) \<noteq> None"
    using Cons.prems(5) w1(3,4) by (simp add: update_conv')
  have v1: "\<forall>n \<in> set ns. \<exists>v. value_for_node X w1 temp tput n = Inr v"
    using Cons.prems(4) by (simp add: same_plant_value [OF w1(2)])
  obtain w' qs where w': "show_nodes X A temp tput ns w1 = (w', Inr ())" "same_plant w1 w'"
      "\<forall>n \<in> set (iter_nodes A). map_of (on_values w') (od_id n) \<noteq> None \<and> map_of (on_quality w') (od_id n) \<noteq> None"
      "\<forall>n \<in> set ns. \<exists>v. value_for_node X w1 temp tput n = Inr v \<and> map_of (on_values w') (od_id n) = Some v"
      "\<forall>k. k \<notin> od_id ` set ns \<longrightarrow> map_of (on_values w') k = map_of (on_values w1) k"
      "map fst qs = map (node_labels A) ns" "on_quality_count w' = on_quality_count w1 @ qs"
    using Cons.IH [OF m1 _ _ v1 d1] Cons.prems(2,3) by auto
  have "show_nodes X A temp tput (n # ns) w = (w', Inr ())" by (simp add: bindS_def w1(1) w'(1))
  moreover have "same_plant w w'" using w1(2) w'(2) by (simp add: same_plant_def)
  moreover have "od_id n \<notin> od_id ` set ns" using Cons.prems(3) by simp
  ultimately show ?case using w' w1(3,5) v
    by (intro exI [of _ w'] conjI exI [of _ "(node_labels A n, q) # qs"])
       (auto simp: update_conv' same_plant_value [OF w1(2)])
qed


section \<open>What a tick does\<close>

lemma tick_rates_keys: "tick_rates R qs r = (qs', r') \<Longrightarrow> map fst qs' = map fst qs"
  by (induction qs arbitrary: r qs' r') (auto split: prod.splits)

lemma tick_rates_range: "tick_rates R qs r = (qs', r') \<Longrightarrow> \<forall>(k, q) \<in> set qs'. \<exists>x. qr_value q = Fin x \<and> 85 \<le> x \<and> x \<le> 100"
proof (induction qs arbitrary: r qs' r')
  case (Cons kq qs)
  then show ?case using quality_rate_range by (cases kq) (fastforce split: prod.splits)
qed simp

lemma fold_rates_range:
  "\<forall>(k, q) \<in> set qs. P (qr_value q) \<Longrightarrow> k \<in> fst ` set qs \<or> (\<exists>f. map_of al k = Some f \<and> P f) \<Longrightarrow>
     \<exists>f. map_of (fold (\<lambda>(k, q). AList.update k (qr_value q)) qs al) k = Some f \<and> P f"
proof (induction qs arbitrary: al)
  case (Cons kq qs)
  obtain k' q where kq: "kq = (k', q)" by (cases kq)
  have "k \<in> fst ` set qs \<or> (\<exists>f. map_of (AList.update k' (qr_value q) al) k = Some f \<and> P f)"
    using Cons.prems kq by (auto simp: update_conv')
  then show ?case using Cons.IH [of "AList.update k' (qr_value q) al"] Cons.prems(1) kq by simp
qed simp

text \<open>The rate emitters of a started simulator: one per node, with finite values.\<close>

definition rates_ok :: "'r opcua_simulator \<Rightarrow> bool" where
  "rates_ok w \<longleftrightarrow> distinct (map fst (on_rates w)) \<and>
     (\<forall>(k, q) \<in> set (on_rates w). \<exists>u g. qr_value q = Fin u \<and> qr_target q = Fin g)"

text \<open>One step of a rate: a part of the way to its target, a noise, and the clamp.\<close>

lemma rate_tick_exact:
  assumes "qr_value q = Fin u" "qr_target q = Fin g"
  shows "\<exists>r'. quality_rate_tick R q r =
    (q\<lparr>qr_value := Fin (max 85 (min 100 (u + (g - u) * qr_alpha q +
       (if 0 < qr_sigma q then fst (or_gauss R 0 (qr_sigma q) r) else 0))))\<rparr>, r')"
proof -
  have "clamp_rate (Fin x) = Fin (max 85 (min 100 x))" for x by (simp add: clamp_rate_def max_def min_def)
  then show ?thesis using assms
    by (cases "or_gauss R 0 (qr_sigma q) r") (simp add: quality_rate_tick_def Let_def split: prod.splits)
qed

lemma tick_rates_exact:
  "tick_rates R qs r = (qs', r') \<Longrightarrow> map_of qs k = Some q \<Longrightarrow> qr_value q = Fin u \<Longrightarrow> qr_target q = Fin g \<Longrightarrow>
     \<exists>r1 q'. map_of qs' k = Some q' \<and> qr_target q' = Fin g \<and> qr_value q' = Fin (max 85 (min 100 (u + (g - u) * qr_alpha q +
       (if 0 < qr_sigma q then fst (or_gauss R 0 (qr_sigma q) r1) else 0))))"
proof (induction qs arbitrary: r qs' r')
  case (Cons kq qs)
  obtain j p where kq: "kq = (j, p)" by (cases kq)
  obtain p' r1 where t: "quality_rate_tick R p r = (p', r1)" by fastforce
  obtain rest r2 where rest: "tick_rates R qs r1 = (rest, r2)" by fastforce
  have qs': "qs' = (j, p') # rest" using Cons.prems(1) kq t rest by simp
  show ?case
  proof (cases "j = k")
    case True
    then have "p = q" using Cons.prems(2) kq by simp
    obtain r3 where "quality_rate_tick R q r = (q\<lparr>qr_value := Fin (max 85 (min 100 (u + (g - u) * qr_alpha q +
       (if 0 < qr_sigma q then fst (or_gauss R 0 (qr_sigma q) r) else 0))))\<rparr>, r3)"
      using rate_tick_exact [OF Cons.prems(3,4), where R = R and r = r] by (elim exE)
    then have "p' = q\<lparr>qr_value := Fin (max 85 (min 100 (u + (g - u) * qr_alpha q +
       (if 0 < qr_sigma q then fst (or_gauss R 0 (qr_sigma q) r) else 0))))\<rparr>"
      using t \<open>p = q\<close> by simp
    then show ?thesis using True qs' Cons.prems(4) by (intro exI [of _ r] exI [of _ p']) simp
  next
    case False
    then have "map_of qs k = Some q" "map_of qs' k = map_of rest k" using Cons.prems(2) kq qs' by simp_all
    then show ?thesis using Cons.IH [OF rest _ Cons.prems(3,4)] by (simp only:)
  qed
qed simp

lemma fold_rates_other:
  "k \<notin> fst ` set qs \<Longrightarrow> map_of (fold (\<lambda>(k, q). AList.update k (qr_value q)) qs al) k = map_of al k"
  by (induction qs arbitrary: al) (auto simp: update_conv')

lemma fold_rates_shown:
  "distinct (map fst qs) \<Longrightarrow> map_of qs k = Some q \<Longrightarrow>
     map_of (fold (\<lambda>(k, q). AList.update k (qr_value q)) qs al) k = Some (qr_value q)"
  by (induction qs arbitrary: al) (auto simp: update_conv' fold_rates_other split: if_splits)

text \<open>What a tick from \<open>w\<close> makes of the rate of every node.\<close>

definition rates_moved :: "'r opcua_random \<Rightarrow> address_space \<Rightarrow> 'r opcua_simulator \<Rightarrow> 'r opcua_simulator \<Rightarrow> bool" where
  "rates_moved R A w w' \<longleftrightarrow> rates_ok w' \<and>
     (\<forall>n \<in> set (iter_nodes A). od_dynamics n = Some ''quality_rate'' \<longrightarrow>
        (\<exists>q u g r. map_of (on_rates w) (od_id n) = Some q \<and> qr_value q = Fin u \<and> qr_target q = Fin g \<and>
           map_of (on_current w') (od_id n) = Some (Fin (max 85 (min 100 (u + (g - u) * qr_alpha q +
             (if 0 < qr_sigma q then fst (or_gauss R 0 (qr_sigma q) r) else 0)))))))"

lemma rates_step:
  assumes ok: "opcua_ok A w" and rates: "rates_ok w" and t: "tick_rates R (on_rates w) r = (qs, r')"
    and w': "on_rates w' = qs" "on_current w' = fold (\<lambda>(k, q). AList.update k (qr_value q)) qs al"
  shows "rates_moved R A w w'"
proof -
  have keys: "map fst qs = map fst (on_rates w)" by (rule tick_rates_keys [OF t])
  then have dist: "distinct (map fst qs)" "distinct (map fst (on_rates w))" using rates by (simp_all add: rates_ok_def)
  have set: "fst ` set qs = fst ` set (on_rates w)" using keys by (metis list.set_map)
  have each: "\<exists>q u g r q'. map_of (on_rates w) k = Some q \<and> qr_value q = Fin u \<and> qr_target q = Fin g \<and>
      map_of qs k = Some q' \<and> qr_target q' = Fin g \<and> qr_value q' = Fin (max 85 (min 100 (u + (g - u) * qr_alpha q +
       (if 0 < qr_sigma q then fst (or_gauss R 0 (qr_sigma q) r) else 0))))"
    if k: "k \<in> fst ` set (on_rates w)" for k
  proof -
    obtain q where q: "map_of (on_rates w) k = Some q"
      using k by (cases "map_of (on_rates w) k") (auto simp: map_of_eq_None_iff)
    then obtain u g where "qr_value q = Fin u" "qr_target q = Fin g"
      using rates by (fastforce simp: rates_ok_def dest: map_of_SomeD)
    with tick_rates_exact [OF t q this] q show ?thesis by blast
  qed
  have "\<exists>u g. qr_value q = Fin u \<and> qr_target q = Fin g" if "(k, q) \<in> set qs" for k q
  proof -
    have "map_of qs k = Some q" using that dist by simp
    moreover have "k \<in> fst ` set (on_rates w)" using that set by force
    ultimately show ?thesis using each [of k] by auto
  qed
  then have "rates_ok w'" using dist w'(1) by (auto simp: rates_ok_def)
  moreover have "\<exists>q u g r. map_of (on_rates w) (od_id n) = Some q \<and> qr_value q = Fin u \<and> qr_target q = Fin g \<and>
      map_of (on_current w') (od_id n) = Some (Fin (max 85 (min 100 (u + (g - u) * qr_alpha q +
        (if 0 < qr_sigma q then fst (or_gauss R 0 (qr_sigma q) r) else 0)))))"
    if n: "n \<in> set (iter_nodes A)" "od_dynamics n = Some ''quality_rate''" for n
  proof -
    have "od_id n \<in> fst ` set (on_rates w)" using ok n by (simp add: opcua_ok_def)
    from each [OF this] show ?thesis using fold_rates_shown [OF dist(1)] w'(2) by fastforce
  qed
  ultimately show ?thesis by (simp add: rates_moved_def)
qed

text \<open>The throughput in bottles per second, for the motor and the random numbers at hand.\<close>

lemma throughput_exact:
  "fst (throughput R m r) =
     (if om_state m = MOTOR_RUNNING then max 0 (6 / 10000 * om_rpm m + fst (or_gauss R 0 (5 / 100) r))
      else if om_state m = MOTOR_STARTING then max 0 (6 / 10000 * om_rpm m) else 0)"
  by (simp add: throughput_def split: prod.splits)

text \<open>
  The moves of a tick: every machine moves once, in this order, on one stream of random numbers; the
  last argument is the throughput read between the temperature and the rates.
\<close>

definition machines_moved ::
  "'r opcua_random \<Rightarrow> address_space \<Rightarrow> real \<Rightarrow> real \<Rightarrow> 'r opcua_simulator \<Rightarrow> 'r opcua_simulator \<Rightarrow> real \<Rightarrow> bool" where
  "machines_moved R A x e w w' tput \<longleftrightarrow>
     (\<exists>r1 r2 r3. hot_spike_tick R (on_spike w) (on_rng w) = (on_spike w', r1) \<and>
        opcua_motor_tick R (on_motor w) r1 = (on_motor w', r2) \<and>
        temperature_tick R (Fin x) (Fin e) (Fin (hs_contribution (on_spike w'))) (on_temperature w) r2 =
          Inr (on_temperature w', r3) \<and>
        tput = (if om_state (on_motor w') = MOTOR_RUNNING
                then max 0 (6 / 10000 * om_rpm (on_motor w') + fst (or_gauss R 0 (5 / 100) r3))
                else if om_state (on_motor w') = MOTOR_STARTING then max 0 (6 / 10000 * om_rpm (on_motor w')) else 0)) \<and>
     (rates_ok w \<longrightarrow> rates_moved R A w w')"

definition rates_fresh :: "address_space \<Rightarrow> 'r opcua_simulator \<Rightarrow> bool" where
  "rates_fresh A w \<longleftrightarrow> (\<forall>n \<in> set (iter_nodes A). od_dynamics n = Some ''quality_rate'' \<longrightarrow>
     (\<exists>x. map_of (on_current w) (od_id n) = Some (Fin x) \<and> 85 \<le> x \<and> x \<le> 100))"

lemma move_rates_fresh:
  assumes "opcua_ok A w"
  shows "\<exists>qs r cs. move_rates X w = (w\<lparr>on_rates := qs, on_rng := r, on_current := cs\<rparr>, Inr ()) \<and>
    map fst qs = map fst (on_rates w) \<and>
    (rates_ok w \<longrightarrow> rates_moved (ox_random X) A w (w\<lparr>on_rates := qs, on_rng := r, on_current := cs\<rparr>)) \<and> rates_fresh A (w\<lparr>on_rates := qs, on_rng := r, on_current := cs\<rparr>)"
proof -
  obtain qs r where t: "tick_rates (ox_random X) (on_rates w) (on_rng w) = (qs, r)"
    by (cases "tick_rates (ox_random X) (on_rates w) (on_rng w)")
  let ?cs = "fold (\<lambda>(k, q). AList.update k (qr_value q)) qs (on_current w)"
  have keys: "map fst qs = map fst (on_rates w)" by (rule tick_rates_keys [OF t])
  then have set: "fst ` set qs = fst ` set (on_rates w)" by (metis list.set_map)
  have "\<exists>f. map_of ?cs (od_id n) = Some f \<and> (\<exists>x. f = Fin x \<and> 85 \<le> x \<and> x \<le> 100)"
    if "n \<in> set (iter_nodes A)" "od_dynamics n = Some ''quality_rate''" for n
    using assms that by (intro fold_rates_range tick_rates_range [OF t]) (simp add: set opcua_ok_def)
  then have "rates_fresh A (w\<lparr>on_rates := qs, on_rng := r, on_current := ?cs\<rparr>)" unfolding rates_fresh_def by auto
  moreover have "rates_ok w \<longrightarrow> rates_moved (ox_random X) A w (w\<lparr>on_rates := qs, on_rng := r, on_current := ?cs\<rparr>)"
    using rates_step [OF assms _ t] by simp
  ultimately show ?thesis using t keys
    by (intro exI [of _ qs] exI [of _ r] exI [of _ ?cs] conjI) (simp_all add: move_rates_def)
qed

definition observed_setpoint :: "real \<Rightarrow> datetime \<Rightarrow> 'r opcua_simulator \<Rightarrow> 'r opcua_simulator" where
  "observed_setpoint x at_time w =
     (if st_value (on_setpoint w) = Fin x then w
      else w\<lparr>on_setpoint := setpoint_put (Fin x) ''opcua-client'' at_time (on_setpoint w),
             on_setpoint_writes := on_setpoint_writes w @ [''opcua-client'']\<rparr>)"

lemma feq_Fin: "feq (Fin x) f \<longleftrightarrow> f = Fin x"
  by (cases f) auto

lemma reconcile_setpoint_ok:
  assumes "space_ok X A sp" "map_of (on_values w) (od_id sp) = Some v" "to_float (ox_float X) v = Inr (Fin x)"
  shows "reconcile_setpoint X A at_time w = (observed_setpoint x at_time w, Inr ())"
  using assms by (simp add: reconcile_setpoint_def space_ok_def observed_setpoint_def feq_Fin)

lemma observed_setpoint_keeps [simp]:
  "st_value (on_setpoint (observed_setpoint x at_time w)) = Fin x" "on_motor (observed_setpoint x at_time w) = on_motor w"
  "on_temperature (observed_setpoint x at_time w) = on_temperature w" "on_spike (observed_setpoint x at_time w) = on_spike w"
  "on_rates (observed_setpoint x at_time w) = on_rates w" "on_values (observed_setpoint x at_time w) = on_values w"
  "on_quality (observed_setpoint x at_time w) = on_quality w" "on_last_tick (observed_setpoint x at_time w) = on_last_tick w"
  "on_quality_count (observed_setpoint x at_time w) = on_quality_count w"
  "on_rng (observed_setpoint x at_time w) = on_rng w"
  by (simp_all add: observed_setpoint_def setpoint_put_def)

text \<open>The part of a tick that moves the machines, from the spike to the quality rates.\<close>

definition tick_machines ::
  "'r opcua_platform \<Rightarrow> opcua_settings \<Rightarrow> real \<Rightarrow> ('r opcua_simulator, real \<times> real) act" where
  "tick_machines X S now =
     bindS (move_spike X) (\<lambda>spike. thenS (move_motor X)
       (bindS (elapsed_since S now) (\<lambda>elapsed. bindS (move_temperature X elapsed spike) (\<lambda>temp.
        bindS (read_throughput X) (\<lambda>tput. thenS (move_rates X) (retS (temp, tput)))))))"

lemma opcua_tick_machines:
  "opcua_tick X S A now at_time =
     thenS (reconcile_setpoint X A at_time)
       (bindS (getS (\<lambda>w. hs_triggers (on_spike w))) (\<lambda>before.
        bindS (tick_machines X S now) (\<lambda>p. thenS (show_nodes X A (fst p) (snd p) (iter_nodes A)) (count_spikes before))))"
  by (simp add: opcua_tick_def tick_machines_def bindS_assoc)

lemma spike_move:
  assumes "opcua_ok A w"
  shows "\<exists>h r. move_spike X w = (w\<lparr>on_spike := h, on_rng := r\<rparr>, Inr (hs_contribution h)) \<and> spike_ok h \<and>
    hot_spike_tick (ox_random X) (on_spike w) (on_rng w) = (h, r)"
  using assms hot_spike_tick_ok [of "ox_random X" "on_spike w" "on_rng w"]
  by (cases "hot_spike_tick (ox_random X) (on_spike w) (on_rng w)") (auto simp: move_spike_def opcua_ok_def)

lemma motor_move:
  assumes "opcua_ok A w"
  shows "\<exists>m r. move_motor X w = (w\<lparr>on_motor := m, on_rng := r\<rparr>, Inr ()) \<and> motor_ok m \<and>
    opcua_motor_tick (ox_random X) (on_motor w) (on_rng w) = (m, r)"
proof -
  obtain m r where t: "opcua_motor_tick (ox_random X) (on_motor w) (on_rng w) = (m, r)"
    by (cases "opcua_motor_tick (ox_random X) (on_motor w) (on_rng w)")
  then show ?thesis using assms motor_tick_ok [OF t] by (intro exI [of _ m] exI [of _ r]) (simp add: move_motor_def opcua_ok_def)
qed

lemma temperature_move:
  assumes "opcua_ok A w" "st_value (on_setpoint w) = Fin x" "0 < e"
  shows "\<exists>T r. move_temperature X e k w = (w\<lparr>on_temperature := T, on_rng := r\<rparr>, Inr (tp_value T)) \<and> temperature_ok T \<and>
    temperature_tick (ox_random X) (Fin x) (Fin e) (Fin k) (on_temperature w) (on_rng w) = Inr (T, r)"
proof -
  obtain T r where t: "temperature_tick (ox_random X) (Fin x) (Fin e) (Fin k) (on_temperature w) (on_rng w) = Inr (T, r)"
    using assms(3)
    by (cases "add_noise (ox_random X) e (regulate x e (on_temperature w)) (on_rng w)") (simp add: temperature_tick_def)
  then show ?thesis using assms(1,2) temperature_tick_ok [OF t]
    by (intro exI [of _ T] exI [of _ r]) (simp add: move_temperature_def opcua_ok_def)
qed

definition elapsed_s :: "opcua_settings \<Rightarrow> real \<Rightarrow> 'r opcua_simulator \<Rightarrow> real" where
  "elapsed_s S now w = (case on_last_tick w of Some t \<Rightarrow> now - t | None \<Rightarrow> of_int (ot_tick_ms S) / 1000)"

lemma tick_machines_ok:
  assumes ok: "opcua_ok A w" and x: "st_value (on_setpoint w) = Fin x"
    and elapsed: "case on_last_tick w of None \<Rightarrow> 0 < ot_tick_ms S | Some t \<Rightarrow> t < now"
  shows "\<exists>w' tput. tick_machines X S now w = (w', Inr (tp_value (on_temperature w'), tput)) \<and>
    machines_moved (ox_random X) A x (elapsed_s S now w) w w' tput \<and>
    opcua_ok A w' \<and> rates_fresh A w' \<and> on_last_tick w' = Some now \<and> on_setpoint w' = on_setpoint w \<and>
    on_setpoint_writes w' = on_setpoint_writes w \<and> on_values w' = on_values w \<and> on_quality_count w' = on_quality_count w"
proof -
  obtain h r1 where 1: "move_spike X w = (w\<lparr>on_spike := h, on_rng := r1\<rparr>, Inr (hs_contribution h))" "spike_ok h"
      "hot_spike_tick (ox_random X) (on_spike w) (on_rng w) = (h, r1)"
    using spike_move [OF ok] by blast
  let ?w1 = "w\<lparr>on_spike := h, on_rng := r1\<rparr>"
  have ok1: "opcua_ok A ?w1" using ok 1(2) by (simp add: opcua_ok_def)
  obtain m r2 where 2: "move_motor X ?w1 = (?w1\<lparr>on_motor := m, on_rng := r2\<rparr>, Inr ())" "motor_ok m"
      "opcua_motor_tick (ox_random X) (on_motor w) r1 = (m, r2)"
    using motor_move [OF ok1] by fastforce
  let ?w2 = "?w1\<lparr>on_motor := m, on_rng := r2\<rparr>"
  let ?w3 = "?w2\<lparr>on_last_tick := Some now\<rparr>"
  define e where "e = elapsed_s S now w"
  have 3: "elapsed_since S now ?w2 = (?w3, Inr e)" by (simp add: elapsed_since_def e_def elapsed_s_def)
  have e: "0 < e" using elapsed by (simp add: e_def elapsed_s_def split: option.splits)
  have ok3: "opcua_ok A ?w3" using ok1 2(2) by (simp add: opcua_ok_def)
  obtain T r4 where 4: "move_temperature X e (hs_contribution h) ?w3 = (?w3\<lparr>on_temperature := T, on_rng := r4\<rparr>, Inr (tp_value T))"
      "temperature_ok T"
      "temperature_tick (ox_random X) (Fin x) (Fin e) (Fin (hs_contribution h)) (on_temperature w) r2 = Inr (T, r4)"
    using temperature_move [OF ok3 _ e, where X = X and k = "hs_contribution h"] x by fastforce
  let ?w4 = "?w3\<lparr>on_temperature := T, on_rng := r4\<rparr>"
  obtain tput r5 where t: "throughput (ox_random X) m r4 = (tput, r5)" by (cases "throughput (ox_random X) m r4")
  let ?w5 = "?w4\<lparr>on_rng := r5\<rparr>"
  have 5: "read_throughput X ?w4 = (?w5, Inr tput)" using t by (simp add: read_throughput_def)
  have ok5: "opcua_ok A ?w5" using ok3 4(2) by (simp add: opcua_ok_def)
  obtain qs r6 cs where 6: "move_rates X ?w5 = (?w5\<lparr>on_rates := qs, on_rng := r6, on_current := cs\<rparr>, Inr ())"
      "map fst qs = map fst (on_rates w)" "rates_fresh A (?w5\<lparr>on_rates := qs, on_rng := r6, on_current := cs\<rparr>)"
      "rates_ok ?w5 \<longrightarrow> rates_moved (ox_random X) A ?w5 (?w5\<lparr>on_rates := qs, on_rng := r6, on_current := cs\<rparr>)"
    using move_rates_fresh [OF ok5, of X] by auto
  let ?w6 = "?w5\<lparr>on_rates := qs, on_rng := r6, on_current := cs\<rparr>"
  have "fst ` set qs = fst ` set (on_rates w)" using 6(2) by (metis list.set_map)
  then have "opcua_ok A ?w6" using ok5 by (simp add: opcua_ok_def)
  moreover have "tick_machines X S now w = (?w6, Inr (tp_value T, tput))"
    unfolding tick_machines_def bindS_def using 1(1) 2(1) 3 4(1) 5 6(1) by simp
  moreover have "machines_moved (ox_random X) A x e w ?w6 tput"
  proof -
    have "tput = (if om_state m = MOTOR_RUNNING then max 0 (6 / 10000 * om_rpm m + fst (or_gauss (ox_random X) 0 (5 / 100) r4))
        else if om_state m = MOTOR_STARTING then max 0 (6 / 10000 * om_rpm m) else 0)"
      using throughput_exact [of "ox_random X" m r4] t by simp
    moreover have "rates_ok w \<longrightarrow> rates_moved (ox_random X) A w ?w6"
      using 6(4) by (simp add: rates_ok_def rates_moved_def)
    ultimately show ?thesis using 1(3) 2(3) 4(3) unfolding machines_moved_def by simp
  qed
  ultimately show ?thesis using 6(3) unfolding e_def by (intro exI [of _ ?w6] exI [of _ tput]) simp
qed


definition time_moves :: "opcua_settings \<Rightarrow> real \<Rightarrow> 'r opcua_simulator \<Rightarrow> bool" where
  "time_moves S now w \<longleftrightarrow> (case on_last_tick w of None \<Rightarrow> 0 < ot_tick_ms S | Some t \<Rightarrow> t < now)"

lemma observed_setpoint_ok: "opcua_ok A (observed_setpoint x at_time w) = opcua_ok A w"
  by (simp add: opcua_ok_def)

lemma value_for_node_ok: "space_ok X A sp \<Longrightarrow> n \<in> set (iter_nodes A) \<Longrightarrow> \<exists>v. value_for_node X w temp tput n = Inr v"
  by (auto simp: value_for_node_def space_ok_def)

lemma opcua_tick_ok:
  assumes sp: "space_ok X A sp" and ok: "opcua_ok A w" and now: "time_moves S now w"
    and v: "map_of (on_values w) (od_id sp) = Some v" "to_float (ox_float X) v = Inr (Fin x)"
  shows "\<exists>w' tput qs. opcua_tick X S A now at_time w = (w', Inr ()) \<and> opcua_ok A w' \<and> rates_fresh A w' \<and>
    on_last_tick w' = Some now \<and> on_setpoint w' = on_setpoint (observed_setpoint x at_time w) \<and>
    on_setpoint_writes w' = on_setpoint_writes (observed_setpoint x at_time w) \<and>
    machines_moved (ox_random X) A x (elapsed_s S now w) w w' tput \<and>
    (\<forall>n \<in> set (iter_nodes A). \<exists>v. value_for_node X w' (tp_value (on_temperature w')) tput n = Inr v \<and>
       map_of (on_values w') (od_id n) = Some v) \<and>
    map fst qs = map (node_labels A) (iter_nodes A) \<and> on_quality_count w' = on_quality_count w @ qs"
proof -
  let ?w1 = "observed_setpoint x at_time w"
  have ok1: "opcua_ok A ?w1" using ok by (simp add: observed_setpoint_ok)
  have e1: "case on_last_tick ?w1 of None \<Rightarrow> 0 < ot_tick_ms S | Some t \<Rightarrow> t < now"
    using now by (simp add: time_moves_def)
  obtain w2 tput where w2: "tick_machines X S now ?w1 = (w2, Inr (tp_value (on_temperature w2), tput))"
      "machines_moved (ox_random X) A x (elapsed_s S now ?w1) ?w1 w2 tput"
      "opcua_ok A w2" "rates_fresh A w2" "on_last_tick w2 = Some now" "on_setpoint w2 = on_setpoint ?w1"
      "on_setpoint_writes w2 = on_setpoint_writes ?w1" "on_values w2 = on_values w" "on_quality_count w2 = on_quality_count w"
    using tick_machines_ok [OF ok1 _ e1, of x X] by auto
  let ?temp = "tp_value (on_temperature w2)"
  have m2: "motor_ok (on_motor w2)" using w2(3) by (simp add: opcua_ok_def)
  have d2: "\<forall>n \<in> set (iter_nodes A). map_of (on_values w2) (od_id n) \<noteq> None \<and> map_of (on_quality w2) (od_id n) \<noteq> None"
    using w2(3) by (simp add: opcua_ok_def)
  have dist: "distinct (map od_id (iter_nodes A))" using sp by (simp add: space_ok_def)
  obtain w3 qs where w3: "show_nodes X A ?temp tput (iter_nodes A) w2 = (w3, Inr ())" "same_plant w2 w3"
      "\<forall>n \<in> set (iter_nodes A). map_of (on_values w3) (od_id n) \<noteq> None \<and> map_of (on_quality w3) (od_id n) \<noteq> None"
      "\<forall>n \<in> set (iter_nodes A). \<exists>v. value_for_node X w2 ?temp tput n = Inr v \<and> map_of (on_values w3) (od_id n) = Some v"
      "map fst qs = map (node_labels A) (iter_nodes A)" "on_quality_count w3 = on_quality_count w2 @ qs"
    using show_nodes_ok [OF sp m2 subset_refl dist _ d2, of ?temp tput] value_for_node_ok [OF sp] by blast
  define w' where "w' = fst (count_spikes (hs_triggers (on_spike ?w1)) w3)"
  have c: "count_spikes (hs_triggers (on_spike ?w1)) w3 = (w', Inr ())" by (simp add: w'_def count_spikes_def)
  have f: "same_plant w3 w'" "on_values w' = on_values w3" "on_quality w' = on_quality w3"
      "on_quality_count w' = on_quality_count w3"
    by (simp_all add: w'_def count_spikes_def same_plant_def)
  have s: "same_plant w2 w'" using w3(2) f(1) by (simp add: same_plant_def)
  have "opcua_tick X S A now at_time w = (w', Inr ())"
    using reconcile_setpoint_ok [OF sp v] w2(1) w3(1) c by (simp add: opcua_tick_machines bindS_def)
  moreover have "opcua_ok A w'" "rates_fresh A w'" "on_last_tick w' = Some now"
      "on_setpoint w' = on_setpoint ?w1" "on_setpoint_writes w' = on_setpoint_writes ?w1"
    using s w2(3-7) w3(3) f by (simp_all add: same_plant_def opcua_ok_def rates_fresh_def)
  moreover have "value_for_node X w' (tp_value (on_temperature w')) tput n = value_for_node X w2 ?temp tput n" for n
    using same_plant_value [OF s] s by (simp add: same_plant_def)
  moreover have "machines_moved (ox_random X) A x (elapsed_s S now w) w w' tput"
  proof -
    have eqs: "on_spike w' = on_spike w2" "on_motor w' = on_motor w2" "on_temperature w' = on_temperature w2"
        "on_rates w' = on_rates w2" "on_current w' = on_current w2"
      using s by (simp_all add: same_plant_def)
    show ?thesis
      using w2(2)
      unfolding machines_moved_def rates_moved_def rates_ok_def elapsed_s_def eqs observed_setpoint_keeps by assumption
  qed
  ultimately show ?thesis using w2(9) w3(4-6) f by (intro exI [of _ w'] exI [of _ tput] exI [of _ qs]) simp
qed

lemma space_setpoint: "space_ok X A sp \<Longrightarrow> sp \<in> set (iter_nodes A) \<and> od_setpoint sp \<and> od_dynamics sp = None"
  by (auto simp: space_ok_def find_setpoint_def find_Some_iff)

text \<open>
  C24. Every node shows its machine. A tick that finds a finite setpoint succeeds; spike, motor and
  temperature each move once, in this order, over the time since the last tick; and afterwards every
  variable of the server holds the value of the machine behind it: the new temperature, the state and
  speed of the motor (one of four states, at rest when it stands or has failed), the throughput that
  belongs to this motor, 0.0006 bottles per revolution with a drawn noise when it runs, without one
  while it starts, none otherwise, the rate one step closer to its target with its drawn noise and
  within 85 and 100, and the setpoint. The rates of the new state are well formed again.
\<close>

theorem opcua_nodes_show_machines:
  assumes "space_ok X A sp" "opcua_ok A w" "rates_ok w" "time_moves S now w"
    and "map_of (on_values w) (od_id sp) = Some v" "to_float (ox_float X) v = Inr (Fin x)" "n \<in> set (iter_nodes A)"
  shows "\<exists>w' r1 r2 r3. opcua_tick X S A now at_time w = (w', Inr ()) \<and> opcua_ok A w' \<and> rates_ok w' \<and>
    hot_spike_tick (ox_random X) (on_spike w) (on_rng w) = (on_spike w', r1) \<and>
    opcua_motor_tick (ox_random X) (on_motor w) r1 = (on_motor w', r2) \<and>
    temperature_tick (ox_random X) (Fin x) (Fin (case on_last_tick w of Some t \<Rightarrow> now - t | None \<Rightarrow> of_int (ot_tick_ms S) / 1000))
      (Fin (hs_contribution (on_spike w'))) (on_temperature w) r2 = Inr (on_temperature w', r3) \<and>
    (od_dynamics n = Some ''temperature'' \<longrightarrow> map_of (on_values w') (od_id n) = Some (VFloat (Fin (tp_value (on_temperature w'))))) \<and>
    (od_dynamics n = Some ''throughput'' \<longrightarrow> map_of (on_values w') (od_id n) = Some (VFloat (Fin
       (if om_state (on_motor w') = MOTOR_RUNNING
        then max 0 (6 / 10000 * om_rpm (on_motor w') + fst (or_gauss (ox_random X) 0 (5 / 100) r3))
        else if om_state (on_motor w') = MOTOR_STARTING then max 0 (6 / 10000 * om_rpm (on_motor w')) else 0)))) \<and>
    (od_dynamics n = Some ''motor_state'' \<longrightarrow>
       map_of (on_values w') (od_id n) = Some (VInt (om_state (on_motor w'))) \<and> om_state (on_motor w') \<in> {0, 1, 2, 3}) \<and>
    (od_dynamics n = Some ''motor_rpm'' \<longrightarrow>
       map_of (on_values w') (od_id n) = Some (VFloat (Fin (om_rpm (on_motor w')))) \<and>
       (om_state (on_motor w') \<in> {MOTOR_STOPPED, MOTOR_FAULT} \<longrightarrow> om_rpm (on_motor w') = 0)) \<and>
    (od_dynamics n = Some ''quality_rate'' \<longrightarrow>
       (\<exists>q u g r. map_of (on_rates w) (od_id n) = Some q \<and> qr_value q = Fin u \<and> qr_target q = Fin g \<and>
          map_of (on_values w') (od_id n) = Some (VFloat (Fin (max 85 (min 100 (u + (g - u) * qr_alpha q +
            (if 0 < qr_sigma q then fst (or_gauss (ox_random X) 0 (qr_sigma q) r) else 0)))))))) \<and>
    (n = sp \<longrightarrow> map_of (on_values w') (od_id n) = Some (VFloat (Fin x)))"
proof -
  obtain w' tput where w': "opcua_tick X S A now at_time w = (w', Inr ())" "opcua_ok A w'"
      "on_setpoint w' = on_setpoint (observed_setpoint x at_time w)"
      "machines_moved (ox_random X) A x (elapsed_s S now w) w w' tput"
      "\<forall>n \<in> set (iter_nodes A). \<exists>v. value_for_node X w' (tp_value (on_temperature w')) tput n = Inr v \<and>
         map_of (on_values w') (od_id n) = Some v"
    using opcua_tick_ok [OF assms(1,2,4-6)] by blast
  obtain u where u: "value_for_node X w' (tp_value (on_temperature w')) tput n = Inr u" "map_of (on_values w') (od_id n) = Some u"
    using w'(5) assms(7) by blast
  obtain r1 r2 r3 where r: "hot_spike_tick (ox_random X) (on_spike w) (on_rng w) = (on_spike w', r1)"
      "opcua_motor_tick (ox_random X) (on_motor w) r1 = (on_motor w', r2)"
      "temperature_tick (ox_random X) (Fin x) (Fin (elapsed_s S now w)) (Fin (hs_contribution (on_spike w'))) (on_temperature w) r2 =
        Inr (on_temperature w', r3)"
      "tput = (if om_state (on_motor w') = MOTOR_RUNNING
        then max 0 (6 / 10000 * om_rpm (on_motor w') + fst (or_gauss (ox_random X) 0 (5 / 100) r3))
        else if om_state (on_motor w') = MOTOR_STARTING then max 0 (6 / 10000 * om_rpm (on_motor w')) else 0)"
    and rates: "rates_moved (ox_random X) A w w'"
    using w'(4) assms(3) unfolding machines_moved_def by blast
  have m: "om_state (on_motor w') \<in> {0, 1, 2, 3}" "om_state (on_motor w') \<in> {MOTOR_STOPPED, MOTOR_FAULT} \<longrightarrow> om_rpm (on_motor w') = 0"
    using w'(2) by (auto simp: opcua_ok_def motor_ok_def)
  have u1: "od_dynamics n = Some ''temperature'' \<longrightarrow> u = VFloat (Fin (tp_value (on_temperature w')))"
      "od_dynamics n = Some ''throughput'' \<longrightarrow> u = VFloat (Fin tput)"
      "od_dynamics n = Some ''motor_state'' \<longrightarrow> u = VInt (om_state (on_motor w'))"
      "od_dynamics n = Some ''motor_rpm'' \<longrightarrow> u = VFloat (Fin (om_rpm (on_motor w')))"
    using u(1) by (simp_all add: value_for_node_def split: if_splits)
  have u2: "\<exists>q y g r. map_of (on_rates w) (od_id n) = Some q \<and> qr_value q = Fin y \<and> qr_target q = Fin g \<and>
      u = VFloat (Fin (max 85 (min 100 (y + (g - y) * qr_alpha q +
        (if 0 < qr_sigma q then fst (or_gauss (ox_random X) 0 (qr_sigma q) r) else 0)))))"
    if qr: "od_dynamics n = Some ''quality_rate''"
  proof -
    obtain q y g r where q: "map_of (on_rates w) (od_id n) = Some q" "qr_value q = Fin y" "qr_target q = Fin g"
        "map_of (on_current w') (od_id n) = Some (Fin (max 85 (min 100 (y + (g - y) * qr_alpha q +
          (if 0 < qr_sigma q then fst (or_gauss (ox_random X) 0 (qr_sigma q) r) else 0)))))"
      using rates assms(7) qr unfolding rates_moved_def by blast
    then have "u = VFloat (Fin (max 85 (min 100 (y + (g - y) * qr_alpha q +
        (if 0 < qr_sigma q then fst (or_gauss (ox_random X) 0 (qr_sigma q) r) else 0)))))"
      using u(1) qr by (auto simp: value_for_node_def bindE_Inr_iff)
    with q(1-3) show ?thesis by blast
  qed
  have u3: "u = VFloat (Fin x)" if "n = sp"
    using u(1) w'(3) space_setpoint [OF assms(1)] that by (simp add: value_for_node_def)
  have ok: "rates_ok w'" using rates by (simp add: rates_moved_def)
  have shown: "od_dynamics n = Some ''temperature'' \<longrightarrow> map_of (on_values w') (od_id n) = Some (VFloat (Fin (tp_value (on_temperature w'))))"
    "od_dynamics n = Some ''motor_state'' \<longrightarrow> map_of (on_values w') (od_id n) = Some (VInt (om_state (on_motor w'))) \<and> om_state (on_motor w') \<in> {0, 1, 2, 3}"
    "od_dynamics n = Some ''motor_rpm'' \<longrightarrow> map_of (on_values w') (od_id n) = Some (VFloat (Fin (om_rpm (on_motor w')))) \<and>
       (om_state (on_motor w') \<in> {MOTOR_STOPPED, MOTOR_FAULT} \<longrightarrow> om_rpm (on_motor w') = 0)"
    "n = sp \<longrightarrow> map_of (on_values w') (od_id n) = Some (VFloat (Fin x))"
    unfolding u(2) using u1 u3 m by blast+
  have tput: "od_dynamics n = Some ''throughput'' \<longrightarrow> map_of (on_values w') (od_id n) = Some (VFloat (Fin
       (if om_state (on_motor w') = MOTOR_RUNNING
        then max 0 (6 / 10000 * om_rpm (on_motor w') + fst (or_gauss (ox_random X) 0 (5 / 100) r3))
        else if om_state (on_motor w') = MOTOR_STARTING then max 0 (6 / 10000 * om_rpm (on_motor w')) else 0)))"
    unfolding u(2) r(4) [symmetric] using u1(2) by blast
  have rate: "od_dynamics n = Some ''quality_rate'' \<longrightarrow>
       (\<exists>q u g r. map_of (on_rates w) (od_id n) = Some q \<and> qr_value q = Fin u \<and> qr_target q = Fin g \<and>
          map_of (on_values w') (od_id n) = Some (VFloat (Fin (max 85 (min 100 (u + (g - u) * qr_alpha q +
            (if 0 < qr_sigma q then fst (or_gauss (ox_random X) 0 (qr_sigma q) r) else 0)))))))"
    unfolding u(2) option.inject using u2 by blast
  show ?thesis
    by (rule exI [of _ w'], rule exI [of _ r1], rule exI [of _ r2], rule exI [of _ r3], intro conjI;
        fact w'(1) w'(2) ok r(1) r(2) r(3) [unfolded elapsed_s_def] shown tput rate)
qed

section \<open>Setpoints written by clients\<close>

definition settled :: "opcua_node \<Rightarrow> real \<Rightarrow> 'r opcua_simulator \<Rightarrow> bool" where
  "settled sp y w \<longleftrightarrow> st_value (on_setpoint w) = Fin y \<and> map_of (on_values w) (od_id sp) = Some (VFloat (Fin y))"

lemma opcua_tick_settles:
  assumes "space_ok X A sp" "opcua_ok A w" "time_moves S now w" "map_of (on_values w) (od_id sp) = Some (VFloat (Fin x))"
  shows "\<exists>w'. opcua_tick X S A now at_time w = (w', Inr ()) \<and> opcua_ok A w' \<and> settled sp x w' \<and> on_last_tick w' = Some now \<and>
    on_setpoint w' = on_setpoint (observed_setpoint x at_time w) \<and>
    on_setpoint_writes w' = on_setpoint_writes (observed_setpoint x at_time w)"
proof -
  have f: "to_float (ox_float X) (VFloat (Fin x)) = Inr (Fin x)" by simp
  obtain w' tput where w': "opcua_tick X S A now at_time w = (w', Inr ())" "opcua_ok A w'" "on_last_tick w' = Some now"
      "on_setpoint w' = on_setpoint (observed_setpoint x at_time w)"
      "on_setpoint_writes w' = on_setpoint_writes (observed_setpoint x at_time w)"
      "\<forall>n \<in> set (iter_nodes A). \<exists>v. value_for_node X w' (tp_value (on_temperature w')) tput n = Inr v \<and>
         map_of (on_values w') (od_id n) = Some v"
    using opcua_tick_ok [OF assms f, of at_time] by blast
  have "settled sp x w'" using w'(4,6) space_setpoint [OF assms(1)]
    by (auto simp: settled_def value_for_node_def dest: bspec [of _ _ sp])
  with w' show ?thesis by blast
qed

definition ticks_after :: "opcua_settings \<Rightarrow> (real \<times> datetime) list \<Rightarrow> 'r opcua_simulator \<Rightarrow> bool" where
  "ticks_after S ts w \<longleftrightarrow> (\<forall>t \<in> set (take 1 ts). time_moves S (fst t) w) \<and> sorted_wrt (<) (map fst ts)"

abbreviation tick_events :: "(real \<times> datetime) list \<Rightarrow> opcua_event list" where
  "tick_events ts \<equiv> map (\<lambda>(now, at_time). Opcua_Tick now at_time) ts"

lemma settled_run:
  assumes "space_ok X A sp" "opcua_ok A w" "settled sp x w" "ticks_after S ts w"
  shows "\<exists>w'. opcua_sim_run X S A (tick_events ts) w = (w', Inr ()) \<and> opcua_ok A w' \<and> settled sp x w' \<and>
    on_setpoint w' = on_setpoint w \<and> on_setpoint_writes w' = on_setpoint_writes w"
  using assms(2-)
proof (induction ts arbitrary: w)
  case (Cons t ts)
  obtain now at_time where t: "t = (now, at_time)" by (cases t)
  have m: "time_moves S now w" using Cons.prems(3) t by (simp add: ticks_after_def)
  obtain w1 where w1: "opcua_tick X S A now at_time w = (w1, Inr ())" "opcua_ok A w1" "settled sp x w1" "on_last_tick w1 = Some now"
      "on_setpoint w1 = on_setpoint (observed_setpoint x at_time w)"
      "on_setpoint_writes w1 = on_setpoint_writes (observed_setpoint x at_time w)"
    using opcua_tick_settles [OF assms(1) Cons.prems(1) m] Cons.prems(2) unfolding settled_def by blast
  have "observed_setpoint x at_time w = w" using Cons.prems(2) by (simp add: observed_setpoint_def settled_def)
  moreover have "ticks_after S ts w1" using Cons.prems(3) t w1(4) by (cases ts) (auto simp: ticks_after_def time_moves_def)
  ultimately show ?case using Cons.IH [OF w1(2,3)] w1(1,5,6) t by (auto simp: bindS_def)
qed simp

lemma found_setpoint_write:
  "find_setpoint A = Some sp \<Longrightarrow> client_write A (od_id sp) v w = w\<lparr>on_values := AList.update (od_id sp) v (on_values w)\<rparr>"
  by (auto simp: client_write_def find_setpoint_def find_Some_iff)

lemma client_write_setpoint:
  "space_ok X A sp \<Longrightarrow> client_write A (od_id sp) v w = w\<lparr>on_values := AList.update (od_id sp) v (on_values w)\<rparr>"
  using space_setpoint by (auto simp: client_write_def)

lemma client_write_ok: "opcua_ok A w \<Longrightarrow> opcua_ok A (client_write A nid v w)"
  by (auto simp: client_write_def opcua_ok_def update_conv')

text \<open>
  A setpoint a client writes is taken over by the next tick and counted once, however many ticks
  follow; writing the value that is already in force is not counted at all.
\<close>

theorem client_setpoint_counted_once:
  assumes "space_ok X A sp" "opcua_ok A w" "settled sp y w" "ticks_after S ts w" "ts \<noteq> []"
  shows "\<exists>w'. opcua_sim_run X S A (Client_Write (od_id sp) (VFloat (Fin x)) # tick_events ts) w = (w', Inr ()) \<and>
    opcua_ok A w' \<and> settled sp x w' \<and>
    on_setpoint_writes w' = on_setpoint_writes w @ (if x = y then [] else [''opcua-client'']) \<and>
    length (st_writes (on_setpoint w')) = length (st_writes (on_setpoint w)) + (if x = y then 0 else 1)"
proof -
  let ?w0 = "client_write A (od_id sp) (VFloat (Fin x)) w"
  obtain now at_time ts' where ts: "ts = (now, at_time) # ts'" using assms(5) by (cases ts) auto
  have w0: "on_values ?w0 = AList.update (od_id sp) (VFloat (Fin x)) (on_values w)" "on_setpoint ?w0 = on_setpoint w"
      "on_setpoint_writes ?w0 = on_setpoint_writes w" "on_last_tick ?w0 = on_last_tick w"
    by (simp_all add: client_write_setpoint [OF assms(1)])
  have v0: "map_of (on_values ?w0) (od_id sp) = Some (VFloat (Fin x))" by (simp add: w0(1) update_conv')
  have m: "time_moves S now ?w0" using assms(4) ts w0(4) by (simp add: ticks_after_def time_moves_def)
  obtain w1 where w1: "opcua_tick X S A now at_time ?w0 = (w1, Inr ())" "opcua_ok A w1" "settled sp x w1" "on_last_tick w1 = Some now"
      "on_setpoint w1 = on_setpoint (observed_setpoint x at_time ?w0)"
      "on_setpoint_writes w1 = on_setpoint_writes (observed_setpoint x at_time ?w0)"
    using opcua_tick_settles [OF assms(1) client_write_ok [OF assms(2)] m v0] by blast
  have "ticks_after S ts' w1" using assms(4) ts w1(4) by (cases ts') (auto simp: ticks_after_def time_moves_def)
  from settled_run [OF assms(1) w1(2,3) this] obtain w' where w': "opcua_sim_run X S A (tick_events ts') w1 = (w', Inr ())"
      "opcua_ok A w'" "settled sp x w'" "on_setpoint w' = on_setpoint w1" "on_setpoint_writes w' = on_setpoint_writes w1"
    by blast
  have "opcua_sim_run X S A (Client_Write (od_id sp) (VFloat (Fin x)) # tick_events ts) w = (w', Inr ())"
    using w1(1) w'(1) ts by (simp add: bindS_def)
  then show ?thesis using w'(2-) w1(5,6) w0 assms(3)
    by (intro exI [of _ w']) (auto simp: observed_setpoint_def setpoint_put_def settled_def)
qed

text \<open>
  C25. A client that writes a setpoint that is not finite stops the simulator: the next tick records
  the write and then raises, and the exception leaves the loop.
\<close>

theorem nonfinite_setpoint_stops_simulator:
  assumes "find_setpoint A = Some sp" "opcua_ok A w" "time_moves S now w" "\<not> isfinite f"
  shows "snd (opcua_sim_run X S A (Client_Write (od_id sp) (VFloat f) # Opcua_Tick now at_time # es) w) =
    Inl (ValueError ''temperature inputs must be finite'')"
proof -
  let ?w0 = "client_write A (od_id sp) (VFloat f) w"
  have v0: "map_of (on_values ?w0) (od_id sp) = Some (VFloat f)"
    by (simp add: found_setpoint_write [OF assms(1)] update_conv')
  have "to_float (ox_float X) (VFloat f) = Inr f" by simp
  then obtain w1 where w1: "reconcile_setpoint X A at_time ?w0 = (w1, Inr ())" "\<not> isfinite (st_value (on_setpoint w1))"
      "on_last_tick w1 = on_last_tick ?w0"
    using v0 assms(1,4)
    by (cases f; cases "st_value (on_setpoint ?w0)") (auto simp: reconcile_setpoint_def setpoint_put_def)
  define e where "e = (case on_last_tick w of Some t \<Rightarrow> now - t | None \<Rightarrow> of_int (ot_tick_ms S) / 1000)"
  have e: "0 < e" using assms(3) by (simp add: e_def time_moves_def split: option.splits)
  have l: "on_last_tick w1 = on_last_tick w" using w1(3) by (simp add: found_setpoint_write [OF assms(1)])
  obtain h r1 where 1: "move_spike X w1 = (w1\<lparr>on_spike := h, on_rng := r1\<rparr>, Inr (hs_contribution h))"
    by (cases "hot_spike_tick (ox_random X) (on_spike w1) (on_rng w1)") (simp add: move_spike_def)
  obtain m r2 where 2: "move_motor X (w1\<lparr>on_spike := h, on_rng := r1\<rparr>) = (w1\<lparr>on_spike := h, on_motor := m, on_rng := r2\<rparr>, Inr ())"
    by (cases "opcua_motor_tick (ox_random X) (on_motor w1) r1") (simp add: move_motor_def)
  have t: "temperature_tick (ox_random X) (st_value (on_setpoint w1)) (Fin e) (Fin k) T r =
      Inl (ValueError ''temperature inputs must be finite'')" for k T r
    using w1(2) e by (cases "st_value (on_setpoint w1)") (simp_all add: temperature_tick_def)
  have "snd (tick_machines X S now w1) = Inl (ValueError ''temperature inputs must be finite'')"
    using 1 2 l by (simp add: tick_machines_def bindS_def elapsed_since_def move_temperature_def t e_def [symmetric])
  then obtain w2 where "tick_machines X S now w1 = (w2, Inl (ValueError ''temperature inputs must be finite''))"
    by (metis prod.collapse)
  then show ?thesis using w1(1) by (simp add: opcua_tick_machines bindS_def)
qed


section \<open>A bottling line\<close>

definition line_node :: "string \<Rightarrow> bool \<Rightarrow> string option \<Rightarrow> signal_value \<Rightarrow> opcua_node" where
  "line_node nid setp dyn v =
     \<lparr>od_id = nid, od_setpoint = setp, od_cell = ''filling'', od_equipment = ''filler'', od_type = variant_of v, od_initial = v,
      od_dynamics = dyn, od_bad = 1 / 10, od_uncertain = 0\<rparr>"

definition line_space :: address_space where
  "line_space =
     \<lparr>as_defaults = [''e'', ''s'', ''a'', ''l''],
      as_equipments =
        [\<lparr>oe_name = ''filler'',
          oe_nodes = [line_node ''setpoint'' True None (VFloat (Fin 22)),
                      line_node ''temperature'' False (Some ''temperature'') (VFloat (Fin 22)),
                      line_node ''throughput'' False (Some ''throughput'') (VFloat (Fin 0))]\<rparr>,
         \<lparr>oe_name = ''conveyor'',
          oe_nodes = [line_node ''state'' False (Some ''motor_state'') (VInt 0),
                      line_node ''rpm'' False (Some ''motor_rpm'') (VFloat (Fin 0)),
                      line_node ''rate'' False (Some ''quality_rate'') (VFloat (Fin 98))]\<rparr>]\<rparr>"

definition line_settings :: opcua_settings where
  "line_settings =
     \<lparr>ot_tick_ms = 100, ot_hot_spike_probability = 0, ot_motor_fault_probability = 0, ot_time_constant = Fin 10,
      ot_noise = Fin 0, ot_cooling_rate = Fin (1 / 2), ot_cooling_duration = Fin 10\<rparr>"

definition line_platform :: "nat opcua_platform" where
  "line_platform = \<lparr>ox_random = still_random, ox_float = \<lambda>_. None, ox_refuses = \<lambda>_ _. None\<rparr>"

definition line_simulator :: "nat opcua_simulator" where
  "line_simulator =
     (case opcua_start line_platform line_settings line_space 0 of
        Inr w \<Rightarrow> w
      | Inl e \<Rightarrow>
          \<lparr>on_rng = 0, on_setpoint = setpoint_new NaN, on_temperature = cooled_zone, on_motor = opcua_motor_new 1 0,
           on_spike = hot_spike_new 0, on_quality = [], on_rates = [], on_current = [], on_values = [],
           on_last_tick = None, on_gauges = [], on_quality_count = [], on_setpoint_writes = [], on_hot_spikes = []\<rparr>)"

lemma line_space_ok: "space_ok line_platform line_space (line_node ''setpoint'' True None (VFloat (Fin 22)))"
  by (simp add: space_ok_def shown_type_def find_setpoint_def iter_nodes_def line_space_def line_node_def line_platform_def)

lemma line_simulator_start: "opcua_start line_platform line_settings line_space 0 = Inr line_simulator"
proof -
  have "\<not> isl (opcua_start line_platform line_settings line_space 0)" by code_simp
  then show ?thesis by (cases "opcua_start line_platform line_settings line_space 0") (simp_all add: line_simulator_def)
qed

lemma line_simulator_ok: "opcua_ok line_space line_simulator" "on_last_tick line_simulator = None"
    "on_setpoint_writes line_simulator = []"
  using opcua_start_ok [OF line_simulator_start] by (simp_all add: line_settings_def)

lemma line_simulator_settled: "settled (line_node ''setpoint'' True None (VFloat (Fin 22))) 22 line_simulator"
  unfolding settled_def by (intro conjI; code_simp)

lemma line_time: "time_moves line_settings now line_simulator"
  by (simp add: time_moves_def line_simulator_ok line_settings_def)

lemma line_rates: "rates_ok line_simulator"
  unfolding rates_ok_def
proof (intro conjI)
  show "distinct (map fst (on_rates line_simulator))" by code_simp
  have "map (\<lambda>(k, q). (qr_value q, qr_target q)) (on_rates line_simulator) = [(Fin 98, Fin 98)]" by code_simp
  then show "\<forall>(k, q) \<in> set (on_rates line_simulator). \<exists>u g. qr_value q = Fin u \<and> qr_target q = Fin g"
    by (auto simp: map_eq_Cons_conv)
qed

theorem opcua_nodes_show_machines_witness:
  "\<exists>w' :: nat opcua_simulator. opcua_tick line_platform line_settings line_space 5 (utc 5) line_simulator = (w', Inr ()) \<and>
     map_of (on_values w') ''rate'' = Some (VFloat (Fin 98))"
proof -
  have v: "map_of (on_values line_simulator) (od_id (line_node ''setpoint'' True None (VFloat (Fin 22)))) = Some (VFloat (Fin 22))"
    using line_simulator_settled by (simp add: settled_def)
  have f: "to_float (ox_float line_platform) (VFloat (Fin 22)) = Inr (Fin 22)" by simp
  have n: "line_node ''rate'' False (Some ''quality_rate'') (VFloat (Fin 98)) \<in> set (iter_nodes line_space)"
    by (simp add: iter_nodes_def line_space_def)
  have d: "od_dynamics (line_node ''rate'' False (Some ''quality_rate'') (VFloat (Fin 98))) = Some ''quality_rate''"
      "od_id (line_node ''rate'' False (Some ''quality_rate'') (VFloat (Fin 98))) = ''rate''"
    by (simp_all add: line_node_def)
  have "map_option (\<lambda>q. (qr_value q, qr_target q)) (map_of (on_rates line_simulator) ''rate'') = Some (Fin 98, Fin 98)" by code_simp
  then have q: "qr_value q = Fin 98 \<and> qr_target q = Fin 98" if "map_of (on_rates line_simulator) ''rate'' = Some q" for q
    using that by simp
  have g: "fst (or_gauss (ox_random line_platform) 0 s r) = 0" for s r
    by (simp add: line_platform_def still_random_def)
  from opcua_nodes_show_machines [OF line_space_ok line_simulator_ok(1) line_rates line_time v f n, of 5 "utc 5"]
  obtain w' where w': "opcua_tick line_platform line_settings line_space 5 (utc 5) line_simulator = (w', Inr ())"
      and rate: "od_dynamics (line_node ''rate'' False (Some ''quality_rate'') (VFloat (Fin 98))) = Some ''quality_rate'' \<longrightarrow>
        (\<exists>q u g r. map_of (on_rates line_simulator) (od_id (line_node ''rate'' False (Some ''quality_rate'') (VFloat (Fin 98)))) = Some q \<and>
          qr_value q = Fin u \<and> qr_target q = Fin g \<and>
          map_of (on_values w') (od_id (line_node ''rate'' False (Some ''quality_rate'') (VFloat (Fin 98)))) =
            Some (VFloat (Fin (max 85 (min 100 (u + (g - u) * qr_alpha q +
            (if 0 < qr_sigma q then fst (or_gauss (ox_random line_platform) 0 (qr_sigma q) r) else 0)))))))"
    by (elim exE conjE) (rule that, assumption, assumption)
  obtain q u v r where qq: "map_of (on_rates line_simulator) ''rate'' = Some q" "qr_value q = Fin u" "qr_target q = Fin v"
      and val: "map_of (on_values w') ''rate'' = Some (VFloat (Fin (max 85 (min 100 (u + (v - u) * qr_alpha q +
           (if 0 < qr_sigma q then fst (or_gauss (ox_random line_platform) 0 (qr_sigma q) r) else 0))))))"
    using mp [OF rate d(1)] unfolding d(2) by (elim exE conjE)
  have "u = 98" "v = 98" using q [OF qq(1)] qq(2,3) by simp_all
  then have "map_of (on_values w') ''rate'' = Some (VFloat (Fin 98))" using val by (simp add: g)
  with w' show ?thesis by blast
qed

theorem client_setpoint_counted_once_witness:
  "\<exists>w'. opcua_sim_run line_platform line_settings line_space
      (Client_Write ''setpoint'' (VFloat (Fin 26)) # tick_events [(5, utc 5), (6, utc 6)]) line_simulator = (w', Inr ()) \<and>
    on_setpoint_writes w' = [''opcua-client''] \<and> st_value (on_setpoint w') = Fin 26"
proof -
  have t: "ticks_after line_settings [(5, utc 5), (6, utc 6)] line_simulator"
    by (simp add: ticks_after_def line_time)
  have n: "od_id (line_node ''setpoint'' True None (VFloat (Fin 22))) = ''setpoint''" by (simp add: line_node_def)
  from client_setpoint_counted_once [OF line_space_ok line_simulator_ok(1) line_simulator_settled t, of 26]
  show ?thesis by (auto simp: n line_simulator_ok settled_def)
qed

theorem nonfinite_setpoint_stops_simulator_witness:
  "snd (opcua_sim_run line_platform line_settings line_space
      [Client_Write ''setpoint'' (VFloat PosInf), Opcua_Tick 5 (utc 5)] line_simulator) =
    Inl (ValueError ''temperature inputs must be finite'')"
proof -
  have n: "od_id (line_node ''setpoint'' True None (VFloat (Fin 22))) = ''setpoint''" by (simp add: line_node_def)
  have nf: "\<not> isfinite PosInf" by simp
  have "find_setpoint line_space = Some (line_node ''setpoint'' True None (VFloat (Fin 22)))"
    using line_space_ok by (simp add: space_ok_def)
  from nonfinite_setpoint_stops_simulator [OF this line_simulator_ok(1) line_time nf, where X = line_platform and now = 5 and at_time = "utc 5" and es = "[]"]
  show ?thesis by (simp only: n)
qed

end
