(* ===== verification/Py_Values.thy ===== *)
theory Py_Values
  imports Authorization
begin

text \<open>
  Python's operators on decoded JSON, for the checkers under \<open>scripts/\<close>, which read evidence they
  do not trust: subscripts, comparisons, arithmetic and iteration on values of any type, with the
  exception each of them raises. The text of a timestamp, the texts \<open>int\<close> accepts and
  \<open>ActuationRequest.model_validate\<close> are parameters. Identity is not modelled: \<open>is\<close> is used by the
  checkers on the constants only.
\<close>

record checker =
  ck_iso :: "datetime \<Rightarrow> string"
  ck_parse_int :: "string \<Rightarrow> int option"
  ck_request :: "json \<Rightarrow> actuation_request res"
  ck_crypto :: crypto

definition attribute_error :: exn where
  "attribute_error = OtherError ''AttributeError'' []"

definition py_index_error :: exn where
  "py_index_error = OtherError ''IndexError'' ''index out of range''"

text \<open>\<open>t.endswith(s)\<close>.\<close>

definition ends_with :: "string \<Rightarrow> string \<Rightarrow> bool" where
  "ends_with s t \<longleftrightarrow> length s \<le> length t \<and> drop (length t - length s) t = s"

section \<open>Subscripts, tests and iteration\<close>

text \<open>\<open>v[k]\<close>, \<open>v[0]\<close> and \<open>v.get(k)\<close>.\<close>

fun j_get :: "json \<Rightarrow> string \<Rightarrow> json res" where
  "j_get (JObj d) k = dkey k d"
| "j_get _ k = Inl (TypeError ''indices'')"

fun j_first :: "json \<Rightarrow> json res" where
  "j_first (JArr (x # xs)) = Inr x"
| "j_first (JArr []) = Inl py_index_error"
| "j_first (JStr (c # s)) = Inr (JStr [c])"
| "j_first (JStr []) = Inl py_index_error"
| "j_first (JObj d) = Inl (KeyError ''0'')"
| "j_first _ = Inl (TypeError ''not subscriptable'')"

fun j_lookup :: "json \<Rightarrow> string \<Rightarrow> json res" where
  "j_lookup (JObj d) k = Inr (case map_of d k of None \<Rightarrow> JNull | Some v \<Rightarrow> v)"
| "j_lookup _ k = Inl attribute_error"

fun j_path :: "json \<Rightarrow> string list \<Rightarrow> json res" where
  "j_path v [] = Inr v"
| "j_path v (k # ks) = bindE (j_get v k) (\<lambda>u. j_path u ks)"

text \<open>Truth, \<open>isinstance(v, str)\<close> and \<open>isinstance(v, dict)\<close>.\<close>

fun j_truthy :: "json \<Rightarrow> bool" where
  "j_truthy JNull = False"
| "j_truthy (JBool b) = b"
| "j_truthy (JInt n) = (n \<noteq> 0)"
| "j_truthy (JFloat f) = (f \<noteq> Fin 0)"
| "j_truthy (JStr s) = (s \<noteq> [])"
| "j_truthy (JTime t) = True"
| "j_truthy (JArr xs) = (xs \<noteq> [])"
| "j_truthy (JObj d) = (d \<noteq> [])"

fun is_str :: "json \<Rightarrow> bool" where
  "is_str (JStr s) = True"
| "is_str (JTime t) = True"
| "is_str _ = False"

fun is_obj :: "json \<Rightarrow> bool" where
  "is_obj (JObj d) = True"
| "is_obj _ = False"

fun is_arr :: "json \<Rightarrow> bool" where
  "is_arr (JArr xs) = True"
| "is_arr _ = False"

fun is_int :: "json \<Rightarrow> bool" where
  "is_int (JInt n) = True"
| "is_int _ = False"

fun j_text :: "checker \<Rightarrow> json \<Rightarrow> string option" where
  "j_text K (JStr s) = Some s"
| "j_text K (JTime t) = Some (ck_iso K t)"
| "j_text K _ = None"

definition j_iter :: "checker \<Rightarrow> json \<Rightarrow> json list res" where
  "j_iter K v =
     (case v of
        JArr xs \<Rightarrow> Inr xs
      | JObj d \<Rightarrow> Inr (map (\<lambda>p. JStr (fst p)) d)
      | _ \<Rightarrow> (case j_text K v of
                Some s \<Rightarrow> Inr (map (\<lambda>c. JStr [c]) s)
              | None \<Rightarrow> Inl (TypeError ''not iterable'')))"

definition j_len :: "checker \<Rightarrow> json \<Rightarrow> int res" where
  "j_len K v = bindE (j_iter K v) (\<lambda>xs. Inr (int (length xs)))"

section \<open>Comparison and arithmetic\<close>

fun num_of :: "json \<Rightarrow> pyfloat option" where
  "num_of (JBool b) = Some (Fin (if b then 1 else 0))"
| "num_of (JInt n) = Some (Fin (of_int n))"
| "num_of (JFloat f) = Some f"
| "num_of _ = None"

text \<open>\<open>a == b\<close>: numbers by value whatever their type, objects whatever the order of their members.\<close>

lemma zip_size [termination_simp]: "(a, b) \<in> set (zip xs ys) \<Longrightarrow> size a < Suc (size_list size xs)"
  using set_zip_leftD [of a b xs ys] size_list_estimation' [of a xs "size a" size] by simp

fun j_eq :: "json \<Rightarrow> json \<Rightarrow> bool" where
  "j_eq (JArr xs) b = (case b of JArr ys \<Rightarrow> length xs = length ys \<and> list_all (\<lambda>(x, y). j_eq x y) (zip xs ys) | _ \<Rightarrow> False)"
| "j_eq (JObj d) b =
     (case b of JObj e \<Rightarrow> length d = length e \<and>
        list_all (\<lambda>(k, v). case map_of e k of None \<Rightarrow> False | Some w \<Rightarrow> j_eq v w) d | _ \<Rightarrow> False)"
| "j_eq JNull b = (b = JNull)"
| "j_eq (JStr s) b = (b = JStr s)"
| "j_eq (JTime t) b = (b = JTime t)"
| "j_eq a b = (case (num_of a, num_of b) of (Some x, Some y) \<Rightarrow> feq x y | _ \<Rightarrow> False)"

definition flt :: "pyfloat \<Rightarrow> pyfloat \<Rightarrow> bool" where
  "flt x y \<longleftrightarrow> fle x y \<and> \<not> fle y x"

text \<open>\<open>a < b\<close> on numbers, strings and lists; anything else raises.\<close>

fun text_less :: "string \<Rightarrow> string \<Rightarrow> bool" where
  "text_less [] t = (t \<noteq> [])"
| "text_less (c # s) [] = False"
| "text_less (c # s) (d # t) =
     ((of_char c :: nat) < of_char d \<or> c = d \<and> text_less s t)"

definition scalar_less :: "checker \<Rightarrow> json \<Rightarrow> json \<Rightarrow> bool res" where
  "scalar_less K a b =
     (case (num_of a, num_of b) of
        (Some x, Some y) \<Rightarrow> Inr (flt x y)
      | _ \<Rightarrow> (case (j_text K a, j_text K b) of
                (Some s, Some t) \<Rightarrow> Inr (text_less s t)
              | _ \<Rightarrow> Inl (TypeError ''not supported between instances'')))"

fun j_less :: "checker \<Rightarrow> json \<Rightarrow> json \<Rightarrow> bool res" where
  "j_less K a b =
     (case (a, b) of
        (JArr xs, JArr ys) \<Rightarrow>
          (case (xs, ys) of
             (x # xs', y # ys') \<Rightarrow> if j_eq x y then j_less K (JArr xs') (JArr ys') else j_less K x y
           | ([], _) \<Rightarrow> Inr (ys \<noteq> [])
           | (_ # _, []) \<Rightarrow> Inr False)
      | _ \<Rightarrow> scalar_less K a b)"

declare j_less.simps [simp del]

text \<open>\<open>a - b\<close> and \<open>a + 1\<close>; an integer beyond the range of a float cannot be mixed with one.\<close>

fun float_neg :: "pyfloat \<Rightarrow> pyfloat" where
  "float_neg (Fin x) = Fin (- x)"
| "float_neg PosInf = NegInf"
| "float_neg NegInf = PosInf"
| "float_neg NaN = NaN"

fun float_plus :: "pyfloat \<Rightarrow> pyfloat \<Rightarrow> pyfloat" where
  "float_plus (Fin x) (Fin y) = Fin (x + y)"
| "float_plus NaN y = NaN"
| "float_plus x NaN = NaN"
| "float_plus PosInf NegInf = NaN"
| "float_plus NegInf PosInf = NaN"
| "float_plus PosInf y = PosInf"
| "float_plus x PosInf = PosInf"
| "float_plus NegInf y = NegInf"
| "float_plus x NegInf = NegInf"

fun int_of_num :: "json \<Rightarrow> int option" where
  "int_of_num (JInt n) = Some n"
| "int_of_num (JBool b) = Some (if b then 1 else 0)"
| "int_of_num _ = None"

definition float_of_num :: "json \<Rightarrow> pyfloat res" where
  "float_of_num v =
     (case v of
        JFloat f \<Rightarrow> Inr f
      | _ \<Rightarrow> (case int_of_num v of Some n \<Rightarrow> int_to_float n | None \<Rightarrow> Inl (TypeError ''unsupported operand'')))"

definition j_sub :: "json \<Rightarrow> json \<Rightarrow> json res" where
  "j_sub a b =
     (case (int_of_num a, int_of_num b) of
        (Some m, Some n) \<Rightarrow> Inr (JInt (m - n))
      | _ \<Rightarrow> bindE (float_of_num a) (\<lambda>x. bindE (float_of_num b) (\<lambda>y. Inr (JFloat (float_plus x (float_neg y))))))"

text \<open>\<open>int(v)\<close>, and the arguments of \<open>range\<close>, which have to be integers.\<close>

definition j_int :: "checker \<Rightarrow> json \<Rightarrow> int res" where
  "j_int K v =
     (case v of
        JFloat (Fin x) \<Rightarrow> Inr (if 0 \<le> x then \<lfloor>x\<rfloor> else \<lceil>x\<rceil>)
      | JFloat NaN \<Rightarrow> Inl (ValueError ''cannot convert float NaN to integer'')
      | JFloat f \<Rightarrow> Inl (OverflowError ''cannot convert float infinity to integer'')
      | _ \<Rightarrow>
          (case int_of_num v of
             Some n \<Rightarrow> Inr n
           | None \<Rightarrow>
               (case j_text K v of
                  None \<Rightarrow> Inl (TypeError ''int() argument'')
                | Some s \<Rightarrow> (case ck_parse_int K s of
                               None \<Rightarrow> Inl (ValueError ''invalid literal for int()'') | Some n \<Rightarrow> Inr n))))"

definition j_range_arg :: "json \<Rightarrow> int res" where
  "j_range_arg v = (case int_of_num v of Some n \<Rightarrow> Inr n | None \<Rightarrow> Inl (TypeError ''cannot be interpreted as an integer''))"

text \<open>\<open>a + b\<close> on numbers, and \<open>base + timedelta(seconds=v)\<close>.\<close>

definition j_plus :: "json \<Rightarrow> json \<Rightarrow> json res" where
  "j_plus a b =
     (case (int_of_num a, int_of_num b) of
        (Some m, Some n) \<Rightarrow> Inr (JInt (m + n))
      | _ \<Rightarrow> bindE (float_of_num a) (\<lambda>x. bindE (float_of_num b) (\<lambda>y. Inr (JFloat (float_plus x y)))))"

definition first_instant :: int where "first_instant = - 62135596800000000"
definition last_instant :: int where "last_instant = 253402300799999999"

definition plus_seconds :: "datetime \<Rightarrow> json \<Rightarrow> datetime res" where
  "plus_seconds base v =
     (case num_of v of
        None \<Rightarrow> Inl (TypeError ''unsupported type for timedelta seconds component'')
      | Some NaN \<Rightarrow> Inl (ValueError ''cannot convert float NaN to integer'')
      | Some (Fin x) \<Rightarrow>
          (let t = base\<lparr>dt_us := dt_us base + timedelta_us x\<rparr>;
               local_us = dt_us t + (case dt_off t of None \<Rightarrow> 0 | Some off \<Rightarrow> off) in
           if local_us < first_instant \<or> last_instant < local_us
           then Inl (OverflowError ''date value out of range'') else Inr t)
      | Some _ \<Rightarrow> Inl (OverflowError ''cannot convert float infinity to integer''))"

text \<open>\<open>list(range(lo, hi))\<close>; a list of more elements than \<open>sys.maxsize\<close> cannot be made.\<close>

definition maxsize :: int where
  "maxsize = 9223372036854775807"

definition j_range :: "int \<Rightarrow> int \<Rightarrow> json res" where
  "j_range lo hi =
     (if maxsize < hi - lo then Inl (OverflowError ''Python int too large to convert to C ssize_t'')
      else Inr (JArr (map JInt [lo..hi - 1])))"

section \<open>Sets and dictionaries with keys of any type\<close>

fun hashable :: "json \<Rightarrow> bool" where
  "hashable (JArr xs) = False"
| "hashable (JObj d) = False"
| "hashable _ = True"

definition j_hash :: "json \<Rightarrow> json res" where
  "j_hash v = (if hashable v then Inr v else Inl (TypeError ''unhashable type''))"

fun j_in :: "json \<Rightarrow> json list \<Rightarrow> bool" where
  "j_in v [] = False"
| "j_in v (x # xs) = (j_eq v x \<or> j_in v xs)"

text \<open>\<open>set(xs)\<close>, as the list of its elements without repetitions.\<close>

fun j_dedup :: "json list \<Rightarrow> json list" where
  "j_dedup [] = []"
| "j_dedup (x # xs) = (if j_in x xs then j_dedup xs else x # j_dedup xs)"

definition j_set :: "json list \<Rightarrow> json list res" where
  "j_set xs = bindE (mapE j_hash xs) (\<lambda>ys. Inr (j_dedup ys))"

text \<open>\<open>{key(r): r for r in rows}\<close> keeps the last row of a key; \<open>d[k]\<close>.\<close>

definition j_index_by :: "string \<Rightarrow> json list \<Rightarrow> (json \<times> json) list res" where
  "j_index_by key rows = mapE (\<lambda>r. bindE (j_get r key) (\<lambda>k. bindE (j_hash k) (\<lambda>h. Inr (h, r)))) rows"

fun j_find :: "(json \<times> json) list \<Rightarrow> json \<Rightarrow> json option" where
  "j_find [] k = None"
| "j_find ((h, r) # rest) k = (case j_find rest k of Some s \<Rightarrow> Some s | None \<Rightarrow> if j_eq k h then Some r else None)"

definition j_select :: "(json \<times> json) list \<Rightarrow> json \<Rightarrow> json res" where
  "j_select index k =
     bindE (j_hash k) (\<lambda>h. case j_find index h of None \<Rightarrow> Inl (KeyError ''key'') | Some r \<Rightarrow> Inr r)"

section \<open>Short-circuit conditions\<close>

definition andE :: "bool res \<Rightarrow> bool res \<Rightarrow> bool res" where
  "andE a b = bindE a (\<lambda>x. if x then b else Inr False)"

definition orE :: "bool res \<Rightarrow> bool res \<Rightarrow> bool res" where
  "orE a b = bindE a (\<lambda>x. if x then Inr True else b)"

definition notE :: "bool res \<Rightarrow> bool res" where
  "notE a = bindE a (\<lambda>x. Inr (\<not> x))"

definition liftE2 :: "('a \<Rightarrow> 'b \<Rightarrow> 'c res) \<Rightarrow> 'a res \<Rightarrow> 'b res \<Rightarrow> 'c res" where
  "liftE2 f a b = bindE a (\<lambda>x. bindE b (f x))"

definition eqE :: "json res \<Rightarrow> json res \<Rightarrow> bool res" where
  "eqE = liftE2 (\<lambda>x y. Inr (j_eq x y))"

definition lessE :: "checker \<Rightarrow> json res \<Rightarrow> json res \<Rightarrow> bool res" where
  "lessE K = liftE2 (j_less K)"

text \<open>\<open>a >= b\<close> on numbers is false on a NaN, so it is not the negation of \<open>a < b\<close>.\<close>

definition geE :: "checker \<Rightarrow> json res \<Rightarrow> json res \<Rightarrow> bool res" where
  "geE K = liftE2 (\<lambda>x y.
     (case (num_of x, num_of y) of
        (Some u, Some v) \<Rightarrow> Inr (fle v u)
      | _ \<Rightarrow> bindE (j_less K x y) (\<lambda>l. Inr (\<not> l))))"

fun allE :: "('a \<Rightarrow> bool res) \<Rightarrow> 'a list \<Rightarrow> bool res" where
  "allE f [] = Inr True"
| "allE f (x # xs) = andE (f x) (allE f xs)"

fun filterE :: "('a \<Rightarrow> bool res) \<Rightarrow> 'a list \<Rightarrow> 'a list res" where
  "filterE f [] = Inr []"
| "filterE f (x # xs) = bindE (f x) (\<lambda>b. bindE (filterE f xs) (\<lambda>ys. Inr (if b then x # ys else ys)))"

lemma andE_iff [simp]:
  "andE a b = Inr True \<longleftrightarrow> a = Inr True \<and> b = Inr True"
  by (cases a) (auto simp: andE_def)

lemma notE_iff [simp]: "notE a = Inr True \<longleftrightarrow> a = Inr False" "notE a = Inr False \<longleftrightarrow> a = Inr True"
  by (cases a; simp add: notE_def)+

lemma orE_iff: "orE a b = Inr True \<longleftrightarrow> a = Inr True \<or> a = Inr False \<and> b = Inr True"
  by (cases a) (auto simp: orE_def)

lemma orE_False [simp]: "orE a b = Inr False \<longleftrightarrow> a = Inr False \<and> b = Inr False"
  by (cases a) (auto simp: orE_def)

lemma eqE_iff: "eqE a b = Inr c \<longleftrightarrow> (\<exists>x y. a = Inr x \<and> b = Inr y \<and> c = j_eq x y)"
  by (cases a; cases b) (auto simp: eqE_def liftE2_def)

lemma lessE_iff: "lessE K a b = Inr c \<longleftrightarrow> (\<exists>x y. a = Inr x \<and> b = Inr y \<and> j_less K x y = Inr c)"
  by (cases a; cases b) (auto simp: lessE_def liftE2_def)

lemma allE_iff [simp]: "allE f xs = Inr True \<longleftrightarrow> (\<forall>x \<in> set xs. f x = Inr True)"
  by (induction xs) auto

lemma filterE_iff: "filterE f xs = Inr ys \<longleftrightarrow> (\<forall>x \<in> set xs. \<exists>b. f x = Inr b) \<and> ys = filter (\<lambda>x. f x = Inr True) xs"
proof (induction xs arbitrary: ys)
  case (Cons x xs)
  show ?case
  proof (cases "f x")
    case (Inr b)
    then show ?thesis using Cons [of "tl ys"] Cons [of ys] by (cases b) (auto simp: bindE_Inr_iff Cons)
  qed simp
qed auto

lemma mapE_iff: "mapE f xs = Inr ys \<longleftrightarrow> list_all2 (\<lambda>x y. f x = Inr y) xs ys"
  by (induction xs arbitrary: ys) (auto simp: bindE_Inr_iff list_all2_Cons1)

lemma mapE_range: "mapE f xs = Inr ys \<Longrightarrow> y \<in> set ys \<Longrightarrow> \<exists>x \<in> set xs. f x = Inr y"
  by (induction xs arbitrary: ys) (auto simp: bindE_Inr_iff)

fun j_distinct :: "json list \<Rightarrow> bool" where
  "j_distinct [] = True"
| "j_distinct (x # xs) = (\<not> j_in x xs \<and> j_distinct xs)"

lemma j_dedup_length: "length (j_dedup xs) \<le> length xs"
  by (induction xs) auto

lemma j_dedup_full: "length (j_dedup xs) = length xs \<longleftrightarrow> j_distinct xs"
proof (induction xs)
  case (Cons x xs)
  then show ?case using j_dedup_length [of xs] by auto
qed simp

lemma hash_all: "mapE j_hash xs = Inr ys \<longleftrightarrow> ys = xs \<and> (\<forall>x \<in> set xs. hashable x)"
  by (induction xs arbitrary: ys) (auto simp: bindE_Inr_iff j_hash_def)

lemma j_set_iff: "j_set xs = Inr ys \<longleftrightarrow> ys = j_dedup xs \<and> (\<forall>x \<in> set xs. hashable x)"
  by (auto simp: j_set_def bindE_Inr_iff hash_all)

end
