(* ===== verification/Conformance_Order.thy ===== *)
theory Conformance_Order
  imports Py_Values
begin

text \<open>
  The conformance checker (\<open>scripts/conformance.py\<close>), its base: verdicts and check results, the
  binding of a command, and the order of two execution records. Records and references are decoded
  JSON. Two records are ordered by their common clock, by the monotonic time of their process, or by
  wall clocks whose uncertainty is bounded; in every other case the order stays open.
\<close>

section \<open>Verdicts\<close>

datatype conf_status = CPass | CFail | CUnknown

definition verdict :: "conf_status list \<Rightarrow> conf_status" where
  "verdict statuses =
     (if CFail \<in> set statuses then CFail
      else if statuses = [] \<or> CUnknown \<in> set statuses then CUnknown else CPass)"

record conf_check =
  cc_check :: string
  cc_status :: conf_status
  cc_reason :: string
  cc_scope :: string
  cc_executed :: bool
  cc_evidence :: "json list"

definition conf_result :: "string \<Rightarrow> conf_status \<Rightarrow> string \<Rightarrow> string \<Rightarrow> json list \<Rightarrow> bool \<Rightarrow> conf_check" where
  "conf_result name status reason scope evidence executed =
     \<lparr>cc_check = name, cc_status = status, cc_reason = reason, cc_scope = scope, cc_executed = executed,
      cc_evidence = evidence\<rparr>"

definition cc_rule :: "conf_check \<Rightarrow> string" where
  "cc_rule c = hd (split_on (CHR ''.'') (cc_check c))"

text \<open>The exceptions the checker turns into an open verdict.\<close>

fun malformed :: "exn \<Rightarrow> bool" where
  "malformed (KeyError _) = True"
| "malformed (TypeError _) = True"
| "malformed (ValueError _) = True"
| "malformed (ValidationError _) = True"
| "malformed _ = False"

section \<open>Times and bindings\<close>

definition aware_time :: "json \<Rightarrow> datetime res" where
  "aware_time v = bindE (from_isoformat v) (\<lambda>t. if aware t then Inr t else Inl (ValueError ''naive time''))"

fun type_name :: "json \<Rightarrow> string" where
  "type_name JNull = ''NoneType''"
| "type_name (JBool b) = ''bool''"
| "type_name (JInt n) = ''int''"
| "type_name (JFloat f) = ''float''"
| "type_name (JStr s) = ''str''"
| "type_name (JTime t) = ''str''"
| "type_name (JArr xs) = ''list''"
| "type_name (JObj d) = ''dict''"

definition command_binding :: "json \<Rightarrow> json res" where
  "command_binding record =
     bindE (j_get record ''requester'') (\<lambda>requester.
     bindE (j_get record ''target'') (\<lambda>target.
     bindE (j_get record ''value_type'') (\<lambda>vt.
     bindE (j_get record ''requested_value'') (\<lambda>v.
     bindE (bindE (j_get record ''requested_at'') aware_time) (\<lambda>requested_at.
     bindE (bindE (j_get record ''deadline'') aware_time) (\<lambda>deadline.
       canonical (JArr [requester, target, vt, JStr (type_name v), v,
                        JTime (as_utc requested_at), JTime (as_utc deadline)])))))))"

definition same_binding :: "json \<Rightarrow> json \<Rightarrow> bool res" where
  "same_binding r w = liftE2 (\<lambda>x y. Inr (x = y)) (command_binding r) (command_binding w)"

text \<open>A clock uncertainty is a finite number that is not negative; a bool is not a number here.\<close>

definition uncertainty :: "json \<Rightarrow> real option res" where
  "uncertainty record =
     bindE (j_lookup record ''clock_uncertainty_s'') (\<lambda>v.
       Inr (case v of
              JInt n \<Rightarrow> (case int_to_float n of Inr (Fin x) \<Rightarrow> if 0 \<le> x then Some x else None | _ \<Rightarrow> None)
            | JFloat (Fin x) \<Rightarrow> if 0 \<le> x then Some x else None
            | _ \<Rightarrow> None))"

definition j_get_or :: "json \<Rightarrow> string \<Rightarrow> json \<Rightarrow> json res" where
  "j_get_or v k d = (case v of JObj m \<Rightarrow> Inr (case map_of m k of None \<Rightarrow> d | Some u \<Rightarrow> u) | _ \<Rightarrow> Inl attribute_error)"

text \<open>\<open>record.get(key, record["monotonic_ns"])\<close>.\<close>

definition mono_bound :: "json \<Rightarrow> string \<Rightarrow> json res" where
  "mono_bound record key = bindE (j_get record ''monotonic_ns'') (j_get_or record key)"

definition same_domain :: "json \<Rightarrow> json \<Rightarrow> bool res" where
  "same_domain a b =
     andE (bindE (j_lookup a ''clock_domain'') (\<lambda>v. Inr (j_truthy v)))
       (eqE (j_lookup a ''clock_domain'') (j_lookup b ''clock_domain''))"

definition same_process :: "json \<Rightarrow> json \<Rightarrow> bool res" where
  "same_process a b =
     andE (eqE (j_get a ''component'') (j_get b ''component''))
       (eqE (j_get a ''process_instance'') (j_get b ''process_instance''))"

definition domain_order :: "checker \<Rightarrow> json \<Rightarrow> json \<Rightarrow> bool option res" where
  "domain_order K a b =
     bindE (lessE K (mono_bound a ''monotonic_after_ns'') (mono_bound b ''monotonic_before_ns'')) (\<lambda>l.
       if l then Inr (Some True)
       else bindE (lessE K (mono_bound b ''monotonic_after_ns'') (mono_bound a ''monotonic_before_ns'')) (\<lambda>g.
         Inr (if g then Some False else None)))"

definition seconds_between :: "json \<Rightarrow> json \<Rightarrow> real res" where
  "seconds_between a b =
     bindE (bindE (j_get b ''recorded_at'') aware_time) (\<lambda>t.
     bindE (bindE (j_get a ''recorded_at'') aware_time) (\<lambda>s. Inr (secs (dt_us t - dt_us s))))"

definition clock_order :: "json \<Rightarrow> json \<Rightarrow> bool option res" where
  "clock_order a b =
     bindE (uncertainty a) (\<lambda>u. bindE (uncertainty b) (\<lambda>v.
       case (u, v) of
         (Some x, Some y) \<Rightarrow>
           bindE (seconds_between a b) (\<lambda>delta.
             Inr (if delta > x + y then Some True else if delta < - (x + y) then Some False else None))
       | _ \<Rightarrow> Inr None))"

definition record_before :: "checker \<Rightarrow> json \<Rightarrow> json \<Rightarrow> bool option res" where
  "record_before K a b =
     bindE (same_domain a b) (\<lambda>d.
       if d then domain_order K a b
       else bindE (same_process a b) (\<lambda>p.
         if p then bindE (lessE K (j_get a ''monotonic_ns'') (j_get b ''monotonic_ns'')) (\<lambda>l. Inr (Some l))
         else clock_order a b))"

definition before_is :: "bool option \<Rightarrow> checker \<Rightarrow> json \<Rightarrow> json \<Rightarrow> bool res" where
  "before_is o1 K a b = bindE (record_before K a b) (\<lambda>o2. Inr (o2 = o1))"

text \<open>
  The retention window. \<open>abs\<close> is taken of the difference of two monotonic times; \<open>seconds\<close> is the
  declared interval.
\<close>

fun float_abs :: "pyfloat \<Rightarrow> pyfloat" where
  "float_abs (Fin x) = Fin \<bar>x\<bar>"
| "float_abs NaN = NaN"
| "float_abs _ = PosInf"

definition within_window :: "checker \<Rightarrow> pyfloat \<Rightarrow> json \<Rightarrow> json \<Rightarrow> bool option res" where
  "within_window K seconds a b =
     bindE (same_process a b) (\<lambda>p.
       if p
       then bindE (liftE2 j_sub (j_get a ''monotonic_ns'') (j_get b ''monotonic_ns'')) (\<lambda>d.
            Inr (Some (case num_of d of Some x \<Rightarrow> fle (float_abs x) (fmul seconds 1000000000) | None \<Rightarrow> False)))
       else bindE (uncertainty a) (\<lambda>u. bindE (uncertainty b) (\<lambda>v.
         case (u, v) of
           (Some x, Some y) \<Rightarrow>
             bindE (seconds_between b a) (\<lambda>delta.
               Inr (if fle (Fin (\<bar>delta\<bar> + x + y)) seconds then Some True
                    else if flt seconds (Fin (\<bar>delta\<bar> - x - y)) then Some False else None))
         | _ \<Rightarrow> Inr None)))"

section \<open>The policy of a write\<close>

fun j_nth :: "json \<Rightarrow> nat \<Rightarrow> json res" where
  "j_nth (JArr xs) i = (if i < length xs then Inr (xs ! i) else Inl py_index_error)"
| "j_nth _ i = Inl (TypeError ''not a sequence'')"

definition contains_text :: "string \<Rightarrow> string \<Rightarrow> bool" where
  "contains_text s t = list_ex (\<lambda>i. take (length s) (drop i t) = s) [0..<Suc (length t)]"

text \<open>\<open>v in container\<close>.\<close>

definition j_contains :: "checker \<Rightarrow> json \<Rightarrow> json \<Rightarrow> bool res" where
  "j_contains K container v =
     (case container of
        JArr xs \<Rightarrow> Inr (j_in v xs)
      | JObj d \<Rightarrow> bindE (j_hash v) (\<lambda>h. Inr (\<exists>k \<in> set (map fst d). j_text K h = Some k))
      | _ \<Rightarrow> (case (j_text K container, j_text K v) of
                (Some t, Some s) \<Rightarrow> Inr (contains_text s t)
              | _ \<Rightarrow> Inl (TypeError ''argument is not iterable'')))"

fun first_match :: "('a \<Rightarrow> bool res) \<Rightarrow> 'a list \<Rightarrow> 'a option res" where
  "first_match f [] = Inr None"
| "first_match f (x # xs) = bindE (f x) (\<lambda>b. if b then Inr (Some x) else first_match f xs)"

text \<open>The Python types a declared value type admits.\<close>

definition type_admitted :: "json \<Rightarrow> json \<Rightarrow> bool res" where
  "type_admitted vt v =
     bindE (j_hash vt) (\<lambda>_. Inr (
       if vt = JStr ''bool'' then type_name v = ''bool''
       else if vt = JStr ''int64'' then type_name v = ''int''
       else if vt = JStr ''double'' then type_name v = ''int'' \<or> type_name v = ''float''
       else False))"

definition in_policy_range :: "checker \<Rightarrow> json \<Rightarrow> json \<Rightarrow> bool res" where
  "in_policy_range K policy v =
     andE (geE K (Inr v) (bindE (j_get policy ''allowed_range'') (\<lambda>l. j_nth l 0)))
       (andE (geE K (bindE (j_get policy ''allowed_range'') (\<lambda>l. j_nth l 1)) (Inr v))
         (bindE (float_of_num v) (\<lambda>x. Inr (isfinite x))))"

definition valid_policy :: "checker \<Rightarrow> json list \<Rightarrow> json \<Rightarrow> bool res" where
  "valid_policy K policies record =
     bindE (first_match (\<lambda>p. eqE (j_get p ''uns_topic'') (j_get record ''target'')) policies) (\<lambda>found.
       case found of
         None \<Rightarrow> Inr False
       | Some policy \<Rightarrow>
           andE (bindE (j_get record ''requester'') (\<lambda>r. bindE (j_get policy ''allowlist'') (\<lambda>l. j_contains K l r)))
             (andE (eqE (j_get record ''value_type'') (j_get_or policy ''value_type'' (JStr ''double'')))
               (bindE (j_get record ''requested_value'') (\<lambda>v.
                bindE (j_get_or policy ''value_type'' (JStr ''double'')) (\<lambda>vt.
                  andE (type_admitted vt v) (in_policy_range K policy v))))))"

section \<open>The order is the order of the real times\<close>

text \<open>
  \<open>clocks_hold T rows\<close>: \<open>T\<close> gives every record the real time of its event, the wall clock of a
  record with a bounded uncertainty is off by no more than that, the records of one process follow
  its monotonic clock, and in one clock domain the monotonic interval of a record holds its event.
\<close>

definition mono_before :: "checker \<Rightarrow> json \<Rightarrow> json \<Rightarrow> bool" where
  "mono_before K a b \<longleftrightarrow> lessE K (mono_bound a ''monotonic_after_ns'') (mono_bound b ''monotonic_before_ns'') = Inr True"

definition clocks_hold :: "checker \<Rightarrow> (json \<Rightarrow> real) \<Rightarrow> json set \<Rightarrow> bool" where
  "clocks_hold K T rows \<longleftrightarrow>
     (\<forall>a \<in> rows. \<forall>u t. uncertainty a = Inr (Some u) \<and> bindE (j_get a ''recorded_at'') aware_time = Inr t \<longrightarrow>
        \<bar>T a - secs (dt_us t)\<bar> \<le> u) \<and>
     (\<forall>a \<in> rows. \<forall>b \<in> rows. same_domain a b = Inr True \<longrightarrow>
        (mono_before K a b \<longrightarrow> T a < T b) \<and> (mono_before K b a \<longrightarrow> T b < T a)) \<and>
     (\<forall>a \<in> rows. \<forall>b \<in> rows. same_process a b = Inr True \<longrightarrow>
        (\<forall>l. lessE K (j_get a ''monotonic_ns'') (j_get b ''monotonic_ns'') = Inr l \<longrightarrow> (l \<longleftrightarrow> T a < T b)))"

lemma clock_order_sound:
  assumes "clocks_hold K T rows" "a \<in> rows" "b \<in> rows" "clock_order a b = Inr (Some l)"
  shows "l \<longleftrightarrow> T a < T b"
proof -
  obtain u v where uv: "uncertainty a = Inr u" "uncertainty b = Inr v"
    using assms(4) by (auto simp: clock_order_def bindE_Inr_iff)
  obtain x y where xy: "u = Some x" "v = Some y"
    using assms(4) uv by (cases u; cases v) (simp_all add: clock_order_def)
  obtain delta where delta: "seconds_between a b = Inr delta" "l \<and> delta > x + y \<or> \<not> l \<and> delta < - (x + y)"
    using assms(4) uv xy by (auto simp: clock_order_def bindE_Inr_iff split: if_splits)
  obtain t s where ts: "bindE (j_get b ''recorded_at'') aware_time = Inr t" "bindE (j_get a ''recorded_at'') aware_time = Inr s"
      "delta = secs (dt_us t - dt_us s)"
    using delta(1) unfolding seconds_between_def bindE_Inr_iff [of "bindE (j_get _ _) aware_time"] by blast
  have "\<bar>T a - secs (dt_us s)\<bar> \<le> x" "\<bar>T b - secs (dt_us t)\<bar> \<le> y"
    using assms(1-3) uv xy ts(1,2) unfolding clocks_hold_def by blast+
  then show ?thesis using delta(2) ts(3) unfolding secs_diff by linarith
qed

lemma observed_order_sound_aux:
  assumes "clocks_hold K T rows" "a \<in> rows" "b \<in> rows" "record_before K a b = Inr (Some l)"
  shows "l \<longleftrightarrow> T a < T b"
proof (cases "same_domain a b = Inr True")
  case True
  then have "domain_order K a b = Inr (Some l)" using assms(4) by (simp add: record_before_def)
  then have "l \<and> mono_before K a b \<or> \<not> l \<and> mono_before K b a"
    by (auto simp: domain_order_def mono_before_def bindE_Inr_iff split: if_splits)
  then show ?thesis using assms(1-3) True unfolding clocks_hold_def by (meson less_asym)
next
  case False
  then have d: "same_domain a b = Inr False" using assms(4) by (auto simp: record_before_def bindE_Inr_iff)
  show ?thesis
  proof (cases "same_process a b = Inr True")
    case True
    then have "lessE K (j_get a ''monotonic_ns'') (j_get b ''monotonic_ns'') = Inr l"
      using assms(4) d by (auto simp: record_before_def bindE_Inr_iff)
    then show ?thesis using assms(1-3) True unfolding clocks_hold_def by blast
  next
    case False
    then have "clock_order a b = Inr (Some l)" using assms(4) d by (auto simp: record_before_def bindE_Inr_iff split: if_splits)
    then show ?thesis by (rule clock_order_sound [OF assms(1-3)])
  qed
qed

text \<open>
  C26. The order the checker sees is the order in which the events really happened, whatever true
  times are consistent with the records: a record it puts before another did happen before it, and
  one it puts after did not.
\<close>

theorem observed_order_sound:
  assumes "clocks_hold K T rows" "a \<in> rows" "b \<in> rows" "record_before K a b = Inr (Some l)"
  shows "l \<longleftrightarrow> T a < T b"
  using assms by (rule observed_order_sound_aux)

definition row_at :: "string \<Rightarrow> int \<Rightarrow> int \<Rightarrow> json" where
  "row_at process us ms =
     JObj [(''component'', JStr process), (''process_instance'', JStr process), (''monotonic_ns'', JInt 0),
           (''recorded_at'', JTime (utc us)), (''clock_uncertainty_s'', JFloat (Fin (of_int ms / 1000)))]"

definition plain_checker :: checker where
  "plain_checker =
     \<lparr>ck_iso = \<lambda>t. [], ck_parse_int = \<lambda>s. None, ck_request = \<lambda>v. Inl (ValidationError ''request''),
      ck_crypto = \<lparr>sha256 = \<lambda>_. replicate 64 (CHR ''a''), hmac = \<lambda>_ _. []\<rparr>\<rparr>"

definition true_times :: "json \<Rightarrow> real" where
  "true_times r = (if r = row_at ''validator'' 1000000 10 then 1 else 2)"

theorem observed_order_sound_witness:
  "record_before plain_checker (row_at ''validator'' 1000000 10) (row_at ''writer'' 2000000 10) = Inr (Some True) \<and>
   true_times (row_at ''validator'' 1000000 10) < true_times (row_at ''writer'' 2000000 10)"
proof -
  let ?a = "row_at ''validator'' 1000000 10" and ?b = "row_at ''writer'' 2000000 10"
  have o: "record_before plain_checker ?a ?b = Inr (Some True)" by code_simp
  have u: "uncertainty ?a = Inr (Some (1 / 100))" "uncertainty ?b = Inr (Some (1 / 100))"
      "bindE (j_get ?a ''recorded_at'') aware_time = Inr (utc 1000000)"
      "bindE (j_get ?b ''recorded_at'') aware_time = Inr (utc 2000000)"
    by (simp_all add: row_at_def uncertainty_def dkey_def aware_time_def)
  have d: "same_domain x y = Inr False" if "x \<in> {?a, ?b}" for x y using that by (auto simp: same_domain_def row_at_def andE_def)
  have p: "same_process ?a ?b = Inr False" "same_process ?b ?a = Inr False"
      "lessE plain_checker (j_get ?a ''monotonic_ns'') (j_get ?a ''monotonic_ns'') = Inr False"
      "lessE plain_checker (j_get ?b ''monotonic_ns'') (j_get ?b ''monotonic_ns'') = Inr False"
    by code_simp+
  have "?a \<noteq> ?b" by (simp add: row_at_def)
  then have "clocks_hold plain_checker true_times {?a, ?b}"
    unfolding clocks_hold_def using u d p by (auto simp: true_times_def secs_def)
  from observed_order_sound [OF this _ _ o] o show ?thesis by simp
qed

end
