(* ===== verification/Conformance_Structure.thy ===== *)
theory Conformance_Structure
  imports Conformance_Order
begin

text \<open>
  The conformance checker, its structural rules and its report (\<open>check_structure\<close>, \<open>reachable\<close> and
  \<open>evaluate\<close> of \<open>scripts/conformance.py\<close>). The manifest is modelled after its decoding: \<open>None\<close>
  stands for a manifest that lacks a field or has one of the wrong type, and identifiers are
  strings. Whether a declared source is a file of the repository is a parameter.
\<close>

section \<open>Routes\<close>

record graph_edge =
  ge_id :: string
  ge_source :: string
  ge_target :: string
  ge_flow :: string
  ge_contract :: string
  ge_channels :: "string list"

definition flow_successors :: "graph_edge list \<Rightarrow> string \<Rightarrow> string \<Rightarrow> string list" where
  "flow_successors edges flow node = map ge_target (filter (\<lambda>e. ge_source e = node \<and> ge_flow e = flow) edges)"

definition unseen_nodes :: "graph_edge list \<Rightarrow> string list \<Rightarrow> string list \<Rightarrow> string set" where
  "unseen_nodes edges pending seen = (set pending \<union> ge_target ` set edges) - set seen"

lemma unseen_shrinks:
  assumes "pending \<noteq> []" "last pending \<notin> set seen"
  shows "card (unseen_nodes edges (butlast pending @ flow_successors edges flow (last pending)) (last pending # seen))
    < card (unseen_nodes edges pending seen)"
proof (rule psubset_card_mono)
  show "finite (unseen_nodes edges pending seen)" by (simp add: unseen_nodes_def)
  have "last pending \<in> unseen_nodes edges pending seen" using assms by (simp add: unseen_nodes_def)
  moreover have "last pending \<notin> unseen_nodes edges (butlast pending @ flow_successors edges flow (last pending)) (last pending # seen)"
    by (simp add: unseen_nodes_def)
  moreover have "unseen_nodes edges (butlast pending @ flow_successors edges flow (last pending)) (last pending # seen) \<subseteq>
      unseen_nodes edges pending seen"
    by (auto simp: unseen_nodes_def flow_successors_def dest: in_set_butlastD)
  ultimately show "unseen_nodes edges (butlast pending @ flow_successors edges flow (last pending)) (last pending # seen) \<subset>
      unseen_nodes edges pending seen"
    by blast
qed

lemma unseen_butlast: "card (unseen_nodes edges (butlast pending) seen) \<le> card (unseen_nodes edges pending seen)"
  by (rule card_mono) (auto simp: unseen_nodes_def dest: in_set_butlastD)

text \<open>The loop: \<open>pending\<close> is a stack whose top is its last element.\<close>

function reach_loop :: "graph_edge list \<Rightarrow> string \<Rightarrow> string \<Rightarrow> string list \<Rightarrow> string list \<Rightarrow> bool" where
  "reach_loop edges flow goal pending seen =
     (if pending = [] then False
      else let node = last pending; rest = butlast pending in
        if node \<in> set seen then reach_loop edges flow goal rest seen
        else if node = goal then True
        else reach_loop edges flow goal (rest @ flow_successors edges flow node) (node # seen))"
  by auto

termination
proof (relation "measures [\<lambda>(edges, flow, goal, pending, seen). card (unseen_nodes edges pending seen),
    \<lambda>(edges, flow, goal, pending, seen). length pending]", goal_cases)
  case (2 edges flow goal pending seen node rest)
  then have "length (butlast pending) < length pending" by simp
  then show ?case using 2 unseen_butlast [of edges pending seen] by (auto simp: less_le)
next
  case (3 edges flow goal pending seen node rest)
  then show ?case using unseen_shrinks [of pending seen edges flow] by simp
qed simp

declare reach_loop.simps [simp del]

definition reachable :: "graph_edge list \<Rightarrow> string \<Rightarrow> string \<Rightarrow> string \<Rightarrow> string list \<Rightarrow> bool" where
  "reachable edges start goal flow blocked = reach_loop edges flow goal [start] blocked"

section \<open>The search is complete\<close>

text \<open>A walk along the edges of a flow.\<close>

fun walk :: "graph_edge list \<Rightarrow> string \<Rightarrow> string list \<Rightarrow> bool" where
  "walk edges flow [] = False"
| "walk edges flow [x] = True"
| "walk edges flow (x # y # zs) =
     ((\<exists>e \<in> set edges. ge_source e = x \<and> ge_target e = y \<and> ge_flow e = flow) \<and> walk edges flow (y # zs))"

lemma flow_successors_edge:
  "y \<in> set (flow_successors edges flow x) \<longleftrightarrow> (\<exists>e \<in> set edges. ge_source e = x \<and> ge_target e = y \<and> ge_flow e = flow)"
  by (auto simp: flow_successors_def)

definition route :: "graph_edge list \<Rightarrow> string \<Rightarrow> string \<Rightarrow> string \<Rightarrow> string set \<Rightarrow> string list \<Rightarrow> bool" where
  "route edges flow start goal blocked zs \<longleftrightarrow>
     walk edges flow zs \<and> hd zs = start \<and> last zs = goal \<and> set zs \<inter> blocked = {}"

lemma walk_drop: "walk edges flow (xs @ ys) \<Longrightarrow> ys \<noteq> [] \<Longrightarrow> walk edges flow ys"
proof (induction xs)
  case (Cons x xs)
  then show ?case by (cases "xs @ ys") auto
qed simp

lemma route_first: "route edges flow x goal B zs \<Longrightarrow> x \<notin> B"
  by (cases zs) (auto simp: route_def)

text \<open>A route that avoids more, and the rest of a route after the last visit of a node.\<close>

lemma route_mono: "route edges flow x goal (insert n B) zs \<Longrightarrow> route edges flow x goal B zs"
  by (auto simp: route_def)

lemma route_cons:
  "y \<in> set (flow_successors edges flow n) \<Longrightarrow> n \<notin> B \<Longrightarrow> route edges flow y goal B zs \<Longrightarrow> route edges flow n goal B (n # zs)"
  by (cases zs) (auto simp: route_def flow_successors_edge)

lemma route_after:
  assumes "route edges flow x goal B zs" "n \<in> set zs" "n \<noteq> goal"
  shows "\<exists>y ws. y \<in> set (flow_successors edges flow n) \<and> route edges flow y goal (insert n B) ws"
proof -
  obtain as bs where s: "zs = as @ n # bs" "n \<notin> set bs" using split_list_last [OF assms(2)] by blast
  then obtain y ws where bs: "bs = y # ws" using assms(1,3) by (cases bs) (auto simp: route_def)
  have "walk edges flow (n # y # ws)" using assms(1) s bs walk_drop [of edges flow as "n # y # ws"] by (simp add: route_def)
  then show ?thesis using assms(1) s bs
    by (intro exI [of _ y] exI [of _ "y # ws"]) (auto simp: route_def flow_successors_edge)
qed

lemma reach_loop_iff:
  "reach_loop edges flow goal pending seen \<longleftrightarrow> (\<exists>p \<in> set pending. \<exists>zs. route edges flow p goal (set seen) zs)"
proof (induction edges flow goal pending seen rule: reach_loop.induct)
  case (1 edges flow goal pending seen)
  show ?case
  proof (cases "pending = []")
    case False
    let ?n = "last pending" and ?rest = "butlast pending"
    have set: "set pending = insert ?n (set ?rest)" using append_butlast_last_id [OF False] by (metis list.set_intros(1) rotate1.simps(2) set_rotate1 list.simps(15))
    show ?thesis
    proof (cases "?n \<in> set seen")
      case True
      then have "reach_loop edges flow goal pending seen = reach_loop edges flow goal ?rest seen"
        using False by (subst reach_loop.simps) (simp add: Let_def)
      also have "\<dots> \<longleftrightarrow> (\<exists>p \<in> set ?rest. \<exists>zs. route edges flow p goal (set seen) zs)"
        by (rule "1.IH"(1) [OF False refl refl True])
      also have "\<dots> \<longleftrightarrow> (\<exists>p \<in> set pending. \<exists>zs. route edges flow p goal (set seen) zs)"
        unfolding set using True by (auto dest: route_first)
      finally show ?thesis .
    next
      case new: False
      show ?thesis
      proof (cases "?n = goal")
        case True
        then have "reach_loop edges flow goal pending seen" using False new by (subst reach_loop.simps) (simp add: Let_def)
        moreover have "route edges flow ?n goal (set seen) [?n]" using True new by (simp add: route_def)
        ultimately show ?thesis unfolding set by blast
      next
        case other: False
        let ?succ = "flow_successors edges flow ?n"
        have "reach_loop edges flow goal pending seen = reach_loop edges flow goal (?rest @ ?succ) (?n # seen)"
          using False new other by (subst reach_loop.simps) (simp add: Let_def)
        also have "\<dots> \<longleftrightarrow> (\<exists>p \<in> set (?rest @ ?succ). \<exists>zs. route edges flow p goal (insert ?n (set seen)) zs)"
          using "1.IH"(2) [OF False refl refl new other] by simp
        also have "\<dots> \<longleftrightarrow> (\<exists>p \<in> set pending. \<exists>zs. route edges flow p goal (set seen) zs)"
        proof
          assume "\<exists>p \<in> set (?rest @ ?succ). \<exists>zs. route edges flow p goal (insert ?n (set seen)) zs"
          then show "\<exists>p \<in> set pending. \<exists>zs. route edges flow p goal (set seen) zs"
            unfolding set using route_mono route_cons [OF _ new] by (auto, blast+)
        next
          assume "\<exists>p \<in> set pending. \<exists>zs. route edges flow p goal (set seen) zs"
          then obtain p zs where p: "p \<in> set pending" "route edges flow p goal (set seen) zs" by blast
          show "\<exists>p \<in> set (?rest @ ?succ). \<exists>zs. route edges flow p goal (insert ?n (set seen)) zs"
          proof (cases "?n \<in> set zs")
            case True
            from route_after [OF p(2) True other] show ?thesis by auto
          next
            case False
            then have "p \<noteq> ?n" using p(2) by (cases zs) (auto simp: route_def)
            then show ?thesis using p False unfolding set by (auto simp: route_def)
          qed
        qed
        finally show ?thesis .
      qed
    qed
  qed (simp add: reach_loop.simps)
qed

text \<open>
  C28. The search for a route always ends and is exact: it succeeds when, and only when, there is a
  walk along edges of the flow from the start to the end none of whose nodes is blocked.
\<close>

theorem reachable_exact:
  "reachable edges start goal flow blocked \<longleftrightarrow> (\<exists>zs. route edges flow start goal (set blocked) zs)"
  by (simp add: reachable_def reach_loop_iff)


section \<open>The manifest\<close>

record graph_profile =
  gp_roles :: "string list"
  gp_flow_kinds :: "string list"
  gp_groups :: "string list"
  gp_role_layers :: "(string \<times> string list) list"
  gp_permitted :: "(string \<times> string \<times> string) list"

record graph_component =
  gc_id :: string
  gc_group :: string
  gc_sources :: "string list"
  gc_deployed :: bool

record graph_contract =
  gk_id :: string
  gk_kind :: string
  gk_sources :: "string list"

record graph_vertex =
  gv_id :: string
  gv_roles :: "string list"
  gv_components :: "string list"

record graph_channel =
  gn_id :: string
  gn_components :: "string list"
  gn_sources :: "string list"

record required_route =
  rr_id :: string
  rr_source :: string
  rr_target :: string
  rr_flow :: string
  rr_roles :: "string list"

record placement =
  pc_hosts :: "string list"
  pc_assignments :: "(string \<times> string list) list"

record manifest =
  mf_version :: string
  mf_profile :: graph_profile
  mf_components :: "graph_component list"
  mf_vertices :: "graph_vertex list"
  mf_contracts :: "graph_contract list"
  mf_channels :: "graph_channel list"
  mf_edges :: "graph_edge list"
  mf_routes :: "required_route list"
  mf_placement :: "placement option"

record reference =
  rf_profile :: graph_profile
  rf_routes :: "required_route list"

section \<open>Typed graph\<close>

text \<open>The values of \<open>{key(x): x for x in xs}\<close>.\<close>

definition keyed :: "('a \<Rightarrow> string) \<Rightarrow> 'a list \<Rightarrow> 'a list" where
  "keyed key xs = map snd (fold (\<lambda>x. AList.update (key x) x) xs [])"

definition profile_signature ::
  "graph_profile \<Rightarrow> string list \<times> string list \<times> string list \<times> (string \<times> string list) list \<times> (string \<times> string \<times> string) multiset" where
  "profile_signature p =
     (sort (gp_roles p), sort (gp_flow_kinds p), gp_groups p,
      sort_key fst (map (\<lambda>(k, v). (k, sort v)) (gp_role_layers p)), mset (gp_permitted p))"

definition when_error :: "bool \<Rightarrow> string \<Rightarrow> string list" where
  "when_error b e = (if b then [e] else [])"

definition id_errors :: "string \<Rightarrow> string list \<Rightarrow> string list" where
  "id_errors kind ids =
     when_error (length (remdups ids) \<noteq> length ids) (''duplicate IDs: '' @ kind) @
     when_error ([] \<in> set ids) (''invalid IDs: '' @ kind)"

definition edge_errors :: "graph_profile \<Rightarrow> manifest \<Rightarrow> graph_edge \<Rightarrow> string list" where
  "edge_errors profile M e =
     (let vertex = (\<lambda>i. find (\<lambda>v. gv_id v = i) (rev (mf_vertices M)));
          contract = find (\<lambda>c. gk_id c = ge_contract e) (rev (mf_contracts M)) in
      case (vertex (ge_source e), vertex (ge_target e)) of
        (Some a, Some b) \<Rightarrow>
          when_error (case contract of None \<Rightarrow> True | Some c \<Rightarrow> gk_kind c \<noteq> ge_flow e) (''edge contract kind mismatch: '' @ ge_id e) @
          when_error (ge_channels e = [] \<or> \<not> set (ge_channels e) \<subseteq> set (map gn_id (mf_channels M)))
            (''missing edge channel: '' @ ge_id e) @
          when_error (\<not> (\<exists>x \<in> set (gv_roles a). \<exists>y \<in> set (gv_roles b). (x, ge_flow e, y) \<in> set (gp_permitted profile)))
            (''forbidden role/flow triple: '' @ ge_id e)
      | _ \<Rightarrow> [''missing edge endpoint: '' @ ge_id e])"

definition source_errors :: "(string \<Rightarrow> bool) \<Rightarrow> string \<Rightarrow> string list \<Rightarrow> string list" where
  "source_errors in_repository i sources =
     when_error (sources = []) (''missing source binding: '' @ i) @
     concat (map (\<lambda>name. when_error (\<not> in_repository name) (''source missing or outside repository: '' @ name)) sources)"

definition graph_errors :: "(string \<Rightarrow> bool) \<Rightarrow> manifest \<Rightarrow> reference \<Rightarrow> string list" where
  "graph_errors in_repository M R =
     (let profile = rf_profile R; components = map gc_id (mf_components M) in
      id_errors ''components'' components @ id_errors ''vertices'' (map gv_id (mf_vertices M)) @
      id_errors ''contracts'' (map gk_id (mf_contracts M)) @ id_errors ''channels'' (map gn_id (mf_channels M)) @
      id_errors ''edges'' (map ge_id (mf_edges M)) @
      when_error (profile_signature (mf_profile M) \<noteq> profile_signature profile) ''profile differs from pinned reference'' @
      concat (map (\<lambda>c. when_error (gc_group c \<notin> set (''infrastructure'' # gp_groups profile)) (''undeclared group: '' @ gc_id c)) (mf_components M)) @
      concat (map (\<lambda>c. when_error (gk_kind c \<notin> set (gp_flow_kinds profile)) (''undeclared contract kind: '' @ gk_id c)) (keyed gk_id (mf_contracts M))) @
      concat (map (\<lambda>v.
        when_error (gv_roles v = [] \<or> \<not> set (gv_roles v) \<subseteq> set (gp_roles profile)) (''undeclared role: '' @ gv_id v) @
        when_error (gv_components v = [] \<or> \<not> set (gv_components v) \<subseteq> set components) (''unmapped component: '' @ gv_id v)) (keyed gv_id (mf_vertices M))) @
      concat (map (\<lambda>n. when_error (gn_components n = [] \<or> \<not> set (gn_components n) \<subseteq> set components)
        (''unmapped channel: '' @ gn_id n)) (mf_channels M)) @
      concat (map (edge_errors profile M) (mf_edges M)) @
      concat (map (\<lambda>c. source_errors in_repository (gc_id c) (gc_sources c)) (mf_components M)) @
      concat (map (\<lambda>c. source_errors in_repository (gk_id c) (gk_sources c)) (mf_contracts M)) @
      concat (map (\<lambda>n. source_errors in_repository (gn_id n) (gn_sources n)) (mf_channels M)))"

section \<open>Required routes\<close>

definition same_requirement :: "required_route option \<Rightarrow> required_route \<Rightarrow> bool" where
  "same_requirement actual r =
     (case actual of
        None \<Rightarrow> False
      | Some a \<Rightarrow> rr_source a = rr_source r \<and> rr_target a = rr_target r \<and> rr_flow a = rr_flow r \<and>
          set (rr_roles a) = set (rr_roles r))"

definition vertices_with :: "string \<Rightarrow> manifest \<Rightarrow> string list" where
  "vertices_with role M = map gv_id (filter (\<lambda>v. role \<in> set (gv_roles v)) (mf_vertices M))"

definition route_errors :: "manifest \<Rightarrow> required_route \<Rightarrow> string list" where
  "route_errors M r =
     when_error (\<not> same_requirement (find (\<lambda>a. rr_id a = rr_id r) (rev (mf_routes M))) r)
       (''missing or altered requirement: '' @ rr_id r) @
     (if rr_source r \<notin> set (map gv_id (mf_vertices M)) \<or> rr_target r \<notin> set (map gv_id (mf_vertices M)) \<or>
         \<not> reachable (mf_edges M) (rr_source r) (rr_target r) (rr_flow r) []
      then [''required route absent: '' @ rr_id r]
      else concat (map (\<lambda>role.
             when_error (reachable (mf_edges M) (rr_source r) (rr_target r) (rr_flow r) (vertices_with role M))
               (''role bypass: '' @ rr_id r @ '' / '' @ role)) (rr_roles r)))"

definition routes_check :: "manifest \<Rightarrow> reference \<Rightarrow> string list \<Rightarrow> conf_check" where
  "routes_check M R errors =
     (if rf_routes R = []
      then conf_result ''C02.required_routes'' CUnknown ''Cannot interpret required routes'' ''declared_manifest_only'' [] True
      else let bad = concat (map (route_errors M) (rf_routes R)) in
        conf_result ''C02.required_routes'' (if bad \<noteq> [] then CFail else if errors \<noteq> [] then CUnknown else CPass)
          ''Nonempty pinned routes and absence of declared namespace/executor bypasses'' ''declared_manifest_only''
          (map JStr bad) True)"

definition placement_check :: "manifest \<Rightarrow> conf_check" where
  "placement_check M =
     (let unknown = conf_result ''C13.declared_placement'' CUnknown ''Placement mapping incomplete'' ''declared_manifest_only'' [] True in
      case mf_placement M of
        None \<Rightarrow> unknown
      | Some p \<Rightarrow>
          if pc_hosts p = [] then unknown
          else let missing = map gc_id (filter (\<lambda>c. gc_deployed c \<and>
                   (case map_of (pc_assignments p) (gc_id c) of
                      None \<Rightarrow> True | Some hs \<Rightarrow> hs = [] \<or> \<not> set hs \<subseteq> set (pc_hosts p))) (mf_components M)) in
            conf_result ''C13.declared_placement'' (if missing \<noteq> [] then CFail else CPass)
              ''Every deployed component has a nonempty declared host set'' ''declared_manifest_only'' (map JStr missing) True)"

definition check_structure :: "(string \<Rightarrow> bool) \<Rightarrow> manifest option \<Rightarrow> reference \<Rightarrow> conf_check list" where
  "check_structure in_repository manifest R =
     (let missing =
        [conf_result ''C01.typed_graph'' CUnknown ''A nonempty mapping is missing'' ''declared_manifest_only'' [] True,
         conf_result ''C02.required_routes'' CUnknown ''Graph cannot be evaluated'' ''declared_manifest_only'' [] True] in
      case manifest of
        None \<Rightarrow>
          [conf_result ''C01.typed_graph'' CUnknown ''Cannot interpret mapping'' ''declared_manifest_only'' [] True,
           conf_result ''C02.required_routes'' CUnknown ''Malformed graph'' ''declared_manifest_only'' [] True]
      | Some M \<Rightarrow>
          if mf_version M \<noteq> ''1.0'' \<or> mf_components M = [] \<or> mf_vertices M = [] \<or> mf_contracts M = [] \<or>
             mf_channels M = [] \<or> mf_edges M = [] then missing
          else let errors = graph_errors in_repository M R in
            [conf_result ''C01.typed_graph'' (if errors \<noteq> [] then CFail else CPass)
               ''Typed signatures, roles, contracts, channels and source bindings'' ''declared_manifest_only'' (map JStr errors) True,
             routes_check M R errors, placement_check M,
             conf_result ''C13.runtime_placement'' CUnknown
               ''Runtime build/placement and distributed functional evidence not supplied'' ''runtime_deployment'' [] False])"

lemma when_error_Nil [simp]: "when_error b e = [] \<longleftrightarrow> \<not> b"
  by (simp add: when_error_def)

lemma concat_Nil: "concat (map f xs) = [] \<longleftrightarrow> (\<forall>x \<in> set xs. f x = [])"
  by (induction xs) auto

text \<open>
  A passed route check means that the declared graph has every required route, and that none of
  them can avoid a required role: each walk from the source to the target along the flow goes
  through a vertex of every role the route must include. The graph is well typed besides.
\<close>

theorem routes_pass_sound:
  assumes "c \<in> set (check_structure in_repository (Some M) R)" "cc_check c = ''C02.required_routes''" "cc_status c = CPass"
    and "r \<in> set (rf_routes R)"
  shows "graph_errors in_repository M R = [] \<and>
    (\<exists>zs. route (mf_edges M) (rr_flow r) (rr_source r) (rr_target r) {} zs) \<and>
    (\<forall>role \<in> set (rr_roles r). \<forall>zs. route (mf_edges M) (rr_flow r) (rr_source r) (rr_target r) {} zs \<longrightarrow>
       (\<exists>v \<in> set (mf_vertices M). gv_id v \<in> set zs \<and> role \<in> set (gv_roles v)))"
proof -
  have c: "c = routes_check M R (graph_errors in_repository M R)"
    using assms(1-3) by (auto simp: check_structure_def Let_def conf_result_def placement_check_def split: if_splits option.splits)
  have pass: "graph_errors in_repository M R = []" "\<forall>r \<in> set (rf_routes R). route_errors M r = []"
    using assms(3) c by (auto simp: routes_check_def Let_def conf_result_def concat_Nil split: if_splits)
  have e: "reachable (mf_edges M) (rr_source r) (rr_target r) (rr_flow r) []"
      "\<forall>role \<in> set (rr_roles r). \<not> reachable (mf_edges M) (rr_source r) (rr_target r) (rr_flow r) (vertices_with role M)"
    using bspec [OF pass(2) assms(4)] by (auto simp: route_errors_def concat_Nil split: if_splits)
  have "\<exists>v \<in> set (mf_vertices M). gv_id v \<in> set zs \<and> role \<in> set (gv_roles v)"
    if role: "role \<in> set (rr_roles r)" and zs: "route (mf_edges M) (rr_flow r) (rr_source r) (rr_target r) {} zs" for role zs
  proof -
    have "\<not> route (mf_edges M) (rr_flow r) (rr_source r) (rr_target r) (set (vertices_with role M)) zs"
      using e(2) role by (auto simp: reachable_def reach_loop_iff)
    then have "set zs \<inter> set (vertices_with role M) \<noteq> {}" using zs by (auto simp: route_def)
    then show ?thesis by (auto simp: vertices_with_def)
  qed
  moreover have "\<exists>zs. route (mf_edges M) (rr_flow r) (rr_source r) (rr_target r) {} zs"
    using e(1) by (simp add: reachable_def reach_loop_iff)
  ultimately show ?thesis using pass(1) by blast
qed

definition line_edge :: "string \<Rightarrow> string \<Rightarrow> string \<Rightarrow> graph_edge" where
  "line_edge i a b = \<lparr>ge_id = i, ge_source = a, ge_target = b, ge_flow = ''data'', ge_contract = ''k'', ge_channels = [''ch'']\<rparr>"

definition line_profile :: graph_profile where
  "line_profile = \<lparr>gp_roles = [''role''], gp_flow_kinds = [''data''], gp_groups = [''edge''], gp_role_layers = [],
     gp_permitted = [(''role'', ''data'', ''role'')]\<rparr>"

definition line_route :: required_route where
  "line_route = \<lparr>rr_id = ''r'', rr_source = ''a'', rr_target = ''c'', rr_flow = ''data'', rr_roles = [''role'']\<rparr>"

definition line_manifest :: manifest where
  "line_manifest =
     \<lparr>mf_version = ''1.0'', mf_profile = line_profile,
      mf_components = [\<lparr>gc_id = ''x'', gc_group = ''edge'', gc_sources = [''s''], gc_deployed = False\<rparr>],
      mf_vertices = map (\<lambda>i. \<lparr>gv_id = i, gv_roles = [''role''], gv_components = [''x'']\<rparr>) [''a'', ''b'', ''c''],
      mf_contracts = [\<lparr>gk_id = ''k'', gk_kind = ''data'', gk_sources = [''s'']\<rparr>],
      mf_channels = [\<lparr>gn_id = ''ch'', gn_components = [''x''], gn_sources = [''s'']\<rparr>],
      mf_edges = [line_edge ''1'' ''a'' ''b'', line_edge ''2'' ''b'' ''a'', line_edge ''3'' ''b'' ''c''], mf_routes = [line_route],
      mf_placement = None\<rparr>"

definition line_reference :: reference where
  "line_reference = \<lparr>rf_profile = line_profile, rf_routes = [line_route]\<rparr>"

theorem routes_pass_sound_witness:
  "(\<exists>zs. route (mf_edges line_manifest) ''data'' ''a'' ''c'' {} zs) \<and>
   graph_errors (\<lambda>_. True) line_manifest line_reference = []"
proof -
  have reach: "reachable (mf_edges line_manifest) ''a'' ''c'' ''data'' []"
    unfolding reachable_def
    by (simp add: reach_loop.simps Let_def line_manifest_def line_edge_def flow_successors_def)
  have blocked: "\<not> reachable (mf_edges line_manifest) ''a'' ''c'' ''data'' (vertices_with ''role'' line_manifest)"
    unfolding reachable_def
    by (simp add: reach_loop.simps Let_def line_manifest_def vertices_with_def)
  have errors: "graph_errors (\<lambda>_. True) line_manifest line_reference = []" by code_simp
  have r: "line_route \<in> set (rf_routes line_reference)" by (simp add: line_reference_def)
  have re: "route_errors line_manifest line_route = []"
    using reach blocked by (simp add: route_errors_def line_route_def same_requirement_def line_manifest_def)
  let ?c = "routes_check line_manifest line_reference []"
  have "cc_status ?c = CPass" using re by (simp add: routes_check_def conf_result_def line_reference_def)
  moreover have "cc_check ?c = ''C02.required_routes''" by (simp add: routes_check_def conf_result_def Let_def)
  moreover have "?c \<in> set (check_structure (\<lambda>_. True) (Some line_manifest) line_reference)"
    using errors by (simp add: check_structure_def line_manifest_def Let_def)
  ultimately show ?thesis using routes_pass_sound [OF _ _ _ r] by (fastforce simp: line_route_def)
qed

end
