(* ===== verification/Conformance_Execution.thy ===== *)
theory Conformance_Execution
  imports Conformance_Order Effects
begin

text \<open>
  The conformance checker, its execution rules (\<open>check_execution\<close> of \<open>scripts/conformance.py\<close>): the
  integrity of the records, the stages of a command, and for every write the policy, the admission,
  the deadline, the number of initiations, the binding, the meaning of the outcomes and the feedback
  of the process. The checks are collected in a list; an exception outside the checker's handlers
  leaves it.
\<close>

definition emit :: "conf_check \<Rightarrow> (conf_check list, unit) act" where
  "emit c = putS (\<lambda>cs. cs @ [c])"

text \<open>\<open>except (KeyError, TypeError, ValueError)\<close>.\<close>

definition rescue :: "('w, 'a) act \<Rightarrow> ('w, 'a) act \<Rightarrow> ('w, 'a) act" where
  "rescue m h = tryS m (\<lambda>e. if malformed e then h else raiseS e) retS"

fun forS :: "'x list \<Rightarrow> ('x \<Rightarrow> ('w, unit) act) \<Rightarrow> ('w, unit) act" where
  "forS [] f = retS ()"
| "forS (x # xs) f = thenS (f x) (forS xs f)"

section \<open>Integrity of the records\<close>

definition nonempty_str :: "json \<Rightarrow> bool" where
  "nonempty_str v \<longleftrightarrow> is_str v \<and> j_truthy v"

definition checkE :: "bool res \<Rightarrow> string \<Rightarrow> unit res" where
  "checkE c msg = bindE c (\<lambda>b. guardE b (ValueError msg))"

text \<open>What a record has to have; the result is its id and its text without the member \<open>source\<close>.\<close>

definition record_text :: "checker \<Rightarrow> json \<Rightarrow> (json \<times> json) res" where
  "record_text K row =
     bindE (checkE (andE (eqE (j_get row ''event'') (Inr (JStr ''command_execution'')))
                      (eqE (j_get row ''execution_schema'') (Inr (JStr ''1.0'')))) ''unsupported record'') (\<lambda>_.
     bindE (mapE (\<lambda>key. bindE (j_get row key) (\<lambda>v. guardE (nonempty_str v) (ValueError ''missing identity'')))
              [''record_id'', ''component'', ''action'', ''correlation_id'', ''process_instance'']) (\<lambda>_.
     bindE (checkE (bindE (j_get row ''monotonic_ns'') (\<lambda>v. Inr (case v of JInt n \<Rightarrow> 0 \<le> n | _ \<Rightarrow> False)))
              ''invalid monotonic time'') (\<lambda>_.
     bindE (checkE (bindE (j_get row ''correlation_id'') (\<lambda>v. Inr (case j_text K v of
                         Some s \<Rightarrow> is_valid_correlation_id s | None \<Rightarrow> False))) ''invalid command ID'') (\<lambda>_.
     bindE (bindE (j_get row ''recorded_at'') aware_time) (\<lambda>_.
     bindE (canonical (JObj (filter (\<lambda>(k, v). k \<noteq> ''source'') (obj_members row)))) (\<lambda>text.
     bindE (j_get row ''record_id'') (\<lambda>rid. Inr (rid, text))))))))"

record clean_state =
  cl_clean :: "json list"
  cl_seen :: "(json \<times> json) list"
  cl_issues :: "json list"
  cl_conflicts :: "json list"

definition clean_step :: "checker \<Rightarrow> json \<Rightarrow> clean_state \<Rightarrow> clean_state res" where
  "clean_step K row s =
     (case record_text K row of
        Inl e \<Rightarrow> if malformed e then Inr (s\<lparr>cl_issues := cl_issues s @ [JStr ''Invalid or incomplete execution record'']\<rparr>) else Inl e
      | Inr (rid, text) \<Rightarrow>
          (case map_of (cl_seen s) rid of
             Some old \<Rightarrow> Inr (if old \<noteq> text then s\<lparr>cl_conflicts := cl_conflicts s @ [rid]\<rparr> else s)
           | None \<Rightarrow> Inr (s\<lparr>cl_seen := cl_seen s @ [(rid, text)], cl_clean := cl_clean s @ [row]\<rparr>)))"

fun clean_records :: "checker \<Rightarrow> json list \<Rightarrow> clean_state \<Rightarrow> clean_state res" where
  "clean_records K [] s = Inr s"
| "clean_records K (row # rows) s = bindE (clean_step K row s) (clean_records K rows)"

definition record_integrity :: "clean_state \<Rightarrow> conf_check" where
  "record_integrity s =
     conf_result ''C12.record_integrity''
       (if cl_conflicts s \<noteq> [] then CFail else if cl_issues s \<noteq> [] \<or> cl_clean s = [] then CUnknown else CPass)
       ''Parseable attributable records; identical record IDs deduplicated'' ''supplied_records''
       (cl_conflicts s @ cl_issues s) True"

section \<open>The stages of a command\<close>

text \<open>The member of a clean record; clean records are objects that have their identity.\<close>

definition member :: "string \<Rightarrow> json \<Rightarrow> json" where
  "member k row = (case row of JObj d \<Rightarrow> (case map_of d k of Some v \<Rightarrow> v | None \<Rightarrow> JNull) | _ \<Rightarrow> JNull)"

definition has_action :: "string \<Rightarrow> json \<Rightarrow> bool" where
  "has_action a row = j_eq (member ''action'' row) (JStr a)"

definition required_stages :: "json list \<Rightarrow> string list" where
  "required_stages rows =
     [''request_received'', ''pipeline_received'', ''validation_decided'', ''outcome_published''] @
     (if \<exists>r \<in> set rows. has_action ''writer_result'' r then [''writer_result''] else []) @
     (if \<exists>r \<in> set rows. has_action ''writer_result'' r \<and> j_eq (member ''outcome'' r) (JStr ''completed'') \<and>
           \<not> j_truthy (member ''replayed'' r)
      then [''executor_admitted'', ''write_initiated'', ''device_acknowledged''] else [])"

definition missing_stages :: "json list \<Rightarrow> string list" where
  "missing_stages rows = sort (filter (\<lambda>a. \<not> (\<exists>r \<in> set rows. has_action a r)) (required_stages rows))"

text \<open>\<open>Counter(r["action"] for r in rows)\<close>.\<close>

definition action_counts :: "checker \<Rightarrow> json list \<Rightarrow> doc" where
  "action_counts K rows =
     fold (\<lambda>r counts. case j_text K (member ''action'' r) of
        None \<Rightarrow> counts
      | Some a \<Rightarrow> AList.update a (JInt (case map_of counts a of Some (JInt n) \<Rightarrow> n + 1 | _ \<Rightarrow> 1)) counts) rows []"

definition stage_coverage :: "checker \<Rightarrow> json \<Rightarrow> json list \<Rightarrow> conf_check" where
  "stage_coverage K command_id rows =
     conf_result ''C12.stage_coverage'' (if missing_stages rows \<noteq> [] then CUnknown else CPass)
       ''Required observed stages for this command; counts retained separately from completeness'' ''supplied_records''
       [command_id, JObj [(''missing_actions'', JArr (map JStr (missing_stages rows))),
                          (''action_counts'', JObj (action_counts K rows))]] True"

section \<open>Admission of a write\<close>

definition lookupE :: "json \<Rightarrow> string \<Rightarrow> json res" where
  "lookupE row k = j_lookup row k"

definition is_true :: "json res \<Rightarrow> bool res" where
  "is_true v = bindE v (\<lambda>x. Inr (x = JBool True))"

definition truthyE :: "json res \<Rightarrow> bool res" where
  "truthyE v = bindE v (\<lambda>x. Inr (j_truthy x))"

definition admissions :: "checker \<Rightarrow> json \<Rightarrow> json list \<Rightarrow> json \<Rightarrow> json list res" where
  "admissions K reference rows write =
     filterE (\<lambda>r.
       andE (eqE (j_get r ''action'') (Inr (JStr ''executor_admitted'')))
      (andE (eqE (j_get r ''component'') (j_get reference ''writer''))
      (andE (eqE (j_get r ''process_instance'') (j_get write ''process_instance''))
      (andE (truthyE (lookupE r ''attempt_id''))
      (andE (eqE (lookupE r ''attempt_id'') (lookupE write ''attempt_id''))
      (andE (same_binding r write)
            (before_is (Some True) K r write))))))) rows"

definition decisions :: "json \<Rightarrow> json list \<Rightarrow> json list res" where
  "decisions reference rows =
     filterE (\<lambda>r. andE (eqE (j_get r ''component'') (j_get reference ''validator''))
                       (eqE (j_get r ''action'') (Inr (JStr ''validation_decided'')))) rows"

text \<open>The only admission, if the time of its approval can be read.\<close>

definition admitted_row :: "json list \<Rightarrow> json option res" where
  "admitted_row matches =
     (case matches of
        [r] \<Rightarrow>
          (case bindE (j_get r ''approval_issued_at'') aware_time of
             Inr t \<Rightarrow> Inr (Some r)
           | Inl e \<Rightarrow> if malformed e then Inr None else Inl e)
      | _ \<Rightarrow> Inr None)"

definition decision_is :: "string \<Rightarrow> json \<Rightarrow> bool res" where
  "decision_is d r = eqE (lookupE r ''decision'') (Inr (JStr d))"

definition approvals :: "json \<Rightarrow> json option \<Rightarrow> json \<Rightarrow> json list \<Rightarrow> json list res" where
  "approvals reference admitted write ds =
     filterE (\<lambda>r.
       andE (decision_is ''approve'' r)
      (andE (eqE (lookupE r ''approved_writer'') (j_get reference ''writer''))
      (andE (same_binding r write)
            (case admitted of
               None \<Rightarrow> Inr False
             | Some a \<Rightarrow> andE (truthyE (lookupE r ''approval_issued_at''))
                           (eqE (lookupE r ''approval_issued_at'') (lookupE a ''approval_issued_at'')))))) ds"

text \<open>Three equal texts of 64 characters, \<open>r == write == admitted\<close>.\<close>

definition same_digest :: "checker \<Rightarrow> string \<Rightarrow> json \<Rightarrow> json \<Rightarrow> json \<Rightarrow> bool res" where
  "same_digest K key r write admitted =
     andE (bindE (lookupE write key) (\<lambda>v. Inr (case j_text K v of Some s \<Rightarrow> length s = 64 | None \<Rightarrow> False)))
       (andE (eqE (lookupE r key) (j_get write key)) (eqE (j_get write key) (lookupE admitted key)))"

definition causal_approvals :: "checker \<Rightarrow> json option \<Rightarrow> json \<Rightarrow> json list \<Rightarrow> json list res" where
  "causal_approvals K admitted write as =
     filterE (\<lambda>r. case admitted of
        None \<Rightarrow> Inr False
      | Some a \<Rightarrow>
          andE (is_true (lookupE write ''approval_verified''))
         (andE (is_true (lookupE a ''approval_verified''))
         (andE (is_true (lookupE r ''ingress_verified''))
         (andE (same_digest K ''approval_fingerprint'' r write a)
               (same_digest K ''command_digest'' r write a))))) as"

text \<open>A refusal known to lie between the approval and the write, and a decision whose order is open.\<close>

definition refused_between :: "checker \<Rightarrow> json list \<Rightarrow> json \<Rightarrow> json list \<Rightarrow> bool res" where
  "refused_between K ordered write ds =
     (case ordered of
        [] \<Rightarrow> Inr False
      | first # _ \<Rightarrow>
          notE (allE (\<lambda>r. notE (andE (decision_is ''reject'' r) (andE (same_binding r write)
             (andE (before_is (Some True) K first r) (before_is (Some True) K r write))))) ds))"

definition open_order :: "checker \<Rightarrow> json \<Rightarrow> json list \<Rightarrow> json \<Rightarrow> json list \<Rightarrow> bool res" where
  "open_order K reference causal write ds =
     notE (allE (\<lambda>r. notE (andE (before_is None K r write)
       (notE (andE (Inr (causal \<noteq> [])) (andE (decision_is ''approve'' r) (andE (same_binding r write)
          (eqE (lookupE r ''approved_writer'') (j_get reference ''writer'')))))))) ds)"

definition admission_status :: "checker \<Rightarrow> json \<Rightarrow> json list \<Rightarrow> json \<Rightarrow> json option \<Rightarrow> json list \<Rightarrow> json list \<Rightarrow> conf_status res" where
  "admission_status K reference ds write admitted ordered causal =
     (let s0 = (if admitted \<noteq> None \<and> (ordered \<noteq> [] \<or> causal \<noteq> []) then CPass else CUnknown) in
      bindE (refused_between K ordered write ds) (\<lambda>refused.
      let s1 = (if refused then CFail else s0) in
      bindE (open_order K reference causal write ds) (\<lambda>open.
        Inr (if open then (if s1 \<noteq> CFail then CUnknown else CFail) else s1))))"

definition deadline_status :: "json \<Rightarrow> conf_status res" where
  "deadline_status write =
     bindE (bindE (j_get write ''deadline'') aware_time) (\<lambda>deadline.
     bindE (uncertainty write) (\<lambda>u.
     bindE (bindE (j_get write ''recorded_at'') aware_time) (\<lambda>t.
       Inr (case u of
              None \<Rightarrow> CUnknown
            | Some u \<Rightarrow> (let remaining = secs (dt_us deadline - dt_us t) in
                if u \<le> remaining then CPass else if remaining < - u then CFail else CUnknown)))))"

definition policy_status :: "checker \<Rightarrow> json \<Rightarrow> json list \<Rightarrow> json \<Rightarrow> conf_status res" where
  "policy_status K reference policies write =
     bindE (andE (eqE (j_get write ''component'') (j_get reference ''writer'')) (valid_policy K policies write)) (\<lambda>ok.
     bindE (andE (Inr (policies = [])) (eqE (j_get write ''component'') (j_get reference ''writer''))) (\<lambda>open.
       Inr (if open then CUnknown else if ok then CPass else CFail)))"

definition check_write :: "checker \<Rightarrow> json \<Rightarrow> json list \<Rightarrow> json \<Rightarrow> json list \<Rightarrow> json \<Rightarrow> (conf_check list, unit) act" where
  "check_write K reference policies command_id rows write =
     bindS (liftS (j_get write ''record_id'')) (\<lambda>rid.
     let ev = [command_id, rid] in
     rescue
       (bindS (liftS (admissions K reference rows write)) (\<lambda>matches.
        bindS (liftS (decisions reference rows)) (\<lambda>ds.
        bindS (liftS (admitted_row matches)) (\<lambda>admitted.
        bindS (liftS (approvals reference admitted write ds)) (\<lambda>approved.
        bindS (liftS (policy_status K reference policies write)) (\<lambda>ps.
        thenS (emit (conf_result ''C07.write_policy'' ps
                 ''Observed writer, target, authority allowlist, types and parameters under pinned configuration''
                 ''trusted_component_records'' ev True))
        (bindS (liftS (filterE (\<lambda>r. before_is (Some True) K r write) approved)) (\<lambda>ordered.
        bindS (liftS (causal_approvals K admitted write approved)) (\<lambda>causal.
        bindS (liftS (admission_status K reference ds write admitted ordered causal)) (\<lambda>status.
        thenS (emit (conf_result ''C07.admission'' status
                 ''Matching writer admission and attributable prior validator approval; ambiguous ordering remains unknown''
                 ''trusted_component_records'' ev True))
        (bindS (liftS (deadline_status write)) (\<lambda>status.
           emit (conf_result ''C08.deadline'' status ''UTC write-initiation interval compared with bound deadline''
                   ''observed_write_boundary'' ev True)))))))))))))
       (thenS (emit (conf_result ''C07.admission'' CUnknown ''Admission or command evidence incomplete'' ''supplied_records'' ev True))
          (emit (conf_result ''C08.deadline'' CUnknown ''Deadline or initiation evidence incomplete'' ''supplied_records'' ev True))))"

section \<open>Initiations, bindings, outcomes and feedback\<close>

fun pairs :: "'a list \<Rightarrow> ('a \<times> 'a) list" where
  "pairs [] = []"
| "pairs (x # xs) = map (Pair x) xs @ pairs xs"

definition retention :: "json \<Rightarrow> pyfloat res" where
  "retention reference = bindE (j_get reference ''retention_seconds'') float_of_num"

definition pair_status :: "checker \<Rightarrow> json \<Rightarrow> json \<times> json \<Rightarrow> conf_status res" where
  "pair_status K reference p =
     bindE (retention reference) (\<lambda>seconds. bindE (within_window K seconds (fst p) (snd p)) (\<lambda>inside.
       Inr (if inside = Some True then CFail else CUnknown)))"

definition states_verdict :: "conf_status list \<Rightarrow> json list \<Rightarrow> conf_status" where
  "states_verdict states rows = verdict (if states \<noteq> [] then states else if rows \<noteq> [] then [CPass] else [CUnknown])"

definition check_initiations :: "checker \<Rightarrow> json \<Rightarrow> json \<Rightarrow> json list \<Rightarrow> (conf_check list, unit) act" where
  "check_initiations K reference command_id writes =
     bindS (liftS (mapE (pair_status K reference) (pairs writes))) (\<lambda>states.
     bindS (liftS (j_get reference ''retention_seconds'')) (\<lambda>seconds.
       emit (conf_result ''C09.initiations'' (states_verdict states writes)
         ''At most one observed application initiation per ID within the declared retention interval; native frames are not separate initiations''
         ''observed_initiations_only''
         [command_id, JObj [(''observed_initiations'', JInt (int (length writes))), (''retention_seconds'', seconds)]] True)))"

definition binding_states :: "checker \<Rightarrow> json \<Rightarrow> json list \<Rightarrow> conf_status list res" where
  "binding_states K reference bound =
     bindE (mapE (\<lambda>p. bindE (same_binding (fst p) (snd p)) (\<lambda>same.
              if same then Inr [] else bindE (pair_status K reference p) (\<lambda>s. Inr [s]))) (pairs bound)) (\<lambda>sss.
       Inr (concat sss))"

definition bound_rows :: "json list \<Rightarrow> json list" where
  "bound_rows rows =
     filter (\<lambda>r. has_action ''executor_admitted'' r \<or> has_action ''write_initiated'' r \<or>
       has_action ''writer_result'' r \<and> j_eq (member ''outcome'' r) (JStr ''completed'')) rows"

definition check_binding :: "checker \<Rightarrow> json \<Rightarrow> json \<Rightarrow> json list \<Rightarrow> (conf_check list, unit) act" where
  "check_binding K reference command_id rows =
     rescue
       (bindS (liftS (binding_states K reference (bound_rows rows))) (\<lambda>states.
          emit (conf_result ''C09.binding'' (states_verdict states (bound_rows rows))
            ''Admitted/executed target, value, type, requester and times remain immutable within retention; declined conflicting requests are excluded''
            ''recorded_command_fields'' [command_id] True)))
       (emit (conf_result ''C09.binding'' CUnknown ''Immutable command fields incomplete'' ''supplied_records'' [command_id] True))"

definition is_one_of :: "json \<Rightarrow> string list \<Rightarrow> bool" where
  "is_one_of v names = list_ex (\<lambda>s. j_eq v (JStr s)) names"

definition acknowledged_at :: "json \<Rightarrow> bool res" where
  "acknowledged_at row =
     (case bindE (j_get row ''written_at'') aware_time of
        Inr t \<Rightarrow> Inr True
      | Inl e \<Rightarrow> if malformed e then Inr False else Inl e)"

definition bad_outcomes :: "json \<Rightarrow> json list res" where
  "bad_outcomes row =
     (let outcome = member ''outcome'' row;
          permitted = (if has_action ''writer_result'' row
                       then [''completed'', ''not_executed'', ''pending'', ''unknown'', ''conflict'']
                       else [''approve'', ''reject'', ''pending'', ''unknown''])
      in bindE (if is_one_of outcome [''completed'', ''approve''] then acknowledged_at row else Inr True) (\<lambda>timed.
           Inr (replicate ((if is_one_of outcome permitted then 0 else 1) + (if timed then 0 else 1) +
                  (if is_one_of outcome [''reject''] \<and> is_one_of (member ''reason'' row)
                       [''write_timeout'', ''write_transport_error'', ''bad_write_reply'', ''ledger_unavailable'', ''ledger_failure'']
                   then 1 else 0)) (member ''record_id'' row))))"

definition check_outcomes :: "json \<Rightarrow> json list \<Rightarrow> (conf_check list, unit) act" where
  "check_outcomes command_id rows =
     (let outcomes = filter (\<lambda>r. has_action ''writer_result'' r \<or> has_action ''outcome_published'' r) rows in
      bindS (liftS (mapE bad_outcomes outcomes)) (\<lambda>bads.
        let bad = concat bads in
        emit (conf_result ''C10.outcome_meaning''
          (if bad \<noteq> [] then CFail else if outcomes \<noteq> [] then CPass else CUnknown)
          ''Typed outcomes: uncertainty is not known refusal; acknowledged completion needs its own timestamp''
          ''reported_outcome_representation'' (command_id # bad) True)))"

definition time_ge :: "json \<Rightarrow> string \<Rightarrow> string \<Rightarrow> bool res" where
  "time_ge row a b =
     bindE (bindE (j_get row a) aware_time) (\<lambda>t. bindE (bindE (j_get row b) aware_time) (\<lambda>s. Inr (dt_us s \<le> dt_us t)))"

definition feedback_ok :: "checker \<Rightarrow> json \<Rightarrow> json \<Rightarrow> bool option res" where
  "feedback_ok K reference row =
     bindE (j_get reference ''controls'') (\<lambda>cs. bindE (j_iter K cs) (\<lambda>controls.
     bindE (first_match (\<lambda>c. eqE (j_get c ''id'') (Inr (JStr ''reject''))) controls) (\<lambda>found.
       case found of
         None \<Rightarrow> Inr None
       | Some c \<Rightarrow>
           bindE (j_get c ''command_topics'') (\<lambda>topics.
           bindE (andE (eqE (j_get row ''component'') (j_get reference ''process_observer''))
                 (andE (bindE (lookupE row ''inspection_id'') (\<lambda>v. Inr (nonempty_str v)))
                 (andE (bindE (j_get row ''target'') (j_contains K topics))
                 (andE (eqE (lookupE row ''evidence_scope'') (Inr (JStr ''simulator_feedback'')))
                 (andE (allE (\<lambda>k. bindE (j_get row k) (\<lambda>v. Inr (is_int v)))
                          [''observed_bottle'', ''observed_count'', ''baseline_count'', ''requested_value''])
                 (andE (eqE (j_get row ''observed_bottle'') (j_get row ''requested_value''))
                 (andE (lessE K (j_get row ''baseline_count'') (j_get row ''observed_count''))
                 (andE (time_ge row ''bottle_observed_at'' ''requested_at'')
                       (time_ge row ''count_observed_at'' ''requested_at''))))))))) (\<lambda>ok. Inr (Some ok))))))"

text \<open>No \<open>reject\<close> control in the reference is \<open>StopIteration\<close>, which is caught like a missing field.\<close>

definition check_feedback :: "checker \<Rightarrow> json \<Rightarrow> json \<Rightarrow> json \<Rightarrow> (conf_check list, unit) act" where
  "check_feedback K reference command_id row =
     (let unknown = emit (conf_result ''C06.feedback'' CUnknown ''Process feedback fields incomplete'' ''supplied_records''
                            [command_id] True) in
      if \<not> has_action ''process_observed'' row then retS ()
      else rescue
        (bindS (liftS (feedback_ok K reference row)) (\<lambda>ok.
         case ok of
           None \<Rightarrow> unknown
         | Some ok \<Rightarrow>
             bindS (liftS (j_get row ''record_id'')) (\<lambda>rid.
               emit (conf_result ''C06.feedback'' (if ok then CPass else CFail)
                 ''Recorded bottle-specific counter/identity feedback, not transport acknowledgement''
                 ''reported_simulator_feedback'' [command_id, rid] True))))
        unknown)"

section \<open>All commands\<close>

definition no_write_checks :: "json \<Rightarrow> json list \<Rightarrow> (conf_check list, unit) act" where
  "no_write_checks command_id writes =
     (if writes \<noteq> [] then retS ()
      else forS [''C07.admission'', ''C08.deadline''] (\<lambda>name.
        emit (conf_result name CUnknown ''No observed write initiation in this command trace'' ''supplied_records'' [command_id] True)))"

definition check_command :: "checker \<Rightarrow> json \<Rightarrow> json list \<Rightarrow> json \<Rightarrow> json list \<Rightarrow> (conf_check list, unit) act" where
  "check_command K reference policies command_id rows =
     (let writes = filter (has_action ''write_initiated'') rows in
      thenS (emit (stage_coverage K command_id rows))
     (thenS (forS writes (check_write K reference policies command_id rows))
     (thenS (no_write_checks command_id writes)
     (thenS (check_initiations K reference command_id writes)
     (thenS (check_binding K reference command_id rows)
     (thenS (check_outcomes command_id rows)
            (forS rows (check_feedback K reference command_id))))))))"

text \<open>\<open>grouped[row["correlation_id"]].append(row)\<close>.\<close>

definition group_rows :: "json list \<Rightarrow> (json \<times> json list) list" where
  "group_rows rows =
     map (\<lambda>cid. (cid, filter (\<lambda>r. member ''correlation_id'' r = cid) rows)) (rev (remdups (rev (map (member ''correlation_id'') rows))))"

definition check_execution :: "checker \<Rightarrow> json \<Rightarrow> json list \<Rightarrow> json list \<Rightarrow> (conf_check list, unit) act" where
  "check_execution K reference policies records =
     bindS (liftS (clean_records K records \<lparr>cl_clean = [], cl_seen = [], cl_issues = [], cl_conflicts = []\<rparr>)) (\<lambda>s.
     let groups = group_rows (cl_clean s) in
     thenS (emit (record_integrity s))
    (thenS (forS groups (\<lambda>(cid, rows). check_command K reference policies cid rows))
    (thenS (if groups \<noteq> [] then retS ()
            else forS [''C07.admission'', ''C08.deadline'', ''C09.initiations'', ''C09.binding'', ''C10.outcome_meaning''] (\<lambda>name.
              emit (conf_result name CUnknown ''No usable command trace supplied'' ''runtime_evidence'' [] False)))
       (emit (conf_result ''C09.complete_history'' CUnknown
          ''Required restart/retention boundary cases and complete initiation history are not established by this package''
          ''selected_recovery_policy'' [] False)))))"


section \<open>What a passed check establishes\<close>

lemma keeps_lift: "(\<And>a. r = Inr a \<Longrightarrow> keeps I (f a)) \<Longrightarrow> keeps I (bindS (liftS r) f)"
  by (cases r) (auto simp: keeps_def)

lemma keeps_emit: "(\<And>cs. I cs \<Longrightarrow> I (cs @ [c])) \<Longrightarrow> keeps I (emit c)"
  by (simp add: emit_def keeps_def)

lemma keeps_rescue: "keeps I m \<Longrightarrow> keeps I h \<Longrightarrow> keeps I (rescue m h)"
  unfolding rescue_def by (auto intro!: keeps_tryS keeps_cond keeps_basic)

lemma keeps_forS: "(\<And>x. x \<in> set xs \<Longrightarrow> keeps I (f x)) \<Longrightarrow> keeps I (forS xs f)"
  by (induction xs) (auto intro!: keeps_bindS keeps_basic)

lemma j_get_member: "j_get r k = Inr v \<Longrightarrow> member k r = v"
  by (cases r) (auto simp: member_def dkey_def split: option.splits)

definition only_if :: "string \<Rightarrow> (conf_check \<Rightarrow> bool) \<Rightarrow> conf_check \<Rightarrow> bool" where
  "only_if name P c \<longleftrightarrow> (cc_check c = name \<and> cc_status c = CPass \<longrightarrow> P c)"

definition all_checks :: "(conf_check \<Rightarrow> bool) \<Rightarrow> conf_check list \<Rightarrow> bool" where
  "all_checks P cs \<longleftrightarrow> (\<forall>c \<in> set cs. P c)"

lemma keeps_emit_all: "P c \<Longrightarrow> keeps (all_checks P) (emit c)"
  by (rule keeps_emit) (simp add: all_checks_def)

text \<open>
  A property of single checks holds of all of them if it holds of those a command can lead to. The
  first three premises are the checks on the records, the others the parts of a command.
\<close>

lemma check_execution_all:
  assumes "\<And>s. P (record_integrity s)" "\<And>cid rows. P (stage_coverage K cid rows)"
    and "\<And>name reason scope ev ex. P (conf_result name CUnknown reason scope ev ex)"
    and "\<And>cid rows write. rows = filter (\<lambda>r. member ''correlation_id'' r = cid) (cl_clean s) \<Longrightarrow> write \<in> set rows \<Longrightarrow>
           has_action ''write_initiated'' write \<Longrightarrow> keeps (all_checks P) (check_write K reference policies cid rows write)"
    and "\<And>cid rows. rows = filter (\<lambda>r. member ''correlation_id'' r = cid) (cl_clean s) \<Longrightarrow>
           keeps (all_checks P) (check_initiations K reference cid (filter (has_action ''write_initiated'') rows))"
    and "\<And>cid rows. keeps (all_checks P) (check_binding K reference cid rows)"
    and "\<And>cid rows. keeps (all_checks P) (check_outcomes cid rows)"
    and "\<And>cid row. keeps (all_checks P) (check_feedback K reference cid row)"
    and "clean_records K records \<lparr>cl_clean = [], cl_seen = [], cl_issues = [], cl_conflicts = []\<rparr> = Inr s"
    and "check_execution K reference policies records [] = (cs, r)" "c \<in> set cs"
  shows "P c"
proof -
  have unknowns: "keeps (all_checks P) (forS names (\<lambda>name. emit (conf_result name CUnknown reason scope ev ex)))"
    for names reason scope ev ex
    by (rule keeps_forS, rule keeps_emit_all, rule assms(3))
  have command: "keeps (all_checks P) (check_command K reference policies cid rows)" if "(cid, rows) \<in> set (group_rows (cl_clean s))" for cid rows
  proof -
    have rows: "rows = filter (\<lambda>r. member ''correlation_id'' r = cid) (cl_clean s)" using that by (auto simp: group_rows_def)
    show ?thesis unfolding check_command_def Let_def no_write_checks_def
      by (intro keeps_bindS keeps_forS keeps_cond keeps_basic keeps_emit_all assms(2-8) rows) (auto simp: rows)
  qed
  have "keeps (all_checks P) (check_execution K reference policies records)"
    unfolding check_execution_def Let_def
    by (rule keeps_lift, simp only: assms(9) sum.inject)
       (auto intro!: keeps_bindS keeps_emit_all assms(1,3) keeps_forS keeps_cond keeps_basic command)
  then have "all_checks P cs" using assms(10) unfolding keeps_def all_checks_def by (metis empty_iff fst_conv list.set(1))
  then show ?thesis using assms(11) by (simp add: all_checks_def)
qed

text \<open>Checks of other names do not matter.\<close>

lemma only_if_other: "cc_check c \<noteq> name \<Longrightarrow> only_if name P c"
  by (simp add: only_if_def)

lemma only_if_unknown: "only_if name P (conf_result n CUnknown reason scope ev ex)"
  by (simp add: only_if_def conf_result_def)

lemma conf_result_simps [simp]:
  "cc_check (conf_result n s reason scope ev ex) = n" "cc_status (conf_result n s reason scope ev ex) = s"
  "cc_evidence (conf_result n s reason scope ev ex) = ev"
  by (simp_all add: conf_result_def)

lemma integrity_name [simp]: "cc_check (record_integrity s) = ''C12.record_integrity''"
  by (simp add: record_integrity_def)

lemma coverage_name [simp]: "cc_check (stage_coverage K cid rows) = ''C12.stage_coverage''"
  by (simp add: stage_coverage_def)

lemma binding_other: "name \<noteq> ''C09.binding'' \<Longrightarrow> keeps (all_checks (only_if name P)) (check_binding K reference cid rows)"
  unfolding check_binding_def
  by (intro keeps_rescue keeps_bindS keeps_basic keeps_emit_all only_if_unknown) (auto intro: only_if_other)

lemma outcomes_other: "name \<noteq> ''C10.outcome_meaning'' \<Longrightarrow> keeps (all_checks (only_if name P)) (check_outcomes cid rows)"
  unfolding check_outcomes_def Let_def
  by (intro keeps_bindS keeps_basic keeps_emit_all) (auto intro: only_if_other)

lemma feedback_other: "name \<noteq> ''C06.feedback'' \<Longrightarrow> keeps (all_checks (only_if name P)) (check_feedback K reference cid row)"
  unfolding check_feedback_def Let_def
  by (intro keeps_cond keeps_rescue keeps_bindS keeps_option keeps_basic keeps_emit_all only_if_unknown)
     (auto intro: only_if_other)

lemma initiations_other:
  "name \<noteq> ''C09.initiations'' \<Longrightarrow> keeps (all_checks (only_if name P)) (check_initiations K reference cid writes)"
  unfolding check_initiations_def
  by (intro keeps_bindS keeps_basic keeps_emit_all) (auto intro: only_if_other)

lemma check_write_all:
  assumes "\<And>rid. j_get write ''record_id'' = Inr rid \<Longrightarrow>
      (\<forall>ps reason scope. P (conf_result ''C07.write_policy'' ps reason scope [cid, rid] True)) \<and>
      (\<forall>matches ds admitted approved ordered causal status reason scope.
         admissions K reference rows write = Inr matches \<longrightarrow> decisions reference rows = Inr ds \<longrightarrow>
         admitted_row matches = Inr admitted \<longrightarrow> approvals reference admitted write ds = Inr approved \<longrightarrow>
         filterE (\<lambda>r. before_is (Some True) K r write) approved = Inr ordered \<longrightarrow>
         causal_approvals K admitted write approved = Inr causal \<longrightarrow>
         admission_status K reference ds write admitted ordered causal = Inr status \<longrightarrow>
         P (conf_result ''C07.admission'' status reason scope [cid, rid] True)) \<and>
      (\<forall>status reason scope. deadline_status write = Inr status \<longrightarrow>
         P (conf_result ''C08.deadline'' status reason scope [cid, rid] True))"
    and "\<And>name reason scope ev ex. P (conf_result name CUnknown reason scope ev ex)"
  shows "keeps (all_checks P) (check_write K reference policies cid rows write)"
proof -
  show ?thesis unfolding check_write_def Let_def
    by (rule keeps_lift, drule assms(1), intro keeps_rescue keeps_lift keeps_bindS keeps_emit_all assms(2)) blast+
qed


text \<open>The records the rules are applied to: the first of every id, if it is well formed.\<close>

definition usable_records :: "checker \<Rightarrow> json list \<Rightarrow> json list" where
  "usable_records K records =
     (case clean_records K records \<lparr>cl_clean = [], cl_seen = [], cl_issues = [], cl_conflicts = []\<rparr> of
        Inr s \<Rightarrow> cl_clean s | Inl e \<Rightarrow> [])"

lemma check_execution_clean:
  assumes "check_execution K reference policies records [] = (cs, r)" "c \<in> set cs"
  shows "\<exists>s. clean_records K records \<lparr>cl_clean = [], cl_seen = [], cl_issues = [], cl_conflicts = []\<rparr> = Inr s \<and>
    cl_clean s = usable_records K records"
  using assms
  by (cases "clean_records K records \<lparr>cl_clean = [], cl_seen = [], cl_issues = [], cl_conflicts = []\<rparr>")
     (auto simp: check_execution_def usable_records_def)

lemma pairs_Nil: "pairs xs = [] \<longleftrightarrow> length xs \<le> 1"
  by (cases xs; cases "tl xs") auto

lemma states_verdict_pass:
  assumes "mapE (pair_status K reference) (pairs writes) = Inr states" "states_verdict states writes = CPass"
  shows "length writes = 1"
proof -
  have "s \<noteq> CPass" if sin: "s \<in> set states" for s
  proof -
    obtain p where "pair_status K reference p = Inr s"
      using mapE_range [OF assms(1) sin] by blast
    then show ?thesis by (auto simp: pair_status_def bindE_Inr_iff split: if_splits)
  qed
  then have "states = []" using assms(2)
    by (cases states) (auto simp: states_verdict_def verdict_def split: if_splits, metis conf_status.exhaust)
  then have "length writes \<le> 1" using mapE_Inr_length [OF assms(1)] pairs_Nil [of writes] by simp
  moreover have "writes \<noteq> []" using assms(2) \<open>states = []\<close> by (auto simp: states_verdict_def verdict_def)
  ultimately show ?thesis by (cases writes) auto
qed

text \<open>
  A passed initiation check of a command means that its records show exactly one initiation of a
  native write.
\<close>

theorem initiations_pass_single:
  assumes "check_execution K reference policies records [] = (cs, r)" "c \<in> set cs"
    and "cc_check c = ''C09.initiations''" "cc_status c = CPass"
  shows "\<exists>cid ev. cc_evidence c = cid # ev \<and>
    length (filter (\<lambda>w. has_action ''write_initiated'' w \<and> member ''correlation_id'' w = cid) (usable_records K records)) = 1"
proof -
  obtain s where s: "clean_records K records \<lparr>cl_clean = [], cl_seen = [], cl_issues = [], cl_conflicts = []\<rparr> = Inr s"
      "cl_clean s = usable_records K records"
    using check_execution_clean [OF assms(1,2)] by blast
  let ?P = "\<lambda>c. \<exists>cid ev. cc_evidence c = cid # ev \<and>
    length (filter (\<lambda>w. has_action ''write_initiated'' w \<and> member ''correlation_id'' w = cid) (usable_records K records)) = 1"
  have w: "keeps (all_checks (only_if ''C09.initiations'' ?P)) (check_write K reference policies cid rows wr)" for cid rows wr
    by (rule check_write_all) (auto intro!: only_if_other only_if_unknown)
  have i: "keeps (all_checks (only_if ''C09.initiations'' ?P))
      (check_initiations K reference cid (filter (has_action ''write_initiated'') rows))"
    if rows: "rows = filter (\<lambda>r. member ''correlation_id'' r = cid) (cl_clean s)" for cid rows
  proof -
    have "length (filter (\<lambda>w. has_action ''write_initiated'' w \<and> member ''correlation_id'' w = cid) (usable_records K records)) = 1"
      if "mapE (pair_status K reference) (pairs (filter (has_action ''write_initiated'') rows)) = Inr states"
        "states_verdict states (filter (has_action ''write_initiated'') rows) = CPass" for states
      using states_verdict_pass [OF that] rows s(2) by (simp add: filter_filter conj_commute)
    then show ?thesis unfolding check_initiations_def
      by (intro keeps_lift keeps_emit_all) (auto simp: only_if_def)
  qed
  have "only_if ''C09.initiations'' ?P c"
    by (rule check_execution_all [OF _ _ only_if_unknown w i binding_other outcomes_other feedback_other s(1) assms(1,2)])
       (simp_all add: only_if_other)
  then show ?thesis using assms(3,4) by (simp add: only_if_def)
qed

text \<open>
  A passed deadline check means that the write was initiated before the deadline of its command,
  wherever in the uncertainty of its clock the true time lies.
\<close>

theorem deadline_pass_sound:
  assumes "check_execution K reference policies records [] = (cs, r)" "c \<in> set cs"
    and "cc_check c = ''C08.deadline''" "cc_status c = CPass" "clocks_hold K T (set (usable_records K records))"
  shows "\<exists>write \<in> set (usable_records K records). \<exists>deadline.
    has_action ''write_initiated'' write \<and> cc_evidence c = [member ''correlation_id'' write, member ''record_id'' write] \<and>
    aware_time (member ''deadline'' write) = Inr deadline \<and> T write \<le> timestamp deadline"
proof -
  obtain s where s: "clean_records K records \<lparr>cl_clean = [], cl_seen = [], cl_issues = [], cl_conflicts = []\<rparr> = Inr s"
      "cl_clean s = usable_records K records"
    using check_execution_clean [OF assms(1,2)] by blast
  let ?P = "\<lambda>c. \<exists>write \<in> set (usable_records K records). \<exists>deadline.
    has_action ''write_initiated'' write \<and> cc_evidence c = [member ''correlation_id'' write, member ''record_id'' write] \<and>
    aware_time (member ''deadline'' write) = Inr deadline \<and> T write \<le> timestamp deadline"
  have w: "keeps (all_checks (only_if ''C08.deadline'' ?P)) (check_write K reference policies cid rows wr)"
    if rows: "rows = filter (\<lambda>r. member ''correlation_id'' r = cid) (cl_clean s)" "wr \<in> set rows"
      "has_action ''write_initiated'' wr" for cid rows wr
  proof (rule check_write_all)
    fix rid assume rid: "j_get wr ''record_id'' = Inr rid"
    have u: "wr \<in> set (usable_records K records)" "member ''correlation_id'' wr = cid" using rows s(2) by auto
    have "only_if ''C08.deadline'' ?P (conf_result ''C08.deadline'' status reason scope [cid, rid] True)"
      if ds: "deadline_status wr = Inr status" for status reason scope
    proof (cases "status = CPass")
      case True
      obtain deadline u0 t where d: "bindE (j_get wr ''deadline'') aware_time = Inr deadline" "uncertainty wr = Inr u0"
          "bindE (j_get wr ''recorded_at'') aware_time = Inr t"
        using ds unfolding deadline_status_def bindE_Inr_iff [of "bindE (j_get _ _) aware_time"] bindE_Inr_iff [of "uncertainty _"]
        by blast
      obtain x where x: "u0 = Some x" "x \<le> secs (dt_us deadline - dt_us t)"
        using ds d True by (auto simp: deadline_status_def Let_def split: option.splits if_splits)
      have "\<bar>T wr - secs (dt_us t)\<bar> \<le> x" using assms(5) u(1) d(2,3) x(1) unfolding clocks_hold_def by blast
      then have "T wr \<le> timestamp deadline" using x(2) by (simp add: secs_diff timestamp_def)
      moreover have "aware_time (member ''deadline'' wr) = Inr deadline"
        using d(1) by (auto simp: bindE_Inr_iff j_get_member)
      ultimately show ?thesis using u rows(3) j_get_member [OF rid] by (auto simp: only_if_def)
    qed (simp add: only_if_def)
    then show "(\<forall>ps reason scope. only_if ''C08.deadline'' ?P (conf_result ''C07.write_policy'' ps reason scope [cid, rid] True)) \<and>
      (\<forall>matches ds admitted approved ordered causal status reason scope.
         admissions K reference rows wr = Inr matches \<longrightarrow> decisions reference rows = Inr ds \<longrightarrow>
         admitted_row matches = Inr admitted \<longrightarrow> approvals reference admitted wr ds = Inr approved \<longrightarrow>
         filterE (\<lambda>r. before_is (Some True) K r wr) approved = Inr ordered \<longrightarrow>
         causal_approvals K admitted wr approved = Inr causal \<longrightarrow>
         admission_status K reference ds wr admitted ordered causal = Inr status \<longrightarrow>
         only_if ''C08.deadline'' ?P (conf_result ''C07.admission'' status reason scope [cid, rid] True)) \<and>
      (\<forall>status reason scope. deadline_status wr = Inr status \<longrightarrow>
         only_if ''C08.deadline'' ?P (conf_result ''C08.deadline'' status reason scope [cid, rid] True))"
      by (simp add: only_if_other)
  qed (rule only_if_unknown)
  have "only_if ''C08.deadline'' ?P c"
    by (rule check_execution_all [OF _ _ only_if_unknown w initiations_other binding_other outcomes_other feedback_other s(1) assms(1,2)])
       (simp_all add: only_if_other)
  then show ?thesis using assms(3,4) by (simp add: only_if_def)
qed


text \<open>
  What the admission check asks of a write: an admission by the writer in the process of the write,
  an approval of the same command by the validator that the admission names, and either the known
  order or one signed ticket seen by all three.
\<close>

definition admitted_by :: "checker \<Rightarrow> json \<Rightarrow> json \<Rightarrow> json \<Rightarrow> bool" where
  "admitted_by K reference write a \<longleftrightarrow>
     has_action ''executor_admitted'' a \<and> eqE (j_get a ''component'') (j_get reference ''writer'') = Inr True \<and>
     eqE (j_get a ''process_instance'') (j_get write ''process_instance'') = Inr True \<and>
     same_binding a write = Inr True \<and> record_before K a write = Inr (Some True)"

definition approved_by :: "checker \<Rightarrow> json \<Rightarrow> json \<Rightarrow> json \<Rightarrow> json \<Rightarrow> bool" where
  "approved_by K reference write a d \<longleftrightarrow>
     eqE (j_get d ''component'') (j_get reference ''validator'') = Inr True \<and> has_action ''validation_decided'' d \<and>
     decision_is ''approve'' d = Inr True \<and> same_binding d write = Inr True \<and>
     eqE (j_lookup d ''approval_issued_at'') (j_lookup a ''approval_issued_at'') = Inr True"

definition ticket_seen :: "checker \<Rightarrow> json \<Rightarrow> json \<Rightarrow> json \<Rightarrow> bool" where
  "ticket_seen K write a d \<longleftrightarrow>
     j_lookup write ''approval_verified'' = Inr (JBool True) \<and> j_lookup a ''approval_verified'' = Inr (JBool True) \<and>
     j_lookup d ''ingress_verified'' = Inr (JBool True) \<and> same_digest K ''approval_fingerprint'' d write a = Inr True \<and>
     same_digest K ''command_digest'' d write a = Inr True"

lemma eqE_action: "eqE (j_get r ''action'') (Inr (JStr s)) = Inr True \<Longrightarrow> has_action s r"
  by (auto simp: eqE_iff has_action_def j_get_member)

lemma before_is_iff: "before_is b K x y = Inr True \<longleftrightarrow> record_before K x y = Inr b"
  by (auto simp: before_is_def bindE_Inr_iff)

lemma is_true_iff: "is_true v = Inr True \<longleftrightarrow> v = Inr (JBool True)"
  by (auto simp: is_true_def bindE_Inr_iff)

lemma admissions_in:
  assumes "admissions K reference rows write = Inr matches" "a \<in> set matches"
  shows "a \<in> set rows \<and> admitted_by K reference write a"
proof -
  have "a \<in> set (filter (\<lambda>r.
       andE (eqE (j_get r ''action'') (Inr (JStr ''executor_admitted'')))
      (andE (eqE (j_get r ''component'') (j_get reference ''writer''))
      (andE (eqE (j_get r ''process_instance'') (j_get write ''process_instance''))
      (andE (truthyE (lookupE r ''attempt_id''))
      (andE (eqE (lookupE r ''attempt_id'') (lookupE write ''attempt_id''))
      (andE (same_binding r write)
            (before_is (Some True) K r write)))))) = Inr True) rows)"
    using assms unfolding admissions_def filterE_iff by blast
  then show ?thesis by (simp add: admitted_by_def before_is_iff eqE_action)
qed

lemma admission_pass:
  assumes "admissions K reference rows write = Inr matches" "decisions reference rows = Inr ds"
    and "admitted_row matches = Inr admitted" "approvals reference admitted write ds = Inr approved"
    and "filterE (\<lambda>r. before_is (Some True) K r write) approved = Inr ordered"
    and "causal_approvals K admitted write approved = Inr causal"
    and "admission_status K reference ds write admitted ordered causal = Inr CPass"
  shows "\<exists>a \<in> set rows. \<exists>d \<in> set rows. admitted_by K reference write a \<and> approved_by K reference write a d \<and>
    (record_before K d write = Inr (Some True) \<or> ticket_seen K write a d)"
proof -
  have s: "admitted \<noteq> None" "ordered \<noteq> [] \<or> causal \<noteq> []"
    using assms(7) by (auto simp: admission_status_def bindE_Inr_iff Let_def split: if_splits)
  obtain a where a: "admitted = Some a" using s(1) by blast
  have "matches = [a]" using assms(3) a by (auto simp: admitted_row_def split: list.splits sum.splits if_splits)
  then have am: "a \<in> set rows" "admitted_by K reference write a" using admissions_in [OF assms(1), of a] by simp_all
  have app: "d \<in> set rows \<and> approved_by K reference write a d" if "d \<in> set approved" for d
    using assms(2,4) a that
    by (auto simp: approvals_def decisions_def filterE_iff approved_by_def eqE_action lookupE_def)
  have ord: "d \<in> set approved \<and> record_before K d write = Inr (Some True)" if "d \<in> set ordered" for d
    using assms(5) that by (auto simp: filterE_iff before_is_iff)
  have cau: "d \<in> set approved \<and> ticket_seen K write a d" if "d \<in> set causal" for d
    using assms(6) a that by (auto simp: causal_approvals_def filterE_iff ticket_seen_def is_true_iff lookupE_def)
  show ?thesis using s(2) am app ord cau by (metis list.set_intros(1) neq_Nil_conv)
qed

text \<open>
  C27. A passed admission check means that the write was admitted by the writer, truly before the
  write, and approved by the validator for exactly that command, truly before the write or with a
  signed ticket that the approval, the admission and the write all carry.
\<close>

theorem admission_pass_sound:
  assumes "check_execution K reference policies records [] = (cs, r)" "c \<in> set cs"
    and "cc_check c = ''C07.admission''" "cc_status c = CPass" "clocks_hold K T (set (usable_records K records))"
  shows "\<exists>write \<in> set (usable_records K records). \<exists>a \<in> set (usable_records K records). \<exists>d \<in> set (usable_records K records).
    has_action ''write_initiated'' write \<and> cc_evidence c = [member ''correlation_id'' write, member ''record_id'' write] \<and>
    admitted_by K reference write a \<and> T a < T write \<and> approved_by K reference write a d \<and>
    (T d < T write \<or> ticket_seen K write a d)"
proof -
  obtain s where s: "clean_records K records \<lparr>cl_clean = [], cl_seen = [], cl_issues = [], cl_conflicts = []\<rparr> = Inr s"
      "cl_clean s = usable_records K records"
    using check_execution_clean [OF assms(1,2)] by blast
  let ?U = "set (usable_records K records)"
  let ?P = "\<lambda>c. \<exists>write \<in> ?U. \<exists>a \<in> ?U. \<exists>d \<in> ?U.
    has_action ''write_initiated'' write \<and> cc_evidence c = [member ''correlation_id'' write, member ''record_id'' write] \<and>
    admitted_by K reference write a \<and> T a < T write \<and> approved_by K reference write a d \<and>
    (T d < T write \<or> ticket_seen K write a d)"
  have w: "keeps (all_checks (only_if ''C07.admission'' ?P)) (check_write K reference policies cid rows wr)"
    if rows: "rows = filter (\<lambda>r. member ''correlation_id'' r = cid) (cl_clean s)" "wr \<in> set rows"
      "has_action ''write_initiated'' wr" for cid rows wr
  proof (rule check_write_all)
    fix rid assume rid: "j_get wr ''record_id'' = Inr rid"
    have u: "wr \<in> ?U" "member ''correlation_id'' wr = cid" "set rows \<subseteq> ?U" using rows s(2) by auto
    have "only_if ''C07.admission'' ?P (conf_result ''C07.admission'' status reason scope [cid, rid] True)"
      if ad: "admissions K reference rows wr = Inr matches" "decisions reference rows = Inr ds"
        "admitted_row matches = Inr admitted" "approvals reference admitted wr ds = Inr approved"
        "filterE (\<lambda>r. before_is (Some True) K r wr) approved = Inr ordered"
        "causal_approvals K admitted wr approved = Inr causal"
        "admission_status K reference ds wr admitted ordered causal = Inr status"
      for matches ds admitted approved ordered causal status reason scope
    proof (cases "status = CPass")
      case True
      obtain a d where d: "a \<in> set rows" "d \<in> set rows" "admitted_by K reference wr a" "approved_by K reference wr a d"
          "record_before K d wr = Inr (Some True) \<or> ticket_seen K wr a d"
        using admission_pass [OF ad(1-6) ad(7) [unfolded True]] by blast
      have au: "a \<in> ?U" "d \<in> ?U" using d(1,2) u(3) by blast+
      have "T a < T wr"
        using observed_order_sound_aux [OF assms(5) au(1) u(1), of True] d(3) unfolding admitted_by_def by blast
      moreover have "T d < T wr \<or> ticket_seen K wr a d"
        using d(5) observed_order_sound_aux [OF assms(5) au(2) u(1), of True] by blast
      ultimately show ?thesis using d(1-4) u rows(3) j_get_member [OF rid] unfolding only_if_def conf_result_simps by blast
    qed (simp add: only_if_def)
    then show "(\<forall>ps reason scope. only_if ''C07.admission'' ?P (conf_result ''C07.write_policy'' ps reason scope [cid, rid] True)) \<and>
      (\<forall>matches ds admitted approved ordered causal status reason scope.
         admissions K reference rows wr = Inr matches \<longrightarrow> decisions reference rows = Inr ds \<longrightarrow>
         admitted_row matches = Inr admitted \<longrightarrow> approvals reference admitted wr ds = Inr approved \<longrightarrow>
         filterE (\<lambda>r. before_is (Some True) K r wr) approved = Inr ordered \<longrightarrow>
         causal_approvals K admitted wr approved = Inr causal \<longrightarrow>
         admission_status K reference ds wr admitted ordered causal = Inr status \<longrightarrow>
         only_if ''C07.admission'' ?P (conf_result ''C07.admission'' status reason scope [cid, rid] True)) \<and>
      (\<forall>status reason scope. deadline_status wr = Inr status \<longrightarrow>
         only_if ''C07.admission'' ?P (conf_result ''C08.deadline'' status reason scope [cid, rid] True))"
      by (simp add: only_if_other)
  qed (rule only_if_unknown)
  have "only_if ''C07.admission'' ?P c"
    by (rule check_execution_all [OF _ _ only_if_unknown w initiations_other binding_other outcomes_other feedback_other s(1) assms(1,2)])
       (simp_all add: only_if_other)
  then show ?thesis using assms(3,4) unfolding only_if_def by blast
qed


section \<open>A command that was approved, admitted and written\<close>

definition trace_row :: "string \<Rightarrow> string \<Rightarrow> string \<Rightarrow> int \<Rightarrow> doc \<Rightarrow> json" where
  "trace_row rid component action t extra =
     JObj ([(''event'', JStr ''command_execution''), (''execution_schema'', JStr ''1.0''), (''record_id'', JStr rid),
            (''component'', JStr component), (''action'', JStr action), (''correlation_id'', JStr (replicate 26 (CHR ''0''))),
            (''process_instance'', JStr component), (''monotonic_ns'', JInt t), (''recorded_at'', JTime (utc (t * 1000000))),
            (''clock_uncertainty_s'', JFloat (Fin (1 / 100))), (''requester'', JStr ''agent''), (''target'', JStr ''topic''),
            (''value_type'', JStr ''int64''), (''requested_value'', JInt 7), (''requested_at'', JTime (utc 0)),
            (''deadline'', JTime (utc 60000000)), (''approval_issued_at'', JTime (utc 1000000))] @ extra)"

definition trace_rows :: "json list" where
  "trace_rows =
     [trace_row ''r1'' ''validator'' ''validation_decided'' 1 [(''decision'', JStr ''approve''), (''approved_writer'', JStr ''writer'')],
      trace_row ''r2'' ''writer'' ''executor_admitted'' 2 [(''attempt_id'', JStr ''a1'')],
      trace_row ''r3'' ''writer'' ''write_initiated'' 3 [(''attempt_id'', JStr ''a1'')]]"

definition trace_reference :: json where
  "trace_reference =
     JObj [(''writer'', JStr ''writer''), (''validator'', JStr ''validator''), (''retention_seconds'', JInt 86400)]"

definition trace_checks :: "conf_check list" where
  "trace_checks = fst (check_execution plain_checker trace_reference [] trace_rows [])"

definition trace_time :: "json \<Rightarrow> real" where
  "trace_time r = (case member ''monotonic_ns'' r of JInt n \<Rightarrow> of_int n | _ \<Rightarrow> 0)"

lemma trace_run: "check_execution plain_checker trace_reference [] trace_rows [] =
    (trace_checks, snd (check_execution plain_checker trace_reference [] trace_rows []))"
  by (simp add: trace_checks_def)

lemma trace_passes_all:
  "list_all (\<lambda>name. list_ex (\<lambda>c. cc_check c = name \<and> cc_status c = CPass) trace_checks)
     [''C07.admission'', ''C08.deadline'', ''C09.initiations'']"
  by code_simp

lemma trace_passes:
  "list_ex (\<lambda>c. cc_check c = ''C07.admission'' \<and> cc_status c = CPass) trace_checks"
  "list_ex (\<lambda>c. cc_check c = ''C08.deadline'' \<and> cc_status c = CPass) trace_checks"
  "list_ex (\<lambda>c. cc_check c = ''C09.initiations'' \<and> cc_status c = CPass) trace_checks"
  using trace_passes_all by (simp_all only: list.pred_inject simp_thms)

lemma trace_usable: "usable_records plain_checker trace_rows = trace_rows"
  by code_simp

lemma trace_clocks: "clocks_hold plain_checker trace_time (set (usable_records plain_checker trace_rows))"
proof -
  have 1: "list_all (\<lambda>a. uncertainty a = Inr (Some (1 / 100)) \<and>
      (case bindE (j_get a ''recorded_at'') aware_time of Inr t \<Rightarrow> secs (dt_us t) = trace_time a | Inl e \<Rightarrow> False)) trace_rows"
    by code_simp
  have 2: "list_all (\<lambda>a. list_all (\<lambda>b. same_domain a b = Inr False) trace_rows) trace_rows" by code_simp
  have 3: "list_all (\<lambda>a. list_all (\<lambda>b. lessE plain_checker (j_get a ''monotonic_ns'') (j_get b ''monotonic_ns'') =
      Inr (trace_time a < trace_time b)) trace_rows) trace_rows" by code_simp
  show ?thesis unfolding clocks_hold_def trace_usable
    using 1 2 3 by (auto simp: list_all_iff split: sum.splits)
qed

theorem initiations_pass_single_witness:
  "\<exists>c \<in> set trace_checks. cc_status c = CPass \<and> (\<exists>cid ev. cc_evidence c = cid # ev \<and>
    length (filter (\<lambda>w. has_action ''write_initiated'' w \<and> member ''correlation_id'' w = cid)
      (usable_records plain_checker trace_rows)) = 1)"
proof -
  obtain c where c: "c \<in> set trace_checks" "cc_check c = ''C09.initiations''" "cc_status c = CPass"
    using trace_passes(3) by (auto simp: list_ex_iff)
  from initiations_pass_single [OF trace_run c] c show ?thesis by blast
qed

theorem deadline_pass_sound_witness:
  "\<exists>write \<in> set trace_rows. \<exists>deadline. has_action ''write_initiated'' write \<and>
    aware_time (member ''deadline'' write) = Inr deadline \<and> trace_time write \<le> timestamp deadline"
proof -
  obtain c where c: "c \<in> set trace_checks" "cc_check c = ''C08.deadline''" "cc_status c = CPass"
    using trace_passes(2) by (auto simp: list_ex_iff)
  from deadline_pass_sound [OF trace_run c trace_clocks] show ?thesis unfolding trace_usable by blast
qed

theorem admission_pass_sound_witness:
  "\<exists>write \<in> set trace_rows. \<exists>a \<in> set trace_rows. \<exists>d \<in> set trace_rows. has_action ''write_initiated'' write \<and>
    admitted_by plain_checker trace_reference write a \<and> trace_time a < trace_time write \<and>
    approved_by plain_checker trace_reference write a d"
proof -
  obtain c where c: "c \<in> set trace_checks" "cc_check c = ''C07.admission''" "cc_status c = CPass"
    using trace_passes(1) by (auto simp: list_ex_iff)
  from admission_pass_sound [OF trace_run c trace_clocks] show ?thesis unfolding trace_usable by blast
qed

end
