(* ===== verification/Conformance_Report.thy ===== *)
theory Conformance_Report
  imports Conformance_Structure Conformance_Execution
begin

text \<open>
  The conformance checker, its report (\<open>evaluate\<close> of \<open>scripts/conformance.py\<close>): how the checks of
  the structure, of the records and of the separate evidence packages are put together, which of
  them replace others, and the verdict of every rule. The checks of the bindings and of the packages
  are arguments.
\<close>

record packages =
  pk_bindings :: "conf_check list"
  pk_data :: "conf_check list option"
  pk_recovery :: "conf_check list option"
  pk_fault :: "conf_check list option"
  pk_assurance :: "(conf_check list \<times> json list) option"

definition replace_checks :: "conf_check list \<Rightarrow> conf_check list \<Rightarrow> conf_check list" where
  "replace_checks fresh checks = filter (\<lambda>c. cc_check c \<notin> set (map cc_check fresh)) checks @ fresh"

definition deferred_rules :: "packages \<Rightarrow> (string \<times> string) list" where
  "deferred_rules P =
     [(''C04'', ''Equivalent native-input golden data and output comparisons not supplied; E2 preparation remains'')] @
     (if pk_data P = None
      then [(''C05'', ''State ordering/restart sequences and freshness policy evidence not supplied''),
            (''C06'', ''Transport/event/effect reconciliation across retention and restart cases not supplied'')] else []) @
     (if pk_fault P = None
      then [(''C10'', ''Loss-of-reply and independent device/outcome reconciliation case evidence not supplied'')] else []) @
     [(''C11'', ''Loss, congestion, reconnect and mixed-flow policy experiment evidence not supplied'')]"

definition deferred_checks :: "packages \<Rightarrow> conf_check list" where
  "deferred_checks P =
     map (\<lambda>(rule, reason). conf_result (rule @ ''.experiment'') CUnknown reason ''required_experimental_evidence'' [] False)
       (deferred_rules P)"

text \<open>A refused command in a complete capture satisfies the rules about writes without a write.\<close>

definition closed_pass :: "json list \<Rightarrow> conf_check \<Rightarrow> conf_check" where
  "closed_pass refused c =
     (if cc_check c \<in> {''C07.admission'', ''C08.deadline'', ''C09.initiations'', ''C09.binding''} \<and> cc_status c = CUnknown \<and>
         cc_evidence c \<noteq> [] \<and> hd (cc_evidence c) \<in> set refused
      then c\<lparr>cc_status := CPass, cc_scope := ''verified_closed_capture_without_execution'',
             cc_reason := ''Refused request has no admission, initiation or ledger record in the verified complete capture; the execution-only implication is satisfied without asserting a write''\<rparr>
      else c)"

definition with_assurance :: "packages \<Rightarrow> conf_check list \<Rightarrow> conf_check list" where
  "with_assurance P checks =
     (case pk_assurance P of
        None \<Rightarrow> checks
      | Some (assurance, refused) \<Rightarrow> map (closed_pass refused) (replace_checks assurance checks))"

definition reconciliation :: "json list \<Rightarrow> json list \<Rightarrow> conf_check list" where
  "reconciliation commands records =
     (if commands = [] then []
      else let expected = remdups (filter is_str (map (member ''correlation_id'') commands));
               absent = filter (\<lambda>i. i \<notin> set (map (member ''correlation_id'') records)) expected in
        [conf_result ''C12.command_reconciliation'' (if absent \<noteq> [] then CUnknown else CPass)
           ''Generated command IDs compared with retained trace IDs; matching IDs do not prove full stage coverage''
           ''supplied_run_commands'' absent True])"

definition report_checks ::
  "conf_check list \<Rightarrow> conf_check list \<Rightarrow> packages \<Rightarrow> string list \<Rightarrow> json list \<Rightarrow> json list \<Rightarrow> conf_check list" where
  "report_checks declared execution P collection_errors commands records =
     (let c0 = declared @ pk_bindings P @ execution;
          c1 = (case pk_data P of None \<Rightarrow> c0 | Some d \<Rightarrow> c0 @ d);
          c2 = (case pk_recovery P of None \<Rightarrow> c1 | Some r \<Rightarrow> replace_checks r c1);
          c3 = (case pk_fault P of None \<Rightarrow> c2 | Some f \<Rightarrow> c2 @ f);
          c4 = c3 @ deferred_checks P @
            [conf_result ''C02.runtime_boundary'' CUnknown
               ''Declared graph is not proof of runtime bypass protection; separate unapproved-writer case evidence required''
               ''runtime_boundary'' [] False,
             conf_result ''C12.collection_coverage'' CUnknown
               ''Collection completeness is not established; missing records and unbounded clocks remain explicit''
               ''bounded_run'' (map JStr collection_errors) True]
      in with_assurance P c4 @ reconciliation commands records)"

record rule_report =
  rp_rule :: string
  rp_status :: conf_status
  rp_executed :: bool
  rp_checks :: "conf_check list"

definition rule_verdict :: "conf_check list \<Rightarrow> string \<Rightarrow> rule_report" where
  "rule_verdict checks rule =
     (let selected = filter (\<lambda>c. cc_rule c = rule) checks in
      \<lparr>rp_rule = rule, rp_status = verdict (map cc_status selected), rp_executed = list_ex cc_executed selected,
       rp_checks = selected\<rparr>)"

definition evaluate ::
  "string list \<Rightarrow> conf_check list \<Rightarrow> conf_check list \<Rightarrow> packages \<Rightarrow> string list \<Rightarrow> json list \<Rightarrow> json list \<Rightarrow>
     conf_status \<times> rule_report list" where
  "evaluate rules declared execution P collection_errors commands records =
     (let reports = map (rule_verdict (report_checks declared execution P collection_errors commands records)) rules in
      (verdict (map rp_status reports), reports))"

section \<open>The overall verdict\<close>

lemma verdict_pass: "verdict ss = CPass \<longleftrightarrow> ss \<noteq> [] \<and> (\<forall>s \<in> set ss. s = CPass)"
  by (auto simp: verdict_def) (metis conf_status.exhaust)

lemma verdict_fail: "verdict ss = CFail \<longleftrightarrow> CFail \<in> set ss"
  by (simp add: verdict_def)

lemma evaluate_pass:
  "fst (evaluate rules declared execution P errs commands records) = CPass \<Longrightarrow> rule \<in> set rules \<Longrightarrow>
     c \<in> set (report_checks declared execution P errs commands records) \<Longrightarrow> cc_rule c = rule \<Longrightarrow> cc_status c = CPass"
  by (auto simp: evaluate_def Let_def verdict_pass rule_verdict_def)

lemma evaluate_fail:
  assumes "c \<in> set (report_checks declared execution P errs commands records)" "cc_status c = CFail" "cc_rule c \<in> set rules"
  shows "fst (evaluate rules declared execution P errs commands records) = CFail"
proof -
  let ?checks = "report_checks declared execution P errs commands records"
  have "rp_status (rule_verdict ?checks (cc_rule c)) = CFail"
    using assms(1,2) by (force simp: rule_verdict_def Let_def verdict_fail)
  then show ?thesis using assms(3) by (force simp: evaluate_def Let_def verdict_fail)
qed

lemma closed_pass_keeps:
  "cc_check (closed_pass refused c) = cc_check c" "cc_status c \<noteq> CUnknown \<Longrightarrow> closed_pass refused c = c"
  "cc_check c \<notin> {''C07.admission'', ''C08.deadline'', ''C09.initiations'', ''C09.binding''} \<Longrightarrow> closed_pass refused c = c"
  by (auto simp: closed_pass_def)

lemma with_assurance_keeps:
  assumes "c \<in> set checks" "\<And>as refused. pk_assurance P = Some (as, refused) \<Longrightarrow> cc_check c \<notin> set (map cc_check as)"
    and "cc_status c \<noteq> CUnknown \<or> cc_check c \<notin> {''C07.admission'', ''C08.deadline'', ''C09.initiations'', ''C09.binding''}"
  shows "c \<in> set (with_assurance P checks)"
proof (cases "pk_assurance P")
  case None
  then show ?thesis using assms(1) by (simp add: with_assurance_def)
next
  case (Some x)
  obtain as refused where x: "x = (as, refused)" by (cases x)
  have "c \<in> set (replace_checks as checks)" using assms(1,2) Some x by (auto simp: replace_checks_def)
  moreover have "closed_pass refused c = c" using assms(3) closed_pass_keeps(2,3) by blast
  ultimately show ?thesis using Some x by (simp add: with_assurance_def) (metis image_eqI)
qed

text \<open>The checks that stay open while nobody supplies their evidence, with the rules they belong to.\<close>

definition open_checks :: "packages \<Rightarrow> (string \<times> string) set" where
  "open_checks P =
     {(''C02'', ''C02.runtime_boundary''), (''C04'', ''C04.experiment''), (''C11'', ''C11.experiment''),
      (''C12'', ''C12.collection_coverage'')} \<union>
     (if pk_data P = None then {(''C05'', ''C05.experiment''), (''C06'', ''C06.experiment'')} else {}) \<union>
     (if pk_fault P = None then {(''C10'', ''C10.experiment'')} else {})"

lemma cc_conf_result [simp]:
  "cc_check (conf_result i st why scope ev ex) = i" "cc_status (conf_result i st why scope ev ex) = st"
  "cc_rule (conf_result i st why scope ev ex) = hd (split_on (CHR ''.'') i)"
  by (simp_all add: conf_result_def cc_rule_def)

lemma deferred_checks_keys:
  "map (\<lambda>c. (cc_rule c, cc_check c, cc_status c)) (deferred_checks P) =
     map (\<lambda>(rule, reason). (hd (split_on (CHR ''.'') (rule @ ''.experiment'')), rule @ ''.experiment'', CUnknown)) (deferred_rules P)"
  by (simp add: deferred_checks_def comp_def case_prod_beta)

lemma deferred_rules_keys:
  "map (\<lambda>(rule, reason). (hd (split_on (CHR ''.'') (rule @ ''.experiment'')), rule @ ''.experiment'', CUnknown)) (deferred_rules P) =
     [(''C04'', ''C04.experiment'', CUnknown)] @
     (if pk_data P = None then [(''C05'', ''C05.experiment'', CUnknown), (''C06'', ''C06.experiment'', CUnknown)] else []) @
     (if pk_fault P = None then [(''C10'', ''C10.experiment'', CUnknown)] else []) @ [(''C11'', ''C11.experiment'', CUnknown)]"
  by (simp add: deferred_rules_def)

lemma open_in_report:
  assumes "(rule, check) \<in> open_checks P"
    and "\<And>as refused. pk_assurance P = Some (as, refused) \<Longrightarrow> check \<notin> set (map cc_check as)"
  shows "\<exists>c \<in> set (report_checks declared execution P errs commands records).
    cc_check c = check \<and> cc_status c = CUnknown \<and> cc_rule c = rule"
proof -
  have "\<exists>c \<in> set (deferred_checks P @
      [conf_result ''C02.runtime_boundary'' CUnknown
         ''Declared graph is not proof of runtime bypass protection; separate unapproved-writer case evidence required''
         ''runtime_boundary'' [] False,
       conf_result ''C12.collection_coverage'' CUnknown
         ''Collection completeness is not established; missing records and unbounded clocks remain explicit''
         ''bounded_run'' (map JStr errs) True]). cc_check c = check \<and> cc_status c = CUnknown \<and> cc_rule c = rule"
  proof -
    have "(rule, check, CUnknown) \<in> set (map (\<lambda>c. (cc_rule c, cc_check c, cc_status c)) (deferred_checks P @
      [conf_result ''C02.runtime_boundary'' CUnknown
         ''Declared graph is not proof of runtime bypass protection; separate unapproved-writer case evidence required''
         ''runtime_boundary'' [] False,
       conf_result ''C12.collection_coverage'' CUnknown
         ''Collection completeness is not established; missing records and unbounded clocks remain explicit''
         ''bounded_run'' (map JStr errs) True]))"
      unfolding map_append deferred_checks_keys deferred_rules_keys
      using assms(1) by (auto simp: open_checks_def split: if_splits)
    then show ?thesis by (auto simp del: cc_conf_result)
  qed
  then obtain c where c: "c \<in> set (deferred_checks P @
      [conf_result ''C02.runtime_boundary'' CUnknown
         ''Declared graph is not proof of runtime bypass protection; separate unapproved-writer case evidence required''
         ''runtime_boundary'' [] False,
       conf_result ''C12.collection_coverage'' CUnknown
         ''Collection completeness is not established; missing records and unbounded clocks remain explicit''
         ''bounded_run'' (map JStr errs) True])" and k: "cc_check c = check" "cc_status c = CUnknown" "cc_rule c = rule"
    by blast
  have n: "cc_check c \<notin> {''C07.admission'', ''C08.deadline'', ''C09.initiations'', ''C09.binding''}"
    using assms(1) k(1) by (auto simp: open_checks_def split: if_splits)
  have w: "c \<in> set (with_assurance P checks)" if "c \<in> set checks" for checks
    by (rule with_assurance_keeps [OF that _ disjI2 [OF n]]) (use assms(2) k(1) in simp)
  have "c \<in> set (report_checks declared execution P errs commands records)"
    unfolding report_checks_def Let_def set_append
    by (rule UnI1, rule w) (use c in auto)
  with k show ?thesis by blast
qed

lemma fails_in_report:
  assumes f: "cc_status c = CFail"
    and c: "c \<in> set declared \<union> set (pk_bindings P) \<union> set execution \<union> set (case pk_data P of None \<Rightarrow> [] | Some d \<Rightarrow> d) \<and>
        cc_check c \<notin> cc_check ` set (case pk_recovery P of None \<Rightarrow> [] | Some r \<Rightarrow> r) \<or>
      c \<in> set (case pk_recovery P of None \<Rightarrow> [] | Some r \<Rightarrow> r) \<or> c \<in> set (case pk_fault P of None \<Rightarrow> [] | Some r \<Rightarrow> r)"
    and n: "cc_check c \<notin> cc_check ` set (case pk_assurance P of None \<Rightarrow> [] | Some x \<Rightarrow> fst x)"
  shows "c \<in> set (report_checks declared execution P errs commands records)"
proof -
  have w: "c \<in> set (with_assurance P checks)" if "c \<in> set checks" for checks
    by (rule with_assurance_keeps [OF that]) (use f n in auto)
  show ?thesis
    unfolding report_checks_def Let_def set_append
    by (rule UnI1, rule w) (use c in \<open>auto simp: replace_checks_def split: option.splits\<close>)
qed

lemma assurance_fails_in_report:
  assumes "cc_status c = CFail" "c \<in> set (case pk_assurance P of None \<Rightarrow> [] | Some x \<Rightarrow> fst x)"
  shows "c \<in> set (report_checks declared execution P errs commands records)"
proof -
  obtain as refused where x: "pk_assurance P = Some (as, refused)" "c \<in> set as"
    using assms(2) by (cases "pk_assurance P"; fastforce)
  have "closed_pass refused c = c" using assms(1) by (intro closed_pass_keeps(2)) simp
  then have "c \<in> set (with_assurance P checks)" for checks
    using x unfolding with_assurance_def replace_checks_def by (simp add: image_iff) (metis)
  then show ?thesis unfolding report_checks_def Let_def by simp
qed

lemma open_rule_not_passed:
  assumes "c \<in> set checks" "cc_status c = CUnknown" "cc_rule c = rule"
  shows "rp_status (rule_verdict checks rule) \<noteq> CPass"
  using assms by (force simp: rule_verdict_def Let_def verdict_pass)

text \<open>
  C29. The report is honest in both directions. Neither a rule nor the whole report passes while one of
  the required pieces of evidence is missing: the experiments of C04 and C11, the runtime boundary of
  C02, the coverage of C12, the data evidence of C05 and C06 and the fault evidence of C10; only a check
  of the same name in an assurance package, or the data or fault package itself, takes such an open
  check away. And every failed check that is supplied on a rule of the reference makes the overall
  verdict a failure, unless a later package replaces it: checks of the structure, the bindings, the
  records and the data are replaced by checks of the same name in the recovery and assurance packages,
  checks of the recovery and fault packages by those of the assurance package only, and these by none.
\<close>

theorem report_honest:
  "(\<forall>rule check. rule \<in> set rules \<and>
      (rule, check) \<in>
        {(''C02'', ''C02.runtime_boundary''), (''C04'', ''C04.experiment''), (''C11'', ''C11.experiment''),
         (''C12'', ''C12.collection_coverage'')} \<union>
        (if pk_data P = None then {(''C05'', ''C05.experiment''), (''C06'', ''C06.experiment'')} else {}) \<union>
        (if pk_fault P = None then {(''C10'', ''C10.experiment'')} else {}) \<and>
      check \<notin> cc_check ` set (case pk_assurance P of None \<Rightarrow> [] | Some x \<Rightarrow> fst x) \<longrightarrow>
      fst (evaluate rules declared execution P errs commands records) \<noteq> CPass \<and>
      (\<forall>r \<in> set (snd (evaluate rules declared execution P errs commands records)). rp_rule r = rule \<longrightarrow> rp_status r \<noteq> CPass)) \<and>
   (\<forall>c. cc_status c = CFail \<and> cc_rule c \<in> set rules \<and>
      ((c \<in> set declared \<union> set (pk_bindings P) \<union> set execution \<union> set (case pk_data P of None \<Rightarrow> [] | Some d \<Rightarrow> d) \<and>
          cc_check c \<notin> cc_check ` set (case pk_recovery P of None \<Rightarrow> [] | Some r \<Rightarrow> r) \<or>
        c \<in> set (case pk_recovery P of None \<Rightarrow> [] | Some r \<Rightarrow> r) \<or> c \<in> set (case pk_fault P of None \<Rightarrow> [] | Some r \<Rightarrow> r)) \<and>
        cc_check c \<notin> cc_check ` set (case pk_assurance P of None \<Rightarrow> [] | Some x \<Rightarrow> fst x) \<or>
       c \<in> set (case pk_assurance P of None \<Rightarrow> [] | Some x \<Rightarrow> fst x)) \<longrightarrow>
      fst (evaluate rules declared execution P errs commands records) = CFail)"
proof (intro conjI allI ballI impI)
  fix rule check
  assume a: "rule \<in> set rules \<and>
      (rule, check) \<in>
        {(''C02'', ''C02.runtime_boundary''), (''C04'', ''C04.experiment''), (''C11'', ''C11.experiment''),
         (''C12'', ''C12.collection_coverage'')} \<union>
        (if pk_data P = None then {(''C05'', ''C05.experiment''), (''C06'', ''C06.experiment'')} else {}) \<union>
        (if pk_fault P = None then {(''C10'', ''C10.experiment'')} else {}) \<and>
      check \<notin> cc_check ` set (case pk_assurance P of None \<Rightarrow> [] | Some x \<Rightarrow> fst x)"
  have "\<exists>c \<in> set (report_checks declared execution P errs commands records).
      cc_check c = check \<and> cc_status c = CUnknown \<and> cc_rule c = rule"
    by (rule open_in_report) (use a in \<open>auto simp: open_checks_def\<close>)
  then have n: "rp_status (rule_verdict (report_checks declared execution P errs commands records) rule) \<noteq> CPass"
    using open_rule_not_passed by blast
  then show "fst (evaluate rules declared execution P errs commands records) \<noteq> CPass"
    using a by (auto simp: evaluate_def Let_def verdict_pass)
  show "rp_status r \<noteq> CPass"
    if "r \<in> set (snd (evaluate rules declared execution P errs commands records))" "rp_rule r = rule" for r
    using that n by (auto simp: evaluate_def Let_def rule_verdict_def)
next
  fix c
  assume "cc_status c = CFail \<and> cc_rule c \<in> set rules \<and>
      ((c \<in> set declared \<union> set (pk_bindings P) \<union> set execution \<union> set (case pk_data P of None \<Rightarrow> [] | Some d \<Rightarrow> d) \<and>
          cc_check c \<notin> cc_check ` set (case pk_recovery P of None \<Rightarrow> [] | Some r \<Rightarrow> r) \<or>
        c \<in> set (case pk_recovery P of None \<Rightarrow> [] | Some r \<Rightarrow> r) \<or> c \<in> set (case pk_fault P of None \<Rightarrow> [] | Some r \<Rightarrow> r)) \<and>
        cc_check c \<notin> cc_check ` set (case pk_assurance P of None \<Rightarrow> [] | Some x \<Rightarrow> fst x) \<or>
       c \<in> set (case pk_assurance P of None \<Rightarrow> [] | Some x \<Rightarrow> fst x))"
  then show "fst (evaluate rules declared execution P errs commands records) = CFail"
    using fails_in_report assurance_fails_in_report by (blast intro: evaluate_fail)
qed

definition no_packages :: packages where
  "no_packages = \<lparr>pk_bindings = [], pk_data = None, pk_recovery = None, pk_fault = None, pk_assurance = None\<rparr>"

theorem report_honest_witness:
  "fst (evaluate [''C09'', ''C10''] [] [] no_packages [] [] []) \<noteq> CPass \<and>
   fst (evaluate [''C09'', ''C10''] [] [conf_result ''C09.initiations'' CFail [] [] [] True] no_packages [] [] []) = CFail"
proof -
  let ?c = "conf_result ''C09.initiations'' CFail [] [] [] True"
  have c: "cc_rule ?c = ''C09''" "cc_status ?c = CFail" by (simp_all add: cc_rule_def)
  note H = report_honest [of "[''C09'', ''C10'']" no_packages "[]" _ "[]" "[]" "[]"]
  have "fst (evaluate [''C09'', ''C10''] [] [] no_packages [] [] []) \<noteq> CPass"
    using H [of "[]", THEN conjunct1, rule_format, of "''C10''" "''C10.experiment''"] by (simp add: no_packages_def)
  moreover have "fst (evaluate [''C09'', ''C10''] [] [?c] no_packages [] [] []) = CFail"
    using H [of "[?c]", THEN conjunct2, rule_format, of ?c] c by (simp add: no_packages_def)
  ultimately show ?thesis ..
qed

end
