(* ===== verification/Conformance_Bindings.thy ===== *)
theory Conformance_Bindings
  imports Conformance_Order "HOL-Library.List_Lexorder" "HOL-Library.Char_ord"
begin

text \<open>
  The conformance checker, its remaining inputs: the rule on the selected commands
  (\<open>check_bindings\<close> of \<open>scripts/conformance.py\<close>), which compares the declared controls with the
  configured policies and mappings, and \<open>read_run\<close>, which collects the records of a run. The
  decoded configuration files and the files of the run directory are arguments.
\<close>

section \<open>The selected commands\<close>

record binding_files =
  bf_native :: "json res"
  bf_mapping :: "json res"
  bf_nodes :: "json res"

definition os_error :: exn where
  "os_error = OtherError ''OSError'' []"

definition stop_iteration :: exn where
  "stop_iteration = OtherError ''StopIteration'' []"

definition list_of :: "checker \<Rightarrow> json res \<Rightarrow> string \<Rightarrow> json list res" where
  "list_of K v key = bindE (bindE v (\<lambda>u. j_get u key)) (j_iter K)"

text \<open>\<open>"..." + v\<close>.\<close>

definition with_text :: "checker \<Rightarrow> string \<Rightarrow> json \<Rightarrow> string res" where
  "with_text K prefix v =
     (case j_text K v of Some s \<Rightarrow> Inr (prefix @ s) | None \<Rightarrow> Inl (TypeError ''can only concatenate str''))"

definition topic_path :: "checker \<Rightarrow> json \<Rightarrow> uns_path res" where
  "topic_path K topic = (case j_text K topic of Some t \<Rightarrow> parse_uns_topic t | None \<Rightarrow> Inl attribute_error)"

definition unless_error :: "bool res \<Rightarrow> string res \<Rightarrow> string list res" where
  "unless_error ok msg = bindE ok (\<lambda>b. if b then Inr [] else bindE msg (\<lambda>m. Inr [m]))"

definition known_topic :: "(json \<times> json) list \<Rightarrow> json \<Rightarrow> bool res" where
  "known_topic index topic = bindE (j_hash topic) (\<lambda>h. Inr (j_find index h \<noteq> None))"

text \<open>Some mapping names the place of the topic and a node of the node list.\<close>

definition mapped_node :: "json list \<Rightarrow> uns_path \<Rightarrow> json \<Rightarrow> bool res" where
  "mapped_node aliases path m =
     andE (allE (\<lambda>(k, s). eqE (j_get m k) (Inr (JStr s)))
             [(''area'', area path), (''line'', uns_path.line path), (''cell'', cell path), (''equipment'', equipment path),
              (''measurement'', measurement path)])
       (bindE (bindE (j_get m ''node_id'') j_hash) (\<lambda>n. Inr (j_in n aliases)))"

definition opcua_registered :: "checker \<Rightarrow> json list \<Rightarrow> json \<Rightarrow> uns_path \<Rightarrow> bool res" where
  "opcua_registered K aliases mapping path =
     bindE (j_iter K mapping) (\<lambda>ms.
     bindE (first_match (mapped_node aliases path) ms) (\<lambda>m. Inr (m \<noteq> None)))"

definition native_registered :: "(json \<times> json) list \<Rightarrow> json \<Rightarrow> json \<Rightarrow> bool res" where
  "native_registered native control topic =
     andE (known_topic native topic)
    (andE (eqE (bindE (j_select native topic) (\<lambda>t. j_get t ''protocol'')) (j_get control ''protocol''))
          (eqE (bindE (j_select native topic) (\<lambda>t. j_get t ''host'')) (j_get control ''physical_component'')))"

record binding_context =
  bc_configured :: "(json \<times> json) list"
  bc_native :: "(json \<times> json) list"
  bc_mapping :: json
  bc_aliases :: "json list"
  bc_actual :: "(json \<times> json) list"

definition topic_errors :: "checker \<Rightarrow> binding_context \<Rightarrow> json \<Rightarrow> json \<Rightarrow> string list res" where
  "topic_errors K B control topic =
     bindE (topic_path K topic) (\<lambda>path.
     bindE (unless_error (known_topic (bc_configured B) topic) (with_text K ''unregistered policy topic: '' topic)) (\<lambda>e1.
     bindE (eqE (j_get control ''protocol'') (Inr (JStr ''opcua''))) (\<lambda>opcua.
     bindE (if opcua
            then unless_error (opcua_registered K (bc_aliases B) (bc_mapping B) path)
                   (with_text K ''unregistered OPC UA command: '' topic)
            else unless_error (native_registered (bc_native B) control topic)
                   (with_text K ''native binding mismatch: '' topic)) (\<lambda>e2.
       Inr (e1 @ e2)))))"

definition control_unchanged :: "binding_context \<Rightarrow> json \<Rightarrow> bool res" where
  "control_unchanged B control =
     bindE (bindE (j_get control ''id'') j_hash) (\<lambda>i.
       Inr (case j_find (bc_actual B) i of None \<Rightarrow> False | Some c \<Rightarrow> j_eq c control))"

definition control_errors :: "checker \<Rightarrow> binding_context \<Rightarrow> json \<Rightarrow> string list res" where
  "control_errors K B control =
     bindE (unless_error (control_unchanged B control)
              (bindE (j_get control ''id'') (with_text K ''control mapping changed: ''))) (\<lambda>e.
     bindE (bindE (list_of K (Inr control) ''command_topics'') (mapE (topic_errors K B control))) (\<lambda>es.
       Inr (e @ concat es)))"

definition contract_errors :: "checker \<Rightarrow> json \<Rightarrow> string list res" where
  "contract_errors K manifest =
     bindE (list_of K (Inr manifest) ''contracts'') (\<lambda>contracts.
     bindE (first_match (\<lambda>c. eqE (j_get c ''id'') (Inr (JStr ''actuation-request''))) contracts) (\<lambda>found.
       case found of
         None \<Rightarrow> Inl stop_iteration
       | Some c \<Rightarrow> unless_error (andE (eqE (j_get c ''kind'') (Inr (JStr ''command'')))
                                     (eqE (j_get c ''wire_version'') (Inr (JStr ''1.0''))))
                     (Inr ''unsupported selected command contract'')))"

definition binding_context_of ::
  "checker \<Rightarrow> binding_files \<Rightarrow> json \<Rightarrow> json list \<Rightarrow> (binding_context \<times> string list) res" where
  "binding_context_of K F manifest policies =
     bindE (j_index_by ''uns_topic'' policies) (\<lambda>configured.
     bindE (bindE (list_of K (bf_native F) ''targets'') (j_index_by ''uns_topic'')) (\<lambda>native.
     bindE (bindE (bf_mapping F) (\<lambda>u. j_get u ''mappings'')) (\<lambda>mapping.
     bindE (bindE (list_of K (bf_nodes F) ''nodes'') (mapE (\<lambda>n. bindE (j_get n ''alias'') j_hash))) (\<lambda>aliases.
     bindE (bindE (list_of K (Inr manifest) ''controls'') (j_index_by ''id'')) (\<lambda>actual.
       Inr (\<lparr>bc_configured = configured, bc_native = native, bc_mapping = mapping, bc_aliases = aliases, bc_actual = actual\<rparr>,
            if length (j_dedup (map fst configured)) \<noteq> length policies then [''duplicate policy topic bindings''] else []))))))"

definition binding_errors :: "checker \<Rightarrow> binding_files \<Rightarrow> json \<Rightarrow> json \<Rightarrow> json list \<Rightarrow> string list res" where
  "binding_errors K F manifest reference policies =
     bindE (binding_context_of K F manifest policies) (\<lambda>(B, e1).
     bindE (bindE (list_of K (Inr reference) ''controls'') (mapE (control_errors K B))) (\<lambda>e2.
     bindE (contract_errors K manifest) (\<lambda>e3. Inr (e1 @ concat e2 @ e3))))"

definition binding_unreadable :: "exn \<Rightarrow> bool" where
  "binding_unreadable e \<longleftrightarrow> malformed e \<or> e = os_error \<or> e = stop_iteration"

definition check_bindings :: "checker \<Rightarrow> binding_files \<Rightarrow> json \<Rightarrow> json \<Rightarrow> json list \<Rightarrow> conf_check list res" where
  "check_bindings K F manifest reference policies =
     (if policies = []
      then Inr [conf_result ''C03.selected_commands'' CUnknown ''Selected policy data missing''
                  ''selected_command_configuration'' [] True]
      else case binding_errors K F manifest reference policies of
        Inr errors \<Rightarrow> Inr
          [conf_result ''C03.selected_commands'' (if errors \<noteq> [] then CFail else CPass)
             ''Selected topic syntax, registered policy/native mappings and declared command version''
             ''selected_command_configuration'' (map JStr errors) True,
           conf_result ''C03.full_semantics'' CUnknown
             ''Industrial identity/descriptions, all contracts and receiver compatibility remain partial''
             ''all_selected_flows'' [] False]
      | Inl e \<Rightarrow>
          if binding_unreadable e
          then Inr [conf_result ''C03.selected_commands'' CUnknown ''Cannot load complete selected command bindings''
                      ''selected_command_configuration'' [] True]
          else Inl e)"

lemma unless_error_Nil [simp]: "unless_error ok msg = Inr [] \<longleftrightarrow> ok = Inr True"
  by (auto simp: unless_error_def bindE_Inr_iff split: if_splits)

lemma mapE_Nils: "mapE f xs = Inr ys \<Longrightarrow> concat ys = [] \<Longrightarrow> x \<in> set xs \<Longrightarrow> f x = Inr []"
  by (induction xs arbitrary: ys) (auto simp: bindE_Inr_iff)

lemma first_match_Some: "first_match f xs = Inr (Some x) \<Longrightarrow> x \<in> set xs \<and> f x = Inr True"
  by (induction xs) (auto simp: bindE_Inr_iff split: if_splits)

text \<open>What the selected-command rule promises of one topic of a control.\<close>

definition topic_bound :: "checker \<Rightarrow> binding_context \<Rightarrow> json \<Rightarrow> json \<Rightarrow> bool" where
  "topic_bound K B control topic \<longleftrightarrow>
     (\<exists>path. topic_path K topic = Inr path \<and> uns_path_ok path \<and> known_topic (bc_configured B) topic = Inr True \<and>
        (if eqE (j_get control ''protocol'') (Inr (JStr ''opcua'')) = Inr True
         then \<exists>ms m. j_iter K (bc_mapping B) = Inr ms \<and> m \<in> set ms \<and> mapped_node (bc_aliases B) path m = Inr True
         else \<exists>t. j_select (bc_native B) topic = Inr t \<and> eqE (j_get t ''protocol'') (j_get control ''protocol'') = Inr True \<and>
                eqE (j_get t ''host'') (j_get control ''physical_component'') = Inr True))"

lemma topic_path_ok: "topic_path K topic = Inr path \<Longrightarrow> uns_path_ok path"
  by (auto simp: topic_path_def dest: parse_uns_topicD split: option.splits)

lemma topic_errors_Nil:
  assumes "topic_errors K B control topic = Inr []"
  shows "topic_bound K B control topic"
proof -
  obtain path opcua where p: "topic_path K topic = Inr path" "known_topic (bc_configured B) topic = Inr True"
      "eqE (j_get control ''protocol'') (Inr (JStr ''opcua'')) = Inr opcua"
    and o: "(if opcua then opcua_registered K (bc_aliases B) (bc_mapping B) path else native_registered (bc_native B) control topic) = Inr True"
    using assms by (auto simp: topic_errors_def bindE_Inr_iff split: if_splits)
  show ?thesis
  proof (cases opcua)
    case True
    then have "opcua_registered K (bc_aliases B) (bc_mapping B) path = Inr True" using o by simp
    then obtain ms m where "j_iter K (bc_mapping B) = Inr ms" "first_match (mapped_node (bc_aliases B) path) ms = Inr (Some m)"
      by (auto simp: opcua_registered_def bindE_Inr_iff)
    then show ?thesis using p True first_match_Some topic_path_ok unfolding topic_bound_def by fastforce
  next
    case False
    then have "native_registered (bc_native B) control topic = Inr True" using o by simp
    then obtain t where "j_select (bc_native B) topic = Inr t" "eqE (j_get t ''protocol'') (j_get control ''protocol'') = Inr True"
        "eqE (j_get t ''host'') (j_get control ''physical_component'') = Inr True"
      by (auto simp: native_registered_def eqE_iff bindE_Inr_iff)
    then show ?thesis using p False topic_path_ok unfolding topic_bound_def by auto
  qed
qed

theorem bindings_pass_sound:
  assumes "check_bindings K F manifest reference policies = Inr checks" and "c \<in> set checks"
    and "cc_status c = CPass"
  shows "\<exists>B errors controls. binding_context_of K F manifest policies = Inr (B, errors) \<and>
     list_of K (Inr reference) ''controls'' = Inr controls \<and>
     (\<forall>control \<in> set controls. control_unchanged B control = Inr True \<and>
        (\<exists>topics. list_of K (Inr control) ''command_topics'' = Inr topics \<and>
           (\<forall>topic \<in> set topics. topic_bound K B control topic)))"
proof -
  have "binding_errors K F manifest reference policies = Inr []"
    using assms by (auto simp: check_bindings_def conf_result_def split: if_splits sum.splits)
  then obtain B e1 controls ess where B: "binding_context_of K F manifest policies = Inr (B, e1)"
      "list_of K (Inr reference) ''controls'' = Inr controls"
      "mapE (control_errors K B) controls = Inr ess" "concat ess = []"
    by (auto simp: binding_errors_def bindE_Inr_iff)
  have "control_unchanged B control = Inr True \<and> (\<exists>topics. list_of K (Inr control) ''command_topics'' = Inr topics \<and>
      (\<forall>topic \<in> set topics. topic_bound K B control topic))" if "control \<in> set controls" for control
  proof -
    have "control_errors K B control = Inr []" using mapE_Nils [OF B(3,4) that] .
    then obtain topics es where t: "control_unchanged B control = Inr True"
        "list_of K (Inr control) ''command_topics'' = Inr topics" "mapE (topic_errors K B control) topics = Inr es" "concat es = []"
      by (auto simp: control_errors_def bindE_Inr_iff)
    then show ?thesis using mapE_Nils [OF t(3,4)] topic_errors_Nil by blast
  qed
  then show ?thesis using B(1,2) by blast
qed

section \<open>The files of a run\<close>

text \<open>
  A file as the reader sees it: its text as one JSON document and as one document for every line.
  \<open>None\<close> stands for a text that cannot be decoded, which raises a \<open>ValueError\<close>.
\<close>

record run_file =
  rf_document :: "json option"
  rf_lines :: "json option list option"

record run_reading =
  rr_records :: "json list"
  rr_commands :: "json list"
  rr_errors :: "string list"
  rr_files :: "string list list"

definition text_member :: "checker \<Rightarrow> string \<Rightarrow> json \<Rightarrow> string option" where
  "text_member K k v = (case v of JObj d \<Rightarrow> (case map_of d k of Some u \<Rightarrow> j_text K u | None \<Rightarrow> None) | _ \<Rightarrow> None)"

text \<open>The commands of the journal up to its first invalid line, and whether there is none.\<close>

fun journal_commands :: "checker \<Rightarrow> json option list \<Rightarrow> json list \<times> bool" where
  "journal_commands K [] = ([], True)"
| "journal_commands K (item # items) =
     (case item of
        Some (JObj d) \<Rightarrow>
          if map_of d ''event'' \<noteq> Some (JStr ''command_submitting'') then journal_commands K items
          else (case map_of d ''command'' of
                  None \<Rightarrow> ([], False)
                | Some command \<Rightarrow>
                    if text_member K ''correlation_id'' command = None then ([], False)
                    else (case journal_commands K items of (cs, ok) \<Rightarrow> (command # cs, ok)))
      | _ \<Rightarrow> ([], False))"

definition summary_errors :: "run_file \<Rightarrow> string list" where
  "summary_errors f =
     (case rf_document f of
        Some (JObj d) \<Rightarrow>
          if map_of d ''outcome'' = Some (JStr ''passed'') then []
          else [''scenario outcome is not passed; interpret partial work explicitly'']
      | _ \<Rightarrow> [''invalid summary.json''])"

definition read_journal :: "checker \<Rightarrow> run_file \<Rightarrow> json list \<times> string list" where
  "read_journal K f =
     (case rf_lines f of
        None \<Rightarrow> ([], [''invalid journal.jsonl''])
      | Some items \<Rightarrow> (case journal_commands K items of
                        (cs, ok) \<Rightarrow> (cs, if ok then [] else [''invalid journal.jsonl''])))"

text \<open>\<open>isalnum\<close> of a text of Latin-1 characters.\<close>

definition char_alnum :: "char \<Rightarrow> bool" where
  "char_alnum c \<longleftrightarrow>
     (let n = of_char c :: nat in
      48 \<le> n \<and> n \<le> 57 \<or> 65 \<le> n \<and> n \<le> 90 \<or> 97 \<le> n \<and> n \<le> 122 \<or>
      n \<in> {170, 178, 179, 181, 185, 186, 188, 189, 190} \<or> 192 \<le> n \<and> n \<noteq> 215 \<and> n \<noteq> 247)"

definition isalnum :: "string \<Rightarrow> bool" where
  "isalnum s \<longleftrightarrow> s \<noteq> [] \<and> list_all char_alnum s"

text \<open>The records of a trace up to its first invalid line; \<open>py_str\<close> is \<open>str\<close> of a decoded value.\<close>

fun trace_records :: "checker \<Rightarrow> string \<Rightarrow> json option list \<Rightarrow> json list \<times> string list" where
  "trace_records K cid [] = ([], [])"
| "trace_records K cid (row # rows) =
     (case row of
        None \<Rightarrow> ([], [cid @ '': invalid records.jsonl''])
      | Some v \<Rightarrow>
          (case trace_records K cid rows of (rs, es) \<Rightarrow>
             if text_member K ''correlation_id'' v = Some cid then (v # rs, es)
             else (rs, (cid @ '': trace identity mismatch'') # es)))"

definition read_trace :: "checker \<Rightarrow> string \<Rightarrow> run_file \<Rightarrow> json list \<times> string list" where
  "read_trace K cid f =
     (case rf_lines f of
        None \<Rightarrow> ([], [cid @ '': invalid records.jsonl''])
      | Some rows \<Rightarrow> trace_records K cid rows)"

definition trace_summary_errors :: "checker \<Rightarrow> (json \<Rightarrow> string) \<Rightarrow> string \<Rightarrow> run_file \<Rightarrow> string list" where
  "trace_summary_errors K py_str cid f =
     (case rf_document f of
        Some (JObj d) \<Rightarrow>
          (case (case map_of d ''collection_errors'' of None \<Rightarrow> Inr [] | Some v \<Rightarrow> j_iter K v) of
             Inl e \<Rightarrow> [cid @ '': invalid summary.json'']
           | Inr es \<Rightarrow> map (\<lambda>e. cid @ '': '' @ py_str e) es)
      | _ \<Rightarrow> [cid @ '': invalid summary.json''])"

definition read_command ::
  "checker \<Rightarrow> (json \<Rightarrow> string) \<Rightarrow> (string list \<Rightarrow> run_file option) \<Rightarrow> string \<Rightarrow> run_reading \<Rightarrow> run_reading" where
  "read_command K py_str fs cid r =
     (if \<not> isalnum cid then r\<lparr>rr_errors := rr_errors r @ [''invalid command ID directory'']\<rparr>
      else
        let r1 = (case fs [''traces'', cid, ''summary.json''] of
                    None \<Rightarrow> r\<lparr>rr_errors := rr_errors r @ [cid @ '': missing summary.json'']\<rparr>
                  | Some f \<Rightarrow> r\<lparr>rr_errors := rr_errors r @ trace_summary_errors K py_str cid f,
                                rr_files := rr_files r @ [[''traces'', cid, ''summary.json'']]\<rparr>)
        in (case fs [''traces'', cid, ''records.jsonl''] of
              None \<Rightarrow> r1\<lparr>rr_errors := rr_errors r1 @ [cid @ '': missing records.jsonl'']\<rparr>
            | Some f \<Rightarrow> r1\<lparr>rr_errors := rr_errors r1 @ snd (read_trace K cid f),
                           rr_records := rr_records r1 @ fst (read_trace K cid f),
                           rr_files := rr_files r1 @ [[''traces'', cid, ''records.jsonl'']]\<rparr>))"

definition read_top :: "checker \<Rightarrow> (string list \<Rightarrow> run_file option) \<Rightarrow> run_reading" where
  "read_top K fs =
     (let (e1, f1) = (case fs [''summary.json''] of
                        None \<Rightarrow> ([''missing summary.json''], []) | Some f \<Rightarrow> (summary_errors f, [[''summary.json'']]));
          (cs, e2, f2) = (case fs [''journal.jsonl''] of
                        None \<Rightarrow> ([], [''missing journal.jsonl''], [])
                      | Some f \<Rightarrow> (fst (read_journal K f), snd (read_journal K f), [[''journal.jsonl'']]))
      in \<lparr>rr_records = [], rr_commands = cs, rr_errors = e1 @ e2, rr_files = f1 @ f2\<rparr>)"

definition command_ids :: "checker \<Rightarrow> json list \<Rightarrow> string list" where
  "command_ids K commands = sort (remdups (List.map_filter (text_member K ''correlation_id'') commands))"

definition read_run ::
  "checker \<Rightarrow> (json \<Rightarrow> string) \<Rightarrow> (string list \<Rightarrow> run_file option) \<Rightarrow> run_reading" where
  "read_run K py_str fs = (let r = read_top K fs in fold (read_command K py_str fs) (command_ids K (rr_commands r)) r)"

lemma trace_records_ids: "v \<in> set (fst (trace_records K cid rows)) \<Longrightarrow> text_member K ''correlation_id'' v = Some cid"
  by (induction rows) (auto split: option.splits prod.splits if_splits)

lemma trace_records_complete:
  "snd (trace_records K cid rows) = [] \<Longrightarrow> map Some (fst (trace_records K cid rows)) = rows"
  by (induction rows) (auto split: option.splits prod.splits if_splits)

text \<open>What reading one command adds.\<close>

lemma read_command_grows:
  "rr_errors (read_command K py_str fs cid r) = [] \<Longrightarrow> rr_errors r = []"
  "set (rr_records r) \<subseteq> set (rr_records (read_command K py_str fs cid r))"
  by (auto simp: read_command_def Let_def split: option.splits if_splits)

lemma read_command_records:
  "v \<in> set (rr_records (read_command K py_str fs cid r)) \<Longrightarrow>
     v \<in> set (rr_records r) \<or> text_member K ''correlation_id'' v = Some cid"
  by (auto simp: read_command_def Let_def read_trace_def dest: trace_records_ids split: option.splits if_splits)

lemma read_command_complete:
  assumes "rr_errors (read_command K py_str fs cid r) = []"
  shows "isalnum cid \<and> fs [''traces'', cid, ''summary.json''] \<noteq> None \<and>
     (\<exists>f rows. fs [''traces'', cid, ''records.jsonl''] = Some f \<and> rf_lines f = Some (map Some rows) \<and>
        set rows \<subseteq> set (rr_records (read_command K py_str fs cid r)))"
proof -
  have a: "isalnum cid" "fs [''traces'', cid, ''summary.json''] \<noteq> None"
    using assms by (auto simp: read_command_def Let_def split: if_splits option.splits)
  obtain f where f: "fs [''traces'', cid, ''records.jsonl''] = Some f" "snd (read_trace K cid f) = []"
      "set (fst (read_trace K cid f)) \<subseteq> set (rr_records (read_command K py_str fs cid r))"
    using assms by (auto simp: read_command_def Let_def split: if_splits option.splits)
  obtain rows where rows: "rf_lines f = Some rows" "read_trace K cid f = trace_records K cid rows"
    using f(2) by (auto simp: read_trace_def split: option.splits)
  have "rows = map Some (fst (trace_records K cid rows))"
    using trace_records_complete [of K cid rows] f(2) rows(2) by simp
  then show ?thesis using a f rows by metis
qed

lemma fold_read_grows:
  "rr_errors (fold (read_command K py_str fs) cids r) = [] \<Longrightarrow> rr_errors r = []"
  "set (rr_records r) \<subseteq> set (rr_records (fold (read_command K py_str fs) cids r))"
proof (induction cids arbitrary: r)
  case (Cons cid cids)
  {
    case 1
    show ?case using Cons.IH(1) [of "read_command K py_str fs cid r"] 1 read_command_grows(1) by simp
  next
    case 2
    show ?case using Cons.IH(2) [of "read_command K py_str fs cid r"] read_command_grows(2) [of r K py_str fs cid] by simp
  }
qed simp_all

lemma fold_read_records:
  "v \<in> set (rr_records (fold (read_command K py_str fs) cids r)) \<Longrightarrow>
     v \<in> set (rr_records r) \<or> (\<exists>cid \<in> set cids. text_member K ''correlation_id'' v = Some cid)"
  by (induction cids arbitrary: r) (auto dest: read_command_records)

lemma fold_read_complete:
  assumes "rr_errors (fold (read_command K py_str fs) cids r) = []" and "cid \<in> set cids"
  shows "isalnum cid \<and> fs [''traces'', cid, ''summary.json''] \<noteq> None \<and>
     (\<exists>f rows. fs [''traces'', cid, ''records.jsonl''] = Some f \<and> rf_lines f = Some (map Some rows) \<and>
        set rows \<subseteq> set (rr_records (fold (read_command K py_str fs) cids r)))"
  using assms
proof (induction cids arbitrary: r)
  case (Cons c cids)
  let ?r = "read_command K py_str fs c r"
  show ?case
  proof (cases "cid \<in> set cids")
    case True
    then show ?thesis using Cons by simp
  next
    case False
    then have c: "c = cid" using Cons.prems(2) by simp
    have "rr_errors ?r = []" using fold_read_grows(1) Cons.prems(1) by simp
    from read_command_complete [OF this] show ?thesis
      using fold_read_grows(2) [of ?r K py_str fs cids] c by auto
  qed
qed simp

lemma read_top_fresh: "rr_records (read_top K fs) = []"
  by (simp add: read_top_def split: prod.splits)

lemma read_top_complete:
  "rr_errors (read_top K fs) = [] \<Longrightarrow> fs [''summary.json''] \<noteq> None \<and> fs [''journal.jsonl''] \<noteq> None"
  by (auto simp: read_top_def split: option.splits prod.splits)

lemma fold_read_commands: "rr_commands (fold (read_command K py_str fs) cids r) = rr_commands r"
proof -
  have "rr_commands (read_command K py_str fs cid r) = rr_commands r" for cid r
    by (simp add: read_command_def Let_def split: option.splits)
  then show ?thesis by (induction cids arbitrary: r) auto
qed

text \<open>
  Reading the directory of a run loses nothing silently: every record returned belongs to a
  command the journal announces, and if no error is reported then both files of the run are there
  and, for every announced command, both files of its trace, each line of which is among the records.
\<close>

theorem run_reading_complete:
  "(\<forall>v \<in> set (rr_records (read_run K py_str fs)).
      \<exists>cid \<in> set (command_ids K (rr_commands (read_run K py_str fs))). text_member K ''correlation_id'' v = Some cid) \<and>
   (rr_errors (read_run K py_str fs) = [] \<longrightarrow>
      fs [''summary.json''] \<noteq> None \<and> fs [''journal.jsonl''] \<noteq> None \<and>
      (\<forall>cid \<in> set (command_ids K (rr_commands (read_run K py_str fs))).
         isalnum cid \<and> fs [''traces'', cid, ''summary.json''] \<noteq> None \<and>
         (\<exists>f rows. fs [''traces'', cid, ''records.jsonl''] = Some f \<and> rf_lines f = Some (map Some rows) \<and>
            set rows \<subseteq> set (rr_records (read_run K py_str fs)))))"
proof (intro conjI impI ballI)
  let ?r = "read_top K fs"
  let ?cids = "command_ids K (rr_commands ?r)"
  have run: "read_run K py_str fs = fold (read_command K py_str fs) ?cids ?r"
    by (simp add: read_run_def Let_def)
  have same: "rr_commands (read_run K py_str fs) = rr_commands ?r"
    by (simp add: run fold_read_commands)
  {
    fix v assume "v \<in> set (rr_records (read_run K py_str fs))"
    then show "\<exists>cid \<in> set (command_ids K (rr_commands (read_run K py_str fs))). text_member K ''correlation_id'' v = Some cid"
      using fold_read_records [of v K py_str fs ?cids ?r] read_top_fresh same unfolding run by auto
  }
  assume e: "rr_errors (read_run K py_str fs) = []"
  then have "rr_errors ?r = []" using fold_read_grows(1) unfolding run by blast
  then show "fs [''summary.json''] \<noteq> None" "fs [''journal.jsonl''] \<noteq> None" using read_top_complete by blast+
  fix cid assume cid: "cid \<in> set (command_ids K (rr_commands (read_run K py_str fs)))"
  from fold_read_complete [OF e [unfolded run] cid [unfolded same]]
  show "isalnum cid" "fs [''traces'', cid, ''summary.json''] \<noteq> None"
    "\<exists>f rows. fs [''traces'', cid, ''records.jsonl''] = Some f \<and> rf_lines f = Some (map Some rows) \<and>
       set rows \<subseteq> set (rr_records (read_run K py_str fs))"
    unfolding run by blast+
qed

end
