(* ===== verification/Data_Conformance.thy ===== *)
theory Data_Conformance
  imports Conformance_Execution
begin

text \<open>
  The checks of the consumer experiment (\<open>scripts/data_conformance.py\<close>): the decisions a replay of
  the decision agent recorded are compared, step by step, with the pinned plan. The policy, the plan
  and the evidence are decoded JSON; their digests, and Python's \<open>str\<close>, are arguments. Within one
  step an exception keeps the mismatches found before it and leaves a gap.
\<close>

record data_env =
  de_policy :: json
  de_plan :: json
  de_policy_sha :: string
  de_plan_sha :: string
  de_str :: "json \<Rightarrow> string"

section \<open>Values and texts\<close>

fun decimal :: "nat \<Rightarrow> string" where
  "decimal n = (if n < 10 then [''0123456789'' ! n] else decimal (n div 10) @ [''0123456789'' ! (n mod 10)])"

declare decimal.simps [simp del]

fun hex_length :: "nat \<Rightarrow> nat" where
  "hex_length n = (if n < 16 then 1 else Suc (hex_length (n div 16)))"

declare hex_length.simps [simp del]

text \<open>\<open>f"{n:04x}"\<close>.\<close>

definition hex04 :: "json \<Rightarrow> string res" where
  "hex04 v =
     (case int_of_num v of
        None \<Rightarrow> Inl (ValueError ''Unknown format code x'')
      | Some n \<Rightarrow>
          Inr (if 0 \<le> n then hex_pad (max 4 (hex_length (nat n))) n
               else CHR ''-'' # hex_pad (max 3 (hex_length (nat (- n)))) (- n)))"

text \<open>\<open>v[key]\<close> for a key of any type.\<close>

definition j_at :: "checker \<Rightarrow> json \<Rightarrow> json \<Rightarrow> json res" where
  "j_at K v key =
     (case j_text K key of
        Some s \<Rightarrow> j_get v s
      | None \<Rightarrow> if hashable key then Inl (KeyError ''key'') else Inl (TypeError ''unhashable type''))"

definition is_text :: "checker \<Rightarrow> json \<Rightarrow> string \<Rightarrow> bool" where
  "is_text K v s \<longleftrightarrow> j_text K v = Some s"

definition has_keys :: "string list \<Rightarrow> json \<Rightarrow> bool" where
  "has_keys ks v = (case v of JObj d \<Rightarrow> set ks \<subseteq> fst ` set d | _ \<Rightarrow> False)"

definition constant_is :: "json \<Rightarrow> json \<Rightarrow> bool" where
  "constant_is a b \<longleftrightarrow> a = b"

section \<open>The state of a case\<close>

record case_state =
  cs_errors :: "string list"
  cs_gaps :: "string list"
  cs_instance :: "string option"
  cs_seen :: "string list"
  cs_commands :: "string list"

type_synonym 'a case_act = "(case_state, 'a) act"

definition at_step :: "nat \<Rightarrow> string \<Rightarrow> string" where
  "at_step index msg = ''step '' @ decimal index @ '': '' @ msg"

definition mismatch :: "nat \<Rightarrow> string \<Rightarrow> unit case_act" where
  "mismatch index msg = putS (\<lambda>s. s\<lparr>cs_errors := cs_errors s @ [at_step index msg]\<rparr>)"

text \<open>\<open>if not ok: errors.append(msg)\<close>.\<close>

definition expect_that :: "nat \<Rightarrow> bool res \<Rightarrow> string \<Rightarrow> unit case_act" where
  "expect_that index ok msg = bindS (liftS ok) (\<lambda>b. if b then retS () else mismatch index msg)"

definition op_is :: "json \<Rightarrow> string \<Rightarrow> bool res" where
  "op_is step op = eqE (j_get step ''op'') (Inr (JStr op))"

definition kind_is :: "json \<Rightarrow> string \<Rightarrow> bool res" where
  "kind_is expected kind = eqE (j_get expected ''kind'') (Inr (JStr kind))"

section \<open>One step\<close>

definition step_topic :: "checker \<Rightarrow> data_env \<Rightarrow> json \<Rightarrow> json res" where
  "step_topic K E expected =
     bindE (kind_is expected ''state'') (\<lambda>state.
       if state then bindE (j_path (de_policy E) [''state'', ''topic_bindings'']) (\<lambda>b. bindE (j_get expected ''stream'') (j_at K b))
       else j_path (de_policy E) [''inspection'', ''topic''])"

definition without_expect :: "json \<Rightarrow> json" where
  "without_expect step = JObj (filter (\<lambda>(k, v). k \<noteq> ''expect'') (obj_members step))"

text \<open>The inputs of the step, and the consumer instance that took it.\<close>

definition check_input :: "checker \<Rightarrow> data_env \<Rightarrow> datetime \<Rightarrow> nat \<Rightarrow> json \<Rightarrow> json \<Rightarrow> json \<Rightarrow> datetime case_act" where
  "check_input K E base index expected step record =
     thenS (guardS (has_keys [''command''] record) (KeyError ''missing decision record''))
    (bindS (liftS (step_topic K E expected)) (\<lambda>topic.
     thenS (expect_that index (eqE (j_get record ''topic'') (Inr topic)) ''topic binding mismatch'')
    (thenS (expect_that index (eqE (j_get record ''input'') (Inr (without_expect step))) ''input differs from pinned case'')
    (bindS (liftS (bindE (j_get step ''now_s'') (plus_seconds base))) (\<lambda>now.
     thenS (expect_that index (bindE (j_get record ''now'') (\<lambda>v. Inr (is_text K v (ck_iso K now)))) ''evaluation time mismatch'')
       (retS now))))))"

definition check_instance :: "checker \<Rightarrow> nat \<Rightarrow> json \<Rightarrow> json \<Rightarrow> unit case_act" where
  "check_instance K index step record =
     bindS (liftS (j_get record ''consumer_instance'')) (\<lambda>v.
     bindS (liftS (case j_text K v of
                     None \<Rightarrow> Inl (ValueError ''missing instance'')
                   | Some s \<Rightarrow> if s = [] then Inl (ValueError ''missing instance'') else Inr s)) (\<lambda>current.
     bindS (liftS (op_is step ''consumer_restart'')) (\<lambda>restart.
     bindS (getS id) (\<lambda>s.
     thenS (if restart
            then whenS (current \<in> set (cs_seen s)) (mismatch index ''consumer restart did not create a fresh instance'')
            else whenS (cs_instance s \<noteq> None \<and> cs_instance s \<noteq> Some current) (mismatch index ''unrecorded consumer restart''))
       (putS (\<lambda>s. s\<lparr>cs_instance := Some current, cs_seen := cs_seen s @ [current]\<rparr>))))))"

definition member_is :: "json \<Rightarrow> string \<Rightarrow> json res \<Rightarrow> bool res" where
  "member_is v k u = eqE (j_lookup v k) u"

definition time_is :: "checker \<Rightarrow> json \<Rightarrow> string \<Rightarrow> datetime \<Rightarrow> bool res" where
  "time_is K v k t = bindE (j_lookup v k) (\<lambda>u. Inr (is_text K u (ck_iso K t)))"

definition same_constant :: "json res \<Rightarrow> json res \<Rightarrow> bool res" where
  "same_constant = liftE2 (\<lambda>a b. Inr (constant_is a b))"

definition inspection_identity :: "checker \<Rightarrow> data_env \<Rightarrow> json \<Rightarrow> string res" where
  "inspection_identity K E step =
     bindE (j_get step ''session'') (\<lambda>s. bindE (bindE (j_get step ''sequence'') hex04) (\<lambda>h.
       Inr ((case j_text K s of Some t \<Rightarrow> t | None \<Rightarrow> de_str E s) @ '':'' @ h)))"

definition check_inspection :: "checker \<Rightarrow> data_env \<Rightarrow> nat \<Rightarrow> json \<Rightarrow> json \<Rightarrow> json \<Rightarrow> json \<Rightarrow> datetime \<Rightarrow> unit case_act" where
  "check_inspection K E index step wish decision payload taken =
     bindS (liftS (inspection_identity K E step)) (\<lambda>identity.
     thenS (expect_that index
       (andE (bindE (j_lookup payload ''inspection_id'') (\<lambda>v. Inr (is_text K v identity)))
       (andE (member_is payload ''bottle_id'' (j_get step ''bottle_id''))
       (andE (same_constant (j_lookup payload ''passed'') (j_get step ''passed''))
             (time_is K payload ''inspected_at'' taken)))) ''inspection payload/input mismatch'')
    (thenS (guardS (has_keys [''late_sequence''] decision) (KeyError ''missing late event diagnostic''))
    (thenS (expect_that index (same_constant (j_get decision ''late_sequence'') (j_get wish ''late_sequence''))
              ''late event diagnostic incorrect'')
    (thenS (guardS (has_keys [''missing_sequences''] decision) (KeyError ''missing coverage diagnostic''))
       (expect_that index (member_is decision ''missing_sequences'' (j_get wish ''missing_sequences''))
          ''missing snapshot diagnostic incorrect'')))))"

definition check_receive :: "checker \<Rightarrow> data_env \<Rightarrow> datetime \<Rightarrow> nat \<Rightarrow> json \<Rightarrow> json \<Rightarrow> json \<Rightarrow> json \<Rightarrow> unit case_act" where
  "check_receive K E base index expected step wish record =
     bindS (liftS (j_get record ''decision'')) (\<lambda>decision.
     thenS (guardS (has_keys [''accepted'', ''reason''] decision) (KeyError ''missing decision fields''))
    (thenS (expect_that index
       (andE (same_constant (j_lookup decision ''accepted'') (j_get wish ''accepted''))
             (member_is decision ''reason'' (j_get wish ''reason''))) ''consumer decision violates selected policy'')
    (bindS (liftS (bindE (j_get step ''source_s'') (plus_seconds base))) (\<lambda>taken.
     bindS (liftS (j_get record ''payload'')) (\<lambda>payload.
     thenS (guardS (is_obj payload) (KeyError ''missing payload''))
    (bindS (liftS (kind_is expected ''state'')) (\<lambda>state.
       if state
       then expect_that index
              (andE (member_is payload ''sosa:hasSimpleResult'' (j_get step ''value''))
              (andE (time_is K payload ''sosa:resultTime'' taken)
                    (member_is payload ''eirvah:quality'' (j_get step ''quality'')))) ''state payload/input mismatch''
       else check_inspection K E index step wish decision payload taken)))))))"

section \<open>The command of a step\<close>

definition command_deadline :: "data_env \<Rightarrow> datetime \<Rightarrow> json \<Rightarrow> datetime res" where
  "command_deadline E base step =
     bindE (liftE2 j_plus (j_get step ''source_s'') (j_path (de_policy E) [''inspection'', ''max_age_s''])) (plus_seconds base)"

definition opt_dt_eq :: "datetime option \<Rightarrow> datetime \<Rightarrow> bool" where
  "opt_dt_eq d t = (case d of None \<Rightarrow> False | Some u \<Rightarrow> dt_eq u t)"

definition check_request_binding :: "data_env \<Rightarrow> datetime \<Rightarrow> nat \<Rightarrow> json \<Rightarrow> json \<Rightarrow> actuation_request \<Rightarrow> unit case_act" where
  "check_request_binding E base index expected step request =
     bindS (liftS (kind_is expected ''event'')) (\<lambda>event.
       if event
       then bindS (liftS (command_deadline E base step)) (\<lambda>deadline.
              expect_that index
                (andE (Inr (opt_dt_eq (ar_deadline request) deadline))
                (andE (Inr (ar_value_type request = TInt64))
                      (eqE (Inr (JStr (ar_target_uns_topic request))) (j_path (de_policy E) [''command_topics'', ''reject'']))))
                ''inspection/command binding mismatch'')
       else expect_that index
              (andE (Inr (ar_value_type request = TDouble))
                    (eqE (Inr (JStr (ar_target_uns_topic request))) (j_path (de_policy E) [''command_topics'', ''temperature''])))
              ''state/command binding mismatch'')"

definition observed_command :: "json \<Rightarrow> datetime \<Rightarrow> actuation_request \<Rightarrow> bool res" where
  "observed_command wish now request =
     andE (eqE (Inr (json_of_value (ar_requested_value request))) (j_get wish ''command_value''))
       (Inr (dt_eq (ar_requested_at request) now \<and> ar_requester request = ''decision-agent-stub'' \<and>
             is_valid_correlation_id (ar_correlation_id request)))"

definition fresh_identity :: "nat \<Rightarrow> actuation_request \<Rightarrow> unit case_act" where
  "fresh_identity index request =
     bindS (getS cs_commands) (\<lambda>ids.
     thenS (whenS (ar_correlation_id request \<in> set ids) (mismatch index ''command identity reused for another decision''))
       (putS (\<lambda>s. s\<lparr>cs_commands := cs_commands s @ [ar_correlation_id request]\<rparr>)))"

definition check_decided :: "checker \<Rightarrow> data_env \<Rightarrow> datetime \<Rightarrow> nat \<Rightarrow> json \<Rightarrow> json \<Rightarrow> json \<Rightarrow> json \<Rightarrow> datetime \<Rightarrow> unit case_act" where
  "check_decided K E base index expected step wish record now =
     bindS (liftS (j_lookup record ''command'')) (\<lambda>command.
     bindS (liftS (j_get wish ''command_value'')) (\<lambda>wanted.
       if wanted = JNull then whenS (command \<noteq> JNull) (mismatch index ''unexpected command decision'')
       else if command = JNull then mismatch index ''expected decision absent''
       else bindS (liftS (ck_request K command)) (\<lambda>request.
            thenS (expect_that index (observed_command wish now request) ''command does not match observed work'')
           (thenS (fresh_identity index request)
                  (check_request_binding E base index expected step request)))))"

section \<open>The state of a step, and a case\<close>

definition latest_is :: "checker \<Rightarrow> datetime option \<Rightarrow> json \<Rightarrow> bool" where
  "latest_is K latest v = (case latest of None \<Rightarrow> v = JNull | Some t \<Rightarrow> is_text K v (ck_iso K t))"

definition check_state :: "checker \<Rightarrow> nat \<Rightarrow> datetime option \<Rightarrow> json \<Rightarrow> json \<Rightarrow> json \<Rightarrow> unit case_act" where
  "check_state K index latest expected wish record =
     bindS (liftS (kind_is expected ''state'')) (\<lambda>state.
       whenS state
         (bindS (liftS (j_get record ''state'')) (\<lambda>snapshot.
          thenS (guardS (has_keys [''status'', ''value'', ''source_timestamp''] snapshot) (KeyError ''missing state snapshot''))
            (expect_that index
               (andE (member_is snapshot ''status'' (j_get wish ''status''))
               (andE (member_is snapshot ''value'' (j_get wish ''value''))
                     (bindE (j_lookup snapshot ''source_timestamp'') (\<lambda>v. Inr (latest_is K latest v)))))
               ''latest state/freshness mismatch''))))"

definition step_checks ::
  "checker \<Rightarrow> data_env \<Rightarrow> datetime \<Rightarrow> nat \<Rightarrow> datetime option \<Rightarrow> json \<Rightarrow> json \<Rightarrow> json \<Rightarrow> unit case_act" where
  "step_checks K E base index latest expected step record =
     bindS (check_input K E base index expected step record) (\<lambda>now.
     thenS (check_instance K index step record)
    (bindS (liftS (j_get step ''expect'')) (\<lambda>wish.
     bindS (liftS (op_is step ''receive'')) (\<lambda>receive.
     thenS (whenS receive (check_receive K E base index expected step wish record))
    (thenS (check_decided K E base index expected step wish record now)
           (check_state K index latest expected wish record))))))"

text \<open>\<open>except (KeyError, TypeError, ValueError, OverflowError)\<close>.\<close>

definition gap_exn :: "exn \<Rightarrow> bool" where
  "gap_exn e \<longleftrightarrow> malformed e \<or> (case e of OverflowError m \<Rightarrow> True | _ \<Rightarrow> False)"

definition guarded_step ::
  "checker \<Rightarrow> data_env \<Rightarrow> datetime \<Rightarrow> nat \<Rightarrow> datetime option \<Rightarrow> json \<Rightarrow> json \<Rightarrow> json \<Rightarrow> unit case_act" where
  "guarded_step K E base index latest expected step record =
     tryS (step_checks K E base index latest expected step record)
       (\<lambda>e. if gap_exn e
            then putS (\<lambda>s. s\<lparr>cs_gaps := cs_gaps s @ [at_step index ''evidence missing or malformed'']\<rparr>)
            else raiseS e)
       retS"

text \<open>The source time the oracle expects next, whatever records survived.\<close>

definition next_latest :: "datetime \<Rightarrow> json \<Rightarrow> json \<Rightarrow> datetime option \<Rightarrow> datetime option res" where
  "next_latest base expected step latest =
     bindE (kind_is expected ''state'') (\<lambda>state.
       if \<not> state then Inr latest
       else bindE (op_is step ''consumer_restart'') (\<lambda>restart.
         if restart then Inr None
         else bindE (andE (op_is step ''receive'')
                          (bindE (j_path step [''expect'', ''accepted'']) (\<lambda>v. Inr (j_truthy v)))) (\<lambda>taken.
           if taken then bindE (bindE (j_get step ''source_s'') (plus_seconds base)) (\<lambda>t. Inr (Some t)) else Inr latest)))"

fun case_steps ::
  "checker \<Rightarrow> data_env \<Rightarrow> datetime \<Rightarrow> json \<Rightarrow> nat \<Rightarrow> datetime option \<Rightarrow> (json \<times> json) list \<Rightarrow> unit case_act" where
  "case_steps K E base expected index latest [] = retS ()"
| "case_steps K E base expected index latest ((step, record) # rest) =
     bindS (liftS (next_latest base expected step latest)) (\<lambda>latest'.
     thenS (guarded_step K E base index latest' expected step record)
           (case_steps K E base expected (Suc index) latest' rest))"

definition data_check :: "string \<Rightarrow> conf_status \<Rightarrow> string \<Rightarrow> json list \<Rightarrow> bool \<Rightarrow> conf_check" where
  "data_check name status reason evidence executed =
     conf_result name status reason ''selected_production_consumer_replay'' evidence executed"

definition case_name :: "checker \<Rightarrow> json \<Rightarrow> string res" where
  "case_name K expected =
     bindE (kind_is expected ''state'') (\<lambda>state. bindE (j_get expected ''id'') (\<lambda>i.
       case j_text K i of
         None \<Rightarrow> Inl (TypeError ''can only concatenate str'')
       | Some s \<Rightarrow> Inr ((if state then ''C05.'' else ''C06.'') @ s)))"

text \<open>A case whose records are as many as its steps.\<close>

definition replayed_case ::
  "checker \<Rightarrow> data_env \<Rightarrow> datetime \<Rightarrow> string \<Rightarrow> json \<Rightarrow> json list \<Rightarrow> json list \<Rightarrow> string list \<Rightarrow> (conf_check \<times> string list) res" where
  "replayed_case K E base name expected steps records ids =
     (case case_steps K E base expected 0 None (zip steps records)
             \<lparr>cs_errors = [], cs_gaps = [], cs_instance = None, cs_seen = [], cs_commands = ids\<rparr> of
        (s, Inl e) \<Rightarrow> Inl e
      | (s, Inr u) \<Rightarrow>
          bindE (j_get expected ''id'') (\<lambda>i.
          Inr (data_check name (if cs_errors s \<noteq> [] then CFail else if cs_gaps s \<noteq> [] then CUnknown else CPass)
                 ''Pinned finite input/refusal/restart case checked against recorded production-code decisions''
                 (if cs_errors s @ cs_gaps s \<noteq> [] then map JStr (cs_errors s @ cs_gaps s) else [i, JInt (int (length records))]) True,
               cs_commands s)))"

definition case_check ::
  "checker \<Rightarrow> data_env \<Rightarrow> datetime \<Rightarrow> (string \<times> json) list \<Rightarrow> json \<Rightarrow> string list \<Rightarrow> (conf_check \<times> string list) res" where
  "case_check K E base by_id expected ids =
     bindE (case_name K expected) (\<lambda>name.
     bindE (j_get expected ''id'') (\<lambda>i.
     case (case map_of by_id (the (j_text K i)) of
             None \<Rightarrow> None
           | Some c \<Rightarrow> (case member ''records'' c of JArr rs \<Rightarrow> Some rs | _ \<Rightarrow> None)) of
       None \<Rightarrow> Inr (data_check name CUnknown ''Required consumer case not captured'' [] False, ids)
     | Some records \<Rightarrow>
         bindE (bindE (j_get expected ''steps'') (j_iter K)) (\<lambda>steps.
           if length records \<noteq> length steps
           then Inr (data_check name (if length records < length steps then CUnknown else CFail)
                       ''Case sequence incomplete or contains extra records'' [] True, ids)
           else replayed_case K E base name expected steps records ids)))"

fun case_checks ::
  "checker \<Rightarrow> data_env \<Rightarrow> datetime \<Rightarrow> (string \<times> json) list \<Rightarrow> json list \<Rightarrow> string list \<Rightarrow> conf_check list res" where
  "case_checks K E base by_id [] ids = Inr []"
| "case_checks K E base by_id (expected # rest) ids =
     bindE (case_check K E base by_id expected ids) (\<lambda>(c, ids').
     bindE (case_checks K E base by_id rest ids') (\<lambda>cs. Inr (c # cs)))"

section \<open>The package\<close>

definition attributed :: "string list" where
  "attributed =
     [''scripts/state_event_case.py'', ''scripts/data_conformance.py'',
      ''services/decision-agent-stub/src/decision_agent_stub/service.py'',
      ''services/decision-agent-stub/src/decision_agent_stub/state.py'',
      ''services/decision-agent-stub/src/decision_agent_stub/inspection.py'',
      ''services/decision-agent-stub/src/decision_agent_stub/config.py'',
      ''libs/eirvah-contracts/src/eirvah_contracts/inspection.py'']"

definition source_attribution :: "checker \<Rightarrow> doc \<Rightarrow> bool" where
  "source_attribution K package =
     (case map_of package ''source_sha256'' of
        Some (JObj hashes) \<Rightarrow>
          set attributed \<subseteq> fst ` set hashes \<and>
          list_all (\<lambda>(k, v). case j_text K v of
             Some s \<Rightarrow> length s = 64 \<and> list_all (\<lambda>c. c \<in> set hex_digits) s | None \<Rightarrow> False) hashes
      | _ \<Rightarrow> False)"

definition replay_mode :: string where
  "replay_mode = ''in_process_virtual_time_no_transport_no_actuation''"

definition package_bound :: "checker \<Rightarrow> data_env \<Rightarrow> json \<Rightarrow> bool" where
  "package_bound K E package =
     (case package of
        JObj d \<Rightarrow>
          map_of d ''schema_version'' = Some (JStr ''1.0'') \<and> map_of d ''execution_mode'' = Some (JStr replay_mode) \<and>
          map_of d ''policy_sha256'' = Some (JStr (de_policy_sha E)) \<and> map_of d ''plan_sha256'' = Some (JStr (de_plan_sha E)) \<and>
          (case map_of d ''cases'' of Some (JArr cs) \<Rightarrow> True | _ \<Rightarrow> False) \<and> source_attribution K d
      | _ \<Rightarrow> False)"

definition integrity_check :: "conf_status \<Rightarrow> string \<Rightarrow> json list \<Rightarrow> conf_check" where
  "integrity_check status reason evidence = data_check ''C12.data_integrity'' status reason evidence True"

fun index_cases :: "checker \<Rightarrow> json list \<Rightarrow> (string \<times> json) list \<Rightarrow> (string \<times> json) list \<times> conf_check list" where
  "index_cases K [] by_id = (by_id, [])"
| "index_cases K (c # cs) by_id =
     (case j_text K (member ''id'' c) of
        None \<Rightarrow>
          (case index_cases K cs by_id of
             (r, checks) \<Rightarrow> (r, integrity_check CUnknown ''Malformed consumer case'' [] # checks))
      | Some i \<Rightarrow>
          (case index_cases K cs (AList.update i c by_id) of
             (r, checks) \<Rightarrow>
               (r, (if i \<in> fst ` set by_id
                    then [integrity_check CFail ''Duplicated consumer case identity'' [member ''id'' c]] else []) @ checks)))"

definition unpinned :: "checker \<Rightarrow> data_env \<Rightarrow> (string \<times> json) list \<Rightarrow> string list res" where
  "unpinned K E by_id =
     bindE (bindE (bindE (j_get (de_policy E) ''required_cases'') (j_iter K)) j_set) (\<lambda>required.
       Inr (sort (remdups (filter (\<lambda>i. \<not> list_ex (\<lambda>r. is_text K r i) required) (map fst by_id)))))"

definition undeployed_checks :: "conf_check list" where
  "undeployed_checks =
     map (\<lambda>(name, reason). data_check name CUnknown reason [] False)
       [(''C05.source_epochs'', ''Legacy timestamp-only replay supplies no deployed source epoch/sequence evidence''),
        (''C05.deployed_restart'', ''In-process recreation is not a measured pod/device restart''),
        (''C06.business_effects'', ''No native write, acknowledgement or physical rejection counter is supplied by consumer replay''),
        (''C06.delivery_coverage'', ''Consumer replay alone supplies no complete source-event and durable-receipt reconciliation''),
        (''C06.durable_recovery'', ''Legacy memory-only replay supplies no deployed durable ownership and command recovery evidence'')]"

definition replay_checks :: "checker \<Rightarrow> data_env \<Rightarrow> datetime \<Rightarrow> json list \<Rightarrow> conf_check list res" where
  "replay_checks K E base cases =
     (let (by_id, malformed_checks) = index_cases K cases [] in
      bindE (unpinned K E by_id) (\<lambda>extra.
      bindE (bindE (bindE (j_get (de_plan E) ''cases'') (j_iter K)) (\<lambda>plan. case_checks K E base by_id plan [])) (\<lambda>checks.
        Inr (malformed_checks @
             (if extra \<noteq> [] then [integrity_check CFail ''Unpinned cases in evidence'' (map JStr extra)] else []) @
             checks @ undeployed_checks))))"

definition replay_origin :: "json \<Rightarrow> datetime res" where
  "replay_origin package = bindE (j_get package ''virtual_origin'') aware_time"

definition check_data_evidence :: "checker \<Rightarrow> data_env \<Rightarrow> json \<Rightarrow> conf_check list res" where
  "check_data_evidence K E package =
     (if \<not> package_bound K E package
      then Inr (map (\<lambda>r. data_check (r @ ''.data_evidence'') CUnknown
                       ''Valid policy-bound consumer evidence not supplied'' [] False) [''C05'', ''C06''])
      else case replay_origin package of
        Inl e \<Rightarrow> if malformed e then Inr [data_check ''C05.data_evidence'' CUnknown ''Injected clock origin unavailable'' [] False]
                 else Inl e
      | Inr base \<Rightarrow> bindE (bindE (j_get package ''cases'') (j_iter K)) (replay_checks K E base))"

section \<open>What a passed case shows\<close>

text \<open>Neither a mismatch nor a gap; the code only ever adds to both lists.\<close>

definition unmarked :: "case_state \<Rightarrow> bool" where
  "unmarked s \<longleftrightarrow> cs_errors s = [] \<and> cs_gaps s = []"

abbreviation noted :: "(case_state, 'a) act \<Rightarrow> bool" where
  "noted m \<equiv> keeps (\<lambda>s. \<not> unmarked s) m"

lemma noted_mismatch [edge_intros]: "noted (mismatch index msg)"
  by (auto simp: mismatch_def unmarked_def intro: keeps_putS)

lemma noted_expect_that [edge_intros]: "noted (expect_that index ok msg)"
  unfolding expect_that_def by (intro edge_intros)

lemma noted_parts [edge_intros]:
  "noted (check_input K E base index expected step record)" "noted (check_instance K index step record)"
  "noted (check_inspection K E index step wish decision payload taken)"
  "noted (check_request_binding E base index expected step request)" "noted (fresh_identity index request)"
  "noted (check_state K index latest expected wish record)"
  unfolding check_input_def check_instance_def check_inspection_def check_request_binding_def fresh_identity_def check_state_def
  by (intro edge_intros keeps_putS; simp add: unmarked_def)+

lemma noted_wholes [edge_intros]:
  "noted (check_receive K E base index expected step wish record)"
  "noted (check_decided K E base index expected step wish record now)"
  unfolding check_receive_def check_decided_def by (intro edge_intros)+

lemma noted_step [edge_intros]:
  "noted (step_checks K E base index latest expected step record)"
  "noted (guarded_step K E base index latest expected step record)"
proof -
  show s: "noted (step_checks K E base index latest expected step record)"
    unfolding step_checks_def by (intro edge_intros)
  show "noted (guarded_step K E base index latest expected step record)"
    unfolding guarded_step_def by (intro edge_intros keeps_putS s) (simp add: unmarked_def)
qed

lemma noted_steps [edge_intros]: "noted (case_steps K E base expected index latest srs)"
proof (induction K E base expected index latest srs rule: case_steps.induct)
  case (2 K E base expected index latest step r rest)
  show ?case unfolding case_steps.simps by (intro edge_intros 2)
qed (simp only: case_steps.simps edge_intros)

text \<open>What holds of the result whenever an operation ends and the state is still unmarked.\<close>

definition ends :: "('a \<Rightarrow> bool) \<Rightarrow> 'a case_act \<Rightarrow> bool" where
  "ends Q m \<longleftrightarrow> (\<forall>s s' a. m s = (s', Inr a) \<longrightarrow> unmarked s' \<longrightarrow> Q a)"

lemma ends_bind:
  assumes "ends P m" and "\<And>a. P a \<Longrightarrow> ends Q (f a)" and "\<And>a. noted (f a)"
  shows "ends Q (bindS m f)"
  unfolding ends_def
proof (intro allI impI)
  fix s s' b assume "bindS m f s = (s', Inr b)" and q: "unmarked s'"
  then obtain s1 a where m: "m s = (s1, Inr a)" "f a s1 = (s', Inr b)" by (auto simp: bindS_Inr_iff)
  moreover have "unmarked s1" using keepsD [OF assms(3) _ m(2)] q by blast
  ultimately show "Q b" using assms(1,2) q unfolding ends_def by blast
qed

lemma ends_then: "ends Q n \<Longrightarrow> ends Q (thenS m n)"
  by (auto simp: ends_def bindS_Inr_iff)

lemma ends_lift: "(\<And>a. r = Inr a \<Longrightarrow> ends Q (f a)) \<Longrightarrow> ends Q (bindS (liftS r) f)"
  by (auto simp: ends_def bindS_Inr_iff)

lemma ends_expect: "(ok = Inr True \<Longrightarrow> Q ()) \<Longrightarrow> ends Q (expect_that index ok msg)"
  by (auto simp: ends_def expect_that_def bindS_Inr_iff mismatch_def unmarked_def split: if_splits)

lemma ends_expect_then:
  "(ok = Inr True \<Longrightarrow> ends Q m) \<Longrightarrow> noted m \<Longrightarrow> ends Q (thenS (expect_that index ok msg) m)"
  by (rule ends_bind [where P = "\<lambda>_. ok = Inr True", OF ends_expect])

lemma ends_ret: "Q a \<Longrightarrow> ends Q (retS a)"
  by (simp add: ends_def)

lemma ends_mismatch: "ends Q (mismatch index msg)"
  by (simp add: ends_def mismatch_def unmarked_def)

lemma ends_when: "(b \<Longrightarrow> ends Q m) \<Longrightarrow> (\<not> b \<Longrightarrow> Q ()) \<Longrightarrow> ends Q (whenS b m)"
  by (simp add: whenS_def ends_ret)

lemma noted_guarded:
  assumes "guarded_step K E base index latest expected step record s = (s', Inr u)" and "unmarked s'"
  shows "\<exists>u. step_checks K E base index latest expected step record s = (s', Inr u)"
  using assms by (auto simp: guarded_step_def tryS_def unmarked_def split: prod.splits sum.splits if_splits)

definition decision_shown :: "json \<Rightarrow> json \<Rightarrow> bool" where
  "decision_shown wish record \<longleftrightarrow>
     (\<exists>decision. j_get record ''decision'' = Inr decision \<and>
        same_constant (j_lookup decision ''accepted'') (j_get wish ''accepted'') = Inr True \<and>
        member_is decision ''reason'' (j_get wish ''reason'') = Inr True)"

definition command_shown :: "checker \<Rightarrow> json \<Rightarrow> json \<Rightarrow> datetime \<Rightarrow> bool" where
  "command_shown K wish record now \<longleftrightarrow>
     (\<exists>command wanted. j_lookup record ''command'' = Inr command \<and> j_get wish ''command_value'' = Inr wanted \<and>
        (if wanted = JNull then command = JNull
         else \<exists>request. ck_request K command = Inr request \<and> observed_command wish now request = Inr True))"

definition step_shown :: "checker \<Rightarrow> data_env \<Rightarrow> datetime \<Rightarrow> json \<Rightarrow> json \<Rightarrow> json \<Rightarrow> bool" where
  "step_shown K E base expected step record \<longleftrightarrow>
     (\<exists>topic now wish. step_topic K E expected = Inr topic \<and> eqE (j_get record ''topic'') (Inr topic) = Inr True \<and>
        eqE (j_get record ''input'') (Inr (without_expect step)) = Inr True \<and>
        bindE (j_get step ''now_s'') (plus_seconds base) = Inr now \<and> j_get step ''expect'' = Inr wish \<and>
        (op_is step ''receive'' = Inr True \<longrightarrow> decision_shown wish record) \<and> command_shown K wish record now)"

lemma input_shown:
  "ends (\<lambda>now. \<exists>topic. step_topic K E expected = Inr topic \<and> eqE (j_get record ''topic'') (Inr topic) = Inr True \<and>
     eqE (j_get record ''input'') (Inr (without_expect step)) = Inr True \<and>
     bindE (j_get step ''now_s'') (plus_seconds base) = Inr now) (check_input K E base index expected step record)"
  unfolding check_input_def
  by (rule ends_then, rule ends_lift, rule ends_expect_then, rule ends_expect_then, rule ends_lift, rule ends_then, rule ends_ret)
    (auto intro!: edge_intros)

lemma receive_shown:
  "ends (\<lambda>_. decision_shown wish record) (check_receive K E base index expected step wish record)"
proof -
  have "ends (\<lambda>_. P) (thenS (guardS b e) (thenS (expect_that index ok msg) m))"
    if "ok = Inr True \<Longrightarrow> P" "noted m" for P b e ok msg and m :: "unit case_act"
    by (rule ends_then, rule ends_expect_then) (use that in \<open>auto simp: ends_def\<close>)
  then show ?thesis
    unfolding check_receive_def
    by (intro ends_lift) (rule ends_then, rule ends_expect_then, auto simp: ends_def decision_shown_def intro!: edge_intros)
qed

lemma decided_shown:
  "ends (\<lambda>_. command_shown K wish record now) (check_decided K E base index expected step wish record now)"
  unfolding check_decided_def
proof (intro ends_lift)
  fix command wanted
  assume c: "j_lookup record ''command'' = Inr command" "j_get wish ''command_value'' = Inr wanted"
  show "ends (\<lambda>_. command_shown K wish record now)
     (if wanted = JNull then whenS (command \<noteq> JNull) (mismatch index ''unexpected command decision'')
      else if command = JNull then mismatch index ''expected decision absent''
      else bindS (liftS (ck_request K command)) (\<lambda>request.
           thenS (expect_that index (observed_command wish now request) ''command does not match observed work'')
          (thenS (fresh_identity index request) (check_request_binding E base index expected step request))))"
  proof (cases "wanted = JNull \<or> command = JNull")
    case True
    then show ?thesis using c by (auto simp: command_shown_def intro!: ends_when ends_mismatch)
  next
    case False
    have "ends (\<lambda>_. command_shown K wish record now)
        (thenS (expect_that index (observed_command wish now request) ''command does not match observed work'')
          (thenS (fresh_identity index request) (check_request_binding E base index expected step request)))"
      if "ck_request K command = Inr request" for request
      by (rule ends_expect_then) (use c False that in \<open>auto simp: ends_def command_shown_def intro!: edge_intros\<close>)
    then show ?thesis using False by (auto intro!: ends_lift)
  qed
qed

lemma step_checks_shown:
  "ends (\<lambda>_. step_shown K E base expected step record) (step_checks K E base index latest expected step record)"
  unfolding step_checks_def
proof (rule ends_bind [OF input_shown])
  fix now
  assume i: "\<exists>topic. step_topic K E expected = Inr topic \<and> eqE (j_get record ''topic'') (Inr topic) = Inr True \<and>
     eqE (j_get record ''input'') (Inr (without_expect step)) = Inr True \<and>
     bindE (j_get step ''now_s'') (plus_seconds base) = Inr now"
  show "ends (\<lambda>_. step_shown K E base expected step record)
     (thenS (check_instance K index step record)
       (bindS (liftS (j_get step ''expect'')) (\<lambda>wish.
        bindS (liftS (op_is step ''receive'')) (\<lambda>receive.
        thenS (whenS receive (check_receive K E base index expected step wish record))
       (thenS (check_decided K E base index expected step wish record now)
              (check_state K index latest expected wish record))))))"
  proof (rule ends_then, rule ends_lift, rule ends_lift)
    fix wish receive
    assume o: "j_get step ''expect'' = Inr wish" "op_is step ''receive'' = Inr receive"
    have r: "ends (\<lambda>_. receive \<longrightarrow> decision_shown wish record)
        (whenS receive (check_receive K E base index expected step wish record))"
      by (rule ends_when) (use receive_shown in \<open>auto simp: ends_def\<close>)
    show "ends (\<lambda>_. step_shown K E base expected step record)
       (thenS (whenS receive (check_receive K E base index expected step wish record))
         (thenS (check_decided K E base index expected step wish record now)
            (check_state K index latest expected wish record)))"
    proof (rule ends_bind [OF r], rule ends_bind [OF decided_shown])
      assume "receive \<longrightarrow> decision_shown wish record" "command_shown K wish record now"
      then show "ends (\<lambda>_. step_shown K E base expected step record) (check_state K index latest expected wish record)"
        using i o by (auto simp: ends_def step_shown_def)
    qed (intro edge_intros)+
  qed
qed (intro edge_intros)

lemma case_steps_shown:
  "ends (\<lambda>_. \<forall>(step, taken) \<in> set srs. step_shown K E base expected step taken) (case_steps K E base expected index latest srs)"
proof (induction K E base expected index latest srs rule: case_steps.induct)
  case (2 K E base expected index latest step r rest)
  have g: "ends (\<lambda>_. step_shown K E base expected step r) (guarded_step K E base index latest' expected step r)" for latest'
    using step_checks_shown noted_guarded unfolding ends_def by metis
  show ?case
    unfolding case_steps.simps
  proof (rule ends_lift, rule ends_bind [OF g])
    fix latest'
    assume "step_shown K E base expected step r"
    then show "ends (\<lambda>_. \<forall>(step, taken) \<in> set ((step, r) # rest). step_shown K E base expected step taken)
        (case_steps K E base expected (Suc index) latest' rest)"
      using 2 by (auto simp: ends_def)
  qed (intro edge_intros)
qed (simp add: ends_def)

lemma replayed_case_pass:
  assumes "replayed_case K E base name expected steps records ids = Inr (c, ids')" and "cc_status c = CPass"
  shows "cc_check c = name \<and> (\<forall>(step, taken) \<in> set (zip steps records). step_shown K E base expected step taken)"
proof -
  let ?s = "\<lparr>cs_errors = [], cs_gaps = [], cs_instance = None, cs_seen = [], cs_commands = ids\<rparr>"
  obtain s r where run: "case_steps K E base expected 0 None (zip steps records) ?s = (s, r)" by fastforce
  obtain u where u: "r = Inr u" using assms(1) run by (cases r) (auto simp: replayed_case_def)
  have "unmarked s" and name: "cc_check c = name"
    using assms run u by (auto simp: replayed_case_def bindE_Inr_iff data_check_def conf_result_def unmarked_def split: if_splits)
  with case_steps_shown [of "zip steps records" K E base expected 0 None] run u name show ?thesis
    unfolding ends_def by blast
qed

lemma case_check_pass:
  assumes "case_check K E base by_id expected ids = Inr (c, ids')" and "cc_status c = CPass"
  shows "\<exists>steps records. case_name K expected = Inr (cc_check c) \<and>
     bindE (j_get expected ''steps'') (j_iter K) = Inr steps \<and> length records = length steps \<and>
     (\<exists>i cap. j_get expected ''id'' = Inr i \<and> (the (j_text K i), cap) \<in> set by_id \<and> j_text K i \<noteq> None \<and>
        member ''records'' cap = JArr records) \<and>
     (\<forall>(step, taken) \<in> set (zip steps records). step_shown K E base expected step taken)"
proof -
  obtain name i where n: "case_name K expected = Inr name" "j_get expected ''id'' = Inr i"
    using assms(1) by (auto simp: case_check_def bindE_Inr_iff)
  note run = assms(1) [unfolded case_check_def n bindE_simps]
  obtain cap records where cap: "map_of by_id (the (j_text K i)) = Some cap" "member ''records'' cap = JArr records"
    using run assms(2) by (auto simp: data_check_def conf_result_def split: option.splits json.splits)
  note run = run [unfolded cap option.case json.case]
  obtain steps where s: "bindE (j_get expected ''steps'') (j_iter K) = Inr steps"
    using run by (cases "bindE (j_get expected ''steps'') (j_iter K)") simp_all
  note run = run [unfolded s bindE_simps]
  have l: "length records = length steps"
    using run assms(2) by (auto simp: data_check_def conf_result_def split: if_splits)
  have "replayed_case K E base name expected steps records ids = Inr (c, ids')" using run l by simp
  note pass = replayed_case_pass [OF this assms(2)]
  have "j_text K i \<noteq> None" using n by (auto simp: case_name_def bindE_Inr_iff split: option.splits)
  moreover have "(the (j_text K i), cap) \<in> set by_id" using cap(1) by (rule map_of_SomeD)
  ultimately have "\<exists>i cap. j_get expected ''id'' = Inr i \<and> (the (j_text K i), cap) \<in> set by_id \<and> j_text K i \<noteq> None \<and>
      member ''records'' cap = JArr records" using n(2) cap(2) by blast
  then show ?thesis using pass n(1) s l by blast
qed

lemma case_checks_pass:
  "case_checks K E base by_id plan ids = Inr cs \<Longrightarrow> c \<in> set cs \<Longrightarrow>
     \<exists>expected \<in> set plan. \<exists>ids ids'. case_check K E base by_id expected ids = Inr (c, ids')"
proof (induction plan arbitrary: ids cs)
  case (Cons expected plan)
  then show ?case by (fastforce simp: bindE_Inr_iff)
qed simp

lemma index_cases_range:
  "(k, v) \<in> set (fst (index_cases K cs by_id)) \<Longrightarrow>
     (k, v) \<in> set by_id \<or> v \<in> set cs \<and> j_text K (member ''id'' v) = Some k"
proof (induction K cs by_id rule: index_cases.induct)
  case (2 K c cs by_id)
  have step: "(k, v) \<in> set (AList.update i c by_id) \<Longrightarrow> (k, v) = (i, c) \<or> (k, v) \<in> set by_id" for i
    by (induction by_id) (auto split: if_splits)
  show ?case
  proof (cases "j_text K (member ''id'' c)")
    case None
    then show ?thesis using 2 by (auto split: prod.splits)
  next
    case (Some i)
    then show ?thesis using 2(2) [OF Some] 2(3) step [of i] by (auto split: prod.splits)
  qed
qed simp

lemma index_cases_open: "c \<in> set (snd (index_cases K cs by_id)) \<Longrightarrow> cc_status c \<noteq> CPass"
  by (induction K cs by_id rule: index_cases.induct)
    (auto simp: integrity_check_def data_check_def conf_result_def split: option.splits prod.splits if_splits)

lemma undeployed_open: "c \<in> set undeployed_checks \<Longrightarrow> cc_status c \<noteq> CPass"
  by (auto simp: undeployed_checks_def data_check_def conf_result_def)

text \<open>
  A consumer case that passes was replayed as planned: the evidence holds one record for every
  planned step, taken with the planned topic and input, and at every step the recorded decision is
  the one the policy demands, and a command was decided exactly where the plan wants one, with the
  planned value, the time of the step and a well-formed identity.
\<close>

theorem consumer_case_pass_sound:
  assumes "check_data_evidence K E package = Inr checks" and "c \<in> set checks" and "cc_status c = CPass"
  shows "\<exists>base plan cases expected captured steps records. replay_origin package = Inr base \<and>
     bindE (j_get package ''cases'') (j_iter K) = Inr cases \<and> captured \<in> set cases \<and>
     bindE (j_get expected ''id'') (\<lambda>i. Inr (j_text K i)) = Inr (j_text K (member ''id'' captured)) \<and>
     member ''records'' captured = JArr records \<and>
     bindE (j_get (de_plan E) ''cases'') (j_iter K) = Inr plan \<and> expected \<in> set plan \<and>
     case_name K expected = Inr (cc_check c) \<and> bindE (j_get expected ''steps'') (j_iter K) = Inr steps \<and>
     length records = length steps \<and>
     (\<forall>(step, taken) \<in> set (zip steps records). step_shown K E base expected step taken)"
proof -
  have b: "package_bound K E package"
    using assms by (auto simp: check_data_evidence_def data_check_def conf_result_def split: if_splits)
  obtain base where base: "replay_origin package = Inr base"
    using assms b by (auto simp: check_data_evidence_def data_check_def conf_result_def split: sum.splits if_splits)
  obtain cases where held: "bindE (j_get package ''cases'') (j_iter K) = Inr cases"
    and r: "replay_checks K E base cases = Inr checks"
    using assms(1) b base by (auto simp: check_data_evidence_def bindE_Inr_iff)
  obtain by_id raw where i: "index_cases K cases [] = (by_id, raw)" by fastforce
  obtain extra plan cs where p: "bindE (j_get (de_plan E) ''cases'') (j_iter K) = Inr plan"
      "case_checks K E base by_id plan [] = Inr cs"
      "checks = raw @ (if extra \<noteq> [] then [integrity_check CFail ''Unpinned cases in evidence'' (map JStr extra)] else []) @
         cs @ undeployed_checks"
    using r unfolding replay_checks_def Let_def i by (auto simp: bindE_Inr_iff)
  have "c \<in> set cs"
    using assms(2,3) index_cases_open [of c K cases "[]"] undeployed_open [of c] i
    by (auto simp: p(3) integrity_check_def data_check_def conf_result_def split: if_splits)
  from case_checks_pass [OF p(2) this] obtain expected ids ids' where e: "expected \<in> set plan"
      "case_check K E base by_id expected ids = Inr (c, ids')" by blast
  from case_check_pass [OF e(2) assms(3)] obtain steps records k cap where w: "case_name K expected = Inr (cc_check c)"
      "bindE (j_get expected ''steps'') (j_iter K) = Inr steps" "length records = length steps"
      "j_get expected ''id'' = Inr k" "(the (j_text K k), cap) \<in> set by_id" "j_text K k \<noteq> None"
      "member ''records'' cap = JArr records" "\<forall>(step, taken) \<in> set (zip steps records). step_shown K E base expected step taken"
    by blast
  have c: "cap \<in> set cases" "j_text K (member ''id'' cap) = j_text K k"
    using index_cases_range [of "the (j_text K k)" cap K cases "[]"] w(5,6) by (auto simp: i)
  have "bindE (j_get expected ''id'') (\<lambda>i. Inr (j_text K i)) = Inr (j_text K (member ''id'' cap))"
    using c(2) w(4) by simp
  with base held p(1) e(1) w(1-3,7,8) c(1) show ?thesis
    by (intro exI [of _ base] exI [of _ plan] exI [of _ cases] exI [of _ expected] exI [of _ cap] exI [of _ steps]
        exI [of _ records] conjI)
qed

section \<open>Examples\<close>

definition speed_topic :: json where
  "speed_topic = JStr ''a/b/c/d/e/f/speed''"

definition speed_input :: doc where
  "speed_input =
     [(''op'', JStr ''receive''), (''value'', JInt 4), (''source_s'', JInt 0), (''now_s'', JInt 0), (''quality'', JStr ''good'')]"

definition speed_step :: json where
  "speed_step =
     JObj (speed_input @ [(''expect'', JObj [(''accepted'', JBool True), (''reason'', JStr ''accepted''),
       (''command_value'', JNull), (''status'', JStr ''fresh''), (''value'', JInt 4)])])"

definition speed_env :: data_env where
  "speed_env =
     \<lparr>de_policy = JObj [(''required_cases'', JArr [JStr ''ordered'']),
                       (''state'', JObj [(''topic_bindings'', JObj [(''speed'', speed_topic)])])],
      de_plan = JObj [(''cases'', JArr [JObj [(''id'', JStr ''ordered''), (''kind'', JStr ''state''), (''stream'', JStr ''speed''),
                                           (''steps'', JArr [speed_step])]])],
      de_policy_sha = ''p'', de_plan_sha = ''q'', de_str = \<lambda>v. []\<rparr>"

definition speed_record :: json where
  "speed_record =
     JObj [(''topic'', speed_topic), (''input'', JObj speed_input), (''now'', JTime (utc 0)), (''consumer_instance'', JStr ''i''),
           (''decision'', JObj [(''accepted'', JBool True), (''reason'', JStr ''accepted'')]),
           (''payload'', JObj [(''sosa:hasSimpleResult'', JInt 4), (''sosa:resultTime'', JTime (utc 0)),
                             (''eirvah:quality'', JStr ''good'')]),
           (''command'', JNull),
           (''state'', JObj [(''status'', JStr ''fresh''), (''value'', JInt 4), (''source_timestamp'', JTime (utc 0))])]"

definition speed_package :: json where
  "speed_package =
     JObj [(''schema_version'', JStr ''1.0''), (''execution_mode'', JStr replay_mode), (''policy_sha256'', JStr ''p''),
           (''plan_sha256'', JStr ''q''), (''virtual_origin'', JTime (utc 0)),
           (''source_sha256'', JObj (map (\<lambda>f. (f, JStr (replicate 64 (CHR ''a'')))) attributed)),
           (''cases'', JArr [JObj [(''id'', JStr ''ordered''), (''records'', JArr [speed_record])]])]"

definition speed_report :: "conf_check list" where
  "speed_report = (case check_data_evidence plain_checker speed_env speed_package of Inr cs \<Rightarrow> cs | Inl e \<Rightarrow> [])"

lemma speed_report_passes: "list_ex (\<lambda>c. cc_check c = ''C05.ordered'' \<and> cc_status c = CPass) speed_report"
  by code_simp

lemma speed_report_run: "check_data_evidence plain_checker speed_env speed_package = Inr speed_report"
  using speed_report_passes by (auto simp: speed_report_def split: sum.splits)

theorem consumer_case_pass_sound_witness:
  "\<exists>base expected steps records. length records = length steps \<and> case_name plain_checker expected = Inr ''C05.ordered'' \<and>
     (\<forall>(step, taken) \<in> set (zip steps records). step_shown plain_checker speed_env base expected step taken)"
proof -
  obtain c where c: "c \<in> set speed_report" "cc_check c = ''C05.ordered''" "cc_status c = CPass"
    using speed_report_passes by (auto simp: list_ex_iff)
  from consumer_case_pass_sound [OF speed_report_run c(1,3)] c(2) show ?thesis by auto
qed

end
