(* ===== verification/Recovery_Checks.thy ===== *)
theory Recovery_Checks
  imports Conformance_Order
begin

text \<open>
  The checks of the recovery experiment (\<open>scripts/recovery_checks.py\<close>): whether retained evidence
  of restarts and outages shows that epochs advance, that storage survives, that every inspection of
  the window reached the consumer, and that commands and native effects reconcile. The evidence is
  decoded JSON of any shape; a field that is missing or of the wrong type leaves the check open. The
  digest of the pinned profile is an argument.
\<close>

section \<open>Reading the evidence\<close>

text \<open>\<open>except (KeyError, TypeError, ValueError, IndexError, AttributeError)\<close>.\<close>

definition unreadable :: "exn \<Rightarrow> bool" where
  "unreadable e \<longleftrightarrow> malformed e \<or> e = attribute_error \<or> e = py_index_error"

definition j_truthyE :: "json res \<Rightarrow> bool res" where
  "j_truthyE v = bindE v (\<lambda>x. Inr (j_truthy x))"

definition is_const :: "json \<Rightarrow> json res \<Rightarrow> bool res" where
  "is_const c v = bindE v (\<lambda>x. Inr (x = c))"

definition count_at :: "checker \<Rightarrow> json \<Rightarrow> string list \<Rightarrow> int res" where
  "count_at K v ks = bindE (j_path v ks) (j_int K)"

definition list_at :: "checker \<Rightarrow> json \<Rightarrow> string list \<Rightarrow> json list res" where
  "list_at K v ks = bindE (j_path v ks) (j_iter K)"

definition same_at :: "json \<Rightarrow> json \<Rightarrow> string list \<Rightarrow> bool res" where
  "same_at a b ks = eqE (j_path a ks) (j_path b ks)"

definition digest_of :: "checker \<Rightarrow> json res \<Rightarrow> json res" where
  "digest_of K v = bindE v (\<lambda>x. bindE (canonical x) (\<lambda>c. Inr (JStr (sha256 (ck_crypto K) c))))"

section \<open>The five predicates\<close>

definition position_plausible :: "checker \<Rightarrow> json \<Rightarrow> bool res" where
  "position_plausible K pos =
     notE (orE (notE (eqE (j_get pos ''boundary'') (Inr (JStr ''adapter''))))
          (orE (notE (j_truthyE (j_get pos ''producer'')))
          (orE (lessE K (j_get pos ''epoch'') (Inr (JInt 1)))
               (lessE K (j_get pos ''sequence'') (Inr (JInt 1))))))"

definition rc_epochs :: "checker \<Rightarrow> json \<Rightarrow> bool res" where
  "rc_epochs K data =
     andE (allE (\<lambda>role. bindE (j_path data [''positions'', role, ''eirvah:position'']) (position_plausible K))
             [''opcua'', ''modbus'', ''s7''])
       (bindE (j_get data ''producer_restart'') (\<lambda>restart.
        bindE (j_path restart [''before_packet'', ''eirvah:position'']) (\<lambda>old.
        bindE (j_path restart [''after_packet'', ''eirvah:position'']) (\<lambda>new.
        bindE (j_get data ''old_state_audit'') (\<lambda>audit.
        bindE (j_get data ''publisher_restart'') (\<lambda>pub.
        bindE (j_path pub [''before_packet'', ''eirvah:position'']) (\<lambda>a.
        bindE (j_path pub [''after_packet'', ''eirvah:position'']) (\<lambda>b.
          andE (same_at old new [''producer''])
         (andE (lessE K (j_get old ''epoch'') (j_get new ''epoch''))
         (andE (is_const (JBool False) (j_path audit [''decision'', ''accepted'']))
         (andE (eqE (j_path audit [''decision'', ''reason'']) (Inr (JStr ''old_epoch'')))
         (andE (eqE (j_path audit [''payload'', ''eirvah:position'']) (Inr old))
         (andE (geE K (j_path audit [''snapshot'', ''position'', ''epoch'']) (j_get new ''epoch''))
         (andE (same_at a b [''producer''])
         (andE (same_at a b [''epoch''])
               (lessE K (j_get a ''sequence'') (j_get b ''sequence'')))))))))))))))))"

definition rc_restarts :: "checker \<Rightarrow> json \<Rightarrow> bool res" where
  "rc_restarts K data =
     bindE (j_get data ''producer_restart'') (\<lambda>p.
     bindE (j_get data ''source_restart'') (\<lambda>s.
     bindE (j_get data ''consumer_restart'') (\<lambda>c.
     bindE (j_get data ''publisher_restart'') (\<lambda>pub.
       andE (notE (eqE (j_get p ''before_uid'') (j_get p ''after_uid'')))
      (andE (eqE (j_get p ''before_volume'') (j_get p ''after_volume''))
      (andE (notE (eqE (j_get s ''before_uid'') (j_get s ''after_uid'')))
      (andE (eqE (j_path s [''before'', ''meta'', ''db_id'']) (j_path s [''after'', ''meta'', ''db_id'']))
      (andE (liftE2 (\<lambda>x y. Inr (x < y)) (count_at K s [''before'', ''meta'', ''boots'']) (count_at K s [''after'', ''meta'', ''boots'']))
      (andE (eqE (j_path s [''before'', ''state'', ''block'', ''reject'', ''count'']) (j_path s [''after'', ''state'', ''block'', ''reject'', ''count'']))
      (andE (notE (eqE (j_get c ''before_uid'') (j_get c ''after_uid'')))
      (andE (eqE (j_get c ''before_db'') (j_get c ''after_db''))
            (notE (eqE (j_get pub ''before_uid'') (j_get pub ''after_uid''))))))))))))))"

text \<open>The window of the events: counted by the source, without a gap, and all of them received.\<close>

definition window_complete :: "checker \<Rightarrow> json \<Rightarrow> json \<Rightarrow> json list \<Rightarrow> json list \<Rightarrow> int \<Rightarrow> bool res" where
  "window_complete K ini fin events ids delta =
     notE (orE (Inr (delta \<le> 0))
          (orE (bindE (j_set ids) (\<lambda>s. Inr (length ids \<noteq> length s)))
          (orE (Inr (int (length events) \<noteq> delta))
          (orE (notE (eqE (j_path ini [''meta'', ''db_id'']) (j_path fin [''meta'', ''db_id''])))
          (orE (liftE2 (\<lambda>x y. Inr (x \<noteq> y)) (count_at K fin [''meta'', ''created'']) (count_at K fin [''meta'', ''received'']))
               (notE (eqE (j_get fin ''pending'') (Inr (JInt 0)))))))))"

definition serials_contiguous :: "json \<Rightarrow> json \<Rightarrow> json list \<Rightarrow> bool res" where
  "serials_contiguous ini fin events =
     bindE (mapE (\<lambda>r. j_get r ''serial'') events) (\<lambda>serials.
     bindE (bindE (j_get ini ''last_serial'') (\<lambda>v. bindE (j_sub v (JInt (- 1))) j_range_arg)) (\<lambda>lo.
     bindE (bindE (j_get fin ''last_serial'') (\<lambda>v. bindE (j_sub v (JInt (- 1))) j_range_arg)) (\<lambda>hi.
       eqE (Inr (JArr serials)) (j_range lo hi))))"

definition event_taken :: "checker \<Rightarrow> (json \<times> json) list \<Rightarrow> json \<Rightarrow> bool res" where
  "event_taken K inbox event =
     bindE (bindE (j_get event ''id'') (j_select inbox)) (\<lambda>row.
       notE (orE (notE (j_truthyE (j_get event ''received'')))
            (orE (notE (eqE (j_get row ''digest'') (digest_of K (j_get event ''payload''))))
            (orE (notE (eqE (j_get row ''payload'') (j_get event ''payload'')))
                 (eqE (j_get row ''disposition'') (Inr (JStr ''pending'')))))))"

definition outage_shown :: "checker \<Rightarrow> json \<Rightarrow> bool res" where
  "outage_shown K data =
     bindE (j_get data ''outage'') (\<lambda>outage.
     bindE (j_get data ''forged_receipt'') (\<lambda>forgery.
       andE (eqE (j_get outage ''replicas_during'') (Inr (JInt 0)))
      (andE (lessE K (Inr (JInt 0)) (j_get outage ''source_pending_during''))
      (andE (eqE (j_path forgery [''before'', ''id'']) (j_path forgery [''after'', ''id'']))
      (andE (notE (j_truthyE (j_path forgery [''before'', ''received''])))
            (notE (j_truthyE (j_path forgery [''after'', ''received''])))))))) "

definition rc_coverage :: "checker \<Rightarrow> json \<Rightarrow> bool res" where
  "rc_coverage K data =
     bindE (j_path data [''start'', ''source'']) (\<lambda>ini.
     bindE (j_path data [''end'', ''source'']) (\<lambda>fin.
     bindE (bindE (list_at K data [''end'', ''consumer'', ''inspections'']) (j_index_by ''id'')) (\<lambda>inbox.
     bindE (j_get fin ''events'') (\<lambda>evs.
     bindE (count_at K fin [''meta'', ''created'']) (\<lambda>last.
     bindE (count_at K ini [''meta'', ''created'']) (\<lambda>first.
     bindE (j_iter K evs) (\<lambda>events.
     bindE (mapE (\<lambda>r. j_get r ''id'') events) (\<lambda>ids.
       andE (window_complete K ini fin events ids (last - first))
      (andE (serials_contiguous ini fin events)
      (andE (allE (event_taken K inbox) events)
            (outage_shown K data)))))))))))"

definition rc_recovery :: "checker \<Rightarrow> json \<Rightarrow> bool res" where
  "rc_recovery K data =
     bindE (j_get data ''consumer_restart'') (\<lambda>c.
     bindE (j_get c ''before_row'') (\<lambda>a.
     bindE (j_get c ''after_row'') (\<lambda>b.
     bindE (j_get data ''pending_recovery'') (\<lambda>pending.
     bindE (j_get pending ''before_row'') (\<lambda>old.
     bindE (j_get pending ''after_row'') (\<lambda>new.
     bindE (allE (\<lambda>k. same_at old new [k]) [''id'', ''digest'', ''command_id'', ''command'']) (\<lambda>unchanged.
       andE (eqE (j_get old ''disposition'') (Inr (JStr ''pending'')))
      (andE (eqE (j_get new ''disposition'') (Inr (JStr ''refused'')))
      (andE (Inr unchanged)
      (andE (same_at a b [''id''])
      (andE (same_at a b [''digest''])
      (andE (same_at a b [''command_id''])
      (andE (same_at a b [''command''])
      (andE (same_at a b [''disposition''])
      (andE (eqE (j_get b ''disposition'') (Inr (JStr ''completed'')))
      (andE (same_at a b [''result'', ''written_at''])
            (eqE (j_get c ''before_db'') (j_get c ''after_db''))))))))))))))))))"

section \<open>Commands and native effects\<close>

definition control_effects :: "json list \<Rightarrow> json list res" where
  "control_effects native = filterE (\<lambda>r. eqE (j_path r [''payload'', ''target'']) (Inr (JInt 28))) native"

definition effect_matches :: "json \<Rightarrow> json \<Rightarrow> bool res" where
  "effect_matches row e =
     andE (eqE (j_path e [''payload'', ''value'']) (j_path row [''payload'', ''bottle_id'']))
    (andE (eqE (j_path e [''payload'', ''status'']) (Inr (JInt 1)))
          (eqE (liftE2 j_sub (j_path e [''payload'', ''after_count'']) (j_path e [''payload'', ''before_count''])) (Inr (JInt 1))))"

text \<open>The verdict on one row: \<open>None\<close> ends the check with a failure, \<open>Some c\<close> tells whether it is completed.\<close>

definition row_effect :: "checker \<Rightarrow> (json \<times> json) list \<Rightarrow> (json \<times> json) list \<Rightarrow> json list \<Rightarrow> json \<Rightarrow> bool option res" where
  "row_effect K events ledger controls row =
     bindE (bindE (j_get row ''id'') j_hash) (\<lambda>i.
       if j_find events i = None then Inr (Some False)
       else bindE (orE (eqE (j_get row ''disposition'') (Inr (JStr ''pending'')))
                       (eqE (j_get row ''disposition'') (Inr (JStr ''unknown'')))) (\<lambda>unsettled.
         if unsettled then Inr None
         else bindE (eqE (j_get row ''disposition'') (Inr (JStr ''completed''))) (\<lambda>fin.
           if \<not> fin then Inr (Some False)
           else bindE (bindE (j_get row ''command'') (ck_request K)) (\<lambda>request.
                bindE (j_select ledger (JStr (ar_correlation_id request))) (\<lambda>stored.
                bindE (orE (notE (eqE (j_get stored ''state'') (Inr (JStr ''completed''))))
                           (notE (eqE (j_get stored ''digest'') (bindE (command_digest (ck_crypto K) request) (\<lambda>d. Inr (JStr d)))))) (\<lambda>bad.
                if bad then Inr None
                else bindE (filterE (effect_matches row) controls) (\<lambda>matches.
                     bindE (orE (Inr (length matches \<noteq> 1))
                                (notE (eqE (Inr (json_of_value (ar_requested_value request))) (j_path row [''payload'', ''bottle_id''])))) (\<lambda>bad.
                       Inr (if bad then None else Some True)))))))))"

fun completed_rows :: "(json \<Rightarrow> bool option res) \<Rightarrow> json list \<Rightarrow> json list option res" where
  "completed_rows f [] = Inr (Some [])"
| "completed_rows f (row # rows) =
     bindE (f row) (\<lambda>v. case v of
        None \<Rightarrow> Inr None
      | Some c \<Rightarrow> bindE (completed_rows f rows) (\<lambda>rest. Inr (map_option (\<lambda>xs. if c then row # xs else xs) rest)))"

definition rc_effects :: "checker \<Rightarrow> json \<Rightarrow> bool res" where
  "rc_effects K data =
     bindE (j_path data [''start'', ''source'']) (\<lambda>ini.
     bindE (j_path data [''end'', ''source'']) (\<lambda>fin.
     bindE (j_path data [''end'', ''consumer'', ''inspections'']) (\<lambda>inspections.
     bindE (bindE (list_at K fin [''events'']) (j_index_by ''id'')) (\<lambda>events.
     bindE (bindE (list_at K data [''end'', ''writer'']) (j_index_by ''command_id'')) (\<lambda>ledger.
     bindE (list_at K fin [''effects'']) (\<lambda>native.
     bindE (eqE (Inr (JInt (int (length native)))) (liftE2 j_sub (j_get fin ''last_effect'') (j_get ini ''last_effect''))) (\<lambda>recorded.
       if \<not> recorded then Inr False
       else bindE (control_effects native) (\<lambda>controls.
            bindE (j_iter K inspections) (\<lambda>rows.
            bindE (completed_rows (row_effect K events ledger controls) rows) (\<lambda>completed.
            case completed of
              None \<Rightarrow> Inr False
            | Some completed \<Rightarrow>
                bindE (filterE (\<lambda>e. eqE (j_path e [''payload'', ''status'']) (Inr (JInt 1))) controls) (\<lambda>successful.
                bindE (liftE2 j_sub (j_path fin [''state'', ''block'', ''reject'', ''count''])
                         (j_path ini [''state'', ''block'', ''reject'', ''count''])) (\<lambda>delta.
                  andE (Inr (completed \<noteq> []))
                 (andE (Inr (length successful = length completed))
                 (andE (Inr (j_eq (JInt (int (length completed))) delta))
                       (bindE (bindE (mapE (\<lambda>r. j_path r [''payload'', ''bottle_id'']) completed) j_set) (\<lambda>s.
                          Inr (length s = length completed)))))))))))))))))"

section \<open>The checks\<close>

definition rc_check :: "bool \<Rightarrow> string \<Rightarrow> bool res \<Rightarrow> string \<Rightarrow> conf_check res" where
  "rc_check valid name p reason =
     bindE (if \<not> valid then Inr CUnknown
            else (case p of
                    Inr b \<Rightarrow> Inr (if b then CPass else CFail)
                  | Inl e \<Rightarrow> if unreadable e then Inr CUnknown else Inl e)) (\<lambda>status.
       Inr (conf_result name status reason ''bounded_live_recovery_profile'' [JStr name] valid))"

definition rc_valid :: "string \<Rightarrow> json \<Rightarrow> bool" where
  "rc_valid profile_sha package =
     (case package of
        JObj d \<Rightarrow> map_of d ''schema_version'' = Some (JStr ''1.0'') \<and> map_of d ''mode'' = Some (JStr ''live_cluster_recovery'') \<and>
          map_of d ''profile_sha256'' = Some (JStr profile_sha)
      | _ \<Rightarrow> False)"

definition rc_clock_ok :: "json \<Rightarrow> bool res" where
  "rc_clock_ok data =
     (case bindE (mapE (\<lambda>role. j_path data [''end'', role, ''clock'', ''domain'']) [''source'', ''consumer'', ''writer_capture'']) (\<lambda>domains.
             if list_all (\<lambda>d. is_str d \<and> j_truthy d) domains then bindE (j_set domains) (\<lambda>s. Inr (length s = 1)) else Inr False) of
        Inr b \<Rightarrow> Inr b
      | Inl (KeyError m) \<Rightarrow> Inr False
      | Inl (TypeError m) \<Rightarrow> Inr False
      | Inl e \<Rightarrow> Inl e)"

definition rc_assumptions :: "json \<Rightarrow> bool res" where
  "rc_assumptions data =
     bindE (rc_clock_ok data) (\<lambda>clock.
     bindE (j_lookup data ''capture_errors'') (\<lambda>errors. Inr (is_arr errors \<and> \<not> j_truthy errors \<and> clock)))"

definition downgrade :: "conf_check \<Rightarrow> conf_check" where
  "downgrade c =
     (if cc_status c = CPass
      then c\<lparr>cc_status := CUnknown, cc_reason := cc_reason c @ ''; capture/build/clock assumptions not established''\<rparr> else c)"

definition check_table :: "checker \<Rightarrow> json \<Rightarrow> (string \<times> bool res \<times> string) list" where
  "check_table K data =
       [(''C05.source_epochs'', rc_epochs K data,
           ''Observed adapter identity/epoch propagation, rejected prior epoch and publisher restart preservation''),
        (''C05.deployed_restart'', rc_restarts K data,
           ''Actual pod UID changes with retained producer/source/consumer volumes and counters''),
        (''C06.business_effects'', rc_effects K data,
           ''Owned commands reconcile with writer records and independently committed simulated native effects''),
        (''C06.delivery_coverage'', rc_coverage K data,
           ''All source-created IDs in the bounded window reach durable consumer ownership; invalid receipt cannot discard the head''),
        (''C06.durable_recovery'', rc_recovery K data,
           ''Completed and pending ownership retain the original command identity, payload and deadline across consumer restart; expired pending work is refused'')]"

definition recorded_checks :: "checker \<Rightarrow> bool \<Rightarrow> json \<Rightarrow> conf_check list res" where
  "recorded_checks K valid data = mapE (\<lambda>(name, p, reason). rc_check valid name p reason) (check_table K data)"

definition check_recovery :: "checker \<Rightarrow> string \<Rightarrow> json \<Rightarrow> conf_check list res" where
  "check_recovery K profile_sha package =
     (let data = (if j_truthy package then package else JObj []) in
      bindE (recorded_checks K (rc_valid profile_sha package) data) (\<lambda>checks.
      bindE (rc_assumptions data) (\<lambda>ok. Inr (if ok then checks else map downgrade checks))))"

section \<open>What a pass means\<close>

lemma same_scalar: "hashable a \<Longrightarrow> j_eq e a \<Longrightarrow> j_eq e b \<Longrightarrow> j_eq a b"
proof -
  have same: "feq x y \<Longrightarrow> feq x z \<Longrightarrow> feq y z" for x y z by (cases x; cases y; cases z) auto
  have flip: "feq x y \<Longrightarrow> feq y x" for x y by (cases x; cases y) auto
  show "hashable a \<Longrightarrow> j_eq e a \<Longrightarrow> j_eq e b \<Longrightarrow> j_eq a b"
    by (cases e; cases a; cases b) (auto dest: same flip)
qed

lemma j_in_iff: "j_in v xs \<longleftrightarrow> (\<exists>x \<in> set xs. j_eq v x)"
  by (induction xs) auto

lemma completed_rows_iff:
  "completed_rows f rows = Inr (Some xs) \<longleftrightarrow>
     (\<forall>r \<in> set rows. \<exists>b. f r = Inr (Some b)) \<and> xs = filter (\<lambda>r. f r = Inr (Some True)) rows"
proof (induction rows arbitrary: xs)
  case (Cons r rows)
  show ?case
  proof (cases "f r")
    case (Inr v)
    show ?thesis
    proof (cases v)
      case (Some b)
      have "completed_rows f (r # rows) = Inr (Some xs) \<longleftrightarrow>
          (\<exists>ys. completed_rows f rows = Inr (Some ys) \<and> xs = (if b then r # ys else ys))"
        using Inr Some by (auto simp: bindE_Inr_iff)
      also have "\<dots> \<longleftrightarrow> (\<forall>r \<in> set rows. \<exists>b. f r = Inr (Some b)) \<and>
          xs = (if b then r # filter (\<lambda>r. f r = Inr (Some True)) rows else filter (\<lambda>r. f r = Inr (Some True)) rows)"
        unfolding Cons.IH by blast
      finally show ?thesis using Inr Some by (cases b) auto
    qed (use Inr in simp)
  qed simp
qed auto

text \<open>Counting the pairs of a relation by rows and by columns.\<close>

lemma count_both_ways:
  "(\<Sum>e \<leftarrow> es. length (filter (\<lambda>r. m r e) rs)) = (\<Sum>r \<leftarrow> rs. length (filter (m r) es))"
proof (induction es)
  case (Cons e es)
  have "(\<Sum>r \<leftarrow> rs. length (filter (m r) (e # es))) =
      (\<Sum>r \<leftarrow> rs. of_bool (m r e)) + (\<Sum>r \<leftarrow> rs. length (filter (m r) es))"
    by (induction rs) auto
  moreover have "(\<Sum>r \<leftarrow> rs. of_bool (m r e)) = length (filter (\<lambda>r. m r e) rs)"
    by (induction rs) auto
  ultimately show ?case using Cons by simp
qed simp

lemma sum_full:
  fixes f :: "'a \<Rightarrow> nat"
  assumes "\<And>x. x \<in> set xs \<Longrightarrow> f x \<le> 1" and "(\<Sum>x \<leftarrow> xs. f x) = length xs" and "x \<in> set xs"
  shows "f x = 1"
  using assms
proof (induction xs)
  case (Cons y ys)
  have "(\<Sum>x \<leftarrow> ys. f x) \<le> (\<Sum>x \<leftarrow> ys. 1)" using Cons.prems(1) by (intro sum_list_mono) auto
  then have bound: "(\<Sum>x \<leftarrow> ys. f x) \<le> length ys" by (simp add: sum_list_triv)
  have "f y \<le> 1" using Cons.prems(1) by simp
  with bound Cons.prems(2) have "f y = 1" and "(\<Sum>x \<leftarrow> ys. f x) = length ys" by simp_all
  then show ?case using Cons by auto
qed simp

text \<open>
  If every row matches one element and no element is matched by two rows, then among as many
  elements, outside of which nothing is matched, each is matched by one row.
\<close>

lemma matching_total:
  assumes one: "\<And>r. r \<in> set rs \<Longrightarrow> length (filter (m r) es) = 1"
    and few: "\<And>e. length (filter (\<lambda>r. m r e) rs) \<le> 1"
    and only: "\<And>r e. r \<in> set rs \<Longrightarrow> m r e \<Longrightarrow> ok e"
    and full: "length (filter ok es) = length rs"
    and e: "e \<in> set es" "ok e"
  shows "length (filter (\<lambda>r. m r e) rs) = 1"
proof -
  have "(\<Sum>r \<leftarrow> rs. length (filter (m r) es)) = length rs"
    using one by (induction rs) auto
  moreover have "(\<Sum>e \<leftarrow> es. length (filter (\<lambda>r. m r e) rs)) = (\<Sum>e \<leftarrow> filter ok es. length (filter (\<lambda>r. m r e) rs))"
  proof (induction es)
    case (Cons e es)
    have "\<not> ok e \<Longrightarrow> filter (\<lambda>r. m r e) rs = []" using only by (auto simp: filter_empty_conv)
    then show ?case using Cons by auto
  qed simp
  ultimately have "(\<Sum>e \<leftarrow> filter ok es. length (filter (\<lambda>r. m r e) rs)) = length (filter ok es)"
    using count_both_ways [of m rs es] full by simp
  then show ?thesis using sum_full [of "filter ok es" "\<lambda>e. length (filter (\<lambda>r. m r e) rs)" e] few e by simp
qed

lemma distinct_values_few:
  assumes "mapE f rs = Inr ids" and "\<forall>v \<in> set ids. hashable v" and "j_distinct ids"
    and "\<And>r. m r \<Longrightarrow> \<exists>v. f r = Inr v \<and> j_eq u v"
  shows "length (filter m rs) \<le> 1"
  using assms
proof (induction rs arbitrary: ids)
  case (Cons r rs)
  obtain v vs where v: "f r = Inr v" "mapE f rs = Inr vs" "ids = v # vs"
    using Cons.prems(1) by (auto simp: bindE_Inr_iff)
  show ?case
  proof (cases "m r")
    case True
    then have uv: "j_eq u v" using Cons.prems(4) v(1) by fastforce
    have "\<not> m r'" if r': "r' \<in> set rs" for r'
    proof
      assume "m r'"
      then obtain w where w: "f r' = Inr w" "j_eq u w" using Cons.prems(4) by blast
      obtain i where i: "i < length rs" "r' = rs ! i" using r' by (auto simp: in_set_conv_nth)
      have "w = vs ! i" "length vs = length rs"
        using v(2) w(1) i by (auto simp: mapE_iff list_all2_conv_all_nth)
      then have "w \<in> set vs" using i by simp
      moreover have "j_eq v w" using same_scalar uv w(2) Cons.prems(2) v(3) by auto
      ultimately show False using Cons.prems(3) v(3) by (auto simp: j_in_iff)
    qed
    then have "filter m rs = []" by (simp add: filter_empty_conv)
    then show ?thesis by simp
  next
    case False
    have "length (filter m rs) \<le> 1"
      by (rule Cons.IH [OF v(2)]) (use Cons.prems(2-4) v(3) in auto)
    then show ?thesis using False by simp
  qed
qed simp

definition ejected :: "json \<Rightarrow> bool" where
  "ejected e \<longleftrightarrow> eqE (j_path e [''payload'', ''status'']) (Inr (JInt 1)) = Inr True"

definition accounts_for :: "json \<Rightarrow> json \<Rightarrow> bool" where
  "accounts_for row e \<longleftrightarrow> effect_matches row e = Inr True"

lemma accounts_ejected: "accounts_for row e \<Longrightarrow> ejected e"
  by (simp add: accounts_for_def effect_matches_def ejected_def)

lemma accounts_bottle: "accounts_for row e \<Longrightarrow>
    \<exists>u v. j_path e [''payload'', ''value''] = Inr u \<and> j_path row [''payload'', ''bottle_id''] = Inr v \<and> j_eq u v"
  by (auto simp: accounts_for_def effect_matches_def eqE_iff)

lemma row_effect_completed:
  assumes "row_effect K events ledger controls row = Inr (Some True)"
  shows "length (filter (accounts_for row) controls) = 1"
    and "\<exists>request stored. bindE (j_get row ''command'') (ck_request K) = Inr request \<and>
        j_select ledger (JStr (ar_correlation_id request)) = Inr stored \<and>
        eqE (j_get stored ''state'') (Inr (JStr ''completed'')) = Inr True \<and>
        (\<exists>d. command_digest (ck_crypto K) request = Inr d \<and> eqE (j_get stored ''digest'') (Inr (JStr d)) = Inr True)"
  using assms
  by (auto simp: row_effect_def bindE_Inr_iff filterE_iff accounts_for_def [abs_def] orE_iff eqE_iff
      split: if_splits)

lemma effects_reconcile:
  assumes "rc_effects K data = Inr True"
  shows "\<exists>ini fin events ledger native controls rows completed created.
     j_path data [''start'', ''source''] = Inr ini \<and> j_path data [''end'', ''source''] = Inr fin \<and>
     list_at K fin [''effects''] = Inr native \<and> control_effects native = Inr controls \<and>
     bindE (list_at K fin [''events'']) (j_index_by ''id'') = Inr events \<and>
     bindE (list_at K data [''end'', ''writer'']) (j_index_by ''command_id'') = Inr ledger \<and>
     list_at K data [''end'', ''consumer'', ''inspections''] = Inr rows \<and>
     completed = filter (\<lambda>row. row_effect K events ledger controls row = Inr (Some True)) rows \<and>
     liftE2 j_sub (j_path fin [''state'', ''block'', ''reject'', ''count''])
       (j_path ini [''state'', ''block'', ''reject'', ''count'']) = Inr created \<and>
     j_eq (JInt (int (length completed))) created \<and> completed \<noteq> [] \<and>
     length (filter ejected controls) = length completed \<and>
     (\<forall>row \<in> set completed. length (filter (accounts_for row) controls) = 1) \<and>
     (\<forall>e \<in> set controls. ejected e \<longrightarrow> length (filter (\<lambda>row. accounts_for row e) completed) = 1)"
proof -
  obtain ini fin inspections events ledger native controls rows completed successful created ids s where
    w: "j_path data [''start'', ''source''] = Inr ini" "j_path data [''end'', ''source''] = Inr fin"
      "list_at K fin [''effects''] = Inr native" "control_effects native = Inr controls"
      "completed_rows (row_effect K events ledger controls) rows = Inr (Some completed)"
      "filterE (\<lambda>e. eqE (j_path e [''payload'', ''status'']) (Inr (JInt 1))) controls = Inr successful"
      "liftE2 j_sub (j_path fin [''state'', ''block'', ''reject'', ''count''])
         (j_path ini [''state'', ''block'', ''reject'', ''count'']) = Inr created"
      "completed \<noteq> []" "length successful = length completed"
      "j_eq (JInt (int (length completed))) created"
      "mapE (\<lambda>r. j_path r [''payload'', ''bottle_id'']) completed = Inr ids" "j_set ids = Inr s"
      "length s = length completed"
      "bindE (list_at K fin [''events'']) (j_index_by ''id'') = Inr events"
      "bindE (list_at K data [''end'', ''writer'']) (j_index_by ''command_id'') = Inr ledger"
      "j_path data [''end'', ''consumer'', ''inspections''] = Inr inspections" "j_iter K inspections = Inr rows"
    using assms by (auto simp: rc_effects_def bindE_Inr_iff split: if_splits option.splits)
  have rows: "list_at K data [''end'', ''consumer'', ''inspections''] = Inr rows"
    using w(16,17) by (simp add: list_at_def)
  have ids: "\<forall>v \<in> set ids. hashable v" "j_distinct ids"
    using w(11-13) by (auto simp: j_set_iff mapE_iff list_all2_lengthD simp flip: j_dedup_full)
  have full: "length (filter ejected controls) = length completed"
    using w(6,9) by (simp add: filterE_iff ejected_def [abs_def])
  have one: "length (filter (accounts_for row) controls) = 1" if "row \<in> set completed" for row
    using that w(5) row_effect_completed(1) by (auto simp: completed_rows_iff)
  have few: "length (filter (\<lambda>row. accounts_for row e) completed) \<le> 1" for e
  proof (cases "j_path e [''payload'', ''value'']")
    case (Inr u)
    show ?thesis
      by (rule distinct_values_few [OF w(11) ids, where u = u]) (use Inr accounts_bottle in fastforce)
  next
    case (Inl x)
    then have "filter (\<lambda>row. accounts_for row e) completed = []"
      using accounts_bottle by (fastforce simp: filter_empty_conv)
    then show ?thesis by simp
  qed
  have each: "\<forall>row \<in> set completed. length (filter (accounts_for row) controls) = 1" using one by blast
  have "length (filter (\<lambda>row. accounts_for row e) completed) = 1" if "e \<in> set controls" "ejected e" for e
    using one few accounts_ejected full that by (rule matching_total)
  then have unique: "\<forall>e \<in> set controls. ejected e \<longrightarrow> length (filter (\<lambda>row. accounts_for row e) completed) = 1" by blast
  have chosen: "completed = filter (\<lambda>row. row_effect K events ledger controls row = Inr (Some True)) rows"
    using w(5) by (simp add: completed_rows_iff)
  show ?thesis
    by (rule exI [of _ ini], rule exI [of _ fin], rule exI [of _ events], rule exI [of _ ledger],
        rule exI [of _ native], rule exI [of _ controls], rule exI [of _ rows], rule exI [of _ completed],
        rule exI [of _ created], intro conjI)
      (fact w rows chosen full each unique)+
qed

text \<open>The checks in the order of the report, and how a pass leads back to its predicate.\<close>

lemma rc_check_iff:
  "rc_check valid name p reason = Inr c \<longleftrightarrow>
     (\<exists>status. c = conf_result name status reason ''bounded_live_recovery_profile'' [JStr name] valid \<and>
        (if \<not> valid then status = CUnknown
         else case p of Inr b \<Rightarrow> status = (if b then CPass else CFail) | Inl e \<Rightarrow> unreadable e \<and> status = CUnknown))"
  by (cases p) (auto simp: rc_check_def)

lemma rc_check_named: "rc_check valid name p reason = Inr c \<Longrightarrow> cc_check c = name"
  by (auto simp: rc_check_iff conf_result_def)

lemma rc_check_pass: "rc_check valid name p reason = Inr c \<Longrightarrow> cc_status c = CPass \<Longrightarrow> valid \<and> p = Inr True"
  by (auto simp: rc_check_iff conf_result_def split: if_splits sum.splits)

lemma downgrade_named [simp]: "cc_check (downgrade c) = cc_check c"
  by (simp add: downgrade_def)

lemma downgrade_not_pass [simp]: "cc_status (downgrade c) \<noteq> CPass"
  by (simp add: downgrade_def)

lemma recovery_pass:
  assumes "check_recovery K sha package = Inr checks" and "c \<in> set checks" and "cc_status c = CPass"
  shows "rc_valid sha package" and "rc_assumptions package = Inr True"
    and "cc_check c = ''C05.source_epochs'' \<Longrightarrow> rc_epochs K package = Inr True"
    and "cc_check c = ''C05.deployed_restart'' \<Longrightarrow> rc_restarts K package = Inr True"
    and "cc_check c = ''C06.business_effects'' \<Longrightarrow> rc_effects K package = Inr True"
    and "cc_check c = ''C06.delivery_coverage'' \<Longrightarrow> rc_coverage K package = Inr True"
    and "cc_check c = ''C06.durable_recovery'' \<Longrightarrow> rc_recovery K package = Inr True"
proof -
  let ?data = "if j_truthy package then package else JObj []"
  obtain raw ok where raw: "recorded_checks K (rc_valid sha package) ?data = Inr raw"
      "rc_assumptions ?data = Inr ok" "checks = (if ok then raw else map downgrade raw)"
    using assms(1) unfolding check_recovery_def Let_def bindE_Inr_iff by blast
  have ok: "ok" using raw(3) assms(2,3) by (cases ok) auto
  obtain name p reason where p: "(name, p, reason) \<in> set (check_table K ?data)"
    and c: "rc_check (rc_valid sha package) name p reason = Inr c"
    using mapE_range [OF raw(1) [unfolded recorded_checks_def], of c] raw(3) ok assms(2) by auto
  have holds: "rc_valid sha package" "p = Inr True" "cc_check c = name"
    using rc_check_pass [OF c assms(3)] rc_check_named [OF c] by simp_all
  show valid: "rc_valid sha package" by (fact holds)
  then have data: "?data = package" by (cases package) (auto simp: rc_valid_def)
  show "rc_assumptions package = Inr True" using raw(2) ok data by simp
  show "cc_check c = ''C05.source_epochs'' \<Longrightarrow> rc_epochs K package = Inr True"
    "cc_check c = ''C05.deployed_restart'' \<Longrightarrow> rc_restarts K package = Inr True"
    "cc_check c = ''C06.business_effects'' \<Longrightarrow> rc_effects K package = Inr True"
    "cc_check c = ''C06.delivery_coverage'' \<Longrightarrow> rc_coverage K package = Inr True"
    "cc_check c = ''C06.durable_recovery'' \<Longrightarrow> rc_recovery K package = Inr True"
    using p holds(2,3) data by (auto simp: check_table_def)
qed


text \<open>
  A recovery report in which the check of the delivery coverage passes has a complete window:
  the events retained at its end are as many as the source created in it, at least one, with
  different identities and consecutive serials, all of them received, and for each the consumer
  holds a row with the same identity, the same payload and its digest that is no longer pending.
\<close>

theorem delivery_coverage_complete:
  assumes "check_recovery K sha package = Inr checks" and "c \<in> set checks"
    and "cc_check c = ''C06.delivery_coverage''" and "cc_status c = CPass"
  shows "\<exists>ini fin events first last lo hi ids.
     j_path package [''start'', ''source''] = Inr ini \<and> j_path package [''end'', ''source''] = Inr fin \<and>
     bindE (j_get fin ''events'') (j_iter K) = Inr events \<and>
     count_at K ini [''meta'', ''created''] = Inr first \<and> count_at K fin [''meta'', ''created''] = Inr last \<and>
     first < last \<and> int (length events) = last - first \<and> count_at K fin [''meta'', ''received''] = Inr last \<and>
     list_all2 (\<lambda>e i. j_get e ''id'' = Inr i) events ids \<and> j_distinct ids \<and>
     list_all2 (\<lambda>e n. \<exists>s. j_get e ''serial'' = Inr s \<and> j_eq s (JInt n)) events [lo..hi - 1] \<and>
     (\<forall>e \<in> set events. \<exists>inbox i row payload digest.
        bindE (list_at K package [''end'', ''consumer'', ''inspections'']) (j_index_by ''id'') = Inr inbox \<and>
        j_get e ''id'' = Inr i \<and> j_select inbox i = Inr row \<and> j_get e ''payload'' = Inr payload \<and>
        digest_of K (Inr payload) = Inr digest \<and> eqE (j_get row ''digest'') (Inr digest) = Inr True \<and>
        eqE (j_get row ''payload'') (Inr payload) = Inr True \<and>
        eqE (j_get row ''disposition'') (Inr (JStr ''pending'')) = Inr False)"
proof -
  have "rc_coverage K package = Inr True" using recovery_pass(6) assms by blast
  then obtain ini fin inbox events first last ids where
    w: "j_path package [''start'', ''source''] = Inr ini" "j_path package [''end'', ''source''] = Inr fin"
      "bindE (list_at K package [''end'', ''consumer'', ''inspections'']) (j_index_by ''id'') = Inr inbox"
      "bindE (j_get fin ''events'') (j_iter K) = Inr events"
      "count_at K fin [''meta'', ''created''] = Inr last" "count_at K ini [''meta'', ''created''] = Inr first"
      "mapE (\<lambda>r. j_get r ''id'') events = Inr ids"
      "window_complete K ini fin events ids (last - first) = Inr True"
      "serials_contiguous ini fin events = Inr True" "allE (event_taken K inbox) events = Inr True"
    unfolding rc_coverage_def by (simp only: bindE_Inr_iff andE_iff) blast
  have window: "first < last" "int (length events) = last - first" "count_at K fin [''meta'', ''received''] = Inr last"
      "j_distinct ids"
    using w(5,8) by (auto simp: window_complete_def bindE_Inr_iff liftE2_def j_set_iff dest: j_dedup_full [THEN iffD1, OF sym])
  obtain serials lo hi where s: "mapE (\<lambda>r. j_get r ''serial'') events = Inr serials"
      "j_eq (JArr serials) (JArr (map JInt [lo..hi - 1]))"
    using w(9) by (auto simp: serials_contiguous_def bindE_Inr_iff eqE_iff j_range_def split: if_splits)
  have serial: "list_all2 (\<lambda>e n. \<exists>s. j_get e ''serial'' = Inr s \<and> j_eq s (JInt n)) events [lo..hi - 1]"
  proof -
    have "list_all2 (\<lambda>x n. j_eq x (JInt n)) serials [lo..hi - 1]"
      using s(2) unfolding list_all2_iff list_all_iff
      by (simp add: zip_map2 list_all_iff case_prod_beta' del: upto.simps)
    with s(1) show ?thesis unfolding mapE_iff by (rule list_all2_trans [rotated]) blast
  qed
  have taken: "\<exists>i row payload digest. j_get e ''id'' = Inr i \<and> j_select inbox i = Inr row \<and>
      j_get e ''payload'' = Inr payload \<and> digest_of K (Inr payload) = Inr digest \<and>
      eqE (j_get row ''digest'') (Inr digest) = Inr True \<and> eqE (j_get row ''payload'') (Inr payload) = Inr True \<and>
      eqE (j_get row ''disposition'') (Inr (JStr ''pending'')) = Inr False" if "e \<in> set events" for e
  proof -
    have "event_taken K inbox e = Inr True" using w(10) that by simp
    then obtain i row where i: "j_get e ''id'' = Inr i" "j_select inbox i = Inr row"
        "eqE (j_get row ''digest'') (digest_of K (j_get e ''payload'')) = Inr True"
        "eqE (j_get row ''payload'') (j_get e ''payload'') = Inr True"
        "eqE (j_get row ''disposition'') (Inr (JStr ''pending'')) = Inr False"
      by (auto simp: event_taken_def bindE_Inr_iff)
    then obtain payload where p: "j_get e ''payload'' = Inr payload" by (auto simp: eqE_iff)
    then obtain digest where d: "digest_of K (Inr payload) = Inr digest" using i(3) by (auto simp: eqE_iff)
    then show ?thesis using i p by auto
  qed
  show ?thesis
    by (rule exI [of _ ini], rule exI [of _ fin], rule exI [of _ events], rule exI [of _ first],
        rule exI [of _ last], rule exI [of _ lo], rule exI [of _ hi], rule exI [of _ ids])
      (use w(1-6) w(7) [unfolded mapE_iff] window serial taken in blast)
qed

section \<open>Examples\<close>

definition recovery_checker :: checker where
  "recovery_checker = plain_checker\<lparr>ck_request := \<lambda>v. Inr example_command\<rparr>"

definition source_at :: "int \<Rightarrow> json list \<Rightarrow> json list \<Rightarrow> json" where
  "source_at n events effects =
     JObj [(''clock'', JObj [(''domain'', JStr ''line'')]),
           (''meta'', JObj [(''db_id'', JStr ''db''), (''created'', JInt n), (''received'', JInt n)]),
           (''pending'', JInt 0), (''last_serial'', JInt n), (''events'', JArr events),
           (''effects'', JArr effects), (''last_effect'', JInt n),
           (''state'', JObj [(''block'', JObj [(''reject'', JObj [(''count'', JInt n)])])])]"

definition captured_event :: json where
  "captured_event =
     JObj [(''id'', JStr ''e1''), (''serial'', JInt 1), (''received'', JBool True),
           (''payload'', JObj [(''bottle_id'', JInt 5)])]"

definition captured_effect :: json where
  "captured_effect =
     JObj [(''payload'', JObj [(''target'', JInt 28), (''value'', JInt 5), (''status'', JInt 1),
                             (''after_count'', JInt 1), (''before_count'', JInt 0)])]"

definition captured_inspection :: json where
  "captured_inspection =
     JObj [(''id'', JStr ''e1''), (''digest'', JStr (replicate 64 (CHR ''a''))),
           (''payload'', JObj [(''bottle_id'', JInt 5)]), (''disposition'', JStr ''completed''),
           (''command'', JObj [])]"

definition captured_write :: json where
  "captured_write =
     JObj [(''command_id'', JStr (replicate 26 (CHR ''0''))), (''state'', JStr ''completed''),
           (''digest'', JStr (replicate 64 (CHR ''a'')))]"

definition recovery_package :: json where
  "recovery_package =
     JObj [(''schema_version'', JStr ''1.0''), (''mode'', JStr ''live_cluster_recovery''),
           (''profile_sha256'', JStr ''pin''), (''capture_errors'', JArr []),
           (''start'', JObj [(''source'', source_at 0 [] [])]),
           (''end'', JObj [(''source'', source_at 1 [captured_event] [captured_effect]),
              (''consumer'', JObj [(''clock'', JObj [(''domain'', JStr ''line'')]),
                 (''inspections'', JArr [captured_inspection])]),
              (''writer_capture'', JObj [(''clock'', JObj [(''domain'', JStr ''line'')])]),
              (''writer'', JArr [captured_write])]),
           (''outage'', JObj [(''replicas_during'', JInt 0), (''source_pending_during'', JInt 1)]),
           (''forged_receipt'', JObj
              [(''before'', JObj [(''id'', JStr ''e1''), (''received'', JBool False)]),
               (''after'', JObj [(''id'', JStr ''e1''), (''received'', JBool False)])])]"

definition recovery_report :: "conf_check list" where
  "recovery_report =
     (case check_recovery recovery_checker ''pin'' recovery_package of Inr cs \<Rightarrow> cs | Inl e \<Rightarrow> [])"

lemma recovery_report_passes:
  "list_all (\<lambda>name. list_ex (\<lambda>c. cc_check c = name \<and> cc_status c = CPass) recovery_report)
     [''C06.business_effects'', ''C06.delivery_coverage'']"
  by code_simp

lemma recovery_report_check:
  "\<exists>c \<in> set recovery_report. cc_check c = ''C06.business_effects'' \<and> cc_status c = CPass"
  "\<exists>c \<in> set recovery_report. cc_check c = ''C06.delivery_coverage'' \<and> cc_status c = CPass"
  using recovery_report_passes by (simp_all add: list_ex_iff)

lemma recovery_report_run: "check_recovery recovery_checker ''pin'' recovery_package = Inr recovery_report"
  using recovery_report_passes by (auto simp: recovery_report_def split: sum.splits)


theorem delivery_coverage_complete_witness:
  "\<exists>fin events ids. j_path recovery_package [''end'', ''source''] = Inr fin \<and>
     bindE (j_get fin ''events'') (j_iter recovery_checker) = Inr events \<and>
     list_all2 (\<lambda>e i. j_get e ''id'' = Inr i) events ids \<and> j_distinct ids"
proof -
  obtain c where c: "c \<in> set recovery_report" "cc_check c = ''C06.delivery_coverage''" "cc_status c = CPass"
    using recovery_report_check(2) by blast
  from delivery_coverage_complete [OF recovery_report_run c] show ?thesis by blast
qed

end
