(* ===== verification/Fault_Checks.thy ===== *)
theory Fault_Checks
  imports Conformance_Order
begin

text \<open>
  The checks of the command-fault experiment (\<open>scripts/fault_checks.py\<close>): for each of six injected
  faults, whether the retained case shows the outcome the protocol promises. The evidence is decoded
  JSON of any shape. The digests of the profile and of the source files, and the time a naive
  deadline stands for, are arguments.
\<close>

record fault_env =
  fe_profile :: string
  fe_source_sha :: "string \<Rightarrow> string"
  fe_local_time :: "datetime \<Rightarrow> real"

text \<open>\<open>raise AssertionError(m)\<close> unless the condition holds, and statements in sequence.\<close>

definition assertion :: "string \<Rightarrow> exn" where
  "assertion m = OtherError ''AssertionError'' m"

definition demand :: "bool res \<Rightarrow> string \<Rightarrow> unit res" where
  "demand b m = bindE b (\<lambda>x. if x then Inr () else Inl (assertion m))"

fun in_turn :: "unit res list \<Rightarrow> unit res" where
  "in_turn [] = Inr ()"
| "in_turn (x # xs) = bindE x (\<lambda>_. in_turn xs)"

definition truthE :: "json res \<Rightarrow> bool res" where
  "truthE v = bindE v (\<lambda>x. Inr (j_truthy x))"

definition head_path :: "json \<Rightarrow> string \<Rightarrow> string list \<Rightarrow> json res" where
  "head_path v key ks = bindE (bindE (j_get v key) j_first) (\<lambda>u. j_path u ks)"

definition literally_true :: "json res \<Rightarrow> bool res" where
  "literally_true v = bindE v (\<lambda>x. Inr (x = JBool True))"

definition text_is :: "json res \<Rightarrow> string \<Rightarrow> bool res" where
  "text_is v s = eqE v (Inr (JStr s))"

definition int_is :: "json res \<Rightarrow> int \<Rightarrow> bool res" where
  "int_is v n = eqE v (Inr (JInt n))"

definition difference_is :: "json res \<Rightarrow> json res \<Rightarrow> int \<Rightarrow> bool res" where
  "difference_is a b n = int_is (liftE2 j_sub a b) n"

definition expected_cases :: "(string \<times> int \<times> string option \<times> string) list" where
  "expected_cases =
     [(''caller_reply_lost'', 1, Some ''completed'', ''approve''),
      (''before_write_disconnect'', 1, Some ''completed'', ''approve''),
      (''commit_dropped'', 0, Some ''unknown'', ''unknown''),
      (''native_ack_lost'', 1, Some ''unknown'', ''unknown''),
      (''writer_restart_after_effect'', 1, Some ''unknown'', ''unknown''),
      (''delayed_expired_command'', 0, None, ''reject'')]"

section \<open>The initiations of the writer\<close>

definition attributed_files :: "string list" where
  "attributed_files =
     [''libs/eirvah-observability/src/eirvah_observability/execution.py'',
      ''libs/eirvah-contracts/src/eirvah_contracts/actuation.py'',
      ''libs/eirvah-contracts/src/eirvah_contracts/authorization.py'',
      ''services/actuation-signal-publisher/src/actuation_signal_publisher/service.py'']"

definition journal_gap :: "checker \<Rightarrow> json \<Rightarrow> bool res" where
  "journal_gap K journal =
     orE (truthE (j_get journal ''overflow''))
       (bindE (bindE (bindE (j_get journal ''records'') (j_iter K)) (mapE (\<lambda>r. j_get r ''record_seq''))) (\<lambda>seqs.
        bindE (bindE (bindE (j_get journal ''record_seq'') (\<lambda>v. j_sub v (JInt (- 1)))) j_range_arg) (\<lambda>hi.
          notE (eqE (Inr (JArr seqs)) (j_range 1 hi)))))"

text \<open>\<open>retained[row["record_id"]] = row\<close>: a known key keeps its place.\<close>

fun retain :: "(json \<times> json) list \<Rightarrow> json \<Rightarrow> json \<Rightarrow> (json \<times> json) list" where
  "retain [] k row = [(k, row)]"
| "retain ((h, r) # rest) k row = (if j_eq k h then (h, row) # rest else (h, r) # retain rest k row)"

fun retain_rows :: "string \<Rightarrow> (json \<times> json) list \<Rightarrow> json list \<Rightarrow> (json \<times> json) list res" where
  "retain_rows cid kept [] = Inr kept"
| "retain_rows cid kept (row # rows) =
     bindE (text_is (j_get row ''correlation_id'') cid) (\<lambda>mine.
       if \<not> mine then retain_rows cid kept rows
       else bindE (bindE (j_get row ''record_id'') j_hash) (\<lambda>k.
         if (case j_find kept k of None \<Rightarrow> False | Some old \<Rightarrow> old \<noteq> JNull \<and> \<not> j_eq old row)
         then Inl (assertion ''conflicting writer record copies'')
         else retain_rows cid (retain kept k row) rows))"

definition journal_rows :: "checker \<Rightarrow> fault_env \<Rightarrow> json \<Rightarrow> json list res" where
  "journal_rows K F journal =
     bindE (journal_gap K journal) (\<lambda>gap.
       if gap then Inl (KeyError ''writer journal coverage'')
       else bindE (j_get journal ''source_hashes'') (\<lambda>hashes.
            bindE (allE (\<lambda>path. eqE (j_get hashes path) (Inr (JStr (fe_source_sha F path)))) attributed_files) (\<lambda>ok.
              if \<not> ok then Inl (KeyError ''writer source attribution'')
              else bindE (j_get journal ''records'') (j_iter K))))"

fun retained_rows :: "checker \<Rightarrow> fault_env \<Rightarrow> string \<Rightarrow> (json \<times> json) list \<Rightarrow> json list \<Rightarrow> (json \<times> json) list res" where
  "retained_rows K F cid kept [] = Inr kept"
| "retained_rows K F cid kept (j # js) =
     bindE (journal_rows K F j) (\<lambda>rows. bindE (retain_rows cid kept rows) (\<lambda>kept'. retained_rows K F cid kept' js))"

definition bound_initiation :: "checker \<Rightarrow> actuation_request \<Rightarrow> json \<Rightarrow> unit res" where
  "bound_initiation K command row =
     demand
       (andE (eqE (j_get row ''command_digest'') (bindE (command_digest (ck_crypto K) command) (\<lambda>d. Inr (JStr d))))
       (andE (text_is (j_get row ''target'') (ar_target_uns_topic command))
       (andE (eqE (j_get row ''requested_value'') (Inr (json_of_value (ar_requested_value command))))
             (literally_true (j_get row ''approval_verified'')))))
       ''initiation command or approval binding mismatch''"

definition writer_initiations :: "checker \<Rightarrow> fault_env \<Rightarrow> json \<Rightarrow> actuation_request \<Rightarrow> json list res" where
  "writer_initiations K F case_data command =
     bindE (j_get case_data ''writer_journals'') (\<lambda>journals.
       if \<not> j_truthy journals then Inl (KeyError ''writer journals'')
       else bindE (j_iter K journals) (\<lambda>js.
            bindE (retained_rows K F (ar_correlation_id command) [] js) (\<lambda>kept.
            bindE (filterE (\<lambda>r. text_is (j_get r ''action'') ''write_initiated'') (map snd kept)) (\<lambda>initiated.
            bindE (in_turn (map (bound_initiation K command) initiated)) (\<lambda>_. Inr initiated)))))"

section \<open>One case\<close>

text \<open>What a case has to show whatever its fault: the command, its effects, the ledger and the reply.\<close>

definition command_steps :: "actuation_request \<Rightarrow> actuation_request \<Rightarrow> unit res list" where
  "command_steps command replay =
     [guardE (ar_deadline command \<noteq> None) (ValueError ''bounded deadline required''),
      demand (eqE (Inr (JObj (request_doc command))) (Inr (JObj (request_doc replay)))) ''retry changed original command'',
      demand (Inr (ends_with ''/reject_bottle'' (ar_target_uns_topic command))) ''wrong experimental target'',
      demand (Inr (case ar_requested_value command of VInt n \<Rightarrow> True | _ \<Rightarrow> False)) ''wrong native value'']"

definition reject_effects :: "checker \<Rightarrow> json \<Rightarrow> json list res" where
  "reject_effects K after_data =
     bindE (bindE (j_get after_data ''effects'') (j_iter K))
       (filterE (\<lambda>r. int_is (j_path r [''payload'', ''target'']) 28))"

definition successful_effects :: "json list \<Rightarrow> json list res" where
  "successful_effects effects = filterE (\<lambda>r. int_is (j_path r [''payload'', ''status'']) 1) effects"

definition carries_out :: "actuation_request \<Rightarrow> json \<Rightarrow> bool res" where
  "carries_out command r =
     andE (eqE (j_path r [''payload'', ''value'']) (Inr (json_of_value (ar_requested_value command))))
    (andE (int_is (j_path r [''payload'', ''operation'']) 1)
          (difference_is (j_path r [''payload'', ''after_count'']) (j_path r [''payload'', ''before_count'']) 1))"

definition reject_count :: "json \<Rightarrow> json res" where
  "reject_count source = j_path source [''state'', ''block'', ''reject'', ''count'']"

definition effect_steps ::
  "checker \<Rightarrow> actuation_request \<Rightarrow> json \<Rightarrow> json \<Rightarrow> int \<Rightarrow> json list \<Rightarrow> json list \<Rightarrow> unit res list" where
  "effect_steps K command before_data after_data n effects successful =
     [demand (Inr (length effects = length successful \<and> int (length successful) = n)) ''unexpected native effect count'',
      demand (allE (carries_out command) successful) ''native effect binding mismatch'',
      demand (difference_is (reject_count after_data) (reject_count before_data) n) ''counter reconciliation failed'']"

definition source_steps :: "checker \<Rightarrow> json \<Rightarrow> json \<Rightarrow> unit res list" where
  "source_steps K before_data after_data =
     [demand (eqE (j_path before_data [''meta'', ''db_id'']) (j_path after_data [''meta'', ''db_id'']))
        ''source storage replaced'',
      demand (bindE (bindE (j_get after_data ''effects'') (j_len K)) (\<lambda>n.
          difference_is (j_get after_data ''last_effect'') (j_get before_data ''last_effect'') n))
        ''native effect records incomplete'']"

definition ledger_step :: "checker \<Rightarrow> actuation_request \<Rightarrow> string option \<Rightarrow> json \<Rightarrow> unit res" where
  "ledger_step K command state ledger =
     (case state of
        None \<Rightarrow> demand (Inr (j_eq ledger (JArr []))) ''expired fresh command acquired writer history''
      | Some s \<Rightarrow>
          demand (andE (bindE (j_len K ledger) (\<lambda>n. Inr (n = 1)))
                 (andE (text_is (bindE (j_first ledger) (\<lambda>r. j_get r ''command_id'')) (ar_correlation_id command))
                 (andE (eqE (bindE (j_first ledger) (\<lambda>r. j_get r ''digest''))
                          (bindE (command_digest (ck_crypto K) command) (\<lambda>d. Inr (JStr d))))
                       (text_is (bindE (j_first ledger) (\<lambda>r. j_get r ''state'')) s))))
            ''writer ledger mismatch'')"

definition reply_steps :: "actuation_request \<Rightarrow> string \<Rightarrow> json \<Rightarrow> unit res list" where
  "reply_steps command reply result =
     [demand (andE (text_is (j_get result ''correlation_id'') (ar_correlation_id command))
                   (text_is (j_get result ''decision'') reply)) ''retry outcome mismatch'',
      demand (allE (\<lambda>k. eqE (j_get result k) (j_get (JObj (request_doc command)) k))
          [''target_uns_topic'', ''requested_value'', ''value_type'', ''deadline'', ''requester''])
        ''reply command binding changed'']"

definition expected_initiations :: "string \<Rightarrow> nat" where
  "expected_initiations name = (if name = ''delayed_expired_command'' then 0 else 1)"

section \<open>What is particular to each fault\<close>

definition deadline_seconds :: "fault_env \<Rightarrow> actuation_request \<Rightarrow> real" where
  "deadline_seconds F command =
     (case ar_deadline command of None \<Rightarrow> 0 | Some t \<Rightarrow> if aware t then timestamp t else fe_local_time F t)"

definition first_decision_unknown :: "json \<Rightarrow> bool res" where
  "first_decision_unknown case_data = text_is (j_path case_data [''first_result'', ''decision'']) ''unknown''"

fun anyE :: "('a \<Rightarrow> bool res) \<Rightarrow> 'a list \<Rightarrow> bool res" where
  "anyE f [] = Inr False"
| "anyE f (x # xs) = orE (f x) (anyE f xs)"

definition ack_event :: "string \<Rightarrow> json list \<Rightarrow> json \<Rightarrow> bool res" where
  "ack_event kind successful r =
     andE (text_is (j_get r ''event'') kind)
    (andE (int_is (j_get r ''status'') 1)
          (eqE (j_get r ''sequence'')
             (bindE (j_first (JArr successful)) (\<lambda>e. j_path e [''payload'', ''sequence'']))))"

definition reply_lost_steps :: "json \<Rightarrow> json \<Rightarrow> unit res list" where
  "reply_lost_steps case_data result =
     [demand (andE (literally_true (j_get case_data ''reply_subscription_absent''))
                   (bindE (j_get case_data ''first_result'') (\<lambda>v. Inr (v = JNull)))) ''caller reply was not lost'',
      demand (andE (text_is (head_path case_data ''first_ledger'' [''state'']) ''completed'')
                   (literally_true (j_get result ''replayed''))) ''lost completion was not replayed'',
      demand (eqE (j_get result ''written_at'') (head_path case_data ''first_ledger'' [''result'', ''written_at'']))
        ''completion time changed'']"

definition disconnect_steps :: "json \<Rightarrow> json \<Rightarrow> json list \<Rightarrow> unit res list" where
  "disconnect_steps case_data before_data events =
     [demand (andE (Inr (j_in (JStr ''disconnected_before_write'') events))
             (andE (text_is (head_path case_data ''first_ledger'' [''state'']) ''retryable'')
                   (eqE (j_path case_data [''first_source'', ''last_effect'']) (j_get before_data ''last_effect''))))
        ''pre-write failure not established'',
      demand (orE (first_decision_unknown case_data)
               (andE (text_is (j_path case_data [''first_result'', ''decision'']) ''reject'')
                     (literally_true (j_path case_data [''first_result'', ''retryable'']))))
        ''pre-write retry policy mismatch'']"

definition dropped_steps :: "json \<Rightarrow> json list \<Rightarrow> unit res list" where
  "dropped_steps case_data events =
     [demand (Inr (j_in (JStr ''commit_dropped'') events \<and> \<not> j_in (JStr ''commit_forwarded'') events))
        ''commit was not withheld'',
      demand (first_decision_unknown case_data) ''uncertain initiation labelled refusal'']"

definition ack_lost_steps :: "json \<Rightarrow> json list \<Rightarrow> json list \<Rightarrow> unit res list" where
  "ack_lost_steps case_data records successful =
     [demand (anyE (ack_event ''ack_dropped'' successful) records) ''successful native acknowledgement not dropped'',
      demand (first_decision_unknown case_data) ''lost native ack labelled refusal'']"

definition restart_steps :: "json \<Rightarrow> json list \<Rightarrow> json list \<Rightarrow> unit res list" where
  "restart_steps case_data records successful =
     [demand (anyE (ack_event ''ack_held'' successful) records) ''restart boundary not held'',
      demand (text_is (head_path case_data ''first_ledger'' [''state'']) ''started'') ''writer not interrupted after initiation'',
      demand (bindE (j_get case_data ''restart'') (\<lambda>restart.
          andE (notE (eqE (j_path restart [''before'', ''uid'']) (j_path restart [''after'', ''uid''])))
         (andE (truthE (j_path restart [''before'', ''volumes'']))
               (eqE (j_path restart [''before'', ''volumes'']) (j_path restart [''after'', ''volumes''])))))
        ''real restart with retained ledger not established'']"

definition expired_steps :: "checker \<Rightarrow> fault_env \<Rightarrow> actuation_request \<Rightarrow> json \<Rightarrow> json \<Rightarrow> unit res list" where
  "expired_steps K F command case_data records =
     [demand (andE (lessE K (j_path case_data [''published_clock'', ''wall'']) (Inr (JFloat (Fin (deadline_seconds F command)))))
             (andE (int_is (j_get case_data ''held_replicas'') 0)
                   (lessE K (Inr (JFloat (Fin (deadline_seconds F command)))) (j_path case_data [''held_clock'', ''wall'']))))
        ''command was not held past expiry'',
      demand (Inr (\<not> j_truthy records)) ''expired command entered native transport'']"

definition fault_steps ::
  "checker \<Rightarrow> fault_env \<Rightarrow> string \<Rightarrow> actuation_request \<Rightarrow> json \<Rightarrow> json \<Rightarrow> json \<Rightarrow> json \<Rightarrow> json list \<Rightarrow>
     json list \<Rightarrow> json list \<Rightarrow> unit res list" where
  "fault_steps K F name command case_data before_data result records rows events successful =
     (if name = ''caller_reply_lost'' then reply_lost_steps case_data result
      else if name = ''before_write_disconnect'' then disconnect_steps case_data before_data events
      else if name = ''commit_dropped'' then dropped_steps case_data events
      else if name = ''native_ack_lost'' then ack_lost_steps case_data rows successful
      else if name = ''writer_restart_after_effect'' then restart_steps case_data rows successful
      else if name = ''delayed_expired_command'' then expired_steps K F command case_data records
      else [])"

definition case_effects :: "checker \<Rightarrow> string \<Rightarrow> int \<Rightarrow> actuation_request \<Rightarrow> json \<Rightarrow> json \<Rightarrow> json list res" where
  "case_effects K name n command before_data after_data =
     bindE (in_turn (source_steps K before_data after_data)) (\<lambda>_.
     bindE (reject_effects K after_data) (\<lambda>effects.
     bindE (successful_effects effects) (\<lambda>successful.
     bindE (in_turn (effect_steps K command before_data after_data n effects successful)) (\<lambda>_. Inr successful))))"

definition initiation_step :: "checker \<Rightarrow> fault_env \<Rightarrow> string \<Rightarrow> actuation_request \<Rightarrow> json \<Rightarrow> unit res" where
  "initiation_step K F name command case_data =
     bindE (writer_initiations K F case_data command) (\<lambda>initiated.
       demand (Inr (length initiated = expected_initiations name))
         ''unexpected native initiation count across original and replay'')"

definition proxy_step :: "string \<Rightarrow> actuation_request \<Rightarrow> json list \<Rightarrow> unit res" where
  "proxy_step name command rows =
     demand (allE (\<lambda>r. andE (text_is (j_get r ''command_id'') (ar_correlation_id command))
                            (text_is (j_get r ''case_id'') name)) rows)
       ''proxy evidence binding mismatch''"

text \<open>The clocks of the case: \<open>True\<close> when the assumptions of a pass are established.\<close>

definition case_assumptions :: "json \<Rightarrow> json \<Rightarrow> json \<Rightarrow> json \<Rightarrow> bool res" where
  "case_assumptions data case_data before_data after_data =
     bindE (j_path before_data [''clock'', ''domain'']) (\<lambda>a.
     bindE (j_path after_data [''clock'', ''domain'']) (\<lambda>b.
     bindE (j_path case_data [''writer_clock'', ''domain'']) (\<lambda>c.
       andE (Inr (list_all j_truthy [a, b, c]))
      (andE (bindE (j_set [a, b, c]) (\<lambda>s. Inr (length s = 1)))
      (andE (bindE (j_lookup data ''capture_errors'') (\<lambda>v. Inr (j_eq v (JArr []))))
            (literally_true (j_lookup data ''restored'')))))))"

definition check_one ::
  "checker \<Rightarrow> fault_env \<Rightarrow> json \<Rightarrow> string \<times> int \<times> string option \<times> string \<Rightarrow> json \<Rightarrow> bool res" where
  "check_one K F data expected case_data =
     (case expected of (name, n, state, reply) \<Rightarrow>
     bindE (bindE (j_get case_data ''command'') (ck_request K)) (\<lambda>command.
     bindE (bindE (j_get case_data ''replay_command'') (ck_request K)) (\<lambda>replay.
     bindE (in_turn (command_steps command replay)) (\<lambda>_.
     bindE (j_get case_data ''before'') (\<lambda>before_data.
     bindE (j_get case_data ''after'') (\<lambda>after_data.
     bindE (case_effects K name n command before_data after_data) (\<lambda>successful.
     bindE (bindE (j_get case_data ''ledger'') (ledger_step K command state)) (\<lambda>_.
     bindE (j_get case_data ''replay_result'') (\<lambda>result.
     bindE (in_turn (reply_steps command reply result)) (\<lambda>_.
     bindE (initiation_step K F name command case_data) (\<lambda>_.
     bindE (j_get case_data ''proxy'') (\<lambda>records.
     bindE (j_iter K records) (\<lambda>proxied.
     bindE (proxy_step name command proxied) (\<lambda>_.
     bindE (bindE (mapE (\<lambda>r. j_get r ''event'') proxied) j_set) (\<lambda>events.
     bindE (in_turn (fault_steps K F name command case_data before_data result records proxied events successful)) (\<lambda>_.
       case_assumptions data case_data before_data after_data))))))))))))))))"

definition check_case ::
  "checker \<Rightarrow> fault_env \<Rightarrow> json \<Rightarrow> bool \<Rightarrow> string \<times> int \<times> string option \<times> string \<Rightarrow> bool res" where
  "check_case K F data valid expected =
     bindE (bindE (bindE (j_get data ''cases'') (j_iter K)) (filterE (\<lambda>c. text_is (j_get c ''id'') (fst expected)))) (\<lambda>rows.
       if \<not> valid \<or> length rows \<noteq> 1 then Inl (KeyError ''case'') else check_one K F data expected (hd rows))"

section \<open>The checks and their report\<close>

definition fault_unreadable :: "exn \<Rightarrow> bool" where
  "fault_unreadable e \<longleftrightarrow> malformed e \<or> e = attribute_error \<or> e = py_index_error"

definition case_status :: "bool res \<Rightarrow> (conf_status \<times> string) res" where
  "case_status r =
     (case r of
        Inr True \<Rightarrow> Inr (CPass, ''Observed outcome, immutable replay, native effects and durable writer history reconcile'')
      | Inr False \<Rightarrow> Inr (CUnknown, ''Clock, capture or restoration assumptions not established'')
      | Inl e \<Rightarrow>
          if exn_name e = ''AssertionError'' then Inr (CFail, exn_msg e)
          else if fault_unreadable e then Inr (CUnknown, ''Missing complete bounded command-fault evidence'')
          else Inl e)"

definition fault_valid :: "fault_env \<Rightarrow> json \<Rightarrow> bool res" where
  "fault_valid F data =
     andE (text_is (j_lookup data ''schema_version'') ''1.0'')
    (andE (text_is (j_lookup data ''mode'') ''live_command_faults'')
          (text_is (j_lookup data ''profile_sha256'') (fe_profile F)))"

definition fault_check ::
  "checker \<Rightarrow> fault_env \<Rightarrow> json \<Rightarrow> bool \<Rightarrow> string \<times> int \<times> string option \<times> string \<Rightarrow> conf_check res" where
  "fault_check K F data valid expected =
     bindE (case_status (check_case K F data valid expected)) (\<lambda>(status, reason).
       Inr (conf_result (''C10.fault.'' @ fst expected) status reason ''bounded_modbus_command_faults''
              [JStr (fst expected)] valid))"

definition check_fault_evidence :: "checker \<Rightarrow> fault_env \<Rightarrow> json \<Rightarrow> conf_check list res" where
  "check_fault_evidence K F package =
     (let data = (if j_truthy package then package else JObj []) in
      bindE (fault_valid F data) (\<lambda>valid. mapE (fault_check K F data valid) expected_cases))"

definition fault_report :: "checker \<Rightarrow> fault_env \<Rightarrow> json \<Rightarrow> (conf_status \<times> conf_check list) res" where
  "fault_report K F package =
     bindE (check_fault_evidence K F package) (\<lambda>checks.
       Inr (if list_ex (\<lambda>c. cc_status c = CFail) checks then CFail
            else if list_ex (\<lambda>c. cc_status c \<noteq> CPass) checks then CUnknown else CPass, checks))"

section \<open>What a pass means\<close>

lemma bind_Inr: "bindE m f = Inr b \<Longrightarrow> (\<And>a. m = Inr a \<Longrightarrow> f a = Inr b \<Longrightarrow> P) \<Longrightarrow> P"
  by (auto simp: bindE_Inr_iff)

lemma in_turn_iff [simp]: "in_turn xs = Inr u \<longleftrightarrow> (\<forall>x \<in> set xs. x = Inr ())"
  by (induction xs) (auto simp: bindE_Inr_iff)

lemma demand_iff [simp]: "demand b m = Inr u \<longleftrightarrow> b = Inr True"
  by (auto simp: demand_def bindE_Inr_iff split: if_splits)

lemma case_status_pass: "case_status r = Inr (CPass, reason) \<Longrightarrow> r = Inr True"
  by (auto simp: case_status_def split: sum.splits bool.splits if_splits)

text \<open>
  What the evidence says, read directly: a member that is there and equals a value, an initiation, an
  effect on the device and the ledger of the writer.
\<close>

definition reads :: "json res \<Rightarrow> json \<Rightarrow> bool" where
  "reads v x \<longleftrightarrow> (\<exists>u. v = Inr u \<and> j_eq u x)"

definition grown_by :: "json res \<Rightarrow> json res \<Rightarrow> int \<Rightarrow> bool" where
  "grown_by after_val before_val n \<longleftrightarrow> (\<exists>x y d. after_val = Inr x \<and> before_val = Inr y \<and> j_sub x y = Inr d \<and> j_eq d (JInt n))"

definition bound_record :: "actuation_request \<Rightarrow> string \<Rightarrow> json \<Rightarrow> bool" where
  "bound_record command digest row \<longleftrightarrow>
     reads (j_get row ''action'') (JStr ''write_initiated'') \<and> reads (j_get row ''command_digest'') (JStr digest) \<and>
     reads (j_get row ''target'') (JStr (ar_target_uns_topic command)) \<and>
     reads (j_get row ''requested_value'') (json_of_value (ar_requested_value command)) \<and>
     j_get row ''approval_verified'' = Inr (JBool True)"

definition shown_effect :: "actuation_request \<Rightarrow> json \<Rightarrow> bool" where
  "shown_effect command e \<longleftrightarrow>
     reads (j_path e [''payload'', ''status'']) (JInt 1) \<and> reads (j_path e [''payload'', ''operation'']) (JInt 1) \<and>
     reads (j_path e [''payload'', ''value'']) (json_of_value (ar_requested_value command)) \<and>
     grown_by (j_path e [''payload'', ''after_count'']) (j_path e [''payload'', ''before_count'']) 1"

definition shown_ledger :: "checker \<Rightarrow> actuation_request \<Rightarrow> string \<Rightarrow> string option \<Rightarrow> json \<Rightarrow> bool" where
  "shown_ledger K command digest state ledger \<longleftrightarrow>
     (case state of
        None \<Rightarrow> j_eq ledger (JArr [])
      | Some s \<Rightarrow> j_len K ledger = Inr 1 \<and>
          (\<exists>row. j_first ledger = Inr row \<and> reads (j_get row ''command_id'') (JStr (ar_correlation_id command)) \<and>
             reads (j_get row ''digest'') (JStr digest) \<and> reads (j_get row ''state'') (JStr s)))"

lemma text_is_reads: "text_is v s = Inr True \<longleftrightarrow> reads v (JStr s)"
  by (auto simp: text_is_def eqE_iff reads_def)

lemma int_is_reads: "int_is v n = Inr True \<longleftrightarrow> reads v (JInt n)"
  by (auto simp: int_is_def eqE_iff reads_def)

lemma eqE_reads: "eqE v (Inr x) = Inr True \<longleftrightarrow> reads v x"
  by (auto simp: eqE_iff reads_def)

lemma difference_grown: "difference_is a b n = Inr True \<longleftrightarrow> grown_by a b n"
  by (auto simp: difference_is_def int_is_def eqE_iff liftE2_def bindE_Inr_iff grown_by_def)

lemma initiations_bound:
  assumes "writer_initiations K F case_data command = Inr initiated" and "r \<in> set initiated"
    and d: "command_digest (ck_crypto K) command = Inr digest"
  shows "bound_record command digest r"
proof -
  have "bound_initiation K command r = Inr ()" "text_is (j_get r ''action'') ''write_initiated'' = Inr True"
    using assms(1,2) by (auto simp: writer_initiations_def bindE_Inr_iff filterE_iff split: if_splits)
  then show ?thesis
    by (auto simp: bound_initiation_def bound_record_def eqE_reads text_is_reads literally_true_def bindE_Inr_iff d)
qed

lemma carries_out_shown:
  "carries_out command e = Inr True \<Longrightarrow> int_is (j_path e [''payload'', ''status'']) 1 = Inr True \<Longrightarrow> shown_effect command e"
  by (simp add: carries_out_def shown_effect_def eqE_reads int_is_reads difference_grown)

lemma ledger_step_shown:
  assumes "ledger_step K command state ledger = Inr ()" "command_digest (ck_crypto K) command = Inr digest"
  shows "shown_ledger K command digest state ledger"
proof (cases state)
  case None
  then show ?thesis using assms by (simp add: ledger_step_def shown_ledger_def)
next
  case (Some s)
  then have "j_len K ledger = Inr 1"
      "text_is (bindE (j_first ledger) (\<lambda>r. j_get r ''command_id'')) (ar_correlation_id command) = Inr True"
      "eqE (bindE (j_first ledger) (\<lambda>r. j_get r ''digest'')) (Inr (JStr digest)) = Inr True"
      "text_is (bindE (j_first ledger) (\<lambda>r. j_get r ''state'')) s = Inr True"
    using assms by (auto simp: ledger_step_def bindE_Inr_iff)
  then show ?thesis using Some unfolding text_is_reads eqE_reads
    by (auto simp: shown_ledger_def reads_def bindE_Inr_iff)
qed

lemma filter_full: "length xs = length (filter P xs) \<Longrightarrow> filter P xs = xs"
  by (rule filter_True) (use length_filter_less [of _ xs P] in force)

lemma case_effects_shown:
  assumes "case_effects K name n command before_data after_data = Inr successful"
  shows "\<exists>native. bindE (j_get after_data ''effects'') (j_iter K) = Inr native \<and>
    successful = filter (\<lambda>e. reads (j_path e [''payload'', ''target'']) (JInt 28)) native"
    and "int (length successful) = n" and "\<forall>e \<in> set successful. shown_effect command e"
    and "grown_by (reject_count after_data) (reject_count before_data) n"
proof -
  obtain effects where e: "reject_effects K after_data = Inr effects" "successful_effects effects = Inr successful"
      "length effects = length successful" "int (length successful) = n"
      "difference_is (reject_count after_data) (reject_count before_data) n = Inr True"
      "\<forall>r \<in> set successful. carries_out command r = Inr True"
    using assms by (auto simp: case_effects_def effect_steps_def bindE_Inr_iff)
  have s: "successful = filter (\<lambda>r. int_is (j_path r [''payload'', ''status'']) 1 = Inr True) effects"
    using e(2) by (simp only: successful_effects_def filterE_iff)
  have "successful = effects"
    using e(3) unfolding s by (rule filter_full)
  then have r: "reject_effects K after_data = Inr successful" using e(1) by simp
  show "\<exists>native. bindE (j_get after_data ''effects'') (j_iter K) = Inr native \<and>
      successful = filter (\<lambda>e. reads (j_path e [''payload'', ''target'']) (JInt 28)) native"
    using r by (auto simp: reject_effects_def bindE_Inr_iff filterE_iff int_is_reads)
  show "int (length successful) = n" "grown_by (reject_count after_data) (reject_count before_data) n"
    using e(4,5) by (simp_all add: difference_grown)
  show "\<forall>e \<in> set successful. shown_effect command e"
  proof
    fix x assume x: "x \<in> set successful"
    then have "int_is (j_path x [''payload'', ''status'']) 1 = Inr True" by (simp add: s)
    then show "shown_effect command x" using carries_out_shown e(6) x by blast
  qed
qed

lemma expected_outcomes:
  "(name, n, state, reply) \<in> set expected_cases \<Longrightarrow>
     n \<le> int (expected_initiations name) \<and> expected_initiations name \<le> 1 \<and>
     (reply = ''approve'' \<longrightarrow> n = 1 \<and> state = Some ''completed'') \<and>
     (reply = ''reject'' \<longrightarrow> n = 0 \<and> expected_initiations name = 0 \<and> state = None)"
  by (auto simp: expected_cases_def expected_initiations_def)

lemma case_shown:
  assumes "check_case K F data valid (name, n, state, reply) = Inr True"
  shows "\<exists>cases case_data command before_data after_data ledger result effects initiated.
     valid \<and> bindE (j_get data ''cases'') (j_iter K) = Inr cases \<and>
     filter (\<lambda>c. reads (j_get c ''id'') (JStr name)) cases = [case_data] \<and>
     bindE (j_get case_data ''command'') (ck_request K) = Inr command \<and>
     j_get case_data ''before'' = Inr before_data \<and> j_get case_data ''after'' = Inr after_data \<and>
     case_effects K name n command before_data after_data = Inr effects \<and>
     j_get case_data ''ledger'' = Inr ledger \<and> ledger_step K command state ledger = Inr () \<and>
     j_get case_data ''replay_result'' = Inr result \<and>
     text_is (j_get result ''correlation_id'') (ar_correlation_id command) = Inr True \<and>
     text_is (j_get result ''decision'') reply = Inr True \<and>
     writer_initiations K F case_data command = Inr initiated \<and> length initiated = expected_initiations name"
proof -
  obtain cases rows where v: "valid" and r: "check_one K F data (name, n, state, reply) (hd rows) = Inr True"
    and d: "bindE (j_get data ''cases'') (j_iter K) = Inr cases"
      "filterE (\<lambda>c. text_is (j_get c ''id'') name) cases = Inr rows" "length rows = 1"
    using assms by (auto simp: check_case_def bindE_Inr_iff split: if_splits)
  have held: "filter (\<lambda>c. reads (j_get c ''id'') (JStr name)) cases = [hd rows]"
  proof -
    have "rows = filter (\<lambda>c. reads (j_get c ''id'') (JStr name)) cases"
      using d(2) by (simp add: filterE_iff text_is_reads)
    moreover have "rows = [hd rows]" using d(3) by (cases rows) simp_all
    ultimately show ?thesis by simp
  qed
  obtain command before_data after_data effects ledger result initiated where
    "bindE (j_get (hd rows) ''command'') (ck_request K) = Inr command"
    "j_get (hd rows) ''before'' = Inr before_data" "j_get (hd rows) ''after'' = Inr after_data"
    "case_effects K name n command before_data after_data = Inr effects"
    "j_get (hd rows) ''ledger'' = Inr ledger" "ledger_step K command state ledger = Inr ()"
    "j_get (hd rows) ''replay_result'' = Inr result" "\<forall>x \<in> set (reply_steps command reply result). x = Inr ()"
    "writer_initiations K F (hd rows) command = Inr initiated" "length initiated = expected_initiations name"
    using r unfolding check_one_def prod.case initiation_step_def
    by (elim bind_Inr) (rule that; simp)
  moreover from this(8) have "text_is (j_get result ''correlation_id'') (ar_correlation_id command) = Inr True"
      "text_is (j_get result ''decision'') reply = Inr True"
    by (simp_all add: reply_steps_def)
  ultimately show ?thesis using v d(1) held by blast
qed

text \<open>Every row the ledger or the initiations have to match rests on a digest of the command.\<close>

lemma digest_known:
  "ledger_step K command (Some s) ledger = Inr () \<Longrightarrow> \<exists>digest. command_digest (ck_crypto K) command = Inr digest"
  by (auto simp: ledger_step_def eqE_iff bindE_Inr_iff)


section \<open>Examples\<close>

definition fault_command :: actuation_request where
  "fault_command = example_command\<lparr>ar_target_uns_topic := ''a/b/c/d/e/f/reject_bottle''\<rparr>"

definition fault_checker :: checker where
  "fault_checker = plain_checker\<lparr>ck_request := \<lambda>v. Inr fault_command\<rparr>"

definition plain_fault_env :: fault_env where
  "plain_fault_env = \<lparr>fe_profile = ''pin'', fe_source_sha = \<lambda>path. ''sha'', fe_local_time = \<lambda>t. 0\<rparr>"

definition command_id :: json where
  "command_id = JStr (ar_correlation_id fault_command)"

definition fault_source :: "int \<Rightarrow> json list \<Rightarrow> json" where
  "fault_source n effects =
     JObj [(''clock'', JObj [(''domain'', JStr ''line'')]), (''meta'', JObj [(''db_id'', JStr ''db'')]),
           (''effects'', JArr effects), (''last_effect'', JInt n),
           (''state'', JObj [(''block'', JObj [(''reject'', JObj [(''count'', JInt n)])])])]"

definition fault_effect :: json where
  "fault_effect =
     JObj [(''payload'', JObj [(''target'', JInt 28), (''status'', JInt 1), (''value'', JInt 5), (''operation'', JInt 1),
                             (''after_count'', JInt 1), (''before_count'', JInt 0)])]"

definition fault_ledger_row :: json where
  "fault_ledger_row =
     JObj [(''command_id'', command_id), (''digest'', JStr (replicate 64 (CHR ''a''))), (''state'', JStr ''completed''),
           (''result'', JObj [(''written_at'', JStr ''t'')])]"

definition fault_journal :: json where
  "fault_journal =
     JObj [(''overflow'', JBool False), (''record_seq'', JInt 1),
           (''records'', JArr [JObj [(''record_seq'', JInt 1), (''correlation_id'', command_id), (''record_id'', JStr ''r1''),
              (''action'', JStr ''write_initiated''), (''command_digest'', JStr (replicate 64 (CHR ''a''))),
              (''target'', JStr ''a/b/c/d/e/f/reject_bottle''), (''requested_value'', JInt 5),
              (''approval_verified'', JBool True)]]),
           (''source_hashes'', JObj (map (\<lambda>path. (path, JStr ''sha'')) attributed_files))]"

definition reply_lost_case :: json where
  "reply_lost_case =
     JObj [(''id'', JStr ''caller_reply_lost''), (''command'', JNull), (''replay_command'', JNull),
           (''before'', fault_source 0 []), (''after'', fault_source 1 [fault_effect]),
           (''ledger'', JArr [fault_ledger_row]), (''first_ledger'', JArr [fault_ledger_row]),
           (''replay_result'', JObj ([(''decision'', JStr ''approve''), (''replayed'', JBool True),
              (''written_at'', JStr ''t'')] @ request_doc fault_command)),
           (''first_result'', JNull), (''reply_subscription_absent'', JBool True),
           (''writer_journals'', JArr [fault_journal]), (''proxy'', JArr []),
           (''writer_clock'', JObj [(''domain'', JStr ''line'')])]"

definition fault_package :: json where
  "fault_package =
     JObj [(''schema_version'', JStr ''1.0''), (''mode'', JStr ''live_command_faults''), (''profile_sha256'', JStr ''pin''),
           (''cases'', JArr [reply_lost_case]), (''capture_errors'', JArr []), (''restored'', JBool True)]"

definition fault_checks :: "conf_check list" where
  "fault_checks = (case check_fault_evidence fault_checker plain_fault_env fault_package of Inr cs \<Rightarrow> cs | Inl e \<Rightarrow> [])"

lemma fault_checks_pass: "list_ex (\<lambda>c. cc_status c = CPass) fault_checks"
  by code_simp

lemma fault_checks_run: "check_fault_evidence fault_checker plain_fault_env fault_package = Inr fault_checks"
  using fault_checks_pass by (auto simp: fault_checks_def split: sum.splits)


end
