(* ===== verification/Experiment_Stats.thy ===== *)
theory Experiment_Stats
  imports Py_Values "HOL-Library.AList" "HOL-Library.Product_Lexorder" "HOL-Library.List_Lexorder" "HOL-Library.Char_ord"
begin

text \<open>
  The statistics of an experiment run (\<open>scripts/experiment_stats.py\<close>): from rows of scraped metrics
  the increase of every counter, the sample statistics of every gauge and the percentiles of every
  histogram, each over the window observed. Timestamps and values are finite; the bound of a bucket
  is finite or \<open>+Inf\<close>. Reading the \<open>le\<close> label off the JSON of the labels and writing the rest back is
  the argument \<open>le_of\<close>.
\<close>

type_synonym samples = "(real \<times> real) list"
type_synonym series_key = "string \<times> string"

section \<open>The bounds of the buckets\<close>

datatype bound = Upto real | Unbounded

instantiation bound :: linorder
begin

fun less_eq_bound :: "bound \<Rightarrow> bound \<Rightarrow> bool" where
  "less_eq_bound x Unbounded = True"
| "less_eq_bound Unbounded (Upto y) = False"
| "less_eq_bound (Upto x) (Upto y) = (x \<le> y)"

definition less_bound :: "bound \<Rightarrow> bound \<Rightarrow> bool" where
  "less_bound x y \<longleftrightarrow> x \<le> y \<and> \<not> y \<le> (x :: bound)"

instance
proof
  fix x y z :: bound
  show "x < y \<longleftrightarrow> x \<le> y \<and> \<not> y \<le> x" by (simp add: less_bound_def)
  show "x \<le> x" by (cases x) auto
  show "x \<le> y \<Longrightarrow> y \<le> z \<Longrightarrow> x \<le> z" by (cases x; cases y; cases z) auto
  show "x \<le> y \<Longrightarrow> y \<le> x \<Longrightarrow> x = y" by (cases x; cases y) auto
  show "x \<le> y \<or> y \<le> x" by (cases x; cases y) auto
qed

end

section \<open>The increase of a counter\<close>

definition increase :: "samples \<Rightarrow> real option \<times> string" where
  "increase samples =
     (if length samples < 2 \<or> fst (last samples) \<le> fst (hd samples)
      then (None, ''insufficient distinct samples'')
      else if list_ex (\<lambda>(a, b). snd b < snd a) (zip samples (tl samples))
      then (None, ''counter reset observed; increase unknown'')
      else (Some (snd (last samples) - snd (hd samples)),
            ''observed window only; unseen resets/increments not recoverable''))"

section \<open>The percentile of a histogram\<close>

text \<open>The loop over the buckets, from the bound and the count of the bucket before.\<close>

fun quantile_from :: "real \<Rightarrow> real \<Rightarrow> real \<Rightarrow> (bound \<times> real) list \<Rightarrow> real option" where
  "quantile_from rank lower previous [] = None"
| "quantile_from rank lower previous ((Unbounded, n) # rest) = None"
| "quantile_from rank lower previous ((Upto upper, n) # rest) =
     (if n \<ge> rank
      then Some (if n = previous then upper else lower + (upper - lower) * (rank - previous) / (n - previous))
      else quantile_from rank upper n rest)"

definition quantile :: "(bound \<times> real) list \<Rightarrow> real \<Rightarrow> real option" where
  "quantile buckets q =
     (if snd (last buckets) \<le> 0 then None else quantile_from (snd (last buckets) * q) 0 0 buckets)"

section \<open>The summary\<close>

record window_stat =
  ws_metric :: string
  ws_labels :: string
  ws_samples :: nat
  ws_start :: real
  ws_end :: real
  ws_elapsed :: real

record histogram_stat =
  hs_observations :: real
  hs_start :: real
  hs_end :: real
  hs_elapsed :: real
  hs_mean :: "real option"
  hs_p50 :: "real option"
  hs_p95 :: "real option"
  hs_p99 :: "real option"

datatype summary_row =
    CounterRow window_stat "real option" "real option" string
  | GaugeRow window_stat real real real
  | HistogramRow string string "histogram_stat option" string

definition add_sample :: "real \<times> string \<times> string \<times> real \<Rightarrow> (series_key \<times> samples) list \<Rightarrow> (series_key \<times> samples) list" where
  "add_sample row series =
     (case row of (t, metric, labels, v) \<Rightarrow>
        AList.update (metric, labels)
          (AList.update t v (case map_of series (metric, labels) of None \<Rightarrow> [] | Some s \<Rightarrow> s)) series)"

definition collect :: "(real \<times> string \<times> string \<times> real) list \<Rightarrow> (series_key \<times> samples) list" where
  "collect rows = fold add_sample rows []"

definition window_of :: "series_key \<Rightarrow> samples \<Rightarrow> window_stat" where
  "window_of key samples =
     \<lparr>ws_metric = fst key, ws_labels = snd key, ws_samples = length samples, ws_start = fst (hd samples),
      ws_end = fst (last samples), ws_elapsed = fst (last samples) - fst (hd samples)\<rparr>"

definition is_counter :: "string \<Rightarrow> bool" where
  "is_counter metric \<longleftrightarrow> list_ex (\<lambda>s. ends_with s metric) [''_total'', ''_sum'', ''_count'', ''_bucket'']"

definition series_row :: "series_key \<Rightarrow> samples \<Rightarrow> summary_row" where
  "series_row key samples =
     (let w = window_of key samples; observed = map snd samples in
      if is_counter (fst key)
      then (case increase samples of (inc, limitation) \<Rightarrow>
              CounterRow w inc (map_option (\<lambda>x. x / ws_elapsed w) inc) limitation)
      else GaugeRow w (sum_list observed / real (length observed)) (fold min (tl observed) (hd observed))
             (fold max (tl observed) (hd observed)))"

text \<open>A \<open>_bucket\<close> series joins the histogram of its other labels under its bound.\<close>

type_synonym histograms = "(series_key \<times> (bound \<times> samples) list) list"

definition base_metric :: "string \<Rightarrow> string" where
  "base_metric metric = take (length metric - length ''_bucket'') metric"

definition add_bucket ::
  "(string \<Rightarrow> (bound \<times> string) res) \<Rightarrow> series_key \<Rightarrow> samples \<Rightarrow> histograms \<Rightarrow> histograms res" where
  "add_bucket le_of key samples hs =
     (if ends_with ''_bucket'' (fst key)
      then bindE (le_of (snd key)) (\<lambda>(bound, tags).
           let k = (base_metric (fst key), tags) in
           Inr (AList.update k (AList.update bound samples (case map_of hs k of None \<Rightarrow> [] | Some m \<Rightarrow> m)) hs))
      else Inr hs)"

fun series_rows ::
  "(string \<Rightarrow> (bound \<times> string) res) \<Rightarrow> histograms \<Rightarrow> (series_key \<times> samples) list \<Rightarrow> (summary_row list \<times> histograms) res" where
  "series_rows le_of hs [] = Inr ([], hs)"
| "series_rows le_of hs ((key, values) # rest) =
     (let samples = sort_key fst values in
      bindE (add_bucket le_of key samples hs) (\<lambda>hs'.
      bindE (series_rows le_of hs' rest) (\<lambda>(rows, hs'').
        Inr (series_row key samples # rows, hs''))))"

definition common_times :: "samples list \<Rightarrow> real list" where
  "common_times members =
     (case members of
        [] \<Rightarrow> []
      | m # ms \<Rightarrow> filter (\<lambda>t. \<forall>n \<in> set ms. t \<in> fst ` set n) (map fst m))"

definition value_at :: "real \<Rightarrow> samples \<Rightarrow> real" where
  "value_at t samples = (case map_of samples t of None \<Rightarrow> 0 | Some v \<Rightarrow> v)"

definition increase_within :: "real \<Rightarrow> real \<Rightarrow> samples \<Rightarrow> real option" where
  "increase_within ini fin member =
     fst (increase (sort_key fst (filter (\<lambda>(t, v). ini \<le> t \<and> t \<le> fin) member)))"

definition consistent :: "(bound \<times> real) list \<Rightarrow> real \<Rightarrow> bool" where
  "consistent buckets observations \<longleftrightarrow>
     observations = snd (last buckets) \<and> list_all (\<lambda>(b, n). 0 \<le> n) buckets \<and>
     list_all (\<lambda>(a, b). snd a \<le> snd b) (zip buckets (tl buckets))"

text \<open>The buckets of the aligned window, by increasing bound, and the row they make.\<close>

definition bucket_increases :: "real \<Rightarrow> real \<Rightarrow> (bound \<times> samples) list \<Rightarrow> (bound \<times> real) list" where
  "bucket_increases ini fin bucket_series =
     sort_key id (map (\<lambda>(b, s). (b, value_at fin s - value_at ini s)) bucket_series)"

definition histogram_stat_of :: "real \<Rightarrow> real \<Rightarrow> (bound \<times> real) list \<Rightarrow> real \<Rightarrow> real \<Rightarrow> histogram_stat" where
  "histogram_stat_of ini fin buckets observations seconds =
     \<lparr>hs_observations = observations, hs_start = ini, hs_end = fin, hs_elapsed = fin - ini,
      hs_mean = (if observations = 0 then None else Some (seconds / observations)),
      hs_p50 = quantile buckets (50 / 100), hs_p95 = quantile buckets (95 / 100), hs_p99 = quantile buckets (99 / 100)\<rparr>"

definition find_series :: "(series_key \<times> samples) list \<Rightarrow> string \<Rightarrow> string \<Rightarrow> samples" where
  "find_series series metric labels = (case map_of series (metric, labels) of None \<Rightarrow> [] | Some s \<Rightarrow> s)"

definition histogram_row ::
  "(series_key \<times> samples) list \<Rightarrow> series_key \<Rightarrow> (bound \<times> samples) list \<Rightarrow> summary_row" where
  "histogram_row series key bucket_series =
     (let counts = find_series series (fst key @ ''_count'') (snd key);
          totals = find_series series (fst key @ ''_sum'') (snd key);
          members = map snd bucket_series @ [counts, totals];
          common = common_times members;
          row = HistogramRow (fst key) (snd key) in
      if length common < 2 \<or> Unbounded \<notin> fst ` set bucket_series
      then row None ''incomplete histogram or fewer than two aligned snapshots''
      else let ini = fold min (tl common) (hd common); fin = fold max (tl common) (hd common) in
      if list_ex (\<lambda>m. increase_within ini fin m = None) members
      then row None ''histogram reset or insufficient evidence; percentiles unknown''
      else let buckets = bucket_increases ini fin bucket_series;
               observations = value_at fin counts - value_at ini counts in
      if \<not> consistent buckets observations
      then row None ''inconsistent histogram; percentiles unknown''
      else row (Some (histogram_stat_of ini fin buckets observations (value_at fin totals - value_at ini totals)))
             ''approximate bucket-interpolated per-label percentiles over observed window; no pooled replica percentile; blank tails exceed finite buckets or have no observations'')"

definition summarize ::
  "(string \<Rightarrow> (bound \<times> string) res) \<Rightarrow> (real \<times> string \<times> string \<times> real) list \<Rightarrow> summary_row list res" where
  "summarize le_of rows =
     (let series = collect rows in
      bindE (series_rows le_of [] (sort_key fst series)) (\<lambda>(summary, hs).
        Inr (summary @ map (\<lambda>(key, buckets). histogram_row series key buckets) (sort_key fst hs))))"

section \<open>The percentiles\<close>

text \<open>
  A percentile lies in the bucket its rank falls into: fewer observations than the rank are in the
  buckets before, and at least as many up to and including it.
\<close>

definition brackets :: "(bound \<times> real) list \<Rightarrow> real \<Rightarrow> real \<Rightarrow> bool" where
  "brackets buckets rank v \<longleftrightarrow>
     (\<exists>before upper n rest. buckets = before @ (Upto upper, n) # rest \<and> v \<le> upper \<and> rank \<le> n \<and>
        (\<forall>(b, m) \<in> set before. m < rank \<and> b \<le> Upto v))"

lemma interpolation_bounds:
  fixes lower upper rank previous n :: real
  assumes "lower \<le> upper" and "previous < rank" and "rank \<le> n"
  shows "lower \<le> lower + (upper - lower) * (rank - previous) / (n - previous)"
    and "lower + (upper - lower) * (rank - previous) / (n - previous) \<le> upper"
proof -
  have d: "0 < n - previous" using assms by simp
  have f: "0 \<le> (rank - previous) / (n - previous)" "(rank - previous) / (n - previous) \<le> 1"
    using assms d by (simp_all add: divide_le_eq_1)
  show "lower \<le> lower + (upper - lower) * (rank - previous) / (n - previous)"
    using assms(1) f(1) d assms(2) by simp
  have "(upper - lower) * ((rank - previous) / (n - previous)) \<le> upper - lower"
    using mult_left_mono [OF f(2), of "upper - lower"] assms(1) by simp
  then show "lower + (upper - lower) * (rank - previous) / (n - previous) \<le> upper" by simp
qed

lemma quantile_from_brackets:
  assumes "quantile_from rank lower previous buckets = Some v" and "previous < rank"
    and "sorted (map fst buckets)" and "\<forall>b \<in> set (map fst buckets). Upto lower \<le> b"
  shows "lower \<le> v \<and> brackets buckets rank v"
  using assms
proof (induction rank lower previous buckets rule: quantile_from.induct)
  case (3 rank lower previous upper n rest)
  have lu: "lower \<le> upper" using "3.prems"(4) by simp
  show ?case
  proof (cases "rank \<le> n")
    case True
    then have "v = lower + (upper - lower) * (rank - previous) / (n - previous)"
      using "3.prems"(1,2) by (auto split: if_splits)
    with interpolation_bounds [OF lu "3.prems"(2) True] True show ?thesis
      unfolding brackets_def by (intro conjI exI [of _ "[]"] exI [of _ upper] exI [of _ n] exI [of _ rest]) auto
  next
    case False
    then have "upper \<le> v \<and> brackets rest rank v"
      using "3.IH" [OF False] "3.prems" False by auto
    moreover from this obtain before u m later where
      "rest = before @ (Upto u, m) # later" "v \<le> u" "rank \<le> m" "\<forall>(b, m) \<in> set before. m < rank \<and> b \<le> Upto v"
      unfolding brackets_def by blast
    ultimately show ?thesis using False lu
      unfolding brackets_def by (intro conjI exI [of _ "(Upto upper, n) # before"] exI [of _ u] exI [of _ m] exI [of _ later]) auto
  qed
qed simp_all

lemma quantile_from_mono:
  assumes "quantile_from r2 lower previous buckets = Some v2" and "r1 \<le> r2" and "previous < r1"
    and "sorted (map fst buckets)" and "\<forall>b \<in> set (map fst buckets). Upto lower \<le> b"
  shows "\<exists>v1. quantile_from r1 lower previous buckets = Some v1 \<and> v1 \<le> v2"
  using assms
proof (induction r2 lower previous buckets rule: quantile_from.induct)
  case (3 r2 lower previous upper n rest)
  have lu: "lower \<le> upper" using "3.prems"(5) by simp
  show ?case
  proof (cases "r2 \<le> n")
    case True
    have d: "0 < n - previous" using True "3.prems"(2,3) by simp
    have "(upper - lower) * (r1 - previous) / (n - previous) \<le> (upper - lower) * (r2 - previous) / (n - previous)"
      using d lu "3.prems"(2) by (intro divide_right_mono mult_left_mono) auto
    then show ?thesis using True "3.prems"(1-3) by (auto split: if_splits)
  next
    case False
    have rest: "quantile_from r2 upper n rest = Some v2" "sorted (map fst rest)"
        "\<forall>b \<in> set (map fst rest). Upto upper \<le> b"
      using "3.prems"(1,4) False by auto
    show ?thesis
    proof (cases "r1 \<le> n")
      case True
      have "upper \<le> v2" using quantile_from_brackets [OF rest(1) _ rest(2,3)] False by simp
      moreover have "lower + (upper - lower) * (r1 - previous) / (n - previous) \<le> upper"
        by (rule interpolation_bounds(2) [OF lu "3.prems"(3) True])
      ultimately show ?thesis using True "3.prems"(3) by auto
    next
      case r1: False
      then show ?thesis using "3.IH" [OF False rest(1) "3.prems"(2) _ rest(2,3)] by simp
    qed
  qed
qed simp_all

definition well_bucketed :: "(bound \<times> real) list \<Rightarrow> bool" where
  "well_bucketed buckets \<longleftrightarrow> sorted (map fst buckets) \<and> (\<forall>b \<in> set (map fst buckets). Upto 0 \<le> b)"

lemma quantile_brackets:
  assumes "quantile buckets q = Some v" and "well_bucketed buckets" and "0 < q"
  shows "0 \<le> v \<and> brackets buckets (snd (last buckets) * q) v"
  using assms quantile_from_brackets [of _ 0 0 buckets v]
  by (auto simp: quantile_def well_bucketed_def split: if_splits)

lemma quantile_mono:
  assumes "quantile buckets q2 = Some v2" and "well_bucketed buckets" and "0 < q1" and "q1 \<le> q2"
  shows "\<exists>v1. quantile buckets q1 = Some v1 \<and> v1 \<le> v2"
  using assms quantile_from_mono [of "snd (last buckets) * q2" 0 0 buckets v2 "snd (last buckets) * q1"]
  by (auto simp: quantile_def well_bucketed_def mult_left_mono split: if_splits)

lemma bucket_update_set: "set (AList.update k v al) \<subseteq> insert (k, v) (set al)"
  by (induction al) auto

lemma sorted_fst:
  fixes xs :: "('a::linorder \<times> 'b::linorder) list"
  shows "sorted xs \<Longrightarrow> sorted (map fst xs)"
  unfolding sorted_map by (erule sorted_wrt_mono_rel [rotated]) (auto simp: less_eq_prod_def)

lemma well_bucketed_increases:
  assumes "\<forall>b \<in> fst ` set bs. Upto 0 \<le> b"
  shows "well_bucketed (bucket_increases ini fin bs)"
  using assms sorted_fst [OF sorted_sort_key [of id, simplified]]
  by (auto simp: well_bucketed_def bucket_increases_def id_def)

definition from_zero :: "histograms \<Rightarrow> bool" where
  "from_zero hs \<longleftrightarrow> (\<forall>(k, m) \<in> set hs. \<forall>b \<in> fst ` set m. Upto 0 \<le> b)"

lemma add_bucket_from_zero:
  assumes "add_bucket le_of key samples hs = Inr hs'" and "from_zero hs"
    and "\<And>labels b tags. le_of labels = Inr (b, tags) \<Longrightarrow> Upto 0 \<le> b"
  shows "from_zero hs'"
proof (cases "ends_with ''_bucket'' (fst key)")
  case True
  then obtain b tags where le: "le_of (snd key) = Inr (b, tags)" and
    hs': "hs' = AList.update (base_metric (fst key), tags)
      (AList.update b samples (case map_of hs (base_metric (fst key), tags) of None \<Rightarrow> [] | Some m \<Rightarrow> m)) hs"
    using assms(1) by (auto simp: add_bucket_def bindE_Inr_iff Let_def)
  let ?old = "case map_of hs (base_metric (fst key), tags) of None \<Rightarrow> [] | Some m \<Rightarrow> m"
  have "\<forall>c \<in> fst ` set ?old. Upto 0 \<le> c"
    using assms(2) map_of_SomeD [of hs "(base_metric (fst key), tags)"]
    by (cases "map_of hs (base_metric (fst key), tags)") (fastforce simp: from_zero_def)+
  then have "\<forall>c \<in> fst ` set (AList.update b samples ?old). Upto 0 \<le> c"
    using bucket_update_set [of b samples ?old] assms(3) [OF le] by fastforce
  then show ?thesis using assms(2) bucket_update_set unfolding hs' from_zero_def by fastforce
qed (use assms in \<open>simp add: add_bucket_def\<close>)

lemma series_rows_from_zero:
  assumes "series_rows le_of hs series = Inr (rows, hs')" and "from_zero hs"
    and "\<And>labels b tags. le_of labels = Inr (b, tags) \<Longrightarrow> Upto 0 \<le> b"
  shows "from_zero hs'"
  using assms(1,2)
proof (induction series arbitrary: hs rows)
  case (Cons x series)
  obtain key vs where x: "x = (key, vs)" by (cases x)
  obtain hs1 rows1 where "add_bucket le_of key (sort_key fst vs) hs = Inr hs1"
      "series_rows le_of hs1 series = Inr (rows1, hs')"
    using Cons.prems(1) unfolding x by (auto simp: bindE_Inr_iff Let_def)
  then show ?case using Cons.IH add_bucket_from_zero Cons.prems(2) assms(3) by blast
qed simp

lemma increase_within_window: "increase_within ini fin member \<noteq> None \<Longrightarrow> ini < fin"
proof -
  let ?s = "sort_key fst (filter (\<lambda>(t, v). ini \<le> t \<and> t \<le> fin) member)"
  assume "increase_within ini fin member \<noteq> None"
  then have len: "\<not> length ?s < 2" and d: "fst (hd ?s) < fst (last ?s)"
    by (auto simp: increase_within_def increase_def split: if_splits)
  have "\<forall>p \<in> set ?s. ini \<le> fst p \<and> fst p \<le> fin" by auto
  moreover have "?s \<noteq> []" using len by (metis list.size(3) zero_less_numeral)
  ultimately have "ini \<le> fst (hd ?s)" "fst (last ?s) \<le> fin"
    by (meson hd_in_set last_in_set)+
  with d show "ini < fin" by simp
qed

lemma histogram_row_stat:
  assumes "histogram_row series key bs = HistogramRow m l (Some h) limitation"
  shows "\<exists>ini fin observations seconds. ini < fin \<and> bs \<noteq> [] \<and> consistent (bucket_increases ini fin bs) observations \<and>
     h = histogram_stat_of ini fin (bucket_increases ini fin bs) observations seconds"
proof -
  define counts where "counts = find_series series (fst key @ ''_count'') (snd key)"
  define totals where "totals = find_series series (fst key @ ''_sum'') (snd key)"
  define common where "common = common_times (map snd bs @ [counts, totals])"
  define ini where "ini = fold min (tl common) (hd common)"
  define fin where "fin = fold max (tl common) (hd common)"
  note row = assms [unfolded histogram_row_def Let_def, folded counts_def totals_def, folded common_def, folded ini_def fin_def]
  have u: "Unbounded \<in> fst ` set bs" and i: "increase_within ini fin counts \<noteq> None"
    and r: "consistent (bucket_increases ini fin bs) (value_at fin counts - value_at ini counts)"
      "h = histogram_stat_of ini fin (bucket_increases ini fin bs) (value_at fin counts - value_at ini counts)
         (value_at fin totals - value_at ini totals)"
    using row by (auto split: if_splits)
  from u have "bs \<noteq> []" by auto
  with increase_within_window [OF i] r show ?thesis by blast
qed

lemma not_histogram: "series_row key samples \<noteq> HistogramRow m l h limitation"
  by (auto simp: series_row_def Let_def split: prod.splits)

lemma series_rows_kind: "series_rows le_of hs series = Inr (rows, hs') \<Longrightarrow> HistogramRow m l h limitation \<notin> set rows"
proof (induction series arbitrary: hs rows)
  case (Cons x series)
  then show ?case by (cases x) (auto simp: bindE_Inr_iff Let_def not_histogram [symmetric])
qed simp

definition zero_based :: "(string \<Rightarrow> (bound \<times> string) res) \<Rightarrow> bool" where
  "zero_based le_of \<longleftrightarrow> (\<forall>labels b tags. le_of labels = Inr (b, tags) \<longrightarrow> Upto 0 \<le> b)"

text \<open>
  In the summary of a run every histogram whose buckets start at zero reports percentiles that
  are ordered, the 99th only where the others exist, and each of them lies in the bucket its rank
  among the observations of the window falls into.
\<close>

theorem percentiles_sound:
  assumes "summarize le_of rows = Inr out" and "HistogramRow m l (Some h) limitation \<in> set out"
    and "zero_based le_of"
  shows "hs_start h < hs_end h \<and> 0 \<le> hs_observations h \<and>
     (\<forall>v. hs_p99 h = Some v \<longrightarrow> (\<exists>u w. hs_p50 h = Some u \<and> hs_p95 h = Some w \<and> 0 \<le> u \<and> u \<le> w \<and> w \<le> v)) \<and>
     (\<exists>buckets. consistent buckets (hs_observations h) \<and>
        (\<forall>v. hs_p50 h = Some v \<longrightarrow> brackets buckets (hs_observations h * (50 / 100)) v) \<and>
        (\<forall>v. hs_p95 h = Some v \<longrightarrow> brackets buckets (hs_observations h * (95 / 100)) v) \<and>
        (\<forall>v. hs_p99 h = Some v \<longrightarrow> brackets buckets (hs_observations h * (99 / 100)) v))"
proof -
  obtain summary hs where s: "series_rows le_of [] (sort_key fst (collect rows)) = Inr (summary, hs)"
      "out = summary @ map (\<lambda>(key, buckets). histogram_row (collect rows) key buckets) (sort_key fst hs)"
    using assms(1) by (auto simp: summarize_def Let_def bindE_Inr_iff)
  then obtain key bs where k: "(key, bs) \<in> set hs" "histogram_row (collect rows) key bs = HistogramRow m l (Some h) limitation"
    using assms(2) series_rows_kind by fastforce
  then obtain ini fin observations seconds where bs: "bs \<noteq> []" and w: "ini < fin"
      "consistent (bucket_increases ini fin bs) observations"
      "h = histogram_stat_of ini fin (bucket_increases ini fin bs) observations seconds"
    using histogram_row_stat by blast
  let ?b = "bucket_increases ini fin bs"
  have "from_zero hs" using series_rows_from_zero [OF s(1)] assms(3) by (auto simp: from_zero_def zero_based_def)
  then have b: "well_bucketed ?b" using k(1) by (intro well_bucketed_increases) (auto simp: from_zero_def)
  have last: "observations = snd (last ?b)" using w(2) by (simp add: consistent_def)
  have "length ?b = length bs" by (simp add: bucket_increases_def)
  then have "?b \<noteq> []" using bs by auto
  then have nonneg: "0 \<le> observations" using w(2) last last_in_set [of ?b]
    by (cases "last ?b") (auto simp: consistent_def list_all_iff)
  have ordered: "\<exists>u x. quantile ?b (50 / 100) = Some u \<and> quantile ?b (95 / 100) = Some x \<and> 0 \<le> u \<and> u \<le> x \<and> x \<le> v"
    if v: "quantile ?b (99 / 100) = Some v" for v
  proof -
    obtain x where x: "quantile ?b (95 / 100) = Some x" "x \<le> v" using quantile_mono [OF v b, of "95 / 100"] by auto
    obtain u where u: "quantile ?b (50 / 100) = Some u" "u \<le> x" using quantile_mono [OF x(1) b, of "50 / 100"] by auto
    show ?thesis using x u quantile_brackets [OF u(1) b] by auto
  qed
  have bracket: "brackets ?b (observations * q) v" if "quantile ?b q = Some v" "0 < q" for q v
    using quantile_brackets [OF that(1) b that(2)] last by simp
  have p: "hs_start h = ini" "hs_end h = fin" "hs_observations h = observations"
      "hs_p50 h = quantile ?b (50 / 100)" "hs_p95 h = quantile ?b (95 / 100)" "hs_p99 h = quantile ?b (99 / 100)"
    using w(3) by (simp_all only: histogram_stat_of_def histogram_stat.simps)
  show ?thesis unfolding p
    by (intro conjI exI [of _ ?b] allI impI w(1,2) nonneg ordered bracket; (assumption | simp))
qed

definition latency_rows :: "(real \<times> string \<times> string \<times> real) list" where
  "latency_rows =
     [(0, ''wait_bucket'', ''1'', 0), (0, ''wait_bucket'', ''inf'', 0), (0, ''wait_count'', [], 0), (0, ''wait_sum'', [], 0),
      (10, ''wait_bucket'', ''1'', 4), (10, ''wait_bucket'', ''inf'', 4), (10, ''wait_count'', [], 4), (10, ''wait_sum'', [], 2)]"

definition latency_le :: "string \<Rightarrow> (bound \<times> string) res" where
  "latency_le labels =
     (if labels = ''1'' then Inr (Upto 1, []) else if labels = ''inf'' then Inr (Unbounded, [])
      else Inl (KeyError ''le''))"

definition latency_report :: "summary_row list" where
  "latency_report = (case summarize latency_le latency_rows of Inr out \<Rightarrow> out | Inl e \<Rightarrow> [])"

fun reports_percentiles :: "summary_row \<Rightarrow> bool" where
  "reports_percentiles (HistogramRow m l (Some h) limitation) \<longleftrightarrow> hs_p99 h \<noteq> None"
| "reports_percentiles _ = False"

lemma latency_reported: "list_ex reports_percentiles latency_report"
  by code_simp

lemma latency_run: "summarize latency_le latency_rows = Inr latency_report"
  using latency_reported by (auto simp: latency_report_def split: sum.splits)

theorem percentiles_sound_witness:
  "\<exists>(h :: histogram_stat) u w v. hs_p50 h = Some u \<and> hs_p95 h = Some w \<and> hs_p99 h = Some v \<and> 0 \<le> u \<and> u \<le> w \<and> w \<le> v"
proof -
  obtain m l h limitation v where h: "HistogramRow m l (Some h) limitation \<in> set latency_report" "hs_p99 h = Some v"
    using latency_reported by (auto simp: list_ex_iff elim!: reports_percentiles.elims)
  have "zero_based latency_le"
    by (auto simp: zero_based_def latency_le_def split: if_splits)
  note sound = percentiles_sound [OF latency_run h(1) this]
  from sound have "\<forall>v. hs_p99 h = Some v \<longrightarrow> (\<exists>u w. hs_p50 h = Some u \<and> hs_p95 h = Some w \<and> 0 \<le> u \<and> u \<le> w \<and> w \<le> v)"
    by (elim conjE)
  with h(2) show ?thesis by blast
qed

end
