(* ===== verification/Fault_Proxy.thy ===== *)
theory Fault_Proxy
  imports Effects
begin

text \<open>
  The fault proxy between the writer and a Modbus device (\<open>scripts/native_fault_proxy.py\<close>): one
  connection, which carries the frames of the declared mailbox only, injects the fault of its plan
  and records what it did. The bytes a peer has sent so far are a list; the exception raised when
  they run out, the device, and the readings of the plan file are arguments. A device answers a
  frame at once, if it answers.
\<close>

section \<open>Frames\<close>

type_synonym bytes = "int list"

definition adu_word :: "bytes \<Rightarrow> nat \<Rightarrow> int" where
  "adu_word bs i = bs ! i * 256 + bs ! Suc i"

definition word_bytes :: "int \<Rightarrow> bytes" where
  "word_bytes n = [n div 256 mod 256, n mod 256]"

definition modbus_adu :: "bytes \<Rightarrow> int \<Rightarrow> int \<Rightarrow> bytes" where
  "modbus_adu pdu transaction unit =
     word_bytes transaction @ word_bytes 0 @ word_bytes (int (length pdu) + 1) @ [unit] @ pdu"

text \<open>\<open>read_frame\<close>: the frame and the bytes after it.\<close>

definition read_frame :: "exn \<Rightarrow> bytes \<Rightarrow> (bytes \<times> bytes) res" where
  "read_frame missing bs =
     (if length bs < 6 then Inl missing
      else let n = adu_word bs 4 in
        if adu_word bs 2 \<noteq> 0 \<or> \<not> (2 \<le> n \<and> n \<le> 254) then Inl (ValueError ''invalid Modbus frame'')
        else if length bs < 6 + nat n then Inl missing
        else Inr (take (6 + nat n) bs, drop (6 + nat n) bs))"

lemma read_frame_parts:
  assumes "read_frame missing bs = Inr (request, rest)"
  shows "bs = request @ rest" and "8 \<le> length request"
  using assms by (auto simp: read_frame_def Let_def split: if_splits)

lemma read_frame_shorter: "read_frame missing bs = Inr (request, rest) \<Longrightarrow> length rest < length bs"
  using read_frame_parts [of missing bs request rest] by auto

section \<open>Plans and evidence\<close>

datatype fault_mode = NormalMode | DisconnectBeforeWrite | DropCommit | DropAck | HoldAck

record fault_plan =
  fp_id :: string
  fp_mode :: fault_mode

datatype proxy_event =
    Connected
  | DisconnectedBeforeWrite
  | CommitDropped int
  | CommitForwarded int
  | AckDropped int int
  | AckHeld int int
  | AckForwarded int int

record ('d) proxy_world =
  px_client :: bytes
  px_remote :: bytes
  px_device :: 'd
  px_forwarded :: "bytes list"
  px_returned :: "bytes list"
  px_events :: "proxy_event list"
  px_sequence :: nat

definition proxy_record :: "proxy_event \<Rightarrow> ('d proxy_world, unit) act" where
  "proxy_record event =
     bindS (getS px_sequence) (\<lambda>n.
       thenS (guardS (n < 4096) (RuntimeError ''fault evidence capacity reached''))
             (putS (\<lambda>w. w\<lparr>px_sequence := Suc n, px_events := px_events w @ [event]\<rparr>)))"

section \<open>Requests\<close>

definition pdu_of :: "bytes \<Rightarrow> bytes" where
  "pdu_of request = drop 7 request"

definition pdu_word :: "bytes \<Rightarrow> nat \<Rightarrow> int" where
  "pdu_word pdu i = (if i + 2 \<le> length pdu then adu_word pdu i else - 1)"

definition is_commit :: "bytes \<Rightarrow> bool" where
  "is_commit request \<longleftrightarrow>
     (let pdu = pdu_of request in
      pdu ! 0 = 16 \<and> pdu_word pdu 1 = 28 \<and> pdu_word pdu 3 = 1 \<and> length pdu = 8)"

definition is_mailbox_write :: "bytes \<Rightarrow> bool" where
  "is_mailbox_write request \<longleftrightarrow>
     (let pdu = pdu_of request in pdu ! 0 = 16 \<and> pdu_word pdu 1 = 29 \<and> pdu_word pdu 3 = 2)"

definition is_ack_read :: "bytes \<Rightarrow> bool" where
  "is_ack_read request \<longleftrightarrow>
     (let pdu = pdu_of request in pdu ! 0 = 3 \<and> pdu_word pdu 1 = 54 \<and> pdu_word pdu 3 = 2)"

definition check_request :: "bytes \<Rightarrow> unit res" where
  "check_request request =
     (let function = pdu_of request ! 0 in
      bindE (guardE (\<not> (function = 16 \<and> \<not> (is_mailbox_write request \<or> is_commit request)))
               (ValueError ''proxy permits only the declared rejection mailbox'')) (\<lambda>_.
        guardE (\<not> (function \<noteq> 16 \<and> \<not> is_ack_read request))
          (ValueError ''proxy permits only the declared acknowledgement'')))"

definition commit_sequence :: "bytes \<Rightarrow> int" where
  "commit_sequence request = adu_word (pdu_of request) 6"

text \<open>The sequence and the status of an acknowledgement that confirms the committed command.\<close>

definition confirmation :: "int option \<Rightarrow> bytes \<Rightarrow> bytes \<Rightarrow> (int \<times> int) option" where
  "confirmation committed request response =
     (case committed of
        None \<Rightarrow> None
      | Some c \<Rightarrow>
          if pdu_of request ! 0 = 3 \<and> length response = 13 \<and> take 2 (drop 7 response) = [3, 4] \<and>
             adu_word response 9 = c \<and> adu_word response 11 = 1
          then Some (adu_word response 9, adu_word response 11) else None)"

section \<open>One connection\<close>

record proxy_env =
  pe_missing_client :: exn
  pe_missing_remote :: exn
  pe_held :: "fault_plan res list"
  pe_released :: "fault_plan res"

text \<open>
  \<open>hold_ack\<close>: the plan is read again until it changes or 35 seconds have passed, after the last
  reading of \<open>pe_held\<close>; \<open>True\<close> lets the acknowledgement through.
\<close>

fun hold_loop :: "fault_plan res list \<Rightarrow> unit res" where
  "hold_loop [] = Inr ()"
| "hold_loop (r # rs) = bindE r (\<lambda>p. if fp_mode p = HoldAck then hold_loop rs else Inr ())"

definition hold_ack :: "proxy_env \<Rightarrow> bool res" where
  "hold_ack E = bindE (hold_loop (pe_held E)) (\<lambda>_. bindE (pe_released E) (\<lambda>p. Inr (fp_mode p \<noteq> HoldAck)))"

text \<open>What the plan makes of a confirming acknowledgement: \<open>False\<close> ends the connection.\<close>

definition pass_ack :: "proxy_env \<Rightarrow> fault_plan \<Rightarrow> int \<times> int \<Rightarrow> ('d proxy_world, bool) act" where
  "pass_ack E plan ack =
     (case ack of (sequence, status) \<Rightarrow>
        if fp_mode plan = DropAck then thenS (proxy_record (AckDropped sequence status)) (retS False)
        else if fp_mode plan = HoldAck
        then thenS (proxy_record (AckHeld sequence status))
            (bindS (liftS (hold_ack E)) (\<lambda>go.
               if go then thenS (proxy_record (AckForwarded sequence status)) (retS True) else retS False))
        else thenS (proxy_record (AckForwarded sequence status)) (retS True))"

definition forward_request ::
  "proxy_env \<Rightarrow> ('d \<Rightarrow> bytes \<Rightarrow> 'd \<times> bytes) \<Rightarrow> bytes \<Rightarrow> ('d proxy_world, bytes) act" where
  "forward_request E respond request =
     thenS (putS (\<lambda>w. case respond (px_device w) request of (d, bs) \<Rightarrow>
        w\<lparr>px_device := d, px_remote := px_remote w @ bs, px_forwarded := px_forwarded w @ [request]\<rparr>))
      (bindS (getS px_remote) (\<lambda>bs.
       bindS (liftS (read_frame (pe_missing_remote E) bs)) (\<lambda>(response, rest).
         thenS (putS (\<lambda>w. w\<lparr>px_remote := rest\<rparr>)) (retS response))))"

text \<open>One round of the loop: the committed sequence after it, or \<open>None\<close> to end the connection.\<close>

definition proxy_answer ::
  "proxy_env \<Rightarrow> fault_plan \<Rightarrow> int option \<Rightarrow> bytes \<Rightarrow> bytes \<Rightarrow> ('d proxy_world, int option option) act" where
  "proxy_answer E plan committed request response =
     thenS (whenS (is_commit request) (proxy_record (CommitForwarded (commit_sequence request))))
      (bindS (case confirmation committed request response of None \<Rightarrow> retS True | Some ack \<Rightarrow> pass_ack E plan ack) (\<lambda>go.
         if go then thenS (putS (\<lambda>w. w\<lparr>px_returned := px_returned w @ [response]\<rparr>)) (retS (Some committed))
         else retS None))"

definition proxy_round ::
  "proxy_env \<Rightarrow> fault_plan \<Rightarrow> ('d \<Rightarrow> bytes \<Rightarrow> 'd \<times> bytes) \<Rightarrow> int option \<Rightarrow> bytes \<Rightarrow> ('d proxy_world, int option option) act" where
  "proxy_round E plan respond committed request =
     thenS (liftS (check_request request))
      (if is_commit request \<and> fp_mode plan = DropCommit
       then thenS (proxy_record (CommitDropped (commit_sequence request))) (retS None)
       else bindS (forward_request E respond request)
              (proxy_answer E plan (if is_commit request then Some (commit_sequence request) else committed) request))"

text \<open>The loop over the frames of the client, whose bytes it takes one frame after the other.\<close>

function proxy_loop ::
  "proxy_env \<Rightarrow> fault_plan \<Rightarrow> ('d \<Rightarrow> bytes \<Rightarrow> 'd \<times> bytes) \<Rightarrow> int option \<Rightarrow> bytes \<Rightarrow> ('d proxy_world, unit) act" where
  "proxy_loop E plan respond committed bs w =
     (case read_frame (pe_missing_client E) bs of
        Inl e \<Rightarrow> (w, Inl e)
      | Inr (request, rest) \<Rightarrow>
          (case proxy_round E plan respond committed request (w\<lparr>px_client := rest\<rparr>) of
             (w', Inl e) \<Rightarrow> (w', Inl e)
           | (w', Inr None) \<Rightarrow> (w', Inr ())
           | (w', Inr (Some committed')) \<Rightarrow> proxy_loop E plan respond committed' rest w'))"
  by pat_completeness auto
termination by (relation "measure (\<lambda>(E, plan, respond, committed, bs, w). length bs)") (auto dest: read_frame_shorter)

declare proxy_loop.simps [simp del]

text \<open>\<open>except (IncompleteReadError, ConnectionError, TimeoutError): pass\<close>.\<close>

fun connection_lost :: "exn \<Rightarrow> bool" where
  "connection_lost (TimeoutError m) = True"
| "connection_lost (ConnectionError m) = True"
| "connection_lost (OtherError c m) = (c = ''IncompleteReadError'')"
| "connection_lost _ = False"

definition proxy_handle ::
  "proxy_env \<Rightarrow> fault_plan res \<Rightarrow> bool \<Rightarrow> ('d \<Rightarrow> bytes \<Rightarrow> 'd \<times> bytes) \<Rightarrow> ('d proxy_world, unit) act" where
  "proxy_handle E reading reachable respond =
     tryS
       (bindS (liftS reading) (\<lambda>plan.
        thenS (proxy_record Connected)
          (if fp_mode plan = DisconnectBeforeWrite then proxy_record DisconnectedBeforeWrite
           else thenS (guardS reachable (ConnectionError ''Connect call failed''))
             (bindS (getS px_client) (proxy_loop E plan respond None)))))
       (\<lambda>e. if connection_lost e then retS () else raiseS e) retS"

section \<open>What the evidence of a connection is worth\<close>

definition passable :: "bytes \<Rightarrow> bool" where
  "passable request \<longleftrightarrow> is_mailbox_write request \<or> is_commit request \<or> is_ack_read request"

definition committed_in :: "bytes list \<Rightarrow> int \<Rightarrow> bool" where
  "committed_in frames c \<longleftrightarrow> (\<exists>f \<in> set frames. is_commit f \<and> commit_sequence f = c)"

definition event_true :: "fault_mode \<Rightarrow> bytes list \<Rightarrow> proxy_event \<Rightarrow> bool" where
  "event_true mode frames event =
     (case event of
        Connected \<Rightarrow> True
      | DisconnectedBeforeWrite \<Rightarrow> mode = DisconnectBeforeWrite
      | CommitDropped c \<Rightarrow> mode = DropCommit
      | CommitForwarded c \<Rightarrow> committed_in frames c
      | AckDropped c s \<Rightarrow> mode = DropAck \<and> s = 1 \<and> committed_in frames c
      | AckHeld c s \<Rightarrow> mode = HoldAck \<and> s = 1 \<and> committed_in frames c
      | AckForwarded c s \<Rightarrow> mode \<noteq> DropAck \<and> s = 1 \<and> committed_in frames c)"

definition proxy_inv :: "fault_plan \<Rightarrow> 'd proxy_world \<Rightarrow> bool" where
  "proxy_inv plan w \<longleftrightarrow>
     (\<forall>f \<in> set (px_forwarded w). passable f \<and> (is_commit f \<longrightarrow> fp_mode plan \<noteq> DropCommit)) \<and>
     (fp_mode plan = DisconnectBeforeWrite \<longrightarrow> px_forwarded w = []) \<and>
     (\<forall>event \<in> set (px_events w). event_true (fp_mode plan) (px_forwarded w) event) \<and>
     length (px_returned w) \<le> length (px_forwarded w)"

lemma committed_more: "committed_in frames c \<Longrightarrow> committed_in (frames @ new) c"
  by (auto simp: committed_in_def)

lemma event_true_more: "event_true mode frames event \<Longrightarrow> event_true mode (frames @ new) event"
  by (auto simp: event_true_def committed_more split: proxy_event.splits)

lemma record_cases:
  assumes "proxy_record event w = (w', r)"
  shows "w' = w \<and> r = Inl (RuntimeError ''fault evidence capacity reached'') \<or>
     r = Inr () \<and> w' = w\<lparr>px_sequence := Suc (px_sequence w), px_events := px_events w @ [event]\<rparr>"
  using assms by (auto simp: proxy_record_def bindS_def guardE_def split: if_splits)

lemma record_inv:
  assumes "proxy_record event w = (w', r)" and "proxy_inv plan w" and "event_true (fp_mode plan) (px_forwarded w) event"
  shows "proxy_inv plan w' \<and> px_forwarded w' = px_forwarded w \<and> px_returned w' = px_returned w"
  using record_cases [OF assms(1)] assms(2,3) by (auto simp: proxy_inv_def)

lemma request_checked: "check_request request = Inr u \<Longrightarrow> passable request"
  by (auto simp: check_request_def Let_def passable_def bindE_Inr_iff guardE_def split: if_splits)

lemma proxied_cases:
  assumes "forward_request E respond request w = (w', r)"
  shows "px_forwarded w' = px_forwarded w @ [request] \<and> px_events w' = px_events w \<and> px_returned w' = px_returned w"
  using assms by (auto simp: forward_request_def bindS_def split: prod.splits sum.splits)

lemma pass_ack_inv:
  assumes "pass_ack E plan (c, s) w = (w', r)" and "proxy_inv plan w" and "s = 1" and "committed_in (px_forwarded w) c"
  shows "proxy_inv plan w' \<and> px_forwarded w' = px_forwarded w \<and> px_returned w' = px_returned w"
proof -
  have held: "fp_mode plan = HoldAck \<Longrightarrow> ?thesis"
  proof -
    assume m: "fp_mode plan = HoldAck"
    obtain w1 r1 where 1: "proxy_record (AckHeld c s) w = (w1, r1)" by fastforce
    have i: "proxy_inv plan w1" "px_forwarded w1 = px_forwarded w" "px_returned w1 = px_returned w"
      using record_inv [OF 1 assms(2)] assms(3,4) m by (auto simp: event_true_def)
    obtain w2 r2 where 2: "proxy_record (AckForwarded c s) w1 = (w2, r2)" by fastforce
    have j: "proxy_inv plan w2" "px_forwarded w2 = px_forwarded w" "px_returned w2 = px_returned w"
      using record_inv [OF 2 i(1)] i assms(3,4) m by (auto simp: event_true_def)
    show ?thesis using assms(1) m 1 2 i j
      by (cases r1; cases r2; cases "hold_ack E") (auto simp: pass_ack_def bindS_def split: if_splits)
  qed
  show ?thesis
  proof (cases "fp_mode plan = HoldAck")
    case False
    define event where "event = (if fp_mode plan = DropAck then AckDropped c s else AckForwarded c s)"
    obtain w1 r1 where 1: "proxy_record event w = (w1, r1)" by fastforce
    have "proxy_inv plan w1 \<and> px_forwarded w1 = px_forwarded w \<and> px_returned w1 = px_returned w"
      using record_inv [OF 1 assms(2)] assms(3,4) by (auto simp: event_true_def event_def)
    then show ?thesis using assms(1) False 1
      by (cases r1) (auto simp: pass_ack_def bindS_def event_def split: if_splits)
  qed (rule held)
qed

text \<open>The command last committed on the connection has been forwarded to the device.\<close>

definition known_commit :: "int option \<Rightarrow> 'd proxy_world \<Rightarrow> bool" where
  "known_commit committed w \<longleftrightarrow> (\<forall>c. committed = Some c \<longrightarrow> committed_in (px_forwarded w) c)"

lemma answer_inv:
  assumes "proxy_answer E plan committed request response w = (w', r)"
    and "proxy_inv plan w" and "known_commit committed w"
    and "is_commit request \<Longrightarrow> committed_in (px_forwarded w) (commit_sequence request)"
    and "length (px_returned w) < length (px_forwarded w)"
  shows "proxy_inv plan w' \<and> (\<forall>committed'. r = Inr (Some committed') \<longrightarrow> known_commit committed' w')"
proof -
  let ?m1 = "whenS (is_commit request) (proxy_record (CommitForwarded (commit_sequence request)))"
  let ?m2 = "case confirmation committed request response of None \<Rightarrow> retS True | Some ack \<Rightarrow> pass_ack E plan ack"
  obtain w2 r2 where 2: "?m1 w = (w2, r2)" by fastforce
  have i2: "proxy_inv plan w2 \<and> px_forwarded w2 = px_forwarded w \<and> px_returned w2 = px_returned w"
  proof (cases "is_commit request")
    case True
    then show ?thesis using record_inv [OF _ assms(2)] 2 assms(4) by (auto simp: whenS_def event_true_def)
  qed (use 2 assms(2) in \<open>auto simp: whenS_def\<close>)
  obtain w3 r3 where 3: "?m2 w2 = (w3, r3)" by fastforce
  have i3: "proxy_inv plan w3 \<and> px_forwarded w3 = px_forwarded w2 \<and> px_returned w3 = px_returned w2"
  proof (cases "confirmation committed request response")
    case (Some ack)
    then obtain c where "ack = (c, 1)" "committed = Some c"
      by (auto simp: confirmation_def split: option.splits if_splits)
    then show ?thesis using 3 Some pass_ack_inv [of E plan c 1 w2 w3 r3] i2 assms(3) by (auto simp: known_commit_def)
  qed (use 3 i2 in auto)
  show ?thesis
  proof (cases r2)
    case (Inl e)
    then show ?thesis using assms(1) i2 unfolding proxy_answer_def bindS_def [of ?m1] 2 by auto
  next
    case r2: (Inr u2)
    note run = assms(1) [unfolded proxy_answer_def bindS_def [of ?m1] 2 r2 prod.case sum.case bindS_def [of ?m2] 3]
    show ?thesis
    proof (cases r3)
      case (Inl e)
      then show ?thesis using run i3 by auto
    next
      case (Inr go)
      have "proxy_inv plan (w3\<lparr>px_returned := px_returned w3 @ [response]\<rparr>)"
        using i3 i2 assms(5) by (auto simp: proxy_inv_def)
      then show ?thesis using run i3 i2 assms(3) Inr
        by (auto simp: known_commit_def bindS_def split: if_splits)
    qed
  qed
qed

lemma round_inv:
  assumes "proxy_round E plan respond committed request w = (w', r)"
    and "proxy_inv plan w" and "known_commit committed w" and "fp_mode plan \<noteq> DisconnectBeforeWrite"
  shows "proxy_inv plan w' \<and> (\<forall>committed'. r = Inr (Some committed') \<longrightarrow> known_commit committed' w')"
proof (cases "check_request request")
  case (Inl e)
  then show ?thesis using assms(1,2) by (auto simp: proxy_round_def bindS_def)
next
  case (Inr u)
  note ok = request_checked [OF Inr]
  show ?thesis
  proof (cases "is_commit request \<and> fp_mode plan = DropCommit")
    case True
    obtain w1 r1 where 1: "proxy_record (CommitDropped (commit_sequence request)) w = (w1, r1)" by fastforce
    have "proxy_inv plan w1" using record_inv [OF 1 assms(2)] True by (simp add: event_true_def)
    then show ?thesis using assms(1) Inr True 1
      by (cases r1) (auto simp: proxy_round_def bindS_def)
  next
    case False
    let ?committed = "if is_commit request then Some (commit_sequence request) else committed"
    let ?m = "forward_request E respond request"
    obtain w1 r1 where 1: "?m w = (w1, r1)" by fastforce
    note f = proxied_cases [OF 1]
    have i1: "proxy_inv plan w1"
      using assms(2,4) f ok False by (auto simp: proxy_inv_def intro: event_true_more)
    have k1: "known_commit ?committed w1"
      using assms(3) f by (auto simp: known_commit_def committed_in_def)
    have run: "bindS ?m (proxy_answer E plan ?committed request) w = (w', r)"
      using assms(1) Inr False unfolding proxy_round_def by (simp only: bindS_simps if_False)
    show ?thesis
    proof (cases r1)
      case (Inl e)
      then show ?thesis using run i1 unfolding bindS_def 1 by auto
    next
      case (Inr response)
      then have "proxy_answer E plan ?committed request response w1 = (w', r)" using run unfolding bindS_def 1 by simp
      then show ?thesis
        by (rule answer_inv [OF _ i1 k1]) (use f assms(2) in \<open>auto simp: committed_in_def proxy_inv_def\<close>)
    qed
  qed
qed

lemma loop_inv:
  assumes "proxy_loop E plan respond committed bs w = (w', r)"
    and "proxy_inv plan w" and "known_commit committed w" and "fp_mode plan \<noteq> DisconnectBeforeWrite"
  shows "proxy_inv plan w'"
  using assms
proof (induction E plan respond committed bs w arbitrary: w' r rule: proxy_loop.induct)
  case (1 E plan respond committed bs w)
  show ?case
  proof (cases "read_frame (pe_missing_client E) bs")
    case (Inl e)
    then show ?thesis using "1.prems" by (subst (asm) proxy_loop.simps) auto
  next
    case (Inr p)
    obtain request rest where p: "p = (request, rest)" by fastforce
    obtain w1 r1 where round: "proxy_round E plan respond committed request (w\<lparr>px_client := rest\<rparr>) = (w1, r1)" by fastforce
    have i: "proxy_inv plan (w\<lparr>px_client := rest\<rparr>)" "known_commit committed (w\<lparr>px_client := rest\<rparr>)"
      using "1.prems"(2,3) by (auto simp: proxy_inv_def known_commit_def)
    note step = round_inv [OF round i "1.prems"(4)]
    note run = "1.prems"(1) [unfolded proxy_loop.simps [of E plan respond committed bs w] Inr p sum.case prod.case round]
    show ?thesis
    proof (cases r1)
      case (Inl e)
      then show ?thesis using run step by auto
    next
      case r1: (Inr again)
      show ?thesis
      proof (cases again)
        case None
        then show ?thesis using run step r1 by auto
      next
        case (Some committed')
        then show ?thesis
          using "1.IH" [OF Inr p [symmetric] round [symmetric] r1 Some] run step r1 "1.prems"(4) by auto
      qed
    qed
  qed
qed

lemma handle_inv:
  assumes "proxy_handle E (Inr plan) reachable respond w = (w', r)" and "proxy_inv plan w"
  shows "proxy_inv plan w'"
proof -
  let ?body = "if fp_mode plan = DisconnectBeforeWrite then proxy_record DisconnectedBeforeWrite
     else thenS (guardS reachable (ConnectionError ''Connect call failed''))
       (bindS (getS px_client) (proxy_loop E plan respond None))"
  obtain w1 r1 where 1: "proxy_record Connected w = (w1, r1)" by fastforce
  have i1: "proxy_inv plan w1" using record_inv [OF 1 assms(2)] by (simp add: event_true_def)
  obtain w2 r2 where 2: "?body w1 = (w2, r2)" by fastforce
  have i2: "proxy_inv plan w2"
  proof (cases "fp_mode plan = DisconnectBeforeWrite")
    case True
    then show ?thesis using 2 record_inv [OF _ i1] by (auto simp: event_true_def)
  next
    case False
    show ?thesis
    proof (cases reachable)
      case True
      then have "proxy_loop E plan respond None (px_client w1) w1 = (w2, r2)" using 2 False by simp
      then show ?thesis by (rule loop_inv [OF _ i1 _ False]) (simp add: known_commit_def)
    qed (use 2 False i1 in \<open>auto simp: bindS_def\<close>)
  qed
  have "w' = w1 \<or> w' = w2"
    using assms(1) 1 2 unfolding proxy_handle_def
    by (cases r1; cases r2) (auto simp: tryS_def bindS_def [of "proxy_record Connected"] split: if_splits)
  then show ?thesis using i1 i2 by auto
qed

text \<open>
  On every connection the proxy forwards the declared mailbox and acknowledgement frames only,
  and what it records is true: after a dropped commit no commit has reached the device on that
  connection, after a disconnection before the write nothing has, a recorded acknowledgement
  confirms a commit that was forwarded, and with the acknowledgement dropped none is let through.
\<close>

theorem proxy_evidence_true:
  assumes "proxy_handle E (Inr plan) reachable respond w = (w', r)"
    and "px_forwarded w = []" and "px_returned w = []" and "px_events w = []"
  shows "(\<forall>f \<in> set (px_forwarded w'). passable f) \<and>
     (\<forall>event \<in> set (px_events w'). event_true (fp_mode plan) (px_forwarded w') event) \<and>
     (\<forall>c. CommitDropped c \<in> set (px_events w') \<longrightarrow> (\<forall>f \<in> set (px_forwarded w'). \<not> is_commit f)) \<and>
     (DisconnectedBeforeWrite \<in> set (px_events w') \<longrightarrow> px_forwarded w' = []) \<and>
     length (px_returned w') \<le> length (px_forwarded w')"
proof -
  have "proxy_inv plan w" using assms(2-4) by (simp add: proxy_inv_def)
  then have "proxy_inv plan w'" using handle_inv [OF assms(1)] by blast
  then show ?thesis by (fastforce simp: proxy_inv_def event_true_def)
qed

definition commit_frame :: bytes where
  "commit_frame = modbus_adu [16, 0, 28, 0, 1, 2, 0, 5] 1 1"

definition dropping_world :: "unit proxy_world" where
  "dropping_world =
     \<lparr>px_client = commit_frame, px_remote = [], px_device = (), px_forwarded = [], px_returned = [], px_events = [],
      px_sequence = 0\<rparr>"

definition dropping_env :: proxy_env where
  "dropping_env =
     \<lparr>pe_missing_client = OtherError ''IncompleteReadError'' [], pe_missing_remote = TimeoutError [], pe_held = [],
      pe_released = Inr \<lparr>fp_id = [], fp_mode = NormalMode\<rparr>\<rparr>"

theorem proxy_evidence_true_witness:
  "(let w = fst (proxy_handle dropping_env (Inr \<lparr>fp_id = ''c'', fp_mode = DropCommit\<rparr>) True (\<lambda>d bs. (d, [])) dropping_world) in
     CommitDropped 5 \<in> set (px_events w) \<and> (\<forall>f \<in> set (px_forwarded w). \<not> is_commit f))"
proof -
  let ?run = "proxy_handle dropping_env (Inr \<lparr>fp_id = ''c'', fp_mode = DropCommit\<rparr>) True (\<lambda>d bs. (d, [])) dropping_world"
  have e: "CommitDropped 5 \<in> set (px_events (fst ?run))" by code_simp
  have "px_forwarded dropping_world = []" "px_returned dropping_world = []" "px_events dropping_world = []"
    by (simp_all add: dropping_world_def)
  from proxy_evidence_true [OF surjective_pairing this] e show ?thesis unfolding Let_def by blast
qed

end
