(* ===== verification/Capture_Clock.thy ===== *)
theory Capture_Clock
  imports Edge_Prelude
begin

text \<open>
  The capture of execution records from running processes (\<open>scripts/e0_capture.py\<close>): the fence of a
  capture segment, and the calibration that places a record, whose process has its own monotonic
  clock, on the wall clock of the host with a bound on the error. Clock readings are in nanoseconds;
  the fields the functions read are present.
\<close>

section \<open>Probes\<close>

text \<open>A reading of the host: its wall clock between two readings of its monotonic clock.\<close>

record host_clock =
  hc_wall :: int
  hc_before :: int
  hc_after :: int
  hc_resolution :: int

record remote_clock =
  rc_before :: int
  rc_after :: int
  rc_domain :: string

record captured_record =
  cr_seq :: int
  cr_instance :: string
  cr_domain :: string
  cr_before :: int
  cr_after :: int

record remote_segment =
  rs_instance :: string
  rs_overflow :: bool
  rs_seq :: int
  rs_records :: "captured_record list"
  rs_clock :: remote_clock

record probe =
  pb_before :: host_clock
  pb_after :: host_clock
  pb_remote :: remote_segment

section \<open>The fence of a segment\<close>

definition when_bad :: "bool \<Rightarrow> string \<Rightarrow> string list" where
  "when_bad b msg = (if b then [msg] else [])"

definition validate_fence :: "probe \<Rightarrow> probe \<Rightarrow> string list" where
  "validate_fence ini fin =
     (let a = pb_remote ini; b = pb_remote fin in
      when_bad (rs_instance a \<noteq> rs_instance b) ''process restarted inside capture segment'' @
      when_bad (rs_overflow a \<or> rs_overflow b) ''journal capacity exceeded'' @
      when_bad (rs_seq b < rs_seq a) ''sequence moved backwards'' @
      when_bad (map cr_seq (rs_records b) \<noteq> [rs_seq a + 1..rs_seq b]) ''missing or duplicated sequence records'' @
      when_bad (list_ex (\<lambda>r. cr_instance r \<noteq> rs_instance b) (rs_records b)) ''record process identity mismatch'')"

section \<open>Calibration\<close>

definition min_of :: "int list \<Rightarrow> int" where
  "min_of xs = fold min (tl xs) (hd xs)"

definition max_of :: "int list \<Rightarrow> int" where
  "max_of xs = fold max (tl xs) (hd xs)"

definition offset_low :: "probe list \<Rightarrow> int" where
  "offset_low probes = min_of (map (\<lambda>p. hc_before (pb_before p) - rc_after (rs_clock (pb_remote p))) probes)"

definition offset_high :: "probe list \<Rightarrow> int" where
  "offset_high probes = max_of (map (\<lambda>p. hc_after (pb_after p) - rc_before (rs_clock (pb_remote p))) probes)"

definition wall_low :: "host_clock list \<Rightarrow> int" where
  "wall_low hosts = min_of (map (\<lambda>h. hc_wall h - hc_after h - hc_resolution h) hosts)"

definition wall_high :: "host_clock list \<Rightarrow> int" where
  "wall_high hosts = max_of (map (\<lambda>h. hc_wall h - hc_before h + hc_resolution h) hosts)"

definition host_readings :: "probe \<Rightarrow> probe \<Rightarrow> host_clock list \<Rightarrow> host_clock list" where
  "host_readings ini fin samples = [pb_before ini, pb_after ini, pb_before fin, pb_after fin] @ samples"

record calibrated =
  ca_at :: datetime
  ca_uncertainty :: real

definition check_brackets :: "captured_record \<Rightarrow> probe \<Rightarrow> probe \<Rightarrow> unit res" where
  "check_brackets r ini fin =
     (let pre = rs_clock (pb_remote ini); post = rs_clock (pb_remote fin) in
      bindE (guardE (cr_domain r \<noteq> [] \<and> cr_domain r = rc_domain pre \<and> cr_domain r = rc_domain post)
               (ValueError ''clock domain changed'')) (\<lambda>_.
        guardE (rc_before pre \<le> cr_before r \<and> cr_before r \<le> cr_after r \<and> cr_after r \<le> rc_after post)
          (ValueError ''record outside bracketing calibration'')))"

definition check_host_forward :: "probe list \<Rightarrow> unit res" where
  "check_host_forward probes =
     guardE (list_all (\<lambda>p. hc_wall (pb_before p) \<le> hc_wall (pb_after p)) probes)
       (ValueError ''reference clock moved backwards'')"

text \<open>
  \<open>datetime.fromtimestamp\<close> of the seconds with the microseconds replaced: the middle of the envelope
  is truncated to a microsecond. A year after 9999 or before 1 raises.
\<close>

definition instant_of_ns :: "int \<Rightarrow> datetime res" where
  "instant_of_ns ns =
     (let us = ns div 1000000000 * 1000000 + ns mod 1000000000 div 1000 in
      if us < - 62135596800000000 \<or> 253402300799999999 < us then Inl (ValueError ''year is out of range'')
      else Inr (utc us))"

definition calibrate_record :: "captured_record \<Rightarrow> probe \<Rightarrow> probe \<Rightarrow> host_clock list \<Rightarrow> calibrated res" where
  "calibrate_record r ini fin samples =
     bindE (check_brackets r ini fin) (\<lambda>_.
     bindE (check_host_forward [ini, fin]) (\<lambda>_.
     let hosts = host_readings ini fin samples;
         low = cr_before r + offset_low [ini, fin] + wall_low hosts;
         high = cr_after r + offset_high [ini, fin] + wall_high hosts in
     bindE (instant_of_ns ((low + high) div 2)) (\<lambda>t.
       Inr \<lparr>ca_at = t, ca_uncertainty = real_of_int (high - low) / 2000000000 + 1 / 1000000\<rparr>)))"

section \<open>What a calibration promises\<close>

lemma fold_min_le: "fold min xs (a :: int) \<le> a \<and> (\<forall>x \<in> set xs. fold min xs a \<le> x)"
proof (induction xs arbitrary: a)
  case (Cons x xs)
  then show ?case using Cons [of "min x a"] by (auto intro: order_trans)
qed simp

lemma fold_max_ge: "(a :: int) \<le> fold max xs a \<and> (\<forall>x \<in> set xs. x \<le> fold max xs a)"
proof (induction xs arbitrary: a)
  case (Cons x xs)
  have "max x a \<le> fold max xs (max x a) \<and> (\<forall>y \<in> set xs. y \<le> fold max xs (max x a))" by (rule Cons)
  then show ?case by auto
qed simp

lemma min_of_le: "x \<in> set xs \<Longrightarrow> min_of xs \<le> x"
  using fold_min_le [of "tl xs" "hd xs"] by (cases xs) (auto simp: min_of_def)

lemma max_of_ge: "x \<in> set xs \<Longrightarrow> x \<le> max_of xs"
  using fold_max_ge [of "hd xs" "tl xs"] by (cases xs) (auto simp: max_of_def)

text \<open>
  A true history of the clocks: the monotonic clock of the host is \<open>offset\<close> ahead of that of the
  process, a probe reads the remote clock after it has started and before it has ended, and
  \<open>wall_at h\<close> is how far the wall clock is ahead of the host's monotonic clock at a reading \<open>h\<close>,
  which its resolution may cut off. While the record is made it is ahead by \<open>ahead\<close>, within the
  values it takes at the readings.
\<close>

definition probe_causal :: "real \<Rightarrow> probe \<Rightarrow> bool" where
  "probe_causal offset p \<longleftrightarrow>
     real_of_int (hc_before (pb_before p)) \<le> real_of_int (rc_after (rs_clock (pb_remote p))) + offset \<and>
     real_of_int (rc_before (rs_clock (pb_remote p))) + offset \<le> real_of_int (hc_after (pb_after p))"

definition reading_true :: "(host_clock \<Rightarrow> real) \<Rightarrow> host_clock \<Rightarrow> bool" where
  "reading_true wall_at h \<longleftrightarrow>
     (\<exists>m. real_of_int (hc_before h) \<le> m \<and> m \<le> real_of_int (hc_after h) \<and>
        \<bar>real_of_int (hc_wall h) - (m + wall_at h)\<bar> \<le> real_of_int (hc_resolution h))"

definition clocks_true :: "real \<Rightarrow> real \<Rightarrow> (host_clock \<Rightarrow> real) \<Rightarrow> probe list \<Rightarrow> host_clock list \<Rightarrow> bool" where
  "clocks_true offset ahead wall_at probes hosts \<longleftrightarrow>
     (\<forall>p \<in> set probes. probe_causal offset p) \<and> (\<forall>h \<in> set hosts. reading_true wall_at h) \<and>
     (\<exists>h \<in> set hosts. wall_at h \<le> ahead) \<and> (\<exists>h \<in> set hosts. ahead \<le> wall_at h)"

lemma offset_bounds:
  assumes "\<forall>p \<in> set probes. probe_causal offset p" and "probes \<noteq> []"
  shows "real_of_int (offset_low probes) \<le> offset" and "offset \<le> real_of_int (offset_high probes)"
proof -
  obtain p where p: "p \<in> set probes" using assms(2) by (cases probes) auto
  have "offset_low probes \<le> hc_before (pb_before p) - rc_after (rs_clock (pb_remote p))"
    unfolding offset_low_def by (rule min_of_le) (use p in auto)
  then show "real_of_int (offset_low probes) \<le> offset" using assms(1) p by (auto simp: probe_causal_def)
  have "hc_after (pb_after p) - rc_before (rs_clock (pb_remote p)) \<le> offset_high probes"
    unfolding offset_high_def by (rule max_of_ge) (use p in auto)
  then show "offset \<le> real_of_int (offset_high probes)" using assms(1) p by (auto simp: probe_causal_def)
qed

lemma wall_bounds:
  assumes "h \<in> set hosts" and "reading_true wall_at h"
  shows "real_of_int (wall_low hosts) \<le> wall_at h" and "wall_at h \<le> real_of_int (wall_high hosts)"
proof -
  obtain m where m: "real_of_int (hc_before h) \<le> m" "m \<le> real_of_int (hc_after h)"
      "\<bar>real_of_int (hc_wall h) - (m + wall_at h)\<bar> \<le> real_of_int (hc_resolution h)"
    using assms(2) by (auto simp: reading_true_def)
  have "wall_low hosts \<le> hc_wall h - hc_after h - hc_resolution h"
    unfolding wall_low_def by (rule min_of_le) (use assms(1) in auto)
  then show "real_of_int (wall_low hosts) \<le> wall_at h" using m by linarith
  have "hc_wall h - hc_before h + hc_resolution h \<le> wall_high hosts"
    unfolding wall_high_def by (rule max_of_ge) (use assms(1) in auto)
  then show "wall_at h \<le> real_of_int (wall_high hosts)" using m by linarith
qed

text \<open>The middle of an envelope, cut off to a microsecond, is within half its width and a microsecond.\<close>

lemma middle_error:
  fixes low high :: int and t :: real
  assumes "real_of_int low \<le> t" and "t \<le> real_of_int high" and "us = ((low + high) div 2) div 1000"
  shows "\<bar>t - real_of_int us * 1000\<bar> \<le> real_of_int (high - low) / 2 + 1000"
proof -
  define mid where "mid = (low + high) div 2"
  have mid: "2 * mid \<le> low + high" "low + high \<le> 2 * mid + 1" by (simp_all add: mid_def)
  have us: "us * 1000 \<le> mid" "mid \<le> us * 1000 + 999" using assms(3) by (simp_all add: mid_def)
  have "2 * (us * 1000) \<le> low + high" "low + high \<le> 2 * (us * 1000) + 1999"
    using mid us by linarith+
  then have "real_of_int (2 * (us * 1000)) \<le> real_of_int (low + high)"
      "real_of_int (low + high) \<le> real_of_int (2 * (us * 1000) + 1999)"
    by (simp_all only: of_int_le_iff)
  then have "real_of_int us * 1000 \<le> real_of_int (low + high) / 2"
      "real_of_int (low + high) / 2 - 1000 \<le> real_of_int us * 1000"
    by (simp_all add: field_simps)
  then show ?thesis using assms(1,2) unfolding of_int_add of_int_diff
    by (intro abs_leI) (simp_all add: field_simps)
qed

text \<open>
  C30. The calibration of a record is sound: whatever offset and drift of the clocks is consistent
  with the probes and readings, the true wall-clock time of the recorded event differs from the time
  written into the record by no more than the uncertainty written beside it, the truncation to
  microseconds included.
\<close>

theorem calibration_bounds:
  assumes "calibrate_record r ini fin samples = Inr c"
    and "clocks_true offset ahead wall_at [ini, fin] (host_readings ini fin samples)"
    and "real_of_int (cr_before r) \<le> m" and "m \<le> real_of_int (cr_after r)"
  shows "\<bar>(m + offset + ahead) / 1000000000 - timestamp (ca_at c)\<bar> \<le> ca_uncertainty c"
proof -
  let ?hosts = "host_readings ini fin samples"
  define low where "low = cr_before r + offset_low [ini, fin] + wall_low ?hosts"
  define high where "high = cr_after r + offset_high [ini, fin] + wall_high ?hosts"
  define mid where "mid = (low + high) div 2"
  define us where "us = mid div 1000000000 * 1000000 + mid mod 1000000000 div 1000"
  have c: "c = \<lparr>ca_at = utc us, ca_uncertainty = real_of_int (high - low) / 2000000000 + 1 / 1000000\<rparr>"
    using assms(1) by (auto simp: calibrate_record_def Let_def bindE_Inr_iff instant_of_ns_def low_def high_def
        mid_def us_def split: if_splits)
  have us: "us = (low + high) div 2 div 1000"
  proof -
    have "mid = 1000 * (mid div 1000000000 * 1000000) + mid mod 1000000000" by simp
    then have "mid div 1000 = mid div 1000000000 * 1000000 + mid mod 1000000000 div 1000"
      by (metis div_mult_self4 zero_neq_numeral add.commute)
    then show ?thesis by (simp add: us_def mid_def)
  qed
  have "\<forall>p \<in> set [ini, fin]. probe_causal offset p" using assms(2) by (simp add: clocks_true_def)
  note o = offset_bounds [OF this]
  obtain h1 h2 where h: "h1 \<in> set ?hosts" "wall_at h1 \<le> ahead" "reading_true wall_at h1"
      "h2 \<in> set ?hosts" "ahead \<le> wall_at h2" "reading_true wall_at h2"
    using assms(2) by (auto simp: clocks_true_def)
  have "real_of_int low \<le> m + offset + ahead" "m + offset + ahead \<le> real_of_int high"
    using o wall_bounds(1) [OF h(1,3)] wall_bounds(2) [OF h(4,6)] h(2,5) assms(3,4) by (simp_all add: low_def high_def)
  from middle_error [OF this us] have "\<bar>m + offset + ahead - real_of_int us * 1000\<bar> \<le> real_of_int (high - low) / 2 + 1000" .
  then have "\<bar>m + offset + ahead - real_of_int us * 1000\<bar> / 1000000000 \<le> (real_of_int (high - low) / 2 + 1000) / 1000000000"
    by (rule divide_right_mono) simp
  then have "\<bar>(m + offset + ahead - real_of_int us * 1000) / 1000000000\<bar> \<le> ca_uncertainty c"
    by (simp only: abs_divide) (simp add: c add_divide_distrib)
  moreover have "(m + offset + ahead) / 1000000000 - timestamp (ca_at c) = (m + offset + ahead - real_of_int us * 1000) / 1000000000"
    by (simp add: c timestamp_def secs_def diff_divide_distrib)
  ultimately show ?thesis by (simp only:)
qed

text \<open>
  Between the probes of a fenced segment nothing is lost: the records are one process's, in the
  order of their sequence numbers, and as many as that process counted.
\<close>

lemma fence_complete:
  assumes "validate_fence ini fin = []"
  shows "rs_instance (pb_remote ini) = rs_instance (pb_remote fin)"
    and "int (length (rs_records (pb_remote fin))) = rs_seq (pb_remote fin) - rs_seq (pb_remote ini)"
    and "sorted (map cr_seq (rs_records (pb_remote fin)))" and "distinct (map cr_seq (rs_records (pb_remote fin)))"
    and "\<forall>r \<in> set (rs_records (pb_remote fin)). cr_instance r = rs_instance (pb_remote ini)"
proof -
  let ?a = "pb_remote ini" and ?b = "pb_remote fin"
  have v: "rs_instance ?a = rs_instance ?b" "rs_seq ?a \<le> rs_seq ?b"
      "map cr_seq (rs_records ?b) = [rs_seq ?a + 1..rs_seq ?b]" "\<forall>r \<in> set (rs_records ?b). cr_instance r = rs_instance ?b"
    using assms by (auto simp: validate_fence_def Let_def when_bad_def list_ex_iff split: if_splits)
  show "rs_instance ?a = rs_instance ?b" "\<forall>r \<in> set (rs_records ?b). cr_instance r = rs_instance ?a" using v by simp_all
  have "length (rs_records ?b) = length [rs_seq ?a + 1..rs_seq ?b]" using v(3) by (metis length_map)
  then show "int (length (rs_records ?b)) = rs_seq ?b - rs_seq ?a" using v(2) by simp
  show "sorted (map cr_seq (rs_records ?b))" "distinct (map cr_seq (rs_records ?b))" unfolding v(3) by simp_all
qed

section \<open>Examples\<close>

definition host_at :: "int \<Rightarrow> host_clock" where
  "host_at n = \<lparr>hc_wall = 5000000 + n, hc_before = n, hc_after = n + 10, hc_resolution = 1000\<rparr>"

definition probe_at :: "int \<Rightarrow> probe" where
  "probe_at n =
     \<lparr>pb_before = host_at n, pb_after = host_at (n + 40),
      pb_remote = \<lparr>rs_instance = ''p'', rs_overflow = False, rs_seq = 0, rs_records = [],
                   rs_clock = \<lparr>rc_before = n - 80, rc_after = n - 70, rc_domain = ''d''\<rparr>\<rparr>\<rparr>"

definition captured_example :: captured_record where
  "captured_example = \<lparr>cr_seq = 1, cr_instance = ''p'', cr_domain = ''d'', cr_before = 500, cr_after = 510\<rparr>"

lemma captured_calibrates:
  "\<exists>c. calibrate_record captured_example (probe_at 100) (probe_at 1000) [] = Inr c \<and> ca_at c = utc 5000"
  by (simp add: calibrate_record_def check_brackets_def check_host_forward_def instant_of_ns_def captured_example_def
      probe_at_def host_at_def host_readings_def offset_low_def offset_high_def wall_low_def wall_high_def
      min_of_def max_of_def Let_def guardE_def)

lemma captured_clocks:
  "clocks_true 100 5000000 (\<lambda>h. 5000000) [probe_at 100, probe_at 1000] (host_readings (probe_at 100) (probe_at 1000) [])"
proof -
  have p: "probe_causal 100 (probe_at n)" for n
    by (simp add: probe_causal_def probe_at_def host_at_def)
  have h: "reading_true (\<lambda>h. 5000000) (host_at n)" for n
    unfolding reading_true_def by (rule exI [of _ "real_of_int n"]) (simp add: host_at_def)
  have "pb_before (probe_at n) = host_at n" "pb_after (probe_at n) = host_at (n + 40)" for n
    by (simp_all add: probe_at_def)
  then show ?thesis using p h by (auto simp: clocks_true_def host_readings_def)
qed

theorem calibration_bounds_witness:
  "\<exists>c. calibrate_record captured_example (probe_at 100) (probe_at 1000) [] = Inr c \<and>
     \<bar>(505 + 100 + 5000000) / 1000000000 - timestamp (ca_at c)\<bar> \<le> ca_uncertainty c"
proof -
  obtain c where c: "calibrate_record captured_example (probe_at 100) (probe_at 1000) [] = Inr c"
    using captured_calibrates by blast
  from calibration_bounds [OF c captured_clocks, of 505] c show ?thesis
    by (simp add: captured_example_def)
qed

end
