(* ===== verification/Scenarios.thy ===== *)
theory Scenarios
  imports Conformance_Order
begin

text \<open>
  Scripted command runs: the command a target and an action stand for (\<open>build_command\<close> of
  \<open>scripts/control.py\<close>), the plan of a scenario, the assessment of a result, and the runner
  (\<open>scripts/scenario.py\<close>), which submits one command after the other and stops at the first outcome
  that is not the expected one. Clock, identities, the observations and the answers of the command
  path are functions of the number of the step. Writing the journal and the summary does not fail,
  and a cancellation arrives while the runner waits for an answer or an observation.
\<close>

section \<open>Commands\<close>

definition command_prefix :: string where
  "command_prefix = ''uniza/zilina/factory1/line_a/''"

text \<open>The path, the value type and the value of a command; \<open>value\<close> is what the caller gave.\<close>

definition command_shape :: "string \<Rightarrow> string \<Rightarrow> json \<Rightarrow> (string \<times> value_type \<times> json) res" where
  "command_shape target action v =
     (if target = ''temperature'' \<and> action = ''set''
      then Inr (''bottler/setpoint_unit/setpoint_temperature'', TDouble, v)
      else if target = ''conveyor'' \<or> target = ''capper''
      then (let base = (if target = ''conveyor'' then ''conveyor/belt_01'' else ''capper/motor_01'') in
            if action = ''start'' \<or> action = ''stop'' then Inr (base @ ''/run'', TBool, JBool (action = ''start''))
            else if action = ''speed''
            then Inr (base @ ''/speed_setpoint'', if target = ''conveyor'' then TDouble else TInt64, v)
            else if action = ''reset'' then Inr (base @ ''/reset_fault'', TBool, JBool True)
            else Inl (ValueError ''motor action must be start, stop, speed or reset''))
      else if target = ''filler'' \<and> (action = ''open'' \<or> action = ''close'')
      then Inr (''filler/valve_01/open'', TBool, JBool (action = ''open''))
      else if target = ''reject'' \<and> action = ''reject''
      then Inr (''reject_station/rejector_01/reject_bottle'', TInt64, v)
      else Inl (ValueError ''unsupported target/action combination''))"

definition value_fits :: "value_type \<Rightarrow> json \<Rightarrow> unit res" where
  "value_fits kind v =
     bindE (guardE (kind = TInt64 \<longrightarrow> type_name v = ''int'') (ValueError ''this command requires an integer --value'')) (\<lambda>_.
       guardE (kind = TDouble \<longrightarrow> type_name v \<in> {''int'', ''float''}) (ValueError ''this command requires a numeric --value''))"

definition build_command :: "datetime \<Rightarrow> string \<Rightarrow> string \<Rightarrow> string \<Rightarrow> json \<Rightarrow> actuation_request res" where
  "build_command now cid target action v =
     bindE (command_shape target action v) (\<lambda>(path, kind, given).
     bindE (value_fits kind given) (\<lambda>_.
     bindE (value_of_json given) (\<lambda>requested.
       Inr \<lparr>ar_correlation_id = cid, ar_requester = ''experiment-driver'', ar_target_uns_topic = command_prefix @ path,
            ar_requested_value = requested, ar_value_type = kind, ar_reason = ''local functional control check'',
            ar_requested_at = now, ar_deadline = Some (now\<lparr>dt_us := dt_us now + 10000000\<rparr>), ar_extra = []\<rparr>)))"

section \<open>Plans\<close>

record scenario_step =
  st_name :: string
  st_target :: "string option"
  st_action :: "string option"
  st_value :: json
  st_passed_bottle :: bool
  st_deadline :: "pyfloat option"
  st_replay_of :: "string option"
  st_if_faulted :: bool
  st_expect :: decision
  st_reason_contains :: "string option"

definition given :: "string option \<Rightarrow> bool" where
  "given s \<longleftrightarrow> s \<noteq> None \<and> s \<noteq> Some []"

definition replay_pure :: "scenario_step \<Rightarrow> bool" where
  "replay_pure s \<longleftrightarrow>
     \<not> given (st_target s) \<and> \<not> given (st_action s) \<and> st_value s = JNull \<and> \<not> st_passed_bottle s \<and> \<not> st_if_faulted s \<and>
     st_deadline s = None \<and> st_expect s = Approve"

definition new_command_ok :: "scenario_step \<Rightarrow> unit res" where
  "new_command_ok s =
     bindE (guardE (st_target s \<noteq> None \<and> st_action s \<noteq> None) (ValueError ''new commands require target and action'')) (\<lambda>_.
     let target = the (st_target s); action = the (st_action s) in
     bindE (if st_passed_bottle s
            then guardE (target = ''reject'' \<and> action = ''reject'' \<and> st_value s = JNull)
                   (ValueError ''passed_bottle is only valid for a reject command without a literal value'')
            else bindE (guardE (\<not> (action \<in> {''start'', ''stop'', ''reset'', ''open'', ''close''} \<and> st_value s \<noteq> JNull))
                          (ValueError ''this action has a fixed value; omit value'')) (\<lambda>_.
                 bindE (build_command (utc 0) [] target action (st_value s)) (\<lambda>_. Inr ()))) (\<lambda>_.
       guardE (st_if_faulted s \<longrightarrow> target \<in> {''conveyor'', ''capper''} \<and> action = ''reset'')
         (ValueError ''if_faulted is only valid for motor reset'')))"

definition valid_operation :: "scenario_step \<Rightarrow> unit res" where
  "valid_operation s =
     bindE (if given (st_replay_of s)
            then guardE (replay_pure s) (ValueError ''replay must contain only its name and an earlier successful step'')
            else new_command_ok s) (\<lambda>_.
     bindE (guardE (case st_deadline s of None \<Rightarrow> True | Some d \<Rightarrow> isfinite d) (ValueError ''deadline_seconds must be finite'')) (\<lambda>_.
       guardE (given (st_reason_contains s) \<longrightarrow> st_expect s = Reject)
         (ValueError ''reason_contains requires an expected rejection'')))"

fun valid_sequence :: "(string \<times> scenario_step) list \<Rightarrow> scenario_step list \<Rightarrow> unit res" where
  "valid_sequence earlier [] = Inr ()"
| "valid_sequence earlier (s # rest) =
     bindE (guardE (map_of earlier (st_name s) = None) (ValueError ''step names must be unique'')) (\<lambda>_.
     bindE (guardE (given (st_replay_of s) \<longrightarrow>
              (case map_of earlier (the (st_replay_of s)) of
                 None \<Rightarrow> False | Some source \<Rightarrow> st_expect source = Approve \<and> \<not> st_if_faulted source))
              (ValueError ''replay requires an earlier unconditional successful command'')) (\<lambda>_.
       valid_sequence ((st_name s, s) # earlier) rest))"

definition scenario_ok :: "scenario_step list \<Rightarrow> unit res" where
  "scenario_ok steps =
     bindE (guardE (steps \<noteq> [] \<and> list_all (\<lambda>s. st_name s \<noteq> []) steps) (ValidationError ''Scenario'')) (\<lambda>_.
     bindE (mapE valid_operation steps) (\<lambda>_. valid_sequence [] steps))"

section \<open>The assessment of a result\<close>

fun decision_name :: "decision \<Rightarrow> string" where
  "decision_name Approve = ''approve''"
| "decision_name Reject = ''reject''"

fun same_value_type :: "signal_value \<Rightarrow> signal_value \<Rightarrow> bool" where
  "same_value_type (VInt m) (VInt n) = True"
| "same_value_type (VFloat m) (VFloat n) = True"
| "same_value_type (VBool m) (VBool n) = True"
| "same_value_type (VStr m) (VStr n) = True"
| "same_value_type _ _ = False"

definition opt_dt_same :: "datetime option \<Rightarrow> datetime option \<Rightarrow> bool" where
  "opt_dt_same a b = (case (a, b) of (None, None) \<Rightarrow> True | (Some s, Some t) \<Rightarrow> dt_eq s t | _ \<Rightarrow> False)"

definition echoes :: "actuation_request \<Rightarrow> actuation_request \<Rightarrow> bool" where
  "echoes echoed command \<longleftrightarrow>
     ar_correlation_id echoed = ar_correlation_id command \<and> ar_requester echoed = ar_requester command \<and>
     ar_target_uns_topic echoed = ar_target_uns_topic command \<and>
     j_eq (json_of_value (ar_requested_value echoed)) (json_of_value (ar_requested_value command)) \<and>
     ar_value_type echoed = ar_value_type command \<and> ar_reason echoed = ar_reason command \<and>
     dt_eq (ar_requested_at echoed) (ar_requested_at command) \<and> opt_dt_same (ar_deadline echoed) (ar_deadline command) \<and>
     same_value_type (ar_requested_value echoed) (ar_requested_value command)"

text \<open>Whether the echo is right: \<open>None\<close> if it is, or the reason the outcome is unknown.\<close>

definition assess_echo :: "checker \<Rightarrow> actuation_request \<Rightarrow> json \<Rightarrow> string option res" where
  "assess_echo K command result =
     (case bindE (ck_request K result) (\<lambda>echoed.
             if \<not> echoes echoed command then Inr (Some ''mismatched_command_result'')
             else bindE (eqE (j_lookup result ''decision'') (Inr (JStr ''approve''))) (\<lambda>approve.
                  if \<not> approve then Inr None
                  else bindE (bindE (j_get result ''written_at'') from_isoformat) (\<lambda>t.
                    Inr (if aware t then None else Some ''missing_completion_time'')))) of
        Inl e \<Rightarrow> if malformed e then Inr (Some ''malformed_command_result'') else Inl e
      | Inr r \<Rightarrow> Inr r)"

definition decision_among :: "json \<Rightarrow> string list \<Rightarrow> bool" where
  "decision_among d names \<longleftrightarrow> (\<exists>n \<in> set names. d = JStr n)"

definition assess ::
  "checker \<Rightarrow> scenario_step \<Rightarrow> actuation_request \<Rightarrow> json \<Rightarrow> json option \<Rightarrow> (string \<times> string) res" where
  "assess K s command result original =
     bindE (j_lookup result ''decision'') (\<lambda>decision.
     bindE (j_lookup result ''rejection_reason'') (\<lambda>reason.
       if \<not> decision_among decision [''approve'', ''reject'', ''unknown'', ''pending''] then Inr (''unknown'', ''malformed_command_result'')
       else if decision = JStr ''reject'' \<and> \<not> is_str reason then Inr (''unknown'', ''malformed_command_result'')
       else if decision_among decision [''unknown'', ''pending''] then Inr (''unknown'', ''unsettled_writer_outcome'')
       else bindE (assess_echo K command result) (\<lambda>problem.
         case problem of
           Some r \<Rightarrow> Inr (''unknown'', r)
         | None \<Rightarrow>
             if decision \<noteq> JStr (decision_name (st_expect s)) then Inr (''failed'', ''unexpected_decision'')
             else if given (st_reason_contains s) \<and>
                  \<not> (case j_text K reason of Some t \<Rightarrow> contains_text (the (st_reason_contains s)) t | None \<Rightarrow> False)
             then Inr (''failed'', ''unexpected_rejection_reason'')
             else (case original of
                     None \<Rightarrow> Inr (''passed'', ''expected_result'')
                   | Some first \<Rightarrow>
                       bindE (andE (bindE (j_lookup result ''replayed'') (\<lambda>v. Inr (v = JBool True)))
                                   (eqE (j_lookup result ''written_at'') (j_lookup first ''written_at''))) (\<lambda>same.
                         Inr (if same then (''passed'', ''expected_result'') else (''failed'', ''replay_evidence_mismatch'')))))))"

section \<open>The runner\<close>

record scenario_env =
  se_now :: "nat \<Rightarrow> datetime"
  se_id :: "nat \<Rightarrow> string"
  se_faulted :: "nat \<Rightarrow> json res"
  se_bottle :: "nat \<Rightarrow> json res"
  se_send :: "nat \<Rightarrow> actuation_request \<Rightarrow> json res"

record step_row =
  ro_iteration :: nat
  ro_step :: scenario_step
  ro_outcome :: string
  ro_reason :: string
  ro_command :: "actuation_request option"
  ro_result :: "json option"

datatype journal_event = Submitting nat string actuation_request | Finished step_row

record run_state =
  ru_number :: nat
  ru_journal :: "journal_event list"
  ru_rows :: "step_row list"
  ru_commands :: "(string \<times> actuation_request) list"
  ru_results :: "(string \<times> json) list"

definition with_deadline :: "scenario_step \<Rightarrow> actuation_request \<Rightarrow> actuation_request res" where
  "with_deadline s command =
     (case st_deadline s of
        None \<Rightarrow> Inr command
      | Some d \<Rightarrow> bindE (plus_seconds (ar_requested_at command) (JFloat d)) (\<lambda>t. Inr (command\<lparr>ar_deadline := Some t\<rparr>)))"

definition by_name :: "string \<Rightarrow> (string \<times> 'a) list \<Rightarrow> 'a res" where
  "by_name k m = (case map_of m k of None \<Rightarrow> Inl (KeyError k) | Some v \<Rightarrow> Inr v)"

definition step_command :: "scenario_env \<Rightarrow> run_state \<Rightarrow> scenario_step \<Rightarrow> actuation_request res" where
  "step_command E w s =
     (if given (st_replay_of s) then by_name (the (st_replay_of s)) (ru_commands w)
      else bindE (if st_passed_bottle s then bindE (se_bottle E (ru_number w)) (\<lambda>obs. j_get obs ''value'') else Inr (st_value s)) (\<lambda>v.
           bindE (build_command (se_now E (ru_number w)) (se_id E (ru_number w)) (the (st_target s)) (the (st_action s)) v)
             (with_deadline s)))"

text \<open>The command of a step, or \<open>None\<close> when it is skipped because the motor is not faulted.\<close>

definition prepare :: "scenario_env \<Rightarrow> run_state \<Rightarrow> scenario_step \<Rightarrow> actuation_request option res" where
  "prepare E w s =
     bindE (if st_if_faulted s
            then bindE (bindE (se_faulted E (ru_number w)) (\<lambda>obs. j_get obs ''value'')) (\<lambda>v. Inr (j_truthy v)) else Inr True) (\<lambda>go.
       if go then bindE (step_command E w s) (\<lambda>c. Inr (Some c)) else Inr None)"

definition finish_row :: "step_row \<Rightarrow> run_state \<Rightarrow> run_state" where
  "finish_row row w = w\<lparr>ru_number := Suc (ru_number w), ru_journal := ru_journal w @ [Finished row], ru_rows := ru_rows w @ [row]\<rparr>"

definition fresh_row :: "nat \<Rightarrow> scenario_step \<Rightarrow> step_row" where
  "fresh_row i s = \<lparr>ro_iteration = i, ro_step = s, ro_outcome = ''running'', ro_reason = [], ro_command = None, ro_result = None\<rparr>"

text \<open>An exception ends the step with an open outcome; a cancellation also leaves the run.\<close>

definition broken_row :: "exn \<Rightarrow> step_row \<Rightarrow> step_row" where
  "broken_row e row =
     row\<lparr>ro_outcome := ''unknown'',
         ro_reason := (if e = CancelledError then ''interrupted'' else ''transport_or_observation_unavailable'')\<rparr>"

definition broken :: "exn \<Rightarrow> step_row \<Rightarrow> run_state \<Rightarrow> run_state \<times> step_row res" where
  "broken e row w =
     (let r = broken_row e row in (finish_row r w, if e = CancelledError then Inl CancelledError else Inr r))"

definition submit :: "nat \<Rightarrow> scenario_step \<Rightarrow> actuation_request \<Rightarrow> run_state \<Rightarrow> run_state" where
  "submit i s command w =
     w\<lparr>ru_commands := (st_name s, command) # ru_commands w,
       ru_journal := ru_journal w @ [Submitting i (st_name s) command]\<rparr>"

definition settle_step ::
  "checker \<Rightarrow> scenario_env \<Rightarrow> scenario_step \<Rightarrow> actuation_request \<Rightarrow> step_row \<Rightarrow> run_state \<Rightarrow> run_state \<times> step_row res" where
  "settle_step K E s command row w =
     (case se_send E (ru_number w) command of
        Inl e \<Rightarrow> broken e row w
      | Inr result \<Rightarrow>
          (let w' = w\<lparr>ru_results := (st_name s, result) # ru_results w\<rparr>; row' = row\<lparr>ro_result := Some result\<rparr> in
           case bindE (if given (st_replay_of s) then bindE (by_name (the (st_replay_of s)) (ru_results w')) (\<lambda>r. Inr (Some r)) else Inr None)
                  (assess K s command result) of
             Inl e \<Rightarrow> broken e row' w'
           | Inr (outcome, reason) \<Rightarrow>
               (let r = row'\<lparr>ro_outcome := outcome, ro_reason := reason\<rparr> in (finish_row r w', Inr r))))"

definition run_step :: "checker \<Rightarrow> scenario_env \<Rightarrow> nat \<Rightarrow> scenario_step \<Rightarrow> run_state \<Rightarrow> run_state \<times> step_row res" where
  "run_step K E i s w =
     (case prepare E w s of
        Inl e \<Rightarrow> broken e (fresh_row i s) w
      | Inr None \<Rightarrow>
          (let r = (fresh_row i s)\<lparr>ro_outcome := ''skipped'', ro_reason := ''motor_not_faulted''\<rparr> in (finish_row r w, Inr r))
      | Inr (Some command) \<Rightarrow>
          settle_step K E s command ((fresh_row i s)\<lparr>ro_command := Some command\<rparr>) (submit i s command w))"

text \<open>The steps of one repetition: \<open>None\<close> when all of them went through, or the outcome that ends the run.\<close>

fun run_steps :: "checker \<Rightarrow> scenario_env \<Rightarrow> nat \<Rightarrow> scenario_step list \<Rightarrow> run_state \<Rightarrow> run_state \<times> string option res" where
  "run_steps K E i [] w = (w, Inr None)"
| "run_steps K E i (s # rest) w =
     (case run_step K E i s w of
        (w', Inl e) \<Rightarrow> (w', Inl e)
      | (w', Inr row) \<Rightarrow>
          if ro_outcome row \<in> {''passed'', ''skipped''} then run_steps K E i rest w'
          else (w', Inr (Some (ro_outcome row))))"

fun repetitions :: "checker \<Rightarrow> scenario_env \<Rightarrow> scenario_step list \<Rightarrow> nat list \<Rightarrow> run_state \<Rightarrow> run_state \<times> string res" where
  "repetitions K E plan [] w = (w, Inr ''passed'')"
| "repetitions K E plan (i # is) w =
     (case run_steps K E i plan (w\<lparr>ru_commands := [], ru_results := []\<rparr>) of
        (w', Inl e) \<Rightarrow> (w', Inl e)
      | (w', Inr (Some outcome)) \<Rightarrow> (w', Inr outcome)
      | (w', Inr None) \<Rightarrow> repetitions K E plan is w')"

definition start_run :: run_state where
  "start_run = \<lparr>ru_number = 0, ru_journal = [], ru_rows = [], ru_commands = [], ru_results = []\<rparr>"

definition run_scenario ::
  "checker \<Rightarrow> scenario_env \<Rightarrow> scenario_step list \<Rightarrow> nat \<Rightarrow> real \<Rightarrow> (run_state \<times> string res) res" where
  "run_scenario K E plan n interval =
     bindE (guardE (1 \<le> n \<and> 0 \<le> interval)
              (ValueError ''positive repetitions and a finite nonnegative interval are required'')) (\<lambda>_.
       Inr (repetitions K E plan [1..<Suc n] start_run))"

section \<open>What a run shows\<close>

lemma assess_passed:
  assumes "assess K s command result original = Inr (''passed'', reason)"
  shows "j_lookup result ''decision'' = Inr (JStr (decision_name (st_expect s)))"
    and "\<exists>echoed. ck_request K result = Inr echoed \<and> echoes echoed command"
    and "\<And>first. original = Some first \<Longrightarrow> j_lookup result ''replayed'' = Inr (JBool True) \<and>
       eqE (j_lookup result ''written_at'') (j_lookup first ''written_at'') = Inr True"
proof -
  obtain d r where d: "j_lookup result ''decision'' = Inr d" "j_lookup result ''rejection_reason'' = Inr r"
    using assms by (auto simp: assess_def bindE_Inr_iff)
  have e: "assess_echo K command result = Inr None"
    using assms by (auto simp: assess_def d bindE_Inr_iff split: if_splits option.splits)
  show "j_lookup result ''decision'' = Inr (JStr (decision_name (st_expect s)))"
    using assms by (auto simp: assess_def d e split: if_splits)
  show "\<exists>echoed. ck_request K result = Inr echoed \<and> echoes echoed command"
    using e by (auto simp: assess_echo_def bindE_Inr_iff split: sum.splits if_splits)
  fix first assume "original = Some first"
  then show "j_lookup result ''replayed'' = Inr (JBool True) \<and>
       eqE (j_lookup result ''written_at'') (j_lookup first ''written_at'') = Inr True"
    using assms by (auto simp: assess_def d e bindE_Inr_iff split: if_splits)
qed

definition passed_shown :: "checker \<Rightarrow> step_row list \<Rightarrow> step_row \<Rightarrow> bool" where
  "passed_shown K rows row \<longleftrightarrow>
     (\<exists>command result echoed. ro_command row = Some command \<and> ro_result row = Some result \<and>
        j_lookup result ''decision'' = Inr (JStr (decision_name (st_expect (ro_step row)))) \<and>
        ck_request K result = Inr echoed \<and> echoes echoed command \<and>
        (given (st_replay_of (ro_step row)) \<longrightarrow> j_lookup result ''replayed'' = Inr (JBool True) \<and>
           (\<exists>prior \<in> set rows. ro_iteration prior = ro_iteration row \<and> Some (st_name (ro_step prior)) = st_replay_of (ro_step row) \<and>
              ro_command prior = Some command)))"

text \<open>The rows so far, the commands of the current repetition, and what the journal announced.\<close>

definition run_inv :: "checker \<Rightarrow> nat \<Rightarrow> run_state \<Rightarrow> bool" where
  "run_inv K i w \<longleftrightarrow>
     (\<forall>row \<in> set (ru_rows w). ro_outcome row = ''passed'' \<longrightarrow> passed_shown K (ru_rows w) row) \<and>
     (\<forall>row \<in> set (ru_rows w). \<forall>c. ro_command row = Some c \<longrightarrow>
        Submitting (ro_iteration row) (st_name (ro_step row)) c \<in> set (ru_journal w)) \<and>
     (\<forall>(name, c) \<in> set (ru_commands w). \<exists>row \<in> set (ru_rows w).
        ro_iteration row = i \<and> st_name (ro_step row) = name \<and> ro_command row = Some c)"

lemma passed_shown_more: "passed_shown K rows row \<Longrightarrow> passed_shown K (rows @ new) row"
  unfolding passed_shown_def by (elim exE) (intro exI, auto)

lemma finish_inv:
  assumes "run_inv K i w" and "ro_iteration row = i"
    and "ro_outcome row = ''passed'' \<Longrightarrow> passed_shown K (ru_rows w) row"
    and "ro_command row = None"
  shows "run_inv K i (finish_row row w)"
  using assms passed_shown_more
  by (fastforce simp: run_inv_def finish_row_def)

text \<open>A step that submits a command: the row goes in together with it.\<close>

lemma finish_submitted:
  assumes "run_inv K i w" and "ro_iteration row = i" and "ro_step row = s" and "ro_command row = Some command"
    and "ro_outcome row = ''passed'' \<Longrightarrow> passed_shown K (ru_rows w) row"
    and "ru_rows w' = ru_rows w" and "ru_commands w' = (st_name s, command) # ru_commands w"
    and "ru_journal w' = ru_journal w @ [Submitting i (st_name s) command]"
  shows "run_inv K i (finish_row row w')"
proof -
  have rows: "ru_rows (finish_row row w') = ru_rows w @ [row]" using assms(6) by (simp add: finish_row_def)
  have journal: "set (ru_journal w) \<subseteq> set (ru_journal (finish_row row w'))"
      "Submitting i (st_name s) command \<in> set (ru_journal (finish_row row w'))"
    using assms(8) by (auto simp: finish_row_def)
  have commands: "ru_commands (finish_row row w') = (st_name s, command) # ru_commands w"
    using assms(7) by (simp add: finish_row_def)
  show ?thesis
    unfolding run_inv_def rows commands
    using assms(1-5) journal passed_shown_more unfolding run_inv_def by fastforce
qed

definition step_done :: "checker \<Rightarrow> nat \<Rightarrow> scenario_step \<Rightarrow> run_state \<Rightarrow> run_state \<times> step_row res \<Rightarrow> bool" where
  "step_done K i s w out \<longleftrightarrow>
     (\<exists>row. ru_rows (fst out) = ru_rows w @ [row] \<and> ro_step row = s \<and> run_inv K i (fst out) \<and>
        (snd out = Inr row \<or> snd out = Inl CancelledError))"

lemma broken_done:
  assumes "run_inv K i w0" and "ro_iteration row = i" and "ro_step row = s"
    and "ro_command row = None \<and> w = w0 \<or>
      (\<exists>command. ro_command row = Some command \<and> ru_rows w = ru_rows w0 \<and> ru_commands w = (st_name s, command) # ru_commands w0 \<and>
         ru_journal w = ru_journal w0 @ [Submitting i (st_name s) command])"
  shows "step_done K i s w0 (broken e row w)"
proof -
  let ?r = "broken_row e row"
  have r: "ro_outcome ?r \<noteq> ''passed''" "ro_step ?r = s" "ro_iteration ?r = i" "ro_command ?r = ro_command row"
    using assms(2,3) by (simp_all add: broken_row_def)
  have "run_inv K i (finish_row ?r w)"
    using assms(4)
  proof
    assume "ro_command row = None \<and> w = w0"
    then show ?thesis using finish_inv [OF assms(1), of ?r] r by simp
  next
    assume "\<exists>command. ro_command row = Some command \<and> ru_rows w = ru_rows w0 \<and> ru_commands w = (st_name s, command) # ru_commands w0 \<and>
         ru_journal w = ru_journal w0 @ [Submitting i (st_name s) command]"
    then show ?thesis using finish_submitted [OF assms(1), of ?r s _ w] r by auto
  qed
  moreover have "ru_rows (finish_row ?r w) = ru_rows w0 @ [?r]" using assms(4) by (auto simp: finish_row_def)
  ultimately show ?thesis using r(2) by (auto simp: step_done_def broken_def Let_def)
qed

lemma prepared_replay:
  assumes "prepare E w s = Inr (Some command)" and "given (st_replay_of s)"
  shows "(the (st_replay_of s), command) \<in> set (ru_commands w)"
  using assms by (auto simp: prepare_def step_command_def bindE_Inr_iff by_name_def split: if_splits option.splits dest: map_of_SomeD)

lemma settle_done:
  assumes "run_inv K i w0" and "prepare E w0 s = Inr (Some command)"
  shows "step_done K i s w0
    (settle_step K E s command ((fresh_row i s)\<lparr>ro_command := Some command\<rparr>) (submit i s command w0))"
proof -
  let ?row = "(fresh_row i s)\<lparr>ro_command := Some command\<rparr>" and ?w = "submit i s command w0"
  have f: "ro_iteration ?row = i" "ro_step ?row = s" "ro_command ?row = Some command" by (simp_all add: fresh_row_def)
  have w: "ru_rows ?w = ru_rows w0" "ru_commands ?w = (st_name s, command) # ru_commands w0"
      "ru_journal ?w = ru_journal w0 @ [Submitting i (st_name s) command]" by (simp_all add: submit_def)
  show ?thesis
  proof (cases "se_send E (ru_number ?w) command")
    case (Inl e)
    then show ?thesis using broken_done [OF assms(1) f(1,2), of ?w] f w by (auto simp: settle_step_def)
  next
    case (Inr result)
    let ?w' = "?w\<lparr>ru_results := (st_name s, result) # ru_results ?w\<rparr>" and ?row' = "?row\<lparr>ro_result := Some result\<rparr>"
    let ?check = "bindE (if given (st_replay_of s) then bindE (by_name (the (st_replay_of s)) (ru_results ?w')) (\<lambda>r. Inr (Some r)) else Inr None)
        (assess K s command result)"
    show ?thesis
    proof (cases ?check)
      case (Inl e)
      then have "settle_step K E s command ?row ?w = broken e ?row' ?w'" using Inr by (simp add: settle_step_def Let_def)
      then show ?thesis using broken_done [OF assms(1), of ?row' s ?w'] f w by auto
    next
      case check: (Inr p)
      obtain outcome reason where p: "p = (outcome, reason)" by (cases p)
      let ?r = "?row'\<lparr>ro_outcome := outcome, ro_reason := reason\<rparr>"
      have run: "settle_step K E s command ?row ?w = (finish_row ?r ?w', Inr ?r)"
        using Inr check p by (simp add: settle_step_def Let_def)
      have "passed_shown K (ru_rows w0) ?r" if passed: "ro_outcome ?r = ''passed''"
      proof -
        obtain original where a: "assess K s command result original = Inr (''passed'', reason)"
            "given (st_replay_of s) \<longrightarrow> original \<noteq> None"
          using check p passed by (auto simp: bindE_Inr_iff split: if_splits)
        note shown = assess_passed [OF a(1)]
        have "j_lookup result ''replayed'' = Inr (JBool True) \<and> (\<exists>prior \<in> set (ru_rows w0). ro_iteration prior = i \<and>
            Some (st_name (ro_step prior)) = st_replay_of s \<and> ro_command prior = Some command)" if that: "given (st_replay_of s)"
        proof -
          have "st_replay_of s = Some (the (st_replay_of s))" using that by (simp add: given_def)
          moreover have "(the (st_replay_of s), command) \<in> set (ru_commands w0)" using prepared_replay [OF assms(2) that] .
          ultimately show ?thesis using assms(1) shown(3) a(2) that by (fastforce simp: run_inv_def)
        qed
        then show ?thesis using shown(1,2) by (auto simp: passed_shown_def fresh_row_def)
      qed
      then have "run_inv K i (finish_row ?r ?w')"
        using finish_submitted [OF assms(1), of ?r s command ?w'] w by (simp add: fresh_row_def)
      then show ?thesis unfolding run step_done_def by (simp add: finish_row_def w fresh_row_def)
    qed
  qed
qed

lemma run_step_done:
  assumes "run_inv K i w"
  shows "step_done K i s w (run_step K E i s w)"
proof (cases "prepare E w s")
  case (Inl e)
  then show ?thesis using broken_done [OF assms, of "fresh_row i s" s w] by (simp add: run_step_def fresh_row_def)
next
  case (Inr c)
  show ?thesis
  proof (cases c)
    case None
    let ?r = "(fresh_row i s)\<lparr>ro_outcome := ''skipped'', ro_reason := ''motor_not_faulted''\<rparr>"
    have "run_inv K i (finish_row ?r w)" by (rule finish_inv [OF assms]) (simp_all add: fresh_row_def)
    moreover have "run_step K E i s w = (finish_row ?r w, Inr ?r)" using None Inr by (simp add: run_step_def Let_def)
    ultimately show ?thesis by (simp add: step_done_def) (simp add: finish_row_def fresh_row_def)
  next
    case (Some command)
    then show ?thesis using Inr settle_done [OF assms] by (simp add: run_step_def)
  qed
qed

lemma run_inv_restart: "run_inv K i w \<Longrightarrow> run_inv K j (w\<lparr>ru_commands := [], ru_results := []\<rparr>)"
  by (simp add: run_inv_def)

definition went_through :: "step_row \<Rightarrow> bool" where
  "went_through row \<longleftrightarrow> ro_outcome row \<in> {''passed'', ''skipped''}"

text \<open>The rows a stretch of the run adds: every one but the last went through.\<close>

definition adds_rows :: "run_state \<Rightarrow> run_state \<Rightarrow> step_row list \<Rightarrow> bool" where
  "adds_rows w w' rows \<longleftrightarrow> ru_rows w' = ru_rows w @ rows \<and> list_all went_through (butlast rows)"

lemma run_steps_done:
  assumes "run_steps K E i steps w = (w', r)" and "run_inv K i w"
  shows "run_inv K i w' \<and> (\<exists>rows. adds_rows w w' rows \<and>
     (r = Inr None \<longrightarrow> list_all went_through rows \<and> map ro_step rows = steps)) \<and>
     (\<forall>outcome. r = Inr (Some outcome) \<longrightarrow> outcome \<noteq> ''passed'')"
  using assms
proof (induction steps arbitrary: w)
  case (Cons s rest)
  obtain w1 r1 where 1: "run_step K E i s w = (w1, r1)" by fastforce
  then obtain row where row: "ru_rows w1 = ru_rows w @ [row]" "ro_step row = s" "run_inv K i w1"
      "r1 = Inr row \<or> r1 = Inl CancelledError"
    using run_step_done [OF Cons.prems(2), where E = E and s = s] by (auto simp: step_done_def)
  show ?case
  proof (cases "r1 = Inr row \<and> went_through row")
    case True
    then have "run_steps K E i rest w1 = (w', r)" using Cons.prems(1) 1 by (simp add: went_through_def)
    from Cons.IH [OF this row(3)] obtain rows where rest: "run_inv K i w'" "ru_rows w' = ru_rows w1 @ rows"
        "list_all went_through (butlast rows)" "r = Inr None \<longrightarrow> list_all went_through rows \<and> map ro_step rows = rest"
        "\<forall>outcome. r = Inr (Some outcome) \<longrightarrow> outcome \<noteq> ''passed''"
      by (auto simp: adds_rows_def)
    have "adds_rows w w' (row # rows)" using rest row True by (auto simp: adds_rows_def)
    moreover have "r = Inr None \<longrightarrow> list_all went_through (row # rows) \<and> map ro_step (row # rows) = s # rest"
      using rest(4) row(2) True by simp
    ultimately show ?thesis using rest(1,5) by (intro conjI exI [of _ "row # rows"])
  next
    case False
    then have "w' = w1 \<and> r \<noteq> Inr None \<and> (\<forall>outcome. r = Inr (Some outcome) \<longrightarrow> outcome \<noteq> ''passed'')" using Cons.prems(1) 1 row(4) by (auto simp: went_through_def split: if_splits)
    then show ?thesis using row by (intro conjI exI [of _ "[row]"]) (auto simp: adds_rows_def)
  qed
qed (auto simp: adds_rows_def)

lemma repetitions_done:
  assumes "repetitions K E plan is w = (w', r)" and "run_inv K j w"
  shows "(\<exists>k. run_inv K k w') \<and> (\<exists>rows. adds_rows w w' rows \<and>
     (r = Inr ''passed'' \<longrightarrow> list_all went_through rows \<and> map ro_step rows = concat (replicate (length is) plan)))"
  using assms
proof (induction "is" arbitrary: w j)
  case (Cons i rest)
  let ?w = "w\<lparr>ru_commands := [], ru_results := []\<rparr>"
  obtain w1 r1 where 1: "run_steps K E i plan ?w = (w1, r1)" by fastforce
  from run_steps_done [OF 1 run_inv_restart [OF Cons.prems(2)]] obtain rows1 where first: "run_inv K i w1"
      "ru_rows w1 = ru_rows w @ rows1" "list_all went_through (butlast rows1)"
      "r1 = Inr None \<longrightarrow> list_all went_through rows1 \<and> map ro_step rows1 = plan"
      "\<forall>outcome. r1 = Inr (Some outcome) \<longrightarrow> outcome \<noteq> ''passed''"
    by (auto simp: adds_rows_def)
  show ?case
  proof (cases "r1 = Inr None")
    case True
    then have "repetitions K E plan rest w1 = (w', r)" using Cons.prems(1) 1 by simp
    from Cons.IH [OF this first(1)] obtain rows2 where "\<exists>k. run_inv K k w'" "ru_rows w' = ru_rows w1 @ rows2"
        "list_all went_through (butlast rows2)"
        "r = Inr ''passed'' \<longrightarrow> list_all went_through rows2 \<and> map ro_step rows2 = concat (replicate (length rest) plan)"
      by (auto simp: adds_rows_def)
    then show ?thesis using first True
      by (intro conjI exI [of _ "rows1 @ rows2"]) (auto simp: adds_rows_def butlast_append)
  next
    case False
    then have "w' = w1" "r \<noteq> Inr ''passed''" using Cons.prems(1) 1 first(5) by (auto split: sum.splits option.splits)
    then show ?thesis using first by (auto simp: adds_rows_def)
  qed
qed (auto simp: adds_rows_def)

text \<open>
  C33. A run of a scenario stops at the first step that does not go through; a step it reports as passed
  was answered with the expected decision on a request that echoes the submitted command, a passed replay
  repeats the command of its earlier step and is marked as replayed; no command was sent that the journal
  had not announced; and a run that passes took every step of every repetition, in order.
\<close>
theorem scenario_pass_sound:
  assumes "run_scenario K E plan n interval = Inr (w, r)"
  shows "list_all went_through (butlast (ru_rows w)) \<and>
    (\<forall>row \<in> set (ru_rows w). ro_outcome row = ''passed'' \<longrightarrow> passed_shown K (ru_rows w) row) \<and>
    (\<forall>row \<in> set (ru_rows w). \<forall>c. ro_command row = Some c \<longrightarrow>
       Submitting (ro_iteration row) (st_name (ro_step row)) c \<in> set (ru_journal w)) \<and>
    (r = Inr ''passed'' \<longrightarrow> list_all went_through (ru_rows w) \<and> map ro_step (ru_rows w) = concat (replicate n plan))"
proof -
  have run: "repetitions K E plan [1..<Suc n] start_run = (w, r)"
    using assms by (auto simp: run_scenario_def bindE_Inr_iff)
  have "run_inv K 0 start_run" by (simp add: run_inv_def start_run_def)
  from repetitions_done [OF run this] obtain k rows where "run_inv K k w" "adds_rows start_run w rows"
      "r = Inr ''passed'' \<longrightarrow> list_all went_through rows \<and> map ro_step rows = concat (replicate n plan)"
    by auto
  then show ?thesis by (auto simp: run_inv_def adds_rows_def start_run_def)
qed

section \<open>An example\<close>

definition stop_command :: actuation_request where
  "stop_command =
     (case build_command (utc 0) ''c1'' ''capper'' ''stop'' JNull of Inr c \<Rightarrow> c | Inl e \<Rightarrow> undefined)"

definition stop_step :: scenario_step where
  "stop_step =
     \<lparr>st_name = ''stop'', st_target = Some ''capper'', st_action = Some ''stop'', st_value = JNull, st_passed_bottle = False,
      st_deadline = None, st_replay_of = None, st_if_faulted = False, st_expect = Approve, st_reason_contains = None\<rparr>"

definition stop_twice :: "scenario_step list" where
  "stop_twice = [stop_step, stop_step\<lparr>st_name := ''again'', st_target := None, st_action := None, st_replay_of := Some ''stop''\<rparr>]"

definition stop_env :: scenario_env where
  "stop_env =
     \<lparr>se_now = (\<lambda>n. utc 0), se_id = (\<lambda>n. ''c1''), se_faulted = (\<lambda>n. Inl (TimeoutError [])), se_bottle = (\<lambda>n. Inl (TimeoutError [])),
      se_send = (\<lambda>n c. Inr (JObj [(''decision'', JStr ''approve''), (''written_at'', JTime (utc 1)), (''replayed'', JBool (n = 1))]))\<rparr>"

definition scenario_checker :: checker where
  "scenario_checker = plain_checker\<lparr>ck_request := \<lambda>v. Inr stop_command\<rparr>"

lemma stop_twice_valid: "scenario_ok stop_twice = Inr ()"
  by code_simp

lemma stop_twice_passes:
  "map_sum id (\<lambda>(w, r). (r, map ro_outcome (ru_rows w), length (ru_journal w)))
     (run_scenario scenario_checker stop_env stop_twice 1 0) = Inr (Inr ''passed'', [''passed'', ''passed''], 4)"
  by code_simp

theorem scenario_pass_sound_witness:
  "\<exists>w. run_scenario scenario_checker stop_env stop_twice 1 0 = Inr (w, Inr ''passed'') \<and>
     map ro_step (ru_rows w) = stop_twice \<and> list_all (passed_shown scenario_checker (ru_rows w)) (ru_rows w)"
proof -
  obtain w where run: "run_scenario scenario_checker stop_env stop_twice 1 0 = Inr (w, Inr ''passed'')"
      "map ro_outcome (ru_rows w) = [''passed'', ''passed'']"
    using stop_twice_passes by (cases "run_scenario scenario_checker stop_env stop_twice 1 0") auto
  note shown = scenario_pass_sound [OF run(1)]
  have passed: "\<forall>row \<in> set (ru_rows w). ro_outcome row = ''passed''" using run(2) by auto
  have "map ro_step (ru_rows w) = concat (replicate 1 stop_twice)" using shown by blast
  moreover have "list_all (passed_shown scenario_checker (ru_rows w)) (ru_rows w)"
    using shown passed unfolding list_all_iff by blast
  ultimately show ?thesis using run(1) by auto
qed

end
