(* ===== verification/Spec2Isabelle.thy ===== *)
theory Spec2Isabelle
  imports Authorization Native_Mailbox Inspection_Stream Positions Signal_Publisher Source_Journal Event_Validator
    Amqp_Ingress Actuation_Pipeline Telemetry_Pipeline Decision_Agent Subscriber_Runs S7_Path Source_Receipts Opcua_Simulator Conformance_Report
    Conformance_Bindings Data_Conformance Recovery_Checks Fault_Checks Experiment_Stats Fault_Proxy Capture_Clock Scenarios
begin

text \<open>
  A verification library of the EirVah edge implementation: the Python services under
  \<open>src/services\<close>, their libraries under \<open>src/libs\<close>, and the evidence checkers under \<open>src/scripts\<close>.

  The program. Simulated field devices (OPC UA, Modbus, S7) are read by data subscribers, which put
  raw signals on a NATS bus. The telemetry orchestrator passes each signal through a converter, a
  contextualizer and an MQTT publisher. In the other direction commands arrive over AMQP, are signed
  on ingress, validated against a policy by a worker that signs its approval, and executed by a
  writer, whose ledger keeps a command from being started twice and which talks to the devices
  through a mailbox of registers. A decision agent closes the loop: it consumes observations, stores
  inspections durably, requests speed changes and rejections, and returns signed receipts, after
  which a device drops the inspection from its outbox. The scripts run experiments on such a system
  and judge the evidence they retain.

  Conventions. Each theory models the source files its opening text names, with a definition per
  function, handler or step, in the order of the code. Exceptions are values (\<open>exn\<close>, \<open>'a res\<close> in
  \<open>Edge_Prelude\<close>); code that changes a state and may raise is a function from the state to the new
  state and a result (\<open>Effects\<close>), in which an exception keeps the state it was raised in. Clock
  readings, random numbers, cryptography, the clients of the brokers and devices, and the failures
  of all of these are arguments, so a theorem holds for every behaviour of them, unless it names a
  hypothesis. Python integers are \<open>int\<close>; registers are bounded by the ranges the code checks or
  masks them to; floats are exact reals with infinities and NaN (\<open>pyfloat\<close>), and the decimal text of
  a float counts as its value.

  The theories, by layer:

  \<^item> Vocabulary. \<open>Edge_Prelude\<close> (exceptions, results, floats, times, strings), \<open>Effects\<close> (stateful
    code and the preservation rules \<open>keeps\<close>), \<open>Uns\<close>, \<open>Signals\<close>, \<open>Measurement\<close>, \<open>Inspection\<close>, \<open>Sosa\<close>
    and \<open>Authorization\<close> (\<open>eirvah_contracts\<close>), \<open>Canonical_Json\<close> (the signed text of a document),
    \<open>Observability\<close> (\<open>eirvah_observability\<close>), \<open>Service_World\<close> (what the message services share).
    Shown: parsing and printing agree, codecs are inverse, a normalized measurement is on the grid
    and in range, evidence is accepted only if it was signed for the same command.

  \<^item> Devices. \<open>Device_Controls\<close> and \<open>Inspection_Stream\<close> (\<open>eirvah_controls\<close>), \<open>Positions\<close> (stream
    positions, both ends), \<open>Source_Journal\<close> (the durable outbox), \<open>Modbus_Simulator\<close> and
    \<open>Modbus_Recovery\<close>, \<open>S7_Simulator\<close>, \<open>Opcua_Machines\<close> and \<open>Opcua_Simulator\<close>. Shown: a bottle is
    ejected once, a command carried out once across crashes and restarts, a restart restores the
    plant, the journal accounts for every event, the data blocks and nodes show the machines, and
    the temperature solves its differential equation.

  \<^item> Reading. \<open>Data_Subscribers\<close> (the three services), \<open>Subscriber_Runs\<close> (positions go strictly up,
    a replaced connection is fenced), \<open>S7_Path\<close> (from machine to reading), \<open>Source_Receipts\<close> (from
    the receipt of the consumer back into the registers of the device), \<open>Telemetry_Workers\<close> and
    \<open>Telemetry_Pipeline\<close> (the composition of the workers is the direct function).

  \<^item> Writing. \<open>Command_Ledger\<close> and \<open>Execution_Contract\<close> (the ledger, and the locale
    \<open>execution_ledger\<close> with the laws a writer relies on), \<open>Native_Write\<close> and \<open>Native_Mailbox\<close> (the
    mailbox protocol, alone and against a polling device), \<open>Signal_Publisher\<close> (the writer),
    \<open>Event_Validator\<close>, \<open>Amqp_Ingress\<close>, \<open>Actuation_Pipeline\<close>. Shown: in every reachable state a
    command was started under one claim only and with a verified approval, a native write that
    returns was applied once, every well-formed request is answered, every delivery settled once.

  \<^item> Deciding. \<open>Consumer_Store\<close> (inbox and outbox), \<open>State_Tracker\<close>, \<open>Decision_Rules\<close>, \<open>Rejections\<close>,
    \<open>Decision_Agent\<close>. Shown: a bottle is commanded once, a receipt follows storage, and a rejection
    gets one outcome, with a confirmation only after an acknowledged write and later feedback.

  \<^item> Judging. \<open>Py_Values\<close> (Python's operators on decoded JSON of any shape), \<open>Conformance_Order\<close>,
    \<open>Conformance_Execution\<close>, \<open>Conformance_Structure\<close>, \<open>Conformance_Bindings\<close> and
    \<open>Conformance_Report\<close> (\<open>scripts/conformance.py\<close>), \<open>Recovery_Checks\<close>, \<open>Fault_Checks\<close>,
    \<open>Data_Conformance\<close>, \<open>Experiment_Stats\<close>, \<open>Fault_Proxy\<close>, \<open>Capture_Clock\<close> and \<open>Scenarios\<close> (the
    scripts of the same names or roles). Shown: what a passed check says about the evidence, that
    the derived order of records is the order of their true times, that the uncertainty written by
    a calibration bounds its error, that the records of the fault proxy are true, and what the
    outcome of a scenario run means.

  Interfaces. \<open>device_control\<close> (\<open>Device_Controls\<close>), \<open>position_guard\<close> (\<open>Positions\<close>, also interpreted
  on the inbox in \<open>Consumer_Store\<close>), \<open>execution_ledger\<close> (\<open>Execution_Contract\<close>) and \<open>fifo_outbox\<close>
  (\<open>Source_Journal\<close>) are locales; each is interpreted on the code's own operations.

  Termination and fuel. Loops over a given list or with a measure are total functions. The wait for
  a native acknowledgement (\<open>ack_poll\<close>) has fuel; \<open>acknowledgement_wait_ends\<close> shows that a wait of
  less than \<open>n / 40\<close> seconds never uses up \<open>n + 1\<close> rounds, because a round sleeps for 25 ms. The service loops of the subscribers run until the service is stopped; their fuel is the
  number of connections and rounds before that, and the theorems hold for every value of it.

  Not modelled: the brokers, device clients and servers, HTTP endpoints beyond health, log lines,
  metric objects (counters are increments by name), pauses, YAML and pydantic decoding (decoded
  values are arguments, and the validators the program adds are definitions), sqlite itself (a
  transaction is one step that happens as a whole or not at all), the random generators, and
  concurrency inside a handler between its suspension points, save where a theory says so. A tick of
  the OPC UA simulator is atomic. In \<open>Experiment_Stats\<close> samples are finite; in \<open>Capture_Clock\<close> the
  fields of a probe are present; in \<open>Fault_Proxy\<close> a device answers a frame at once, if it answers;
  \<open>isalnum\<close> in \<open>Conformance_Bindings\<close> is that of Latin-1 texts. The drivers that start and stop
  clusters, command-line parsing, \<open>scripts/assurance_checks.py\<close> and the load tools are left out.
\<close>

end
